(* ===== verification/Prelude.thy ===== *)
theory Prelude
  imports Complex_Main "HOL-Library.AList"
begin

text \<open>
  Shared vocabulary of the development: the collections of rewrite rules the component theories
  extend, generic lemmas on lists, options and association lists, ECMAScript rounding and
  remainder on exact numbers, and the contract of a \<^emph>\<open>normaliser\<close> (a reader that turns raw
  input into a well-formed value or rejects it), which several components provide.
\<close>

named_theorems billing_simps \<open>unfolding rules of the billing components\<close>
named_theorems realtime_simps \<open>unfolding rules of the realtime components\<close>
named_theorems conversation_simps \<open>unfolding rules of the conversation components\<close>

section \<open>Lists and options\<close>

lemma filter_length_less:
  "x \<in> set xs \<Longrightarrow> \<not> P x \<Longrightarrow> length (filter P xs) < length xs"
  by (induction xs) (auto simp: less_Suc_eq_le)

lemma find_Some_D: "List.find P xs = Some x \<Longrightarrow> x \<in> set xs \<and> P x"
  by (induction xs) (auto split: if_splits)

lemma find_None_all: "List.find P xs = None \<longleftrightarrow> (\<forall>x\<in>set xs. \<not> P x)"
  by (induction xs) auto

lemma takeWhile_all: "(\<And>x. x \<in> set xs \<Longrightarrow> P x) \<Longrightarrow> takeWhile P xs = xs"
  by (induction xs) auto

lemma dropWhile_none: "(\<And>x. x \<in> set xs \<Longrightarrow> P x) \<Longrightarrow> dropWhile P xs = []"
  by (induction xs) auto

lemma takeWhile_append_stop:
  "(\<And>x. x \<in> set xs \<Longrightarrow> P x) \<Longrightarrow> \<not> P y \<Longrightarrow> takeWhile P (xs @ y # ys) = xs"
  by (induction xs) auto

lemma dropWhile_append_stop:
  "(\<And>x. x \<in> set xs \<Longrightarrow> P x) \<Longrightarrow> \<not> P y \<Longrightarrow> dropWhile P (xs @ y # ys) = y # ys"
  by (induction xs) auto

lemma map_of_map_filter:
  "map_of (List.map_filter (\<lambda>k. map_option (\<lambda>v. (k, g v)) (m k)) ks) k
   = (if k \<in> set ks then map_option g (m k) else None)"
  by (induction ks) (auto simp: List.map_filter_def split: option.splits)

text \<open>A \<open>??\<close> chain: the first operand that is not null or undefined.\<close>

fun coalesce :: "'a option \<Rightarrow> 'a option \<Rightarrow> 'a option" where
  "coalesce (Some x) _ = Some x"
| "coalesce None y = y"

lemma coalesce_None_iff [simp]: "coalesce x y = None \<longleftrightarrow> x = None \<and> y = None"
  by (cases x) auto

lemma coalesce_assoc: "coalesce (coalesce x y) z = coalesce x (coalesce y z)"
  by (cases x) auto

lemma coalesce_None_right [simp]: "coalesce x None = x"
  by (cases x) auto

text \<open>Updating the value of a present key of an association list.\<close>

lemma map_of_map_entry: "map_of (AList.map_entry k f m) j = (if j = k then map_option f (map_of m k) else map_of m j)"
  by (induction m) auto

lemma keys_map_entry: "map fst (AList.map_entry k f m) = map fst m"
  by (induction m) auto

lemma length_map_entry: "length (AList.map_entry k f m) = length m"
  using arg_cong [OF keys_map_entry, of length k f m] by simp

section \<open>Rounding and remainder\<close>

text \<open>
  \<open>Math.round\<close> rounds halves towards plus infinity; \<open>%\<close> is the remainder of truncating
  division, so it takes the dividend's sign.
\<close>

definition js_round :: "rat \<Rightarrow> int" where
  "js_round x = \<lfloor>x + 1 / 2\<rfloor>"

definition js_trunc :: "rat \<Rightarrow> int" where
  "js_trunc x = (if x < 0 then \<lceil>x\<rceil> else \<lfloor>x\<rfloor>)"

definition tdiv :: "int \<Rightarrow> int \<Rightarrow> int" where
  "tdiv a b = sgn a * sgn b * (\<bar>a\<bar> div \<bar>b\<bar>)"

definition trem :: "int \<Rightarrow> int \<Rightarrow> int" where
  "trem a b = sgn a * (\<bar>a\<bar> mod \<bar>b\<bar>)"

lemma floor_rat_numerals [simp]:
  "\<lfloor>numeral a / numeral b :: rat\<rfloor> = numeral a div numeral b"
  "\<lfloor>1 / numeral b :: rat\<rfloor> = 1 div numeral b"
  "\<lfloor>- numeral a / numeral b :: rat\<rfloor> = - numeral a div numeral b"
  "\<lfloor>- (1 / numeral b) :: rat\<rfloor> = - 1 div numeral b"
  "\<lfloor>- (numeral a / numeral b) :: rat\<rfloor> = - numeral a div numeral b"
  using floor_divide_of_int_eq [of "numeral a" "numeral b"]
    floor_divide_of_int_eq [of "1" "numeral b"]
    floor_divide_of_int_eq [of "- numeral a" "numeral b"]
    floor_divide_of_int_eq [of "- 1" "numeral b"] by simp_all

lemma js_round_bounds: "x - 1 / 2 < of_int (js_round x) \<and> of_int (js_round x) \<le> x + 1 / 2"
  unfolding js_round_def by linarith

lemma js_round_of_int [simp]: "js_round (of_int n) = n"
  unfolding js_round_def by linarith

lemma js_round_mono: "x \<le> y \<Longrightarrow> js_round x \<le> js_round y"
  unfolding js_round_def by (simp add: floor_mono)

lemma js_round_nonneg: "0 \<le> x \<Longrightarrow> 0 \<le> js_round x"
  unfolding js_round_def by linarith

lemma trem_nonneg_eq: "0 \<le> a \<Longrightarrow> 0 < b \<Longrightarrow> trem a b = a mod b"
  unfolding trem_def by (cases "a = 0") auto

lemma tdiv_nonneg_eq: "0 \<le> a \<Longrightarrow> 0 < b \<Longrightarrow> tdiv a b = a div b"
  unfolding tdiv_def by (cases "a = 0") auto

lemma tdiv_minus_left [simp]: "tdiv (- a) b = - tdiv a b"
  unfolding tdiv_def by (simp add: sgn_if)

lemma tdiv_trem: "b \<noteq> 0 \<Longrightarrow> b * tdiv a b + trem a b = a"
proof -
  assume b: "b \<noteq> 0"
  have "\<bar>b\<bar> * (\<bar>a\<bar> div \<bar>b\<bar>) + \<bar>a\<bar> mod \<bar>b\<bar> = \<bar>a\<bar>" by simp
  then have "sgn a * (\<bar>b\<bar> * (\<bar>a\<bar> div \<bar>b\<bar>)) + sgn a * (\<bar>a\<bar> mod \<bar>b\<bar>) = sgn a * \<bar>a\<bar>"
    by (metis distrib_left)
  moreover have "sgn b * b = \<bar>b\<bar>" by (simp add: abs_sgn mult.commute)
  ultimately show ?thesis
    unfolding tdiv_def trem_def
    by (metis mult.assoc mult.commute mult_sgn_abs)
qed

lemma mod_add_cancel_nat:
  fixes S x y n :: nat
  assumes "(S + x) mod n = (S + y) mod n" shows "x mod n = y mod n"
proof -
  have "(int S + int x) mod int n = (int S + int y) mod int n"
    using assms by (metis of_nat_add zmod_int)
  then have "(int S + int x - int S) mod int n = (int S + int y - int S) mod int n"
    by (rule mod_diff_cong) simp
  then show ?thesis by (simp flip: zmod_int)
qed

lemma mod_mult_add_left: "(a mod n * k + b) mod n = (a * k + b) mod (n :: nat)"
  by (metis mod_add_left_eq mod_mult_left_eq)

section \<open>Normalisers\<close>

text \<open>
  A normaliser reads raw input (what a form, a provider or the database holds) into a value, or
  rejects it. \<open>embed\<close> is how a value is written back as raw input. The two laws make reading
  stable: what was read is well formed, and a well-formed value reads back as itself.
\<close>

locale normalizer =
  fixes norm :: "'r \<Rightarrow> 'v option"
    and embed :: "'v \<Rightarrow> 'r"
    and wellformed :: "'v \<Rightarrow> bool"
  assumes norm_wellformed: "norm r = Some v \<Longrightarrow> wellformed v"
    and norm_embed: "wellformed v \<Longrightarrow> norm (embed v) = Some v"
begin

lemma norm_stable: "norm r = Some v \<Longrightarrow> norm (embed v) = Some v"
  by (rule norm_embed [OF norm_wellformed])

lemma wellformed_iff: "wellformed v \<longleftrightarrow> (\<exists>r. norm r = Some v)"
  using norm_wellformed norm_embed by blast

lemma embed_inj: "wellformed v \<Longrightarrow> wellformed w \<Longrightarrow> embed v = embed w \<Longrightarrow> v = w"
  by (metis norm_embed option.inject)

lemma norm_twice: "norm r = Some v \<Longrightarrow> Option.bind (norm r) (\<lambda>x. norm (embed x)) = norm r"
  by (simp add: norm_stable)

end

end
