(* ===== verification/Js_Values.thy ===== *)
theory Js_Values
  imports Prelude "HOL-Library.Char_ord"
begin

text \<open>
  The part of ECMAScript the modelled functions rest on: numbers, untyped (JSON) values with
  their truthiness and numeric coercion, strings with \<open>trim\<close>, \<open>slice\<close>, case mapping and
  decimal printing and parsing. A string is a list of characters standing for the code units
  U+0000 to U+00FF; the one component that reads wider text (Persian digits) uses lists of code
  units instead. A finite number is an exact rational: rounding to the nearest double is not
  modelled, the range is (a decimal literal beyond the largest double is an infinity).
\<close>

section \<open>Numbers\<close>

datatype jsnum = NaN | PInf | NInf | Fin rat

fun num_is_finite :: "jsnum \<Rightarrow> bool" where
  "num_is_finite (Fin _) = True"
| "num_is_finite _ = False"

definition rat_is_int :: "rat \<Rightarrow> bool" where
  "rat_is_int q \<longleftrightarrow> of_int \<lfloor>q\<rfloor> = q"

definition max_safe_integer :: int where
  "max_safe_integer = 9007199254740991"

fun num_is_safe_integer :: "jsnum \<Rightarrow> bool" where
  "num_is_safe_integer (Fin q) \<longleftrightarrow> rat_is_int q \<and> \<bar>q\<bar> \<le> of_int max_safe_integer"
| "num_is_safe_integer _ \<longleftrightarrow> False"

fun num_value :: "jsnum \<Rightarrow> rat option" where
  "num_value (Fin q) = Some q"
| "num_value _ = None"

lemma num_value_Some [simp]: "num_value n = Some q \<longleftrightarrow> n = Fin q"
  by (cases n) auto

lemma num_is_finite_iff: "num_is_finite n \<longleftrightarrow> (\<exists>q. n = Fin q)"
  by (cases n) auto

lemma rat_is_int_of_int [simp]: "rat_is_int (of_int n)"
  by (simp add: rat_is_int_def)

lemma rat_is_int_iff: "rat_is_int q \<longleftrightarrow> (\<exists>n. q = of_int n)"
  unfolding rat_is_int_def by (metis floor_of_int)

section \<open>Strings\<close>

abbreviation code_of :: "char \<Rightarrow> nat" where
  "code_of c \<equiv> of_char c"

definition is_digit :: "char \<Rightarrow> bool" where
  "is_digit c \<longleftrightarrow> 48 \<le> code_of c \<and> code_of c \<le> 57"

definition digit_val :: "char \<Rightarrow> nat" where
  "digit_val c = code_of c - 48"

definition digit_char :: "nat \<Rightarrow> char" where
  "digit_char d = char_of (48 + d)"

definition js_space :: "char \<Rightarrow> bool" where
  "js_space c \<longleftrightarrow> code_of c \<in> {9, 10, 11, 12, 13, 32, 160}"

definition js_trim :: "string \<Rightarrow> string" where
  "js_trim s = rev (dropWhile js_space (rev (dropWhile js_space s)))"

text \<open>
  Case mapping of the code units U+0000 to U+00FF: ASCII letters, the Latin-1 letters, and the sharp
  s, whose capital is two letters. The micro sign and y with diaeresis have their capitals outside
  the range and are kept.
\<close>

definition latin1_lower :: "nat \<Rightarrow> bool" where
  "latin1_lower n \<longleftrightarrow> 224 \<le> n \<and> n \<le> 254 \<and> n \<noteq> 247"

definition latin1_upper :: "nat \<Rightarrow> bool" where
  "latin1_upper n \<longleftrightarrow> 192 \<le> n \<and> n \<le> 222 \<and> n \<noteq> 215"

definition js_upper_char :: "char \<Rightarrow> string" where
  "js_upper_char c =
     (if 97 \<le> code_of c \<and> code_of c \<le> 122 \<or> latin1_lower (code_of c) then [char_of (code_of c - 32)]
      else if code_of c = 223 then ''SS'' else [c])"

definition js_lower_char :: "char \<Rightarrow> char" where
  "js_lower_char c =
     (if 65 \<le> code_of c \<and> code_of c \<le> 90 \<or> latin1_upper (code_of c)
      then char_of (code_of c + 32) else c)"

definition js_upper :: "string \<Rightarrow> string" where
  "js_upper s = concat (map js_upper_char s)"

definition js_lower :: "string \<Rightarrow> string" where
  "js_lower s = map js_lower_char s"

definition is_upper_letter :: "char \<Rightarrow> bool" where
  "is_upper_letter c \<longleftrightarrow> 65 \<le> code_of c \<and> code_of c \<le> 90"

lemma js_upper_fixed:
  "(\<And>c. c \<in> set s \<Longrightarrow> \<not> (97 \<le> code_of c \<and> code_of c \<le> 122)
     \<and> \<not> latin1_lower (code_of c) \<and> code_of c \<noteq> 223) \<Longrightarrow> js_upper s = s"
  by (induction s) (auto simp: js_upper_def js_upper_char_def)

lemma js_upper_letters: "list_all is_upper_letter s \<Longrightarrow> js_upper s = s"
  by (intro js_upper_fixed) (auto simp: list_all_iff is_upper_letter_def latin1_lower_def)

lemma js_lower_fixed:
  "(\<And>c. c \<in> set s \<Longrightarrow> \<not> (65 \<le> code_of c \<and> code_of c \<le> 90 \<or> 192 \<le> code_of c \<and> code_of c \<le> 222)) \<Longrightarrow> js_lower s = s"
  by (induction s) (auto simp: js_lower_def js_lower_char_def latin1_upper_def)

lemma code_of_char_of_small: "n < 256 \<Longrightarrow> code_of (char_of n) = n"
  by simp

lemma js_upper_idem [simp]: "js_upper (js_upper s) = js_upper s"
proof (rule js_upper_fixed)
  fix c assume "c \<in> set (js_upper s)"
  then obtain b where c: "c \<in> set (js_upper_char b)" by (auto simp: js_upper_def)
  consider "97 \<le> code_of b \<and> code_of b \<le> 122" | "latin1_lower (code_of b)" | "code_of b = 223"
    | "\<not> (97 \<le> code_of b \<and> code_of b \<le> 122) \<and> \<not> latin1_lower (code_of b) \<and> code_of b \<noteq> 223"
    by blast
  then show "\<not> (97 \<le> code_of c \<and> code_of c \<le> 122) \<and> \<not> latin1_lower (code_of c) \<and> code_of c \<noteq> 223"
  proof cases
    case 1
    then have "c = char_of (code_of b - 32)" using c by (simp add: js_upper_char_def)
    then have "code_of c = code_of b - 32" using 1 code_of_char_of_small [of "code_of b - 32"] by force
    then show ?thesis using 1 unfolding latin1_lower_def by linarith
  next
    case 2
    then have "c = char_of (code_of b - 32)" using c by (simp add: js_upper_char_def)
    then have "code_of c = code_of b - 32"
      using 2 code_of_char_of_small [of "code_of b - 32"] by (force simp: latin1_lower_def)
    then show ?thesis using 2 unfolding latin1_lower_def by linarith
  next
    case 3
    then have "c = CHR ''S''" using c by (simp add: js_upper_char_def latin1_lower_def)
    then show ?thesis by (simp add: latin1_lower_def)
  next
    case 4
    then have "c = b" using c by (simp add: js_upper_char_def split: if_splits)
    then show ?thesis using 4 by simp
  qed
qed

lemma code_of_digit_char [simp]: "d < 10 \<Longrightarrow> code_of (digit_char d) = 48 + d"
  by (simp add: digit_char_def)

lemma is_digit_digit_char [simp]: "d < 10 \<Longrightarrow> is_digit (digit_char d)"
  by (simp add: is_digit_def)

lemma digit_val_digit_char [simp]: "d < 10 \<Longrightarrow> digit_val (digit_char d) = d"
  by (simp add: digit_val_def)

lemma digit_char_numerals [simp]:
  "digit_char 0 = CHR ''0''" "digit_char (Suc 0) = CHR ''1''" "digit_char 2 = CHR ''2''"
  "digit_char 3 = CHR ''3''" "digit_char 4 = CHR ''4''" "digit_char 5 = CHR ''5''"
  "digit_char 6 = CHR ''6''" "digit_char 7 = CHR ''7''" "digit_char 8 = CHR ''8''"
  "digit_char 9 = CHR ''9''"
  by code_simp+

lemma digit_val_less: "is_digit c \<Longrightarrow> digit_val c < 10"
  by (auto simp: is_digit_def digit_val_def)

lemma digit_char_digit_val: "is_digit c \<Longrightarrow> digit_char (digit_val c) = c"
  by (auto simp: is_digit_def digit_val_def digit_char_def)

lemma digit_not_space: "is_digit c \<Longrightarrow> \<not> js_space c"
  by (auto simp: is_digit_def js_space_def)

lemma js_trim_id:
  assumes "s \<noteq> [] \<Longrightarrow> \<not> js_space (hd s)" and "s \<noteq> [] \<Longrightarrow> \<not> js_space (last s)"
  shows "js_trim s = s"
proof (cases "s = []")
  case True
  then show ?thesis by (simp add: js_trim_def)
next
  case False
  have d: "dropWhile js_space s = s"
    using False assms(1) by (cases s) auto
  have "dropWhile js_space (rev s) = rev s"
    using False assms(2) by (cases "rev s") (auto simp: last_rev hd_rev [symmetric] simp flip: hd_rev)
  then show ?thesis by (simp add: js_trim_def d)
qed

lemma js_trim_Nil: "js_trim s = [] \<Longrightarrow> c \<in> set s \<Longrightarrow> js_space c"
proof -
  assume t: "js_trim s = []" and c: "c \<in> set s"
  then have all: "\<forall>x\<in>set (dropWhile js_space s). js_space x"
    unfolding js_trim_def by (simp add: dropWhile_eq_Nil_conv)
  have "dropWhile js_space s = []"
  proof (rule ccontr)
    assume ne: "dropWhile js_space s \<noteq> []"
    then have "\<not> js_space (hd (dropWhile js_space s))" by (rule hd_dropWhile)
    moreover have "js_space (hd (dropWhile js_space s))" using all ne by simp
    ultimately show False by simp
  qed
  then show "js_space c" using c by simp
qed

lemma js_trim_ends:
  assumes "js_trim s \<noteq> []"
  shows "\<not> js_space (hd (js_trim s))" and "\<not> js_space (last (js_trim s))"
proof -
  let ?t = "dropWhile js_space s"
  have "dropWhile js_space (rev ?t) \<noteq> []" using assms by (simp add: js_trim_def)
  then have "\<not> js_space (hd (dropWhile js_space (rev ?t)))" by (rule hd_dropWhile)
  then show "\<not> js_space (last (js_trim s))" by (simp add: js_trim_def last_rev)
  have "rev ?t = takeWhile js_space (rev ?t) @ dropWhile js_space (rev ?t)" by simp
  then have "?t = js_trim s @ rev (takeWhile js_space (rev ?t))"
    unfolding js_trim_def by (metis rev_append rev_rev_ident)
  then have "?t \<noteq> []" and "hd ?t = hd (js_trim s)"
    using assms by (metis append_is_Nil_conv, metis hd_append)
  then show "\<not> js_space (hd (js_trim s))" using hd_dropWhile [of js_space s] by simp
qed

lemma js_trim_idem [simp]: "js_trim (js_trim s) = js_trim s"
proof (cases "js_trim s = []")
  case True
  show ?thesis unfolding True by (simp add: js_trim_def)
next
  case False
  then show ?thesis using js_trim_ends by (intro js_trim_id) auto
qed

section \<open>Decimal digits\<close>

definition digits_value :: "string \<Rightarrow> nat" where
  "digits_value s = foldl (\<lambda>n c. 10 * n + digit_val c) 0 s"

fun show_nat :: "nat \<Rightarrow> string" where
  "show_nat n = (if n < 10 then [digit_char n] else show_nat (n div 10) @ [digit_char (n mod 10)])"

declare show_nat.simps [simp del]

definition show_int :: "int \<Rightarrow> string" where
  "show_int i = (if i < 0 then CHR ''-'' # show_nat (nat (- i)) else show_nat (nat i))"

definition pad_left :: "nat \<Rightarrow> string \<Rightarrow> string" where
  "pad_left n s = replicate (n - length s) (CHR ''0'') @ s"

lemma digits_value_snoc: "digits_value (s @ [c]) = 10 * digits_value s + digit_val c"
  by (simp add: digits_value_def)

lemma digits_value_Nil [simp]: "digits_value [] = 0"
  by (simp add: digits_value_def)

lemma show_nat_digits: "\<forall>c \<in> set (show_nat n). is_digit c"
proof (induction n rule: show_nat.induct)
  case (1 n)
  then show ?case by (subst show_nat.simps) auto
qed

lemma show_nat_not_Nil [simp]: "show_nat n \<noteq> []"
  by (subst show_nat.simps) simp

lemma digits_value_show_nat [simp]: "digits_value (show_nat n) = n"
proof (induction n rule: show_nat.induct)
  case (1 n)
  then show ?case
    by (subst show_nat.simps) (auto simp: digits_value_snoc digits_value_def)
qed

lemma digits_value_append:
  "digits_value (xs @ ys) = digits_value xs * 10 ^ length ys + digits_value ys"
proof (induction ys rule: rev_induct)
  case (snoc y ys)
  have "digits_value (xs @ ys @ [y]) = 10 * digits_value (xs @ ys) + digit_val y"
    using digits_value_snoc [of "xs @ ys" y] by simp
  with snoc show ?case by (simp add: digits_value_snoc algebra_simps)
qed simp

lemma digits_value_Cons:
  "digits_value (c # s) = digit_val c * 10 ^ length s + digits_value s"
  using digits_value_append [of "[c]" s] by (simp add: digits_value_def)

lemma digits_value_bound:
  "\<forall>c \<in> set s. is_digit c \<Longrightarrow> digits_value s < 10 ^ length s"
proof (induction s rule: rev_induct)
  case (snoc c s)
  then have "digits_value s < 10 ^ length s" and "digit_val c < 10"
    by (auto simp: digit_val_less)
  then show ?case by (simp add: digits_value_snoc)
qed simp

lemma length_show_nat: "n < 10 ^ k \<Longrightarrow> 0 < k \<Longrightarrow> length (show_nat n) \<le> k"
proof (induction n arbitrary: k rule: show_nat.induct)
  case (1 n)
  show ?case
  proof (cases "n < 10")
    case True
    then show ?thesis using 1 by (subst show_nat.simps) simp
  next
    case False
    then obtain j where k: "k = Suc j" "0 < j" using 1 by (cases k; cases "k - 1") auto
    then have "n div 10 < 10 ^ j" using 1 by (simp add: div_less_iff_less_mult mult.commute)
    then have "length (show_nat (n div 10)) \<le> j" using 1 False k(2) by blast
    then show ?thesis using False k(1) by (subst show_nat.simps) simp
  qed
qed

lemma length_pad_left: "length s \<le> n \<Longrightarrow> length (pad_left n s) = n"
  by (simp add: pad_left_def)

lemma digits_value_replicate_zero [simp]: "digits_value (replicate n (CHR ''0'')) = 0"
  by (induction n) (simp_all add: digits_value_Cons digit_val_def)

lemma digits_value_pad_left [simp]: "digits_value (pad_left n s) = digits_value s"
  by (simp add: pad_left_def digits_value_append)

section \<open>Reading a number from text\<close>

text \<open>
  \<open>Number(text)\<close>: surrounding white space is dropped, the empty text is 0, then a decimal literal
  with an optional sign, fraction and exponent, an unsigned hexadecimal, octal or binary literal, or
  an infinity; anything else is not a number.
\<close>

definition all_digits :: "string \<Rightarrow> bool" where
  "all_digits s \<longleftrightarrow> s \<noteq> [] \<and> list_all is_digit s"

definition scale10 :: "rat \<Rightarrow> int \<Rightarrow> rat" where
  "scale10 q e = (if 0 \<le> e then q * 10 ^ nat e else q / 10 ^ nat (- e))"

definition parse_exponent :: "string \<Rightarrow> int option" where
  "parse_exponent s =
     (case s of
        [] \<Rightarrow> None
      | c # r \<Rightarrow>
          if c = CHR ''-'' then (if all_digits r then Some (- int (digits_value r)) else None)
          else if c = CHR ''+'' then (if all_digits r then Some (int (digits_value r)) else None)
          else (if all_digits s then Some (int (digits_value s)) else None))"

definition split_fraction :: "string \<Rightarrow> string \<times> string" where
  "split_fraction r1 =
     (case r1 of
        [] \<Rightarrow> ([], [])
      | c # r \<Rightarrow> if c = CHR ''.'' then (takeWhile is_digit r, dropWhile is_digit r) else ([], r1))"

definition parse_decimal :: "string \<Rightarrow> rat option" where
  "parse_decimal s =
     (let ip = takeWhile is_digit s;
          (fp, r2) = split_fraction (dropWhile is_digit s);
          m = of_nat (digits_value (ip @ fp)) / 10 ^ length fp
      in if ip = [] \<and> fp = [] then None
         else (case r2 of
                 [] \<Rightarrow> Some m
               | c # r \<Rightarrow>
                   if c = CHR ''e'' \<or> c = CHR ''E'' then map_option (scale10 m) (parse_exponent r)
                   else None))"

definition radix_digit :: "char \<Rightarrow> nat option" where
  "radix_digit c =
     (if is_digit c then Some (digit_val c)
      else if 97 \<le> code_of (js_lower_char c) \<and> code_of (js_lower_char c) \<le> 122
           then Some (code_of (js_lower_char c) - 87) else None)"

fun parse_radix :: "nat \<Rightarrow> nat \<Rightarrow> string \<Rightarrow> nat option" where
  "parse_radix b n [] = Some n"
| "parse_radix b n (c # s) =
     (case radix_digit c of
        Some d \<Rightarrow> if d < b then parse_radix b (b * n + d) s else None
      | None \<Rightarrow> None)"

text \<open>Values at or beyond this bound round to an infinity, not to the largest double.\<close>

definition double_overflow :: rat where
  "double_overflow = 2 ^ 1024 - 2 ^ 970"

definition in_double_range :: "rat \<Rightarrow> jsnum" where
  "in_double_range q =
     (if double_overflow \<le> q then PInf else if q \<le> - double_overflow then NInf else Fin q)"

definition number_of_opt :: "rat option \<Rightarrow> jsnum" where
  "number_of_opt r = (case r of None \<Rightarrow> NaN | Some q \<Rightarrow> in_double_range q)"

definition js_number :: "string \<Rightarrow> jsnum" where
  "js_number s =
     (case js_trim s of
        [] \<Rightarrow> Fin 0
      | c # r \<Rightarrow>
          if c # r = ''Infinity'' \<or> c # r = ''+Infinity'' then PInf
          else if c # r = ''-Infinity'' then NInf
          else if c = CHR ''0'' \<and> r \<noteq> [] \<and> hd r \<in> {CHR ''x'', CHR ''X''} \<and> tl r \<noteq> []
            then number_of_opt (map_option of_nat (parse_radix 16 0 (tl r)))
          else if c = CHR ''0'' \<and> r \<noteq> [] \<and> hd r \<in> {CHR ''o'', CHR ''O''} \<and> tl r \<noteq> []
            then number_of_opt (map_option of_nat (parse_radix 8 0 (tl r)))
          else if c = CHR ''0'' \<and> r \<noteq> [] \<and> hd r \<in> {CHR ''b'', CHR ''B''} \<and> tl r \<noteq> []
            then number_of_opt (map_option of_nat (parse_radix 2 0 (tl r)))
          else if c = CHR ''-'' then number_of_opt (map_option uminus (parse_decimal r))
          else if c = CHR ''+'' then number_of_opt (parse_decimal r)
          else number_of_opt (parse_decimal (c # r)))"

lemma double_overflow_large: "10 ^ 100 \<le> double_overflow"
proof -
  have "(10::rat) ^ 100 \<le> 16 ^ 100" by (rule power_mono) simp_all
  also have "\<dots> = 2 ^ (4 * 100)" by (subst power_mult) simp
  also have "\<dots> \<le> 2 ^ 970" by (rule power_increasing) simp_all
  also have "\<dots> \<le> 2 ^ 970 * (2 ^ 54 - 1)" by (rule mult_le_cancel_left1 [THEN iffD2]) simp
  also have "\<dots> = double_overflow"
    unfolding double_overflow_def right_diff_distrib power_add [symmetric] by simp
  finally show ?thesis .
qed

lemma in_double_range_small:
  assumes "\<bar>q\<bar> < 10 ^ 100" shows "in_double_range q = Fin q"
proof -
  have "\<bar>q\<bar> < double_overflow" using assms double_overflow_large by (rule less_le_trans)
  then show ?thesis by (auto simp: in_double_range_def)
qed

lemma parse_decimal_digits:
  assumes "all_digits s" shows "parse_decimal s = Some (of_nat (digits_value s))"
proof -
  have "takeWhile is_digit s = s" and "dropWhile is_digit s = []" and "s \<noteq> []"
    using assms by (auto simp: all_digits_def list_all_iff)
  then show ?thesis by (simp add: parse_decimal_def split_fraction_def takeWhile_all dropWhile_none)
qed

lemma parse_decimal_point:
  assumes "all_digits ip" and "list_all is_digit fp"
  shows "parse_decimal (ip @ CHR ''.'' # fp)
    = Some (of_nat (digits_value (ip @ fp)) / 10 ^ length fp)"
proof -
  have dot: "\<not> is_digit CHR ''.''" by (simp add: is_digit_def)
  have "takeWhile is_digit (ip @ CHR ''.'' # fp) = ip"
    and "dropWhile is_digit (ip @ CHR ''.'' # fp) = CHR ''.'' # fp"
    using assms(1) dot
    by (auto simp: all_digits_def list_all_iff intro!: takeWhile_append_stop dropWhile_append_stop)
  moreover have "takeWhile is_digit fp = fp" and "dropWhile is_digit fp = []"
    using assms(2) by (auto simp: list_all_iff)
  ultimately show ?thesis
    using assms(1) by (simp add: parse_decimal_def split_fraction_def all_digits_def takeWhile_all dropWhile_none)
qed

lemma all_digits_show_nat [simp]: "all_digits (show_nat n)"
  using show_nat_digits [of n] by (simp add: all_digits_def list_all_iff)

lemma js_trim_digits_ends:
  assumes "s \<noteq> []" and "is_digit (hd s)" and "is_digit (last s)" shows "js_trim s = s"
  using assms by (intro js_trim_id) (auto simp: digit_not_space)

text \<open>A text that starts with a digit and is not a prefixed literal is read as a decimal literal.\<close>

lemma js_number_decimal:
  assumes "js_trim s = s" and "s \<noteq> []" and "is_digit (hd s)"
    and "tl s \<noteq> [] \<Longrightarrow> hd (tl s) \<notin> {CHR ''x'', CHR ''X'', CHR ''o'', CHR ''O'', CHR ''b'', CHR ''B''}"
  shows "js_number s = number_of_opt (parse_decimal s)"
proof -
  obtain c r where s: "s = c # r" using assms(2) by (cases s) auto
  have d: "is_digit c" using assms(3) by (simp add: s)
  have c: "c \<noteq> CHR ''I''" "c \<noteq> CHR ''+''" "c \<noteq> CHR ''-''"
    using d by (auto simp: is_digit_def)
  have r: "r = [] \<or> hd r \<noteq> CHR ''x'' \<and> hd r \<noteq> CHR ''X'' \<and> hd r \<noteq> CHR ''o''
      \<and> hd r \<noteq> CHR ''O'' \<and> hd r \<noteq> CHR ''b'' \<and> hd r \<noteq> CHR ''B''"
    using assms(4) by (cases "r = []") (simp_all add: s)
  have t: "js_trim (c # r) = c # r" using assms(1) by (simp add: s)
  show ?thesis
    unfolding js_number_def s t list.case list.inject
    using c r by (simp only: insert_iff empty_iff simp_thms if_False if_True) (elim disjE; simp)
qed

lemma js_number_all_digits:
  assumes "all_digits s" and "digits_value s < 10 ^ 100"
  shows "js_number s = Fin (of_nat (digits_value s))"
proof -
  have ne: "s \<noteq> []" and dig: "\<forall>c\<in>set s. is_digit c"
    using assms(1) by (auto simp: all_digits_def list_all_iff)
  have "js_trim s = s" using ne dig by (intro js_trim_digits_ends) auto
  moreover have "hd (tl s) \<notin> {CHR ''x'', CHR ''X'', CHR ''o'', CHR ''O'', CHR ''b'', CHR ''B''}"
    if "tl s \<noteq> []"
  proof -
    have "hd (tl s) \<in> set s" using that by (cases s) auto
    then have "is_digit (hd (tl s))" using dig by blast
    then show ?thesis by (auto simp: is_digit_def)
  qed
  ultimately have "js_number s = number_of_opt (parse_decimal s)"
    using ne dig by (intro js_number_decimal) auto
  moreover have "\<bar>of_nat (digits_value s) :: rat\<bar> < 10 ^ 100"
    using assms(2) by (metis abs_of_nat of_nat_less_iff of_nat_numeral of_nat_power)
  ultimately show ?thesis
    by (simp add: number_of_opt_def parse_decimal_digits [OF assms(1)] in_double_range_small)
qed

section \<open>Printing a number\<close>

text \<open>
  \<open>String(number)\<close> of a number with a short decimal expansion: the least number of fraction digits
  that shows it exactly. Exponent notation (from 10 to the 21, and below one millionth) is left out.
\<close>

definition show_scaled :: "int \<Rightarrow> nat \<Rightarrow> string" where
  "show_scaled v k =
     (let m = nat \<bar>v\<bar>
      in (if v < 0 then ''-'' else []) @ show_nat (m div 10 ^ k)
         @ (if k = 0 then [] else CHR ''.'' # pad_left k (show_nat (m mod 10 ^ k))))"

definition js_num_text :: "rat \<Rightarrow> string" where
  "js_num_text q =
     (case List.find (\<lambda>k. rat_is_int (q * 10 ^ k)) [0..<21] of
        Some k \<Rightarrow> show_scaled \<lfloor>q * 10 ^ k\<rfloor> k
      | None \<Rightarrow> show_int \<lfloor>q\<rfloor>)"

lemma find_upt_0: "P 0 \<Longrightarrow> 0 < n \<Longrightarrow> List.find P [0..<n] = Some 0"
  by (simp add: upt_conv_Cons)

lemma js_num_text_of_int [simp]: "js_num_text (of_int n) = show_int n"
proof -
  have "List.find (\<lambda>k. rat_is_int (of_int n * 10 ^ k)) [0..<21] = Some 0"
    by (rule find_upt_0) simp_all
  then show ?thesis by (simp add: js_num_text_def show_scaled_def show_int_def abs_if)
qed

lemma js_num_text_numeral [simp]: "js_num_text (numeral n) = show_int (numeral n)"
  using js_num_text_of_int [of "numeral n"] by simp

section \<open>Untyped values\<close>

text \<open>
  A value of type \<open>unknown\<close>: what \<open>JSON.parse\<close>, a request body or a database column can hold,
  and \<open>undefined\<close> for what is absent. Objects are association lists; the first entry wins.
\<close>

datatype jsval =
    Undefined
  | Null
  | JBool bool
  | JNum jsnum
  | JStr string
  | JArr "jsval list"
  | JObj "(string \<times> jsval) list"

fun truthy :: "jsval \<Rightarrow> bool" where
  "truthy Undefined = False"
| "truthy Null = False"
| "truthy (JBool b) = b"
| "truthy (JNum n) = (n \<noteq> NaN \<and> n \<noteq> Fin 0)"
| "truthy (JStr s) = (s \<noteq> [])"
| "truthy (JArr _) = True"
| "truthy (JObj _) = True"

fun is_record :: "jsval \<Rightarrow> bool" where
  "is_record (JObj _) = True"
| "is_record _ = False"

fun nullish :: "jsval \<Rightarrow> bool" where
  "nullish Undefined = True"
| "nullish Null = True"
| "nullish _ = False"

fun get_prop :: "jsval \<Rightarrow> string \<Rightarrow> jsval" where
  "get_prop (JObj m) k = (case map_of m k of None \<Rightarrow> Undefined | Some v \<Rightarrow> v)"
| "get_prop _ _ = Undefined"

fun has_prop :: "jsval \<Rightarrow> string \<Rightarrow> bool" where
  "has_prop (JObj m) k = (map_of m k \<noteq> None)"
| "has_prop _ _ = False"

text \<open>
  \<open>Number(value)\<close>. An array is read through its text, the texts of its elements joined by commas,
  so one element is read alone and two or more never form a number; an object's text is never one.
\<close>

fun element_number :: "jsval \<Rightarrow> jsnum" where
  "element_number Undefined = Fin 0"
| "element_number Null = Fin 0"
| "element_number (JBool _) = NaN"
| "element_number (JNum n) = n"
| "element_number (JStr s) = js_number s"
| "element_number (JArr []) = Fin 0"
| "element_number (JArr [x]) = element_number x"
| "element_number (JArr (x # y # xs)) = NaN"
| "element_number (JObj _) = NaN"

fun to_number :: "jsval \<Rightarrow> jsnum" where
  "to_number Undefined = NaN"
| "to_number Null = Fin 0"
| "to_number (JBool b) = Fin (if b then 1 else 0)"
| "to_number (JNum n) = n"
| "to_number (JStr s) = js_number s"
| "to_number (JArr xs) = element_number (JArr xs)"
| "to_number (JObj _) = NaN"

text \<open>
  The reader the plan code uses for a limit: a finite number, or a text that is not blank and reads
  as one; a boolean, an array or null is not a number here.
\<close>

definition text_or_number :: "jsval \<Rightarrow> jsnum" where
  "text_or_number v =
     (case v of
        JNum n \<Rightarrow> n
      | JStr s \<Rightarrow> if js_trim s \<noteq> [] then js_number s else NaN
      | _ \<Rightarrow> NaN)"

end
