(* ===== verification/Billing_Money.thy ===== *)
theory Billing_Money
  imports Js_Values
begin

text \<open>
  The prepaid billing rules shared by the server and the browser
  (\<open>shared/simpleBilling.ts\<close>) and the unit contract of the card gateways
  (\<open>server/services/billing/providers/minorAmount.ts\<close>). Amounts are integers in minor units of
  their currency. Rates are exact rationals: the code computes with doubles.
\<close>

section \<open>Currency codes\<close>

definition normalize_currency_code :: "jsval \<Rightarrow> string option" where
  "normalize_currency_code raw =
     (case raw of
        JStr s \<Rightarrow>
          let code = js_upper (js_trim s)
          in if length code = 3 \<and> list_all is_upper_letter code then Some code else None
      | _ \<Rightarrow> None)"

definition currency_code :: "string \<Rightarrow> bool" where
  "currency_code c \<longleftrightarrow> length c = 3 \<and> list_all is_upper_letter c"

text \<open>The currency a gateway is asked to charge: an error names it, it never relabels it.\<close>

definition require_supported_currency ::
  "string \<Rightarrow> string \<Rightarrow> string list \<Rightarrow> string + string" where
  "require_supported_currency provider requested supported =
     (case normalize_currency_code (JStr requested) of
        None \<Rightarrow> Inl (provider @ '' cannot charge '' @ ''this currency'')
      | Some code \<Rightarrow>
          if code \<in> set supported then Inr code
          else Inl (provider @ '' cannot charge '' @ code))"

lemma upper_letter_not_space: "is_upper_letter c \<Longrightarrow> \<not> js_space c"
  by (auto simp: is_upper_letter_def js_space_def)

lemma js_trim_currency: "currency_code c \<Longrightarrow> js_trim c = c"
  by (intro js_trim_id) (auto simp: currency_code_def list_all_iff upper_letter_not_space)

interpretation currency_reader: normalizer normalize_currency_code JStr currency_code
proof unfold_locales
  fix r v assume "normalize_currency_code r = Some v"
  then show "currency_code v"
    by (auto simp: normalize_currency_code_def currency_code_def Let_def
        split: jsval.splits if_splits)
next
  fix v assume "currency_code v"
  then show "normalize_currency_code (JStr v) = Some v"
    by (simp add: normalize_currency_code_def js_trim_currency js_upper_letters)
      (simp add: currency_code_def js_upper_letters)
qed

section \<open>Top-ups\<close>

record topup_range =
  range_min :: int
  range_max :: int

definition TOPUP_LIMITS :: "(string \<times> topup_range) list" where
  "TOPUP_LIMITS =
     [(''IRR'', \<lparr>range_min = 100000, range_max = 10000000000\<rparr>),
      (''USD'', \<lparr>range_min = 500, range_max = 5000000\<rparr>),
      (''TRY'', \<lparr>range_min = 10000, range_max = 200000000\<rparr>),
      (''EUR'', \<lparr>range_min = 500, range_max = 5000000\<rparr>),
      (''GBP'', \<lparr>range_min = 500, range_max = 5000000\<rparr>)]"

definition ADMIN_TEST_TOPUP :: "(string \<times> int) list" where
  "ADMIN_TEST_TOPUP = [(''USD'', 100), (''EUR'', 100), (''GBP'', 100), (''TRY'', 100)]"

datatype topup_amount_problem_kind =
    TOPUP_AMOUNT_INVALID
  | TOPUP_AMOUNT_TOO_SMALL
  | TOPUP_AMOUNT_TOO_LARGE
  | CURRENCY_NOT_SUPPORTED

definition topup_amount_problem ::
  "jsval \<Rightarrow> string \<Rightarrow> bool \<Rightarrow> topup_amount_problem_kind option" where
  "topup_amount_problem net_minor currency admin_test =
     (case map_of TOPUP_LIMITS (js_upper currency) of
        None \<Rightarrow> Some CURRENCY_NOT_SUPPORTED
      | Some limits \<Rightarrow>
          (case net_minor of
             JNum (Fin q) \<Rightarrow>
               if \<not> num_is_safe_integer (Fin q) \<or> q \<le> 0 then Some TOPUP_AMOUNT_INVALID
               else if admin_test \<and> map_of ADMIN_TEST_TOPUP (js_upper currency) = Some \<lfloor>q\<rfloor> then None
               else if q < of_int (range_min limits) then Some TOPUP_AMOUNT_TOO_SMALL
               else if of_int (range_max limits) < q then Some TOPUP_AMOUNT_TOO_LARGE
               else None
           | _ \<Rightarrow> Some TOPUP_AMOUNT_INVALID))"

text \<open>Which whole amounts a currency accepts, as the documentation states it.\<close>

definition topup_allowed :: "string \<Rightarrow> bool \<Rightarrow> int \<Rightarrow> bool" where
  "topup_allowed currency admin_test n \<longleftrightarrow>
     (\<exists>limits. map_of TOPUP_LIMITS (js_upper currency) = Some limits
        \<and> (range_min limits \<le> n \<and> n \<le> range_max limits
           \<or> admin_test \<and> map_of ADMIN_TEST_TOPUP (js_upper currency) = Some n))"

lemma topup_limits_bounds:
  assumes "map_of TOPUP_LIMITS c = Some l"
  shows "0 < range_min l \<and> range_min l \<le> range_max l \<and> range_max l \<le> max_safe_integer"
  using assms by (auto simp: TOPUP_LIMITS_def max_safe_integer_def split: if_splits)

lemma admin_test_topup_bounds:
  "map_of ADMIN_TEST_TOPUP c = Some n \<Longrightarrow> 0 < n \<and> n \<le> max_safe_integer"
  by (auto simp: ADMIN_TEST_TOPUP_def max_safe_integer_def split: if_splits)

lemma safe_integer_of_int [simp]: "num_is_safe_integer (Fin (of_int n)) \<longleftrightarrow> \<bar>n\<bar> \<le> max_safe_integer"
  by (simp flip: of_int_abs)

lemma safe_integer_obtain:
  assumes "num_is_safe_integer (Fin q)" obtains n where "q = of_int n" and "\<bar>n\<bar> \<le> max_safe_integer"
  using assms by (auto simp: rat_is_int_iff simp flip: of_int_abs)

lemma topup_allowed_range: "topup_allowed c a n \<Longrightarrow> 0 < n \<and> n \<le> max_safe_integer"
  using topup_limits_bounds admin_test_topup_bounds unfolding topup_allowed_def by fastforce

lemma topup_amount_problem_of_int:
  "topup_amount_problem (JNum (Fin (of_int n))) c a = None \<longleftrightarrow> topup_allowed c a n"
proof
  show "topup_amount_problem (JNum (Fin (of_int n))) c a = None \<Longrightarrow> topup_allowed c a n"
    unfolding topup_amount_problem_def topup_allowed_def
    by (auto split: option.splits if_splits)
next
  assume "topup_allowed c a n"
  moreover have "0 < n" "\<bar>n\<bar> \<le> max_safe_integer" using topup_allowed_range [OF calculation] by auto
  ultimately show "topup_amount_problem (JNum (Fin (of_int n))) c a = None"
    unfolding topup_amount_problem_def topup_allowed_def
    by (auto simp del: num_is_safe_integer.simps)
qed

section \<open>VAT and the charge\<close>

text \<open>\<open>Math.round(pct * 1000) / 1000\<close>: three decimals of a percent.\<close>

definition vat_percent_for :: "jsval \<Rightarrow> string \<Rightarrow> rat option" where
  "vat_percent_for vat_by_currency currency =
     (if \<not> is_record vat_by_currency then None
      else
        let raw = get_prop vat_by_currency (js_upper currency)
        in if raw = Null \<or> raw = Undefined \<or> raw = JStr [] then None
           else (case to_number raw of
                   Fin pct \<Rightarrow>
                     if pct \<le> 0 \<or> 100 \<le> pct then None
                     else Some (of_int (js_round (pct * 1000)) / 1000)
                 | _ \<Rightarrow> None))"

record charge =
  net :: int
  tax :: int
  total :: int

definition charge_for :: "int \<Rightarrow> rat option \<Rightarrow> charge" where
  "charge_for net_minor vat_percent =
     (let t = (case vat_percent of
                 None \<Rightarrow> 0
               | Some p \<Rightarrow> if p = 0 then 0 else js_round (of_int net_minor * p / 100))
      in \<lparr>net = net_minor, tax = t, total = net_minor + t\<rparr>)"

definition whole_toman_charge :: "charge \<Rightarrow> charge option" where
  "whole_toman_charge c =
     (let rest = trem (total c) 10
      in if rest = 0 then Some c
         else if tax c \<le> 0 then None
         else let t = (if rest \<le> tax c then tax c - rest else tax c + (10 - rest))
              in Some \<lparr>net = net c, tax = t, total = net c + t\<rparr>)"

lemma vat_percent_for_range:
  "vat_percent_for v c = Some p \<Longrightarrow> 0 \<le> p \<and> p \<le> 100 \<and> rat_is_int (p * 1000)"
proof -
  assume "vat_percent_for v c = Some p"
  then obtain q where q: "0 < q" "q < 100" and p: "of_int (js_round (q * 1000)) = p * 1000"
    by (auto simp: vat_percent_for_def Let_def not_le split: if_splits jsnum.splits)
  have "js_round (q * 1000) \<le> js_round (of_int 100000)" using q by (intro js_round_mono) simp
  moreover have "0 \<le> js_round (q * 1000)" using q by (intro js_round_nonneg) simp
  ultimately have "(0::rat) \<le> of_int (js_round (q * 1000))"
    and "(of_int (js_round (q * 1000)) :: rat) \<le> of_int 100000"
    unfolding js_round_of_int of_int_le_iff of_int_0_le_iff by auto
  then show ?thesis using p rat_is_int_of_int [of "js_round (q * 1000)"] by simp
qed

lemma charge_for_simps [billing_simps]:
  "net (charge_for n v) = n"
  "total (charge_for n v) = n + tax (charge_for n v)"
  by (simp_all add: charge_for_def Let_def)

lemma charge_for_tax:
  "tax (charge_for n v) = js_round (of_int n * (case v of None \<Rightarrow> 0 | Some p \<Rightarrow> p) / 100)"
  using js_round_of_int [of 0] by (simp add: charge_for_def Let_def split: option.split)

lemma whole_toman_charge_id: "total c mod 10 = 0 \<Longrightarrow> whole_toman_charge c = Some c"
  by (simp add: whole_toman_charge_def trem_def Let_def mod_eq_0_iff_dvd)

lemma whole_toman_step:
  assumes "total c = net c + tax c" and "0 \<le> tax c" and "trem (total c) 10 = total c mod 10"
  shows "(whole_toman_charge c = None \<longleftrightarrow> tax c = 0 \<and> total c mod 10 \<noteq> 0)
    \<and> (case whole_toman_charge c of None \<Rightarrow> True
       | Some d \<Rightarrow> net d = net c \<and> 0 \<le> tax d \<and> total d = net c + tax d \<and> total d mod 10 = 0
           \<and> \<bar>total d - total c\<bar> \<le> 9)"
proof -
  have r: "0 \<le> total c mod 10" "total c mod 10 < 10" by simp_all
  have a: "(total c - total c mod 10) mod 10 = 0" by (simp add: minus_mod_eq_mult_div)
  have "total c + (10 - total c mod 10) = total c - total c mod 10 + 10" by simp
  then have b: "(total c + (10 - total c mod 10)) mod 10 = 0" using a by (metis mod_add_self2)
  show ?thesis
    using assms a b r by (auto simp: whole_toman_charge_def Let_def algebra_simps)
qed

section \<open>Profiles\<close>

definition BILLING_PROFILE_KEYS :: "string list" where
  "BILLING_PROFILE_KEYS =
     [''company'', ''economic_code'', ''national_id'', ''vat_id'', ''address'', ''postal_code'',
      ''city'', ''country'', ''phone'', ''invoice_email'']"

definition SELLER_KEYS :: "string list" where
  "SELLER_KEYS =
     [''legal_name'', ''economic_code'', ''national_id'', ''registration_number'', ''vat_id'',
      ''address'', ''postal_code'', ''phone'', ''email'', ''website'']"

definition clean_profile_value :: "nat \<Rightarrow> jsval \<Rightarrow> string option" where
  "clean_profile_value max_length value =
     (case value of
        JStr s \<Rightarrow>
          let trimmed = take max_length (js_trim s)
          in if trimmed \<noteq> [] then Some trimmed else None
      | _ \<Rightarrow> None)"

definition clean_profile :: "jsval \<Rightarrow> string list \<Rightarrow> nat \<Rightarrow> (string \<times> string) list" where
  "clean_profile input keys max_length =
     (if \<not> is_record input then []
      else List.map_filter
             (\<lambda>key. map_option (Pair key) (clean_profile_value max_length (get_prop input key))) keys)"

lemma clean_profile_entry:
  assumes "(k, v) \<in> set (clean_profile input keys n)"
  shows "k \<in> set keys \<and> v \<noteq> [] \<and> length v \<le> n"
  using assms
  by (auto simp: clean_profile_def List.map_filter_def clean_profile_value_def Let_def
      split: if_splits jsval.splits)

section \<open>Minor and major units\<close>

text \<open>
  \<open>toFixed(2)\<close> of a whole number of hundredths. Amounts of 10 to the 21 and more, which print in
  exponent notation, are left out.
\<close>

definition to_fixed2 :: "int \<Rightarrow> string" where
  "to_fixed2 cents =
     show_int (cents div 100) @ CHR ''.'' #
       [digit_char (nat (cents mod 100 div 10)), digit_char (nat (cents mod 10))]"

definition minor_to_major_string :: "jsval \<Rightarrow> string" where
  "minor_to_major_string raw =
     (case to_number (if nullish raw then JNum (Fin 0) else raw) of
        Fin q \<Rightarrow> if q \<le> 0 then ''0'' else to_fixed2 (js_round q)
      | _ \<Rightarrow> ''0'')"

definition major_to_minor :: "jsval \<Rightarrow> int option" where
  "major_to_minor raw =
     (case text_or_number raw of
        Fin q \<Rightarrow> if q < 0 then None else Some (js_round (q * 100))
      | _ \<Rightarrow> None)"

definition minor_from_provider :: "jsval \<Rightarrow> int option" where
  "minor_from_provider raw =
     (let n = (case raw of
                 JNum m \<Rightarrow> m
               | JStr s \<Rightarrow> if all_digits (js_trim s) then js_number (js_trim s) else NaN
               | _ \<Rightarrow> NaN)
      in case n of
           Fin q \<Rightarrow> if q < 0 \<or> \<not> rat_is_int q then None else Some \<lfloor>q\<rfloor>
         | _ \<Rightarrow> None)"

interpretation provider_minor: normalizer minor_from_provider "\<lambda>n. JNum (Fin (of_int n))" "\<lambda>n. 0 \<le> n"
  by unfold_locales (auto simp: minor_from_provider_def Let_def split: jsnum.splits if_splits)

lemma nat_hundreds:
  "0 \<le> a \<Longrightarrow> 0 \<le> b \<Longrightarrow> 0 \<le> c \<Longrightarrow> n = 100 * a + (10 * b + c)
   \<Longrightarrow> 100 * nat a + (10 * nat b + nat c) = nat n"
  by (simp add: nat_add_distrib nat_mult_distrib)

lemma to_fixed2_parse:
  assumes "0 \<le> n" shows "parse_decimal (to_fixed2 n) = Some (of_int n / 100)"
proof -
  let ?d1 = "digit_char (nat (n mod 100 div 10))" and ?d2 = "digit_char (nat (n mod 10))"
  have d: "nat (n mod 100 div 10) < 10" "nat (n mod 10) < 10" by auto
  have s: "show_int (n div 100) = show_nat (nat (n div 100))"
    using assms by (simp add: show_int_def)
  have "digits_value (show_nat (nat (n div 100)) @ [?d1, ?d2])
      = 100 * nat (n div 100) + (10 * nat (n mod 100 div 10) + nat (n mod 10))"
    using d by (simp add: digits_value_append digits_value_Cons)
  also have "\<dots> = nat n"
  proof -
    have "n mod 100 mod 10 = n mod 10" by (simp add: mod_mod_cancel)
    then have "10 * (n mod 100 div 10) + n mod 10 = n mod 100"
      using mult_div_mod_eq [of 10 "n mod 100"] by simp
    then have n: "n = 100 * (n div 100) + (10 * (n mod 100 div 10) + n mod 10)" by simp
    show ?thesis by (rule nat_hundreds [OF _ _ _ n]) (use assms in simp_all)
  qed
  finally have v: "digits_value (show_nat (nat (n div 100)) @ [?d1, ?d2]) = nat n" .
  have dl: "list_all is_digit [?d1, ?d2]" using d by simp
  show ?thesis
    unfolding to_fixed2_def s parse_decimal_point [OF all_digits_show_nat dl] v
    using assms by (simp add: of_nat_nat)
qed

lemma show_nat_hd_digit: "is_digit (hd (show_nat n))"
  using show_nat_digits [of n] show_nat_not_Nil [of n] by auto

lemma js_number_to_fixed2:
  assumes "0 \<le> n" and "n < 10 ^ 100" shows "js_number (to_fixed2 n) = Fin (of_int n / 100)"
proof -
  let ?s = "to_fixed2 n"
  have s: "show_int (n div 100) = show_nat (nat (n div 100))"
    using assms(1) by (simp add: show_int_def)
  have hd: "is_digit (hd ?s)" by (simp add: to_fixed2_def s show_nat_hd_digit hd_append)
  have last: "is_digit (last ?s)" by (simp add: to_fixed2_def)
  have ne: "?s \<noteq> []" by (simp add: to_fixed2_def)
  have second: "hd (tl ?s) \<notin> {CHR ''x'', CHR ''X'', CHR ''o'', CHR ''O'', CHR ''b'', CHR ''B''}"
  proof -
    have "\<forall>c\<in>set ?s. is_digit c \<or> c = CHR ''.''"
      using show_nat_digits [of "nat (n div 100)"] by (auto simp: to_fixed2_def s)
    moreover have "hd (tl ?s) \<in> set ?s"
      by (cases "show_nat (nat (n div 100))") (auto simp: to_fixed2_def s hd_append)
    ultimately have "is_digit (hd (tl ?s)) \<or> hd (tl ?s) = CHR ''.''" by blast
    then show ?thesis by (elim disjE) (auto simp: is_digit_def)
  qed
  have "js_number ?s = number_of_opt (parse_decimal ?s)"
    using second by (intro js_number_decimal js_trim_digits_ends ne hd last)
  moreover have "\<bar>of_int n / 100 :: rat\<bar> < 10 ^ 100"
  proof -
    have "(of_int n :: rat) < of_int (10 ^ 100)" using assms(2) unfolding of_int_less_iff .
    then have "(of_int n :: rat) < 10 ^ 100" by simp
    then show ?thesis using assms(1) by simp
  qed
  ultimately show ?thesis
    by (simp add: number_of_opt_def to_fixed2_parse [OF assms(1)] in_double_range_small)
qed

lemma to_fixed2_trim: "js_trim (to_fixed2 n) \<noteq> []"
proof -
  have "CHR ''.'' \<in> set (to_fixed2 n)" by (simp add: to_fixed2_def)
  moreover have "\<not> js_space CHR ''.''" by (simp add: js_space_def)
  ultimately show ?thesis by (meson js_trim_Nil)
qed

lemma zero_major: "major_to_minor (JStr (minor_to_major_string (JNum (Fin 0)))) = Some 0"
proof -
  have z: "all_digits ''0''" "digits_value ''0'' = 0" "js_trim ''0'' = ''0''"
    by (simp_all add: all_digits_def is_digit_def digits_value_def digit_val_def js_trim_def js_space_def)
  have "js_number ''0'' = Fin 0" using js_number_all_digits [of "''0''"] z by simp
  then show ?thesis
    by (simp add: minor_to_major_string_def major_to_minor_def text_or_number_def z js_round_def)
qed

section \<open>Properties\<close>

text \<open>A top-up request passes exactly when it is a whole number within the limits of a supported
  currency, or the one test amount for an administrator; every other value of any type is refused.\<close>

theorem topup_amount_problem_iff:
  "topup_amount_problem v currency admin_test = None
   \<longleftrightarrow> (\<exists>n. v = JNum (Fin (of_int n)) \<and> topup_allowed currency admin_test n)"
proof
  assume none: "topup_amount_problem v currency admin_test = None"
  then obtain q where v: "v = JNum (Fin q)" and "num_is_safe_integer (Fin q)"
    by (auto simp: topup_amount_problem_def split: option.splits jsval.splits jsnum.splits if_splits)
  then obtain n where "q = of_int n" using safe_integer_obtain by blast
  with none v show "\<exists>n. v = JNum (Fin (of_int n)) \<and> topup_allowed currency admin_test n"
    by (auto simp: topup_amount_problem_of_int)
qed (auto simp: topup_amount_problem_of_int)

text \<open>The charge for a net amount at a configured VAT percent: the net is kept, the tax is the exact
  VAT rounded to the nearest unit, and the total is their sum. Landing it on whole Toman keeps the
  net, moves the total by at most 9 Rial to a multiple of 10, keeps the tax non-negative, and is
  impossible only without tax.\<close>

theorem charge_whole_toman:
  assumes "0 \<le> n" and "vat_percent_for v currency = Some p"
  shows "net (charge_for n (Some p)) = n
    \<and> total (charge_for n (Some p)) = n + tax (charge_for n (Some p))
    \<and> 0 \<le> tax (charge_for n (Some p))
    \<and> \<bar>of_int (tax (charge_for n (Some p))) - of_int n * p / 100\<bar> \<le> 1 / 2
    \<and> (whole_toman_charge (charge_for n (Some p)) = None
         \<longleftrightarrow> tax (charge_for n (Some p)) = 0 \<and> total (charge_for n (Some p)) mod 10 \<noteq> 0)
    \<and> (case whole_toman_charge (charge_for n (Some p)) of None \<Rightarrow> True
       | Some c \<Rightarrow> net c = n \<and> 0 \<le> tax c \<and> total c = n + tax c \<and> total c mod 10 = 0
           \<and> \<bar>total c - total (charge_for n (Some p))\<bar> \<le> 9)"
proof -
  let ?c = "charge_for n (Some p)"
  have p: "0 \<le> p" using vat_percent_for_range assms(2) by blast
  have tax: "tax ?c = js_round (of_int n * p / 100)" by (simp add: charge_for_tax)
  have nonneg: "0 \<le> tax ?c" unfolding tax using assms(1) p by (intro js_round_nonneg) simp
  have near: "\<bar>of_int (tax ?c) - of_int n * p / 100\<bar> \<le> 1 / 2"
    unfolding tax using js_round_bounds [of "of_int n * p / 100"] by linarith
  have rest: "trem (total ?c) 10 = total ?c mod 10"
    using assms(1) nonneg by (intro trem_nonneg_eq) (simp_all add: charge_for_simps)
  have "total ?c = net ?c + tax ?c" by (simp add: charge_for_simps)
  from whole_toman_step [OF this nonneg rest] show ?thesis
    using nonneg near unfolding charge_for_simps by blast
qed

text \<open>An amount of 1,234,567 Rial at 9 percent VAT.\<close>

theorem charge_whole_toman_witness:
  "tax (charge_for 1234567 (Some 9)) = 111111
   \<and> whole_toman_charge (charge_for 1234567 (Some 9))
     = Some \<lparr>net = 1234567, tax = 111103, total = 1345670\<rparr>"
proof -
  have u: "js_upper ''irr'' = ''IRR''" by code_simp
  have v: "vat_percent_for (JObj [(''IRR'', JNum (Fin 9))]) ''irr'' = Some 9"
    by (simp add: vat_percent_for_def u js_round_def)
  have "\<bar>of_int (tax (charge_for 1234567 (Some 9))) - of_int 1234567 * 9 / 100\<bar> \<le> (1 / 2 :: rat)"
    using charge_whole_toman [of 1234567, OF _ v] by simp
  then show ?thesis
    by (simp add: charge_for_def js_round_def whole_toman_charge_def trem_def)
qed

text \<open>The major-unit text a gateway is sent is read back as the same minor amount.\<close>

theorem minor_major_roundtrip:
  assumes "0 \<le> n" and "n < 10 ^ 21"
  shows "major_to_minor (JStr (minor_to_major_string (JNum (Fin (of_int n))))) = Some n"
proof (cases "n = 0")
  case True
  then show ?thesis using zero_major by simp
next
  case False
  have "n < 10 ^ 100" using assms(2) by (rule less_le_trans) simp
  then have "js_number (to_fixed2 n) = Fin (of_int n / 100)" by (rule js_number_to_fixed2 [OF assms(1)])
  moreover have "minor_to_major_string (JNum (Fin (of_int n))) = to_fixed2 n"
    using assms(1) False by (simp add: minor_to_major_string_def)
  ultimately show ?thesis
    using assms(1) by (simp add: major_to_minor_def text_or_number_def to_fixed2_trim)
qed

theorem minor_major_roundtrip_witness:
  "minor_to_major_string (JNum (Fin 14990)) = ''149.90''
   \<and> major_to_minor (JStr (minor_to_major_string (JNum (Fin (of_int 14990))))) = Some 14990"
proof -
  have "show_nat 149 = ''149''" by code_simp
  then have "minor_to_major_string (JNum (Fin (of_int 14990))) = ''149.90''"
    by (simp add: minor_to_major_string_def to_fixed2_def show_int_def js_round_def)
  moreover have "major_to_minor (JStr (minor_to_major_string (JNum (Fin (of_int 14990))))) = Some 14990"
    by (rule minor_major_roundtrip) simp_all
  ultimately show ?thesis by simp
qed

end
