(* ===== verification/Ai_Packs.thy ===== *)
theory Ai_Packs
  imports Billing_Money
begin

text \<open>
  AI credit packs (\<open>shared/aiPacks.ts\<close>): the packs a Super Admin saves for an edition, how the
  stored value is read back, and the conversions between pack credit and the AI wallet. Labels are
  maps from languages to texts; an object's entries are visited in list order.
\<close>

section \<open>Data\<close>

datatype edition = Iran | International

record ai_pack =
  pack_id :: string
  pack_price :: int
  pack_credit :: int
  pack_active :: bool
  pack_labels :: "string \<Rightarrow> string option"

definition AI_PACK_CURRENCIES :: "edition \<Rightarrow> string list" where
  "AI_PACK_CURRENCIES e = (case e of Iran \<Rightarrow> [''IRR''] | International \<Rightarrow> [''USD'', ''TRY''])"

definition AI_PACK_LOCALES :: "string list" where
  "AI_PACK_LOCALES = [''fa'', ''en'', ''tr'']"

definition max_packs_per_currency :: nat where
  "max_packs_per_currency = 8"

definition max_credit_minor :: int where
  "max_credit_minor = 1000000000000"

definition max_label_length :: nat where
  "max_label_length = 40"

definition id_char :: "char \<Rightarrow> bool" where
  "id_char c \<longleftrightarrow> is_digit c \<or> 97 \<le> code_of c \<and> code_of c \<le> 122"

definition id_pattern :: "string \<Rightarrow> bool" where
  "id_pattern s \<longleftrightarrow>
     s \<noteq> [] \<and> id_char (hd s) \<and> length s \<le> 24
     \<and> list_all (\<lambda>c. id_char c \<or> c = CHR ''_'' \<or> c = CHR ''-'') (tl s)"

definition max_pack_price_minor :: "string \<Rightarrow> int option" where
  "max_pack_price_minor currency = map_option range_max (map_of TOPUP_LIMITS (js_upper currency))"

definition currency_exponent :: "string \<Rightarrow> nat" where
  "currency_exponent currency = (if js_upper currency = ''IRR'' then 0 else 2)"

datatype ai_packs_problem = Invalid | Duplicate | Too_many | Currency

datatype ai_packs_error = Ai_packs_invalid (error_field: string) (error_reason: ai_packs_problem)

definition positive_int :: "jsval \<Rightarrow> int \<Rightarrow> int option" where
  "positive_int v limit =
     (case v of
        JNum (Fin q) \<Rightarrow>
          if num_is_safe_integer (Fin q) \<and> 0 < q \<and> q \<le> of_int limit then Some \<lfloor>q\<rfloor> else None
      | _ \<Rightarrow> None)"

definition item_id :: "jsval \<Rightarrow> string" where
  "item_id item = (case get_prop item ''id'' of JStr s \<Rightarrow> s | _ \<Rightarrow> [])"

section \<open>Validation\<close>

definition at_field :: "string \<Rightarrow> nat \<Rightarrow> string" where
  "at_field currency i = currency @ ''.'' @ show_nat i"

fun validate_labels ::
  "string \<Rightarrow> jsval \<Rightarrow> string list \<Rightarrow> (string \<Rightarrow> string option)
   \<Rightarrow> ai_packs_error + (string \<Rightarrow> string option)" where
  "validate_labels field obj [] label = Inr label"
| "validate_labels field obj (key # keys) label =
     (if key \<notin> set AI_PACK_LOCALES then Inl (Ai_packs_invalid (field @ ''.label.'' @ key) Invalid)
      else (case get_prop obj key of
              Undefined \<Rightarrow> validate_labels field obj keys label
            | Null \<Rightarrow> validate_labels field obj keys label
            | JStr value \<Rightarrow>
                let trimmed = js_trim value
                in if max_label_length < length trimmed
                   then Inl (Ai_packs_invalid (field @ ''.label.'' @ key) Invalid)
                   else validate_labels field obj keys
                          (if trimmed \<noteq> [] then label(key \<mapsto> trimmed) else label)
            | _ \<Rightarrow> Inl (Ai_packs_invalid (field @ ''.label.'' @ key) Invalid)))"

fun object_keys :: "jsval \<Rightarrow> string list" where
  "object_keys (JObj m) = map fst m"
| "object_keys _ = []"

definition validate_label_field ::
  "string \<Rightarrow> jsval \<Rightarrow> ai_packs_error + (string \<Rightarrow> string option)" where
  "validate_label_field field v =
     (if nullish v then Inr (\<lambda>_. None)
      else if \<not> is_record v then Inl (Ai_packs_invalid (field @ ''.label'') Invalid)
      else validate_labels field v (object_keys v) (\<lambda>_. None))"

fun bool_or_absent :: "jsval \<Rightarrow> bool option" where
  "bool_or_absent Undefined = Some True"
| "bool_or_absent (JBool b) = Some b"
| "bool_or_absent _ = None"

definition validate_pack ::
  "string \<Rightarrow> int \<Rightarrow> string \<Rightarrow> string list \<Rightarrow> jsval \<Rightarrow> ai_packs_error + ai_pack" where
  "validate_pack currency max_price field seen item =
     (if \<not> is_record item then Inl (Ai_packs_invalid field Invalid)
      else
        let id = item_id item
        in if \<not> id_pattern id then Inl (Ai_packs_invalid (field @ ''.id'') Invalid)
           else if id \<in> set seen then Inl (Ai_packs_invalid (field @ ''.id'') Duplicate)
           else (case positive_int (get_prop item ''price_minor'') max_price of
             None \<Rightarrow> Inl (Ai_packs_invalid (field @ ''.price_minor'') Invalid)
           | Some price \<Rightarrow>
               if currency = ''IRR'' \<and> trem price 10 \<noteq> 0
               then Inl (Ai_packs_invalid (field @ ''.price_minor'') Invalid)
               else (case positive_int (get_prop item ''credit_minor'') max_credit_minor of
                 None \<Rightarrow> Inl (Ai_packs_invalid (field @ ''.credit_minor'') Invalid)
               | Some credit \<Rightarrow>
                   (case bool_or_absent (get_prop item ''active'') of
                      None \<Rightarrow> Inl (Ai_packs_invalid (field @ ''.active'') Invalid)
                    | Some active \<Rightarrow>
                        (case validate_label_field field (get_prop item ''label'') of
                           Inl e \<Rightarrow> Inl e
                         | Inr labels \<Rightarrow> Inr
                             \<lparr>pack_id = id, pack_price = price, pack_credit = credit,
                              pack_active = active, pack_labels = labels\<rparr>)))))"

fun validate_items ::
  "string \<Rightarrow> int \<Rightarrow> nat \<Rightarrow> string list \<Rightarrow> jsval list \<Rightarrow> ai_packs_error + ai_pack list" where
  "validate_items currency max_price i seen [] = Inr []"
| "validate_items currency max_price i seen (item # items) =
     (case validate_pack currency max_price (at_field currency i) seen item of
        Inl e \<Rightarrow> Inl e
      | Inr p \<Rightarrow>
          (case validate_items currency max_price (Suc i) (pack_id p # seen) items of
             Inl e \<Rightarrow> Inl e
           | Inr ps \<Rightarrow> Inr (p # ps)))"

definition validate_currency :: "jsval \<Rightarrow> string \<Rightarrow> ai_packs_error + ai_pack list" where
  "validate_currency raw currency =
     (case (if nullish (get_prop raw currency) then JArr [] else get_prop raw currency) of
        JArr items \<Rightarrow>
          if max_packs_per_currency < length items then Inl (Ai_packs_invalid currency Too_many)
          else validate_items currency
                 (case max_pack_price_minor currency of Some n \<Rightarrow> n | None \<Rightarrow> 0) 0 [] items
      | _ \<Rightarrow> Inl (Ai_packs_invalid currency Invalid))"

fun validate_currencies ::
  "jsval \<Rightarrow> string list \<Rightarrow> ai_packs_error + (string \<times> ai_pack list) list" where
  "validate_currencies raw [] = Inr []"
| "validate_currencies raw (c # cs) =
     (case validate_currency raw c of
        Inl e \<Rightarrow> Inl e
      | Inr ps \<Rightarrow>
          (case validate_currencies raw cs of Inl e \<Rightarrow> Inl e | Inr rest \<Rightarrow> Inr ((c, ps) # rest)))"

definition validate_ai_packs ::
  "jsval \<Rightarrow> edition \<Rightarrow> ai_packs_error + (string \<times> ai_pack list) list" where
  "validate_ai_packs raw edition =
     (if \<not> is_record raw then Inl (Ai_packs_invalid ''packs'' Invalid)
      else (case List.find (\<lambda>k. k \<notin> set (AI_PACK_CURRENCIES edition)) (object_keys raw) of
              Some k \<Rightarrow> Inl (Ai_packs_invalid k Currency)
            | None \<Rightarrow> validate_currencies raw (AI_PACK_CURRENCIES edition)))"

section \<open>Reading the stored packs\<close>

definition read_labels :: "jsval \<Rightarrow> string \<Rightarrow> string option" where
  "read_labels v locale =
     (if is_record v \<and> locale \<in> set AI_PACK_LOCALES then
        (case get_prop v locale of
           JStr s \<Rightarrow> if js_trim s \<noteq> [] then Some (js_trim s) else None
         | _ \<Rightarrow> None)
      else None)"

definition read_pack :: "ai_pack list \<Rightarrow> jsval \<Rightarrow> ai_pack option" where
  "read_pack out item =
     (if \<not> is_record item \<or> get_prop item ''active'' = JBool False then None
      else
        let id = item_id item
        in if id = [] \<or> id \<in> pack_id ` set out then None
           else (case (positive_int (get_prop item ''price_minor'') max_safe_integer,
                       positive_int (get_prop item ''credit_minor'') max_safe_integer) of
                   (Some price, Some credit) \<Rightarrow> Some
                     \<lparr>pack_id = id, pack_price = price, pack_credit = credit, pack_active = True,
                      pack_labels = read_labels (get_prop item ''label'')\<rparr>
                 | _ \<Rightarrow> None))"

definition active_packs :: "jsval \<Rightarrow> string \<Rightarrow> ai_pack list" where
  "active_packs all currency =
     (if \<not> is_record all then []
      else (case get_prop all (js_upper currency) of
              JArr items \<Rightarrow>
                foldl (\<lambda>out item. case read_pack out item of None \<Rightarrow> out | Some p \<Rightarrow> out @ [p]) [] items
            | _ \<Rightarrow> []))"

definition pack_label :: "ai_pack option \<Rightarrow> string \<Rightarrow> string \<Rightarrow> string" where
  "pack_label pack locale fallback =
     (case Option.bind pack (\<lambda>p. pack_labels p (takeWhile (\<lambda>c. c \<noteq> CHR ''-'') (js_lower locale))) of
        Some own \<Rightarrow> if js_trim own \<noteq> [] then js_trim own else fallback
      | None \<Rightarrow> fallback)"

section \<open>The AI wallet\<close>

definition usable_rate :: "jsval \<Rightarrow> rat option" where
  "usable_rate rate = (case rate of JNum (Fin q) \<Rightarrow> if 0 < q then Some q else None | _ \<Rightarrow> None)"

definition wallet_to_minor :: "jsnum \<Rightarrow> jsval \<Rightarrow> string \<Rightarrow> int option" where
  "wallet_to_minor wallet rate currency =
     (case (usable_rate rate, wallet) of
        (Some r, Fin w) \<Rightarrow>
          Some (max \<lfloor>w * 10 ^ currency_exponent currency / r + 1 / 1000000000\<rfloor> 0)
      | _ \<Rightarrow> None)"

definition credit_to_wallet :: "int \<Rightarrow> jsval \<Rightarrow> string \<Rightarrow> int option" where
  "credit_to_wallet credit_minor rate currency =
     map_option (\<lambda>r. js_round (of_int credit_minor / 10 ^ currency_exponent currency * r)) (usable_rate rate)"

definition bonus_percent :: "int \<Rightarrow> int \<Rightarrow> int" where
  "bonus_percent price credit =
     (if \<not> 0 < price \<or> \<not> price < credit then 0 else ((credit - price) * 100) div price)"

section \<open>Saving and reading agree\<close>

definition labels_json :: "(string \<Rightarrow> string option) \<Rightarrow> jsval" where
  "labels_json label =
     JObj (List.map_filter (\<lambda>l. map_option (\<lambda>v. (l, JStr v)) (label l)) AI_PACK_LOCALES)"

definition pack_json :: "ai_pack \<Rightarrow> jsval" where
  "pack_json p = JObj
     ([(''id'', JStr (pack_id p)), (''price_minor'', JNum (Fin (of_int (pack_price p)))),
       (''credit_minor'', JNum (Fin (of_int (pack_credit p)))), (''active'', JBool (pack_active p))]
      @ (if pack_labels p = (\<lambda>_. None) then [] else [(''label'', labels_json (pack_labels p))]))"

definition packs_json :: "(string \<times> ai_pack list) list \<Rightarrow> jsval" where
  "packs_json all = JObj (map (\<lambda>(c, ps). (c, JArr (map pack_json ps))) all)"

definition labels_ok :: "(string \<Rightarrow> string option) \<Rightarrow> bool" where
  "labels_ok label \<longleftrightarrow>
     (\<forall>l v. label l = Some v \<longrightarrow>
        l \<in> set AI_PACK_LOCALES \<and> v \<noteq> [] \<and> js_trim v = v \<and> length v \<le> max_label_length)"

definition pack_ok :: "string \<Rightarrow> int \<Rightarrow> ai_pack \<Rightarrow> bool" where
  "pack_ok currency max_price p \<longleftrightarrow>
     id_pattern (pack_id p) \<and> 0 < pack_price p \<and> pack_price p \<le> max_price
     \<and> pack_price p \<le> max_safe_integer
     \<and> (currency = ''IRR'' \<longrightarrow> pack_price p mod 10 = 0)
     \<and> 0 < pack_credit p \<and> pack_credit p \<le> max_credit_minor \<and> labels_ok (pack_labels p)"

lemma positive_int_Some [simp]:
  "positive_int v limit = Some n \<longleftrightarrow>
     v = JNum (Fin (of_int n)) \<and> 0 < n \<and> n \<le> limit \<and> n \<le> max_safe_integer"
proof
  assume "positive_int v limit = Some n"
  then show "v = JNum (Fin (of_int n)) \<and> 0 < n \<and> n \<le> limit \<and> n \<le> max_safe_integer"
    by (auto simp: positive_int_def rat_is_int_def split: jsval.splits jsnum.splits if_splits)
qed (auto simp: positive_int_def)

lemma labels_ok_update:
  "labels_ok label \<Longrightarrow> key \<in> set AI_PACK_LOCALES \<Longrightarrow> v \<noteq> [] \<Longrightarrow> js_trim v = v
   \<Longrightarrow> length v \<le> max_label_length \<Longrightarrow> labels_ok (label(key \<mapsto> v))"
  by (simp add: labels_ok_def)

lemma validate_labels_ok:
  "validate_labels f obj keys label = Inr out \<Longrightarrow> labels_ok label \<Longrightarrow> labels_ok out"
proof (induction f obj keys label rule: validate_labels.induct)
  case (2 f obj key keys label)
  show ?case
    using 2 by (cases "get_prop obj key") (auto simp: Let_def labels_ok_update split: if_split_asm)
qed simp

lemma validate_pack_ok:
  assumes "validate_pack c mx f seen item = Inr p"
  shows "pack_ok c mx p \<and> pack_id p \<notin> set seen"
proof -
  have l: "validate_label_field f v = Inr l \<Longrightarrow> labels_ok l" for v l
    using validate_labels_ok [of f v "object_keys v" "\<lambda>_. None"]
    by (auto simp: validate_label_field_def labels_ok_def [of "\<lambda>_. None"] split: if_splits)
  show ?thesis
    using assms unfolding validate_pack_def Let_def
    by (cases p) (simp add: pack_ok_def trem_nonneg_eq del: positive_int_Some
        split: if_split_asm option.split_asm sum.split_asm,
        simp only: positive_int_Some, metis l trem_nonneg_eq zero_less_numeral less_imp_le)
qed

lemma validate_items_ok:
  "validate_items c mx i seen items = Inr ps \<Longrightarrow>
   length ps = length items \<and> list_all (pack_ok c mx) ps \<and> distinct (map pack_id ps)
   \<and> set (map pack_id ps) \<inter> set seen = {}"
proof (induction items arbitrary: i seen ps)
  case (Cons item items)
  then obtain p qs where p: "validate_pack c mx (at_field c i) seen item = Inr p"
    and qs: "validate_items c mx (Suc i) (pack_id p # seen) items = Inr qs" and ps: "ps = p # qs"
    by (auto split: sum.splits)
  from Cons.IH [OF qs] validate_pack_ok [OF p] show ?case by (auto simp: ps)
qed simp

definition packs_wellformed :: "edition \<Rightarrow> (string \<times> ai_pack list) list \<Rightarrow> bool" where
  "packs_wellformed edition all \<longleftrightarrow>
     map fst all = AI_PACK_CURRENCIES edition
     \<and> (\<forall>(c, ps)\<in>set all. length ps \<le> max_packs_per_currency \<and> distinct (map pack_id ps)
          \<and> list_all (pack_ok c (case max_pack_price_minor c of Some n \<Rightarrow> n | None \<Rightarrow> 0)) ps)"

lemma validate_currency_ok:
  assumes "validate_currency raw c = Inr ps"
  shows "length ps \<le> max_packs_per_currency \<and> distinct (map pack_id ps)
    \<and> list_all (pack_ok c (case max_pack_price_minor c of Some n \<Rightarrow> n | None \<Rightarrow> 0)) ps"
  using assms validate_items_ok unfolding validate_currency_def
  by (fastforce split: jsval.splits if_splits)

lemma validate_currencies_ok:
  "validate_currencies raw cs = Inr all \<Longrightarrow> map fst all = cs
   \<and> (\<forall>(c, ps)\<in>set all. length ps \<le> max_packs_per_currency \<and> distinct (map pack_id ps)
        \<and> list_all (pack_ok c (case max_pack_price_minor c of Some n \<Rightarrow> n | None \<Rightarrow> 0)) ps)"
proof (induction cs arbitrary: all)
  case (Cons c cs)
  then obtain ps rest where ps: "validate_currency raw c = Inr ps"
    and rest: "validate_currencies raw cs = Inr rest" and all: "all = (c, ps) # rest"
    by (auto split: sum.splits)
  from Cons.IH [OF rest] validate_currency_ok [OF ps] show ?case by (simp add: all)
qed simp

lemma validate_ai_packs_ok: "validate_ai_packs raw e = Inr all \<Longrightarrow> packs_wellformed e all"
  unfolding validate_ai_packs_def packs_wellformed_def
  by (rule validate_currencies_ok) (auto split: if_splits option.splits)

subsection \<open>Reading back\<close>

lemma labels_ok_outside: "labels_ok label \<Longrightarrow> l \<notin> set AI_PACK_LOCALES \<Longrightarrow> label l = None"
  by (cases "label l") (auto simp: labels_ok_def)

lemma labels_json_props:
  assumes "labels_ok label"
  shows "get_prop (labels_json label) l = (case label l of None \<Rightarrow> Undefined | Some v \<Rightarrow> JStr v)"
  using labels_ok_outside [OF assms, of l]
  by (auto simp: labels_json_def map_of_map_filter split: option.splits)

lemma is_record_labels_json [simp]: "is_record (labels_json label)" "\<not> nullish (labels_json label)"
  by (simp_all add: labels_json_def)

lemma read_labels_json: "labels_ok label \<Longrightarrow> read_labels (labels_json label) = label"
proof (rule ext)
  fix l assume ok: "labels_ok label"
  show "read_labels (labels_json label) l = label l"
  proof (cases "label l")
    case None
    then show ?thesis by (simp add: read_labels_def labels_json_props [OF ok])
  next
    case (Some v)
    then have "l \<in> set AI_PACK_LOCALES" "v \<noteq> []" "js_trim v = v"
      using ok by (auto simp: labels_ok_def)
    with Some show ?thesis by (simp add: read_labels_def labels_json_props [OF ok])
  qed
qed

lemma validate_labels_json_step:
  assumes "labels_ok label" and "set keys \<subseteq> set AI_PACK_LOCALES"
  shows "validate_labels f (labels_json label) keys acc
    = Inr (\<lambda>l. if l \<in> set keys \<and> label l \<noteq> None then label l else acc l)"
  using assms(2)
proof (induction keys arbitrary: acc)
  case (Cons k keys)
  then have k: "k \<in> set AI_PACK_LOCALES" by simp
  show ?case
  proof (cases "label k")
    case None
    then show ?thesis
      using Cons k by (auto simp: labels_json_props [OF assms(1)] fun_eq_iff)
  next
    case (Some v)
    then have "v \<noteq> []" "js_trim v = v" "length v \<le> max_label_length"
      using assms(1) by (auto simp: labels_ok_def)
    then show ?thesis
      using Cons k Some by (auto simp: labels_json_props [OF assms(1)] fun_eq_iff)
  qed
qed simp

lemma validate_label_json:
  assumes "labels_ok label" shows "validate_label_field f (labels_json label) = Inr label"
proof -
  have keys: "object_keys (labels_json label) = filter (\<lambda>l. label l \<noteq> None) AI_PACK_LOCALES"
    by (auto simp: labels_json_def AI_PACK_LOCALES_def List.map_filter_def)
  have "(\<lambda>l. if l \<in> set (object_keys (labels_json label)) \<and> label l \<noteq> None then label l else None) = label"
    using labels_ok_outside [OF assms] by (auto simp: keys fun_eq_iff)
  moreover have "set (object_keys (labels_json label)) \<subseteq> set AI_PACK_LOCALES" by (auto simp: keys)
  ultimately show ?thesis
    using validate_labels_json_step [OF assms, of "object_keys (labels_json label)" f "\<lambda>_. None"]
    by (simp add: validate_label_field_def)
qed

lemma pack_json_props:
  "is_record (pack_json p)"
  "get_prop (pack_json p) ''id'' = JStr (pack_id p)"
  "get_prop (pack_json p) ''price_minor'' = JNum (Fin (of_int (pack_price p)))"
  "get_prop (pack_json p) ''credit_minor'' = JNum (Fin (of_int (pack_credit p)))"
  "get_prop (pack_json p) ''active'' = JBool (pack_active p)"
  "get_prop (pack_json p) ''label''
     = (if pack_labels p = (\<lambda>_. None) then Undefined else labels_json (pack_labels p))"
  by (simp_all add: pack_json_def)

lemma validate_pack_json:
  assumes "pack_ok c mx p" and "pack_id p \<notin> set seen"
  shows "validate_pack c mx f seen (pack_json p) = Inr p"
proof -
  have i: "positive_int (JNum (Fin (of_int (pack_price p)))) mx = Some (pack_price p)"
    "positive_int (JNum (Fin (of_int (pack_credit p)))) max_credit_minor = Some (pack_credit p)"
    using assms(1) by (auto simp: pack_ok_def max_credit_minor_def max_safe_integer_def)
  have l: "validate_label_field f (get_prop (pack_json p) ''label'') = Inr (pack_labels p)"
  proof (cases "pack_labels p = (\<lambda>_. None)")
    case True
    then show ?thesis by (simp add: pack_json_props validate_label_field_def)
  next
    case False
    then show ?thesis
      using assms(1) validate_label_json by (simp add: pack_json_props pack_ok_def)
  qed
  have t: "c = ''IRR'' \<Longrightarrow> trem (pack_price p) 10 = 0"
    using assms(1) by (simp add: pack_ok_def trem_nonneg_eq)
  show ?thesis
    using assms t unfolding validate_pack_def Let_def l
    by (simp add: pack_json_props i pack_ok_def item_id_def)
qed

lemma validate_items_json:
  "list_all (pack_ok c mx) ps \<Longrightarrow> distinct (map pack_id ps) \<Longrightarrow> set (map pack_id ps) \<inter> set seen = {}
   \<Longrightarrow> validate_items c mx i seen (map pack_json ps) = Inr ps"
  by (induction ps arbitrary: i seen) (simp_all add: validate_pack_json)

lemma packs_json_get:
  "get_prop (packs_json all) c
   = (case map_of all c of None \<Rightarrow> Undefined | Some ps \<Rightarrow> JArr (map pack_json ps))"
  by (induction all) (auto simp: packs_json_def split: option.splits)

lemma is_record_packs_json [simp]: "is_record (packs_json all)"
  by (simp add: packs_json_def)

lemma edition_currencies_distinct: "distinct (AI_PACK_CURRENCIES e)"
  by (cases e) (simp_all add: AI_PACK_CURRENCIES_def)

lemma validate_currencies_json:
  assumes "\<forall>(c, ps)\<in>set rest. map_of all c = Some ps \<and> length ps \<le> max_packs_per_currency
      \<and> distinct (map pack_id ps)
      \<and> list_all (pack_ok c (case max_pack_price_minor c of Some n \<Rightarrow> n | None \<Rightarrow> 0)) ps"
  shows "validate_currencies (packs_json all) (map fst rest) = Inr rest"
  using assms
  by (induction rest) (auto simp: validate_currency_def packs_json_get validate_items_json)

lemma validate_packs_json:
  assumes "packs_wellformed e all" shows "validate_ai_packs (packs_json all) e = Inr all"
proof -
  have fst: "map fst all = AI_PACK_CURRENCIES e" using assms by (simp add: packs_wellformed_def)
  have keys: "object_keys (packs_json all) = AI_PACK_CURRENCIES e"
    by (simp add: packs_json_def comp_def case_prod_beta fst [symmetric])
  have "map_of all c = Some ps" if "(c, ps) \<in> set all" for c ps
    using that edition_currencies_distinct [of e] by (simp add: fst [symmetric])
  then have "validate_currencies (packs_json all) (map fst all) = Inr all"
    using assms by (intro validate_currencies_json) (auto simp: packs_wellformed_def)
  moreover have "List.find (\<lambda>k. k \<notin> set (AI_PACK_CURRENCIES e)) (object_keys (packs_json all)) = None"
    by (simp add: find_None_all keys)
  ultimately show ?thesis by (simp add: validate_ai_packs_def fst)
qed

definition accepted_packs :: "edition \<Rightarrow> jsval \<Rightarrow> (string \<times> ai_pack list) list option" where
  "accepted_packs e raw = (case validate_ai_packs raw e of Inl _ \<Rightarrow> None | Inr all \<Rightarrow> Some all)"

interpretation pack_reader: normalizer "accepted_packs e" packs_json "packs_wellformed e"
  by unfold_locales
    (auto simp: accepted_packs_def validate_packs_json dest: validate_ai_packs_ok split: sum.splits)

lemma read_pack_json:
  assumes "pack_ok c mx p" and "pack_id p \<notin> pack_id ` set out"
  shows "read_pack out (pack_json p) = (if pack_active p then Some p else None)"
proof -
  have i: "positive_int (JNum (Fin (of_int (pack_price p)))) max_safe_integer = Some (pack_price p)"
    "positive_int (JNum (Fin (of_int (pack_credit p)))) max_safe_integer = Some (pack_credit p)"
    using assms(1) by (auto simp: pack_ok_def max_credit_minor_def max_safe_integer_def)
  have l: "read_labels (get_prop (pack_json p) ''label'') = pack_labels p"
  proof (cases "pack_labels p = (\<lambda>_. None)")
    case True
    then show ?thesis by (simp add: pack_json_props read_labels_def fun_eq_iff)
  next
    case False
    then show ?thesis
      using assms(1) read_labels_json by (simp add: pack_json_props pack_ok_def)
  qed
  have "pack_id p \<noteq> []" using assms(1) by (simp add: pack_ok_def id_pattern_def)
  then show ?thesis
    using assms(2) unfolding read_pack_def Let_def l by (simp add: pack_json_props i item_id_def)
qed

lemma active_fold:
  "list_all (pack_ok c mx) ps \<Longrightarrow> distinct (map pack_id ps) \<Longrightarrow> pack_id ` set out \<inter> pack_id ` set ps = {}
   \<Longrightarrow> foldl (\<lambda>out item. case read_pack out item of None \<Rightarrow> out | Some p \<Rightarrow> out @ [p]) out (map pack_json ps)
     = out @ filter pack_active ps"
proof (induction ps arbitrary: out)
  case (Cons p ps)
  then have r: "read_pack out (pack_json p) = (if pack_active p then Some p else None)"
    by (intro read_pack_json) auto
  show ?case
    using Cons.IH [of "if pack_active p then out @ [p] else out"] Cons.prems by (auto simp: r)
qed simp

section \<open>Properties\<close>

text \<open>Packs the validator accepts are well formed with unique ids per currency; stored and validated
  again they come back unchanged, and what customers are offered in a currency is exactly the active
  packs, in their saved order.\<close>

theorem ai_packs_saved_and_offered:
  assumes "validate_ai_packs raw e = Inr all" and "(c, ps) \<in> set all"
  shows "distinct (map pack_id ps) \<and> length ps \<le> 8
    \<and> list_all (pack_ok c (case max_pack_price_minor c of Some n \<Rightarrow> n | None \<Rightarrow> 0)) ps
    \<and> validate_ai_packs (packs_json all) e = Inr all
    \<and> active_packs (packs_json all) c = filter pack_active ps"
proof -
  note w = validate_ai_packs_ok [OF assms(1)]
  have ps: "distinct (map pack_id ps)" "length ps \<le> 8"
    "list_all (pack_ok c (case max_pack_price_minor c of Some n \<Rightarrow> n | None \<Rightarrow> 0)) ps"
    using w assms(2) by (auto simp: packs_wellformed_def max_packs_per_currency_def)
  have fst: "map fst all = AI_PACK_CURRENCIES e" using w by (simp add: packs_wellformed_def)
  have "map_of all c = Some ps"
    using assms(2) edition_currencies_distinct [of e] by (simp add: fst [symmetric])
  moreover have "js_upper c = c"
  proof -
    have "c \<in> set (AI_PACK_CURRENCIES e)" using assms(2) by (force simp: fst [symmetric])
    then show ?thesis by (cases e) (auto simp: AI_PACK_CURRENCIES_def js_upper_def js_upper_char_def latin1_lower_def)
  qed
  ultimately have "active_packs (packs_json all) c = filter pack_active ps"
    using active_fold [OF ps(3,1), of "[]"] by (simp add: active_packs_def packs_json_get)
  with ps validate_packs_json [OF w] show ?thesis by blast
qed

theorem ai_packs_saved_and_offered_witness:
  "active_packs (packs_json [(''IRR'', [])]) ''IRR'' = []"
proof -
  have "validate_ai_packs (JObj [(''IRR'', Null)]) Iran = Inr [(''IRR'', [])]"
    by (simp add: validate_ai_packs_def AI_PACK_CURRENCIES_def validate_currency_def max_packs_per_currency_def)
  from ai_packs_saved_and_offered [OF this, of "''IRR''" "[]"] show ?thesis by simp
qed

text \<open>The wallet is never shown as more credit than it holds (up to the billionth that absorbs binary
  noise), and the credit a pack adds is shown as that credit or one unit less, at any rate of at
  least one wallet unit per minor unit.\<close>

theorem wallet_shown_conservatively:
  assumes "0 < r" and "0 \<le> c"
  shows "(case wallet_to_minor (Fin w) (JNum (Fin r)) currency of
        None \<Rightarrow> False
      | Some shown \<Rightarrow> 0 \<le> shown
          \<and> (shown = 0 \<or> of_int shown \<le> w * 10 ^ currency_exponent currency / r + 1 / 1000000000))
    \<and> (\<not> 10 ^ currency_exponent currency \<le> r
       \<or> (\<exists>wallet shown. credit_to_wallet c (JNum (Fin r)) currency = Some wallet
          \<and> wallet_to_minor (Fin (of_int wallet)) (JNum (Fin r)) currency = Some shown
          \<and> c - 1 \<le> shown \<and> shown \<le> c))"
proof (rule conjI)
  show "case wallet_to_minor (Fin w) (JNum (Fin r)) currency of
        None \<Rightarrow> False
      | Some shown \<Rightarrow> 0 \<le> shown
          \<and> (shown = 0 \<or> of_int shown \<le> w * 10 ^ currency_exponent currency / r + 1 / 1000000000)"
    using assms(1) by (auto simp: wallet_to_minor_def usable_rate_def max_def)
  let ?f = "10 ^ currency_exponent currency :: rat"
  show "\<not> ?f \<le> r \<or> (\<exists>wallet shown. credit_to_wallet c (JNum (Fin r)) currency = Some wallet
          \<and> wallet_to_minor (Fin (of_int wallet)) (JNum (Fin r)) currency = Some shown
          \<and> c - 1 \<le> shown \<and> shown \<le> c)"
  proof (cases "?f \<le> r")
    case True
    let ?w = "js_round (of_int c / ?f * r)"
    let ?x = "of_int ?w * ?f / r"
    have near: "\<bar>of_int ?w - of_int c / ?f * r\<bar> \<le> 1 / 2"
      using js_round_bounds [of "of_int c / ?f * r"] by linarith
    have f: "0 < ?f / r" "?f / r \<le> 1" using True assms(1) by simp_all
    have "?x - of_int c = (of_int ?w - of_int c / ?f * r) * (?f / r)"
      using assms(1) by (simp add: field_simps)
    then have "\<bar>?x - of_int c\<bar> = \<bar>of_int ?w - of_int c / ?f * r\<bar> * (?f / r)"
      using f(1) by (metis abs_mult abs_of_pos)
    also have "\<dots> \<le> 1 / 2 * 1" using near f by (intro mult_mono) auto
    finally have "\<bar>?x - of_int c\<bar> \<le> 1 / 2" by simp
    then have "c - 1 \<le> \<lfloor>?x + 1 / 1000000000\<rfloor>" "\<lfloor>?x + 1 / 1000000000\<rfloor> \<le> c"
      unfolding le_floor_iff floor_le_iff by linarith+
    then have "c - 1 \<le> max \<lfloor>?x + 1 / 1000000000\<rfloor> 0 \<and> max \<lfloor>?x + 1 / 1000000000\<rfloor> 0 \<le> c"
      using assms(2) by (intro conjI le_max_iff_disj [THEN iffD2] max.boundedI disjI1)
    moreover have "credit_to_wallet c (JNum (Fin r)) currency = Some ?w"
      "wallet_to_minor (Fin (of_int ?w)) (JNum (Fin r)) currency = Some (max \<lfloor>?x + 1 / 1000000000\<rfloor> 0)"
      using assms(1) by (simp_all add: credit_to_wallet_def wallet_to_minor_def usable_rate_def)
    ultimately show ?thesis by blast
  qed simp
qed

theorem wallet_shown_conservatively_witness:
  "\<exists>wallet shown. credit_to_wallet 600 (JNum (Fin 90000)) ''USD'' = Some wallet
     \<and> wallet_to_minor (Fin (of_int wallet)) (JNum (Fin 90000)) ''USD'' = Some shown \<and> 599 \<le> shown"
proof -
  have "currency_exponent ''USD'' = 2"
    by (simp add: currency_exponent_def js_upper_def js_upper_char_def latin1_lower_def)
  then show ?thesis using wallet_shown_conservatively [of 90000 600 0 "''USD''"] by auto
qed

end
