(* ===== verification/Fixed_Decimal.thy ===== *)
theory Fixed_Decimal
  imports Js_Values
begin

text \<open>
  Fixed-point decimals of the AI billing (\<open>server/services/ai-billing/decimal.ts\<close>): an amount is an
  integer scaled by ten to the twelfth (a BigInt, whose division truncates), read from and printed
  as a decimal text. A number reaches \<open>fromString\<close> as the text \<open>String\<close> prints for it.
\<close>

section \<open>Reading\<close>

definition SCALE :: nat where
  "SCALE = 12"

definition SCALE_FACTOR :: int where
  "SCALE_FACTOR = 10 ^ SCALE"

definition MAX_EXPONENT :: int where
  "MAX_EXPONENT = 400"

definition zeros :: "nat \<Rightarrow> string" where
  "zeros n = replicate n (CHR ''0'')"

definition strip_minus :: "string \<Rightarrow> bool \<times> string" where
  "strip_minus s = (if s \<noteq> [] \<and> hd s = CHR ''-'' then (True, tl s) else (False, s))"

text \<open>The text matches \<open>-?d*(.d*)?\<close>.\<close>

definition plain_body :: "string \<Rightarrow> bool" where
  "plain_body s =
     (case dropWhile is_digit s of [] \<Rightarrow> True | c # r \<Rightarrow> c = CHR ''.'' \<and> list_all is_digit r)"

definition is_plain :: "string \<Rightarrow> bool" where
  "is_plain s = plain_body (snd (strip_minus s))"

text \<open>The digits before and after the point, then the exponent, of \<open>d+(.d*)?[eE][+-]?d+\<close>.\<close>

definition exponent_parts :: "string \<Rightarrow> (string \<times> string \<times> int) option" where
  "exponent_parts s =
     (let ip = takeWhile is_digit s;
          (fp, r) = split_fraction (dropWhile is_digit s)
      in if ip = [] then None
         else (case r of
                 [] \<Rightarrow> None
               | c # t \<Rightarrow> if c = CHR ''e'' \<or> c = CHR ''E''
                         then map_option (\<lambda>e. (ip, fp, e)) (parse_exponent t) else None))"

definition expand_digits :: "string \<Rightarrow> string \<Rightarrow> int \<Rightarrow> string" where
  "expand_digits ip fp e =
     (let digits = ip @ fp; point = int (length ip) + e
      in if point \<le> 0 then ''0.'' @ zeros (nat (- point)) @ digits
         else if int (length digits) \<le> point then digits @ zeros (nat (point - int (length digits)))
         else take (nat point) digits @ CHR ''.'' # drop (nat point) digits)"

definition expand_exponent :: "string \<Rightarrow> string option" where
  "expand_exponent s =
     (let (neg, body) = strip_minus s
      in case exponent_parts body of
           None \<Rightarrow> None
         | Some (ip, fp, e) \<Rightarrow>
             if MAX_EXPONENT < \<bar>e\<bar> then None
             else Some ((if neg then ''-'' else []) @ expand_digits ip fp e))"

text \<open>\<open>body.split('.')\<close>: the part before the first point and the part up to the second.\<close>

definition before_point :: "string \<Rightarrow> string" where
  "before_point s = takeWhile (\<lambda>c. c \<noteq> CHR ''.'') s"

definition after_point :: "string \<Rightarrow> string" where
  "after_point s = takeWhile (\<lambda>c. c \<noteq> CHR ''.'') (tl (dropWhile (\<lambda>c. c \<noteq> CHR ''.'') s))"

definition scaled_value :: "string \<Rightarrow> string \<Rightarrow> int" where
  "scaled_value ip fp =
     int (digits_value ip) * SCALE_FACTOR + int (digits_value (take SCALE (fp @ zeros SCALE)))"

definition from_plain :: "string \<Rightarrow> int" where
  "from_plain s =
     (let (neg, body) = strip_minus s;
          v = scaled_value (before_point body) (after_point body)
      in if neg then - v else v)"

text \<open>The error is \<open>invalid_decimal\<close> with the trimmed text.\<close>

definition from_string :: "string option \<Rightarrow> string + int" where
  "from_string value =
     (case value of
        None \<Rightarrow> Inr 0
      | Some t \<Rightarrow>
          let s = js_trim t
          in if is_plain s then Inr (from_plain s)
             else (case expand_exponent s of
                     None \<Rightarrow> Inl (''invalid_decimal:'' @ s)
                   | Some p \<Rightarrow> Inr (from_plain p)))"

section \<open>Printing and arithmetic\<close>

definition strip_zeros :: "string \<Rightarrow> string" where
  "strip_zeros s = rev (dropWhile (\<lambda>c. c = CHR ''0'') (rev s))"

definition dec_to_string :: "int \<Rightarrow> string" where
  "dec_to_string value =
     (let a = nat \<bar>value\<bar>;
          frac = strip_zeros (pad_left SCALE (show_nat (a mod 10 ^ SCALE)))
      in (if value < 0 then ''-'' else []) @ show_nat (a div 10 ^ SCALE)
         @ (if frac \<noteq> [] then CHR ''.'' # frac else []))"

definition dec_add :: "int \<Rightarrow> int \<Rightarrow> int" where
  "dec_add a b = a + b"

definition dec_sub :: "int \<Rightarrow> int \<Rightarrow> int" where
  "dec_sub a b = a - b"

definition dec_mul :: "int \<Rightarrow> int \<Rightarrow> int" where
  "dec_mul a b = tdiv (a * b) SCALE_FACTOR"

definition dec_div :: "int \<Rightarrow> int \<Rightarrow> string + int" where
  "dec_div a b = (if b = 0 then Inl ''division_by_zero'' else Inr (tdiv (a * SCALE_FACTOR) b))"

definition dec_max :: "int \<Rightarrow> int \<Rightarrow> int" where
  "dec_max a b = (if b < a then a else b)"

definition dec_is_zero :: "int \<Rightarrow> bool" where
  "dec_is_zero a \<longleftrightarrow> a = 0"

definition dec_round :: "int \<Rightarrow> nat \<Rightarrow> int" where
  "dec_round value places =
     (if SCALE \<le> places then value
      else
        let factor = 10 ^ (SCALE - places);
            rounded = (\<bar>value\<bar> + factor div 2) div factor * factor
        in if value < 0 then - rounded else rounded)"

definition to_stored_irr :: "int \<Rightarrow> string" where
  "to_stored_irr value = dec_to_string (dec_round value 6)"

section \<open>The value of a decimal text\<close>

text \<open>The digits with a point among them, as a number of units of the last place kept.\<close>

lemma digits_value_zeros [simp]: "digits_value (zeros n) = 0"
  by (simp add: zeros_def)

lemma length_zeros [simp]: "length (zeros n) = n"
  by (simp add: zeros_def)

lemma zeros_digits: "list_all is_digit (zeros n)"
  by (auto simp: zeros_def list_all_iff is_digit_def)

definition decimal_value :: "string \<Rightarrow> string \<Rightarrow> rat" where
  "decimal_value ip fp = of_nat (digits_value (ip @ fp)) / 10 ^ length fp"

lemma scaled_value_floor:
  assumes "list_all is_digit fp"
  shows "scaled_value ip fp = \<lfloor>decimal_value ip fp * 10 ^ SCALE\<rfloor>"
proof (cases "length fp \<le> SCALE")
  case True
  let ?n = "length fp"
  have "take SCALE (fp @ zeros SCALE) = fp @ zeros (SCALE - ?n)"
    using True by (simp add: zeros_def)
  then have "scaled_value ip fp = int (digits_value (ip @ fp)) * 10 ^ (SCALE - ?n)"
    using True by (simp add: scaled_value_def SCALE_FACTOR_def digits_value_append
        algebra_simps power_add [symmetric])
  moreover have "(10 :: rat) ^ SCALE = 10 ^ (SCALE - ?n) * 10 ^ ?n"
    using True by (simp add: power_add [symmetric])
  then have "decimal_value ip fp * 10 ^ SCALE = of_int (int (digits_value (ip @ fp)) * 10 ^ (SCALE - ?n))"
    by (simp add: decimal_value_def)
  ultimately show ?thesis by (simp only: floor_of_int)
next
  case False
  define k where "k = length fp - SCALE"
  have len: "length fp = SCALE + k" "length (drop SCALE fp) = k" using False by (simp_all add: k_def)
  let ?a = "digits_value (ip @ take SCALE fp)" and ?b = "digits_value (drop SCALE fp)"
  have t: "take SCALE (fp @ zeros SCALE) = take SCALE fp" using False by simp
  have "scaled_value ip fp = int ?a"
    using False by (simp add: scaled_value_def t SCALE_FACTOR_def digits_value_append)
  moreover have "digits_value (ip @ fp) = ?a * 10 ^ k + ?b"
    using digits_value_append [of "ip @ take SCALE fp" "drop SCALE fp"] len by simp
  then have "decimal_value ip fp * 10 ^ SCALE = (of_nat ?a * 10 ^ k + of_nat ?b) / 10 ^ k"
    by (simp add: decimal_value_def len power_add)
  then have "decimal_value ip fp * 10 ^ SCALE = of_int (int ?a) + of_nat ?b / 10 ^ k"
    by (simp add: add_divide_distrib)
  moreover have "(of_nat ?b :: rat) < 10 ^ k"
  proof -
    have "?b < 10 ^ k"
      using assms digits_value_bound [of "drop SCALE fp"] len
      by (auto simp: list_all_iff dest: in_set_dropD)
    then show ?thesis by (metis of_nat_less_iff of_nat_numeral of_nat_power)
  qed
  ultimately show ?thesis by (simp add: floor_eq_iff)
qed

lemma digit_not_point: "is_digit c \<Longrightarrow> c \<noteq> CHR ''.'' \<and> c \<noteq> CHR ''-''"
  by (auto simp: is_digit_def)

lemma point_split:
  assumes "list_all is_digit ip" and "list_all is_digit fp"
  shows "before_point (ip @ CHR ''.'' # fp) = ip" and "after_point (ip @ CHR ''.'' # fp) = fp"
    and "before_point ip = ip" and "after_point ip = []"
proof -
  have i: "\<forall>c\<in>set ip. c \<noteq> CHR ''.''" and f: "\<forall>c\<in>set fp. c \<noteq> CHR ''.''"
    using assms digit_not_point by (auto simp: list_all_iff)
  show "before_point (ip @ CHR ''.'' # fp) = ip"
    unfolding before_point_def using i by (intro takeWhile_append_stop) auto
  have "dropWhile (\<lambda>c. c \<noteq> CHR ''.'') (ip @ CHR ''.'' # fp) = CHR ''.'' # fp"
    using i by (intro dropWhile_append_stop) auto
  then show "after_point (ip @ CHR ''.'' # fp) = fp"
    unfolding after_point_def using f by (simp add: takeWhile_all)
  show "before_point ip = ip" "after_point ip = []"
    unfolding before_point_def after_point_def using i by (simp_all add: takeWhile_all dropWhile_none)
qed

lemma strip_minus_digit: "s \<noteq> [] \<Longrightarrow> hd s \<noteq> CHR ''-'' \<Longrightarrow> strip_minus s = (False, s)"
  by (simp add: strip_minus_def)

lemma scale10_simps: "scale10 q (int n) = q * 10 ^ n" "scale10 q (- int n) = q / 10 ^ n"
  by (auto simp: scale10_def)

lemma expand_digits_value:
  assumes "list_all is_digit ip" and "list_all is_digit fp" and "ip \<noteq> []"
  shows "scaled_value (before_point (expand_digits ip fp e)) (after_point (expand_digits ip fp e))
    = \<lfloor>scale10 (decimal_value ip fp) e * 10 ^ SCALE\<rfloor>"
    and "hd (expand_digits ip fp e) \<noteq> CHR ''-''"
proof -
  let ?ds = "ip @ fp" and ?p = "int (length ip) + e"
  have d: "list_all is_digit ?ds" using assms by simp
  have hd: "hd ?ds \<noteq> CHR ''-''" "hd ip \<noteq> CHR ''-''"
    using assms digit_not_point by (cases ip; auto)+
  have v: "scale10 (decimal_value ip fp) e = scale10 (of_nat (digits_value ?ds)) (e - int (length fp))"
    by (auto simp: scale10_def decimal_value_def power_diff nat_diff_distrib power_add [symmetric] nat_add_distrib)
  consider "?p \<le> 0" | "0 < ?p" "int (length ?ds) \<le> ?p" | "0 < ?p" "?p < int (length ?ds)" by linarith
  then show "scaled_value (before_point (expand_digits ip fp e)) (after_point (expand_digits ip fp e))
      = \<lfloor>scale10 (decimal_value ip fp) e * 10 ^ SCALE\<rfloor>"
  proof cases
    case 1
    define k where "k = nat (- ?p)"
    have ex: "expand_digits ip fp e = ''0'' @ CHR ''.'' # (zeros k @ ?ds)"
      using 1 by (simp add: expand_digits_def k_def)
    have z: "list_all is_digit ''0''" "list_all is_digit (zeros k @ ?ds)"
      using d zeros_digits by (simp_all add: is_digit_def)
    have "e - int (length fp) = - int (length (zeros k @ ?ds))" using 1 by (simp add: k_def)
    moreover have "decimal_value ''0'' (zeros k @ ?ds) = of_nat (digits_value ?ds) / 10 ^ length (zeros k @ ?ds)"
    proof -
      have "''0'' @ zeros k = zeros (Suc k)" by (simp add: zeros_def)
      then have "digits_value (''0'' @ zeros k @ ?ds) = digits_value ?ds"
        using digits_value_append [of "zeros (Suc k)" ?ds] by (metis add_0 append_assoc digits_value_zeros mult_zero_left)
      then show ?thesis by (simp only: decimal_value_def)
    qed
    ultimately show ?thesis
      unfolding ex point_split(1,2) [OF z] scaled_value_floor [OF z(2)] v by (simp only: scale10_simps)
  next
    case 2
    define k where "k = nat (?p - int (length ?ds))"
    have ex: "expand_digits ip fp e = ?ds @ zeros k"
      using 2 by (simp add: expand_digits_def k_def)
    have z: "list_all is_digit (?ds @ zeros k)" "list_all is_digit []" using d zeros_digits by simp_all
    have "e - int (length fp) = int k" using 2 by (simp add: k_def)
    moreover have "decimal_value (?ds @ zeros k) [] = of_nat (digits_value ?ds) * 10 ^ k"
      using digits_value_append [of ?ds "zeros k"] by (simp add: decimal_value_def)
    ultimately show ?thesis
      unfolding ex point_split(3,4) [OF z] scaled_value_floor [OF z(2)] v by (simp only: scale10_simps)
  next
    case 3
    define n where "n = nat ?p"
    have ex: "expand_digits ip fp e = take n ?ds @ CHR ''.'' # drop n ?ds"
      using 3 by (simp add: expand_digits_def n_def Let_def)
    have z: "list_all is_digit (take n ?ds)" "list_all is_digit (drop n ?ds)"
      using d unfolding list_all_iff by (meson in_set_takeD in_set_dropD)+
    have "e - int (length fp) = - int (length (drop n ?ds))" using 3 by (simp add: n_def)
    moreover have "decimal_value (take n ?ds) (drop n ?ds)
        = of_nat (digits_value ?ds) / 10 ^ length (drop n ?ds)"
      unfolding decimal_value_def append_take_drop_id ..
    ultimately show ?thesis
      unfolding ex point_split(1,2) [OF z] scaled_value_floor [OF z(2)] v by (simp only: scale10_simps)
  qed
  show "hd (expand_digits ip fp e) \<noteq> CHR ''-''"
    using hd assms(3) by (auto simp: expand_digits_def Let_def hd_append)
qed

section \<open>Texts and their numbers\<close>

text \<open>A text without a sign that denotes the number \<open>q\<close> when read by \<open>Number\<close>.\<close>

definition readable_decimal :: "string \<Rightarrow> bool" where
  "readable_decimal b \<longleftrightarrow> b \<noteq> [] \<and> js_trim b = b
     \<and> (case exponent_parts b of None \<Rightarrow> plain_body b | Some (ip, fp, e) \<Rightarrow> \<bar>e\<bar> \<le> MAX_EXPONENT)"

lemma plain_body_split:
  assumes "plain_body b"
  obtains ip fp where "list_all is_digit ip" and "list_all is_digit fp"
    and "before_point b = ip" and "after_point b = fp" and "takeWhile is_digit b = ip"
    and "split_fraction (dropWhile is_digit b) = (fp, [])"
    and "fp = [] \<and> b = ip \<or> b = ip @ CHR ''.'' # fp"
proof -
  let ?ip = "takeWhile is_digit b"
  have ip: "list_all is_digit ?ip" by (auto simp: list_all_iff dest: set_takeWhileD)
  show ?thesis
  proof (cases "dropWhile is_digit b")
    case Nil
    then have "b = ?ip" by (metis append_Nil2 takeWhile_dropWhile_id)
    then show ?thesis
      using that [of ?ip "[]"] ip point_split(3,4) [OF ip, of "[]"] Nil by (simp add: split_fraction_def)
  next
    case (Cons c fp)
    then have c: "c = CHR ''.''" and fp: "list_all is_digit fp"
      using assms by (simp_all add: plain_body_def)
    have b: "b = ?ip @ CHR ''.'' # fp" using takeWhile_dropWhile_id [of is_digit b] Cons c by simp
    have "takeWhile is_digit fp = fp" "dropWhile is_digit fp = []"
      using fp by (auto simp: list_all_iff takeWhile_all)
    then show ?thesis
      using that [of ?ip fp] ip fp point_split(1,2) [OF ip fp, folded b] b Cons c
      by (simp add: split_fraction_def)
  qed
qed

lemma from_plain_value:
  assumes "plain_body b" and "parse_decimal b = Some q"
  shows "from_plain b = \<lfloor>q * 10 ^ SCALE\<rfloor>" and "strip_minus b = (False, b)"
proof -
  obtain ip fp where b: "list_all is_digit ip" "list_all is_digit fp" "before_point b = ip"
    "after_point b = fp" "takeWhile is_digit b = ip"
    "split_fraction (dropWhile is_digit b) = (fp, [])" "fp = [] \<and> b = ip \<or> b = ip @ CHR ''.'' # fp"
    using assms(1) by (rule plain_body_split)
  have q: "q = decimal_value ip fp" and ne: "ip \<noteq> [] \<or> fp \<noteq> []"
    using assms(2) b(5,6) by (auto simp: parse_decimal_def decimal_value_def Let_def split: if_splits)
  have "b \<noteq> [] \<and> hd b \<noteq> CHR ''-''"
    using b(1,2,7) ne digit_not_point by (cases ip) auto
  then show sm: "strip_minus b = (False, b)" by (simp add: strip_minus_def)
  show "from_plain b = \<lfloor>q * 10 ^ SCALE\<rfloor>"
    by (simp add: from_plain_def sm b(3,4) q scaled_value_floor [OF b(2)])
qed

lemma exponent_value:
  assumes "exponent_parts b = Some (ip, fp, e)"
  shows "parse_decimal b = Some (scale10 (decimal_value ip fp) e)"
    and "list_all is_digit ip" and "list_all is_digit fp" and "ip \<noteq> []"
    and "\<not> plain_body b" and "strip_minus b = (False, b)"
proof -
  have ip: "ip = takeWhile is_digit b" "ip \<noteq> []"
    using assms by (auto simp: exponent_parts_def Let_def split: if_splits prod.splits list.splits)
  obtain c t where s: "split_fraction (dropWhile is_digit b) = (fp, c # t)"
    and c: "c = CHR ''e'' \<or> c = CHR ''E''" and e: "parse_exponent t = Some e"
    using assms by (auto simp: exponent_parts_def Let_def split: if_splits prod.splits list.splits)
  show "parse_decimal b = Some (scale10 (decimal_value ip fp) e)"
    using s c e ip by (simp add: parse_decimal_def Let_def decimal_value_def)
  show "list_all is_digit ip" unfolding ip(1) by (auto simp: list_all_iff dest: set_takeWhileD)
  show "list_all is_digit fp"
    using s by (auto simp: split_fraction_def list_all_iff split: list.splits if_splits dest: set_takeWhileD)
  show "ip \<noteq> []" by (rule ip(2))
  show "\<not> plain_body b"
  proof
    assume "plain_body b"
    then show False by (rule plain_body_split) (use s in simp)
  qed
  have "is_digit (hd b)" using ip by (cases b) (auto split: if_splits)
  moreover have "b \<noteq> []" using ip by auto
  ultimately show "strip_minus b = (False, b)" using digit_not_point by (simp add: strip_minus_def)
qed

lemma strip_minus_neg [simp]: "strip_minus (CHR ''-'' # b) = (True, b)"
  by (simp add: strip_minus_def)

lemma from_string_expanded:
  assumes "exponent_parts b = Some (ip, fp, e)" and "\<bar>e\<bar> \<le> MAX_EXPONENT"
  shows "expand_exponent b = Some (expand_digits ip fp e)"
    and "expand_exponent (CHR ''-'' # b) = Some (CHR ''-'' # expand_digits ip fp e)"
    and "from_plain (expand_digits ip fp e) = \<lfloor>scale10 (decimal_value ip fp) e * 10 ^ SCALE\<rfloor>"
    and "from_plain (CHR ''-'' # expand_digits ip fp e)
      = - \<lfloor>scale10 (decimal_value ip fp) e * 10 ^ SCALE\<rfloor>"
proof -
  note v = exponent_value [OF assms(1)]
  note x = expand_digits_value [OF v(2,3,4), of e]
  have ne: "expand_digits ip fp e \<noteq> []" using v(4) by (simp add: expand_digits_def Let_def)
  show "expand_exponent b = Some (expand_digits ip fp e)"
    and "expand_exponent (CHR ''-'' # b) = Some (CHR ''-'' # expand_digits ip fp e)"
    using assms v(6) by (simp_all add: expand_exponent_def)
  show "from_plain (expand_digits ip fp e) = \<lfloor>scale10 (decimal_value ip fp) e * 10 ^ SCALE\<rfloor>"
    and "from_plain (CHR ''-'' # expand_digits ip fp e)
      = - \<lfloor>scale10 (decimal_value ip fp) e * 10 ^ SCALE\<rfloor>"
    using strip_minus_digit [OF ne x(2)] x(1) by (simp_all add: from_plain_def)
qed

lemma js_trim_minus: "js_trim b = b \<Longrightarrow> b \<noteq> [] \<Longrightarrow> js_trim (CHR ''-'' # b) = CHR ''-'' # b"
  using js_trim_ends(2) [of b] by (intro js_trim_id) (auto simp: js_space_def)

lemma from_string_reads:
  assumes "readable_decimal b" and "parse_decimal b = Some q"
  shows "from_string (Some b) = Inr \<lfloor>q * 10 ^ SCALE\<rfloor>"
    and "from_string (Some (CHR ''-'' # b)) = Inr (- \<lfloor>q * 10 ^ SCALE\<rfloor>)"
proof -
  have t: "js_trim b = b" "js_trim (CHR ''-'' # b) = CHR ''-'' # b"
    using assms(1) js_trim_minus by (auto simp: readable_decimal_def)
  show "from_string (Some b) = Inr \<lfloor>q * 10 ^ SCALE\<rfloor>"
    and "from_string (Some (CHR ''-'' # b)) = Inr (- \<lfloor>q * 10 ^ SCALE\<rfloor>)"
  proof (atomize (full), cases "exponent_parts b")
    case None
    then have p: "plain_body b" using assms(1) by (simp add: readable_decimal_def)
    note v = from_plain_value [OF p assms(2)]
    have "from_plain (CHR ''-'' # b) = - from_plain b" by (simp add: from_plain_def v(2))
    then show "from_string (Some b) = Inr \<lfloor>q * 10 ^ SCALE\<rfloor>
        \<and> from_string (Some (CHR ''-'' # b)) = Inr (- \<lfloor>q * 10 ^ SCALE\<rfloor>)"
      using p v by (simp add: from_string_def t is_plain_def)
  next
    case (Some parts)
    obtain ip fp e where x: "exponent_parts b = Some (ip, fp, e)" using Some by (cases parts) auto
    have e: "\<bar>e\<bar> \<le> MAX_EXPONENT" using assms(1) x by (simp add: readable_decimal_def)
    have "q = scale10 (decimal_value ip fp) e" using exponent_value(1) [OF x] assms(2) by simp
    then show "from_string (Some b) = Inr \<lfloor>q * 10 ^ SCALE\<rfloor>
        \<and> from_string (Some (CHR ''-'' # b)) = Inr (- \<lfloor>q * 10 ^ SCALE\<rfloor>)"
      using exponent_value(5,6) [OF x] from_string_expanded [OF x e]
      by (simp add: from_string_def t is_plain_def)
  qed
qed

section \<open>The printed text\<close>

lemma strip_zeros_append: "\<exists>m. s = strip_zeros s @ zeros m"
proof -
  let ?r = "rev s"
  have "set (takeWhile (\<lambda>c. c = CHR ''0'') ?r) \<subseteq> {CHR ''0''}" by (auto dest: set_takeWhileD)
  then have "takeWhile (\<lambda>c. c = CHR ''0'') ?r = zeros (length (takeWhile (\<lambda>c. c = CHR ''0'') ?r))"
    unfolding zeros_def by (intro replicate_eqI) auto
  moreover have "s = strip_zeros s @ rev (takeWhile (\<lambda>c. c = CHR ''0'') ?r)"
    unfolding strip_zeros_def by (metis rev_append rev_rev_ident takeWhile_dropWhile_id)
  ultimately show ?thesis by (metis rev_replicate zeros_def)
qed

lemma decimal_value_zeros: "decimal_value ip (fp @ zeros m) = decimal_value ip fp"
  using digits_value_append [of "ip @ fp" "zeros m"]
  by (simp add: decimal_value_def power_add)

lemma decimal_value_print:
  "decimal_value (show_nat (a div 10 ^ SCALE)) (strip_zeros (pad_left SCALE (show_nat (a mod 10 ^ SCALE))))
   = of_nat a / 10 ^ SCALE"
proof -
  let ?i = "show_nat (a div 10 ^ SCALE)" and ?p = "pad_left SCALE (show_nat (a mod 10 ^ SCALE))"
  obtain m where "?p = strip_zeros ?p @ zeros m" using strip_zeros_append by blast
  then have "decimal_value ?i (strip_zeros ?p) = decimal_value ?i ?p" by (metis decimal_value_zeros)
  moreover have "length ?p = SCALE"
    by (intro length_pad_left length_show_nat) (simp_all add: SCALE_def)
  then have "decimal_value ?i ?p = of_nat (a div 10 ^ SCALE * 10 ^ SCALE + a mod 10 ^ SCALE) / 10 ^ SCALE"
    by (simp add: decimal_value_def digits_value_append)
  ultimately show ?thesis unfolding div_mult_mod_eq by simp
qed

definition unsigned_text :: "nat \<Rightarrow> string" where
  "unsigned_text a =
     (let frac = strip_zeros (pad_left SCALE (show_nat (a mod 10 ^ SCALE)))
      in show_nat (a div 10 ^ SCALE) @ (if frac \<noteq> [] then CHR ''.'' # frac else []))"

lemma dec_to_string_unsigned:
  "dec_to_string v = (if v < 0 then ''-'' else []) @ unsigned_text (nat \<bar>v\<bar>)"
  by (simp add: dec_to_string_def unsigned_text_def Let_def)

lemma unsigned_text_reads:
  shows "readable_decimal (unsigned_text a)"
    and "parse_decimal (unsigned_text a) = Some (of_nat a / 10 ^ SCALE)"
proof -
  let ?i = "show_nat (a div 10 ^ SCALE)" and ?p = "pad_left SCALE (show_nat (a mod 10 ^ SCALE))"
  let ?f = "strip_zeros ?p"
  have i: "all_digits ?i" by simp
  have "list_all is_digit ?p"
    using show_nat_digits by (auto simp: pad_left_def list_all_iff is_digit_def)
  then have f: "list_all is_digit ?f"
    using strip_zeros_append [of ?p] by (metis list_all_append)
  have u: "unsigned_text a = (if ?f = [] then ?i else ?i @ CHR ''.'' # ?f)"
    by (simp add: unsigned_text_def Let_def)
  show "parse_decimal (unsigned_text a) = Some (of_nat a / 10 ^ SCALE)"
  proof (cases "?f = []")
    case True
    then have "of_nat (digits_value ?i) = (of_nat a / 10 ^ SCALE :: rat)"
      using decimal_value_print [of a] by (simp add: decimal_value_def)
    with True show ?thesis using parse_decimal_digits [OF i] by (simp add: u)
  next
    case False
    then show ?thesis
      using parse_decimal_point [OF i f] decimal_value_print [of a] by (simp add: u decimal_value_def)
  qed
  have id: "takeWhile is_digit (unsigned_text a) = ?i"
    "dropWhile is_digit (unsigned_text a) = (if ?f = [] then [] else CHR ''.'' # ?f)"
    using i by (auto simp: u all_digits_def list_all_iff is_digit_def [of "CHR ''.''"] takeWhile_all
        intro!: takeWhile_append_stop dropWhile_append_stop)
  have "plain_body (unsigned_text a)" using f by (simp add: plain_body_def id)
  moreover have "exponent_parts (unsigned_text a) = None"
    using f by (simp add: exponent_parts_def id split_fraction_def dropWhile_none list_all_iff)
  moreover have "js_trim (unsigned_text a) = unsigned_text a"
  proof (rule js_trim_digits_ends)
    show "unsigned_text a \<noteq> []" by (simp add: u)
    show "is_digit (hd (unsigned_text a))" using i by (auto simp: u all_digits_def list_all_iff hd_append)
    have "c \<in> set ?i \<Longrightarrow> is_digit c" "c \<in> set ?f \<Longrightarrow> is_digit c" for c
      using i f by (auto simp: all_digits_def list_all_iff)
    then show "is_digit (last (unsigned_text a))" by (simp add: u last_in_set)
  qed
  ultimately show "readable_decimal (unsigned_text a)" by (simp add: readable_decimal_def u)
qed

lemma js_trunc_div:
  assumes "b \<noteq> 0" shows "tdiv a b = js_trunc (of_int a / of_int b)"
proof -
  have pos: "tdiv x y = js_trunc (of_int x / of_int y)" if "0 < y" for x y :: int
  proof (cases "0 \<le> x")
    case True
    have "tdiv x y = \<lfloor>of_int x / (of_int y :: rat)\<rfloor>"
      using tdiv_nonneg_eq [OF True that] by (simp add: floor_divide_of_int_eq)
    moreover have "\<not> of_int x / of_int y < (0 :: rat)" using True that by (simp add: not_less)
    ultimately show ?thesis unfolding js_trunc_def by simp
  next
    case False
    have "tdiv x y = - \<lfloor>of_int (- x) / (of_int y :: rat)\<rfloor>"
      using tdiv_nonneg_eq [of "- x" y] False that by (simp only: floor_divide_of_int_eq tdiv_minus_left) simp
    then have "tdiv x y = \<lceil>of_int x / (of_int y :: rat)\<rceil>" by (simp add: ceiling_def)
    moreover have "of_int x / of_int y < (0 :: rat)" using False that by (simp add: divide_neg_pos)
    ultimately show ?thesis unfolding js_trunc_def by simp
  qed
  show ?thesis
  proof (cases "0 < b")
    case False
    then have "tdiv a b = tdiv (- a) (- b)" by (simp add: tdiv_def sgn_if)
    also have "\<dots> = js_trunc (of_int (- a) / of_int (- b))" using assms False by (intro pos) simp
    finally show ?thesis by simp
  qed (rule pos)
qed

lemma dec_roundtrip: "from_string (Some (dec_to_string v)) = Inr v"
proof -
  have "\<lfloor>of_nat (nat \<bar>v\<bar>) / 10 ^ SCALE * 10 ^ SCALE :: rat\<rfloor> = \<bar>v\<bar>"
    by (simp flip: of_int_abs)
  then show ?thesis
    using from_string_reads [OF unsigned_text_reads(1) unsigned_text_reads(2), of "nat \<bar>v\<bar>"]
    by (cases "v < 0") (simp_all add: dec_to_string_unsigned)
qed

lemma dec_round_multiple: "dec_round a n mod 10 ^ (12 - n) = 0"
proof (cases "SCALE \<le> n")
  case True
  then show ?thesis by (simp add: SCALE_def)
next
  case False
  then show ?thesis by (simp add: dec_round_def Let_def SCALE_def)
qed

lemma round_half_error:
  fixes x f :: int
  assumes "0 < f" shows "2 * \<bar>(x + f div 2) div f * f - x\<bar> \<le> f"
proof -
  obtain h where h: "f div 2 = h" "2 * h \<le> f" "f \<le> 2 * h + 1" by simp
  obtain q r where q: "(x + h) div f * f = q" and "(x + h) mod f = r"
    and r: "0 \<le> r" "r < f" "q = x + h - r"
    using assms by (simp add: minus_mod_eq_div_mult [symmetric])
  have "\<bar>q - x\<bar> = \<bar>h - r\<bar>" using r(3) by simp
  moreover have "2 * \<bar>h - r\<bar> \<le> f" using r(1,2) h(2,3) by (simp add: abs_if)
  ultimately show ?thesis unfolding h(1) q by simp
qed

lemma dec_round_error: "2 * \<bar>dec_round a n - a\<bar> \<le> 10 ^ (12 - n)"
proof (cases "SCALE \<le> n")
  case True
  then show ?thesis by (simp add: dec_round_def)
next
  case False
  obtain f :: int where f: "10 ^ (12 - n) = f" "0 < f" by simp
  have r: "dec_round a n = (if a < 0 then - ((\<bar>a\<bar> + f div 2) div f * f) else (\<bar>a\<bar> + f div 2) div f * f)"
    using False f(1) by (simp add: dec_round_def Let_def SCALE_def)
  have e: "2 * \<bar>(\<bar>a\<bar> + f div 2) div f * f - \<bar>a\<bar>\<bar> \<le> f" by (rule round_half_error [OF f(2)])
  obtain q where q: "(\<bar>a\<bar> + f div 2) div f * f = q" by simp
  show ?thesis using e unfolding f(1) r q by (auto simp: abs_if split: if_splits)
qed

section \<open>Properties\<close>

text \<open>Every amount is printed as a text that reads back as exactly that amount.\<close>

theorem decimal_roundtrip: "from_string (Some (dec_to_string v)) = Inr v"
  by (rule dec_roundtrip)

text \<open>A decimal text, in plain or exponent notation with an exponent of at most 400 in magnitude, is
  read as the number it denotes, cut off after twelve decimals; a minus sign only changes the sign.\<close>

theorem decimal_reads_the_number:
  assumes "readable_decimal b" and "parse_decimal b = Some q"
  shows "from_string (Some b) = Inr \<lfloor>q * 10 ^ 12\<rfloor>
    \<and> from_string (Some (CHR ''-'' # b)) = Inr (- \<lfloor>q * 10 ^ 12\<rfloor>)"
  using from_string_reads [OF assms] by (simp add: SCALE_def)

theorem decimal_reads_the_number_witness:
  "from_string (Some ''8.8e-7'') = Inr 880000"
proof -
  have d: "exponent_parts ''8.8e-7'' = Some (''8'', ''8'', -7)"
    by (simp add: exponent_parts_def Let_def split_fraction_def is_digit_def parse_exponent_def all_digits_def
        digits_value_def digit_val_def)
  have r: "readable_decimal ''8.8e-7''"
    by (simp add: readable_decimal_def d MAX_EXPONENT_def js_trim_def js_space_def)
  have p: "parse_decimal ''8.8e-7'' = Some (88 / 100000000)"
    using exponent_value(1) [OF d]
    by (simp add: decimal_value_def scale10_def digits_value_def digit_val_def)
  show ?thesis using decimal_reads_the_number [OF r p] by simp
qed

text \<open>Multiplication and division give the exact result cut off towards zero at the last place;
  division fails exactly by zero; rounding to places is off by at most half a unit of the last kept
  place and lands on it, so the stored text has at most six decimals.\<close>

theorem decimal_arithmetic:
  "dec_mul a b = js_trunc (of_int a * of_int b / 10 ^ 12)
   \<and> (case dec_div a b of Inl _ \<Rightarrow> b = 0
      | Inr c \<Rightarrow> b \<noteq> 0 \<and> c = js_trunc (of_int a * 10 ^ 12 / of_int b))
   \<and> 2 * \<bar>dec_round a n - a\<bar> \<le> 10 ^ (12 - n) \<and> dec_round a n mod 10 ^ (12 - n) = 0
   \<and> from_string (Some (to_stored_irr a)) = Inr (dec_round a 6)"
proof (intro conjI)
  show "dec_mul a b = js_trunc (of_int a * of_int b / 10 ^ 12)"
    using js_trunc_div [of SCALE_FACTOR "a * b"] by (simp add: dec_mul_def SCALE_FACTOR_def SCALE_def)
  show "case dec_div a b of Inl _ \<Rightarrow> b = 0
      | Inr c \<Rightarrow> b \<noteq> 0 \<and> c = js_trunc (of_int a * 10 ^ 12 / of_int b)"
    using js_trunc_div [of b "a * SCALE_FACTOR"] by (simp add: dec_div_def SCALE_FACTOR_def SCALE_def)
  show "2 * \<bar>dec_round a n - a\<bar> \<le> 10 ^ (12 - n)" by (rule dec_round_error)
  show "dec_round a n mod 10 ^ (12 - n) = 0" by (rule dec_round_multiple)
  show "from_string (Some (to_stored_irr a)) = Inr (dec_round a 6)"
    unfolding to_stored_irr_def by (rule dec_roundtrip)
qed

end
