(* ===== verification/Ai_Usage.thy ===== *)
theory Ai_Usage
  imports Fixed_Decimal
begin

text \<open>
  The one parser of AI usage reports (\<open>server/services/ai-billing/normalize.ts\<close>): the token counts a
  provider reports become billable components. Counts are whole numbers of at most 10 to the 21, so
  that \<open>String\<close> prints them without an exponent.
\<close>

datatype usage_component_type =
    INPUT_TOKENS | CACHED_INPUT_TOKENS | OUTPUT_TOKENS | REASONING_TOKENS | EMBEDDING_TOKENS | REQUEST

datatype usage_unit = TOKEN | REQUESTS

record normalized_component =
  component_type :: usage_component_type
  quantity :: string
  unit :: usage_unit

datatype usage_kind = Completion | Embedding

record normalize_input =
  in_provider :: string
  in_requested_model :: "string option"
  in_actual_model :: "string option"
  in_prompt :: jsval
  in_completion :: jsval
  in_total :: jsval
  in_cached :: jsval
  in_reasoning :: jsval
  in_latency :: jsval
  in_kind :: "usage_kind option"
  in_estimated :: bool

record normalized_usage =
  provider :: string
  requested_model :: "string option"
  actual_model :: "string option"
  components :: "normalized_component list"
  prompt_tokens :: int
  completion_tokens :: int
  total_tokens :: int
  latency_ms :: int
  estimated :: bool

definition usage_num :: "jsval \<Rightarrow> int" where
  "usage_num v = (case to_number v of Fin q \<Rightarrow> if 0 < q then \<lfloor>q\<rfloor> else 0 | _ \<Rightarrow> 0)"

definition token_component :: "usage_component_type \<Rightarrow> int \<Rightarrow> normalized_component" where
  "token_component t n = \<lparr>component_type = t, quantity = show_int n, unit = TOKEN\<rparr>"

definition positive_component :: "usage_component_type \<Rightarrow> int \<Rightarrow> normalized_component list" where
  "positive_component t n = (if 0 < n then [token_component t n] else [])"

definition completion_components :: "int \<Rightarrow> int \<Rightarrow> int \<Rightarrow> int \<Rightarrow> normalized_component list" where
  "completion_components prompt cached completion reasoning =
     positive_component INPUT_TOKENS (prompt - cached)
     @ positive_component CACHED_INPUT_TOKENS cached
     @ positive_component OUTPUT_TOKENS completion
     @ positive_component REASONING_TOKENS reasoning"

definition normalize_usage :: "normalize_input \<Rightarrow> normalized_usage" where
  "normalize_usage i =
     (let prompt = usage_num (in_prompt i);
          completion = usage_num (in_completion i);
          cached = min (usage_num (in_cached i)) prompt;
          reasoning = usage_num (in_reasoning i);
          reported = usage_num (in_total i);
          total = (if reported \<noteq> 0 then reported else prompt + completion);
          cs = (if in_kind i = Some Embedding then
                  (if prompt \<noteq> 0 \<or> total \<noteq> 0
                   then [token_component EMBEDDING_TOKENS (if prompt \<noteq> 0 then prompt else total)]
                   else [])
                else completion_components prompt cached completion reasoning);
          cs' = (if cs = [] then [\<lparr>component_type = REQUEST, quantity = ''1'', unit = REQUESTS\<rparr>] else cs)
      in \<lparr>provider = in_provider i, requested_model = in_requested_model i,
          actual_model = in_actual_model i, components = cs', prompt_tokens = prompt,
          completion_tokens = completion, total_tokens = total,
          latency_ms = usage_num (in_latency i),
          estimated = in_estimated i \<or> (prompt = 0 \<and> completion = 0 \<and> total = 0)\<rparr>)"

text \<open>What the meter bills: the quantities of one kind of component, as read by the decimal parser.\<close>

definition billed_quantity :: "normalized_component \<Rightarrow> int" where
  "billed_quantity c = (case from_string (Some (quantity c)) of Inr v \<Rightarrow> v div 10 ^ SCALE | Inl _ \<Rightarrow> 0)"

definition billed :: "usage_component_type \<Rightarrow> normalized_usage \<Rightarrow> int" where
  "billed t u = sum_list (map billed_quantity (filter (\<lambda>c. component_type c = t) (components u)))"

lemma usage_num_nonneg: "0 \<le> usage_num v"
  by (auto simp: usage_num_def split: jsnum.split)

lemma show_nat_readable: "readable_decimal (show_nat n)"
proof -
  have d: "list_all is_digit (show_nat n)" using show_nat_digits by (simp add: list_all_iff)
  have t: "takeWhile is_digit (show_nat n) = show_nat n" "dropWhile is_digit (show_nat n) = []"
    using show_nat_digits by (auto simp: takeWhile_all)
  have "js_trim (show_nat n) = show_nat n"
    using show_nat_digits [of n] by (intro js_trim_digits_ends) auto
  then show ?thesis
    by (simp add: readable_decimal_def exponent_parts_def plain_body_def t split_fraction_def Let_def)
qed

lemma billed_token: "0 \<le> n \<Longrightarrow> billed_quantity (token_component t n) = n"
proof -
  assume n: "0 \<le> n"
  have "parse_decimal (show_nat (nat n)) = Some (of_nat (nat n))"
    using parse_decimal_digits [OF all_digits_show_nat] by simp
  from from_string_reads(1) [OF show_nat_readable this]
  moreover have "(of_nat (nat n) * 10 ^ SCALE :: rat) = of_int (n * 10 ^ SCALE)" using n by simp
  ultimately have "from_string (Some (show_nat (nat n))) = Inr (n * 10 ^ SCALE)"
    by (simp only: floor_of_int)
  then show ?thesis using n by (simp add: billed_quantity_def token_component_def show_int_def)
qed

lemma billed_positive:
  "sum_list (map billed_quantity (filter (\<lambda>c. component_type c = t) (positive_component t' n)))
   = (if t = t' \<and> 0 < n then n else 0)"
proof -
  have "component_type (token_component t' n) = t'" by (simp add: token_component_def)
  then show ?thesis by (auto simp: positive_component_def billed_token)
qed

lemma billed_request:
  "component_type \<lparr>component_type = REQUEST, quantity = q, unit = u\<rparr> = REQUEST" by simp

section \<open>Properties\<close>

text \<open>Nothing is billed twice or lost: for a completion the fresh and the cached input tokens add up to
  the prompt tokens, the output and reasoning tokens are the reported ones, the cached share never
  exceeds the prompt, and there is always at least one component.\<close>

theorem usage_conserved:
  assumes "in_kind i \<noteq> Some Embedding"
  shows "billed INPUT_TOKENS (normalize_usage i) + billed CACHED_INPUT_TOKENS (normalize_usage i)
      = usage_num (in_prompt i)
    \<and> billed CACHED_INPUT_TOKENS (normalize_usage i) = min (usage_num (in_cached i)) (usage_num (in_prompt i))
    \<and> billed OUTPUT_TOKENS (normalize_usage i) = usage_num (in_completion i)
    \<and> billed REASONING_TOKENS (normalize_usage i) = usage_num (in_reasoning i)
    \<and> components (normalize_usage i) \<noteq> []"
proof -
  obtain p c k r where v: "usage_num (in_prompt i) = p" "usage_num (in_completion i) = c"
    "min (usage_num (in_cached i)) p = k" "usage_num (in_reasoning i) = r" by simp
  let ?cs = "completion_components p k c r"
  have cs: "components (normalize_usage i)
      = (if ?cs = [] then [\<lparr>component_type = REQUEST, quantity = ''1'', unit = REQUESTS\<rparr>] else ?cs)"
    using assms v by (simp add: normalize_usage_def Let_def)
  have nonneg: "0 \<le> p" "0 \<le> c" "0 \<le> r" "0 \<le> k" "k \<le> p"
    using v usage_num_nonneg by (metis, metis, metis, metis min_def, metis min.cobounded2)
  have b: "billed t (normalize_usage i)
      = sum_list (map billed_quantity (filter (\<lambda>c. component_type c = t) ?cs))" if "t \<noteq> REQUEST" for t
    unfolding billed_def cs using that by simp
  have q: "billed INPUT_TOKENS (normalize_usage i) = p - k"
    "billed CACHED_INPUT_TOKENS (normalize_usage i) = k"
    "billed OUTPUT_TOKENS (normalize_usage i) = c"
    "billed REASONING_TOKENS (normalize_usage i) = r"
    using nonneg by (simp_all add: b completion_components_def billed_positive)
  show ?thesis unfolding q v(1) v(2) v(4) using v(3) by (simp add: cs)
qed

theorem usage_conserved_witness:
  "billed INPUT_TOKENS (normalize_usage
     \<lparr>in_provider = ''openai'', in_requested_model = None, in_actual_model = None,
      in_prompt = JNum (Fin 100), in_completion = JNum (Fin 20), in_total = Null,
      in_cached = JNum (Fin 30), in_reasoning = Undefined, in_latency = Null, in_kind = None,
      in_estimated = False\<rparr>) = 70"
proof -
  let ?i = "\<lparr>in_provider = ''openai'', in_requested_model = None, in_actual_model = None,
      in_prompt = JNum (Fin 100), in_completion = JNum (Fin 20), in_total = Null,
      in_cached = JNum (Fin 30), in_reasoning = Undefined, in_latency = Null, in_kind = None,
      in_estimated = False\<rparr>"
  have n: "usage_num (in_prompt ?i) = 100" "usage_num (in_cached ?i) = 30"
    by (simp_all add: usage_num_def)
  have k: "in_kind ?i \<noteq> Some Embedding" by simp
  show ?thesis
    using usage_conserved [OF k] unfolding n by simp
qed

end
