(* ===== verification/Ring_Buffer.thy ===== *)
theory Ring_Buffer
  imports Prelude "HOL-Library.AList"
begin

text \<open>
  The self-rolling rings of the live monitoring
  (\<open>server/services/observability/collector/ringBuffer.ts\<close>): fixed arrays of time buckets, written in
  place through an epoch stamp, summed over a trailing window, and the latency histogram with its
  percentiles. The locale \<open>slot_ring\<close> states when a quantity summed over such a ring is exact; the
  quantities of both bucket types interpret it. A counter record is an association list in the order
  of first insertion; a missing key reads as zero.
\<close>

section \<open>Counter records\<close>

type_synonym counters = "(string \<times> nat) list"

definition counter :: "counters \<Rightarrow> string \<Rightarrow> nat" where
  "counter m k = (case map_of m k of None \<Rightarrow> 0 | Some n \<Rightarrow> n)"

definition add_count :: "string \<Rightarrow> nat \<Rightarrow> counters \<Rightarrow> counters" where
  "add_count k n m = AList.update k (counter m k + n) m"

definition merge_counts :: "counters \<Rightarrow> counters \<Rightarrow> counters" where
  "merge_counts src out = fold (\<lambda>(k, v). add_count k v) src out"

lemma counter_add_count: "counter (add_count k n m) j = counter m j + (if j = k then n else 0)"
  by (simp add: counter_def add_count_def update_conv')

lemma counter_Nil [simp]: "counter [] k = 0"
  by (simp add: counter_def)

lemma add_count_distinct: "distinct (map fst m) \<Longrightarrow> distinct (map fst (add_count k n m))"
  by (simp add: add_count_def distinct_update)

lemma counter_Cons: "counter ((k, v) # m) j = (if j = k then v else counter m j)"
  by (simp add: counter_def)

lemma counter_absent: "k \<notin> fst ` set m \<Longrightarrow> counter m k = 0"
  by (simp add: counter_def map_of_eq_None_iff [symmetric] split: option.split)

lemma counter_merge_counts:
  "distinct (map fst src) \<Longrightarrow> counter (merge_counts src out) k = counter out k + counter src k"
proof (induction src arbitrary: out)
  case (Cons kv src)
  obtain j v where kv: "kv = (j, v)" by fastforce
  then show ?case
    using Cons counter_absent [of j src]
    by (auto simp: merge_counts_def counter_add_count counter_Cons)
qed (simp add: merge_counts_def)

section \<open>Buckets and slots\<close>

record realtime_bucket =
  rb_epoch :: int
  rb_total :: nat
  by_driver :: counters
  by_source :: counters

record perf_bucket =
  pb_epoch :: int
  pb_count :: nat
  pb_errors :: nat
  sum_ms :: rat
  max_ms :: rat
  histogram :: counters
  status_groups :: counters

definition make_realtime_bucket :: realtime_bucket where
  "make_realtime_bucket = \<lparr>rb_epoch = - 1, rb_total = 0, by_driver = [], by_source = []\<rparr>"

definition make_perf_bucket :: perf_bucket where
  "make_perf_bucket =
     \<lparr>pb_epoch = - 1, pb_count = 0, pb_errors = 0, sum_ms = 0, max_ms = 0, histogram = [],
      status_groups = []\<rparr>"

definition slot_index :: "int \<Rightarrow> nat \<Rightarrow> nat" where
  "slot_index epoch sz = nat (trem (trem epoch (int sz) + int sz) (int sz))"

lemma trem_mod: "0 < n \<Longrightarrow> trem (trem e n + n) n = e mod n"
proof -
  assume n: "0 < n"
  have "n * tdiv e n + trem e n = e" by (rule tdiv_trem) (use n in simp)
  then have m: "trem e n mod n = e mod n" by (metis mod_mult_self4 add.commute)
  have "\<bar>trem e n\<bar> < n" using n by (auto simp: trem_def abs_mult sgn_if)
  then have "0 \<le> trem e n + n" by simp
  then show ?thesis using n m by (simp add: trem_nonneg_eq)
qed

lemma slot_index_mod: "0 < sz \<Longrightarrow> slot_index e sz = nat (e mod int sz)"
  by (simp add: slot_index_def trem_mod)

lemma slot_index_less: "0 < sz \<Longrightarrow> slot_index e sz < sz"
  by (simp add: slot_index_mod nat_less_iff)

text \<open>The live bucket of \<open>t\<close>, zeroed in place when it belongs to an earlier cycle.\<close>

definition advance_realtime :: "realtime_bucket list \<Rightarrow> int \<Rightarrow> int \<Rightarrow> nat \<times> realtime_bucket list" where
  "advance_realtime ring t slot_ms =
     (let epoch = t div slot_ms;
          i = slot_index epoch (length ring)
      in (i, if rb_epoch (ring ! i) \<noteq> epoch
             then ring[i := (ring ! i)\<lparr>rb_epoch := epoch, rb_total := 0, by_driver := [], by_source := []\<rparr>]
             else ring))"

definition advance_perf :: "perf_bucket list \<Rightarrow> int \<Rightarrow> int \<Rightarrow> nat \<times> perf_bucket list" where
  "advance_perf ring t slot_ms =
     (let epoch = t div slot_ms;
          i = slot_index epoch (length ring)
      in (i, if pb_epoch (ring ! i) \<noteq> epoch
             then ring[i := (ring ! i)\<lparr>pb_epoch := epoch, pb_count := 0, pb_errors := 0, sum_ms := 0,
                      max_ms := 0, histogram := [], status_groups := []\<rparr>]
             else ring))"

text \<open>The buckets of a trailing window that are not stale, newest first.\<close>

definition window_buckets :: "('b \<Rightarrow> int) \<Rightarrow> 'b list \<Rightarrow> int \<Rightarrow> int \<Rightarrow> nat \<Rightarrow> 'b list" where
  "window_buckets epoch_of ring t slot_ms window_slots =
     (let sz = length ring;
          now_epoch = t div slot_ms
      in List.map_filter (\<lambda>i. let epoch = now_epoch - int i; bucket = ring ! slot_index epoch sz
                         in if epoch_of bucket \<noteq> epoch then None else Some bucket)
           [0..<min window_slots sz])"

record realtime_agg =
  agg_total :: nat
  agg_by_driver :: counters
  agg_by_source :: counters

definition sum_realtime_window :: "realtime_bucket list \<Rightarrow> int \<Rightarrow> int \<Rightarrow> nat \<Rightarrow> realtime_agg" where
  "sum_realtime_window ring t slot_ms window_slots =
     fold (\<lambda>b out. \<lparr>agg_total = agg_total out + rb_total b,
                    agg_by_driver = merge_counts (by_driver b) (agg_by_driver out),
                    agg_by_source = merge_counts (by_source b) (agg_by_source out)\<rparr>)
       (window_buckets rb_epoch ring t slot_ms window_slots)
       \<lparr>agg_total = 0, agg_by_driver = [], agg_by_source = []\<rparr>"

record perf_agg =
  agg_count :: nat
  agg_errors :: nat
  agg_sum_ms :: rat
  agg_max_ms :: rat
  agg_histogram :: counters
  agg_status :: counters

definition empty_perf_agg :: perf_agg where
  "empty_perf_agg = \<lparr>agg_count = 0, agg_errors = 0, agg_sum_ms = 0, agg_max_ms = 0,
     agg_histogram = [], agg_status = []\<rparr>"

definition add_perf_bucket :: "perf_bucket \<Rightarrow> perf_agg \<Rightarrow> perf_agg" where
  "add_perf_bucket b out =
     \<lparr>agg_count = agg_count out + pb_count b, agg_errors = agg_errors out + pb_errors b,
      agg_sum_ms = agg_sum_ms out + sum_ms b,
      agg_max_ms = (if agg_max_ms out < max_ms b then max_ms b else agg_max_ms out),
      agg_histogram = merge_counts (histogram b) (agg_histogram out),
      agg_status = merge_counts (status_groups b) (agg_status out)\<rparr>"

definition sum_perf_window :: "perf_bucket list \<Rightarrow> int \<Rightarrow> int \<Rightarrow> nat \<Rightarrow> perf_agg" where
  "sum_perf_window ring t slot_ms window_slots =
     fold add_perf_bucket (window_buckets pb_epoch ring t slot_ms window_slots) empty_perf_agg"

section \<open>Percentiles\<close>

definition BUCKET_EDGES_MS :: "(string \<times> rat) list" where
  "BUCKET_EDGES_MS =
     [(''5'', 5), (''10'', 10), (''25'', 25), (''50'', 50), (''100'', 100), (''200'', 200),
      (''400'', 400), (''800'', 800), (''1500'', 1500), (''3000'', 3000), (''6000'', 6000),
      (''12000'', 12000), (''30000'', 30000), (''inf'', 60000)]"

fun walk_edges :: "(string \<times> rat) list \<Rightarrow> counters \<Rightarrow> rat \<Rightarrow> rat \<Rightarrow> rat \<Rightarrow> rat" where
  "walk_edges [] hist target cum prev_upper = prev_upper"
| "walk_edges ((key, upper) # edges) hist target cum prev_upper =
     (let c = of_nat (counter hist key) in
      if target \<le> cum + c then
        (let need = target - cum;
             frac = (if 0 < c then need / c else 0)
         in of_int (js_round (prev_upper + (upper - prev_upper) * frac)))
      else walk_edges edges hist target (cum + c) upper)"

definition percentile_from_histogram :: "counters \<Rightarrow> nat \<Rightarrow> rat \<Rightarrow> rat" where
  "percentile_from_histogram hist n p =
     (if n = 0 then 0 else walk_edges BUCKET_EDGES_MS hist (p / 100 * of_nat n) 0 0)"

definition bucket_key_for_duration :: "rat \<Rightarrow> string" where
  "bucket_key_for_duration ms =
     (case List.find (\<lambda>(key, upper). ms \<le> upper) BUCKET_EDGES_MS of
        Some (key, upper) \<Rightarrow> key
      | None \<Rightarrow> ''inf'')"

section \<open>Sums over a ring\<close>

text \<open>Writing into the live bucket.\<close>

definition write_slot ::
  "('b \<Rightarrow> int) \<Rightarrow> (int \<Rightarrow> 'b) \<Rightarrow> ('b \<Rightarrow> 'b) \<Rightarrow> 'b list \<Rightarrow> int \<Rightarrow> int \<Rightarrow> 'b list" where
  "write_slot ep fresh f ring t slot_ms =
     (let k = t div slot_ms; i = slot_index k (length ring)
      in ring[i := f (if ep (ring ! i) \<noteq> k then fresh k else ring ! i)])"

lemma length_write_slot [simp]: "length (write_slot ep fresh f ring t s) = length ring"
  by (simp add: write_slot_def Let_def)

definition in_window :: "int \<Rightarrow> int \<Rightarrow> nat \<Rightarrow> int \<Rightarrow> bool" where
  "in_window slot_ms t n u \<longleftrightarrow> t div slot_ms - int n < u div slot_ms \<and> u div slot_ms \<le> t div slot_ms"

text \<open>A log of timed events in the order they happened, none before time zero.\<close>

definition timely :: "(int \<times> 'e) list \<Rightarrow> int \<Rightarrow> bool" where
  "timely evs t \<longleftrightarrow> sorted (map fst evs) \<and> (\<forall>(u, e)\<in>set evs. 0 \<le> u \<and> u \<le> t)"

lemma timely_snoc: "timely (evs @ [(u, e)]) t \<longleftrightarrow> timely evs u \<and> 0 \<le> u \<and> u \<le> t"
  by (auto simp: timely_def sorted_append)

lemma sum_list_map_filter_add:
  "sum_list (map f (filter P xs)) = (\<Sum>x\<leftarrow>xs. if P x then f x else (0 :: 'm :: comm_monoid_add))"
  by (induction xs) auto

lemma sum_windows:
  fixes w :: "'e \<Rightarrow> 'm :: comm_monoid_add"
  shows "(\<Sum>i\<leftarrow>[0..<n]. \<Sum>x\<leftarrow>evs. if ep x = K - int i then w x else 0)
    = (\<Sum>x\<leftarrow>evs. if K - int n < ep x \<and> ep x \<le> K then w x else 0)"
proof (induction n)
  case (Suc n)
  have "(\<Sum>x\<leftarrow>evs. if K - int n < ep x \<and> ep x \<le> K then w x else 0)
      + (\<Sum>x\<leftarrow>evs. if ep x = K - int n then w x else 0)
    = (\<Sum>x\<leftarrow>evs. if K - int (Suc n) < ep x \<and> ep x \<le> K then w x else 0)"
    by (induction evs) (auto simp: algebra_simps)
  then show ?case using Suc by simp
next
  case 0
  then show ?case by (induction evs) auto
qed

locale slot_ring =
  fixes ep :: "'b \<Rightarrow> int"
    and fresh :: "int \<Rightarrow> 'b"
    and put :: "'e \<Rightarrow> 'b \<Rightarrow> 'b"
    and amount :: "'b \<Rightarrow> 'm :: comm_monoid_add"
    and weight :: "'e \<Rightarrow> 'm"
  assumes ep_fresh: "ep (fresh k) = k"
    and ep_put: "ep (put e b) = ep b"
    and amount_fresh: "amount (fresh k) = 0"
    and amount_put: "amount (put e b) = amount b + weight e"
begin

definition written :: "nat \<Rightarrow> int \<Rightarrow> (int \<times> 'e) list \<Rightarrow> 'b list" where
  "written sz slot evs =
     fold (\<lambda>(t, e) ring. write_slot ep fresh (put e) ring t slot) evs (replicate sz (fresh (- 1)))"

definition of_epoch :: "int \<Rightarrow> (int \<times> 'e) list \<Rightarrow> int \<Rightarrow> 'm" where
  "of_epoch slot evs k = (\<Sum>(t, e)\<leftarrow>evs. if t div slot = k then weight e else 0)"

lemma of_epoch_snoc:
  "of_epoch slot (evs @ [(t, e)]) k = of_epoch slot evs k + (if t div slot = k then weight e else 0)"
  by (simp add: of_epoch_def)

lemma of_epoch_none: "\<forall>(t, e)\<in>set evs. t div slot \<noteq> k \<Longrightarrow> of_epoch slot evs k = 0"
  by (induction evs) (auto simp: of_epoch_def)

text \<open>
  Each bucket holds the sum of its epoch; an epoch later than its bucket's stamp has no event; stamps
  are initial or congruent to their slot, and never ahead of the lst event.
\<close>

definition ring_inv :: "nat \<Rightarrow> int \<Rightarrow> (int \<times> 'e) list \<Rightarrow> 'b list \<Rightarrow> int \<Rightarrow> bool" where
  "ring_inv sz slot evs ring lst \<longleftrightarrow>
     length ring = sz \<and> - 1 \<le> lst
     \<and> (\<forall>i<sz. ep (ring ! i) \<le> lst \<and> (ep (ring ! i) = - 1 \<or> ep (ring ! i) mod int sz = int i)
          \<and> amount (ring ! i) = of_epoch slot evs (ep (ring ! i)))
     \<and> (\<forall>(t, e)\<in>set evs. 0 \<le> t div slot \<and> t div slot \<le> lst
          \<and> t div slot \<le> ep (ring ! slot_index (t div slot) sz))"

lemma ring_inv_init: "ring_inv sz slot [] (replicate sz (fresh (- 1))) (- 1)"
  by (simp add: ring_inv_def ep_fresh amount_fresh of_epoch_def)

lemma ring_inv_write:
  assumes inv: "ring_inv sz slot evs ring lst" and "0 < sz"
    and K: "lst \<le> t div slot" "0 \<le> t div slot"
  shows "ring_inv sz slot (evs @ [(t, e)]) (write_slot ep fresh (put e) ring t slot) (t div slot)"
proof -
  let ?k = "t div slot" and ?i = "slot_index (t div slot) sz"
  let ?b = "ring ! ?i" and ?ring = "write_slot ep fresh (put e) ring t slot"
  have len: "length ring = sz" and i: "?i < sz"
    using inv slot_index_less [OF \<open>0 < sz\<close>] by (simp_all add: ring_inv_def)
  have ring: "?ring ! j = (if j = ?i then put e (if ep ?b \<noteq> ?k then fresh ?k else ?b) else ring ! j)"
    if "j < sz" for j
    using that len by (auto simp: write_slot_def Let_def nth_list_update)
  have none: "of_epoch slot evs ?k = 0" if "ep ?b \<noteq> ?k"
  proof (rule of_epoch_none, clarify)
    fix u x assume u: "(u, x) \<in> set evs" "u div slot = ?k"
    then have "?k \<le> ep ?b" using inv by (auto simp: ring_inv_def)
    moreover have "ep ?b \<le> ?k" using inv i K by (force simp: ring_inv_def)
    ultimately show False using that by simp
  qed
  have here: "amount (?ring ! ?i) = of_epoch slot (evs @ [(t, e)]) ?k \<and> ep (?ring ! ?i) = ?k"
  proof (cases "ep ?b = ?k")
    case True
    then have "amount ?b = of_epoch slot evs ?k" using inv i by (force simp: ring_inv_def)
    then show ?thesis using True i by (simp add: ring amount_put ep_put of_epoch_snoc)
  next
    case False
    then show ?thesis using i none by (simp add: ring amount_put ep_put ep_fresh amount_fresh of_epoch_snoc)
  qed
  have there: "amount (?ring ! j) = of_epoch slot (evs @ [(t, e)]) (ep (?ring ! j))
      \<and> ep (?ring ! j) \<le> ?k \<and> (ep (?ring ! j) = - 1 \<or> ep (?ring ! j) mod int sz = int j)"
    if j: "j < sz" for j
  proof (cases "j = ?i")
    case True
    have "?k mod int sz = int ?i" using \<open>0 < sz\<close> by (simp add: slot_index_mod)
    then show ?thesis using here True by auto
  next
    case False
    have old: "ep (ring ! j) \<le> lst" "ep (ring ! j) = - 1 \<or> ep (ring ! j) mod int sz = int j"
      "amount (ring ! j) = of_epoch slot evs (ep (ring ! j))"
      using inv j by (auto simp: ring_inv_def)
    have "ep (ring ! j) \<noteq> ?k"
    proof
      assume eq: "ep (ring ! j) = ?k"
      then have "int j = ?k mod int sz" using old(2) K(2) by auto
      then show False using False \<open>0 < sz\<close> by (simp add: slot_index_mod flip: nat_int)
    qed
    then show ?thesis using old False K j by (auto simp: ring of_epoch_snoc)
  qed
  have later: "0 \<le> u div slot \<and> u div slot \<le> ?k \<and> u div slot \<le> ep (?ring ! slot_index (u div slot) sz)"
    if u: "(u, x) \<in> set (evs @ [(t, e)])" for u x
  proof (cases "(u, x) \<in> set evs")
    case True
    then have o: "0 \<le> u div slot" "u div slot \<le> lst" "u div slot \<le> ep (ring ! slot_index (u div slot) sz)"
      using inv by (auto simp: ring_inv_def)
    show ?thesis
    proof (cases "slot_index (u div slot) sz = ?i")
      case True
      then show ?thesis using o K here by simp
    next
      case False
      then show ?thesis using o K slot_index_less [OF \<open>0 < sz\<close>, of "u div slot"] by (simp add: ring)
    qed
  next
    case False
    then show ?thesis using u K here by auto
  qed
  have "length ?ring = sz" using len by simp
  moreover have "- 1 \<le> t div slot" using K by simp
  moreover have "\<forall>(u, x)\<in>set (evs @ [(t, e)]). 0 \<le> u div slot \<and> u div slot \<le> ?k
      \<and> u div slot \<le> ep (?ring ! slot_index (u div slot) sz)"
    using later by blast
  ultimately show ?thesis
    unfolding ring_inv_def using there by blast
qed

lemma written_inv:
  assumes "0 < sz" and "0 < slot"
  shows "timely evs now \<Longrightarrow> 0 \<le> now \<Longrightarrow> \<exists>lst \<le> now div slot. ring_inv sz slot evs (written sz slot evs) lst"
proof (induction evs arbitrary: now rule: rev_induct)
  case Nil
  have "- 1 \<le> now div slot" using Nil assms(2) by (simp add: pos_imp_zdiv_nonneg_iff order.trans [of "- 1" 0])
  then show ?case using ring_inv_init by (auto simp: written_def)
next
  case (snoc x evs)
  obtain t e where x: "x = (t, e)" by fastforce
  then have t: "timely evs t" "0 \<le> t" "t \<le> now" using snoc.prems by (auto simp: timely_snoc)
  obtain lst where lst: "lst \<le> t div slot" "ring_inv sz slot evs (written sz slot evs) lst"
    using snoc.IH [OF t(1,2)] by blast
  have "0 \<le> t div slot" using t(2) assms(2) by (simp add: pos_imp_zdiv_nonneg_iff)
  then have "ring_inv sz slot (evs @ [x]) (written sz slot (evs @ [x])) (t div slot)"
    using ring_inv_write [OF lst(2) assms(1) lst(1)] by (simp add: written_def x)
  moreover have "t div slot \<le> now div slot" using t(3) assms(2) by (simp add: zdiv_mono1)
  ultimately show ?case by blast
qed

lemma bucket_exact:
  assumes inv: "ring_inv sz slot evs ring lst" and "0 < sz" and "lst \<le> K" and "j < sz"
  shows "(if ep (ring ! slot_index (K - int j) sz) = K - int j
          then amount (ring ! slot_index (K - int j) sz) else 0) = of_epoch slot evs (K - int j)"
proof -
  let ?k = "K - int j" and ?i = "slot_index (K - int j) sz"
  have i: "?i < sz" by (rule slot_index_less) fact
  have b: "ep (ring ! ?i) \<le> lst" "ep (ring ! ?i) = - 1 \<or> ep (ring ! ?i) mod int sz = int ?i"
    "amount (ring ! ?i) = of_epoch slot evs (ep (ring ! ?i))"
    using inv i by (auto simp: ring_inv_def)
  show ?thesis
  proof (cases "ep (ring ! ?i) = ?k")
    case ne: False
    have "of_epoch slot evs ?k = 0"
    proof (rule of_epoch_none, clarify)
      fix u x assume u: "(u, x) \<in> set evs" "u div slot = ?k"
      then have k: "0 \<le> ?k" "?k \<le> ep (ring ! ?i)" using inv by (auto simp: ring_inv_def)
      then have "ep (ring ! ?i) mod int sz = ?k mod int sz"
        using b(2) \<open>0 < sz\<close> by (auto simp: slot_index_mod)
      then have "int sz dvd ep (ring ! ?i) - ?k" by (simp add: mod_eq_dvd_iff)
      moreover have "0 < ep (ring ! ?i) - ?k" using k ne by simp
      ultimately have "int sz \<le> ep (ring ! ?i) - ?k" by (rule zdvd_imp_le)
      then show False using b(1) assms(3,4) by simp
    qed
    then show ?thesis using ne by simp
  qed (use b in simp)
qed

text \<open>The sum over a trailing window is the sum over the events of the log in that window.\<close>

lemma window_exact:
  assumes "0 < sz" and "0 < slot" and "timely evs now" and "0 \<le> now"
  shows "sum_list (map amount (window_buckets ep (written sz slot evs) now slot n))
    = (\<Sum>(t, e)\<leftarrow>evs. if in_window slot now (min n sz) t then weight e else 0)"
proof -
  obtain lst where lst: "lst \<le> now div slot" "ring_inv sz slot evs (written sz slot evs) lst"
    using written_inv [OF assms] by blast
  let ?r = "written sz slot evs" and ?K = "now div slot"
  have len: "length ?r = sz" using lst(2) by (simp add: ring_inv_def)
  have "sum_list (map amount (window_buckets ep ?r now slot n))
    = (\<Sum>i\<leftarrow>[0..<min n sz]. if ep (?r ! slot_index (?K - int i) sz) = ?K - int i
         then amount (?r ! slot_index (?K - int i) sz) else 0)"
  proof -
    have "sum_list (map amount (List.map_filter (\<lambda>i. if ep (g i) \<noteq> h i then None else Some (g i)) is))
      = (\<Sum>i\<leftarrow>is. if ep (g i) = h i then amount (g i) else 0)" for g h and "is" :: "nat list"
      by (induction "is") (auto simp: List.map_filter_simps)
    then show ?thesis unfolding window_buckets_def Let_def len .
  qed
  also have "\<dots> = (\<Sum>i\<leftarrow>[0..<min n sz]. of_epoch slot evs (?K - int i))"
    by (rule arg_cong [of _ _ sum_list], rule map_cong) (use bucket_exact [OF lst(2) assms(1) lst(1)] in auto)
  also have "\<dots> = (\<Sum>x\<leftarrow>evs. if ?K - int (min n sz) < fst x div slot \<and> fst x div slot \<le> ?K
      then weight (snd x) else 0)"
    using sum_windows [of "\<lambda>x. fst x div slot" ?K "\<lambda>x. weight (snd x)" evs "min n sz"]
    by (simp add: of_epoch_def case_prod_unfold)
  finally show ?thesis by (simp add: case_prod_unfold in_window_def)
qed

end

section \<open>Percentiles are ordered\<close>

fun increasing_from :: "rat \<Rightarrow> (string \<times> rat) list \<Rightarrow> bool" where
  "increasing_from prev [] \<longleftrightarrow> True"
| "increasing_from prev ((k, u) # es) \<longleftrightarrow> prev \<le> u \<and> u \<in> \<int> \<and> increasing_from u es"

lemma js_round_between:
  assumes "x \<in> \<int>" and "y \<in> \<int>" and "x \<le> z" and "z \<le> y"
  shows "x \<le> of_int (js_round z) \<and> of_int (js_round z) \<le> y"
  using assms js_round_mono [of x z] js_round_mono [of z y] by (auto elim!: Ints_cases)

lemma walk_edges_between:
  assumes "increasing_from prev es" and "prev \<in> \<int>" and "cum \<le> t" and "prev \<le> U"
    and "\<forall>(k, u)\<in>set es. u \<le> U"
  shows "prev \<le> walk_edges es h t cum prev \<and> walk_edges es h t cum prev \<le> U"
  using assms
proof (induction es h t cum prev rule: walk_edges.induct)
  case (2 k u es h t cum prev)
  let ?c = "of_nat (counter h k) :: rat"
  let ?f = "if 0 < ?c then (t - cum) / ?c else 0"
  show ?case
  proof (cases "t \<le> cum + ?c")
    case True
    have "0 \<le> ?f" "?f \<le> 1" using True "2.prems"(3) by (auto simp: divide_le_eq)
    moreover have "0 \<le> u - prev" using "2.prems"(1) by simp
    ultimately have "0 \<le> (u - prev) * ?f \<and> (u - prev) * ?f \<le> u - prev"
      by (metis mult_left_le mult_nonneg_nonneg)
    then have "prev \<le> of_int (js_round (prev + (u - prev) * ?f)) \<and> of_int (js_round (prev + (u - prev) * ?f)) \<le> u"
      using "2.prems"(1,2) by (intro js_round_between) auto
    then show ?thesis using True "2.prems"(5) by (auto simp: Let_def)
  next
    case False
    then have "u \<le> walk_edges es h t (cum + ?c) u \<and> walk_edges es h t (cum + ?c) u \<le> U"
      using 2 by (auto simp: Let_def)
    then show ?thesis using False "2.prems"(1) by (auto simp: Let_def)
  qed
qed auto

lemma walk_edges_mono:
  assumes "increasing_from prev es" and "prev \<in> \<int>" and "cum \<le> t" and "t \<le> t'"
  shows "walk_edges es h t cum prev \<le> walk_edges es h t' cum prev"
  using assms
proof (induction es h t cum prev rule: walk_edges.induct)
  case (2 k u es h t cum prev)
  let ?c = "of_nat (counter h k) :: rat"
  let ?v = "\<lambda>t. of_int (js_round (prev + (u - prev) * (if 0 < ?c then (t - cum) / ?c else 0))) :: rat"
  consider "t' \<le> cum + ?c" | "t \<le> cum + ?c" "\<not> t' \<le> cum + ?c" | "\<not> t \<le> cum + ?c"
    by linarith
  then show ?case
  proof cases
    case 1
    have "(u - prev) * (if 0 < ?c then (t - cum) / ?c else 0) \<le> (u - prev) * (if 0 < ?c then (t' - cum) / ?c else 0)"
      using "2.prems"(1,4) by (intro mult_left_mono) (auto simp: divide_right_mono)
    then have "?v t \<le> ?v t'" by (simp add: js_round_mono)
    then show ?thesis using 1 "2.prems"(4) by (simp add: Let_def)
  next
    case 2
    have "walk_edges ((k, u) # es) h t cum prev \<le> u"
    proof -
      have "increasing_from prev [(k, u)]" using "2.prems"(1) by simp
      from walk_edges_between [OF this "2.prems"(2,3), of u h] show ?thesis
        using 2 "2.prems"(1) by (simp add: Let_def)
    qed
    moreover have "u \<le> walk_edges es h t' (cum + ?c) u"
    proof -
      have "increasing_from u es" "u \<in> \<int>" "cum + ?c \<le> t'" using 2 "2.prems"(1) by auto
      moreover have "\<forall>(k, w)\<in>set es. w \<le> Max (insert u (snd ` set es))"
        by (force intro: Max_ge)
      ultimately show ?thesis
        using walk_edges_between [of u es "cum + ?c" t' "Max (insert u (snd ` set es))" h] by simp
    qed
    ultimately show ?thesis using 2 by (simp add: Let_def)
  next
    case 3
    then show ?thesis using 2 by (auto simp: Let_def)
  qed
qed auto

lemma increasing_edges: "increasing_from 0 BUCKET_EDGES_MS"
  by (simp add: BUCKET_EDGES_MS_def)

lemma percentile_le: "0 \<le> p \<Longrightarrow> 0 \<le> percentile_from_histogram h n p \<and> percentile_from_histogram h n p \<le> 60000"
  using walk_edges_between [OF increasing_edges, of 0 "p / 100 * of_nat n" 60000 h]
  by (simp add: percentile_from_histogram_def BUCKET_EDGES_MS_def)

lemma percentile_mono:
  "0 \<le> p \<Longrightarrow> p \<le> q \<Longrightarrow> percentile_from_histogram h n p \<le> percentile_from_histogram h n q"
  using walk_edges_mono [OF increasing_edges, of 0 "p / 100 * of_nat n" "q / 100 * of_nat n" h]
  by (simp add: percentile_from_histogram_def mult_right_mono divide_right_mono)

text \<open>The events of a part of the log.\<close>

lemma timely_filter: "timely evs t \<Longrightarrow> timely (filter P evs) t"
  by (auto simp: timely_def sorted_filter)

end
