(* ===== verification/Live_Collectors.thy ===== *)
theory Live_Collectors
  imports Ring_Buffer Js_Values
begin

text \<open>
  The in-memory collectors of the live monitoring
  (\<open>server/services/observability/collector/realtimeCollector.ts\<close>, \<open>perfCollector.ts\<close>): per-metric and
  per-route rings, the circular buffer of recent events, and their queries. The clock is an argument
  of every operation; a run is a list of timed inputs. The quantities of the buckets interpret the
  locale \<open>slot_ring\<close>, which makes every count a sum over the log.
\<close>

section \<open>The realtime collector\<close>

definition MINUTE_SLOTS :: nat where "MINUTE_SLOTS = 60"
definition HOURLY_SLOTS_REALTIME :: nat where "HOURLY_SLOTS_REALTIME = 168"
definition HOURLY_SLOTS_PERF :: nat where "HOURLY_SLOTS_PERF = 24"
definition RECENT_EVENTS_CAPACITY :: nat where "RECENT_EVENTS_CAPACITY = 1000"
definition MAX_DRIVER_KEYS :: nat where "MAX_DRIVER_KEYS = 20"
definition MAX_SOURCE_KEYS :: nat where "MAX_SOURCE_KEYS = 10"
definition MAX_PERF_ROUTE_KEYS :: nat where "MAX_PERF_ROUTE_KEYS = 50"
definition MINUTE_MS :: int where "MINUTE_MS = 60000"
definition HOUR_MS :: int where "HOUR_MS = 3600000"

definition KNOWN_REALTIME_METRICS :: "string list" where
  "KNOWN_REALTIME_METRICS =
     [''realtime.reconnect_attempt'', ''realtime.token_minted'', ''realtime.token_refresh_failed'',
      ''realtime.subscribe_failed'', ''realtime.channel_ownership_reject'',
      ''realtime.fallback_engaged'', ''realtime.ws_error'', ''realtime.policy_poll'',
      ''widget.typing_rate_limited'', ''call.create.success'', ''call.create.failure'',
      ''call.token.success'', ''call.token.failure'', ''call.join.success'', ''call.join.failure'',
      ''call.setup.latency'', ''call.recording.start.success'', ''call.recording.start.failure'',
      ''call.recording.stop.success'', ''call.recording.stop.failure'', ''call.active.count'',
      ''call.webhook.received'', ''call.webhook.dedup'', ''call.provider.not_ready'',
      ''call.turn.missing'', ''ai_nudge.evaluated'', ''ai_nudge.suppressed'', ''ai_nudge.generated'',
      ''ai_nudge.shown'', ''ai_nudge.timeout'', ''ai_nudge.invalid_response'',
      ''ai_nudge.billing_denied'', ''ai_nudge.provider_unavailable'']"

record metric_input =
  in_metric :: string
  in_driver :: "string option"
  in_source :: "string option"
  in_workspace :: "string option"
  in_conversation :: "string option"
  in_tags :: "(string \<times> jsval) list option"

record event_row =
  row_id :: string
  row_occurred_at :: int
  row_metric :: string
  row_workspace :: "string option"
  row_conversation :: "string option"
  row_driver :: "string option"
  row_source :: string
  row_tags :: "(string \<times> jsval) list"

record metric_state =
  last_at :: int
  minute_ring :: "realtime_bucket list"
  hour_ring :: "realtime_bucket list"

record collector =
  metrics :: "(string \<times> metric_state) list"
  recent_events :: "event_row option list"
  write_cursor :: nat
  recent_count :: nat
  next_event_seq :: nat

definition new_collector :: collector where
  "new_collector =
     \<lparr>metrics = map (\<lambda>name. (name, \<lparr>last_at = 0,
          minute_ring = replicate MINUTE_SLOTS make_realtime_bucket,
          hour_ring = replicate HOURLY_SLOTS_REALTIME make_realtime_bucket\<rparr>)) KNOWN_REALTIME_METRICS,
      recent_events = replicate RECENT_EVENTS_CAPACITY None,
      write_cursor = 0, recent_count = 0, next_event_seq = 1\<rparr>"

text \<open>\<open>x || d\<close> on a string: an absent and an empty one both give the default.\<close>

definition or_default :: "string option \<Rightarrow> string \<Rightarrow> string" where
  "or_default x d = (case x of None \<Rightarrow> d | Some s \<Rightarrow> if s = [] then d else s)"

definition capped_count :: "nat \<Rightarrow> string \<Rightarrow> counters \<Rightarrow> counters" where
  "capped_count cap k m =
     (if map_of m k \<noteq> None \<or> length m < cap then add_count k 1 m else m)"

definition count_realtime :: "metric_input \<Rightarrow> realtime_bucket \<Rightarrow> realtime_bucket" where
  "count_realtime i b =
     b\<lparr>rb_total := rb_total b + 1,
       by_driver := capped_count MAX_DRIVER_KEYS (or_default (in_driver i) ''_none_'') (by_driver b),
       by_source := capped_count MAX_SOURCE_KEYS (or_default (in_source i) ''server'') (by_source b)\<rparr>"

definition write_realtime :: "int \<Rightarrow> int \<Rightarrow> metric_input \<Rightarrow> realtime_bucket list \<Rightarrow> realtime_bucket list" where
  "write_realtime t slot_ms i ring =
     (let (n, ring') = advance_realtime ring t slot_ms in ring'[n := count_realtime i (ring' ! n)])"

definition event_row_of :: "nat \<Rightarrow> int \<Rightarrow> metric_input \<Rightarrow> event_row" where
  "event_row_of seq t i =
     \<lparr>row_id = show_nat seq, row_occurred_at = t, row_metric = in_metric i,
      row_workspace = in_workspace i, row_conversation = in_conversation i, row_driver = in_driver i,
      row_source = or_default (in_source i) ''server'',
      row_tags = (case in_tags i of None \<Rightarrow> [] | Some ts \<Rightarrow> ts)\<rparr>"

definition record_metric :: "int \<Rightarrow> metric_input \<Rightarrow> collector \<Rightarrow> collector" where
  "record_metric t i c =
     (case map_of (metrics c) (in_metric i) of
        None \<Rightarrow> c
      | Some st \<Rightarrow>
          c\<lparr>metrics := AList.update (in_metric i)
              \<lparr>last_at = t, minute_ring = write_realtime t MINUTE_MS i (minute_ring st),
               hour_ring = write_realtime t HOUR_MS i (hour_ring st)\<rparr> (metrics c),
            recent_events := (recent_events c)[write_cursor c := Some (event_row_of (next_event_seq c) t i)],
            write_cursor := (write_cursor c + 1) mod RECENT_EVENTS_CAPACITY,
            recent_count := (if recent_count c < RECENT_EVENTS_CAPACITY then recent_count c + 1
                             else recent_count c),
            next_event_seq := next_event_seq c + 1\<rparr>)"

datatype summary_range = Last_1h | Last_24h | Last_7d

definition query_summary ::
  "summary_range \<Rightarrow> int \<Rightarrow> collector \<Rightarrow> int \<times> (string \<times> realtime_agg) list" where
  "query_summary rng t c =
     (let agg = (\<lambda>st. case rng of
                    Last_1h \<Rightarrow> sum_realtime_window (minute_ring st) t MINUTE_MS MINUTE_SLOTS
                  | Last_24h \<Rightarrow> sum_realtime_window (hour_ring st) t HOUR_MS 24
                  | Last_7d \<Rightarrow> sum_realtime_window (hour_ring st) t HOUR_MS HOURLY_SLOTS_REALTIME);
          since = (case rng of
                    Last_1h \<Rightarrow> t - MINUTE_MS * int MINUTE_SLOTS
                  | Last_24h \<Rightarrow> t - HOUR_MS * 24
                  | Last_7d \<Rightarrow> t - HOUR_MS * int HOURLY_SLOTS_REALTIME)
      in (since, filter (\<lambda>(m, a). 0 < agg_total a) (map (\<lambda>(m, st). (m, agg st)) (metrics c))))"

text \<open>Walking the recent events backwards from the write cursor.\<close>

fun collect_events ::
  "nat \<Rightarrow> event_row option list \<Rightarrow> (event_row \<Rightarrow> bool) \<Rightarrow> nat \<Rightarrow> nat \<Rightarrow> event_row list \<Rightarrow> event_row list" where
  "collect_events 0 buffer keep limit idx out = out"
| "collect_events (Suc n) buffer keep limit idx out =
     (if limit \<le> length out then out
      else collect_events n buffer keep limit ((idx + RECENT_EVENTS_CAPACITY - 1) mod RECENT_EVENTS_CAPACITY)
        (case buffer ! idx of
           None \<Rightarrow> out
         | Some row \<Rightarrow> if keep row then out @ [row] else out))"

definition query_events :: "string option \<Rightarrow> nat \<Rightarrow> collector \<Rightarrow> event_row list" where
  "query_events m limit c =
     collect_events (recent_count c) (recent_events c)
       (\<lambda>row. case m of None \<Rightarrow> True | Some s \<Rightarrow> s = [] \<or> row_metric row = s) limit
       ((write_cursor c + RECENT_EVENTS_CAPACITY - 1) mod RECENT_EVENTS_CAPACITY) []"

text \<open>The ring and the number of slots that answer a window.\<close>

definition window_choice :: "nat \<Rightarrow> rat \<Rightarrow> bool \<times> nat" where
  "window_choice hour_slots window_seconds =
     (if window_seconds \<le> of_nat (MINUTE_SLOTS * 60)
      then (True, nat (max 1 \<lceil>window_seconds / 60\<rceil>))
      else (False, min hour_slots (nat (max 1 \<lceil>window_seconds / 3600\<rceil>))))"

definition window_agg :: "metric_state \<Rightarrow> rat \<Rightarrow> int \<Rightarrow> realtime_agg \<times> bool" where
  "window_agg st window_seconds t =
     (let (minutes, slots) = window_choice HOURLY_SLOTS_REALTIME window_seconds
      in if minutes then (sum_realtime_window (minute_ring st) t MINUTE_MS slots, False)
         else (sum_realtime_window (hour_ring st) t HOUR_MS slots, True))"

definition query_count :: "string \<Rightarrow> rat \<Rightarrow> int \<Rightarrow> collector \<Rightarrow> nat" where
  "query_count m window_seconds t c =
     (case map_of (metrics c) m of
        None \<Rightarrow> 0
      | Some st \<Rightarrow> agg_total (fst (window_agg st window_seconds t)))"

definition query_ratio :: "string \<Rightarrow> string \<Rightarrow> rat \<Rightarrow> int \<Rightarrow> collector \<Rightarrow> nat \<times> nat" where
  "query_ratio numerator denominator window_seconds t c =
     (query_count numerator window_seconds t c, query_count denominator window_seconds t c)"

definition query_count_by_driver :: "string \<Rightarrow> string \<Rightarrow> rat \<Rightarrow> int \<Rightarrow> collector \<Rightarrow> nat" where
  "query_count_by_driver m driver window_seconds t c =
     (case map_of (metrics c) m of
        None \<Rightarrow> 0
      | Some st \<Rightarrow> counter (agg_by_driver (fst (window_agg st window_seconds t))) driver)"

definition last_occurrence :: "string \<Rightarrow> collector \<Rightarrow> int" where
  "last_occurrence m c = (case map_of (metrics c) m of None \<Rightarrow> 0 | Some st \<Rightarrow> last_at st)"

section \<open>The latency collector\<close>

record sample =
  route_group :: string
  sample_method :: string
  status_code :: int
  duration_ms :: rat

record route_state =
  rs_group :: string
  rs_method :: string
  rs_minutes :: "perf_bucket list"
  rs_hours :: "perf_bucket list"

type_synonym perf_collector = "(string \<times> route_state) list"

definition status_group :: "int \<Rightarrow> string" where
  "status_group code =
     (if 500 \<le> code then ''5xx'' else if 400 \<le> code then ''4xx'' else if 300 \<le> code then ''3xx'' else ''2xx'')"

definition route_key :: "sample \<Rightarrow> string" where
  "route_key e = route_group e @ ''|'' @ sample_method e"

definition new_route :: "sample \<Rightarrow> route_state" where
  "new_route e =
     \<lparr>rs_group = route_group e, rs_method = sample_method e,
      rs_minutes = replicate MINUTE_SLOTS make_perf_bucket,
      rs_hours = replicate HOURLY_SLOTS_PERF make_perf_bucket\<rparr>"

definition state_for :: "sample \<Rightarrow> perf_collector \<Rightarrow> route_state option" where
  "state_for e routes =
     (case map_of routes (route_key e) of
        Some st \<Rightarrow> Some st
      | None \<Rightarrow> if MAX_PERF_ROUTE_KEYS \<le> length routes then None else Some (new_route e))"

definition count_sample :: "sample \<Rightarrow> perf_bucket \<Rightarrow> perf_bucket" where
  "count_sample e b =
     b\<lparr>pb_count := pb_count b + 1,
       pb_errors := (if 500 \<le> status_code e then pb_errors b + 1 else pb_errors b),
       sum_ms := sum_ms b + duration_ms e,
       max_ms := (if max_ms b < duration_ms e then duration_ms e else max_ms b),
       histogram := add_count (bucket_key_for_duration (duration_ms e)) 1 (histogram b),
       status_groups := add_count (status_group (status_code e)) 1 (status_groups b)\<rparr>"

definition write_perf :: "int \<Rightarrow> int \<Rightarrow> sample \<Rightarrow> perf_bucket list \<Rightarrow> perf_bucket list" where
  "write_perf t slot_ms e ring =
     (let (n, ring') = advance_perf ring t slot_ms in ring'[n := count_sample e (ring' ! n)])"

definition record_sample :: "int \<Rightarrow> sample \<Rightarrow> perf_collector \<Rightarrow> perf_collector" where
  "record_sample t e routes =
     (case state_for e routes of
        None \<Rightarrow> routes
      | Some st \<Rightarrow> AList.update (route_key e)
          (st\<lparr>rs_minutes := write_perf t MINUTE_MS e (rs_minutes st),
              rs_hours := write_perf t HOUR_MS e (rs_hours st)\<rparr>) routes)"

definition merge_perf :: "perf_agg \<Rightarrow> perf_agg \<Rightarrow> perf_agg" where
  "merge_perf merged agg =
     \<lparr>agg_count = agg_count merged + agg_count agg, agg_errors = agg_errors merged + agg_errors agg,
      agg_sum_ms = agg_sum_ms merged + agg_sum_ms agg, agg_max_ms = max (agg_max_ms merged) (agg_max_ms agg),
      agg_histogram = merge_counts (agg_histogram agg) (agg_histogram merged),
      agg_status = merge_counts (agg_status agg) (agg_status merged)\<rparr>"

definition route_agg :: "rat \<Rightarrow> int \<Rightarrow> route_state \<Rightarrow> perf_agg" where
  "route_agg window_seconds t st =
     (let (minutes, slots) = window_choice HOURLY_SLOTS_PERF window_seconds
      in if minutes then sum_perf_window (rs_minutes st) t MINUTE_MS slots
         else sum_perf_window (rs_hours st) t HOUR_MS slots)"

definition starts_with :: "string \<Rightarrow> string \<Rightarrow> bool" where
  "starts_with p s \<longleftrightarrow> take (length p) s = p"

definition window_agg_for_route_group :: "string \<Rightarrow> rat \<Rightarrow> int \<Rightarrow> perf_collector \<Rightarrow> perf_agg option" where
  "window_agg_for_route_group rg window_seconds t routes =
     fold (\<lambda>(key, st) merged.
             if \<not> starts_with (rg @ ''|'') key then merged
             else (let agg = route_agg window_seconds t st in
                   case merged of None \<Rightarrow> Some agg | Some m \<Rightarrow> Some (merge_perf m agg)))
       routes None"

definition query_percentile :: "string \<Rightarrow> rat \<Rightarrow> rat \<Rightarrow> int \<Rightarrow> perf_collector \<Rightarrow> rat \<times> nat" where
  "query_percentile rg pct window_seconds t routes =
     (case window_agg_for_route_group rg window_seconds t routes of
        None \<Rightarrow> (0, 0)
      | Some agg \<Rightarrow> if agg_count agg = 0 then (0, 0)
                    else (percentile_from_histogram (agg_histogram agg) (agg_count agg) pct, agg_count agg))"

definition query_error_rate :: "string \<Rightarrow> rat \<Rightarrow> int \<Rightarrow> perf_collector \<Rightarrow> rat \<times> nat" where
  "query_error_rate rg window_seconds t routes =
     (case window_agg_for_route_group rg window_seconds t routes of
        None \<Rightarrow> (0, 0)
      | Some agg \<Rightarrow> if agg_count agg = 0 then (0, 0)
                    else (of_nat (agg_errors agg) / of_nat (agg_count agg), agg_count agg))"

definition query_p95_for_route_groups :: "string list \<Rightarrow> rat \<Rightarrow> int \<Rightarrow> perf_collector \<Rightarrow> rat option \<times> nat" where
  "query_p95_for_route_groups groups window_seconds t routes =
     (let (n, merged) = fold (\<lambda>g (n, merged).
              case window_agg_for_route_group g window_seconds t routes of
                None \<Rightarrow> (n, merged)
              | Some agg \<Rightarrow> (n + agg_count agg, merge_counts (agg_histogram agg) merged)) groups (0, [])
      in if n = 0 then (None, 0) else (Some (percentile_from_histogram merged n 95), n))"

record perf_route_row =
  pr_group :: string
  pr_method :: string
  pr_count :: nat
  pr_errors :: nat
  pr_sum_ms :: rat
  pr_max_ms :: rat
  pr_p50 :: rat
  pr_p95 :: rat
  pr_p99 :: rat
  pr_error_rate :: rat
  pr_status :: counters

definition perf_row :: "route_state \<Rightarrow> perf_agg \<Rightarrow> perf_route_row" where
  "perf_row st agg =
     \<lparr>pr_group = rs_group st, pr_method = rs_method st, pr_count = agg_count agg,
      pr_errors = agg_errors agg, pr_sum_ms = agg_sum_ms agg, pr_max_ms = agg_max_ms agg,
      pr_p50 = percentile_from_histogram (agg_histogram agg) (agg_count agg) 50,
      pr_p95 = percentile_from_histogram (agg_histogram agg) (agg_count agg) 95,
      pr_p99 = percentile_from_histogram (agg_histogram agg) (agg_count agg) 99,
      pr_error_rate = of_nat (agg_errors agg) / of_nat (agg_count agg), pr_status = agg_status agg\<rparr>"

text \<open>The rows with traffic, the busiest first; the sort is stable. \<open>hour\<close> asks for the last hour.\<close>

definition perf_summary :: "bool \<Rightarrow> int \<Rightarrow> perf_collector \<Rightarrow> int \<times> perf_route_row list" where
  "perf_summary hour t routes =
     (let rows = List.map_filter (\<lambda>(k, st).
            let agg = (if hour then sum_perf_window (rs_minutes st) t MINUTE_MS MINUTE_SLOTS
                       else sum_perf_window (rs_hours st) t HOUR_MS HOURLY_SLOTS_PERF)
            in if agg_count agg = 0 then None else Some (perf_row st agg)) routes
      in (if hour then t - MINUTE_MS * int MINUTE_SLOTS else t - HOUR_MS * int HOURLY_SLOTS_PERF,
          sort_key (\<lambda>r. - int (pr_count r)) rows))"

section \<open>Interpretations: what each bucket sums\<close>

definition fresh_realtime :: "int \<Rightarrow> realtime_bucket" where
  "fresh_realtime k = make_realtime_bucket\<lparr>rb_epoch := k\<rparr>"

definition fresh_perf :: "int \<Rightarrow> perf_bucket" where
  "fresh_perf k = make_perf_bucket\<lparr>pb_epoch := k\<rparr>"

interpretation rt_total: slot_ring rb_epoch fresh_realtime count_realtime rb_total "\<lambda>_. 1"
  by unfold_locales (simp_all add: fresh_realtime_def make_realtime_bucket_def count_realtime_def)

interpretation pf_total: slot_ring pb_epoch fresh_perf count_sample pb_count "\<lambda>_. 1"
  by unfold_locales (simp_all add: fresh_perf_def make_perf_bucket_def count_sample_def)

interpretation pf_errors: slot_ring pb_epoch fresh_perf count_sample pb_errors
    "\<lambda>e. if 500 \<le> status_code e then 1 else 0"
  by unfold_locales (simp_all add: fresh_perf_def make_perf_bucket_def count_sample_def)

interpretation pf_hist: slot_ring pb_epoch fresh_perf count_sample "\<lambda>b. counter (histogram b) k"
    "\<lambda>e. if bucket_key_for_duration (duration_ms e) = k then 1 else 0" for k
  by unfold_locales
    (auto simp: fresh_perf_def make_perf_bucket_def count_sample_def counter_add_count)

lemma reset_realtime:
  "(b :: realtime_bucket)\<lparr>rb_epoch := k, rb_total := 0, by_driver := [], by_source := []\<rparr> = fresh_realtime k"
  by (cases b) (simp add: fresh_realtime_def make_realtime_bucket_def)

lemma reset_perf:
  "(b :: perf_bucket)\<lparr>pb_epoch := k, pb_count := 0, pb_errors := 0, sum_ms := 0, max_ms := 0,
     histogram := [], status_groups := []\<rparr> = fresh_perf k"
  by (cases b) (simp add: fresh_perf_def make_perf_bucket_def)

lemma write_realtime_slot:
  "0 < length ring \<Longrightarrow> write_realtime t s i ring = write_slot rb_epoch fresh_realtime (count_realtime i) ring t s"
  using slot_index_less [of "length ring" "t div s"]
  by (simp add: write_realtime_def write_slot_def advance_realtime_def Let_def reset_realtime)

lemma write_perf_slot:
  "0 < length ring \<Longrightarrow> write_perf t s e ring = write_slot pb_epoch fresh_perf (count_sample e) ring t s"
  using slot_index_less [of "length ring" "t div s"]
  by (simp add: write_perf_def write_slot_def advance_perf_def Let_def reset_perf)

lemma fold_agg_total:
  "agg_total (fold (\<lambda>b out. \<lparr>agg_total = agg_total out + rb_total b,
      agg_by_driver = f b out, agg_by_source = g b out\<rparr>) bs a)
   = agg_total a + sum_list (map rb_total bs)"
  by (induction bs arbitrary: a) auto

lemma agg_total_window:
  "agg_total (sum_realtime_window ring t s n) = sum_list (map rb_total (window_buckets rb_epoch ring t s n))"
  by (simp add: sum_realtime_window_def fold_agg_total)


section \<open>Runs of the realtime collector\<close>

definition run_collector :: "(int \<times> metric_input) list \<Rightarrow> collector" where
  "run_collector evs = fold (\<lambda>(t, i). record_metric t i) evs new_collector"

definition of_metric :: "string \<Rightarrow> (int \<times> metric_input) list \<Rightarrow> (int \<times> metric_input) list" where
  "of_metric m = filter (\<lambda>(t, i). in_metric i = m)"

lemma run_collector_snoc: "run_collector (evs @ [(t, i)]) = record_metric t i (run_collector evs)"
  by (simp add: run_collector_def)

lemma map_of_new_collector:
  "map_of (metrics new_collector) m = (if m \<in> set KNOWN_REALTIME_METRICS then
     Some \<lparr>last_at = 0, minute_ring = replicate MINUTE_SLOTS make_realtime_bucket,
           hour_ring = replicate HOURLY_SLOTS_REALTIME make_realtime_bucket\<rparr> else None)"
  by (simp add: new_collector_def map_of_map_restrict restrict_map_def)

lemma metrics_record:
  "map_of (metrics (record_metric t i c)) m =
     (if in_metric i = m then map_option (\<lambda>st. \<lparr>last_at = t,
         minute_ring = write_realtime t MINUTE_MS i (minute_ring st),
         hour_ring = write_realtime t HOUR_MS i (hour_ring st)\<rparr>) (map_of (metrics c) m)
      else map_of (metrics c) m)"
  by (auto simp: record_metric_def update_conv' split: option.split)

lemma written_snoc_rt:
  "rt_total.written n s (evs @ [(t, i)]) = write_slot rb_epoch fresh_realtime (count_realtime i) (rt_total.written n s evs) t s"
  by (simp add: rt_total.written_def)

lemma length_written_rt [simp]: "length (rt_total.written n s evs) = n"
  by (induction evs rule: rev_induct) (simp add: rt_total.written_def, metis length_write_slot surj_pair written_snoc_rt)

lemma run_collector_state:
  "map_of (metrics (run_collector evs)) m =
     (if m \<in> set KNOWN_REALTIME_METRICS then
        Some \<lparr>last_at = (if of_metric m evs = [] then 0 else fst (last (of_metric m evs))),
              minute_ring = rt_total.written MINUTE_SLOTS MINUTE_MS (of_metric m evs),
              hour_ring = rt_total.written HOURLY_SLOTS_REALTIME HOUR_MS (of_metric m evs)\<rparr>
      else None)"
proof (induction evs rule: rev_induct)
  case Nil
  have "fresh_realtime (- 1) = make_realtime_bucket"
    by (simp add: fresh_realtime_def make_realtime_bucket_def)
  then show ?case
    by (simp add: run_collector_def map_of_new_collector of_metric_def rt_total.written_def)
next
  case (snoc x evs)
  obtain t i where x: "x = (t, i)" by fastforce
  have "0 < MINUTE_SLOTS" "0 < HOURLY_SLOTS_REALTIME"
    by (simp_all add: MINUTE_SLOTS_def HOURLY_SLOTS_REALTIME_def)
  then show ?case
    using snoc by (auto simp: x run_collector_snoc metrics_record of_metric_def written_snoc_rt
        write_realtime_slot)
qed

text \<open>The window a query looks at, as a slot length and a number of slots.\<close>

definition query_window :: "nat \<Rightarrow> rat \<Rightarrow> int \<times> nat" where
  "query_window hour_slots w =
     (if w \<le> 3600 then (MINUTE_MS, nat (max 1 \<lceil>w / 60\<rceil>))
      else (HOUR_MS, min hour_slots (nat (max 1 \<lceil>w / 3600\<rceil>))))"

lemma window_choice_minutes: "(w :: rat) \<le> 3600 \<Longrightarrow> nat (max 1 \<lceil>w / 60\<rceil>) \<le> MINUTE_SLOTS"
proof -
  assume "w \<le> 3600"
  then have "w / 60 \<le> 60" by simp
  then have c: "\<lceil>w / 60\<rceil> \<le> 60" by (simp add: ceiling_le_iff)
  have "nat (max 1 k) \<le> 60" if "k \<le> 60" for k :: int using that by auto
  from this [OF c] show ?thesis by (simp add: MINUTE_SLOTS_def)
qed

lemma slot_pos: "0 < MINUTE_MS" "0 < HOUR_MS" "0 < MINUTE_SLOTS" "0 < HOURLY_SLOTS_REALTIME" "0 < HOURLY_SLOTS_PERF"
  by (simp_all add: MINUTE_MS_def HOUR_MS_def MINUTE_SLOTS_def HOURLY_SLOTS_REALTIME_def HOURLY_SLOTS_PERF_def)

lemma sum_list_ones: "(\<Sum>(t, e)\<leftarrow>evs. if P t then 1 else 0) = length (filter (\<lambda>(t, e). P t) evs)"
  by (induction evs) auto

lemma sum_list_ones2:
  "(\<Sum>(t, e)\<leftarrow>evs. if P t e then 1 else 0) = length (filter (\<lambda>(t, e). P t e) evs)"
  "(\<Sum>(t, e)\<leftarrow>evs. if P t e then (if Q e then 1 else 0) else 0)
    = length (filter (\<lambda>(t, e). Q e) (filter (\<lambda>(t, e). P t e) evs))"
  by (induction evs) auto

lemma query_count_exact:
  assumes "timely evs now" and "0 \<le> now" and "m \<in> set KNOWN_REALTIME_METRICS"
    and "query_window HOURLY_SLOTS_REALTIME w = (slot, n)"
  shows "query_count m w now (run_collector evs) = length (filter (\<lambda>(t, i). in_metric i = m \<and> in_window slot now n t) evs)"
proof -
  have t: "timely (of_metric m evs) now" using assms(1) by (simp add: of_metric_def timely_filter)
  have f: "filter (\<lambda>(t, i). in_window s now k t) (of_metric m evs)
    = filter (\<lambda>(t, i). in_metric i = m \<and> in_window s now k t) evs" for s k
    by (simp add: of_metric_def conj_commute case_prod_unfold)
  show ?thesis
  proof (cases "w \<le> 3600")
    case True
    then have "min n MINUTE_SLOTS = n" "slot = MINUTE_MS" "n = nat (max 1 \<lceil>w / 60\<rceil>)"
      using assms(4) window_choice_minutes [OF True] by (auto simp: query_window_def)
    then show ?thesis
      using True assms(3) rt_total.window_exact [OF slot_pos(3,1) t assms(2), of n]
      by (simp add: query_count_def run_collector_state window_agg_def window_choice_def MINUTE_SLOTS_def
          agg_total_window sum_list_ones f)
  next
    case False
    then have "min n HOURLY_SLOTS_REALTIME = n" "slot = HOUR_MS"
      "n = min HOURLY_SLOTS_REALTIME (nat (max 1 \<lceil>w / 3600\<rceil>))"
      using assms(4) by (auto simp: query_window_def)
    then show ?thesis
      using False assms(3) rt_total.window_exact [OF slot_pos(4,2) t assms(2), of n]
      by (simp add: query_count_def run_collector_state window_agg_def window_choice_def MINUTE_SLOTS_def
          agg_total_window sum_list_ones f)
  qed
qed


section \<open>Memory bounds\<close>

definition bucket_bounded :: "realtime_bucket \<Rightarrow> bool" where
  "bucket_bounded b \<longleftrightarrow>
     distinct (map fst (by_driver b)) \<and> length (by_driver b) \<le> MAX_DRIVER_KEYS
     \<and> sum_list (map snd (by_driver b)) \<le> rb_total b
     \<and> distinct (map fst (by_source b)) \<and> length (by_source b) \<le> MAX_SOURCE_KEYS
     \<and> sum_list (map snd (by_source b)) \<le> rb_total b"

definition metric_bounded :: "metric_state \<Rightarrow> bool" where
  "metric_bounded st \<longleftrightarrow>
     length (minute_ring st) = MINUTE_SLOTS \<and> length (hour_ring st) = HOURLY_SLOTS_REALTIME
     \<and> (\<forall>b\<in>set (minute_ring st) \<union> set (hour_ring st). bucket_bounded b)"

definition collector_bounded :: "collector \<Rightarrow> bool" where
  "collector_bounded c \<longleftrightarrow>
     map fst (metrics c) = KNOWN_REALTIME_METRICS
     \<and> (\<forall>(m, st)\<in>set (metrics c). metric_bounded st)
     \<and> length (recent_events c) = RECENT_EVENTS_CAPACITY
     \<and> recent_count c \<le> RECENT_EVENTS_CAPACITY \<and> write_cursor c < RECENT_EVENTS_CAPACITY"

lemma set_update_cases: "x \<in> set (AList.update k v xs) \<Longrightarrow> x = (k, v) \<or> x \<in> set xs"
  by (induction xs) (auto split: if_splits)

lemma length_update: "length (AList.update k v xs) = (if k \<in> fst ` set xs then length xs else Suc (length xs))"
  by (induction xs) auto

lemma sum_update:
  "distinct (map fst m) \<Longrightarrow> sum_list (map snd (AList.update k v m)) + counter m k = sum_list (map snd m) + v"
proof (induction m)
  case (Cons x m)
  obtain j w where x: "x = (j, w)" by fastforce
  show ?case
  proof (cases "j = k")
    case True
    then show ?thesis using Cons.prems counter_absent [of k m] by (simp add: x counter_Cons)
  next
    case False
    then show ?thesis using Cons by (simp add: x counter_Cons)
  qed
qed simp

lemma capped_count_bounded:
  assumes "distinct (map fst m)" and "length m \<le> cap" and "sum_list (map snd m) \<le> n"
  shows "distinct (map fst (capped_count cap k m)) \<and> length (capped_count cap k m) \<le> cap
    \<and> sum_list (map snd (capped_count cap k m)) \<le> n + 1"
proof -
  have "sum_list (map snd (add_count k 1 m)) = sum_list (map snd m) + 1"
    using sum_update [OF assms(1), of k "counter m k + 1"] by (simp add: add_count_def)
  then show ?thesis
    using assms add_count_distinct [OF assms(1), of k 1]
    by (auto simp: capped_count_def add_count_def length_update map_of_eq_None_iff)
qed

lemma count_realtime_bounded: "bucket_bounded b \<Longrightarrow> bucket_bounded (count_realtime i b)"
  using capped_count_bounded [of "by_driver b" MAX_DRIVER_KEYS "rb_total b"]
    capped_count_bounded [of "by_source b" MAX_SOURCE_KEYS "rb_total b"]
  by (simp add: bucket_bounded_def count_realtime_def)

lemma write_realtime_bounded:
  assumes "\<forall>b\<in>set ring. bucket_bounded b" and "0 < length ring"
  shows "\<forall>b\<in>set (write_realtime t s i ring). bucket_bounded b"
proof -
  have i: "slot_index (t div s) (length ring) < length ring" by (rule slot_index_less) fact
  have "bucket_bounded (count_realtime i (fresh_realtime k))" for k
    by (rule count_realtime_bounded) (simp add: bucket_bounded_def fresh_realtime_def make_realtime_bucket_def)
  moreover have "bucket_bounded (count_realtime i (ring ! slot_index (t div s) (length ring)))"
    using assms(1) i by (simp add: count_realtime_bounded)
  ultimately show ?thesis
    using assms by (auto simp: write_realtime_slot write_slot_def Let_def dest!: subsetD [OF set_update_subset_insert])
qed

lemma length_write_realtime: "0 < length ring \<Longrightarrow> length (write_realtime t s i ring) = length ring"
  by (simp add: write_realtime_slot)

lemma record_metric_bounded:
  assumes "collector_bounded c"
  shows "collector_bounded (record_metric t i c)"
proof (cases "map_of (metrics c) (in_metric i)")
  case (Some st)
  then have mem: "(in_metric i, st) \<in> set (metrics c)" by (rule map_of_SomeD)
  then have st: "metric_bounded st" using assms by (auto simp: collector_bounded_def)
  have m: "length (minute_ring st) = MINUTE_SLOTS" "\<forall>b\<in>set (minute_ring st). bucket_bounded b"
    and h: "length (hour_ring st) = HOURLY_SLOTS_REALTIME" "\<forall>b\<in>set (hour_ring st). bucket_bounded b"
    using st unfolding metric_bounded_def by (simp_all add: ball_Un)
  have m': "\<forall>b\<in>set (write_realtime t MINUTE_MS i (minute_ring st)). bucket_bounded b"
    "length (write_realtime t MINUTE_MS i (minute_ring st)) = MINUTE_SLOTS"
    using m slot_pos(3) write_realtime_bounded [OF m(2)] length_write_realtime [of "minute_ring st"] by metis+
  have h': "\<forall>b\<in>set (write_realtime t HOUR_MS i (hour_ring st)). bucket_bounded b"
    "length (write_realtime t HOUR_MS i (hour_ring st)) = HOURLY_SLOTS_REALTIME"
    using h slot_pos(4) write_realtime_bounded [OF h(2)] length_write_realtime [of "hour_ring st"] by metis+
  have "metric_bounded \<lparr>last_at = t, minute_ring = write_realtime t MINUTE_MS i (minute_ring st),
      hour_ring = write_realtime t HOUR_MS i (hour_ring st)\<rparr>"
    unfolding metric_bounded_def using m' h' by (simp add: ball_Un)
  moreover have "map fst (AList.update (in_metric i) v (metrics c)) = map fst (metrics c)" for v
    using mem by (force simp: update_keys)
  ultimately show ?thesis
    using assms Some
    by (auto simp: record_metric_def collector_bounded_def RECENT_EVENTS_CAPACITY_def
        dest!: set_update_cases)
qed (use assms in \<open>simp add: record_metric_def\<close>)

lemma new_collector_bounded: "collector_bounded new_collector"
proof -
  have "bucket_bounded make_realtime_bucket"
    by (simp add: bucket_bounded_def make_realtime_bucket_def)
  then show ?thesis
    by (auto simp: collector_bounded_def new_collector_def metric_bounded_def RECENT_EVENTS_CAPACITY_def comp_def)
qed

section \<open>The recent events\<close>

definition recorded_rows :: "(int \<times> metric_input) list \<Rightarrow> event_row list" where
  "recorded_rows evs =
     map (\<lambda>(n, t, i). event_row_of n t i)
       (enumerate 1 (filter (\<lambda>(t, i). in_metric i \<in> set KNOWN_REALTIME_METRICS) evs))"

lemma recorded_rows_snoc:
  "recorded_rows (evs @ [(t, i)]) = recorded_rows evs @
     (if in_metric i \<in> set KNOWN_REALTIME_METRICS
      then [event_row_of (Suc (length (recorded_rows evs))) t i] else [])"
  by (simp add: recorded_rows_def enumerate_append_eq)

lemma recent_state:
  fixes evs defines "c \<equiv> run_collector evs" and "R \<equiv> recorded_rows evs"
  shows "next_event_seq c = Suc (length R) \<and> write_cursor c = length R mod RECENT_EVENTS_CAPACITY
    \<and> recent_count c = min (length R) RECENT_EVENTS_CAPACITY
    \<and> length (recent_events c) = RECENT_EVENTS_CAPACITY
    \<and> (\<forall>j < length R. length R \<le> j + RECENT_EVENTS_CAPACITY
         \<longrightarrow> recent_events c ! (j mod RECENT_EVENTS_CAPACITY) = Some (R ! j))"
  unfolding c_def R_def
proof (induction evs rule: rev_induct)
  case Nil
  then show ?case by (simp add: run_collector_def new_collector_def recorded_rows_def)
next
  case (snoc x evs)
  obtain t i where x: "x = (t, i)" by fastforce
  let ?C = RECENT_EVENTS_CAPACITY and ?L = "length (recorded_rows evs)"
  have C: "0 < ?C" by (simp add: RECENT_EVENTS_CAPACITY_def)
  show ?case
  proof (cases "in_metric i \<in> set KNOWN_REALTIME_METRICS")
    case True
    then obtain st where st: "map_of (metrics (run_collector evs)) (in_metric i) = Some st"
      by (simp add: run_collector_state)
    have old: "j mod ?C \<noteq> ?L mod ?C" if "j < ?L" "?L < j + ?C" for j
    proof
      assume "j mod ?C = ?L mod ?C"
      then have "?L mod ?C = j mod ?C" by (rule sym)
      then have "?C dvd ?L - j" using that(1) by (simp add: mod_eq_dvd_iff_nat del: mod_eq_0_iff_dvd)
      then show False using that by (auto dest: dvd_imp_le)
    qed
    have "?L mod ?C < ?C" using C by simp
    then have "((recent_events (run_collector evs))[?L mod ?C := Some (event_row_of (Suc ?L) t i)]) ! (j mod ?C)
        = Some ((recorded_rows evs @ [event_row_of (Suc ?L) t i]) ! j)"
      if j: "j < Suc ?L" "Suc ?L \<le> j + ?C" for j
    proof (cases "j = ?L")
      case False
      then have "j mod ?C \<noteq> ?L mod ?C" using j by (intro old) auto
      then show ?thesis using snoc.IH False j by (simp add: nth_append)
    qed (use snoc.IH in simp)
    then show ?thesis
      using snoc.IH True st
      by (auto simp: x run_collector_snoc record_metric_def recorded_rows_snoc mod_Suc_eq)
  next
    case False
    then show ?thesis
      using snoc.IH by (simp add: x run_collector_snoc record_metric_def recorded_rows_snoc run_collector_state)
  qed
qed

lemma collect_events_walk:
  assumes "n \<le> Suc J" and "\<forall>j \<le> J. J < j + n \<longrightarrow> buffer ! (j mod RECENT_EVENTS_CAPACITY) = Some (R ! j)"
  shows "collect_events n buffer keep limit (J mod RECENT_EVENTS_CAPACITY) out
    = (if limit \<le> length out then out
       else out @ take (limit - length out) (filter keep (map (\<lambda>d. R ! (J - d)) [0..<n])))"
  using assms
proof (induction n arbitrary: J out)
  case (Suc n)
  let ?C = RECENT_EVENTS_CAPACITY
  have C: "1 < ?C" by (simp add: RECENT_EVENTS_CAPACITY_def)
  have b: "buffer ! (J mod ?C) = Some (R ! J)" using Suc.prems(2) by simp
  let ?out = "if keep (R ! J) then out @ [R ! J] else out"
  have map_Suc: "map (\<lambda>d. R ! (J - d)) [0..<Suc n] = R ! J # map (\<lambda>d. R ! (J - 1 - d)) [0..<n]"
    by (simp add: upt_conv_Cons flip: map_Suc_upt del: upt_Suc)
  have rest: "collect_events n buffer keep limit ((J mod ?C + ?C - 1) mod ?C) ?out
    = (if limit \<le> length ?out then ?out
       else ?out @ take (limit - length ?out) (filter keep (map (\<lambda>d. R ! (J - 1 - d)) [0..<n])))"
  proof (cases n)
    case (Suc k)
    then have J: "0 < J" using Suc.prems(1) by simp
    have "(J mod ?C + ?C - 1) mod ?C = (J - 1) mod ?C"
    proof -
      have "(J mod ?C + (?C - 1)) mod ?C = (J + (?C - 1)) mod ?C" by (rule mod_add_left_eq)
      also have "J + (?C - 1) = (J - 1) + ?C" using J C by simp
      finally show ?thesis using C by simp
    qed
    moreover have "n \<le> Suc (J - 1)" using Suc.prems(1) J by simp
    moreover have "\<forall>j \<le> J - 1. J - 1 < j + n \<longrightarrow> buffer ! (j mod ?C) = Some (R ! j)"
      using Suc.prems(2) J by auto
    ultimately show ?thesis using Suc.IH [of "J - 1" ?out] by simp
  qed simp
  show ?case
  proof (cases "limit \<le> length out")
    case False
    then show ?thesis using b rest by (simp add: map_Suc del: upt_Suc) (simp add: take_Cons' Suc_diff_le)
  qed simp
qed simp


lemma newest_rows: "take k (rev R) = map (\<lambda>d. R ! (length R - 1 - d)) [0..<min k (length R)]"
  by (rule nth_equalityI) (auto simp: rev_nth)

section \<open>Runs of the latency collector\<close>

definition run_perf :: "(int \<times> sample) list \<Rightarrow> perf_collector" where
  "run_perf evs = fold (\<lambda>(t, e). record_sample t e) evs []"

definition of_route :: "string \<Rightarrow> (int \<times> sample) list \<Rightarrow> (int \<times> sample) list" where
  "of_route k = filter (\<lambda>(t, e). route_key e = k)"

definition route_keys :: "(int \<times> sample) list \<Rightarrow> string set" where
  "route_keys evs = (\<lambda>(t, e). route_key e) ` set evs"

lemma run_perf_snoc: "run_perf (evs @ [(t, e)]) = record_sample t e (run_perf evs)"
  by (simp add: run_perf_def)

lemma written_snoc_pf:
  "pf_total.written n s (evs @ [(t, e)]) = write_slot pb_epoch fresh_perf (count_sample e) (pf_total.written n s evs) t s"
  by (simp add: pf_total.written_def)

lemma written_Nil_pf: "pf_total.written n s [] = replicate n make_perf_bucket"
  by (simp add: pf_total.written_def fresh_perf_def make_perf_bucket_def)

lemma length_written_pf [simp]: "length (pf_total.written n s evs) = n"
  by (induction evs rule: rev_induct) (simp add: pf_total.written_def, metis length_write_slot surj_pair written_snoc_pf)

lemma run_perf_state:
  assumes "card (route_keys evs) \<le> MAX_PERF_ROUTE_KEYS"
  shows "distinct (map fst (run_perf evs)) \<and> set (map fst (run_perf evs)) = route_keys evs
    \<and> (\<forall>(k, st)\<in>set (run_perf evs).
         rs_minutes st = pf_total.written MINUTE_SLOTS MINUTE_MS (of_route k evs)
         \<and> rs_hours st = pf_total.written HOURLY_SLOTS_PERF HOUR_MS (of_route k evs))"
  using assms
proof (induction evs rule: rev_induct)
  case Nil
  then show ?case by (simp add: run_perf_def route_keys_def)
next
  case (snoc x evs)
  obtain t e where x: "x = (t, e)" by fastforce
  let ?k = "route_key e" and ?r = "run_perf evs"
  have keys: "route_keys (evs @ [x]) = insert ?k (route_keys evs)" by (auto simp: route_keys_def x)
  have fin: "finite (route_keys evs)" by (simp add: route_keys_def)
  have "card (route_keys evs) \<le> MAX_PERF_ROUTE_KEYS"
    using snoc.prems fin by (auto simp: keys card_insert_if split: if_splits)
  with snoc.IH have IH: "distinct (map fst ?r)" "set (map fst ?r) = route_keys evs"
    "\<And>k st. (k, st) \<in> set ?r \<Longrightarrow> rs_minutes st = pf_total.written MINUTE_SLOTS MINUTE_MS (of_route k evs)
         \<and> rs_hours st = pf_total.written HOURLY_SLOTS_PERF HOUR_MS (of_route k evs)"
    by auto
  obtain st where st: "state_for e ?r = Some st"
    and rings: "rs_minutes st = pf_total.written MINUTE_SLOTS MINUTE_MS (of_route ?k evs)"
      "rs_hours st = pf_total.written HOURLY_SLOTS_PERF HOUR_MS (of_route ?k evs)"
  proof (cases "map_of ?r ?k")
    case None
    then have new: "?k \<notin> route_keys evs" using IH(2) by (simp add: map_of_eq_None_iff)
    have "length ?r = card (route_keys evs)" using IH(1,2) distinct_card by (metis length_map)
    then have "\<not> MAX_PERF_ROUTE_KEYS \<le> length ?r"
      using snoc.prems new fin by (simp add: keys)
    moreover have "of_route ?k evs = []" using new by (force simp: of_route_def route_keys_def filter_empty_conv)
    ultimately show ?thesis
      using that [of "new_route e"] None by (simp add: state_for_def new_route_def written_Nil_pf)
  next
    case (Some st)
    then show ?thesis using that [of st] IH(3) [OF map_of_SomeD [OF Some]] by (simp add: state_for_def)
  qed
  let ?st = "st\<lparr>rs_minutes := write_perf t MINUTE_MS e (rs_minutes st),
    rs_hours := write_perf t HOUR_MS e (rs_hours st)\<rparr>"
  have run: "run_perf (evs @ [x]) = AList.update ?k ?st ?r"
    using st by (simp add: x run_perf_snoc record_sample_def)
  have here: "rs_minutes ?st = pf_total.written MINUTE_SLOTS MINUTE_MS (of_route ?k (evs @ [x]))
      \<and> rs_hours ?st = pf_total.written HOURLY_SLOTS_PERF HOUR_MS (of_route ?k (evs @ [x]))"
    using rings slot_pos by (simp add: of_route_def x write_perf_slot written_snoc_pf)
  have there: "of_route k (evs @ [x]) = of_route k evs" if "k \<noteq> ?k" for k
    using that by (simp add: of_route_def x)
  have dist: "distinct (map fst (run_perf (evs @ [x])))" by (simp add: run distinct_update IH(1))
  have dom: "set (map fst (run_perf (evs @ [x]))) = route_keys (evs @ [x])"
    using IH(2) by (simp add: run keys update_keys insert_absorb)
  have "rs_minutes s = pf_total.written MINUTE_SLOTS MINUTE_MS (of_route k (evs @ [x]))
       \<and> rs_hours s = pf_total.written HOURLY_SLOTS_PERF HOUR_MS (of_route k (evs @ [x]))"
    if "(k, s) \<in> set (run_perf (evs @ [x]))" for k s
  proof (cases "k = ?k")
    case True
    have "map_of (run_perf (evs @ [x])) k = Some s" using that dist by simp
    then show ?thesis using True here by (simp add: run update_conv')
  next
    case False
    then show ?thesis using that IH(3) there by (auto simp: run dest!: set_update_cases)
  qed
  then show ?case using dist dom by blast
qed

lemma perf_window_fields:
  "agg_count (sum_perf_window ring t s n) = sum_list (map pb_count (window_buckets pb_epoch ring t s n))"
  "agg_errors (sum_perf_window ring t s n) = sum_list (map pb_errors (window_buckets pb_epoch ring t s n))"
proof -
  have "agg_count (fold add_perf_bucket bs a) = agg_count a + sum_list (map pb_count bs)
    \<and> agg_errors (fold add_perf_bucket bs a) = agg_errors a + sum_list (map pb_errors bs)" for bs a
    by (induction bs arbitrary: a) (auto simp: add_perf_bucket_def)
  then show "agg_count (sum_perf_window ring t s n) = sum_list (map pb_count (window_buckets pb_epoch ring t s n))"
    "agg_errors (sum_perf_window ring t s n) = sum_list (map pb_errors (window_buckets pb_epoch ring t s n))"
    by (simp_all add: sum_perf_window_def empty_perf_agg_def)
qed

text \<open>Per route, and summed over the routes of a prefix.\<close>

lemma route_agg_exact:
  assumes "timely evs now" and "0 \<le> now" and "query_window HOURLY_SLOTS_PERF w = (slot, n)"
    and "rs_minutes st = pf_total.written MINUTE_SLOTS MINUTE_MS (of_route k evs)"
    and "rs_hours st = pf_total.written HOURLY_SLOTS_PERF HOUR_MS (of_route k evs)"
  shows "agg_count (route_agg w now st) = (\<Sum>(t, e)\<leftarrow>of_route k evs. if in_window slot now n t then 1 else 0)"
    and "agg_errors (route_agg w now st)
      = (\<Sum>(t, e)\<leftarrow>of_route k evs. if in_window slot now n t then (if 500 \<le> status_code e then 1 else 0) else 0)"
proof -
  have t: "timely (of_route k evs) now" using assms(1) by (simp add: of_route_def timely_filter)
  have "agg_count (route_agg w now st) = (\<Sum>(t, e)\<leftarrow>of_route k evs. if in_window slot now n t then 1 else 0)
    \<and> agg_errors (route_agg w now st)
      = (\<Sum>(t, e)\<leftarrow>of_route k evs. if in_window slot now n t then (if 500 \<le> status_code e then 1 else 0) else 0)"
  proof (cases "w \<le> 3600")
    case True
    then have "min n MINUTE_SLOTS = n" "slot = MINUTE_MS" "n = nat (max 1 \<lceil>w / 60\<rceil>)"
      using assms(3) window_choice_minutes [OF True] by (auto simp: query_window_def)
    then show ?thesis
      using True assms(4) pf_total.window_exact [OF slot_pos(3,1) t assms(2), of n]
        pf_errors.window_exact [OF slot_pos(3,1) t assms(2), of n]
      by (simp add: route_agg_def window_choice_def MINUTE_SLOTS_def perf_window_fields)
  next
    case False
    then have "min n HOURLY_SLOTS_PERF = n" "slot = HOUR_MS"
      "n = min HOURLY_SLOTS_PERF (nat (max 1 \<lceil>w / 3600\<rceil>))"
      using assms(3) by (auto simp: query_window_def)
    then show ?thesis
      using False assms(5) pf_total.window_exact [OF slot_pos(5,2) t assms(2), of n]
        pf_errors.window_exact [OF slot_pos(5,2) t assms(2), of n]
      by (simp add: route_agg_def window_choice_def MINUTE_SLOTS_def perf_window_fields)
  qed
  then show "agg_count (route_agg w now st) = (\<Sum>(t, e)\<leftarrow>of_route k evs. if in_window slot now n t then 1 else 0)"
    "agg_errors (route_agg w now st)
      = (\<Sum>(t, e)\<leftarrow>of_route k evs. if in_window slot now n t then (if 500 \<le> status_code e then 1 else 0) else 0)"
    by simp_all
qed

lemma window_agg_sum:
  fixes f :: "perf_agg \<Rightarrow> nat"
  assumes "\<And>a b. f (merge_perf a b) = f a + f b"
  shows "(case window_agg_for_route_group rg w now routes of None \<Rightarrow> 0 | Some a \<Rightarrow> f a)
    = (\<Sum>(k, st)\<leftarrow>routes. if starts_with (rg @ ''|'') k then f (route_agg w now st) else 0)"
proof -
  have "(case fold (\<lambda>(key, st) merged.
             if \<not> starts_with (rg @ ''|'') key then merged
             else (let agg = route_agg w now st in
                   case merged of None \<Rightarrow> Some agg | Some m \<Rightarrow> Some (merge_perf m agg))) routes acc of
           None \<Rightarrow> 0 | Some a \<Rightarrow> f a)
    = (case acc of None \<Rightarrow> 0 | Some a \<Rightarrow> f a)
      + (\<Sum>(k, st)\<leftarrow>routes. if starts_with (rg @ ''|'') k then f (route_agg w now st) else 0)" for acc
  proof (induction routes arbitrary: acc)
    case (Cons x routes)
    then show ?case
      by (cases x; cases acc; cases "starts_with (rg @ ''|'') (fst x)") (auto simp: Let_def assms)
  qed simp
  from this [of None] show ?thesis by (simp add: window_agg_for_route_group_def)
qed

lemma sum_over_keys:
  fixes g :: "'e \<Rightarrow> nat"
  assumes "distinct ks" and "key ` set evs \<subseteq> set ks"
  shows "(\<Sum>k\<leftarrow>ks. if P k then \<Sum>x\<leftarrow>filter (\<lambda>x. key x = k) evs. g x else 0)
    = (\<Sum>x\<leftarrow>evs. if P (key x) then g x else 0)"
  using assms(2)
proof (induction evs)
  case (Cons x evs)
  have "(\<Sum>k\<leftarrow>ks. if P k \<and> a = k then g x else 0) = (if a \<in> set ks \<and> P a then g x else 0)" for a
    using assms(1) by (induction ks) auto
  then have one: "(\<Sum>k\<leftarrow>ks. if P k \<and> key x = k then g x else 0) = (if P (key x) then g x else 0)"
    using Cons.prems by simp
  have "(\<Sum>k\<leftarrow>ks. if P k then \<Sum>y\<leftarrow>filter (\<lambda>x. key x = k) (x # evs). g y else 0)
    = (\<Sum>k\<leftarrow>ks. (if P k \<and> key x = k then g x else 0) + (if P k then \<Sum>y\<leftarrow>filter (\<lambda>x. key x = k) evs. g y else 0))"
    by (rule arg_cong [of _ _ sum_list], rule map_cong) auto
  then show ?case using Cons one by (simp add: sum_list_addf)
next
  case Nil
  show ?case by (simp only: filter.simps list.map sum_list.Nil if_cancel sum_list_0)
qed


lemma prefix_sum:
  fixes g :: "sample \<Rightarrow> nat"
  assumes "distinct (map fst routes)" and "route_keys evs \<subseteq> set (map fst routes)"
    and "\<And>k st. (k, st) \<in> set routes \<Longrightarrow> h st = (\<Sum>(t, e)\<leftarrow>of_route k evs. if in_window slot now n t then g e else 0)"
  shows "(\<Sum>(k, st)\<leftarrow>routes. if P k then h st else 0)
    = (\<Sum>(t, e)\<leftarrow>evs. if P (route_key e) \<and> in_window slot now n t then g e else 0)"
proof -
  let ?g = "\<lambda>(t, e). if in_window slot now n t then g e else 0" and ?key = "\<lambda>(t, e). route_key e"
  have "(\<Sum>(k, st)\<leftarrow>routes. if P k then h st else 0)
    = (\<Sum>k\<leftarrow>map fst routes. if P k then \<Sum>x\<leftarrow>filter (\<lambda>x. ?key x = k) evs. ?g x else 0)"
    unfolding map_map
    by (rule arg_cong [of _ _ sum_list], rule map_cong) (auto simp: assms(3) of_route_def case_prod_unfold)
  also have "\<dots> = (\<Sum>x\<leftarrow>evs. if P (?key x) then ?g x else 0)"
    by (rule sum_over_keys [OF assms(1)]) (use assms(2) in \<open>simp add: route_keys_def\<close>)
  also have "\<dots> = (\<Sum>(t, e)\<leftarrow>evs. if P (route_key e) \<and> in_window slot now n t then g e else 0)"
    by (rule arg_cong [of _ _ sum_list], rule map_cong) auto
  finally show ?thesis .
qed

section \<open>Properties\<close>

text \<open>C19: Every counter the realtime collector answers is exact: after any run, the count of a known
  metric over a window is the number of the recorded events of that metric in the window's slots (the
  trailing minutes up to an hour, whole hours beyond it, at most seven days), however often the rings
  have wrapped.\<close>

theorem metric_counts_exact:
  assumes "timely evs now" and "0 \<le> now" and "m \<in> set KNOWN_REALTIME_METRICS"
    and "query_window HOURLY_SLOTS_REALTIME w = (slot, n)"
  shows "query_count m w now (run_collector evs)
    = length (filter (\<lambda>(t, i). in_metric i = m \<and> in_window slot now n t) evs)"
  by (rule query_count_exact [OF assms])

lemma metric_counts_exact_witness:
  "\<exists>evs (i :: metric_input). in_metric i = ''call.join.success''
    \<and> query_count ''call.join.success'' 60 3660000 (run_collector evs) = 1 \<and> length evs = 2"
proof -
  let ?i = "\<lparr>in_metric = ''call.join.success'', in_driver = None, in_source = None, in_workspace = None,
    in_conversation = None, in_tags = None\<rparr>"
  let ?evs = "[(0, ?i), (3660000, ?i)]"
  have "query_count ''call.join.success'' 60 3660000 (run_collector ?evs)
    = length (filter (\<lambda>(t, i). in_metric i = ''call.join.success'' \<and> in_window MINUTE_MS 3660000 1 t) ?evs)"
    by (rule metric_counts_exact) (simp_all add: timely_def KNOWN_REALTIME_METRICS_def query_window_def)
  then show ?thesis
    by (intro exI [of _ ?evs] exI [of _ ?i]) (simp add: in_window_def MINUTE_MS_def)
qed

text \<open>The collector's memory is bounded whatever is recorded: its metrics are the known ones, its
  rings keep their lengths, no bucket holds more than 20 drivers or 10 sources (each key once, their
  counts never above the bucket's total), and at most 1000 recent events are held.\<close>

theorem collector_memory_bounded:
  "collector_bounded (run_collector evs)"
proof (induction evs rule: rev_induct)
  case Nil
  then show ?case using new_collector_bounded by (simp add: run_collector_def)
next
  case (snoc x evs)
  then show ?case by (cases x) (simp add: run_collector_snoc record_metric_bounded)
qed

text \<open>The circular buffer implements the log of recorded events: a query returns the newest of the
  last 1000 recorded rows that match, newest first, at most as many as asked for.\<close>

theorem recent_events_refine_log:
  "query_events m limit (run_collector evs)
   = take limit (filter (\<lambda>row. case m of None \<Rightarrow> True | Some s \<Rightarrow> s = [] \<or> row_metric row = s)
       (take RECENT_EVENTS_CAPACITY (rev (recorded_rows evs))))"
proof -
  let ?C = RECENT_EVENTS_CAPACITY and ?R = "recorded_rows evs" and ?c = "run_collector evs"
  let ?n = "min (length ?R) ?C" and ?J = "length ?R - 1"
  let ?keep = "\<lambda>row. case m of None \<Rightarrow> True | Some s \<Rightarrow> s = [] \<or> row_metric row = s"
  have C: "0 < ?C" by (simp add: RECENT_EVENTS_CAPACITY_def)
  have st: "write_cursor ?c = length ?R mod ?C" "recent_count ?c = ?n"
    "\<forall>j < length ?R. length ?R \<le> j + ?C \<longrightarrow> recent_events ?c ! (j mod ?C) = Some (?R ! j)"
    using recent_state [of evs] by auto
  show ?thesis
  proof (cases "?R = []")
    case False
    have "(length ?R mod ?C + (?C - 1)) mod ?C = (length ?R + (?C - 1)) mod ?C" by (rule mod_add_left_eq)
    also have "length ?R + (?C - 1) = ?J + ?C"
    proof -
      have "l + (c - 1) = (l - 1) + c" if "l \<noteq> 0" "0 < c" for l c :: nat using that by arith
      from this [OF _ C, of "length ?R"] show ?thesis using False by simp
    qed
    finally have cur: "(write_cursor ?c + ?C - 1) mod ?C = ?J mod ?C" using C st(1) by simp
    have "?n \<le> Suc ?J" using False by simp
    moreover have "\<forall>j \<le> ?J. ?J < j + ?n \<longrightarrow> recent_events ?c ! (j mod ?C) = Some (?R ! j)"
    proof (intro allI impI)
      fix j assume j: "j \<le> ?J" "?J < j + ?n"
      have "j < l \<and> l \<le> j + c" if "l \<noteq> 0" "j \<le> l - 1" "l - 1 < j + min l c" for l c :: nat
        using that by arith
      from this [of "length ?R" ?C] j have "j < length ?R" "length ?R \<le> j + ?C"
        using False by auto
      then show "recent_events ?c ! (j mod ?C) = Some (?R ! j)" using st(3) by blast
    qed
    ultimately have "query_events m limit ?c = take limit (filter ?keep (map (\<lambda>d. ?R ! (?J - d)) [0..<?n]))"
      unfolding query_events_def st(2) cur by (subst collect_events_walk) auto
    then show ?thesis by (simp add: newest_rows min.commute)
  qed (simp add: query_events_def st(2))
qed

text \<open>The error rate of a route group over a window is exact: with at most fifty distinct routes in the
  run, it is the fraction of the group's requests in the window's slots that answered 500 or more,
  with their number as the sample, and zero of zero when there was none.\<close>

theorem error_rate_exact:
  assumes "timely evs now" and "0 \<le> now" and "card (route_keys evs) \<le> MAX_PERF_ROUTE_KEYS"
    and "query_window HOURLY_SLOTS_PERF w = (slot, n)"
    and "hits = filter (\<lambda>(t, e). starts_with (rg @ ''|'') (route_key e) \<and> in_window slot now n t) evs"
  shows "query_error_rate rg w now (run_perf evs)
    = (if hits = [] then 0 else of_nat (length (filter (\<lambda>(t, e). 500 \<le> status_code e) hits)) / of_nat (length hits),
       length hits)"
proof -
  let ?routes = "run_perf evs" and ?agg = "window_agg_for_route_group rg w now (run_perf evs)"
  note st = run_perf_state [OF assms(3)]
  have d: "distinct (map fst ?routes)" and sub: "route_keys evs \<subseteq> set (map fst ?routes)" using st by auto
  have rs: "rs_minutes s = pf_total.written MINUTE_SLOTS MINUTE_MS (of_route k evs)"
    "rs_hours s = pf_total.written HOURLY_SLOTS_PERF HOUR_MS (of_route k evs)" if "(k, s) \<in> set ?routes" for k s
    using st that by auto
  have c: "(case ?agg of None \<Rightarrow> 0 | Some a \<Rightarrow> agg_count a) = length hits"
  proof -
    have "(case ?agg of None \<Rightarrow> 0 | Some a \<Rightarrow> agg_count a)
      = (\<Sum>(t, e)\<leftarrow>evs. if starts_with (rg @ ''|'') (route_key e) \<and> in_window slot now n t then 1 else 0)"
      unfolding window_agg_sum [of agg_count, simplified merge_perf_def, simplified]
      by (rule prefix_sum [OF d sub]) (rule route_agg_exact(1) [OF assms(1,2,4) rs], assumption+)
    also have "\<dots> = length hits" unfolding assms(5) by (rule sum_list_ones2)
    finally show ?thesis .
  qed
  have e: "(case ?agg of None \<Rightarrow> 0 | Some a \<Rightarrow> agg_errors a) = length (filter (\<lambda>(t, e). 500 \<le> status_code e) hits)"
  proof -
    have "(case ?agg of None \<Rightarrow> 0 | Some a \<Rightarrow> agg_errors a)
      = (\<Sum>(t, e)\<leftarrow>evs. if starts_with (rg @ ''|'') (route_key e) \<and> in_window slot now n t
           then (if 500 \<le> status_code e then 1 else 0) else 0)"
      unfolding window_agg_sum [of agg_errors, simplified merge_perf_def, simplified]
      by (rule prefix_sum [OF d sub]) (rule route_agg_exact(2) [OF assms(1,2,4) rs], assumption+)
    also have "\<dots> = length (filter (\<lambda>(t, e). 500 \<le> status_code e) hits)"
      unfolding assms(5) by (rule sum_list_ones2)
    finally show ?thesis .
  qed
  show ?thesis
    using c e by (auto simp: query_error_rate_def split: option.splits)
qed

lemma error_rate_exact_witness:
  "\<exists>evs. query_error_rate ''widget.action'' 60 60002 (run_perf evs) = (1 / 2, 2)"
proof -
  let ?e = "\<lambda>code. \<lparr>route_group = ''widget.action'', sample_method = ''POST'', status_code = code, duration_ms = 7\<rparr>"
  let ?evs = "[(0, ?e 500), (60000, ?e 200), (60001, ?e 503)]"
  have k: "route_keys ?evs = {''widget.action|POST''}" by (auto simp: route_keys_def route_key_def)
  have "query_error_rate ''widget.action'' 60 60002 (run_perf ?evs)
    = (if filter (\<lambda>(t, e). starts_with (''widget.action'' @ ''|'') (route_key e) \<and> in_window MINUTE_MS 60002 1 t) ?evs = [] then 0
       else of_nat (length (filter (\<lambda>(t, e). 500 \<le> status_code e)
           (filter (\<lambda>(t, e). starts_with (''widget.action'' @ ''|'') (route_key e) \<and> in_window MINUTE_MS 60002 1 t) ?evs)))
         / of_nat (length (filter (\<lambda>(t, e). starts_with (''widget.action'' @ ''|'') (route_key e) \<and> in_window MINUTE_MS 60002 1 t) ?evs)),
       length (filter (\<lambda>(t, e). starts_with (''widget.action'' @ ''|'') (route_key e) \<and> in_window MINUTE_MS 60002 1 t) ?evs))"
    by (rule error_rate_exact) (simp_all add: timely_def k MAX_PERF_ROUTE_KEYS_def query_window_def)
  then have "query_error_rate ''widget.action'' 60 60002 (run_perf ?evs) = (1 / 2, 2)"
    by (simp add: starts_with_def route_key_def in_window_def MINUTE_MS_def)
  then show ?thesis by blast
qed


text \<open>The reported percentiles of a route group are ordered and bounded: a higher percentile is never
  below a lower one over the same sample, and every one lies between 0 and 60000 milliseconds.\<close>

theorem percentiles_ordered:
  assumes "0 \<le> p" and "p \<le> q"
  shows "fst (query_percentile rg p w t routes) \<le> fst (query_percentile rg q w t routes)
    \<and> 0 \<le> fst (query_percentile rg p w t routes) \<and> fst (query_percentile rg q w t routes) \<le> 60000
    \<and> snd (query_percentile rg p w t routes) = snd (query_percentile rg q w t routes)"
  using percentile_le [OF assms(1)] percentile_le [OF order.trans [OF assms]] percentile_mono [OF assms]
  by (auto simp: query_percentile_def split: option.split)

lemma percentiles_ordered_witness:
  "fst (query_percentile ''widget.action'' 50 60 60000 (run_perf []))
     \<le> fst (query_percentile ''widget.action'' 95 60 60000 (run_perf []))"
  using percentiles_ordered [of 50 95 "''widget.action''" 60 60000 "run_perf []"] by simp

end
