(* ===== verification/Process_Trend.thy ===== *)
theory Process_Trend
  imports Prelude "HOL-Library.AList"
begin

text \<open>
  Process samples and reconnect reports of the live monitoring
  (\<open>server/services/observability/collector/processCollector.ts\<close>, \<open>reconnectClassifier.ts\<close>): the ring of process
  snapshots with the averages the alert rules read, and the bounded maps that drop repeated reconnect
  reports. The ring and the maps are shown to hold exactly the most recent entries of what was written.
\<close>

section \<open>The ring of snapshots\<close>

record process_snapshot =
  ps_occurred_at :: int
  ps_lag_ms :: rat
  ps_rss :: int
  ps_heap_used :: int
  ps_heap_total :: int
  ps_heap_limit :: int
  ps_uptime :: int

record process_trend =
  trend :: "process_snapshot list"
  trend_cursor :: nat

definition PROCESS_TREND_CAPACITY :: nat where "PROCESS_TREND_CAPACITY = 1440"

definition DEFAULT_BUDGET_BYTES :: rat where "DEFAULT_BUDGET_BYTES = 512 * 1024 * 1024"

definition empty_trend :: process_trend where
  "empty_trend = \<lparr>trend = [], trend_cursor = 0\<rparr>"

text \<open>One tick of the sampler.\<close>

definition sample_tick :: "process_snapshot \<Rightarrow> process_trend \<Rightarrow> process_trend" where
  "sample_tick snap t =
     \<lparr>trend = (if length (trend t) < PROCESS_TREND_CAPACITY then trend t @ [snap] else (trend t)[trend_cursor t := snap]),
      trend_cursor = (trend_cursor t + 1) mod PROCESS_TREND_CAPACITY\<rparr>"

definition ordered_trend :: "process_trend \<Rightarrow> process_snapshot list" where
  "ordered_trend t =
     (if length (trend t) < PROCESS_TREND_CAPACITY then trend t
      else drop (trend_cursor t) (trend t) @ take (trend_cursor t) (trend t))"

datatype process_metric = Event_loop_lag_ms | Rss_pct_of_budget | Heap_used_over_total | Heap_used_over_limit

definition average_of :: "(process_snapshot \<Rightarrow> rat) \<Rightarrow> process_snapshot list \<Rightarrow> rat" where
  "average_of f ss = sum_list (map f ss) / of_nat (length ss)"

text \<open>\<open>queryAverage\<close>; \<open>limit_bytes\<close> is the heap limit of the runtime.\<close>

definition query_average :: "int \<Rightarrow> int \<Rightarrow> process_metric \<Rightarrow> int \<Rightarrow> rat option \<Rightarrow> process_trend \<Rightarrow> rat \<times> nat" where
  "query_average limit_bytes now metric window budget t =
     (let recent = filter (\<lambda>s. now - window * 1000 \<le> ps_occurred_at s) (ordered_trend t)
      in if recent = [] then (0, 0)
         else ((case metric of
            Event_loop_lag_ms \<Rightarrow> average_of ps_lag_ms recent
          | Rss_pct_of_budget \<Rightarrow>
              (let b = (case budget of Some x \<Rightarrow> if 0 < x then x else DEFAULT_BUDGET_BYTES | None \<Rightarrow> DEFAULT_BUDGET_BYTES)
               in average_of (\<lambda>s. of_int (ps_rss s) / b) recent)
          | Heap_used_over_limit \<Rightarrow>
              (let used = average_of (\<lambda>s. of_int (ps_heap_used s)) recent;
                   own = ps_heap_limit (last recent);
                   l = (if own = 0 then limit_bytes else own)
               in if 0 < l then used / of_int l else 0)
          | Heap_used_over_total \<Rightarrow>
              (let used = average_of (\<lambda>s. of_int (ps_heap_used s)) recent;
                   whole = average_of (\<lambda>s. of_int (ps_heap_total s)) recent
               in if 0 < whole then used / whole else 0)), length recent))"

section \<open>The ring holds the last snapshots\<close>

definition run_sampler :: "process_snapshot list \<Rightarrow> process_trend" where
  "run_sampler ss = foldl (\<lambda>t s. sample_tick s t) empty_trend ss"

lemma run_sampler_snoc: "run_sampler (ss @ [s]) = sample_tick s (run_sampler ss)"
  by (simp add: run_sampler_def)

lemma rotate_overwrite:
  assumes "c < length xs"
  shows "drop (Suc c) (xs[c := x]) @ take (Suc c) (xs[c := x]) = tl (drop c xs @ take c xs) @ [x]"
  using assms by (simp add: drop_update_swap take_Suc_conv_app_nth tl_append2 drop_Suc tl_drop
      flip: drop_Suc)

lemma ring_state:
  "length (trend (run_sampler ss)) = min (length ss) PROCESS_TREND_CAPACITY
   \<and> trend_cursor (run_sampler ss) = length ss mod PROCESS_TREND_CAPACITY
   \<and> ordered_trend (run_sampler ss) = drop (length ss - PROCESS_TREND_CAPACITY) ss"
proof (induction ss rule: rev_induct)
  case Nil
  then show ?case by (simp add: run_sampler_def empty_trend_def ordered_trend_def PROCESS_TREND_CAPACITY_def)
next
  case (snoc s ss)
  let ?t = "run_sampler ss" and ?n = PROCESS_TREND_CAPACITY
  have pos: "0 < ?n" by (simp add: PROCESS_TREND_CAPACITY_def)
  have len: "length (trend ?t) = min (length ss) ?n" and cur: "trend_cursor ?t = length ss mod ?n"
    and ord: "ordered_trend ?t = drop (length ss - ?n) ss"
    using snoc by auto
  have next_cur: "trend_cursor (run_sampler (ss @ [s])) = Suc (length ss) mod ?n"
    by (simp add: run_sampler_snoc sample_tick_def cur mod_Suc_eq)
  show ?case
  proof (cases "length ss < ?n")
    case True
    then have tr: "trend (run_sampler (ss @ [s])) = trend ?t @ [s]" and own: "trend ?t = ss"
      using len ord by (simp_all add: run_sampler_snoc sample_tick_def ordered_trend_def)
    show ?thesis
    proof (cases "Suc (length ss) = ?n")
      case full: True
      then show ?thesis using tr own next_cur by (simp add: ordered_trend_def)
    next
      case False
      then show ?thesis using tr own next_cur True by (simp add: ordered_trend_def)
    qed
  next
    case False
    then have lenN: "length (trend ?t) = ?n" using len by simp
    have c: "trend_cursor ?t < length (trend ?t)" using cur lenN pos by simp
    have tr: "trend (run_sampler (ss @ [s])) = (trend ?t)[trend_cursor ?t := s]"
      using lenN by (simp add: run_sampler_snoc sample_tick_def)
    have rot: "drop (trend_cursor ?t) (trend ?t) @ take (trend_cursor ?t) (trend ?t) = drop (length ss - ?n) ss"
      using ord lenN by (simp add: ordered_trend_def)
    have "ordered_trend (run_sampler (ss @ [s])) = tl (drop (length ss - ?n) ss) @ [s]"
    proof (cases "Suc (trend_cursor ?t) = ?n")
      case True
      have "ordered_trend (run_sampler (ss @ [s])) = (trend ?t)[trend_cursor ?t := s]"
        using True lenN cur tr next_cur pos by (simp add: ordered_trend_def run_sampler_snoc sample_tick_def)
      also have "\<dots> = drop (Suc (trend_cursor ?t)) ((trend ?t)[trend_cursor ?t := s])
          @ take (Suc (trend_cursor ?t)) ((trend ?t)[trend_cursor ?t := s])"
        using True lenN by simp
      finally show ?thesis using rotate_overwrite [OF c, of s] rot by simp
    next
      case neq: False
      then have "trend_cursor (run_sampler (ss @ [s])) = Suc (trend_cursor ?t)"
        using c lenN by (simp add: run_sampler_snoc sample_tick_def)
      then show ?thesis using rotate_overwrite [OF c, of s] rot tr lenN by (simp add: ordered_trend_def)
    qed
    then show ?thesis
      using False tr lenN next_cur pos by (simp add: Suc_diff_le drop_Suc tl_drop)
  qed
qed

section \<open>Reconnect reports\<close>

definition RECONNECT_TTL_MAP_MAX :: nat where "RECONNECT_TTL_MAP_MAX = 5000"

definition DEDUP_WINDOW_MS :: int where "DEDUP_WINDOW_MS = 2000"

record reconnect_state =
  grants :: "(string \<times> (int \<times> int)) list"
  last_reconnect :: "(string \<times> int) list"

definition reconnect_key :: "string \<Rightarrow> string \<Rightarrow> string" where
  "reconnect_key workspace subject = workspace @ '':'' @ subject"

text \<open>A \<open>Map\<close> in insertion order with a bound: the oldest key goes first, and a key set again moves to the end.\<close>

definition touch_bounded :: "nat \<Rightarrow> string \<Rightarrow> 'v \<Rightarrow> (string \<times> 'v) list \<Rightarrow> (string \<times> 'v) list" where
  "touch_bounded n k v m =
     AList.update k v (AList.delete k (if map_of m k = None \<and> n \<le> length m then tl m else m))"

definition record_grant :: "int \<Rightarrow> string \<Rightarrow> string \<Rightarrow> int \<Rightarrow> reconnect_state \<Rightarrow> reconnect_state" where
  "record_grant now workspace subject ttl s =
     s\<lparr>grants := touch_bounded RECONNECT_TTL_MAP_MAX (reconnect_key workspace subject) (now, ttl) (grants s)\<rparr>"

text \<open>The report's verdict (is it a duplicate, was a token granted) and the new state.\<close>

definition validate_reconnect :: "int \<Rightarrow> string \<Rightarrow> string \<Rightarrow> reconnect_state \<Rightarrow> (bool \<times> bool) \<times> reconnect_state" where
  "validate_reconnect now workspace subject s =
     (let k = reconnect_key workspace subject;
          dup = (case map_of (last_reconnect s) k of None \<Rightarrow> False | Some t \<Rightarrow> now - t < DEDUP_WINDOW_MS)
      in ((dup, map_of (grants s) k \<noteq> None),
          if dup then s else s\<lparr>last_reconnect := touch_bounded RECONNECT_TTL_MAP_MAX k now (last_reconnect s)\<rparr>))"

text \<open>Without the bound: every key ever set, the most recent last.\<close>

definition recency :: "(string \<times> 'v) list \<Rightarrow> (string \<times> 'v) list" where
  "recency kvs = foldl (\<lambda>m (k, v). AList.delete k m @ [(k, v)]) [] kvs"

lemma update_absent: "k \<notin> fst ` set m \<Longrightarrow> AList.update k v m = m @ [(k, v)]"
  by (induction m) auto

lemma update_delete_snoc: "AList.update k v (AList.delete k m) = AList.delete k m @ [(k, v)]"
  by (rule update_absent) (auto simp: AList.delete_eq)

lemma recency_snoc: "recency (kvs @ [(k, v)]) = AList.delete k (recency kvs) @ [(k, v)]"
  by (simp add: recency_def)

lemma delete_absent: "k \<notin> fst ` set m \<Longrightarrow> AList.delete k m = m"
  by (induction m) auto

lemma delete_append: "AList.delete k (a @ b) = AList.delete k a @ AList.delete k b"
  by (induction a) auto

lemma length_delete_present:
  "distinct (map fst m) \<Longrightarrow> k \<in> fst ` set m \<Longrightarrow> length m = Suc (length (AList.delete k m))"
  by (induction m) (auto simp: delete_absent image_iff)

lemma recency_distinct: "distinct (map fst (recency kvs))"
proof (induction kvs rule: rev_induct)
  case (snoc kv kvs)
  obtain k v where kv: "kv = (k, v)" by (cases kv)
  have "distinct (map fst (AList.delete k (recency kvs)))" using snoc by (rule AList.distinct_delete)
  moreover have "k \<notin> fst ` set (AList.delete k (recency kvs))" by (auto simp: AList.delete_eq)
  ultimately show ?case by (simp add: kv recency_snoc)
qed (simp add: recency_def)

definition bounded_touches :: "nat \<Rightarrow> (string \<times> 'v) list \<Rightarrow> (string \<times> 'v) list" where
  "bounded_touches n kvs = foldl (\<lambda>m (k, v). touch_bounded n k v m) [] kvs"

text \<open>The bounded map is the end of the unbounded one: it forgets only keys older than all it keeps.\<close>

lemma bounded_touches_recency:
  assumes "0 < n"
  shows "bounded_touches n kvs = drop (length (recency kvs) - n) (recency kvs)"
proof (induction kvs rule: rev_induct)
  case Nil
  then show ?case by (simp add: bounded_touches_def recency_def)
next
  case (snoc kv kvs)
  obtain k v where kv: "kv = (k, v)" by (cases kv)
  let ?u = "recency kvs"
  obtain a b where ab: "?u = a @ b" "a = take (length ?u - n) ?u" "b = drop (length ?u - n) ?u"
    using append_take_drop_id [of "length ?u - n" ?u] by metis
  have b: "bounded_touches n kvs = b" using snoc ab(3) by simp
  have short: "length b = min (length ?u) n" using ab(3) by (cases "length ?u \<le> n") simp_all
  have lens: "length ?u = length a + length b" using ab(1) by simp
  have dist: "distinct (map fst (a @ b))" using recency_distinct [of kvs] ab(1) by simp
  have step: "bounded_touches n (kvs @ [kv]) = touch_bounded n k v b"
    using b by (simp add: bounded_touches_def kv)
  have next_u: "recency (kvs @ [kv]) = AList.delete k a @ AList.delete k b @ [(k, v)]"
    using ab(1) by (simp add: kv recency_snoc delete_append)
  show ?case
  proof (cases "k \<in> fst ` set b")
    case True
    then have "k \<notin> fst ` set a" using dist by auto
    then have a: "AList.delete k a = a" by (rule delete_absent)
    have "map_of b k \<noteq> None" using True by (simp add: map_of_eq_None_iff)
    then have touched: "touch_bounded n k v b = AList.delete k b @ [(k, v)]"
      by (auto simp: touch_bounded_def update_delete_snoc)
    have "length b = Suc (length (AList.delete k b))"
      using True dist by (intro length_delete_present) auto
    then have "length (recency (kvs @ [kv])) = length ?u" using next_u a lens by simp
    moreover have "length a = length ?u - n" using arg_cong [OF ab(2), of length] by simp
    ultimately have "length (recency (kvs @ [kv])) - n = length a" by simp
    then show ?thesis using step next_u a touched by simp
  next
    case False
    then have b': "AList.delete k b = b" by (rule delete_absent)
    have none: "map_of b k = None" using False by (simp add: map_of_eq_None_iff)
    show ?thesis
    proof (cases "length b < n")
      case True
      then have "length ?u = length b" using short by simp
      then have a: "a = []" using lens by simp
      have "touch_bounded n k v b = b @ [(k, v)]"
        using True none b' update_absent [OF False, of v] by (simp add: touch_bounded_def)
      moreover have "recency (kvs @ [kv]) = b @ [(k, v)]" using next_u a b' by simp
      ultimately show ?thesis using step True by simp
    next
      case full: False
      then have nb: "length b = n" using short by simp
      then obtain x c where x: "b = x # c" using assms by (cases b) auto
      have "AList.delete k (tl b) = tl b" using False x by (intro delete_absent) auto
      then have "touch_bounded n k v b = c @ [(k, v)]"
        using none nb x update_absent [of k c v] False by (simp add: touch_bounded_def)
      moreover have "length (recency (kvs @ [kv])) - n = Suc (length (AList.delete k a))"
        using next_u b' nb by simp
      then have "drop (length (recency (kvs @ [kv])) - n) (recency (kvs @ [kv])) = c @ [(k, v)]"
        using next_u b' x by simp
      ultimately show ?thesis using step by simp
    qed
  qed
qed

end
