(* ===== verification/Calendar.thy ===== *)
theory Calendar
  imports Prelude
begin

text \<open>
  ECMAScript dates. An instant is a number of milliseconds since 1970-01-01T00:00:00Z; the
  proleptic Gregorian calendar turns it into year, month, day and time of day in UTC and back
  (\<open>Date.UTC\<close>, the \<open>getUTC*\<close> methods). A date text is known only through what \<open>Date.parse\<close> reads
  from it: an instant, or nothing; \<open>toISOString\<close> writes a text that reads back as the instant.
\<close>

section \<open>Date texts\<close>

datatype isotext = Iso int | Unreadable

text \<open>The reading \<open>ms(iso)\<close> of an optional date text: not a number is \<open>None\<close>.\<close>

fun parse_iso :: "isotext \<Rightarrow> int option" where
  "parse_iso (Iso t) = Some t"
| "parse_iso Unreadable = None"

definition parse_iso_opt :: "isotext option \<Rightarrow> int option" where
  "parse_iso_opt x = Option.bind x parse_iso"

lemma parse_iso_opt_simps [simp]:
  "parse_iso_opt None = None"
  "parse_iso_opt (Some x) = parse_iso x"
  by (simp_all add: parse_iso_opt_def)

lemma parse_iso_Some [simp]: "parse_iso x = Some t \<longleftrightarrow> x = Iso t"
  by (cases x) auto

section \<open>Years and days\<close>

definition leap_year :: "int \<Rightarrow> bool" where
  "leap_year y \<longleftrightarrow> (y mod 4 = 0 \<and> y mod 100 \<noteq> 0) \<or> y mod 400 = 0"

definition day_from_year :: "int \<Rightarrow> int" where
  "day_from_year y =
     365 * (y - 1970) + (y - 1969) div 4 - (y - 1901) div 100 + (y - 1601) div 400"

definition days_in_year :: "int \<Rightarrow> int" where
  "days_in_year y = (if leap_year y then 366 else 365)"

text \<open>The year of a day: an estimate from the mean year, corrected by at most one.\<close>

definition year_of_day :: "int \<Rightarrow> int" where
  "year_of_day d =
     (let g = 1970 + (d * 400) div 146097
      in if d < day_from_year g then g - 1
         else if day_from_year (g + 1) \<le> d then g + 1 else g)"

lemma div_succ:
  fixes a n :: int
  assumes "0 < n"
  shows "(a + 1) div n = a div n + (if (a + 1) mod n = 0 then 1 else 0)"
proof -
  have a: "a = n * (a div n) + a mod n" and a': "a + 1 = n * ((a + 1) div n) + (a + 1) mod n"
    by simp_all
  show ?thesis
  proof (cases "a mod n + 1 < n")
    case True
    have "a + 1 = n * (a div n) + (a mod n + 1)" using a by linarith
    moreover have "0 \<le> a mod n + 1" using assms by (simp add: add_nonneg_nonneg)
    ultimately have "(a + 1) div n = a div n" and "(a + 1) mod n = a mod n + 1"
      using True int_div_pos_eq int_mod_pos_eq by blast+
    moreover have "a mod n + 1 \<noteq> 0" using assms pos_mod_sign [of n a] by linarith
    ultimately show ?thesis by simp
  next
    case False
    then have "a mod n = n - 1" using assms pos_mod_bound [of n a] by linarith
    then have "a + 1 = n * (a div n) + n" using a by linarith
    then have "a + 1 = n * (a div n + 1)" by (simp add: distrib_left)
    then show ?thesis using assms by simp
  qed
qed

lemma day_from_year_succ: "day_from_year (y + 1) = day_from_year y + days_in_year y"
proof -
  have a: "(y - 1968) div 4 = (y - 1969) div 4 + (if y mod 4 = 0 then 1 else 0)"
    using div_succ [of 4 "y - 1969"] mod_diff_right_eq [of y 1968 4] by simp
  have b: "(y - 1900) div 100 = (y - 1901) div 100 + (if y mod 100 = 0 then 1 else 0)"
    using div_succ [of 100 "y - 1901"] mod_diff_right_eq [of y 1900 100] by simp
  have c: "(y - 1600) div 400 = (y - 1601) div 400 + (if y mod 400 = 0 then 1 else 0)"
    using div_succ [of 400 "y - 1601"] mod_diff_right_eq [of y 1600 400] by simp
  have d: "y mod 400 = 0 \<Longrightarrow> y mod 100 = 0" "y mod 100 = 0 \<Longrightarrow> y mod 4 = 0"
    using mod_mod_cancel [of 100 400 y] mod_mod_cancel [of 4 100 y] by simp_all
  have e: "y + 1 - 1969 = y - 1968" "y + 1 - 1901 = y - 1900" "y + 1 - 1601 = y - 1600" by simp_all
  show ?thesis
    unfolding day_from_year_def days_in_year_def leap_year_def e a b c using d by auto
qed

lemma days_in_year_bounds: "365 \<le> days_in_year y \<and> days_in_year y \<le> 366"
  by (simp add: days_in_year_def)

lemma div_bounds:
  fixes a n :: int
  assumes "0 < n"
  obtains q where "a div n = q" and "n * q \<le> a" and "a \<le> n * q + (n - 1)"
proof -
  have "a = n * (a div n) + a mod n" by simp
  then have "n * (a div n) \<le> a" and "a \<le> n * (a div n) + (n - 1)"
    using pos_mod_bound [OF assms, of a] pos_mod_sign [OF assms, of a] by linarith+
  then show ?thesis by (rule that [OF refl])
qed

lemma day_from_year_mean:
  "146097 * y \<le> 400 * day_from_year y + 287811596
   \<and> 400 * day_from_year y + 287810501 \<le> 146097 * y"
proof -
  obtain a where a: "(y - 1969) div 4 = a" "4 * a \<le> y - 1969" "y - 1969 \<le> 4 * a + (4 - 1)"
    by (rule div_bounds [of 4 "y - 1969"]) simp_all
  obtain b where b: "(y - 1901) div 100 = b" "100 * b \<le> y - 1901" "y - 1901 \<le> 100 * b + (100 - 1)"
    by (rule div_bounds [of 100 "y - 1901"]) simp_all
  obtain c where c: "(y - 1601) div 400 = c" "400 * c \<le> y - 1601" "y - 1601 \<le> 400 * c + (400 - 1)"
    by (rule div_bounds [of 400 "y - 1601"]) simp_all
  have "day_from_year y = 365 * (y - 1970) + a - b + c"
    unfolding day_from_year_def a(1) b(1) c(1) ..
  then have "400 * day_from_year y = 146000 * y - 287620000 + 400 * a - 400 * b + 400 * c" by simp
  moreover have "400 * a \<le> 100 * y - 196900" "100 * y - 197200 \<le> 400 * a"
    "400 * b \<le> 4 * y - 7604" "4 * y - 8000 \<le> 400 * b"
    "400 * c \<le> y - 1601" "y - 2000 \<le> 400 * c"
    using a b c by simp_all
  ultimately show ?thesis by simp
qed

lemma year_of_day_bounds:
  "day_from_year (year_of_day d) \<le> d \<and> d < day_from_year (year_of_day d + 1)"
proof -
  obtain k where k: "(d * 400) div 146097 = k" "146097 * k \<le> d * 400"
    "d * 400 \<le> 146097 * k + (146097 - 1)"
    by (rule div_bounds [of 146097 "d * 400"]) simp_all
  have lo: "day_from_year (1970 + k - 1) \<le> d"
    using day_from_year_mean [of "1970 + k - 1"] k(2) by simp
  have hi: "d < day_from_year (1970 + k + 1 + 1)"
    using day_from_year_mean [of "1970 + k + 1 + 1"] k(3) by simp
  show ?thesis
    unfolding year_of_day_def Let_def k(1) using lo hi by auto
qed

lemma day_from_year_less: "a < b \<Longrightarrow> day_from_year a < day_from_year b"
proof (induction b rule: int_gr_induct [of a])
  case base
  then show ?case using day_from_year_succ [of a] days_in_year_bounds [of a] by linarith
next
  case (step i)
  then show ?case using day_from_year_succ [of i] days_in_year_bounds [of i] by linarith
qed

lemma year_of_day_unique:
  assumes "day_from_year y \<le> d" and "d < day_from_year (y + 1)" shows "year_of_day d = y"
proof (rule ccontr)
  assume "year_of_day d \<noteq> y"
  then consider "year_of_day d + 1 \<le> y" | "y + 1 \<le> year_of_day d" by linarith
  then show False
    using assms year_of_day_bounds [of d] day_from_year_less
    by cases (metis leD le_less less_le_trans not_less)+
qed

section \<open>Months and days\<close>

definition month_starts :: "bool \<Rightarrow> int list" where
  "month_starts leap =
     (if leap then [0, 31, 60, 91, 121, 152, 182, 213, 244, 274, 305, 335, 366]
      else [0, 31, 59, 90, 120, 151, 181, 212, 243, 273, 304, 334, 365])"

definition days_before_month :: "bool \<Rightarrow> nat \<Rightarrow> int" where
  "days_before_month leap m = month_starts leap ! m"

definition month_of_yearday :: "bool \<Rightarrow> int \<Rightarrow> nat" where
  "month_of_yearday leap n = length (filter (\<lambda>m. days_before_month leap m \<le> n) [1..<12])"

definition days_in_month :: "int \<Rightarrow> nat \<Rightarrow> int" where
  "days_in_month y m =
     days_before_month (leap_year y) (Suc m) - days_before_month (leap_year y) m"

text \<open>
  \<open>MakeDay\<close> with a zero-based month that may run over into other years, and a one-based day that
  may run over into other months.
\<close>

definition make_day :: "int \<Rightarrow> int \<Rightarrow> int \<Rightarrow> int" where
  "make_day y m d =
     (let y' = y + m div 12
      in day_from_year y' + days_before_month (leap_year y') (nat (m mod 12)) + d - 1)"

definition month_of_day :: "int \<Rightarrow> nat" where
  "month_of_day d =
     month_of_yearday (leap_year (year_of_day d)) (d - day_from_year (year_of_day d))"

definition date_of_day :: "int \<Rightarrow> int" where
  "date_of_day d =
     d - day_from_year (year_of_day d)
       - days_before_month (leap_year (year_of_day d)) (month_of_day d) + 1"

definition weekday_of_day :: "int \<Rightarrow> nat" where
  "weekday_of_day d = nat ((d + 4) mod 7)"

lemma nat_upto_12: "[1..<12] = [1, 2, 3, 4, 5, 6, 7, 8, 9, 10, 11 :: nat]"
  by (simp add: upt_rec)

lemma days_before_month_simps [simp]:
  "days_before_month l 0 = 0"
  "days_before_month l (Suc 0) = 31"
  "days_before_month l (Suc (Suc 0)) = (if l then 60 else 59)"
  "days_before_month l 2 = (if l then 60 else 59)"
  "days_before_month l 3 = (if l then 91 else 90)"
  "days_before_month l 4 = (if l then 121 else 120)"
  "days_before_month l 5 = (if l then 152 else 151)"
  "days_before_month l 6 = (if l then 182 else 181)"
  "days_before_month l 7 = (if l then 213 else 212)"
  "days_before_month l 8 = (if l then 244 else 243)"
  "days_before_month l 9 = (if l then 274 else 273)"
  "days_before_month l 10 = (if l then 305 else 304)"
  "days_before_month l 11 = (if l then 335 else 334)"
  "days_before_month l 12 = (if l then 366 else 365)"
  by (simp_all add: days_before_month_def month_starts_def)

lemma month_cases:
  "m < 12 \<Longrightarrow> m = 0 \<or> m = 1 \<or> m = 2 \<or> m = 3 \<or> m = 4 \<or> m = 5 \<or> m = 6 \<or> m = 7 \<or> m = 8
     \<or> m = 9 \<or> m = 10 \<or> m = (11 :: nat)"
  by arith

lemma days_in_month_cases:
  assumes "m < 12"
  shows "days_in_month y m =
    (if m = 1 then (if leap_year y then 29 else 28) else if m \<in> {3, 5, 8, 10} then 30 else 31)"
  using month_cases [OF assms] unfolding days_in_month_def
  by (elim disjE) simp_all

lemma days_in_month_bounds: "m < 12 \<Longrightarrow> 28 \<le> days_in_month y m \<and> days_in_month y m \<le> 31"
  by (simp add: days_in_month_cases)

lemma month_of_yearday_eq:
  "month_of_yearday leap n =
    (if n < 31 then 0 else if n < (if leap then 60 else 59) then 1
     else if n < (if leap then 91 else 90) then 2 else if n < (if leap then 121 else 120) then 3
     else if n < (if leap then 152 else 151) then 4 else if n < (if leap then 182 else 181) then 5
     else if n < (if leap then 213 else 212) then 6 else if n < (if leap then 244 else 243) then 7
     else if n < (if leap then 274 else 273) then 8 else if n < (if leap then 305 else 304) then 9
     else if n < (if leap then 335 else 334) then 10 else 11)"
  unfolding month_of_yearday_def nat_upto_12 by simp

lemma month_of_yearday_bounds:
  assumes "0 \<le> n" and "n < (if leap then 366 else 365)"
  shows "month_of_yearday leap n < 12"
    and "days_before_month leap (month_of_yearday leap n) \<le> n"
    and "n < days_before_month leap (Suc (month_of_yearday leap n))"
  using assms unfolding month_of_yearday_eq by (simp_all split: if_splits)

lemma days_before_month_plus_days:
  "days_before_month (leap_year y) m + days_in_month y m = days_before_month (leap_year y) (Suc m)"
  by (simp add: days_in_month_def)

lemma days_before_month_12 [simp]: "days_before_month (leap_year y) 12 = days_in_year y"
  by (simp add: days_in_year_def)

lemma days_before_month_mono:
  assumes "m \<le> n" and "n \<le> 12" shows "days_before_month (leap_year y) m \<le> days_before_month (leap_year y) n"
  using assms
proof (induction n)
  case (Suc n)
  then have "n < 12" by simp
  then show ?case
    using Suc days_in_month_bounds [of n y] days_before_month_plus_days [of y n]
    by (cases "m = Suc n") auto
qed simp

lemma days_before_month_nonneg: "m \<le> 12 \<Longrightarrow> 0 \<le> days_before_month (leap_year y) m"
  using days_before_month_mono [of 0 m y] by simp

lemma month_of_yearday_unique:
  assumes "m < 12" and "days_before_month (leap_year y) m \<le> n"
    and "n < days_before_month (leap_year y) (Suc m)"
  shows "month_of_yearday (leap_year y) n = m"
proof -
  have n: "0 \<le> n" "n < (if leap_year y then 366 else 365)"
    using assms days_before_month_nonneg [of m y] days_before_month_mono [of "Suc m" 12 y]
    by (auto simp: days_in_year_def split: if_splits)
  let ?k = "month_of_yearday (leap_year y) n"
  note k = month_of_yearday_bounds [OF n]
  show ?thesis
  proof (rule ccontr)
    assume "?k \<noteq> m"
    then consider "Suc ?k \<le> m" | "Suc m \<le> ?k" by linarith
    then show False
    proof cases
      case 1
      then show False using days_before_month_mono [of "Suc ?k" m y] k assms by linarith
    next
      case 2
      then show False using days_before_month_mono [of "Suc m" ?k y] k assms by linarith
    qed
  qed
qed

section \<open>Civil dates and days\<close>

text \<open>A day of a month, written as a day number, is read back as that year, month and date.\<close>

lemma civil_of_make_day:
  assumes "m < 12" and "1 \<le> d" and "d \<le> days_in_month y m"
  shows "year_of_day (make_day y (int m) d) = y"
    and "month_of_day (make_day y (int m) d) = m"
    and "date_of_day (make_day y (int m) d) = d"
proof -
  have dm: "int m div 12 = 0" "int m mod 12 = int m" using assms(1) by auto
  have md: "make_day y (int m) d = day_from_year y + days_before_month (leap_year y) m + d - 1"
    unfolding make_day_def dm by simp
  have below: "days_before_month (leap_year y) m + d - 1 < days_before_month (leap_year y) (Suc m)"
    using assms(3) days_before_month_plus_days [of y m] by linarith
  then have "days_before_month (leap_year y) m + d - 1 < days_in_year y"
    using days_before_month_mono [of "Suc m" 12 y] assms(1) by (simp add: days_in_year_def)
  then show y: "year_of_day (make_day y (int m) d) = y"
    unfolding md using assms(1,2) days_before_month_nonneg [of m y] day_from_year_succ [of y]
    by (intro year_of_day_unique) auto
  show m: "month_of_day (make_day y (int m) d) = m"
    unfolding month_of_day_def y using assms(1,2) below
    by (intro month_of_yearday_unique) (auto simp: md)
  show "date_of_day (make_day y (int m) d) = d"
    unfolding date_of_day_def y m by (simp add: md)
qed

lemma make_day_of_civil: "make_day (year_of_day d) (int (month_of_day d)) (date_of_day d) = d"
  and month_of_day_less: "month_of_day d < 12"
  and date_of_day_bounds: "1 \<le> date_of_day d \<and> date_of_day d \<le> days_in_month (year_of_day d) (month_of_day d)"
proof -
  let ?y = "year_of_day d"
  have n: "0 \<le> d - day_from_year ?y" "d - day_from_year ?y < (if leap_year ?y then 366 else 365)"
    using year_of_day_bounds [of d] day_from_year_succ [of ?y]
    by (auto simp: days_in_year_def split: if_splits)
  note k = month_of_yearday_bounds [OF n, folded month_of_day_def]
  show m: "month_of_day d < 12" by (rule k(1))
  have "int (month_of_day d) div 12 = 0" "int (month_of_day d) mod 12 = int (month_of_day d)"
    using m by auto
  then show "make_day ?y (int (month_of_day d)) (date_of_day d) = d"
    by (simp add: make_day_def date_of_day_def)
  show "1 \<le> date_of_day d \<and> date_of_day d \<le> days_in_month ?y (month_of_day d)"
    using k by (simp add: date_of_day_def days_in_month_def)
qed

text \<open>A month that runs over is the month of a later year.\<close>

lemma make_day_carry: "make_day y m d = make_day (y + m div 12) (m mod 12) d"
  by (simp add: make_day_def)

lemma make_day_next_month:
  assumes "0 \<le> m" and "m < 12"
  shows "make_day y (m + 1) d = make_day y m d + days_in_month y (nat m)"
proof (cases "m = 11")
  case True
  then show ?thesis
    using day_from_year_succ [of y] by (simp add: make_day_def days_in_month_def days_in_year_def)
next
  case False
  then have "(m + 1) div 12 = 0" "(m + 1) mod 12 = m + 1" "m div 12 = 0" "m mod 12 = m"
    using assms by auto
  then show ?thesis
    using assms by (simp add: make_day_def days_in_month_def Suc_nat_eq_nat_zadd1 add.commute)
qed

section \<open>Instants\<close>

definition ms_per_day :: int where
  "ms_per_day = 86400000"

definition utc_year :: "int \<Rightarrow> int" where
  "utc_year t = year_of_day (t div ms_per_day)"

definition utc_month :: "int \<Rightarrow> int" where
  "utc_month t = int (month_of_day (t div ms_per_day))"

definition utc_date :: "int \<Rightarrow> int" where
  "utc_date t = date_of_day (t div ms_per_day)"

definition utc_weekday :: "int \<Rightarrow> nat" where
  "utc_weekday t = weekday_of_day (t div ms_per_day)"

definition utc_hours :: "int \<Rightarrow> int" where
  "utc_hours t = t mod ms_per_day div 3600000"

definition utc_minutes :: "int \<Rightarrow> int" where
  "utc_minutes t = t mod 3600000 div 60000"

definition utc_seconds :: "int \<Rightarrow> int" where
  "utc_seconds t = t mod 60000 div 1000"

definition utc_milliseconds :: "int \<Rightarrow> int" where
  "utc_milliseconds t = t mod 1000"

text \<open>\<open>Date.UTC\<close>: a year from 0 to 99 stands for 1900 to 1999.\<close>

definition date_utc :: "int \<Rightarrow> int \<Rightarrow> int \<Rightarrow> int \<Rightarrow> int \<Rightarrow> int \<Rightarrow> int \<Rightarrow> int" where
  "date_utc y mo d h mi s ms =
     (let y' = if 0 \<le> y \<and> y \<le> 99 then 1900 + y else y
      in make_day y' mo d * ms_per_day + (h * 3600000 + mi * 60000 + s * 1000 + ms))"

lemma time_of_day_parts:
  "utc_hours t * 3600000 + utc_minutes t * 60000 + utc_seconds t * 1000 + utc_milliseconds t
   = t mod ms_per_day"
proof -
  have a: "t mod ms_per_day = t mod ms_per_day div 3600000 * 3600000 + t mod ms_per_day mod 3600000" by simp
  have a': "t mod ms_per_day mod 3600000 = t mod 3600000"
    by (simp add: ms_per_day_def mod_mod_cancel)
  have b: "t mod 3600000 = t mod 3600000 div 60000 * 60000 + t mod 3600000 mod 60000" by simp
  have b': "t mod 3600000 mod 60000 = t mod 60000" by (simp add: mod_mod_cancel)
  have c: "t mod 60000 = t mod 60000 div 1000 * 1000 + t mod 60000 mod 1000" by simp
  have c': "t mod 60000 mod 1000 = t mod 1000" by (simp add: mod_mod_cancel)
  show ?thesis
    unfolding utc_hours_def utc_minutes_def utc_seconds_def utc_milliseconds_def
    using a a' b b' c c' by linarith
qed

lemma instant_split: "t div ms_per_day * ms_per_day + t mod ms_per_day = t"
  by simp

lemma instant_parts:
  assumes "0 \<le> r" and "r < ms_per_day"
  shows "(d * ms_per_day + r) div ms_per_day = d" and "(d * ms_per_day + r) mod ms_per_day = r"
  using assms by (auto simp: div_add1_eq)

lemma time_of_day_range: "0 \<le> t mod ms_per_day \<and> t mod ms_per_day < ms_per_day"
  by (simp add: ms_per_day_def)

end
