(* ===== verification/Alert_Evaluator.thy ===== *)
theory Alert_Evaluator
  imports Live_Collectors Process_Trend Calendar
begin

text \<open>
  The evaluator of alert rules (\<open>server/services/observability/alertEvaluator.ts\<close>): how each kind of rule reads
  the live monitoring, the debounced life of an incident in \<open>alert_events\<close>, and one pass over the enabled
  rules. The memory of the process (streaks per rule) and the table are explicit; a write that fails
  ends the pass with the state it left. The table is a list of rows; a row inserted under an id the
  table has is refused, as by its primary key.
\<close>

section \<open>Rules and readings\<close>

datatype rule_kind =
    Count_rule | Ratio_rule | P95_rule | P99_rule | Error_rate_rule | Process_avg_rule | Process_ratio_rule | Combined_rule

record alert_rule =
  ar_id :: string
  ar_slug :: string
  ar_kind :: rule_kind
  ar_metric :: "string option"
  ar_numerator :: "string option"
  ar_denominator :: "string option"
  ar_route_group :: "string option"
  ar_window :: int
  ar_warn :: rat
  ar_critical :: rat
  ar_min_sample :: int
  ar_subrules :: "string list option"
  ar_aggregation :: "string option"
  ar_enabled :: bool

datatype alert_severity = Critical | Warn | Resolved

record rule_eval =
  re_severity :: "alert_severity option"
  re_threshold :: "rat option"
  re_value :: rat
  re_sample :: "nat option"

text \<open>The queries of the monitoring the evaluator calls, as \<open>MonitoringCollector\<close> lists them.\<close>

record readings =
  rd_count :: "string \<Rightarrow> int \<Rightarrow> nat"
  rd_ratio :: "string \<Rightarrow> string \<Rightarrow> int \<Rightarrow> nat \<times> nat"
  rd_percentile :: "string \<Rightarrow> rat \<Rightarrow> int \<Rightarrow> rat \<times> nat"
  rd_error_rate :: "string \<Rightarrow> int \<Rightarrow> rat \<times> nat"
  rd_average :: "process_metric \<Rightarrow> int \<Rightarrow> rat option \<Rightarrow> rat \<times> nat"

text \<open>The one implementation of that interface, over the collectors of the process.\<close>

definition collector_readings :: "int \<Rightarrow> int \<Rightarrow> collector \<Rightarrow> perf_collector \<Rightarrow> process_trend \<Rightarrow> readings" where
  "collector_readings heap_limit now c p t =
     \<lparr>rd_count = (\<lambda>m w. query_count m (of_int w) now c),
      rd_ratio = (\<lambda>m n w. query_ratio m n (of_int w) now c),
      rd_percentile = (\<lambda>g pct w. query_percentile g pct (of_int w) now p),
      rd_error_rate = (\<lambda>g w. query_error_rate g (of_int w) now p),
      rd_average = (\<lambda>m w b. query_average heap_limit now m w b t)\<rparr>"

definition classify_threshold :: "rat \<Rightarrow> alert_rule \<Rightarrow> alert_severity option \<times> rat option" where
  "classify_threshold v r =
     (if ar_critical r \<le> v then (Some Critical, Some (ar_critical r))
      else if ar_warn r \<le> v then (Some Warn, Some (ar_warn r))
      else (None, None))"

definition classified :: "alert_rule \<Rightarrow> rat \<Rightarrow> nat option \<Rightarrow> rule_eval" where
  "classified r v sample =
     \<lparr>re_severity = fst (classify_threshold v r), re_threshold = snd (classify_threshold v r), re_value = v, re_sample = sample\<rparr>"

definition no_verdict :: "nat option \<Rightarrow> rule_eval" where
  "no_verdict sample = \<lparr>re_severity = None, re_threshold = None, re_value = 0, re_sample = sample\<rparr>"

text \<open>A reading counts only with the rule's minimum of samples, and with one at least.\<close>

definition sampled :: "alert_rule \<Rightarrow> rat \<times> nat \<Rightarrow> rule_eval" where
  "sampled r reading =
     (if int (snd reading) < max (ar_min_sample r) 1 then no_verdict (Some (snd reading))
      else classified r (fst reading) (Some (snd reading)))"

definition or_empty :: "string option \<Rightarrow> string" where
  "or_empty o' = (case o' of None \<Rightarrow> [] | Some t \<Rightarrow> t)"

definition average_metric :: "string option \<Rightarrow> process_metric option" where
  "average_metric m =
     (if m = Some ''event_loop_lag_ms'' then Some Event_loop_lag_ms
      else if m = Some ''rss_pct_of_budget'' then Some Rss_pct_of_budget else None)"

definition ratio_metric :: "string option \<Rightarrow> process_metric option" where
  "ratio_metric m =
     (if m = Some ''heap_used_over_total'' then Some Heap_used_over_total
      else if m = Some ''heap_used_over_limit'' then Some Heap_used_over_limit else None)"

definition evaluate_sync_rule :: "readings \<Rightarrow> rat \<Rightarrow> alert_rule \<Rightarrow> rule_eval" where
  "evaluate_sync_rule rd budget r =
     (case ar_kind r of
        Count_rule \<Rightarrow> classified r (of_nat (rd_count rd (or_empty (ar_metric r)) (ar_window r))) None
      | Ratio_rule \<Rightarrow>
          (let (num, den) = rd_ratio rd (or_empty (ar_numerator r)) (or_empty (ar_denominator r)) (ar_window r)
           in if den = 0 \<or> int den < ar_min_sample r then no_verdict (Some den)
              else classified r (of_nat num / of_nat den) (Some den))
      | P95_rule \<Rightarrow> sampled r (rd_percentile rd (or_empty (ar_route_group r)) 95 (ar_window r))
      | P99_rule \<Rightarrow> sampled r (rd_percentile rd (or_empty (ar_route_group r)) 99 (ar_window r))
      | Error_rate_rule \<Rightarrow> sampled r (rd_error_rate rd (or_empty (ar_route_group r)) (ar_window r))
      | Process_avg_rule \<Rightarrow>
          (case average_metric (ar_metric r) of
             None \<Rightarrow> no_verdict (Some 0)
           | Some m \<Rightarrow> sampled r (rd_average rd m (ar_window r) (Some budget)))
      | Process_ratio_rule \<Rightarrow>
          (case ratio_metric (ar_metric r) of
             None \<Rightarrow> no_verdict (Some 0)
           | Some m \<Rightarrow> sampled r (rd_average rd m (ar_window r) None))
      | Combined_rule \<Rightarrow> no_verdict None)"

section \<open>Incidents\<close>

datatype webhook_status = Wh_pending | Wh_delivered | Wh_failed | Wh_disabled

record alert_event =
  ae_id :: string
  ae_rule :: "string option"
  ae_slug :: "string option"
  ae_open :: bool
  ae_severity :: alert_severity
  ae_value :: "rat option"
  ae_threshold :: "rat option"
  ae_window :: int
  ae_sample :: "nat option"
  ae_details :: jsval
  ae_fired_at :: int
  ae_resolved_at :: "int option"
  ae_webhook :: webhook_status
  ae_attempts :: nat
  ae_last_attempt :: "int option"
  ae_last_error :: "string option"

record open_entry =
  oe_id :: string
  oe_rule :: string
  oe_slug :: "string option"
  oe_severity :: alert_severity
  oe_value :: "rat option"
  oe_threshold :: "rat option"
  oe_sample :: "nat option"
  oe_details :: jsval
  oe_fired_at :: int

type_synonym open_index = "(string \<times> open_entry) list"

definition entry_of :: "string \<Rightarrow> alert_event \<Rightarrow> open_entry" where
  "entry_of rid e =
     \<lparr>oe_id = ae_id e, oe_rule = rid, oe_slug = ae_slug e, oe_severity = ae_severity e, oe_value = ae_value e,
      oe_threshold = ae_threshold e, oe_sample = ae_sample e, oe_details = ae_details e, oe_fired_at = ae_fired_at e\<rparr>"

definition index_row :: "alert_event \<Rightarrow> open_index \<Rightarrow> open_index" where
  "index_row e index =
     (case ae_rule e of
        None \<Rightarrow> index
      | Some rid \<Rightarrow> if map_of index rid = None then index @ [(rid, entry_of rid e)] else index)"

text \<open>\<open>loadOpenAlertIndex\<close>: the open rows, newest first, the first one of each rule.\<close>

definition load_open_index :: "alert_event list \<Rightarrow> open_index" where
  "load_open_index es = fold index_row (sort_key (\<lambda>e. - ae_fired_at e) (filter ae_open es)) []"

definition evaluate_combined_rule :: "open_index \<Rightarrow> alert_rule \<Rightarrow> rule_eval" where
  "evaluate_combined_rule index r =
     (let subrules = (case ar_subrules r of None \<Rightarrow> [] | Some ss \<Rightarrow> ss);
          slugs = filter (\<lambda>s. s \<in> set subrules) (List.map_filter (\<lambda>(k, e). oe_slug e) index)
      in classified r (of_nat (length (remdups slugs))) (Some (length subrules)))"

section \<open>Details of an incident\<close>

text \<open>\<open>toISOString\<close>.\<close>

definition iso_text :: "int \<Rightarrow> string" where
  "iso_text t =
     (let y = utc_year t; two = (\<lambda>n. pad_left 2 (show_int n));
          year = (if 0 \<le> y \<and> y \<le> 9999 then pad_left 4 (show_int y)
                  else (if y < 0 then ''-'' else ''+'') @ pad_left 6 (show_int \<bar>y\<bar>))
      in year @ ''-'' @ two (utc_month t + 1) @ ''-'' @ two (utc_date t) @ ''T'' @ two (utc_hours t) @ '':'' @ two (utc_minutes t)
           @ '':'' @ two (utc_seconds t) @ ''.'' @ pad_left 3 (show_int (utc_milliseconds t)) @ ''Z'')"

fun kind_text :: "rule_kind \<Rightarrow> string" where
  "kind_text Count_rule = ''count''"
| "kind_text Ratio_rule = ''ratio''"
| "kind_text P95_rule = ''perf_p95''"
| "kind_text P99_rule = ''perf_p99''"
| "kind_text Error_rate_rule = ''perf_error_rate''"
| "kind_text Process_avg_rule = ''process_avg''"
| "kind_text Process_ratio_rule = ''process_ratio''"
| "kind_text Combined_rule = ''combined''"

fun severity_text :: "alert_severity \<Rightarrow> string" where
  "severity_text Critical = ''critical''"
| "severity_text Warn = ''warn''"
| "severity_text Resolved = ''resolved''"

definition text_json :: "string option \<Rightarrow> jsval" where
  "text_json o' = (case o' of None \<Rightarrow> Null | Some t \<Rightarrow> JStr t)"

definition number_json :: "rat option \<Rightarrow> jsval" where
  "number_json o' = (case o' of None \<Rightarrow> Null | Some q \<Rightarrow> JNum (Fin q))"

definition sample_json :: "nat option \<Rightarrow> jsval" where
  "sample_json o' = number_json (map_option of_nat o')"

text \<open>What \<open>...(details && typeof details === 'object' ? details : {})\<close> spreads.\<close>

definition details_props :: "jsval \<Rightarrow> (string \<times> jsval) list" where
  "details_props d = (case d of JObj m \<Rightarrow> m | JArr xs \<Rightarrow> zip (map show_nat [0..<length xs]) xs | _ \<Rightarrow> [])"

definition opening_details :: "int \<Rightarrow> alert_rule \<Rightarrow> alert_severity \<Rightarrow> rule_eval \<Rightarrow> jsval" where
  "opening_details now r sev res =
     JObj [(''kind'', JStr (kind_text (ar_kind r))), (''metric'', text_json (ar_metric r)),
           (''numerator'', text_json (ar_numerator r)), (''denominator'', text_json (ar_denominator r)),
           (''route_group'', text_json (ar_route_group r)), (''aggregation'', text_json (ar_aggregation r)),
           (''subrules'', case ar_subrules r of None \<Rightarrow> Null | Some ss \<Rightarrow> JArr (map JStr ss)),
           (''opened'', JObj [(''at'', JStr (iso_text now)), (''severity'', JStr (severity_text sev)),
              (''metric_value'', number_json (Some (re_value res))), (''threshold_value'', number_json (re_threshold res)),
              (''sample_size'', sample_json (re_sample res))])]"

definition MAX_TRANSITIONS :: nat where "MAX_TRANSITIONS = 20"

definition prior_transitions :: "jsval \<Rightarrow> jsval list" where
  "prior_transitions d = (case get_prop d ''transitions'' of JArr xs \<Rightarrow> xs | _ \<Rightarrow> [])"

definition last_items :: "nat \<Rightarrow> 'a list \<Rightarrow> 'a list" where
  "last_items n xs = drop (length xs - n) xs"

definition transition_details :: "int \<Rightarrow> alert_severity \<Rightarrow> alert_severity \<Rightarrow> rule_eval \<Rightarrow> jsval \<Rightarrow> jsval" where
  "transition_details now old new res d =
     JObj (AList.update ''transitions''
       (JArr (last_items (MAX_TRANSITIONS - 1) (prior_transitions d)
          @ [JObj [(''at'', JStr (iso_text now)), (''from_severity'', JStr (severity_text old)),
               (''to_severity'', JStr (severity_text new)), (''metric_value'', number_json (Some (re_value res))),
               (''threshold_value'', number_json (re_threshold res)), (''sample_size'', sample_json (re_sample res))]]))
       (details_props d))"

definition resolution_details :: "int \<Rightarrow> rule_eval \<Rightarrow> jsval \<Rightarrow> jsval" where
  "resolution_details now res d =
     JObj (AList.update ''resolved''
       (JObj [(''at'', JStr (iso_text now)), (''metric_value'', number_json (Some (re_value res))),
          (''sample_size'', sample_json (re_sample res))])
       (details_props d))"

section \<open>The life of an incident\<close>

record flap = breach :: nat clear :: nat

definition no_flap :: flap where "no_flap = \<lparr>breach = 0, clear = 0\<rparr>"

definition OPEN_STREAK :: nat where "OPEN_STREAK = 3"
definition CLEAR_STREAK :: nat where "CLEAR_STREAK = 3"

text \<open>The streaks of the process, the table, and the index of a pass.\<close>

record alert_state =
  flaps :: "string \<Rightarrow> flap"
  events :: "alert_event list"
  index :: open_index

text \<open>
  What surrounds a pass: the clock, the ids the database draws, and whether the write for a rule is
  accepted; the answers of the reads.
\<close>

record alert_env =
  en_now :: int
  en_new_id :: "string \<Rightarrow> string"
  en_write_ok :: "string \<Rightarrow> bool"
  en_index_ok :: bool
  en_rules :: "alert_rule list option"
  en_budget_mb :: "rat option"

definition set_flap :: "string \<Rightarrow> flap \<Rightarrow> alert_state \<Rightarrow> alert_state" where
  "set_flap rid f s = s\<lparr>flaps := (flaps s)(rid := f)\<rparr>"

definition update_event :: "string \<Rightarrow> (alert_event \<Rightarrow> alert_event) \<Rightarrow> alert_event list \<Rightarrow> alert_event list" where
  "update_event eid f = map (\<lambda>e. if ae_id e = eid then f e else e)"

definition opened_event :: "alert_env \<Rightarrow> alert_rule \<Rightarrow> alert_severity \<Rightarrow> rule_eval \<Rightarrow> alert_event" where
  "opened_event env r sev res =
     \<lparr>ae_id = en_new_id env (ar_id r), ae_rule = Some (ar_id r), ae_slug = Some (ar_slug r), ae_open = True,
      ae_severity = sev, ae_value = Some (re_value res), ae_threshold = re_threshold res, ae_window = ar_window r,
      ae_sample = re_sample res, ae_details = opening_details (en_now env) r sev res, ae_fired_at = en_now env,
      ae_resolved_at = None, ae_webhook = Wh_pending, ae_attempts = 0, ae_last_attempt = None, ae_last_error = None\<rparr>"

text \<open>The columns an update of the severity and of the state sets, and the refreshed entry of the index.\<close>

definition changed_event :: "alert_severity \<Rightarrow> rule_eval \<Rightarrow> jsval \<Rightarrow> alert_event \<Rightarrow> alert_event" where
  "changed_event sev res d e =
     e\<lparr>ae_severity := sev, ae_value := Some (re_value res), ae_threshold := re_threshold res, ae_sample := re_sample res,
       ae_details := d, ae_webhook := Wh_pending\<rparr>"

definition changed_entry :: "alert_severity \<Rightarrow> rule_eval \<Rightarrow> jsval \<Rightarrow> open_entry \<Rightarrow> open_entry" where
  "changed_entry sev res d oe =
     oe\<lparr>oe_severity := sev, oe_value := Some (re_value res), oe_threshold := re_threshold res, oe_sample := re_sample res,
       oe_details := d\<rparr>"

definition resolved_event :: "int \<Rightarrow> rule_eval \<Rightarrow> jsval \<Rightarrow> alert_event \<Rightarrow> alert_event" where
  "resolved_event now res d e =
     e\<lparr>ae_open := False, ae_severity := Resolved, ae_resolved_at := Some now, ae_value := Some (re_value res),
       ae_sample := re_sample res, ae_details := d, ae_webhook := Wh_pending\<rparr>"

datatype alert_failure = Open_failed string | Severity_failed string string | Resolve_failed string string | Read_failed

text \<open>A verdict that the threshold is crossed.\<close>

definition apply_breach :: "alert_env \<Rightarrow> alert_rule \<Rightarrow> alert_severity \<Rightarrow> rule_eval \<Rightarrow> alert_state \<Rightarrow> (alert_failure + bool) \<times> alert_state" where
  "apply_breach env r sev res s0 =
     (let rid = ar_id r;
          s = set_flap rid \<lparr>breach = Suc (breach (flaps s0 rid)), clear = 0\<rparr> s0
      in case map_of (index s) rid of
           None \<Rightarrow>
             if breach (flaps s rid) < OPEN_STREAK then (Inr False, s)
             else (let e = opened_event env r sev res
                   in if en_write_ok env rid \<and> ae_id e \<notin> ae_id ` set (events s)
                      then (Inr True, s\<lparr>events := events s @ [e], index := AList.update rid (entry_of rid e) (index s)\<rparr>)
                      else (Inl (Open_failed (ar_slug r)), s))
         | Some oe \<Rightarrow>
             if oe_severity oe = sev then (Inr False, s)
             else (let d = transition_details (en_now env) (oe_severity oe) sev res (oe_details oe)
                   in if en_write_ok env rid
                      then (Inr True, s\<lparr>events := update_event (oe_id oe) (changed_event sev res d) (events s),
                              index := AList.update rid (changed_entry sev res d oe) (index s)\<rparr>)
                      else (Inl (Severity_failed (ar_slug r) (oe_id oe)), s)))"

text \<open>A verdict that it is not.\<close>

definition apply_clear :: "alert_env \<Rightarrow> alert_rule \<Rightarrow> rule_eval \<Rightarrow> alert_state \<Rightarrow> (alert_failure + bool) \<times> alert_state" where
  "apply_clear env r res s0 =
     (let rid = ar_id r
      in case map_of (index s0) rid of
           None \<Rightarrow> (Inr False, set_flap rid no_flap s0)
         | Some oe \<Rightarrow>
             (let s = set_flap rid \<lparr>breach = 0, clear = Suc (clear (flaps s0 rid))\<rparr> s0
              in if clear (flaps s rid) < CLEAR_STREAK then (Inr False, s)
                 else if en_write_ok env rid
                 then (Inr True,
                   set_flap rid no_flap (s\<lparr>events :=
                       update_event (oe_id oe) (resolved_event (en_now env) res (resolution_details (en_now env) res (oe_details oe))) (events s),
                     index := AList.delete rid (index s)\<rparr>))
                 else (Inl (Resolve_failed (ar_slug r) (oe_id oe)), s)))"

definition apply_rule_result :: "alert_env \<Rightarrow> alert_rule \<Rightarrow> rule_eval \<Rightarrow> alert_state \<Rightarrow> (alert_failure + bool) \<times> alert_state" where
  "apply_rule_result env r res s =
     (case re_severity res of Some sev \<Rightarrow> apply_breach env r sev res s | None \<Rightarrow> apply_clear env r res s)"

section \<open>One pass\<close>

definition evaluate_rule_kind :: "readings \<Rightarrow> rat \<Rightarrow> open_index \<Rightarrow> alert_rule \<Rightarrow> rule_eval" where
  "evaluate_rule_kind rd budget ix r =
     (if ar_kind r = Combined_rule then evaluate_combined_rule ix r else evaluate_sync_rule rd budget r)"

fun run_rules :: "alert_env \<Rightarrow> readings \<Rightarrow> rat \<Rightarrow> alert_rule list \<Rightarrow> nat \<times> nat \<Rightarrow> alert_state \<Rightarrow> (alert_failure + nat \<times> nat) \<times> alert_state" where
  "run_rules env rd budget [] counts s = (Inr counts, s)"
| "run_rules env rd budget (r # rs) counts s =
     (case apply_rule_result env r (evaluate_rule_kind rd budget (index s) r) s of
        (Inl e, s') \<Rightarrow> (Inl e, s')
      | (Inr changed, s') \<Rightarrow> run_rules env rd budget rs (Suc (fst counts), snd counts + (if changed then 1 else 0)) s')"

definition ordered_rules :: "alert_rule list \<Rightarrow> alert_rule list" where
  "ordered_rules rs = filter (\<lambda>r. ar_kind r \<noteq> Combined_rule) rs @ filter (\<lambda>r. ar_kind r = Combined_rule) rs"

definition budget_bytes :: "rat option \<Rightarrow> rat" where
  "budget_bytes mb = (case mb of None \<Rightarrow> 512 | Some m \<Rightarrow> if m = 0 then 512 else m) * 1024 * 1024"

text \<open>\<open>evaluateAlertRulesInMemory\<close>: how many rules were evaluated and how many changed the table.\<close>

definition evaluate_alert_rules :: "alert_env \<Rightarrow> readings \<Rightarrow> alert_state \<Rightarrow> (alert_failure + nat \<times> nat) \<times> alert_state" where
  "evaluate_alert_rules env rd s =
     (case en_rules env of
        None \<Rightarrow> (Inl Read_failed, s)
      | Some rules \<Rightarrow>
          if \<not> en_index_ok env then (Inl Read_failed, s)
          else run_rules env rd (budget_bytes (en_budget_mb env)) (ordered_rules (filter ar_enabled rules)) (0, 0)
                 (s\<lparr>index := load_open_index (events s)\<rparr>))"

section \<open>The table and the index\<close>

definition open_for :: "string \<Rightarrow> alert_event \<Rightarrow> bool" where
  "open_for rid e \<longleftrightarrow> ae_open e \<and> ae_rule e = Some rid"

text \<open>Ids are a key, and no rule has two open incidents.\<close>

definition table_ok :: "alert_event list \<Rightarrow> bool" where
  "table_ok es \<longleftrightarrow> distinct (map ae_id es) \<and> (\<forall>rid. length (filter (open_for rid) es) \<le> 1)"

definition mirrors :: "open_index \<Rightarrow> alert_event list \<Rightarrow> bool" where
  "mirrors ix es \<longleftrightarrow>
     distinct (map fst ix) \<and> (\<forall>rid. map_of ix rid = map_option (entry_of rid) (List.find (open_for rid) es))"

lemma mirrorsI:
  "distinct (map fst ix) \<Longrightarrow> (\<And>rid. map_of ix rid = map_option (entry_of rid) (List.find (open_for rid) es)) \<Longrightarrow> mirrors ix es"
  by (simp add: mirrors_def)

lemma mirrorsD: "mirrors ix es \<Longrightarrow> map_of ix rid = map_option (entry_of rid) (List.find (open_for rid) es)"
  by (simp add: mirrors_def)

lemma find_filter_hd: "List.find P xs = (case filter P xs of [] \<Rightarrow> None | x # _ \<Rightarrow> Some x)"
  by (induction xs) auto

lemma sort_key_single: "length xs \<le> 1 \<Longrightarrow> sort_key f xs = xs"
  by (cases xs) (auto simp: length_Suc_conv)

lemma map_of_index_row:
  "map_of (index_row e ix) rid =
     (case map_of ix rid of Some oe \<Rightarrow> Some oe | None \<Rightarrow> if ae_rule e = Some rid then Some (entry_of rid e) else None)"
  by (auto simp: index_row_def map_add_def split: option.split)

lemma map_of_index_rows:
  "map_of (fold index_row es ix) rid =
     (case map_of ix rid of Some oe \<Rightarrow> Some oe | None \<Rightarrow> map_option (entry_of rid) (List.find (\<lambda>e. ae_rule e = Some rid) es))"
proof (induction es arbitrary: ix)
  case (Cons e es)
  show ?case by (simp add: Cons map_of_index_row split: option.split)
qed (simp split: option.split)

lemma index_rows_distinct: "distinct (map fst ix) \<Longrightarrow> distinct (map fst (fold index_row es ix))"
  by (induction es arbitrary: ix) (auto simp: index_row_def map_of_eq_None_iff split: option.split)

lemma load_open_index_mirrors:
  assumes ok: "table_ok es"
  shows "mirrors (load_open_index es) es"
proof (rule mirrorsI)
  show "distinct (map fst (load_open_index es))" by (simp add: load_open_index_def index_rows_distinct)
  fix rid
  let ?P = "\<lambda>e. ae_rule e = Some rid" and ?xs = "sort_key (\<lambda>e. - ae_fired_at e) (filter ae_open es)"
  have "filter ?P ?xs = sort_key (\<lambda>e. - ae_fired_at e) (filter (open_for rid) es)"
    by (simp add: filter_sort open_for_def [abs_def] conj_commute)
  then have "filter ?P ?xs = filter (open_for rid) es"
    using ok by (simp add: sort_key_single table_ok_def)
  then show "map_of (load_open_index es) rid = map_option (entry_of rid) (List.find (open_for rid) es)"
    by (simp add: load_open_index_def map_of_index_rows find_filter_hd)
qed

text \<open>Changing the row of an open incident.\<close>

lemma update_event_ids: "(\<And>e. ae_id (f e) = ae_id e) \<Longrightarrow> map ae_id (update_event eid f es) = map ae_id es"
  by (simp add: update_event_def)

lemma update_event_other: "e \<in> set es \<Longrightarrow> ae_id e \<noteq> eid \<Longrightarrow> e \<in> set (update_event eid f es)"
  by (force simp: update_event_def)

lemma update_event_absent: "eid \<notin> ae_id ` set es \<Longrightarrow> update_event eid f es = es"
  by (induction es) (auto simp: update_event_def)

lemma update_event_split:
  assumes "distinct (map ae_id (as @ e # bs))"
  shows "update_event (ae_id e) f (as @ e # bs) = as @ f e # bs"
  using assms update_event_absent [of "ae_id e" as f] update_event_absent [of "ae_id e" bs f]
  by (auto simp: update_event_def)

lemma filter_single_split:
  assumes "length (filter P (as @ e # bs)) \<le> 1" and "P e"
  shows "filter P as = [] \<and> filter P bs = []"
  using assms by simp

lemma indexed_row:
  assumes m: "mirrors (index s) (events s)" and ok: "table_ok (events s)" and i: "map_of (index s) rid = Some oe"
  obtains as e bs where "events s = as @ e # bs" and "open_for rid e" and "oe = entry_of rid e"
    and "List.find (open_for rid) (events s) = Some e"
    and "filter (open_for rid) as = []" and "filter (open_for rid) bs = []"
proof -
  have "map_option (entry_of rid) (List.find (open_for rid) (events s)) = Some oe"
    using mirrorsD [OF m, of rid] i by simp
  then obtain e where e: "List.find (open_for rid) (events s) = Some e" "oe = entry_of rid e" by auto
  then have "e \<in> set (events s)" "open_for rid e" by (auto dest: find_Some_D)
  then obtain as bs where split: "events s = as @ e # bs" by (meson split_list)
  have "length (filter (open_for rid) (as @ e # bs)) \<le> 1" using ok split by (simp only: table_ok_def)
  then have "filter (open_for rid) as = [] \<and> filter (open_for rid) bs = []"
    using \<open>open_for rid e\<close> by (rule filter_single_split)
  then show thesis using that split e \<open>open_for rid e\<close> by blast
qed

lemma open_for_other: "open_for rid e \<Longrightarrow> rid' \<noteq> rid \<Longrightarrow> \<not> open_for rid' e"
  by (simp add: open_for_def)

lemma oe_id_of: "oe = entry_of rid e \<Longrightarrow> oe_id oe = ae_id e"
  by (simp add: entry_of_def)

lemma oe_severity_entry: "oe_severity (entry_of rid e) = ae_severity e"
  by (simp add: entry_of_def)

lemma changed_event_simps [simp]:
  "ae_id (changed_event sev res d e) = ae_id e" "open_for rid (changed_event sev res d e) = open_for rid e"
  "ae_severity (changed_event sev res d e) = sev" "ae_details (changed_event sev res d e) = d"
  "entry_of rid (changed_event sev res d e) = changed_entry sev res d (entry_of rid e)"
  by (simp_all add: changed_event_def changed_entry_def open_for_def entry_of_def)

lemma resolved_event_simps [simp]:
  "ae_id (resolved_event now res d e) = ae_id e" "\<not> ae_open (resolved_event now res d e)"
  "\<not> open_for rid (resolved_event now res d e)" "ae_severity (resolved_event now res d e) = Resolved"
  "ae_resolved_at (resolved_event now res d e) = Some now"
  by (simp_all add: resolved_event_def open_for_def)

text \<open>A row replaced by one of the same id that is open for the same rule, or not open any more.\<close>

lemma replace_row_ok:
  assumes ok: "table_ok (as @ e # bs)" and e: "open_for rid e" and id: "ae_id e' = ae_id e"
    and e': "\<And>r. r \<noteq> rid \<Longrightarrow> \<not> open_for r e'"
  shows "table_ok (as @ e' # bs)"
proof -
  have "length (filter (open_for r) (as @ e' # bs)) \<le> 1" for r
  proof (cases "r = rid")
    case True
    have "length (filter (open_for rid) (as @ e # bs)) \<le> 1" using ok by (simp only: table_ok_def)
    then show ?thesis using True e by simp
  next
    case False
    have "length (filter (open_for r) (as @ e # bs)) \<le> 1" using ok by (simp only: table_ok_def)
    then show ?thesis using False e' open_for_other [OF e False] by simp
  qed
  then show ?thesis using ok id by (simp add: table_ok_def)
qed

lemma replace_row_mirrors:
  assumes m: "mirrors ix (as @ e # bs)" and e: "open_for rid e"
    and none: "filter (open_for rid) as = []" "filter (open_for rid) bs = []"
    and e': "\<And>r. r \<noteq> rid \<Longrightarrow> \<not> open_for r e'"
    and d: "distinct (map fst ix')" and ix': "map_of ix' = (map_of ix)(rid := (if open_for rid e' then Some (entry_of rid e') else None))"
  shows "mirrors ix' (as @ e' # bs)"
proof (rule mirrorsI [OF d])
  fix r
  show "map_of ix' r = map_option (entry_of r) (List.find (open_for r) (as @ e' # bs))"
  proof (cases "r = rid")
    case True
    then show ?thesis using none ix' by (simp add: find_filter_hd)
  next
    case False
    have "map_of ix r = map_option (entry_of r) (List.find (open_for r) (as @ e # bs))" using m by (rule mirrorsD)
    then show ?thesis using False e' open_for_other [OF e False] ix' by (simp add: find_filter_hd)
  qed
qed

text \<open>What a result does to a state whose index mirrors its table.\<close>

definition state_ok :: "alert_state \<Rightarrow> bool" where
  "state_ok s \<longleftrightarrow> table_ok (events s) \<and> mirrors (index s) (events s)"

definition breaches_of :: "string \<Rightarrow> alert_state \<Rightarrow> nat" where "breaches_of rid s = breach (flaps s rid)"
definition clears_of :: "string \<Rightarrow> alert_state \<Rightarrow> nat" where "clears_of rid s = clear (flaps s rid)"

lemma set_flap_simps [simp]:
  "events (set_flap rid f s) = events s" "index (set_flap rid f s) = index s" "flaps (set_flap rid f s) = (flaps s)(rid := f)"
  by (simp_all add: set_flap_def)

lemma transitions_after: "length (prior_transitions (transition_details now old new res d)) \<le> MAX_TRANSITIONS"
  by (simp add: prior_transitions_def transition_details_def last_items_def MAX_TRANSITIONS_def update_conv')

text \<open>The three changes of the table, each with what it needs.\<close>

definition lifecycle_change :: "alert_env \<Rightarrow> alert_rule \<Rightarrow> rule_eval \<Rightarrow> alert_state \<Rightarrow> alert_state \<Rightarrow> bool" where
  "lifecycle_change env r res s s' =
     (case List.find (open_for (ar_id r)) (events s) of
        None \<Rightarrow>
          (case re_severity res of
             None \<Rightarrow> False
           | Some sev \<Rightarrow> events s' = events s @ [opened_event env r sev res] \<and> OPEN_STREAK \<le> Suc (breaches_of (ar_id r) s))
      | Some e \<Rightarrow>
          (\<exists>as bs e'. events s = as @ e # bs \<and> events s' = as @ e' # bs \<and> ae_id e' = ae_id e
             \<and> (case re_severity res of
                  Some sev \<Rightarrow> sev \<noteq> ae_severity e \<and> open_for (ar_id r) e' \<and> ae_severity e' = sev
                            \<and> length (prior_transitions (ae_details e')) \<le> MAX_TRANSITIONS
                | None \<Rightarrow> \<not> ae_open e' \<and> ae_severity e' = Resolved \<and> ae_resolved_at e' = Some (en_now env)
                            \<and> CLEAR_STREAK \<le> Suc (clears_of (ar_id r) s))))"

lemma breach_result:
  assumes ok: "state_ok s" and sev: "re_severity res = Some sev" and a: "apply_breach env r sev res s = (x, s')"
  shows "state_ok s'" and "flaps s' = (flaps s)(ar_id r := \<lparr>breach = Suc (breaches_of (ar_id r) s), clear = 0\<rparr>)"
    and "if x = Inr True then lifecycle_change env r res s s' else events s' = events s"
proof -
  let ?rid = "ar_id r"
  have t: "table_ok (events s)" and m: "mirrors (index s) (events s)" using ok by (simp_all add: state_ok_def)
  have *: "state_ok s' \<and> flaps s' = (flaps s)(?rid := \<lparr>breach = Suc (breaches_of ?rid s), clear = 0\<rparr>)
    \<and> (if x = Inr True then lifecycle_change env r res s s' else events s' = events s)"
  proof (cases "map_of (index s) ?rid")
    case None
    then have none: "List.find (open_for ?rid) (events s) = None" using mirrorsD [OF m, of ?rid] by simp
    let ?e = "opened_event env r sev res"
    have e: "open_for ?rid ?e" "\<And>r'. r' \<noteq> ?rid \<Longrightarrow> \<not> open_for r' ?e" by (simp_all add: open_for_def opened_event_def)
    have f: "filter (open_for ?rid) (events s) = []" using none by (simp add: find_filter_hd split: list.splits)
    have "state_ok s'" if "events s' = events s @ [?e]" "ae_id ?e \<notin> ae_id ` set (events s)"
      "index s' = AList.update ?rid (entry_of ?rid ?e) (index s)"
    proof -
      have "length (filter (open_for r') (events s @ [?e])) \<le> 1" for r'
      proof (cases "r' = ?rid")
        case True
        then show ?thesis using f by simp
      next
        case False
        have "length (filter (open_for r') (events s)) \<le> 1" using t by (simp only: table_ok_def)
        then show ?thesis using e(2) [OF False] by simp
      qed
      moreover have "mirrors (index s') (events s @ [?e])"
      proof (rule mirrorsI)
        show "distinct (map fst (index s'))" using m that(3) by (simp add: mirrors_def distinct_update)
        fix r'
        have old: "map_of (index s) r' = map_option (entry_of r') (List.find (open_for r') (events s))"
          using m by (rule mirrorsD)
        show "map_of (index s') r' = map_option (entry_of r') (List.find (open_for r') (events s @ [?e]))"
          using old that(3) e f by (cases "r' = ?rid") (simp_all add: find_filter_hd update_conv')
      qed
      ultimately show ?thesis using that t by (simp add: state_ok_def table_ok_def)
    qed
    then show ?thesis
      using a None sev none ok
      by (auto simp: apply_breach_def Let_def lifecycle_change_def breaches_of_def state_ok_def not_less split: if_splits)
  next
    case (Some oe)
    obtain as e bs where row: "events s = as @ e # bs" "open_for ?rid e" "oe = entry_of ?rid e"
        "List.find (open_for ?rid) (events s) = Some e" "filter (open_for ?rid) as = []" "filter (open_for ?rid) bs = []"
      using indexed_row [OF m t Some] by blast
    let ?d = "transition_details (en_now env) (oe_severity oe) sev res (oe_details oe)"
    let ?e = "changed_event sev res ?d e" and ?ix = "AList.update ?rid (changed_entry sev res ?d oe) (index s)"
    have fe: "open_for ?rid ?e" "\<And>r'. r' \<noteq> ?rid \<Longrightarrow> \<not> open_for r' ?e"
      using row(2) by (simp_all add: open_for_other [OF row(2)])
    have ids: "distinct (map ae_id (as @ e # bs))" using t row(1) by (simp only: table_ok_def)
    have upd: "update_event (oe_id oe) (changed_event sev res ?d) (events s) = as @ ?e # bs"
      unfolding row(1) oe_id_of [OF row(3)] by (rule update_event_split [OF ids])
    have "table_ok (as @ ?e # bs)"
      by (rule replace_row_ok [OF _ row(2) _ fe(2)]) (use t row(1) in simp_all)
    moreover have "mirrors ?ix (as @ ?e # bs)"
    proof (rule replace_row_mirrors [OF _ row(2,5,6) fe(2)])
      show "mirrors (index s) (as @ e # bs)" using m row(1) by simp
      show "distinct (map fst ?ix)" using m by (simp add: mirrors_def distinct_update)
      show "map_of ?ix = (map_of (index s))(?rid := if open_for ?rid ?e then Some (entry_of ?rid ?e) else None)"
        using fe(1) unfolding row(3) by (simp add: update_conv')
    qed
    ultimately have ok': "state_ok s'" if "events s' = as @ ?e # bs" "index s' = ?ix" using that by (simp add: state_ok_def)
    have change: "lifecycle_change env r res s s'" if "events s' = as @ ?e # bs" "oe_severity oe \<noteq> sev"
      unfolding lifecycle_change_def row(4) option.case sev
      by (rule exI [of _ as], rule exI [of _ bs], rule exI [of _ ?e])
        (use that row(1,3) fe(1) transitions_after in \<open>auto simp: oe_severity_entry\<close>)
    let ?s1 = "set_flap ?rid \<lparr>breach = Suc (breaches_of ?rid s), clear = 0\<rparr> s"
    have "(if oe_severity oe = sev then (Inr False, ?s1)
           else if en_write_ok env ?rid then (Inr True, ?s1\<lparr>events := as @ ?e # bs, index := ?ix\<rparr>)
           else (Inl (Severity_failed (ar_slug r) (oe_id oe)), ?s1)) = (x, s')"
      using a Some upd by (simp add: apply_breach_def Let_def breaches_of_def cong: if_cong)
    moreover have "state_ok ?s1" using ok by (simp add: state_ok_def)
    ultimately show ?thesis
      using ok' change by (cases "oe_severity oe = sev"; cases "en_write_ok env ?rid") auto
  qed
  then show "state_ok s'" and "flaps s' = (flaps s)(ar_id r := \<lparr>breach = Suc (breaches_of (ar_id r) s), clear = 0\<rparr>)"
    and "if x = Inr True then lifecycle_change env r res s s' else events s' = events s" by blast+
qed

lemma clear_result:
  assumes ok: "state_ok s" and none: "re_severity res = None" and a: "apply_clear env r res s = (x, s')"
  shows "state_ok s'" and "\<exists>k\<le>Suc (clears_of (ar_id r) s). flaps s' = (flaps s)(ar_id r := \<lparr>breach = 0, clear = k\<rparr>)"
    and "if x = Inr True then lifecycle_change env r res s s' else events s' = events s"
proof -
  let ?rid = "ar_id r"
  have t: "table_ok (events s)" and m: "mirrors (index s) (events s)" using ok by (simp_all add: state_ok_def)
  have *: "state_ok s' \<and> (\<exists>k\<le>Suc (clears_of ?rid s). flaps s' = (flaps s)(?rid := \<lparr>breach = 0, clear = k\<rparr>))
    \<and> (if x = Inr True then lifecycle_change env r res s s' else events s' = events s)"
  proof (cases "map_of (index s) ?rid")
    case None
    then show ?thesis using a ok by (auto simp: apply_clear_def Let_def no_flap_def state_ok_def)
  next
    case (Some oe)
    obtain as e bs where row: "events s = as @ e # bs" "open_for ?rid e" "oe = entry_of ?rid e"
        "List.find (open_for ?rid) (events s) = Some e" "filter (open_for ?rid) as = []" "filter (open_for ?rid) bs = []"
      using indexed_row [OF m t Some] by blast
    let ?e = "resolved_event (en_now env) res (resolution_details (en_now env) res (oe_details oe)) e"
    let ?s1 = "set_flap ?rid \<lparr>breach = 0, clear = Suc (clears_of ?rid s)\<rparr> s"
    let ?s2 = "set_flap ?rid no_flap (?s1\<lparr>events := as @ ?e # bs, index := AList.delete ?rid (index s)\<rparr>)"
    have fe: "\<not> open_for r' ?e" for r' by simp
    have ids: "distinct (map ae_id (as @ e # bs))" using t row(1) by (simp only: table_ok_def)
    have upd: "update_event (oe_id oe) (resolved_event (en_now env) res (resolution_details (en_now env) res (oe_details oe))) (events s)
        = as @ ?e # bs"
      unfolding row(1) oe_id_of [OF row(3)] by (rule update_event_split [OF ids])
    have "table_ok (as @ ?e # bs)"
      by (rule replace_row_ok [OF _ row(2) _ fe]) (use t row(1) in simp_all)
    moreover have "mirrors (AList.delete ?rid (index s)) (as @ ?e # bs)"
    proof (rule replace_row_mirrors [OF _ row(2,5,6) fe])
      show "mirrors (index s) (as @ e # bs)" using m row(1) by simp
      show "distinct (map fst (AList.delete ?rid (index s)))" using m by (simp add: mirrors_def distinct_delete)
      show "map_of (AList.delete ?rid (index s)) = (map_of (index s))(?rid := if open_for ?rid ?e then Some (entry_of ?rid ?e) else None)"
        using fe by (simp add: delete_conv')
    qed
    ultimately have ok': "state_ok ?s2" by (simp add: state_ok_def)
    have change: "lifecycle_change env r res s s'" if "events s' = as @ ?e # bs" "CLEAR_STREAK \<le> Suc (clears_of ?rid s)"
      unfolding lifecycle_change_def row(4) option.case none
      by (rule exI [of _ as], rule exI [of _ bs], rule exI [of _ ?e]) (use that row(1) in auto)
    have "(if Suc (clears_of ?rid s) < CLEAR_STREAK then (Inr False, ?s1)
           else if en_write_ok env ?rid then (Inr True, ?s2) else (Inl (Resolve_failed (ar_slug r) (oe_id oe)), ?s1)) = (x, s')"
      using a Some upd by (simp add: apply_clear_def Let_def clears_of_def cong: if_cong)
    moreover have "state_ok ?s1" using ok by (simp add: state_ok_def)
    ultimately show ?thesis
      using ok' change
      by (cases "Suc (clears_of ?rid s) < CLEAR_STREAK"; cases "en_write_ok env ?rid") (auto simp: no_flap_def not_less)
  qed
  then show "state_ok s'" and "\<exists>k\<le>Suc (clears_of (ar_id r) s). flaps s' = (flaps s)(ar_id r := \<lparr>breach = 0, clear = k\<rparr>)"
    and "if x = Inr True then lifecycle_change env r res s s' else events s' = events s" by blast+
qed

section \<open>Runs\<close>

text \<open>
  What happens to the state over time: a process starts with no streaks; it evaluates rules with any
  verdict, database answers and clock; a pass reads the index again; the webhook dispatcher changes its
  columns. The history lists the verdicts since the start of the process, \<open>True\<close> for a breach.
\<close>

definition core :: "alert_event \<Rightarrow> alert_event" where
  "core e = e\<lparr>ae_webhook := Wh_pending, ae_attempts := 0, ae_last_attempt := None, ae_last_error := None\<rparr>"

definition booted :: "alert_event list \<Rightarrow> alert_state" where
  "booted es = \<lparr>flaps = \<lambda>_. no_flap, events = es, index = load_open_index es\<rparr>"

inductive alert_run :: "alert_state \<Rightarrow> (string \<times> bool) list \<Rightarrow> bool" where
  started: "table_ok es \<Longrightarrow> alert_run (booted es) []"
| verdict: "alert_run s h \<Longrightarrow> apply_rule_result env r res s = (x, s') \<Longrightarrow> alert_run s' (h @ [(ar_id r, re_severity res \<noteq> None)])"
| reindexed: "alert_run s h \<Longrightarrow> alert_run (s\<lparr>index := load_open_index (events s)\<rparr>) h"
| dispatched: "alert_run s h \<Longrightarrow> map core es = map core (events s) \<Longrightarrow> alert_run (s\<lparr>events := es\<rparr>) h"
| restarted: "alert_run s h \<Longrightarrow> alert_run (booted (events s)) []"

definition verdicts :: "string \<Rightarrow> (string \<times> bool) list \<Rightarrow> bool list" where
  "verdicts rid h = map snd (filter (\<lambda>x. fst x = rid) h)"

text \<open>How many verdicts at the end are \<open>b\<close>.\<close>

definition streak :: "bool \<Rightarrow> bool list \<Rightarrow> nat" where
  "streak b vs = length (takeWhile (\<lambda>v. v = b) (rev vs))"

lemma streak_snoc: "streak b (vs @ [v]) = (if v = b then Suc (streak b vs) else 0)"
  by (simp add: streak_def)

lemma verdicts_snoc: "verdicts rid (h @ [(r, v)]) = (if r = rid then verdicts rid h @ [v] else verdicts rid h)"
  by (simp add: verdicts_def)

lemma core_simps [simp]:
  "ae_id (core e) = ae_id e" "ae_open (core e) = ae_open e" "ae_rule (core e) = ae_rule e" "entry_of rid (core e) = entry_of rid e"
  by (simp_all add: core_def entry_of_def)

lemma same_core_ids: "map core es = map core es' \<Longrightarrow> map ae_id es = map ae_id es'"
  by (drule arg_cong [where f = "map ae_id"]) (simp add: comp_def)

lemma same_core_filter: "map core es = map core es' \<Longrightarrow> map core (filter (open_for rid) es) = map core (filter (open_for rid) es')"
proof -
  assume "map core es = map core es'"
  then have "filter (open_for rid) (map core es) = filter (open_for rid) (map core es')" by simp
  then show ?thesis by (simp add: filter_map comp_def open_for_def [abs_def])
qed

lemma dispatched_ok:
  assumes "state_ok s" and same: "map core es = map core (events s)"
  shows "state_ok (s\<lparr>events := es\<rparr>)"
proof -
  have f: "map core (filter (open_for rid) es) = map core (filter (open_for rid) (events s))" for rid
    using same by (rule same_core_filter)
  have "length (filter (open_for rid) es) = length (filter (open_for rid) (events s))" for rid
    using arg_cong [OF f, of length] by simp
  then have "table_ok es" using assms same_core_ids [OF same] by (simp add: table_ok_def state_ok_def)
  moreover have "map_option (entry_of rid) (List.find (open_for rid) es) = map_option (entry_of rid) (List.find (open_for rid) (events s))" for rid
  proof -
    have "map_option (entry_of rid) (List.find (open_for rid) xs)
        = (case map core (filter (open_for rid) xs) of [] \<Rightarrow> None | e # _ \<Rightarrow> Some (entry_of rid e))" for xs
      by (simp add: find_filter_hd split: list.split)
    then show ?thesis by (simp add: f)
  qed
  ultimately show ?thesis using assms by (simp add: state_ok_def mirrors_def)
qed

lemma alert_run_invariant:
  "alert_run s h \<Longrightarrow> state_ok s \<and> (\<forall>rid. breaches_of rid s = streak True (verdicts rid h) \<and> clears_of rid s \<le> streak False (verdicts rid h))"
proof (induction rule: alert_run.induct)
  case (started es)
  then show ?case
    by (simp add: booted_def state_ok_def load_open_index_mirrors breaches_of_def clears_of_def no_flap_def verdicts_def streak_def)
next
  case (verdict s h env r res x s')
  then have ok: "state_ok s" and b: "breaches_of rid s = streak True (verdicts rid h)" "clears_of rid s \<le> streak False (verdicts rid h)" for rid
    by auto
  show ?case
  proof (cases "re_severity res")
    case None
    then have c: "apply_clear env r res s = (x, s')" using verdict by (simp add: apply_rule_result_def)
    from clear_result(2) [OF ok None c] obtain k where
      k: "k \<le> Suc (clears_of (ar_id r) s)" "flaps s' = (flaps s)(ar_id r := \<lparr>breach = 0, clear = k\<rparr>)" by blast
    have "k \<le> Suc (streak False (verdicts (ar_id r) h))" using k(1) b(2) [of "ar_id r"] by linarith
    then show ?thesis
      using clear_result(1) [OF ok None c] k(2) b None
      by (auto simp: verdicts_snoc streak_snoc breaches_of_def clears_of_def)
  next
    case (Some sev)
    then have c: "apply_breach env r sev res s = (x, s')" using verdict by (simp add: apply_rule_result_def)
    show ?thesis
      using breach_result(1,2) [OF ok Some c] b Some by (auto simp: verdicts_snoc streak_snoc breaches_of_def clears_of_def)
  qed
next
  case (reindexed s h)
  then show ?case by (auto simp: state_ok_def load_open_index_mirrors breaches_of_def clears_of_def)
next
  case (dispatched s h es)
  then show ?case using dispatched_ok by (auto simp: breaches_of_def clears_of_def)
next
  case (restarted s h)
  then show ?case
    by (simp add: booted_def state_ok_def load_open_index_mirrors breaches_of_def clears_of_def no_flap_def verdicts_def streak_def)
qed

lemma index_slugs:
  assumes "state_ok s"
  shows "set (List.map_filter (\<lambda>(k, e). oe_slug e) (index s))
     = {t. \<exists>e\<in>set (events s). ae_open e \<and> ae_rule e \<noteq> None \<and> ae_slug e = Some t}"
proof -
  have t: "table_ok (events s)" and m: "mirrors (index s) (events s)" using assms by (simp_all add: state_ok_def)
  have entry: "(k, oe) \<in> set (index s) \<longleftrightarrow> (\<exists>e. List.find (open_for k) (events s) = Some e \<and> oe = entry_of k e)" for k oe
    using m mirrorsD [OF m, of k] by (auto simp: mirrors_def simp flip: map_of_eq_Some_iff)
  have found: "List.find (open_for k) (events s) = Some e" if "e \<in> set (events s)" "open_for k e" for e k
  proof -
    from split_list [OF that(1)] obtain as bs where split: "events s = as @ e # bs" by blast
    have "length (filter (open_for k) (as @ e # bs)) \<le> 1" using t split by (simp only: table_ok_def)
    then have "filter (open_for k) as = []" using that(2) by simp
    then show ?thesis using that(2) split by (simp add: find_filter_hd)
  qed
  show ?thesis
  proof (intro set_eqI iffI)
    fix t
    assume "t \<in> set (List.map_filter (\<lambda>(k, e). oe_slug e) (index s))"
    then obtain k oe where "(k, oe) \<in> set (index s)" "oe_slug oe = Some t" by (auto simp: List.map_filter_def)
    then show "t \<in> {t. \<exists>e\<in>set (events s). ae_open e \<and> ae_rule e \<noteq> None \<and> ae_slug e = Some t}"
      by (auto simp: entry entry_of_def open_for_def dest!: find_Some_D)
  next
    fix t
    assume "t \<in> {t. \<exists>e\<in>set (events s). ae_open e \<and> ae_rule e \<noteq> None \<and> ae_slug e = Some t}"
    then obtain e k where e: "e \<in> set (events s)" "open_for k e" "ae_slug e = Some t" by (auto simp: open_for_def)
    then have "(k, entry_of k e) \<in> set (index s)" using found entry by blast
    then show "t \<in> set (List.map_filter (\<lambda>(k, e). oe_slug e) (index s))"
      using e(3) by (force simp: List.map_filter_def entry_of_def)
  qed
qed

text \<open>A combined rule counts the distinct names among its subrules that have an open incident in the table at
  that moment, so base rules that opened or resolved earlier in the pass are seen.
\<close>

theorem combined_counts_open_children:
  assumes run: "alert_run s h"
  shows "re_value (evaluate_combined_rule (index s) r)
     = of_nat (card {t \<in> set (case ar_subrules r of None \<Rightarrow> [] | Some ss \<Rightarrow> ss).
         \<exists>e\<in>set (events s). ae_open e \<and> ae_rule e \<noteq> None \<and> ae_slug e = Some t})"
proof -
  let ?subs = "case ar_subrules r of None \<Rightarrow> [] | Some ss \<Rightarrow> ss"
  have "state_ok s" using alert_run_invariant [OF run] by blast
  then have slugs: "set (List.map_filter (\<lambda>(k, e). oe_slug e) (index s))
      = {t. \<exists>e\<in>set (events s). ae_open e \<and> ae_rule e \<noteq> None \<and> ae_slug e = Some t}"
    by (rule index_slugs)
  show ?thesis
    by (simp add: evaluate_combined_rule_def classified_def Let_def length_remdups_card_conv slugs Int_def conj_commute
        cong: conj_cong split: option.split)
qed

lemma run_rules_run:
  "alert_run s h \<Longrightarrow> run_rules env rd budget rs counts s = (x, s') \<Longrightarrow> \<exists>h'. alert_run s' (h @ h')"
proof (induction rs arbitrary: counts s h)
  case Nil
  then show ?case by (auto intro: exI [of _ "[]"])
next
  case (Cons r rs)
  obtain y s1 where y: "apply_rule_result env r (evaluate_rule_kind rd budget (index s) r) s = (y, s1)"
    by (cases "apply_rule_result env r (evaluate_rule_kind rd budget (index s) r) s")
  note step = verdict [OF Cons.prems(1) y]
  show ?case
  proof (cases y)
    case (Inl e)
    then show ?thesis using Cons.prems y step by auto
  next
    case (Inr changed)
    then show ?thesis using Cons.prems(2) y Cons.IH [OF step] by fastforce
  qed
qed

text \<open>A pass is such a sequence of steps, whether it ends or a write of it fails.\<close>

lemma pass_run: "alert_run s h \<Longrightarrow> evaluate_alert_rules env rd s = (x, s') \<Longrightarrow> \<exists>h'. alert_run s' (h @ h')"
  using run_rules_run [OF reindexed]
  by (fastforce simp: evaluate_alert_rules_def intro: exI [of _ "[]"] split: option.splits if_splits)

text \<open>C15: Over any history of verdicts, failing writes, webhook deliveries and restarts, no rule has two open
  incidents and the index of the pass tells what is open. A verdict changes the table in three ways only:
  it opens the one incident of a rule that has none, after three verdicts of that rule in a row crossed the
  threshold; it changes the severity of the open incident, keeping at most twenty transitions; or it
  resolves it, after three verdicts in a row did not cross it. Otherwise, and when a write fails, the table
  is as before.
\<close>

theorem incident_lifecycle:
  assumes run: "alert_run s h"
  shows "table_ok (events s) \<and> mirrors (index s) (events s)
    \<and> (case apply_rule_result env r res s of (x, s') \<Rightarrow>
        if x = Inr True
        then lifecycle_change env r res s s'
             \<and> (if List.find (open_for (ar_id r)) (events s) = None
                then OPEN_STREAK \<le> streak True (verdicts (ar_id r) h @ [re_severity res \<noteq> None])
                else re_severity res \<noteq> None \<or> CLEAR_STREAK \<le> streak False (verdicts (ar_id r) h @ [False]))
        else events s' = events s)"
proof -
  have ok: "state_ok s" and b: "breaches_of (ar_id r) s = streak True (verdicts (ar_id r) h)"
    and c: "clears_of (ar_id r) s \<le> streak False (verdicts (ar_id r) h)"
    using alert_run_invariant [OF run] by auto
  obtain x s' where a: "apply_rule_result env r res s = (x, s')" by (cases "apply_rule_result env r res s")
  have change: "if x = Inr True then lifecycle_change env r res s s' else events s' = events s"
    using a breach_result(3) [OF ok] clear_result(3) [OF ok] by (auto simp: apply_rule_result_def split: option.splits)
  have streaks: "if List.find (open_for (ar_id r)) (events s) = None
      then OPEN_STREAK \<le> streak True (verdicts (ar_id r) h @ [re_severity res \<noteq> None])
      else re_severity res \<noteq> None \<or> CLEAR_STREAK \<le> streak False (verdicts (ar_id r) h @ [False])"
    if "lifecycle_change env r res s s'"
    using that b c by (auto simp: lifecycle_change_def streak_snoc split: option.splits)
  show ?thesis
  proof (cases "x = Inr True")
    case True
    then have l: "lifecycle_change env r res s s'" using change by simp
    show ?thesis using ok l streaks [OF l] True unfolding a state_ok_def prod.case by (simp only: if_True simp_thms)
  next
    case False
    then show ?thesis using ok change unfolding a state_ok_def prod.case by (simp only: if_False simp_thms)
  qed
qed

definition sample_alert_rule :: alert_rule where
  "sample_alert_rule =
     \<lparr>ar_id = ''r'', ar_slug = ''errors'', ar_kind = Count_rule, ar_metric = Some ''failed'', ar_numerator = None, ar_denominator = None,
      ar_route_group = None, ar_window = 300, ar_warn = 5, ar_critical = 10, ar_min_sample = 0, ar_subrules = None,
      ar_aggregation = None, ar_enabled = True\<rparr>"

definition sample_alert_env :: alert_env where
  "sample_alert_env =
     \<lparr>en_now = 1000, en_new_id = (\<lambda>rid. ''e'' @ rid), en_write_ok = (\<lambda>_. True), en_index_ok = True,
      en_rules = Some [sample_alert_rule], en_budget_mb = None\<rparr>"

definition sample_streak :: "nat \<Rightarrow> alert_state" where
  "sample_streak n = set_flap ''r'' \<lparr>breach = n, clear = 0\<rparr> (booted [])"

lemma sample_verdict:
  "apply_rule_result sample_alert_env sample_alert_rule (classified sample_alert_rule 12 None) (sample_streak n) =
     (if Suc n < 3 then (Inr False, sample_streak (Suc n))
      else (Inr True, (sample_streak (Suc n))\<lparr>events := [opened_event sample_alert_env sample_alert_rule Critical (classified sample_alert_rule 12 None)],
              index := [(''r'', entry_of ''r'' (opened_event sample_alert_env sample_alert_rule Critical (classified sample_alert_rule 12 None)))]\<rparr>))"
  by (simp add: apply_rule_result_def classified_def classify_threshold_def apply_breach_def sample_alert_rule_def sample_alert_env_def
      sample_streak_def booted_def load_open_index_def set_flap_def OPEN_STREAK_def Let_def)

lemma sample_alert_run: "alert_run (sample_streak 2) [(''r'', True), (''r'', True)]"
proof -
  have v: "re_severity (classified sample_alert_rule 12 None) \<noteq> None" "ar_id sample_alert_rule = ''r''"
    by (simp_all add: classified_def classify_threshold_def sample_alert_rule_def)
  have "alert_run (booted []) []" by (rule started) (simp add: table_ok_def)
  then have "alert_run (sample_streak 0) []" by (simp add: sample_streak_def set_flap_def booted_def no_flap_def fun_upd_idem)
  from verdict [OF this sample_verdict [of 0, simplified]] have "alert_run (sample_streak (Suc 0)) [(''r'', True)]" using v by simp
  from verdict [OF this sample_verdict [of 1, simplified]] show ?thesis using v by (simp add: numeral_2_eq_2)
qed

theorem incident_lifecycle_witness:
  "case apply_rule_result sample_alert_env sample_alert_rule (classified sample_alert_rule 12 None) (sample_streak 2) of
     (x, s') \<Rightarrow> x = Inr True
       \<and> lifecycle_change sample_alert_env sample_alert_rule (classified sample_alert_rule 12 None) (sample_streak 2) s'"
  using incident_lifecycle [OF sample_alert_run, of sample_alert_env sample_alert_rule "classified sample_alert_rule 12 None"]
    sample_verdict [of 2] by simp

definition sample_open :: alert_state where
  "sample_open =
     (sample_streak 3)\<lparr>events := [opened_event sample_alert_env sample_alert_rule Critical (classified sample_alert_rule 12 None)],
        index := [(''r'', entry_of ''r'' (opened_event sample_alert_env sample_alert_rule Critical (classified sample_alert_rule 12 None)))]\<rparr>"

theorem combined_counts_open_children_witness:
  "re_value (evaluate_combined_rule (index sample_open) (sample_alert_rule\<lparr>ar_subrules := Some [''errors'', ''slow'']\<rparr>)) = 1"
proof -
  have "apply_rule_result sample_alert_env sample_alert_rule (classified sample_alert_rule 12 None) (sample_streak 2) = (Inr True, sample_open)"
    using sample_verdict [of 2] by (simp add: sample_open_def)
  note run = verdict [OF sample_alert_run this]
  let ?r = "sample_alert_rule\<lparr>ar_subrules := Some [''errors'', ''slow'']\<rparr>"
  have found: "{t \<in> set (case ar_subrules ?r of None \<Rightarrow> [] | Some ss \<Rightarrow> ss).
      \<exists>e\<in>set (events sample_open). ae_open e \<and> ae_rule e \<noteq> None \<and> ae_slug e = Some t} = {''errors''}"
    by (auto simp: sample_open_def opened_event_def sample_alert_rule_def)
  show ?thesis unfolding combined_counts_open_children [OF run, of ?r] found by simp
qed

section \<open>From the recorded metrics to a verdict\<close>

text \<open>How many events of a metric the log has in the slots of a window.\<close>

definition logged :: "(int \<times> metric_input) list \<Rightarrow> int \<Rightarrow> int \<Rightarrow> string \<Rightarrow> nat" where
  "logged evs now window m =
     length (filter (\<lambda>(t, i). in_metric i = m
       \<and> in_window (fst (query_window HOURLY_SLOTS_REALTIME (of_int window))) now (snd (query_window HOURLY_SLOTS_REALTIME (of_int window))) t) evs)"

lemma logged_count:
  assumes "timely evs now" and "0 \<le> now" and "m \<in> set KNOWN_REALTIME_METRICS"
  shows "query_count m (of_int w) now (run_collector evs) = logged evs now w m"
  using query_count_exact [OF assms, of "of_int w" "fst (query_window HOURLY_SLOTS_REALTIME (of_int w))"
      "snd (query_window HOURLY_SLOTS_REALTIME (of_int w))"]
  by (simp add: logged_def)

text \<open>What a value makes of the thresholds of a rule, told by comparisons alone.\<close>

definition decided_by :: "alert_rule \<Rightarrow> rat \<Rightarrow> rule_eval \<Rightarrow> bool" where
  "decided_by r v e \<longleftrightarrow> re_value e = v
     \<and> (re_severity e = Some Critical \<longleftrightarrow> ar_critical r \<le> v)
     \<and> (re_severity e = Some Warn \<longleftrightarrow> ar_warn r \<le> v \<and> v < ar_critical r)
     \<and> (re_severity e = None \<longleftrightarrow> v < ar_warn r \<and> v < ar_critical r)
     \<and> re_threshold e = map_option (\<lambda>s. if s = Critical then ar_critical r else ar_warn r) (re_severity e)"

lemma decided_classified: "decided_by r v (classified r v n)"
  by (auto simp: decided_by_def classified_def classify_threshold_def)

text \<open>C23: The verdicts of count and ratio rules are those of the log of recorded metrics. The value of a count rule is the number
  of events of its metric in the window's slots, that of a ratio rule the quotient of two such numbers. It is
  critical exactly when it reaches the critical threshold, a warning exactly when it reaches the other one
  but not the critical, and reports the threshold it reached. A ratio whose second number is zero or below the rule's minimum has no severity.
\<close>

theorem verdict_from_log:
  assumes "timely evs now" and "0 \<le> now"
    and "m \<in> set KNOWN_REALTIME_METRICS" and "d \<in> set KNOWN_REALTIME_METRICS"
  shows "decided_by r (of_nat (logged evs now (ar_window r) m))
      (evaluate_sync_rule (collector_readings hl now (run_collector evs) p tr) budget (r\<lparr>ar_kind := Count_rule, ar_metric := Some m\<rparr>))
    \<and> (let k = logged evs now (ar_window r) m; n = logged evs now (ar_window r) d;
           e = evaluate_sync_rule (collector_readings hl now (run_collector evs) p tr) budget
             (r\<lparr>ar_kind := Ratio_rule, ar_numerator := Some m, ar_denominator := Some d\<rparr>)
       in re_sample e = Some n
          \<and> (if n = 0 \<or> int n < ar_min_sample r then re_severity e = None \<and> re_threshold e = None
             else decided_by r (of_nat k / of_nat n) e))"
proof -
  let ?count = "r\<lparr>ar_kind := Count_rule, ar_metric := Some m\<rparr>"
  let ?ratio = "r\<lparr>ar_kind := Ratio_rule, ar_numerator := Some m, ar_denominator := Some d\<rparr>"
  have "decided_by ?count v e = decided_by r v e" "decided_by ?ratio v e = decided_by r v e" for v e
    by (simp_all add: decided_by_def cong: if_cong)
  then show ?thesis
    using logged_count [OF assms(1,2,3)] logged_count [OF assms(1,2,4)] decided_classified [of ?count] decided_classified [of ?ratio]
    by (simp add: evaluate_sync_rule_def collector_readings_def query_ratio_def or_empty_def no_verdict_def Let_def)
      (simp add: classified_def)
qed

definition sample_log :: "(int \<times> metric_input) list" where
  "sample_log = map (\<lambda>t. (t, \<lparr>in_metric = ''call.join.success'', in_driver = None, in_source = None, in_workspace = None,
     in_conversation = None, in_tags = None\<rparr>)) [0, 3600000, 3660000]"

lemma sample_logged: "logged sample_log 3660000 120 ''call.join.success'' = 2"
  by (simp add: sample_log_def logged_def query_window_def in_window_def MINUTE_MS_def)

theorem verdict_from_log_witness:
  "re_severity (evaluate_sync_rule (collector_readings 0 3660000 (run_collector sample_log) [] empty_trend) 0
     (sample_alert_rule\<lparr>ar_window := 120, ar_warn := 2, ar_kind := Count_rule, ar_metric := Some ''call.join.success''\<rparr>)) = Some Warn"
proof -
  let ?r = "sample_alert_rule\<lparr>ar_window := 120, ar_warn := 2\<rparr>" and ?m = "''call.join.success''"
  have known: "?m \<in> set KNOWN_REALTIME_METRICS" by (simp add: KNOWN_REALTIME_METRICS_def)
  have "timely sample_log 3660000" by (simp add: timely_def sample_log_def)
  from conjunct1 [OF verdict_from_log [OF this _ known known, of ?r 0 "[]" empty_trend 0]]
  have "decided_by ?r 2 (evaluate_sync_rule (collector_readings 0 3660000 (run_collector sample_log) [] empty_trend) 0
      (?r\<lparr>ar_kind := Count_rule, ar_metric := Some ?m\<rparr>))"
    using sample_logged by (simp add: sample_alert_rule_def)
  then show ?thesis by (simp add: decided_by_def sample_alert_rule_def)
qed

end
