(* ===== verification/Alert_Webhook.thy ===== *)
theory Alert_Webhook
  imports Alert_Evaluator "HOL-Library.Multiset"
begin

text \<open>
  The alerting cycle (\<open>server/services/observability/alerting.ts\<close>): the cached settings, the delivery of pending
  notifications with its tiers of waiting, and the cycle that evaluates and then delivers. A delivery
  answers with an error text or with success; what a webhook receives is not modelled, only which row is
  sent and what the table holds afterwards. Every row is handled at its own time, since deliveries take time.
\<close>

section \<open>Settings\<close>

record alert_flags =
  fl_enabled :: bool
  fl_url :: "string option"
  fl_secret :: "string option"

definition FLAG_CACHE_TTL_MS :: int where "FLAG_CACHE_TTL_MS = 60000"

definition DEFAULT_FLAGS :: alert_flags where
  "DEFAULT_FLAGS = \<lparr>fl_enabled = True, fl_url = None, fl_secret = None\<rparr>"

definition trimmed_text :: "jsval \<Rightarrow> string option" where
  "trimmed_text v = (case v of JStr t \<Rightarrow> if js_trim t = [] then None else Some (js_trim t) | _ \<Rightarrow> None)"

text \<open>The flags of a row of settings; a failed query answers with no row, that is null.\<close>

definition read_alert_flags :: "jsval \<Rightarrow> alert_flags" where
  "read_alert_flags row =
     \<lparr>fl_enabled = (get_prop row ''alerting_enabled'' \<noteq> JBool False),
      fl_url = trimmed_text (get_prop row ''alert_webhook_url''), fl_secret = trimmed_text (get_prop row ''alert_webhook_secret'')\<rparr>"

text \<open>\<open>loadAlertFlags\<close>; the query throws (\<open>None\<close>), or answers with a row or null.\<close>

definition load_alert_flags :: "int \<Rightarrow> jsval option \<Rightarrow> (alert_flags \<times> int) option \<Rightarrow> alert_flags \<times> (alert_flags \<times> int) option" where
  "load_alert_flags now reply cache =
     (case cache of
        Some (v, ts) \<Rightarrow>
          if now - ts < FLAG_CACHE_TTL_MS then (v, cache)
          else (let v' = (case reply of None \<Rightarrow> DEFAULT_FLAGS | Some row \<Rightarrow> read_alert_flags row) in (v', Some (v', now)))
      | None \<Rightarrow> (let v' = (case reply of None \<Rightarrow> DEFAULT_FLAGS | Some row \<Rightarrow> read_alert_flags row) in (v', Some (v', now))))"

section \<open>Delivery\<close>

definition MAX_WEBHOOK_ATTEMPTS :: nat where "MAX_WEBHOOK_ATTEMPTS = 5"

definition BACKOFF_MS :: "int list" where "BACKOFF_MS = [0, 60000, 300000, 1800000, 3600000]"

definition BATCH_LIMIT :: nat where "BATCH_LIMIT = 50"

text \<open>
  What surrounds a dispatch: whether the query of the pending rows succeeds, the time a row is handled at,
  what its delivery answers (\<open>None\<close> is success), and whether the updates of the row are accepted.
\<close>

record dispatch_env =
  di_query_ok :: bool
  di_time :: "string \<Rightarrow> int"
  di_deliver :: "alert_event \<Rightarrow> string option"
  di_write_ok :: "string \<Rightarrow> bool"
  di_note_ok :: "string \<Rightarrow> bool"
  di_bulk_ok :: bool

definition pending_rows :: "alert_event list \<Rightarrow> alert_event list" where
  "pending_rows es = take BATCH_LIMIT (sort_key ae_fired_at (filter (\<lambda>e. ae_webhook e = Wh_pending) es))"

definition backoff_tier :: "nat \<Rightarrow> int" where
  "backoff_tier attempts = BACKOFF_MS ! min attempts (length BACKOFF_MS - 1)"

definition too_recent :: "int \<Rightarrow> alert_event \<Rightarrow> bool" where
  "too_recent now e \<longleftrightarrow>
     0 < ae_attempts e \<and> (case ae_last_attempt e of None \<Rightarrow> False | Some t \<Rightarrow> now - t < backoff_tier (ae_attempts e))"

text \<open>The updates after a delivery, as functions of the row that was read.\<close>

definition mark_delivered :: "int \<Rightarrow> alert_event \<Rightarrow> alert_event \<Rightarrow> alert_event" where
  "mark_delivered now row e =
     e\<lparr>ae_webhook := Wh_delivered, ae_attempts := Suc (ae_attempts row), ae_last_attempt := Some now, ae_last_error := None\<rparr>"

definition mark_attempted :: "int \<Rightarrow> alert_event \<Rightarrow> alert_event \<Rightarrow> alert_event" where
  "mark_attempted now row e =
     e\<lparr>ae_webhook := (if MAX_WEBHOOK_ATTEMPTS \<le> Suc (ae_attempts row) then Wh_failed else Wh_pending),
       ae_attempts := Suc (ae_attempts row), ae_last_attempt := Some now\<rparr>"

definition dispatch_row :: "dispatch_env \<Rightarrow> alert_event \<Rightarrow> alert_event list \<Rightarrow> alert_event list" where
  "dispatch_row env row es =
     (let i = ae_id row; now = di_time env i
      in if too_recent now row then es
         else (case di_deliver env row of
                 None \<Rightarrow> if di_write_ok env i then update_event i (mark_delivered now row) es else es
               | Some err \<Rightarrow>
                   (let es' = (if di_note_ok env i then update_event i (\<lambda>e. e\<lparr>ae_last_error := Some err\<rparr>) es else es)
                    in if di_write_ok env i then update_event i (mark_attempted now row) es' else es')))"

definition dispatch_pending :: "dispatch_env \<Rightarrow> alert_flags \<Rightarrow> alert_event list \<Rightarrow> alert_event list" where
  "dispatch_pending env flags es =
     (if \<not> di_query_ok env then es
      else (let rows = pending_rows es
            in case fl_url flags of
                 None \<Rightarrow>
                   if di_bulk_ok env
                   then map (\<lambda>e. if ae_id e \<in> ae_id ` set rows then e\<lparr>ae_webhook := Wh_disabled\<rparr> else e) es
                   else es
               | Some url \<Rightarrow> fold (dispatch_row env) rows es))"

text \<open>\<open>runAlertCycle\<close>: the counts of the evaluation, zero when it failed or alerting is off.\<close>

definition run_alert_cycle :: "alert_env \<Rightarrow> readings \<Rightarrow> dispatch_env \<Rightarrow> alert_flags \<Rightarrow> alert_state \<Rightarrow> (nat \<times> nat) \<times> alert_state" where
  "run_alert_cycle env rd de flags s =
     (if \<not> fl_enabled flags then ((0, 0), s)
      else (let (r, s1) = evaluate_alert_rules env rd s
            in (case r of Inl e \<Rightarrow> (0, 0) | Inr counts \<Rightarrow> counts, s1\<lparr>events := dispatch_pending de flags (events s1)\<rparr>)))"

section \<open>Delivery leaves the incidents alone\<close>

lemma core_updates [simp]:
  "core (mark_delivered now row e) = core e" "core (mark_attempted now row e) = core e"
  "core (e\<lparr>ae_last_error := x\<rparr>) = core e" "core (e\<lparr>ae_webhook := w\<rparr>) = core e"
  by (simp_all add: core_def mark_delivered_def mark_attempted_def)

lemma core_update_event: "(\<And>e. core (f e) = core e) \<Longrightarrow> map core (update_event i f es) = map core es"
  by (simp add: update_event_def)

lemma core_dispatch_row: "map core (dispatch_row env row es) = map core es"
  by (simp add: dispatch_row_def Let_def core_update_event split: option.split)

lemma core_dispatch_rows: "map core (fold (dispatch_row env) rows es) = map core es"
  by (induction rows arbitrary: es) (simp_all add: core_dispatch_row)

lemma core_dispatch: "map core (dispatch_pending env flags es) = map core es"
  by (simp add: dispatch_pending_def Let_def core_dispatch_rows split: option.split)

text \<open>The whole cycle is a run of the evaluator's steps, so its invariants hold across cycles.\<close>

lemma cycle_run:
  assumes "alert_run s h" and "run_alert_cycle env rd de flags s = (c, s')"
  shows "\<exists>h'. alert_run s' (h @ h')"
proof (cases "fl_enabled flags")
  case True
  obtain r s1 where e: "evaluate_alert_rules env rd s = (r, s1)" by (cases "evaluate_alert_rules env rd s")
  obtain h' where "alert_run s1 (h @ h')" using pass_run [OF assms(1) e] by blast
  then have "alert_run (s1\<lparr>events := dispatch_pending de flags (events s1)\<rparr>) (h @ h')"
    using core_dispatch by (rule dispatched)
  then show ?thesis using assms(2) True e by (auto simp: run_alert_cycle_def)
next
  case False
  then show ?thesis using assms by (auto simp: run_alert_cycle_def intro: exI [of _ "[]"])
qed

section \<open>A batch row by row\<close>

definition attempt_row :: "dispatch_env \<Rightarrow> alert_event \<Rightarrow> alert_event" where
  "attempt_row env e =
     (let i = ae_id e; now = di_time env i
      in if too_recent now e then e
         else (case di_deliver env e of
                 None \<Rightarrow> if di_write_ok env i then mark_delivered now e e else e
               | Some err \<Rightarrow>
                   (let e' = (if di_note_ok env i then e\<lparr>ae_last_error := Some err\<rparr> else e)
                    in if di_write_ok env i then mark_attempted now e e' else e')))"

lemma attempt_row_id [simp]: "ae_id (attempt_row env e) = ae_id e"
  by (simp add: attempt_row_def Let_def mark_delivered_def mark_attempted_def split: option.split)

text \<open>The row read is the row updated, so a batch attempts its rows one by one.\<close>

lemma dispatch_row_split:
  assumes d: "distinct (map ae_id (as @ row # bs))"
  shows "dispatch_row env row (as @ row # bs) = as @ attempt_row env row # bs"
proof -
  let ?i = "ae_id row" and ?now = "di_time env (ae_id row)"
  have noted: "update_event ?i f (as @ row\<lparr>ae_last_error := x\<rparr> # bs) = as @ f (row\<lparr>ae_last_error := x\<rparr>) # bs" for f x
    using update_event_split [of as "row\<lparr>ae_last_error := x\<rparr>" bs f] d by simp
  show ?thesis
  proof (cases "too_recent ?now row")
    case False
    show ?thesis
    proof (cases "di_deliver env row")
      case None
      then show ?thesis using False d
        by (cases "di_write_ok env ?i") (simp_all add: dispatch_row_def attempt_row_def Let_def update_event_split [OF d])
    next
      case (Some err)
      then show ?thesis using False d
        by (cases "di_write_ok env ?i"; cases "di_note_ok env ?i")
          (simp_all add: dispatch_row_def attempt_row_def Let_def update_event_split [OF d] noted)
    qed
  qed (simp add: dispatch_row_def attempt_row_def Let_def)
qed

lemma dispatch_rows_pointwise:
  assumes "distinct (map ae_id es)" and "set rows \<subseteq> set es" and "distinct (map ae_id rows)"
  shows "fold (dispatch_row env) rows es = map (\<lambda>e. if ae_id e \<in> ae_id ` set rows then attempt_row env e else e) es"
  using assms
proof (induction rows arbitrary: es)
  case (Cons row rows)
  then have "row \<in> set es" by simp
  then obtain as bs where es: "es = as @ row # bs" by (meson split_list)
  let ?es = "as @ attempt_row env row # bs"
  have d: "distinct (map ae_id (as @ row # bs))" using Cons.prems es by simp
  have other: "e \<in> set ?es" if "e \<in> set rows" for e
    using that Cons.prems(2,3) es by (auto simp: image_iff)
  have "fold (dispatch_row env) rows ?es = map (\<lambda>e. if ae_id e \<in> ae_id ` set rows then attempt_row env e else e) ?es"
    using d other Cons.prems(3) by (intro Cons.IH) auto
  moreover have "ae_id row \<notin> ae_id ` set rows" using Cons.prems(3) by simp
  moreover have "ae_id e \<noteq> ae_id row" if "e \<in> set as \<union> set bs" for e using d that by (auto simp: image_iff)
  ultimately show ?case unfolding es by (auto simp: dispatch_row_split [OF d] intro!: map_cong)
qed simp

text \<open>With at most fifty pending rows every one of them is handled.\<close>

definition attempted :: "dispatch_env \<Rightarrow> alert_event \<Rightarrow> alert_event" where
  "attempted env e = (if ae_webhook e = Wh_pending then attempt_row env e else e)"

lemma dispatch_pointwise:
  assumes "distinct (map ae_id es)" and "di_query_ok env" and "fl_url flags = Some url"
    and "length (filter (\<lambda>e. ae_webhook e = Wh_pending) es) \<le> BATCH_LIMIT"
  shows "dispatch_pending env flags es = map (attempted env) es"
proof -
  let ?p = "filter (\<lambda>e. ae_webhook e = Wh_pending) es"
  have rows: "pending_rows es = sort_key ae_fired_at ?p" using assms(4) by (simp add: pending_rows_def)
  have "mset (map ae_id (sort_key ae_fired_at ?p)) = mset (map ae_id ?p)" by simp
  moreover have "distinct (map ae_id ?p)" using assms(1) by (simp add: distinct_map inj_on_def)
  ultimately have d: "distinct (map ae_id (pending_rows es))"
    unfolding rows by (metis mset_eq_imp_distinct_iff)
  have s: "set (pending_rows es) = set ?p" by (simp add: rows)
  have pend: "ae_id e \<in> ae_id ` set ?p \<longleftrightarrow> ae_webhook e = Wh_pending" if "e \<in> set es" for e
    using assms(1) that by (auto simp: distinct_map inj_on_def)
  show ?thesis
    using assms(2,3) dispatch_rows_pointwise [OF assms(1) _ d] s pend
    by (auto simp: dispatch_pending_def Let_def attempted_def)
qed

section \<open>Every notification is settled\<close>

definition dispatch_all :: "alert_flags \<Rightarrow> dispatch_env list \<Rightarrow> alert_event list \<Rightarrow> alert_event list" where
  "dispatch_all flags envs es = fold (\<lambda>env. dispatch_pending env flags) envs es"

definition HOUR :: int where "HOUR = 3600000"

text \<open>Dispatches that reach the database, an hour or more apart for every row.\<close>

definition sound_env :: "dispatch_env \<Rightarrow> bool" where
  "sound_env env \<longleftrightarrow> di_query_ok env \<and> (\<forall>i. di_write_ok env i)"

fun spaced :: "(string \<Rightarrow> int) \<Rightarrow> dispatch_env list \<Rightarrow> bool" where
  "spaced t [] = True"
| "spaced t (env # envs) \<longleftrightarrow> sound_env env \<and> (\<forall>i. t i + HOUR \<le> di_time env i) \<and> spaced (di_time env) envs"

definition rested :: "(string \<Rightarrow> int) \<Rightarrow> alert_event \<Rightarrow> bool" where
  "rested t e \<longleftrightarrow> (case ae_last_attempt e of None \<Rightarrow> True | Some x \<Rightarrow> x \<le> t (ae_id e))"

lemma tier_at_most_hour:
  assumes "m \<le> 4"
  shows "BACKOFF_MS ! m \<le> HOUR"
proof -
  from assms consider "m = 0" | "m = 1" | "m = 2" | "m = 3" | "m = 4" by linarith
  then show ?thesis by cases (simp_all add: BACKOFF_MS_def HOUR_def)
qed

lemma backoff_at_most_hour: "backoff_tier k \<le> HOUR"
  by (simp add: backoff_tier_def tier_at_most_hour BACKOFF_MS_def [THEN arg_cong [of _ _ length]])

lemma attempted_id [simp]: "ae_id (attempted env e) = ae_id e"
  by (simp add: attempted_def)

lemma attempted_settled: "ae_webhook e \<noteq> Wh_pending \<Longrightarrow> fold attempted envs e = e"
  by (induction envs) (simp_all add: attempted_def)

lemma attempted_step:
  assumes "sound_env env" and "rested t e" and "t (ae_id e) + HOUR \<le> di_time env (ae_id e)" and "ae_webhook e = Wh_pending"
  shows "ae_webhook (attempted env e) \<in> {Wh_delivered, Wh_failed}
    \<or> (ae_webhook (attempted env e) = Wh_pending \<and> ae_attempts (attempted env e) = Suc (ae_attempts e)
       \<and> Suc (ae_attempts e) < MAX_WEBHOOK_ATTEMPTS \<and> rested (di_time env) (attempted env e))"
proof -
  have "\<not> too_recent (di_time env (ae_id e)) e"
    using assms(2,3) backoff_at_most_hour [of "ae_attempts e"] by (auto simp: too_recent_def rested_def split: option.splits)
  then show ?thesis
    using assms(1,4)
    by (auto simp: attempted_def attempt_row_def sound_env_def Let_def mark_delivered_def mark_attempted_def rested_def
        split: option.split)
qed

lemma row_settles:
  "spaced t envs \<Longrightarrow> rested t e \<Longrightarrow> ae_webhook e = Wh_pending \<Longrightarrow> envs \<noteq> [] \<Longrightarrow> MAX_WEBHOOK_ATTEMPTS \<le> ae_attempts e + length envs
   \<Longrightarrow> ae_webhook (fold attempted envs e) \<in> {Wh_delivered, Wh_failed}"
proof (induction envs arbitrary: t e)
  case (Cons env envs)
  from attempted_step [of env t e] Cons.prems
  consider "ae_webhook (attempted env e) \<in> {Wh_delivered, Wh_failed}"
    | "ae_webhook (attempted env e) = Wh_pending" "ae_attempts (attempted env e) = Suc (ae_attempts e)"
      "Suc (ae_attempts e) < MAX_WEBHOOK_ATTEMPTS" "rested (di_time env) (attempted env e)"
    by auto
  then show ?case
  proof cases
    case 1
    then show ?thesis using attempted_settled [of "attempted env e" envs] by auto
  next
    case 2
    moreover have "envs \<noteq> []" using 2(3) Cons.prems(5) by auto
    ultimately show ?thesis using Cons.IH [of "di_time env" "attempted env e"] Cons.prems by auto
  qed
qed simp

lemma fewer_pending:
  "length (filter (\<lambda>e. ae_webhook e = Wh_pending) (map (attempted env) es)) \<le> length (filter (\<lambda>e. ae_webhook e = Wh_pending) es)"
  by (induction es) (auto simp: attempted_def)

lemma dispatch_all_pointwise:
  "spaced t envs \<Longrightarrow> distinct (map ae_id es) \<Longrightarrow> fl_url flags = Some url
   \<Longrightarrow> length (filter (\<lambda>e. ae_webhook e = Wh_pending) es) \<le> BATCH_LIMIT
   \<Longrightarrow> dispatch_all flags envs es = map (fold attempted envs) es"
proof (induction envs arbitrary: t es)
  case (Cons env envs)
  have step: "dispatch_pending env flags es = map (attempted env) es"
    using Cons.prems by (intro dispatch_pointwise) (auto simp: sound_env_def)
  have "dispatch_all flags envs (map (attempted env) es) = map (fold attempted envs) (map (attempted env) es)"
    using Cons.prems fewer_pending [of env es] by (intro Cons.IH [of "di_time env"]) (auto simp: comp_def)
  then show ?case using step by (simp add: dispatch_all_def)
qed (simp add: dispatch_all_def)

lemma rested_rows_settle:
  assumes "distinct (map ae_id es)" and "fl_url flags = Some url"
    and "length (filter (\<lambda>e. ae_webhook e = Wh_pending) es) \<le> BATCH_LIMIT"
    and "spaced t envs" and "length envs = MAX_WEBHOOK_ATTEMPTS" and "list_all (rested t) es"
  shows "list_all2 (\<lambda>e e'. if ae_webhook e = Wh_pending then ae_webhook e' \<in> {Wh_delivered, Wh_failed} \<and> core e' = core e else e' = e)
     es (dispatch_all flags envs es)"
proof -
  have core: "core (fold attempted es' e) = core e" for es' e
    by (induction es' arbitrary: e) (simp_all add: attempted_def attempt_row_def Let_def split: option.split)
  have "envs \<noteq> []" using assms(5) by (auto simp: MAX_WEBHOOK_ATTEMPTS_def)
  then have row: "if ae_webhook e = Wh_pending then ae_webhook (fold attempted envs e) \<in> {Wh_delivered, Wh_failed}
      \<and> core (fold attempted envs e) = core e else fold attempted envs e = e" if "e \<in> set es" for e
    using that assms(4,5,6) row_settles [of t envs e] attempted_settled [of e envs] core by (auto simp: list_all_iff)
  show ?thesis
    unfolding dispatch_all_pointwise [OF assms(4,1,2,3)] list_all2_map2 list_all2_same using row by blast
qed

text \<open>A dispatch leaves every row rested with respect to its own time, tried or not.\<close>

lemma attempted_rested: "rested (di_time env) e \<Longrightarrow> rested (di_time env) (attempted env e)"
  by (auto simp: rested_def attempted_def attempt_row_def Let_def mark_delivered_def mark_attempted_def split: option.split)

lemma attempted_outcome:
  "core (attempted env e) = core e
   \<and> (if ae_webhook e = Wh_pending then ae_webhook (attempted env e) \<in> {Wh_pending, Wh_delivered, Wh_failed} else attempted env e = e)"
  by (simp add: attempted_def attempt_row_def Let_def mark_delivered_def mark_attempted_def core_def split: option.split)

text \<open>C16: With a webhook configured and at most fifty notifications waiting, none of them last tried later than the
  first of the dispatches, six dispatches that reach the database, each handling every row at least an hour after the one before did,
  leave none waiting: each is delivered or given up, whatever the webhook answers and however recently it was
  tried before, and rows that were not waiting are untouched.
\<close>

theorem notifications_settle:
  assumes "distinct (map ae_id es)" and "fl_url flags = Some url"
    and "length (filter (\<lambda>e. ae_webhook e = Wh_pending) es) \<le> BATCH_LIMIT"
    and "\<forall>e\<in>set es. \<forall>x. ae_last_attempt e = Some x \<longrightarrow> x \<le> di_time env (ae_id e)"
    and "sound_env env" and "spaced (di_time env) envs" and "length envs = 5"
  shows "list_all2 (\<lambda>e e'. if ae_webhook e = Wh_pending then ae_webhook e' \<in> {Wh_delivered, Wh_failed} \<and> core e' = core e else e' = e)
     es (dispatch_all flags (env # envs) es)"
proof -
  let ?es = "map (attempted env) es"
  have step: "dispatch_pending env flags es = ?es"
    using assms(1-3,5) by (intro dispatch_pointwise) (auto simp: sound_env_def)
  have "list_all (rested (di_time env)) es"
    using assms(4) by (auto simp: list_all_iff rested_def split: option.split)
  then have rest: "list_all (rested (di_time env)) ?es" using attempted_rested by (auto simp: list_all_iff)
  have len: "length envs = MAX_WEBHOOK_ATTEMPTS" using assms(7) by (simp add: MAX_WEBHOOK_ATTEMPTS_def)
  have few: "length (filter (\<lambda>e. ae_webhook e = Wh_pending) ?es) \<le> BATCH_LIMIT"
    using fewer_pending [of env es] assms(3) by linarith
  have "distinct (map ae_id ?es)" using assms(1) by (simp add: comp_def)
  from rested_rows_settle [OF this assms(2) few assms(6) len rest]
  have "list_all2 (\<lambda>e e'. if ae_webhook (attempted env e) = Wh_pending
      then ae_webhook e' \<in> {Wh_delivered, Wh_failed} \<and> core e' = core (attempted env e) else e' = attempted env e) es (dispatch_all flags (env # envs) es)"
    by (simp add: dispatch_all_def step list_all2_map1)
  then show ?thesis
  proof (rule list_all2_mono)
    fix e e'
    assume "if ae_webhook (attempted env e) = Wh_pending
      then ae_webhook e' \<in> {Wh_delivered, Wh_failed} \<and> core e' = core (attempted env e) else e' = attempted env e"
    then show "if ae_webhook e = Wh_pending then ae_webhook e' \<in> {Wh_delivered, Wh_failed} \<and> core e' = core e else e' = e"
      using attempted_outcome [of env e] by (auto split: if_splits)
  qed
qed

definition hourly :: "(alert_event \<Rightarrow> string option) \<Rightarrow> int \<Rightarrow> dispatch_env" where
  "hourly answer k =
     \<lparr>di_query_ok = True, di_time = (\<lambda>_. k * HOUR), di_deliver = answer, di_write_ok = (\<lambda>_. True), di_note_ok = (\<lambda>_. True),
      di_bulk_ok = True\<rparr>"

definition sample_event :: alert_event where
  "sample_event = opened_event sample_alert_env sample_alert_rule Critical (classified sample_alert_rule 12 None)"

lemma hourly_simps [simp]:
  "sound_env (hourly a k)" "di_time (hourly a k) i = k * HOUR" "di_deliver (hourly a k) = a" "di_write_ok (hourly a k) i"
  by (simp_all add: hourly_def sound_env_def)

theorem notifications_settle_witness:
  "map ae_webhook (dispatch_all \<lparr>fl_enabled = True, fl_url = Some ''https://hook'', fl_secret = None\<rparr>
     (map (hourly (\<lambda>_. Some ''500'')) [0, 1, 2, 3, 4, 5]) [sample_event]) \<in> {[Wh_delivered], [Wh_failed]}"
  using notifications_settle [of "[sample_event]" "\<lparr>fl_enabled = True, fl_url = Some ''https://hook'', fl_secret = None\<rparr>"
      "''https://hook''" "hourly (\<lambda>_. Some ''500'') 0" "map (hourly (\<lambda>_. Some ''500'')) [1, 2, 3, 4, 5]"]
  by (auto simp: sample_event_def opened_event_def BATCH_LIMIT_def MAX_WEBHOOK_ATTEMPTS_def HOUR_def list_all2_Cons1)

section \<open>What the counter of attempts does\<close>





section \<open>Unreadable settings\<close>

text \<open>When the settings cannot be read the flags say that no webhook is configured, so a dispatch that reaches
  the database takes the waiting notifications off the list, and no later dispatch sends them.
\<close>

theorem unreadable_settings_drop_notifications:
  "fst (load_alert_flags now None None) = fst (load_alert_flags now (Some Null) None)
   \<and> dispatch_pending (env\<lparr>di_query_ok := True, di_bulk_ok := True\<rparr>) (fst (load_alert_flags now (Some Null) None)) es
     = map (\<lambda>e. if ae_id e \<in> ae_id ` set (pending_rows es) then e\<lparr>ae_webhook := Wh_disabled\<rparr> else e) es
   \<and> e\<lparr>ae_webhook := Wh_disabled\<rparr> \<notin> set (pending_rows es')"
proof -
  have "set (pending_rows es') \<subseteq> {e. ae_webhook e = Wh_pending}"
    using set_take_subset [of BATCH_LIMIT "sort_key ae_fired_at (filter (\<lambda>e. ae_webhook e = Wh_pending) es')"]
    by (auto simp: pending_rows_def)
  then show ?thesis
    by (auto simp: load_alert_flags_def DEFAULT_FLAGS_def read_alert_flags_def trimmed_text_def dispatch_pending_def Let_def)
qed

end
