(* ===== verification/Realtime_Control.thy ===== *)
theory Realtime_Control
  imports Js_Values
begin

text \<open>
  The realtime control plane (\<open>server/services/realtime/controlPlane.ts\<close>): the degradation and failover
  settings an administrator stores, how any stored value is normalised, the audit diff of two
  settings, and the cached reader. The database is an argument: what a read returned, or an error.
\<close>

section \<open>Data\<close>

datatype provider_id = Centrifugo | Supabase_realtime | Polling_builtin

fun provider_text :: "provider_id \<Rightarrow> string" where
  "provider_text Centrifugo = ''centrifugo''"
| "provider_text Supabase_realtime = ''supabase_realtime''"
| "provider_text Polling_builtin = ''polling_builtin''"

definition VALID_PROVIDERS :: "provider_id list" where
  "VALID_PROVIDERS = [Centrifugo, Supabase_realtime, Polling_builtin]"

definition provider_of :: "jsval \<Rightarrow> provider_id option" where
  "provider_of v =
     (case v of JStr s \<Rightarrow> List.find (\<lambda>p. provider_text p = s) VALID_PROVIDERS | _ \<Rightarrow> None)"

record control_plane =
  degraded_mode_enabled :: bool
  disable_typing_on_overload :: bool
  force_polling_on_critical :: bool
  backoff_multiplier :: rat
  degraded_mode_ttl :: rat
  degraded_auto_recover :: bool
  fail_open_if_stale :: bool
  failover_enabled :: bool
  failback_enabled :: bool
  cooldown_seconds :: rat
  stable_window_seconds :: rat
  error_threshold :: rat
  latency_threshold_ms :: rat
  health_window_seconds :: rat
  provider_order :: "provider_id list"
  provider_lock :: "provider_id option"

definition DEFAULT_CONTROL_PLANE :: control_plane where
  "DEFAULT_CONTROL_PLANE =
     \<lparr>degraded_mode_enabled = True, disable_typing_on_overload = True,
      force_polling_on_critical = False, backoff_multiplier = 2, degraded_mode_ttl = 600,
      degraded_auto_recover = True, fail_open_if_stale = True,
      failover_enabled = False, failback_enabled = True, cooldown_seconds = 300,
      stable_window_seconds = 600, error_threshold = 5 / 100, latency_threshold_ms = 2000,
      health_window_seconds = 300,
      provider_order = [Centrifugo, Supabase_realtime, Polling_builtin], provider_lock = None\<rparr>"

section \<open>Normalising stored settings\<close>

definition clamp_number :: "jsval \<Rightarrow> rat \<Rightarrow> rat \<Rightarrow> rat \<Rightarrow> rat" where
  "clamp_number v lo hi fallback =
     (case to_number v of Fin q \<Rightarrow> max lo (min hi q) | _ \<Rightarrow> fallback)"

definition read_order :: "jsval \<Rightarrow> provider_id list" where
  "read_order v =
     (let order = (case v of
                     JArr xs \<Rightarrow> List.map_filter provider_of xs
                   | _ \<Rightarrow> provider_order DEFAULT_CONTROL_PLANE)
      in if Polling_builtin \<in> set order then order else order @ [Polling_builtin])"

definition normalize_control_plane :: "jsval \<Rightarrow> control_plane" where
  "normalize_control_plane src =
     (let field = get_prop src; d = DEFAULT_CONTROL_PLANE in
      \<lparr>degraded_mode_enabled = (field ''realtime_degraded_mode_enabled'' \<noteq> JBool False),
       disable_typing_on_overload = (field ''realtime_disable_typing_on_overload'' \<noteq> JBool False),
       force_polling_on_critical = (field ''realtime_force_polling_on_critical_degradation'' = JBool True),
       backoff_multiplier = clamp_number (field ''realtime_reconnect_backoff_multiplier_on_overload'') 1 10
         (backoff_multiplier d),
       degraded_mode_ttl = clamp_number (field ''realtime_degraded_mode_ttl_seconds'') 30 86400
         (degraded_mode_ttl d),
       degraded_auto_recover = (field ''realtime_degraded_mode_auto_recover'' \<noteq> JBool False),
       fail_open_if_stale = (field ''realtime_fail_open_if_control_plane_stale'' \<noteq> JBool False),
       failover_enabled = (field ''realtime_failover_enabled'' = JBool True),
       failback_enabled = (field ''realtime_failback_enabled'' \<noteq> JBool False),
       cooldown_seconds = clamp_number (field ''realtime_failover_cooldown_seconds'') 30 86400
         (cooldown_seconds d),
       stable_window_seconds = clamp_number (field ''realtime_failback_stable_window_seconds'') 30 86400
         (stable_window_seconds d),
       error_threshold = clamp_number (field ''realtime_failover_error_threshold'') 0 1
         (error_threshold d),
       latency_threshold_ms = clamp_number (field ''realtime_failover_latency_threshold_ms'') 50 60000
         (latency_threshold_ms d),
       health_window_seconds = clamp_number (field ''realtime_failover_health_window_seconds'') 30 86400
         (health_window_seconds d),
       provider_order = read_order (field ''realtime_provider_order''),
       provider_lock = provider_of (field ''realtime_provider_lock'')\<rparr>)"

text \<open>The settings as the object that is stored.\<close>

definition num :: "rat \<Rightarrow> jsval" where
  "num q = JNum (Fin q)"

definition control_plane_entries :: "control_plane \<Rightarrow> (string \<times> jsval) list" where
  "control_plane_entries c =
     [(''realtime_degraded_mode_enabled'', JBool (degraded_mode_enabled c)),
      (''realtime_disable_typing_on_overload'', JBool (disable_typing_on_overload c)),
      (''realtime_force_polling_on_critical_degradation'', JBool (force_polling_on_critical c)),
      (''realtime_reconnect_backoff_multiplier_on_overload'', num (backoff_multiplier c)),
      (''realtime_degraded_mode_ttl_seconds'', num (degraded_mode_ttl c)),
      (''realtime_degraded_mode_auto_recover'', JBool (degraded_auto_recover c)),
      (''realtime_fail_open_if_control_plane_stale'', JBool (fail_open_if_stale c)),
      (''realtime_failover_enabled'', JBool (failover_enabled c)),
      (''realtime_failback_enabled'', JBool (failback_enabled c)),
      (''realtime_failover_cooldown_seconds'', num (cooldown_seconds c)),
      (''realtime_failback_stable_window_seconds'', num (stable_window_seconds c)),
      (''realtime_failover_error_threshold'', num (error_threshold c)),
      (''realtime_failover_latency_threshold_ms'', num (latency_threshold_ms c)),
      (''realtime_failover_health_window_seconds'', num (health_window_seconds c)),
      (''realtime_provider_order'', JArr (map (\<lambda>p. JStr (provider_text p)) (provider_order c))),
      (''realtime_provider_lock'',
        case provider_lock c of None \<Rightarrow> Null | Some p \<Rightarrow> JStr (provider_text p))]"

definition control_plane_json :: "control_plane \<Rightarrow> jsval" where
  "control_plane_json c = JObj (control_plane_entries c)"

definition control_plane_ok :: "control_plane \<Rightarrow> bool" where
  "control_plane_ok c \<longleftrightarrow>
     1 \<le> backoff_multiplier c \<and> backoff_multiplier c \<le> 10
     \<and> 30 \<le> degraded_mode_ttl c \<and> degraded_mode_ttl c \<le> 86400
     \<and> 30 \<le> cooldown_seconds c \<and> cooldown_seconds c \<le> 86400
     \<and> 30 \<le> stable_window_seconds c \<and> stable_window_seconds c \<le> 86400
     \<and> 0 \<le> error_threshold c \<and> error_threshold c \<le> 1
     \<and> 50 \<le> latency_threshold_ms c \<and> latency_threshold_ms c \<le> 60000
     \<and> 30 \<le> health_window_seconds c \<and> health_window_seconds c \<le> 86400
     \<and> Polling_builtin \<in> set (provider_order c)"

lemma clamp_number_bounds:
  "lo \<le> hi \<Longrightarrow> lo \<le> fallback \<Longrightarrow> fallback \<le> hi
   \<Longrightarrow> lo \<le> clamp_number v lo hi fallback \<and> clamp_number v lo hi fallback \<le> hi"
  by (auto simp: clamp_number_def split: jsnum.split)

lemma clamp_number_id: "lo \<le> q \<Longrightarrow> q \<le> hi \<Longrightarrow> clamp_number (num q) lo hi d = q"
  by (simp add: clamp_number_def num_def)

lemma provider_of_text [simp]: "provider_of (JStr (provider_text p)) = Some p"
  by (cases p) (simp_all add: provider_of_def VALID_PROVIDERS_def)

lemma provider_of_Null [simp]: "provider_of Null = None"
  by (simp add: provider_of_def)

lemma map_filter_providers:
  "List.map_filter provider_of (map (\<lambda>p. JStr (provider_text p)) ps) = ps"
  by (induction ps) (simp_all add: List.map_filter_def)

lemma read_order_polling: "Polling_builtin \<in> set (read_order v)"
  by (simp add: read_order_def Let_def)

lemma normalize_control_plane_ok: "control_plane_ok (normalize_control_plane src)"
  unfolding control_plane_ok_def normalize_control_plane_def Let_def
  by (simp add: read_order_polling clamp_number_bounds DEFAULT_CONTROL_PLANE_def)

lemma normalize_control_plane_json:
  assumes "control_plane_ok c" shows "normalize_control_plane (control_plane_json c) = c"
proof -
  have l: "provider_of (case provider_lock c of None \<Rightarrow> Null | Some p \<Rightarrow> JStr (provider_text p)) = provider_lock c"
    by (cases "provider_lock c") simp_all
  have o: "read_order (JArr (map (\<lambda>p. JStr (provider_text p)) (provider_order c))) = provider_order c"
    using assms by (simp add: read_order_def map_filter_providers control_plane_ok_def)
  have b: "(JBool x \<noteq> JBool False) = x" "(JBool x = JBool True) = x" for x by auto
  show ?thesis
    using assms unfolding normalize_control_plane_def control_plane_json_def control_plane_entries_def
      control_plane_ok_def Let_def
    by (simp add: l o b clamp_number_id)
qed

interpretation control_plane_reader:
  normalizer "\<lambda>v. Some (normalize_control_plane v)" control_plane_json control_plane_ok
  by unfold_locales (auto simp: normalize_control_plane_ok normalize_control_plane_json)

section \<open>The audit diff\<close>

definition diff_control_plane ::
  "control_plane \<Rightarrow> control_plane \<Rightarrow> (string \<times> jsval \<times> jsval) list" where
  "diff_control_plane prev next =
     List.map_filter
       (\<lambda>((k, p), (_, n)). if p = n then None else Some (k, p, n))
       (zip (control_plane_entries prev) (control_plane_entries next))"

lemma map_filter_Nil: "List.map_filter f xs = [] \<longleftrightarrow> (\<forall>x\<in>set xs. f x = None)"
  by (induction xs) (auto simp: List.map_filter_def split: option.splits)

lemma provider_text_inj [simp]: "provider_text p = provider_text q \<longleftrightarrow> p = q"
  by (cases p; cases q) simp_all

lemma provider_texts_inj:
  "map (\<lambda>p. JStr (provider_text p)) ps = map (\<lambda>p. JStr (provider_text p)) qs \<longleftrightarrow> ps = qs"
  by (intro inj_map_eq_map inj_onI) simp

lemma control_plane_entries_inj: "control_plane_entries a = control_plane_entries b \<Longrightarrow> a = b"
  by (cases a; cases b)
    (auto simp: control_plane_entries_def num_def provider_texts_inj split: option.splits)

lemma diff_control_plane_Nil: "diff_control_plane a b = [] \<longleftrightarrow> a = b"
proof
  assume "diff_control_plane a b = []"
  then have "control_plane_entries a = control_plane_entries b"
    by (auto simp: diff_control_plane_def map_filter_Nil control_plane_entries_def split: if_splits)
  then show "a = b" by (rule control_plane_entries_inj)
next
  assume "a = b"
  then show "diff_control_plane a b = []"
    by (auto simp: diff_control_plane_def map_filter_Nil zip_same_conv_map split: prod.split)
qed

section \<open>The cached reader\<close>

definition CACHE_TTL_MS :: int where
  "CACHE_TTL_MS = 30000"

type_synonym plane_cache = "(control_plane \<times> int) option"

text \<open>\<open>read\<close> is the stored value (\<open>Undefined\<close> when there is no row), or \<open>None\<close> on an error.\<close>

definition load_control_plane ::
  "plane_cache \<Rightarrow> int \<Rightarrow> bool \<Rightarrow> jsval option \<Rightarrow> control_plane \<times> plane_cache" where
  "load_control_plane cache t force read =
     (case (if force then None else cache) of
        Some (v, loaded) \<Rightarrow>
          if t - loaded < CACHE_TTL_MS then (v, cache)
          else (let v' = (case read of None \<Rightarrow> DEFAULT_CONTROL_PLANE | Some r \<Rightarrow> normalize_control_plane r)
                in (v', Some (v', t)))
      | None \<Rightarrow>
          (let v' = (case read of None \<Rightarrow> DEFAULT_CONTROL_PLANE | Some r \<Rightarrow> normalize_control_plane r)
           in (v', Some (v', t))))"

text \<open>Saving writes the normalised settings and drops the cache; a failed write throws and keeps it.\<close>

definition save_control_plane ::
  "plane_cache \<Rightarrow> jsval \<Rightarrow> bool \<Rightarrow> (control_plane option) \<times> (jsval option) \<times> plane_cache" where
  "save_control_plane cache next write_ok =
     (let normalized = normalize_control_plane next
      in if write_ok then (Some normalized, Some (control_plane_json normalized), None)
         else (None, None, cache))"

lemma load_control_plane_ok:
  assumes "\<And>v loaded. cache = Some (v, loaded) \<Longrightarrow> control_plane_ok v"
  shows "control_plane_ok (fst (load_control_plane cache t force read))"
proof -
  have "control_plane_ok DEFAULT_CONTROL_PLANE"
    by (simp add: control_plane_ok_def DEFAULT_CONTROL_PLANE_def)
  then show ?thesis
    using assms normalize_control_plane_ok
    by (auto simp: load_control_plane_def Let_def split: option.splits if_splits)
qed

text \<open>Any sequence of reads, saves and explicit drops of the cache on a server that starts with an empty cache.\<close>

datatype plane_event = Plane_read int bool "jsval option" | Plane_save jsval bool | Plane_dropped

fun plane_step :: "plane_event \<Rightarrow> plane_cache \<Rightarrow> plane_cache" where
  "plane_step (Plane_read t force read) c = snd (load_control_plane c t force read)"
| "plane_step (Plane_save next write_ok) c = snd (snd (save_control_plane c next write_ok))"
| "plane_step Plane_dropped c = None"

definition plane_run :: "plane_event list \<Rightarrow> plane_cache" where
  "plane_run evs = fold plane_step evs None"

lemma plane_run_ok: "plane_run evs = Some (v, loaded) \<Longrightarrow> control_plane_ok v"
proof (induction evs arbitrary: v loaded rule: rev_induct)
  case (snoc e evs)
  have ok: "control_plane_ok (fst (load_control_plane (plane_run evs) t force read))" for t force read
    using snoc.IH by (rule load_control_plane_ok)
  have step: "plane_step e (plane_run evs) = Some (v, loaded)" using snoc.prems by (simp add: plane_run_def)
  show ?case
  proof (cases e)
    case (Plane_read t force read)
    have "snd (load_control_plane c t force read) = Some (v, loaded) \<Longrightarrow> fst (load_control_plane c t force read) = v" for c
      by (auto simp: load_control_plane_def Let_def split: option.splits if_splits)
    then show ?thesis using step ok Plane_read by (metis plane_step.simps(1))
  next
    case (Plane_save next' write_ok)
    then show ?thesis using step snoc.IH by (auto simp: save_control_plane_def Let_def split: if_splits)
  qed (use step in simp)
qed (simp add: plane_run_def)

section \<open>Properties\<close>

text \<open>C40: After any reads, saves and drops of the cache, whatever row is stored, by whomever, and also when there is none or it cannot be read, the settings
  that the next read hands out are within their bounds and keep polling as a transport. What is
  saved reads back as the normalised settings, and the audit diff of
  two settings is empty exactly when they are equal.\<close>

theorem control_plane_settings:
  "control_plane_ok (fst (load_control_plane (plane_run evs) t force read))
   \<and> (case save_control_plane (plane_run evs) raw True of
        (v, stored, cache') \<Rightarrow> v = Some (normalize_control_plane raw) \<and> control_plane_ok (normalize_control_plane raw)
          \<and> fst (load_control_plane cache' t force stored) = normalize_control_plane raw)
   \<and> (diff_control_plane a b = [] \<longleftrightarrow> a = b)"
proof (intro conjI)
  show "control_plane_ok (fst (load_control_plane (plane_run evs) t force read))"
    by (rule load_control_plane_ok) (rule plane_run_ok)
qed (simp_all add: save_control_plane_def load_control_plane_def Let_def diff_control_plane_Nil
    normalize_control_plane_ok normalize_control_plane_json [OF normalize_control_plane_ok])

end
