(* ===== verification/Effective_Policy.thy ===== *)
theory Effective_Policy
  imports Realtime_Control "HOL-Library.AList"
begin

text \<open>
  The effective realtime policy a client gets in a handshake
  (\<open>server/services/realtime/effectivePolicy.ts\<close>), with the call control plane it reads
  (\<open>server/services/calls/controlPlane.ts\<close>) and the cache of active automatic actions
  (\<open>server/services/observability/autoActionsCache.ts\<close>). The digest (the first twelve hexadecimal
  digits of a SHA-1) and what the database reads returned are arguments. Stored settings are untyped
  objects, read as the code reads them.
\<close>

section \<open>Objects\<close>

type_synonym props = "(string \<times> jsval) list"

definition prop_of :: "props \<Rightarrow> string \<Rightarrow> jsval" where
  "prop_of ps k = (case map_of ps k of None \<Rightarrow> Undefined | Some v \<Rightarrow> v)"

text \<open>
  \<open>{ ...base, ...value }\<close>. A value that is no object adds nothing that is read (a text or an array
  would add index keys only).
\<close>

definition spread :: "props \<Rightarrow> jsval \<Rightarrow> props" where
  "spread base v = (case v of JObj ps \<Rightarrow> foldr (\<lambda>(k, x) m. AList.update k x m) ps base | _ \<Rightarrow> base)"

definition js_and :: "jsval \<Rightarrow> jsval \<Rightarrow> jsval" where
  "js_and a b = (if truthy a then b else a)"

lemma truthy_js_and [realtime_simps]: "truthy (js_and a b) \<longleftrightarrow> truthy a \<and> truthy b"
  by (auto simp: js_and_def)

lemma prop_of_spread:
  "prop_of (spread base v) k = (if has_prop v k then get_prop v k else prop_of base k)"
proof (cases v)
  case (JObj ps)
  have "map_of (foldr (\<lambda>(k, x) m. AList.update k x m) ps base) k
    = (case map_of ps k of None \<Rightarrow> map_of base k | Some x \<Rightarrow> Some x)"
    by (induction ps) (auto simp: update_conv' split: option.split)
  then show ?thesis by (auto simp: JObj spread_def prop_of_def split: option.split)
qed (simp_all add: spread_def)

section \<open>The call control plane\<close>

definition DEFAULT_CALL_CONTROL_PLANE :: props where
  "DEFAULT_CALL_CONTROL_PLANE =
     [(''enabled'', JBool False), (''primary_provider'', JStr ''livekit''),
      (''secondary_provider'', JStr ''jitsi''), (''fallback_policy'', JStr ''lenient''),
      (''max_participants'', num 8), (''default_audio_bitrate_kbps'', num 32),
      (''default_video_bitrate_kbps'', num 1200), (''default_video_profile'', JStr ''h264_baseline_720p''),
      (''recording_default_enabled'', JBool False), (''recording_default_type'', JStr ''composite''),
      (''retention_default_days'', num 30), (''verification_required_for_visitor_calls'', JBool True),
      (''voice_calls_enabled_global'', JBool True), (''video_calls_enabled_global'', JBool True),
      (''call_recording_enabled_global'', JBool False), (''call_queue_enabled_global'', JBool True),
      (''visitor_initiated_audio_enabled_global'', JBool True),
      (''visitor_initiated_video_enabled_global'', JBool True),
      (''queue_offer_timeout_seconds'', num 25), (''queue_max_wait_seconds'', num 180),
      (''auto_expire_queue_after_seconds'', num 600), (''callback_offer_after_timeout'', JBool True),
      (''audio_queue_enabled'', JBool True), (''video_queue_enabled'', JBool True)]"

definition DEFAULT_WORKSPACE_OVERRIDES :: props where
  "DEFAULT_WORKSPACE_OVERRIDES =
     [(''allow_voice'', JBool True), (''allow_video'', JBool True), (''allow_recording'', JBool False),
      (''provider_override'', Null), (''verification_policy'', JStr ''inherit''),
      (''voice_calls_enabled'', JBool True), (''video_calls_enabled'', JBool True),
      (''call_recording_enabled'', JBool False), (''call_queue_enabled'', JBool True),
      (''visitor_initiated_audio_enabled'', JBool True), (''visitor_initiated_video_enabled'', JBool True),
      (''default_video_quality'', JStr ''auto'')]"

definition CALL_CACHE_TTL_MS :: int where
  "CALL_CACHE_TTL_MS = 30000"

type_synonym call_cache = "(props \<times> int) option"

text \<open>\<open>stored\<close> is the row's value, \<open>Undefined\<close> when there is none or the read failed.\<close>

definition load_call_control_plane :: "call_cache \<Rightarrow> int \<Rightarrow> bool \<Rightarrow> jsval \<Rightarrow> props \<times> call_cache" where
  "load_call_control_plane cache t force stored =
     (let merged = spread DEFAULT_CALL_CONTROL_PLANE (if truthy stored then stored else JObj []);
          fresh = (merged, Some (merged, t))
      in if force then fresh
         else (case cache of
                 Some (v, loaded) \<Rightarrow> if t - loaded < CALL_CACHE_TTL_MS then (v, cache) else fresh
               | None \<Rightarrow> fresh))"

text \<open>
  Saving reads the row afresh, which fills the cache, and merges; \<open>None\<close> is the thrown error of a
  failed write. The row written comes with the merged value; a success drops the cache.
\<close>

definition save_call_control_plane ::
  "call_cache \<Rightarrow> int \<Rightarrow> jsval \<Rightarrow> jsval \<Rightarrow> bool \<Rightarrow> props option \<times> jsval option \<times> call_cache" where
  "save_call_control_plane cache t stored next write_ok =
     (let (current, cache') = load_call_control_plane cache t True stored;
          merged = spread current next
      in if write_ok then (Some merged, Some (JObj merged), None) else (None, None, cache'))"

definition load_workspace_call_overrides :: "jsval option \<Rightarrow> props" where
  "load_workspace_call_overrides row =
     (case row of
        None \<Rightarrow> DEFAULT_WORKSPACE_OVERRIDES
      | Some cfg \<Rightarrow> spread DEFAULT_WORKSPACE_OVERRIDES (if truthy cfg then cfg else JObj []))"

definition save_workspace_call_overrides :: "jsval option \<Rightarrow> jsval \<Rightarrow> bool \<Rightarrow> (props \<times> jsval) option" where
  "save_workspace_call_overrides row patch write_ok =
     (let merged = spread (load_workspace_call_overrides row) patch
      in if write_ok then Some (merged, JObj merged) else None)"

record call_channels =
  voice :: jsval
  video :: jsval
  recording :: jsval
  queue :: jsval
  visitor_audio :: jsval
  visitor_video :: jsval

definition load_effective_call_channels :: "props \<Rightarrow> props \<Rightarrow> call_channels" where
  "load_effective_call_channels cp ws =
     (if \<not> truthy (prop_of cp ''enabled'') then
        \<lparr>voice = JBool False, video = JBool False, recording = JBool False, queue = JBool False,
         visitor_audio = JBool False, visitor_video = JBool False\<rparr>
      else
        (let g = prop_of cp; w = prop_of ws;
             voice_on = js_and (g ''voice_calls_enabled_global'') (w ''voice_calls_enabled'');
             video_on = js_and (g ''video_calls_enabled_global'') (w ''video_calls_enabled'')
         in \<lparr>voice = voice_on, video = video_on,
             recording = js_and (g ''call_recording_enabled_global'') (w ''call_recording_enabled''),
             queue = js_and (g ''call_queue_enabled_global'') (w ''call_queue_enabled''),
             visitor_audio = js_and (js_and voice_on (g ''visitor_initiated_audio_enabled_global''))
               (w ''visitor_initiated_audio_enabled''),
             visitor_video = js_and (js_and video_on (g ''visitor_initiated_video_enabled_global''))
               (w ''visitor_initiated_video_enabled'')\<rparr>))"

section \<open>Active automatic actions\<close>

record cached_action =
  action_type :: string
  action_slug :: string
  action_expires :: "int option"

record actions_cache =
  cached_actions :: "cached_action list"
  last_refresh_at :: int

definition STALE_FAIL_OPEN_MS :: int where
  "STALE_FAIL_OPEN_MS = 60000"

text \<open>A refresh replaces the cache; a failed read leaves it. An unreadable expiry is never later than now.\<close>

definition refresh_actions :: "cached_action list option \<Rightarrow> int \<Rightarrow> actions_cache \<Rightarrow> actions_cache" where
  "refresh_actions rows t c =
     (case rows of None \<Rightarrow> c | Some as \<Rightarrow> \<lparr>cached_actions = as, last_refresh_at = t\<rparr>)"

definition is_action_active :: "actions_cache \<Rightarrow> int \<Rightarrow> string \<Rightarrow> bool" where
  "is_action_active c t name \<longleftrightarrow>
     last_refresh_at c \<noteq> 0 \<and> t - last_refresh_at c \<le> STALE_FAIL_OPEN_MS
     \<and> (\<exists>a\<in>set (cached_actions c). action_type a = name
          \<and> (case action_expires a of None \<Rightarrow> False | Some e \<Rightarrow> t < e))"

section \<open>The snapshot\<close>

datatype wire_provider = Wire_centrifugo | Wire_supabase | Wire_polling | Wire_disabled

fun wire_text :: "wire_provider \<Rightarrow> string" where
  "wire_text Wire_centrifugo = ''centrifugo''"
| "wire_text Wire_supabase = ''supabase''"
| "wire_text Wire_polling = ''polling_builtin''"
| "wire_text Wire_disabled = ''disabled''"

fun to_wire_vendor :: "provider_id \<Rightarrow> wire_provider" where
  "to_wire_vendor Centrifugo = Wire_centrifugo"
| "to_wire_vendor Supabase_realtime = Wire_supabase"
| "to_wire_vendor Polling_builtin = Wire_polling"

record policy_snapshot =
  snap_provider :: wire_provider
  provider_locked :: bool
  degraded_mode :: bool
  force_polling :: bool
  typing_suppressed :: bool
  reconnect_backoff_multiplier :: rat
  throttle_new_conversations :: bool
  slow_mode_messages :: bool
  operator_load_shedding :: bool
  priority_only_mode :: bool
  effective_call_provider :: string
  call_degraded_mode :: bool
  audio_only_mode :: bool
  video_disabled :: bool
  recording_forced :: bool
  call_failover_epoch :: string
  voice_enabled :: bool
  video_enabled :: bool
  recording_enabled :: bool
  queue_enabled :: bool
  visitor_initiated_audio :: bool
  visitor_initiated_video :: bool
  pre_chat_required :: bool
  failover_epoch :: string

record full_snapshot = policy_snapshot +
  policy_version :: string
  expires_at :: int

definition POLICY_SNAPSHOT_TTL_MS :: int where
  "POLICY_SNAPSHOT_TTL_MS = 60000"

definition SAFE_DEFAULT :: "int \<Rightarrow> full_snapshot" where
  "SAFE_DEFAULT t =
     \<lparr>snap_provider = Wire_centrifugo, provider_locked = False, degraded_mode = False,
      force_polling = False, typing_suppressed = False, reconnect_backoff_multiplier = 1,
      throttle_new_conversations = False, slow_mode_messages = False, operator_load_shedding = False,
      priority_only_mode = False, effective_call_provider = ''disabled'', call_degraded_mode = False,
      audio_only_mode = False, video_disabled = False, recording_forced = False,
      call_failover_epoch = ''safe-default'', voice_enabled = False, video_enabled = False,
      recording_enabled = False, queue_enabled = False, visitor_initiated_audio = False,
      visitor_initiated_video = False, pre_chat_required = False, failover_epoch = ''safe-default'',
      policy_version = ''safe-default'', expires_at = t + POLICY_SNAPSHOT_TTL_MS\<rparr>"

definition bit :: "bool \<Rightarrow> string" where
  "bit b = (if b then ''1'' else ''0'')"

fun join_bar :: "string list \<Rightarrow> string" where
  "join_bar [] = []"
| "join_bar [x] = x"
| "join_bar (x # y # xs) = x @ ''|'' @ join_bar (y # xs)"

text \<open>What is fed to the digest.\<close>

definition failover_epoch_input :: "wire_provider \<Rightarrow> bool \<Rightarrow> bool \<Rightarrow> string option \<Rightarrow> string" where
  "failover_epoch_input provider locked polling last_failover_at =
     join_bar [wire_text provider, bit locked, bit polling,
       (case last_failover_at of None \<Rightarrow> [] | Some s \<Rightarrow> s)]"

definition policy_version_input :: "policy_snapshot \<Rightarrow> string" where
  "policy_version_input s =
     join_bar [wire_text (snap_provider s), bit (provider_locked s), bit (degraded_mode s),
       bit (force_polling s), bit (typing_suppressed s), js_num_text (reconnect_backoff_multiplier s),
       bit (throttle_new_conversations s), bit (slow_mode_messages s), bit (operator_load_shedding s),
       bit (priority_only_mode s), effective_call_provider s, bit (call_degraded_mode s),
       bit (audio_only_mode s), bit (video_disabled s), bit (recording_forced s),
       call_failover_epoch s, bit (voice_enabled s), bit (video_enabled s), bit (recording_enabled s),
       bit (queue_enabled s), bit (visitor_initiated_audio s), bit (visitor_initiated_video s),
       bit (pre_chat_required s), failover_epoch s]"

text \<open>
  What the reads returned. \<open>call_plane\<close> is \<open>None\<close> when that read failed; \<open>channels\<close> is \<open>None\<close> when the
  workspace's channels could not be read or were passed as unavailable. A failed read of the control
  plane or of the failover state makes the whole input \<open>None\<close>.
\<close>

record policy_inputs =
  plane :: control_plane
  engine_provider :: provider_id
  last_failover_text :: "string option"
  call_plane :: "props option"
  actions :: actions_cache
  workspace_given :: bool
  channels :: "call_channels option"
  pre_chat :: bool

definition call_provider_value :: "policy_inputs \<Rightarrow> jsval" where
  "call_provider_value i =
     (case call_plane i of
        Some cp \<Rightarrow> if truthy (prop_of cp ''enabled'') then prop_of cp ''primary_provider'' else JStr ''disabled''
      | None \<Rightarrow> JStr ''disabled'')"

definition base_snapshot :: "(string \<Rightarrow> string) \<Rightarrow> policy_inputs \<Rightarrow> int \<Rightarrow> string \<Rightarrow> policy_snapshot" where
  "base_snapshot digest i t call_provider =
     (let p = plane i;
          active = is_action_active (actions i) t;
          target = (case provider_lock p of Some l \<Rightarrow> l | None \<Rightarrow> engine_provider i);
          degraded = (active ''mark_system_degraded'' \<and> degraded_mode_enabled p);
          polling = (active ''force_polling_mode'' \<or> degraded \<and> force_polling_on_critical p);
          provider = (if polling \<and> to_wire_vendor target \<noteq> Wire_polling then Wire_polling
                      else to_wire_vendor target);
          typing = (active ''disable_typing_temporarily'' \<or> degraded \<and> disable_typing_on_overload p);
          backoff = (if active ''increase_reconnect_backoff'' \<or> degraded
                     then max 1 (backoff_multiplier p) else 1);
          locked = (provider_lock p \<noteq> None);
          call_degraded = (active ''mark_system_degraded''
            \<and> (case call_plane i of Some cp \<Rightarrow> truthy (prop_of cp ''enabled'') | None \<Rightarrow> False));
          audio_only = active ''audio_only_mode'';
          no_video = (active ''video_disabled'' \<or> audio_only);
          forced = active ''recording_forced'';
          call_epoch = digest (join_bar [call_provider, bit call_degraded, bit audio_only, bit no_video, bit forced]);
          ch = (if workspace_given i then channels i else None);
          on = (\<lambda>f. case ch of None \<Rightarrow> False | Some c \<Rightarrow> truthy (f c))
      in \<lparr>snap_provider = provider, provider_locked = locked, degraded_mode = degraded,
          force_polling = polling, typing_suppressed = typing, reconnect_backoff_multiplier = backoff,
          throttle_new_conversations = active ''throttle_new_conversations'',
          slow_mode_messages = active ''slow_mode_messages'',
          operator_load_shedding = active ''operator_load_shedding'',
          priority_only_mode = active ''priority_only_mode'',
          effective_call_provider = call_provider, call_degraded_mode = call_degraded,
          audio_only_mode = audio_only, video_disabled = no_video, recording_forced = forced,
          call_failover_epoch = call_epoch, voice_enabled = on voice,
          video_enabled = (on video \<and> \<not> no_video),
          recording_enabled = (ch \<noteq> None \<and> (on recording \<or> forced)), queue_enabled = on queue,
          visitor_initiated_audio = on visitor_audio,
          visitor_initiated_video = (on visitor_video \<and> \<not> no_video),
          pre_chat_required = pre_chat i,
          failover_epoch = digest (failover_epoch_input provider locked polling (last_failover_text i))\<rparr>)"

text \<open>A call provider that is not a text makes the version digest throw, which ends in the safe default.\<close>

definition resolve_effective_policy :: "(string \<Rightarrow> string) \<Rightarrow> policy_inputs option \<Rightarrow> int \<Rightarrow> full_snapshot" where
  "resolve_effective_policy digest inputs t =
     (case inputs of
        None \<Rightarrow> SAFE_DEFAULT t
      | Some i \<Rightarrow>
          (case call_provider_value i of
             JStr provider \<Rightarrow>
               (let base = base_snapshot digest i t provider
                in policy_snapshot.extend base
                     (full_snapshot.fields (digest (policy_version_input base)) (t + POLICY_SNAPSHOT_TTL_MS)))
           | _ \<Rightarrow> SAFE_DEFAULT t))"


section \<open>Texts joined by bars\<close>

lemma append_bar_cancel:
  assumes "CHR ''|'' \<notin> set x" and "CHR ''|'' \<notin> set y"
  shows "x @ CHR ''|'' # u = y @ CHR ''|'' # v \<longleftrightarrow> x = y \<and> u = v"
  using assms
proof (induction x arbitrary: y)
  case Nil
  then show ?case by (cases y) auto
next
  case (Cons a x)
  then show ?case by (cases y) auto
qed

lemma join_bar_inject:
  assumes "length xs = length ys" and "\<forall>x\<in>set (butlast xs) \<union> set (butlast ys). CHR ''|'' \<notin> set x"
  shows "join_bar xs = join_bar ys \<longleftrightarrow> xs = ys"
  using assms
proof (induction xs ys rule: list_induct2)
  case (Cons x xs y ys)
  then show ?case
    by (cases xs; cases ys) (auto simp: append_bar_cancel)
qed simp

lemma bit_no_bar [simp]: "CHR ''|'' \<notin> set (bit b)"
  by (simp add: bit_def)

lemma bit_inject [simp]: "bit a = bit b \<longleftrightarrow> a = b"
  by (simp add: bit_def)

lemma wire_text_no_bar [simp]: "CHR ''|'' \<notin> set (wire_text w)"
  by (cases w) auto

lemma wire_text_inject [simp]: "wire_text a = wire_text b \<longleftrightarrow> a = b"
  by (cases a; cases b) auto

lemma digits_no_bar: "\<forall>c\<in>set s. is_digit c \<Longrightarrow> CHR ''|'' \<notin> set s"
  by (auto simp: is_digit_def)

lemma show_nat_no_bar [simp]: "CHR ''|'' \<notin> set (show_nat n)"
  by (rule digits_no_bar [OF show_nat_digits])

lemma js_num_text_no_bar [simp]: "CHR ''|'' \<notin> set (js_num_text q)"
  by (auto simp: js_num_text_def show_scaled_def show_int_def Let_def pad_left_def split: option.split)

lemma policy_version_input_inject:
  assumes "CHR ''|'' \<notin> set (failover_epoch b)" "CHR ''|'' \<notin> set (failover_epoch b')"
    "CHR ''|'' \<notin> set (call_failover_epoch b)" "CHR ''|'' \<notin> set (call_failover_epoch b')"
    "CHR ''|'' \<notin> set (effective_call_provider b)" "CHR ''|'' \<notin> set (effective_call_provider b')"
  shows "policy_version_input b = policy_version_input b' \<longleftrightarrow>
        b\<lparr>reconnect_backoff_multiplier := 0\<rparr> = b'\<lparr>reconnect_backoff_multiplier := 0\<rparr>
        \<and> js_num_text (reconnect_backoff_multiplier b) = js_num_text (reconnect_backoff_multiplier b')"
proof -
  have "policy_version_input b = policy_version_input b' \<longleftrightarrow>
    [wire_text (snap_provider b), bit (provider_locked b), bit (degraded_mode b),
       bit (force_polling b), bit (typing_suppressed b), js_num_text (reconnect_backoff_multiplier b),
       bit (throttle_new_conversations b), bit (slow_mode_messages b), bit (operator_load_shedding b),
       bit (priority_only_mode b), effective_call_provider b, bit (call_degraded_mode b),
       bit (audio_only_mode b), bit (video_disabled b), bit (recording_forced b),
       call_failover_epoch b, bit (voice_enabled b), bit (video_enabled b), bit (recording_enabled b),
       bit (queue_enabled b), bit (visitor_initiated_audio b), bit (visitor_initiated_video b),
       bit (pre_chat_required b), failover_epoch b]
    = [wire_text (snap_provider b'), bit (provider_locked b'), bit (degraded_mode b'),
       bit (force_polling b'), bit (typing_suppressed b'), js_num_text (reconnect_backoff_multiplier b'),
       bit (throttle_new_conversations b'), bit (slow_mode_messages b'), bit (operator_load_shedding b'),
       bit (priority_only_mode b'), effective_call_provider b', bit (call_degraded_mode b'),
       bit (audio_only_mode b'), bit (video_disabled b'), bit (recording_forced b'),
       call_failover_epoch b', bit (voice_enabled b'), bit (video_enabled b'), bit (recording_enabled b'),
       bit (queue_enabled b'), bit (visitor_initiated_audio b'), bit (visitor_initiated_video b'),
       bit (pre_chat_required b'), failover_epoch b']"
    unfolding policy_version_input_def
    by (rule join_bar_inject) (use assms in simp_all)
  then show ?thesis by (cases b; cases b') auto
qed

section \<open>Properties\<close>

text \<open>The epoch and the version a client compares are digests of texts that say exactly what they should:
  two transport texts are equal exactly when provider, lock, forced polling and the last switch are, so
  no change of typing, backoff or calls ever tears a socket down; two version texts are equal exactly
  when every field of the policy (the multiplier as shown) is.\<close>

theorem epoch_and_version_texts:
  assumes "\<And>x. CHR ''|'' \<notin> set (digest x)" and "CHR ''|'' \<notin> set cp" and "CHR ''|'' \<notin> set cp'"
    and "b = base_snapshot digest i t cp" and "b' = base_snapshot digest i' t' cp'"
  shows "(failover_epoch_input (snap_provider b) (provider_locked b) (force_polling b) (last_failover_text i)
      = failover_epoch_input (snap_provider b') (provider_locked b') (force_polling b') (last_failover_text i')
      \<longleftrightarrow> snap_provider b = snap_provider b' \<and> provider_locked b = provider_locked b'
        \<and> force_polling b = force_polling b'
        \<and> (case last_failover_text i of None \<Rightarrow> [] | Some s \<Rightarrow> s) = (case last_failover_text i' of None \<Rightarrow> [] | Some s \<Rightarrow> s))
    \<and> failover_epoch b = digest (failover_epoch_input (snap_provider b) (provider_locked b) (force_polling b) (last_failover_text i))
    \<and> (policy_version_input b = policy_version_input b' \<longleftrightarrow>
        b\<lparr>reconnect_backoff_multiplier := 0\<rparr> = b'\<lparr>reconnect_backoff_multiplier := 0\<rparr>
        \<and> js_num_text (reconnect_backoff_multiplier b) = js_num_text (reconnect_backoff_multiplier b'))"
proof (intro conjI)
  have ep: "CHR ''|'' \<notin> set (failover_epoch b)" "CHR ''|'' \<notin> set (failover_epoch b')"
    "CHR ''|'' \<notin> set (call_failover_epoch b)" "CHR ''|'' \<notin> set (call_failover_epoch b')"
    "CHR ''|'' \<notin> set (effective_call_provider b)" "CHR ''|'' \<notin> set (effective_call_provider b')"
    using assms by (simp_all add: base_snapshot_def Let_def)
  show "failover_epoch_input (snap_provider b) (provider_locked b) (force_polling b) (last_failover_text i)
      = failover_epoch_input (snap_provider b') (provider_locked b') (force_polling b') (last_failover_text i')
      \<longleftrightarrow> snap_provider b = snap_provider b' \<and> provider_locked b = provider_locked b'
        \<and> force_polling b = force_polling b'
        \<and> (case last_failover_text i of None \<Rightarrow> [] | Some s \<Rightarrow> s) = (case last_failover_text i' of None \<Rightarrow> [] | Some s \<Rightarrow> s)"
    unfolding failover_epoch_input_def by (subst join_bar_inject) auto
  show "failover_epoch b = digest (failover_epoch_input (snap_provider b) (provider_locked b) (force_polling b) (last_failover_text i))"
    by (simp add: assms(4) base_snapshot_def Let_def)
  show "policy_version_input b = policy_version_input b' \<longleftrightarrow>
        b\<lparr>reconnect_backoff_multiplier := 0\<rparr> = b'\<lparr>reconnect_backoff_multiplier := 0\<rparr>
        \<and> js_num_text (reconnect_backoff_multiplier b) = js_num_text (reconnect_backoff_multiplier b')"
    by (rule policy_version_input_inject) (use ep in simp_all)
qed


definition example_inputs :: policy_inputs where
  "example_inputs =
     \<lparr>plane = DEFAULT_CONTROL_PLANE, engine_provider = Supabase_realtime, last_failover_text = None,
      call_plane = Some (AList.update ''enabled'' (JBool True) DEFAULT_CALL_CONTROL_PLANE),
      actions = \<lparr>cached_actions = [\<lparr>action_type = ''force_polling_mode'', action_slug = ''x'',
          action_expires = Some 9000\<rparr>], last_refresh_at = 1000\<rparr>,
      workspace_given = True,
      channels = Some (load_effective_call_channels
        (AList.update ''enabled'' (JBool True) DEFAULT_CALL_CONTROL_PLANE) DEFAULT_WORKSPACE_OVERRIDES),
      pre_chat = False\<rparr>"

lemma epoch_and_version_texts_witness:
  "policy_version_input (base_snapshot (\<lambda>_. ''0a'') example_inputs 2000 ''livekit'')
     \<noteq> policy_version_input (base_snapshot (\<lambda>_. ''0a'') example_inputs 2000 ''jitsi'')"
proof -
  let ?b = "base_snapshot (\<lambda>_. ''0a'') example_inputs 2000 ''livekit''"
    and ?c = "base_snapshot (\<lambda>_. ''0a'') example_inputs 2000 ''jitsi''"
  have cp: "effective_call_provider ?b = ''livekit''" "effective_call_provider ?c = ''jitsi''"
    by (simp_all add: base_snapshot_def Let_def)
  have "policy_version_input ?b = policy_version_input ?c \<longleftrightarrow>
        ?b\<lparr>reconnect_backoff_multiplier := 0\<rparr> = ?c\<lparr>reconnect_backoff_multiplier := 0\<rparr>
        \<and> js_num_text (reconnect_backoff_multiplier ?b) = js_num_text (reconnect_backoff_multiplier ?c)"
    using epoch_and_version_texts [of "\<lambda>_. ''0a''" "''livekit''" "''jitsi''" ?b example_inputs 2000 ?c example_inputs 2000]
    by simp
  moreover have "effective_call_provider (?b\<lparr>reconnect_backoff_multiplier := 0\<rparr>)
    \<noteq> effective_call_provider (?c\<lparr>reconnect_backoff_multiplier := 0\<rparr>)"
    by (simp add: cp)
  ultimately show ?thesis by metis
qed

text \<open>A workspace never gets a call channel the platform does not allow: voice, video, recording and the
  visitor's own calls are on in the handshake exactly when calls are enabled platform-wide and both
  the platform and the workspace switch that channel on, video never while video is disabled or the
  audio-only mode runs, and recording also when it is forced.\<close>

theorem call_channels_bounded:
  assumes "call_provider_value i = JStr p" and "workspace_given i" and "call_plane i = Some cp"
    and "channels i = Some (load_effective_call_channels cp ws)"
    and "s = resolve_effective_policy digest (Some i) t"
  defines "g \<equiv> \<lambda>k. truthy (prop_of cp k)" and "w \<equiv> \<lambda>k. truthy (prop_of ws k)"
    and "active \<equiv> is_action_active (actions i) t"
  shows "(voice_enabled s \<longleftrightarrow> g ''enabled'' \<and> g ''voice_calls_enabled_global'' \<and> w ''voice_calls_enabled'')
    \<and> (video_enabled s \<longleftrightarrow> g ''enabled'' \<and> g ''video_calls_enabled_global'' \<and> w ''video_calls_enabled''
         \<and> \<not> active ''video_disabled'' \<and> \<not> active ''audio_only_mode'')
    \<and> (recording_enabled s \<longleftrightarrow> g ''enabled'' \<and> g ''call_recording_enabled_global'' \<and> w ''call_recording_enabled''
         \<or> active ''recording_forced'')
    \<and> (visitor_initiated_audio s \<longleftrightarrow> voice_enabled s \<and> g ''visitor_initiated_audio_enabled_global''
         \<and> w ''visitor_initiated_audio_enabled'')
    \<and> (visitor_initiated_video s \<longleftrightarrow> video_enabled s \<and> g ''visitor_initiated_video_enabled_global''
         \<and> w ''visitor_initiated_video_enabled'')"
  using assms(1-4) unfolding assms(5) g_def w_def active_def
  by (auto simp: resolve_effective_policy_def base_snapshot_def Let_def policy_snapshot.defs full_snapshot.defs
      load_effective_call_channels_def truthy_js_and)

lemma call_channels_bounded_witness:
  "\<exists>s. s = resolve_effective_policy (\<lambda>_. []) (Some example_inputs) 2000 \<and> voice_enabled s \<and> \<not> recording_enabled s"
proof -
  let ?cp = "AList.update ''enabled'' (JBool True) DEFAULT_CALL_CONTROL_PLANE"
  have p: "call_provider_value example_inputs = JStr ''livekit''"
    by (simp add: call_provider_value_def example_inputs_def prop_of_def DEFAULT_CALL_CONTROL_PLANE_def)
  have i: "workspace_given example_inputs" "call_plane example_inputs = Some ?cp"
    "channels example_inputs = Some (load_effective_call_channels ?cp DEFAULT_WORKSPACE_OVERRIDES)"
    by (simp_all add: example_inputs_def)
  have a: "\<not> is_action_active (actions example_inputs) 2000 ''recording_forced''"
    by (simp add: example_inputs_def is_action_active_def)
  from call_channels_bounded [OF p i refl, of "\<lambda>_. []" 2000] a show ?thesis
    by (simp add: prop_of_def DEFAULT_CALL_CONTROL_PLANE_def DEFAULT_WORKSPACE_OVERRIDES_def)
qed

text \<open>The overlay of automatic actions is safe: actions that were never loaded or are more than a minute
  behind change nothing (the snapshot is the one without any action); forced polling always selects
  polling, otherwise the manual lock wins over the engine's choice; the reconnect multiplier stays
  between 1 and 10 and is 1 when nothing asks for a slower pace.\<close>

theorem action_overlay_safe:
  assumes "control_plane_ok (plane i)" and "s = base_snapshot digest i t cp"
    and "stale = (last_refresh_at (actions i) = 0 \<or> STALE_FAIL_OPEN_MS < t - last_refresh_at (actions i))"
  shows "(stale \<longrightarrow> s = base_snapshot digest (i\<lparr>actions := \<lparr>cached_actions = [], last_refresh_at = 0\<rparr>\<rparr>) t cp
         \<and> \<not> force_polling s \<and> \<not> typing_suppressed s \<and> reconnect_backoff_multiplier s = 1)
    \<and> snap_provider s = (if force_polling s then Wire_polling
         else to_wire_vendor (case provider_lock (plane i) of Some l \<Rightarrow> l | None \<Rightarrow> engine_provider i))
    \<and> 1 \<le> reconnect_backoff_multiplier s \<and> reconnect_backoff_multiplier s \<le> 10"
proof (intro conjI impI)
  assume st: stale
  have none: "is_action_active (actions i) t = (\<lambda>_. False)"
    using st assms(3) by (auto simp: is_action_active_def)
  have none': "is_action_active \<lparr>cached_actions = [], last_refresh_at = 0\<rparr> t = (\<lambda>_. False)"
    by (auto simp: is_action_active_def)
  show "s = base_snapshot digest (i\<lparr>actions := \<lparr>cached_actions = [], last_refresh_at = 0\<rparr>\<rparr>) t cp"
    using none none' unfolding assms(2)
    by (cases "provider_lock (plane i)") (simp_all add: base_snapshot_def Let_def)
  show "\<not> force_polling s" "\<not> typing_suppressed s" "reconnect_backoff_multiplier s = 1"
    using none by (simp_all add: assms(2) base_snapshot_def Let_def)
next
  show "snap_provider s = (if force_polling s then Wire_polling
         else to_wire_vendor (case provider_lock (plane i) of Some l \<Rightarrow> l | None \<Rightarrow> engine_provider i))"
    by (auto simp: assms(2) base_snapshot_def Let_def)
  show "1 \<le> reconnect_backoff_multiplier s" "reconnect_backoff_multiplier s \<le> 10"
    using assms(1) by (auto simp: assms(2) base_snapshot_def Let_def control_plane_ok_def)
qed

lemma action_overlay_safe_witness:
  "snap_provider (base_snapshot (\<lambda>_. []) example_inputs 2000 ''livekit'') = Wire_polling
   \<and> snap_provider (base_snapshot (\<lambda>_. []) example_inputs 70000 ''livekit'') = Wire_supabase"
proof -
  have ok: "control_plane_ok (plane example_inputs)"
    by (simp add: example_inputs_def control_plane_ok_def DEFAULT_CONTROL_PLANE_def)
  have p: "force_polling (base_snapshot (\<lambda>_. []) example_inputs 2000 ''livekit'')"
    by (simp add: base_snapshot_def Let_def example_inputs_def is_action_active_def STALE_FAIL_OPEN_MS_def)
  have l: "provider_lock (plane example_inputs) = None" "engine_provider example_inputs = Supabase_realtime"
    by (simp_all add: example_inputs_def DEFAULT_CONTROL_PLANE_def)
  have st: "STALE_FAIL_OPEN_MS < 70000 - last_refresh_at (actions example_inputs)"
    by (simp add: example_inputs_def STALE_FAIL_OPEN_MS_def)
  note safe = action_overlay_safe [OF ok refl refl, where digest = "\<lambda>_. []" and cp = "''livekit''"]
  have "\<not> force_polling (base_snapshot (\<lambda>_. []) example_inputs 70000 ''livekit'')"
    using safe [of 70000] st by blast
  moreover have "snap_provider (base_snapshot (\<lambda>_. []) example_inputs t ''livekit'')
    = (if force_polling (base_snapshot (\<lambda>_. []) example_inputs t ''livekit'') then Wire_polling else Wire_supabase)" for t
    using safe [of t] by (simp add: l)
  ultimately show ?thesis using p by simp
qed

end
