(* ===== verification/Enforcement_Resolver.thy ===== *)
theory Enforcement_Resolver
  imports Js_Values "HOL-Library.AList" "HOL-Library.Char_ord" "HOL-Library.List_Lexorder"
    "HOL-Library.Product_Lexorder" "HOL-Library.Multiset"
begin

text \<open>
  The conflict resolver of the enforcement engine
  (\<open>server/services/observability/enforcementConflictResolver.ts\<close>): the actions the matching rules
  want are sorted, one owner is kept per action, superseded actions go, and every change leaves a
  reason. The map by action is an association list in insertion order; texts are compared unit by unit.
\<close>

section \<open>Candidates\<close>

datatype enforcement_action =
    Disable_typing_temporarily
  | Force_polling_mode
  | Increase_reconnect_backoff
  | Mark_system_degraded
  | Throttle_new_conversations
  | Slow_mode_messages
  | Operator_load_shedding
  | Priority_only_mode

fun action_text :: "enforcement_action \<Rightarrow> string" where
  "action_text Disable_typing_temporarily = ''disable_typing_temporarily''"
| "action_text Force_polling_mode = ''force_polling_mode''"
| "action_text Increase_reconnect_backoff = ''increase_reconnect_backoff''"
| "action_text Mark_system_degraded = ''mark_system_degraded''"
| "action_text Throttle_new_conversations = ''throttle_new_conversations''"
| "action_text Slow_mode_messages = ''slow_mode_messages''"
| "action_text Operator_load_shedding = ''operator_load_shedding''"
| "action_text Priority_only_mode = ''priority_only_mode''"

record candidate =
  rule_id :: string
  rule_slug :: string
  rule_priority :: int
  cand_action :: enforcement_action
  scope_type :: string
  scope_key :: string
  trigger_payload :: jsval

record normalized = candidate +
  merged_with :: "string list"
  suppressed :: "(enforcement_action \<times> string) list"
  annotations :: "string list"

datatype reason_kind = Merged | Suppressed | Annotated

record resolution_reason =
  reason_kind :: reason_kind
  reason_action :: enforcement_action
  reason_slug :: string
  reason_detail :: string

record resolution =
  raw_candidates :: "candidate list"
  normalized_candidates :: "normalized list"
  reasons :: "resolution_reason list"
  changed :: bool

definition compare_candidates :: "'a candidate_scheme \<Rightarrow> 'a candidate_scheme \<Rightarrow> int" where
  "compare_candidates a b =
     (if rule_priority b \<noteq> rule_priority a then rule_priority b - rule_priority a
      else if rule_slug a \<noteq> rule_slug b then (if rule_slug a < rule_slug b then - 1 else 1)
      else if action_text (cand_action a) < action_text (cand_action b) then - 1
      else if action_text (cand_action b) < action_text (cand_action a) then 1 else 0)"

text \<open>The stable \<open>sort\<close> with a comparator.\<close>

fun insert_by :: "('a \<Rightarrow> 'a \<Rightarrow> int) \<Rightarrow> 'a \<Rightarrow> 'a list \<Rightarrow> 'a list" where
  "insert_by cmp x [] = [x]"
| "insert_by cmp x (y # ys) = (if cmp x y \<le> 0 then x # y # ys else y # insert_by cmp x ys)"

definition js_sort :: "('a \<Rightarrow> 'a \<Rightarrow> int) \<Rightarrow> 'a list \<Rightarrow> 'a list" where
  "js_sort cmp xs = foldr (insert_by cmp) xs []"

section \<open>The resolver\<close>

type_synonym by_action = "(enforcement_action \<times> normalized) list"

definition quoted :: "string \<Rightarrow> string" where
  "quoted s = [CHR 0x22] @ s @ [CHR 0x22]"

definition start_owner :: "candidate \<Rightarrow> normalized" where
  "start_owner c =
     \<lparr>rule_id = rule_id c, rule_slug = rule_slug c, rule_priority = rule_priority c,
      cand_action = cand_action c, scope_type = scope_type c, scope_key = scope_key c,
      trigger_payload = trigger_payload c, merged_with = [], suppressed = [], annotations = []\<rparr>"

definition merge_candidate :: "candidate \<Rightarrow> by_action \<times> resolution_reason list \<Rightarrow> by_action \<times> resolution_reason list" where
  "merge_candidate c =
     (\<lambda>(m, rs). case map_of m (cand_action c) of
        None \<Rightarrow> (m @ [(cand_action c, start_owner c)], rs)
      | Some e \<Rightarrow>
          if rule_slug e = rule_slug c then (m, rs)
          else (AList.map_entry (cand_action c) (\<lambda>n. n\<lparr>merged_with := merged_with n @ [rule_slug c]\<rparr>) m,
                rs @ [\<lparr>reason_kind = Merged, reason_action = cand_action c, reason_slug = rule_slug c,
                       reason_detail = ''merged into rule '' @ quoted (rule_slug e) @ '' (higher priority ''
                         @ show_int (rule_priority e) @ '')''\<rparr>]))"

definition superseded_by_force_polling :: "enforcement_action list" where
  "superseded_by_force_polling = [Increase_reconnect_backoff, Disable_typing_temporarily]"

definition supersede :: "string \<Rightarrow> enforcement_action \<Rightarrow> by_action \<times> resolution_reason list \<Rightarrow> by_action \<times> resolution_reason list" where
  "supersede fp_slug a =
     (\<lambda>(m, rs). case map_of m a of
        None \<Rightarrow> (m, rs)
      | Some victim \<Rightarrow>
          (AList.delete a
             (AList.map_entry Force_polling_mode
                (\<lambda>n. n\<lparr>suppressed := suppressed n
                   @ [(a, ''superseded by force_polling_mode (rule '' @ quoted fp_slug @ '')'')]\<rparr>) m),
           rs @ [\<lparr>reason_kind = Suppressed, reason_action = a, reason_slug = rule_slug victim,
                  reason_detail = ''force_polling_mode supersedes '' @ action_text a\<rparr>]))"

definition supersession :: "by_action \<times> resolution_reason list \<Rightarrow> by_action \<times> resolution_reason list" where
  "supersession st =
     (case map_of (fst st) Force_polling_mode of
        None \<Rightarrow> st
      | Some fp \<Rightarrow> fold (supersede (rule_slug fp)) superseded_by_force_polling st)"

definition bypass_note :: string where
  "bypass_note = ''priority_only_mode active '' @ [CHR 0xE2, CHR 0x80, CHR 0x94]
     @ '' throttling is bypassed for high-priority conversations''"

definition annotate :: "by_action \<times> resolution_reason list \<Rightarrow> by_action \<times> resolution_reason list" where
  "annotate =
     (\<lambda>(m, rs). case (map_of m Priority_only_mode, map_of m Throttle_new_conversations) of
        (Some pri, Some throttle) \<Rightarrow>
          (AList.map_entry Throttle_new_conversations (\<lambda>n. n\<lparr>annotations := annotations n @ [bypass_note]\<rparr>) m,
           rs @ [\<lparr>reason_kind = Annotated, reason_action = Throttle_new_conversations,
                  reason_slug = rule_slug throttle, reason_detail = bypass_note\<rparr>])
      | _ \<Rightarrow> (m, rs))"

definition membership_key :: "'a candidate_scheme \<Rightarrow> string" where
  "membership_key c = action_text (cand_action c) @ ''|'' @ rule_slug c"

definition same_membership :: "candidate list \<Rightarrow> normalized list \<Rightarrow> bool" where
  "same_membership raw out =
     (let rs = remdups (map membership_key raw); ns = remdups (map membership_key out)
      in length rs = length ns \<and> list_all (\<lambda>k. k \<in> set ns) rs)"

definition resolve_enforcement_conflicts :: "candidate list \<Rightarrow> resolution" where
  "resolve_enforcement_conflicts raw =
     (let merged = fold merge_candidate (js_sort compare_candidates raw) ([], []);
          (m, rs) = annotate (supersession merged);
          out = js_sort compare_candidates (map snd m)
      in \<lparr>raw_candidates = raw, normalized_candidates = out, reasons = rs,
          changed = (\<not> same_membership raw out \<or> list_ex (\<lambda>n. annotations n \<noteq> []) out)\<rparr>)"

section \<open>Sorting\<close>

definition candidate_key :: "'a candidate_scheme \<Rightarrow> int \<times> string \<times> string" where
  "candidate_key c = (- rule_priority c, rule_slug c, action_text (cand_action c))"

lemma compare_key: "compare_candidates a b \<le> 0 \<longleftrightarrow> candidate_key a \<le> candidate_key b"
  by (auto simp: compare_candidates_def candidate_key_def)

lemma insert_by_key: "insert_by compare_candidates = insort_key candidate_key"
proof (intro ext)
  fix x :: "'a candidate_scheme" and ys
  show "insert_by compare_candidates x ys = insort_key candidate_key x ys"
    by (induction ys) (simp_all add: compare_key)
qed

lemma js_sort_key: "js_sort compare_candidates = sort_key candidate_key"
  by (intro ext) (simp add: js_sort_def sort_key_def insert_by_key)

lemma set_js_sort [simp]: "set (js_sort compare_candidates xs) = set xs"
  by (simp add: js_sort_key)

lemma sort_by_key_unique:
  fixes f :: "'a \<Rightarrow> 'k :: linorder"
  assumes "mset xs = mset ys" and "\<And>x y. x \<in> set xs \<Longrightarrow> y \<in> set xs \<Longrightarrow> f x = f y \<Longrightarrow> x = y"
  shows "sort_key f xs = sort_key f ys"
proof (rule properties_for_sort_key)
  have s: "set ys = set xs" using assms(1) by (metis set_mset_mset)
  show "mset (sort_key f ys) = mset xs" using assms(1) by simp
  show "sorted (map f (sort_key f ys))" by simp
  show "filter (\<lambda>x. f k = f x) (sort_key f ys) = filter (\<lambda>x. f k = f x) xs" if "k \<in> set (sort_key f ys)" for k
  proof -
    have k: "k \<in> set xs" using that s by simp
    have one: "filter (\<lambda>x. f k = f x) zs = replicate (count_list zs k) k" if "set zs \<subseteq> set xs" for zs
      using that by (induction zs) (auto dest: assms(2) [OF k])
    have "mset (sort_key f ys) = mset xs" using assms(1) by simp
    then have "count_list (sort_key f ys) k = count_list xs k" by (metis count_mset)
    then show ?thesis using one [of "sort_key f ys"] one [of xs] s by simp
  qed
qed

section \<open>The reference resolution\<close>

text \<open>
  What the resolver is meant to keep for an action, given the sorted candidates: the first that wants
  it, with the slugs of the other rules that do.
\<close>

definition owner_of :: "candidate list \<Rightarrow> enforcement_action \<Rightarrow> normalized option" where
  "owner_of cs a =
     (case filter (\<lambda>c. cand_action c = a) cs of
        [] \<Rightarrow> None
      | c # rest \<Rightarrow> Some ((start_owner c)\<lparr>merged_with := map rule_slug (filter (\<lambda>d. rule_slug d \<noteq> rule_slug c) rest)\<rparr>))"

definition suppressions :: "candidate list \<Rightarrow> string \<Rightarrow> (enforcement_action \<times> string) list" where
  "suppressions cs s =
     map (\<lambda>v. (v, ''superseded by force_polling_mode (rule '' @ quoted s @ '')''))
       (filter (\<lambda>v. owner_of cs v \<noteq> None) superseded_by_force_polling)"

definition specified :: "candidate list \<Rightarrow> enforcement_action \<Rightarrow> normalized option" where
  "specified cs a =
     (if owner_of cs Force_polling_mode \<noteq> None \<and> a \<in> set superseded_by_force_polling then None
      else if a = Force_polling_mode
      then map_option (\<lambda>n. n\<lparr>suppressed := suppressions cs (rule_slug n)\<rparr>) (owner_of cs a)
      else if a = Throttle_new_conversations \<and> owner_of cs Priority_only_mode \<noteq> None
      then map_option (\<lambda>n. n\<lparr>annotations := [bypass_note]\<rparr>) (owner_of cs a)
      else owner_of cs a)"

lemma owner_of_snoc:
  "owner_of (cs @ [c]) a =
     (if cand_action c \<noteq> a then owner_of cs a
      else (case owner_of cs a of
              None \<Rightarrow> Some (start_owner c)
            | Some e \<Rightarrow> if rule_slug e = rule_slug c then Some e
                else Some (e\<lparr>merged_with := merged_with e @ [rule_slug c]\<rparr>)))"
  by (auto simp: owner_of_def start_owner_def split: list.splits)

lemma owner_of_Some:
  assumes "owner_of cs a = Some n"
  shows "cand_action n = a" and "suppressed n = []" and "annotations n = []"
    and "\<exists>c\<in>set cs. n = (start_owner c)\<lparr>merged_with := merged_with n\<rparr> \<and> cand_action c = a"
proof -
  from assms obtain c rest where f: "filter (\<lambda>c. cand_action c = a) cs = c # rest"
    and n: "n = (start_owner c)\<lparr>merged_with := map rule_slug (filter (\<lambda>d. rule_slug d \<noteq> rule_slug c) rest)\<rparr>"
    by (auto simp: owner_of_def split: list.splits)
  have c: "c \<in> set cs" "cand_action c = a" using arg_cong [OF f, of set] by auto
  show "cand_action n = a" "suppressed n = []" "annotations n = []" using c(2) by (simp_all add: n start_owner_def)
  show "\<exists>c\<in>set cs. n = (start_owner c)\<lparr>merged_with := merged_with n\<rparr> \<and> cand_action c = a"
    using c by (intro bexI [of _ c]) (simp_all add: n)
qed

lemma owner_of_None: "owner_of cs a = None \<longleftrightarrow> (\<forall>c\<in>set cs. cand_action c \<noteq> a)"
  by (cases "filter (\<lambda>c. cand_action c = a) cs") (auto simp: owner_of_def filter_empty_conv filter_eq_Cons_iff)

lemma map_of_snoc: "map_of (m @ [(k, v)]) b = (if b = k \<and> map_of m k = None then Some v else map_of m b)"
  by (auto simp: map_add_def split: option.split)

lemma merge_step:
  assumes m: "\<And>b. map_of m b = owner_of cs b"
  shows "map_of (fst (merge_candidate c (m, rs))) a = owner_of (cs @ [c]) a"
    and "distinct (map fst m) \<Longrightarrow> distinct (map fst (fst (merge_candidate c (m, rs))))"
    and "snd (merge_candidate c (m, rs)) = [] \<longleftrightarrow>
           rs = [] \<and> (case owner_of cs (cand_action c) of None \<Rightarrow> True | Some e \<Rightarrow> rule_slug e = rule_slug c)"
proof -
  have fresh: "map_of m k = None \<Longrightarrow> k \<notin> fst ` set m" for k by (simp add: map_of_eq_None_iff)
  show "map_of (fst (merge_candidate c (m, rs))) a = owner_of (cs @ [c]) a"
    by (auto simp: merge_candidate_def map_of_snoc map_of_map_entry owner_of_snoc m simp del: map_of_append split: option.split)
  show "distinct (map fst m) \<Longrightarrow> distinct (map fst (fst (merge_candidate c (m, rs))))"
    using fresh [of "cand_action c"] by (auto simp: merge_candidate_def keys_map_entry split: option.split)
  show "snd (merge_candidate c (m, rs)) = [] \<longleftrightarrow>
      rs = [] \<and> (case owner_of cs (cand_action c) of None \<Rightarrow> True | Some e \<Rightarrow> rule_slug e = rule_slug c)"
    by (auto simp: merge_candidate_def m split: option.split)
qed

definition unmerged :: "candidate list \<Rightarrow> bool" where
  "unmerged cs \<longleftrightarrow> (\<forall>a n. owner_of cs a = Some n \<longrightarrow> merged_with n = [])"

lemma unmerged_snoc:
  "unmerged (cs @ [c]) \<longleftrightarrow>
     unmerged cs \<and> (case owner_of cs (cand_action c) of None \<Rightarrow> True | Some e \<Rightarrow> rule_slug e = rule_slug c)"
proof (cases "owner_of cs (cand_action c)")
  case None
  then have "owner_of (cs @ [c]) a = (if a = cand_action c then Some (start_owner c) else owner_of cs a)" for a
    by (simp add: owner_of_snoc)
  then show ?thesis using None by (simp add: unmerged_def start_owner_def) (metis option.distinct(1))
next
  case (Some e)
  show ?thesis
  proof (cases "rule_slug e = rule_slug c")
    case True
    then have "owner_of (cs @ [c]) a = owner_of cs a" for a using Some by (auto simp: owner_of_snoc)
    then show ?thesis using True Some by (simp add: unmerged_def)
  next
    case False
    then have "owner_of (cs @ [c]) (cand_action c) = Some (e\<lparr>merged_with := merged_with e @ [rule_slug c]\<rparr>)"
      using Some by (simp add: owner_of_snoc)
    then have "\<not> unmerged (cs @ [c])" by (force simp: unmerged_def)
    then show ?thesis using False Some by simp
  qed
qed

lemma merge_stage:
  "(\<forall>a. map_of (fst (fold merge_candidate cs ([], []))) a = owner_of cs a)
   \<and> distinct (map fst (fst (fold merge_candidate cs ([], []))))
   \<and> (snd (fold merge_candidate cs ([], [])) = [] \<longleftrightarrow> unmerged cs)"
proof (induction cs rule: rev_induct)
  case Nil
  then show ?case by (simp add: owner_of_def unmerged_def)
next
  case (snoc c cs)
  obtain m rs where st: "fold merge_candidate cs ([], []) = (m, rs)" by force
  have m: "map_of m b = owner_of cs b" for b using snoc.IH st by simp
  show ?case using snoc.IH merge_step [OF m, of c rs] by (simp add: st unmerged_snoc)
qed

lemma supersede_step:
  assumes "a \<noteq> Force_polling_mode" and "distinct (map fst m)"
  shows "map_of (fst (supersede s a (m, rs))) b =
      (if map_of m a = None then map_of m b else if b = a then None
       else if b = Force_polling_mode
       then map_option (\<lambda>n. n\<lparr>suppressed := suppressed n
              @ [(a, ''superseded by force_polling_mode (rule '' @ quoted s @ '')'')]\<rparr>) (map_of m b)
       else map_of m b)"
    and "distinct (map fst (fst (supersede s a (m, rs))))"
    and "snd (supersede s a (m, rs)) = [] \<longleftrightarrow> rs = [] \<and> map_of m a = None"
  using assms
  by (auto simp: supersede_def delete_conv' map_of_map_entry keys_map_entry distinct_delete split: option.split)

lemma supersession_stage:
  fixes cs :: "candidate list" and m :: by_action and rs :: "resolution_reason list"
  defines "st \<equiv> supersession (m, rs)"
  assumes m: "\<And>b. map_of m b = owner_of cs b" and d: "distinct (map fst m)"
  shows "map_of (fst st) a =
      (if owner_of cs Force_polling_mode \<noteq> None \<and> a \<in> set superseded_by_force_polling then None
       else if a = Force_polling_mode
       then map_option (\<lambda>n. n\<lparr>suppressed := suppressions cs (rule_slug n)\<rparr>) (owner_of cs a)
       else owner_of cs a)"
    and "distinct (map fst (fst st))"
    and "snd st = [] \<longleftrightarrow> rs = [] \<and> (owner_of cs Force_polling_mode = None
           \<or> (\<forall>v\<in>set superseded_by_force_polling. owner_of cs v = None))"
proof (induction "owner_of cs Force_polling_mode")
  case None
  { case 1 then show ?case using m by (auto simp: st_def supersession_def None [symmetric]) }
  { case 2 then show ?case using m d by (simp add: st_def supersession_def None [symmetric]) }
  { case 3 then show ?case using m by (simp add: st_def supersession_def None [symmetric]) }
next
  case (Some fp)
  obtain m1 r1 where s1: "supersede (rule_slug fp) Increase_reconnect_backoff (m, rs) = (m1, r1)" by force
  have st: "st = supersede (rule_slug fp) Disable_typing_temporarily (m1, r1)"
    using m by (simp add: st_def supersession_def Some [symmetric] superseded_by_force_polling_def s1)
  note one = supersede_step [OF _ d, of Increase_reconnect_backoff "rule_slug fp" rs, simplified s1 fst_conv snd_conv, simplified]
  note two = supersede_step [OF _ one(2), of Disable_typing_temporarily "rule_slug fp" r1, simplified]
  note fp = Some [symmetric] and none = owner_of_Some(2) [OF Some [symmetric]]
  { case 1 show ?case
      by (cases "owner_of cs Increase_reconnect_backoff"; cases "owner_of cs Disable_typing_temporarily"; cases a)
        (simp_all add: st two(1) one(1) superseded_by_force_polling_def suppressions_def m fp none) }
  { case 2 show ?case using two(2) by (simp add: st) }
  { case 3 show ?case
      by (auto simp: st two(3) one(1,3) superseded_by_force_polling_def m fp) }
qed

lemma annotate_stage:
  "map_of (fst (annotate (m, rs))) a =
     (if a = Throttle_new_conversations \<and> map_of m Priority_only_mode \<noteq> None
      then map_option (\<lambda>n. n\<lparr>annotations := annotations n @ [bypass_note]\<rparr>) (map_of m a) else map_of m a)"
  "map fst (fst (annotate (m, rs))) = map fst m"
  "snd (annotate (m, rs)) = [] \<longleftrightarrow>
     rs = [] \<and> (map_of m Priority_only_mode = None \<or> map_of m Throttle_new_conversations = None)"
  by (auto simp: annotate_def map_of_map_entry keys_map_entry split: option.split)

definition annotated :: "candidate list \<Rightarrow> bool" where
  "annotated cs \<longleftrightarrow> owner_of cs Priority_only_mode \<noteq> None \<and> owner_of cs Throttle_new_conversations \<noteq> None"

definition superseding :: "candidate list \<Rightarrow> bool" where
  "superseding cs \<longleftrightarrow> owner_of cs Force_polling_mode \<noteq> None
     \<and> (\<exists>v\<in>set superseded_by_force_polling. owner_of cs v \<noteq> None)"

lemma stages:
  fixes cs :: "candidate list"
  defines "st \<equiv> annotate (supersession (fold merge_candidate cs ([], [])))"
  shows "map_of (fst st) a = specified cs a" and "distinct (map fst (fst st))"
    and "snd st = [] \<longleftrightarrow> unmerged cs \<and> \<not> superseding cs \<and> \<not> annotated cs"
proof -
  obtain m rs where s0: "fold merge_candidate cs ([], []) = (m, rs)" by force
  have m: "map_of m b = owner_of cs b" for b using merge_stage [of cs] s0 by simp
  have d: "distinct (map fst m)" and r: "rs = [] \<longleftrightarrow> unmerged cs" using merge_stage [of cs] s0 by simp_all
  obtain m1 r1 where s1: "supersession (m, rs) = (m1, r1)" by force
  note two = supersession_stage [OF m d, of rs, unfolded s1 fst_conv snd_conv]
  have st: "st = annotate (m1, r1)" by (simp add: st_def s0 s1)
  have o: "owner_of cs b = Some n \<Longrightarrow> annotations n = []" for b n using owner_of_Some(3) by blast
  show "map_of (fst st) a = specified cs a"
    using o [of a]
    by (cases "owner_of cs a"; cases a)
      (simp_all add: st annotate_stage(1) two(1) specified_def superseded_by_force_polling_def)
  show "distinct (map fst (fst st))" using two(2) by (simp add: st annotate_stage(2))
  show "snd st = [] \<longleftrightarrow> unmerged cs \<and> \<not> superseding cs \<and> \<not> annotated cs"
    by (auto simp: st annotate_stage(3) two(1,3) r annotated_def superseding_def superseded_by_force_polling_def)
qed

lemma specified_fields:
  assumes "specified cs a = Some n"
  obtains e where "owner_of cs a = Some e" and "cand_action n = a" and "rule_slug n = rule_slug e"
    and "annotations n = (if a = Throttle_new_conversations \<and> annotated cs then [bypass_note] else [])"
proof -
  from assms obtain e where e: "owner_of cs a = Some e" by (auto simp: specified_def split: if_splits)
  then show ?thesis
    using assms that owner_of_Some(1,3) [OF e]
    by (auto simp: specified_def annotated_def split: if_splits)
qed

definition outcome_of :: "candidate list \<Rightarrow> normalized list" where
  "outcome_of raw = normalized_candidates (resolve_enforcement_conflicts raw)"

lemma outcome_entries:
  fixes raw :: "candidate list"
  defines "cs \<equiv> js_sort compare_candidates raw"
  shows "n \<in> set (outcome_of raw) \<longleftrightarrow> specified cs (cand_action n) = Some n"
    and "distinct (map cand_action (outcome_of raw))"
    and "sorted (map candidate_key (outcome_of raw))"
    and "reasons (resolve_enforcement_conflicts raw) = [] \<longleftrightarrow> unmerged cs \<and> \<not> superseding cs \<and> \<not> annotated cs"
proof -
  obtain m rs where st: "annotate (supersession (fold merge_candidate cs ([], []))) = (m, rs)" by force
  have out: "outcome_of raw = js_sort compare_candidates (map snd m)"
    by (simp add: outcome_of_def resolve_enforcement_conflicts_def st cs_def [symmetric] Let_def)
  have m: "map_of m a = specified cs a" for a using stages(1) [of cs a] st by simp
  have d: "distinct (map fst m)" using stages(2) [of cs] st by simp
  have own: "cand_action n = a" if "(a, n) \<in> set m" for a n
    using map_of_is_SomeI [OF d that] m [of a] by (auto elim: specified_fields)
  have mem: "(a, n) \<in> set m \<longleftrightarrow> specified cs a = Some n" for a n
    using map_of_eq_Some_iff [OF d, of a n] m [of a] by simp
  show "n \<in> set (outcome_of raw) \<longleftrightarrow> specified cs (cand_action n) = Some n"
    unfolding out set_js_sort set_map image_iff
    using mem own by (metis prod.collapse snd_conv)
  have "map cand_action (map snd m) = map fst m" using own by auto
  moreover have "mset (map cand_action (outcome_of raw)) = mset (map cand_action (map snd m))"
    unfolding out js_sort_key by (simp only: mset_map mset_sort)
  ultimately show "distinct (map cand_action (outcome_of raw))" using d by (metis mset_eq_imp_distinct_iff)
  show "sorted (map candidate_key (outcome_of raw))" unfolding out js_sort_key by simp
  show "reasons (resolve_enforcement_conflicts raw) = [] \<longleftrightarrow> unmerged cs \<and> \<not> superseding cs \<and> \<not> annotated cs"
    using stages(3) [of cs] st by (simp add: resolve_enforcement_conflicts_def cs_def [symmetric] Let_def)
qed

section \<open>Whether anything changed\<close>

lemma action_text_plain: "CHR ''|'' \<notin> set (action_text a)"
  by (cases a) auto

lemma action_text_inj: "action_text a = action_text b \<Longrightarrow> a = b"
  by (cases a; cases b) simp_all

lemma split_at_bar: "xs @ b # u = ys @ b # v \<Longrightarrow> b \<notin> set xs \<Longrightarrow> b \<notin> set ys \<Longrightarrow> xs = ys \<and> u = v"
  by (induction xs arbitrary: ys) (auto simp: Cons_eq_append_conv append_eq_Cons_conv)

lemma membership_key_eq:
  "membership_key c = membership_key d \<longleftrightarrow> cand_action c = cand_action d \<and> rule_slug c = rule_slug d"
  using split_at_bar [of "action_text (cand_action c)" "CHR ''|''" "rule_slug c" "action_text (cand_action d)" "rule_slug d"]
  by (auto simp: membership_key_def action_text_plain dest: action_text_inj)

lemma same_membership_iff:
  assumes "set (map membership_key out) \<subseteq> set (map membership_key raw)"
  shows "same_membership raw out \<longleftrightarrow> set (map membership_key raw) \<subseteq> set (map membership_key out)"
proof -
  have "length (remdups (map membership_key raw)) = card (set (map membership_key raw))"
    "length (remdups (map membership_key out)) = card (set (map membership_key out))"
    by (simp_all only: length_remdups_card_conv)
  moreover have "set (map membership_key raw) \<subseteq> set (map membership_key out) \<Longrightarrow>
      card (set (map membership_key raw)) = card (set (map membership_key out))"
    using assms by (metis subset_antisym)
  ultimately show ?thesis by (auto simp: same_membership_def Let_def list_all_iff subset_iff)
qed

lemma unmerged_iff:
  "unmerged cs \<longleftrightarrow> (\<forall>c\<in>set cs. \<forall>e. owner_of cs (cand_action c) = Some e \<longrightarrow> rule_slug e = rule_slug c)"
proof
  assume u: "unmerged cs"
  show "\<forall>c\<in>set cs. \<forall>e. owner_of cs (cand_action c) = Some e \<longrightarrow> rule_slug e = rule_slug c"
  proof (intro ballI allI impI)
    fix c e assume c: "c \<in> set cs" and e: "owner_of cs (cand_action c) = Some e"
    from e obtain o1 rest where f: "filter (\<lambda>d. cand_action d = cand_action c) cs = o1 # rest"
      and n: "e = (start_owner o1)\<lparr>merged_with := map rule_slug (filter (\<lambda>d. rule_slug d \<noteq> rule_slug o1) rest)\<rparr>"
      by (auto simp: owner_of_def split: list.splits)
    have "merged_with e = []" using u e unfolding unmerged_def by blast
    then have "\<forall>d\<in>set rest. rule_slug d = rule_slug o1" by (auto simp: n filter_empty_conv)
    moreover have "c \<in> set (o1 # rest)" using c unfolding f [symmetric] by simp
    ultimately show "rule_slug e = rule_slug c" by (auto simp: n start_owner_def)
  qed
next
  assume a: "\<forall>c\<in>set cs. \<forall>e. owner_of cs (cand_action c) = Some e \<longrightarrow> rule_slug e = rule_slug c"
  show "unmerged cs" unfolding unmerged_def
  proof (intro allI impI)
    fix b e assume e: "owner_of cs b = Some e"
    then obtain o1 rest where f: "filter (\<lambda>d. cand_action d = b) cs = o1 # rest"
      and n: "e = (start_owner o1)\<lparr>merged_with := map rule_slug (filter (\<lambda>d. rule_slug d \<noteq> rule_slug o1) rest)\<rparr>"
      by (auto simp: owner_of_def split: list.splits)
    have "rule_slug d = rule_slug o1" if "d \<in> set rest" for d
    proof -
      have "d \<in> set (filter (\<lambda>d. cand_action d = b) cs)" using that unfolding f by simp
      then have "rule_slug e = rule_slug d" using a e by auto
      then show ?thesis by (simp add: n start_owner_def)
    qed
    then show "merged_with e = []" by (simp add: n)
  qed
qed

lemma owner_candidate:
  assumes "owner_of cs a = Some e"
  shows "\<exists>c\<in>set cs. cand_action c = a \<and> rule_slug c = rule_slug e"
  using owner_of_Some(4) [OF assms] by (metis normalized.surjective normalized.update_convs(1) start_owner_def candidate.select_convs(2))

lemma outcome_keys:
  fixes raw :: "candidate list"
  defines "cs \<equiv> js_sort compare_candidates raw"
  shows "set (map membership_key (outcome_of raw)) \<subseteq> set (map membership_key raw)"
    and "set (map membership_key raw) \<subseteq> set (map membership_key (outcome_of raw)) \<longleftrightarrow> unmerged cs \<and> \<not> superseding cs"
proof -
  have mem: "n \<in> set (outcome_of raw) \<longleftrightarrow> specified cs (cand_action n) = Some n" for n
    using outcome_entries(1) by (simp add: cs_def)
  have cs: "set cs = set raw" by (simp add: cs_def)
  show "set (map membership_key (outcome_of raw)) \<subseteq> set (map membership_key raw)"
  proof
    fix k assume "k \<in> set (map membership_key (outcome_of raw))"
    then obtain n where n: "specified cs (cand_action n) = Some n" "k = membership_key n" using mem by auto
    obtain e where "owner_of cs (cand_action n) = Some e" "rule_slug n = rule_slug e"
      using n(1) by (rule specified_fields)
    then obtain c where "c \<in> set raw" "cand_action c = cand_action n" "rule_slug c = rule_slug n"
      using owner_candidate cs by metis
    then have "membership_key n = membership_key c" by (simp add: membership_key_eq)
    then show "k \<in> set (map membership_key raw)" using \<open>c \<in> set raw\<close> by (simp add: n(2))
  qed
  have hit: "membership_key c \<in> set (map membership_key (outcome_of raw))
      \<longleftrightarrow> (\<exists>n. specified cs (cand_action c) = Some n \<and> rule_slug n = rule_slug c)" for c :: candidate
  proof
    assume "membership_key c \<in> set (map membership_key (outcome_of raw))"
    then obtain n where n: "n \<in> set (outcome_of raw)" "membership_key c = membership_key n" by auto
    then show "\<exists>n. specified cs (cand_action c) = Some n \<and> rule_slug n = rule_slug c"
      using mem [of n] by (auto simp: membership_key_eq)
  next
    assume "\<exists>n. specified cs (cand_action c) = Some n \<and> rule_slug n = rule_slug c"
    then obtain n where n: "specified cs (cand_action c) = Some n" "rule_slug n = rule_slug c" by blast
    have "cand_action n = cand_action c" using n(1) by (rule specified_fields)
    then have "n \<in> set (outcome_of raw)" "membership_key c = membership_key n"
      using n mem [of n] by (simp_all add: membership_key_eq)
    then show "membership_key c \<in> set (map membership_key (outcome_of raw))" by simp
  qed
  have "set (map membership_key raw) \<subseteq> set (map membership_key (outcome_of raw))
      \<longleftrightarrow> (\<forall>c\<in>set cs. \<exists>n. specified cs (cand_action c) = Some n \<and> rule_slug n = rule_slug c)"
    unfolding hit [symmetric] cs by (simp add: image_subset_iff)
  also have "\<dots> \<longleftrightarrow> unmerged cs \<and> \<not> superseding cs"
  proof (intro iffI conjI)
    assume all: "\<forall>c\<in>set cs. \<exists>n. specified cs (cand_action c) = Some n \<and> rule_slug n = rule_slug c"
    show "unmerged cs" unfolding unmerged_iff
      using all by (metis option.inject specified_fields)
    show "\<not> superseding cs"
    proof
      assume "superseding cs"
      then obtain v where v: "v \<in> set superseded_by_force_polling" "owner_of cs v \<noteq> None" "owner_of cs Force_polling_mode \<noteq> None"
        unfolding superseding_def by blast
      then obtain c where "c \<in> set cs" "cand_action c = v" unfolding owner_of_None by auto
      then show False using all v by (auto simp: specified_def)
    qed
  next
    assume u: "unmerged cs \<and> \<not> superseding cs"
    show "\<forall>c\<in>set cs. \<exists>n. specified cs (cand_action c) = Some n \<and> rule_slug n = rule_slug c"
    proof
      fix c assume c: "c \<in> set cs"
      then obtain e where e: "owner_of cs (cand_action c) = Some e" using owner_of_None by blast
      then have "rule_slug e = rule_slug c" using u c unmerged_iff by blast
      moreover have "\<not> (owner_of cs Force_polling_mode \<noteq> None \<and> cand_action c \<in> set superseded_by_force_polling)"
        using u e unfolding superseding_def by blast
      ultimately show "\<exists>n. specified cs (cand_action c) = Some n \<and> rule_slug n = rule_slug c"
        using e by (auto simp: specified_def)
    qed
  qed
  finally show "set (map membership_key raw) \<subseteq> set (map membership_key (outcome_of raw)) \<longleftrightarrow> unmerged cs \<and> \<not> superseding cs" .
qed

lemma changed_iff_reasons:
  "changed (resolve_enforcement_conflicts raw) \<longleftrightarrow> reasons (resolve_enforcement_conflicts raw) \<noteq> []"
proof -
  let ?cs = "js_sort compare_candidates raw"
  have ch: "changed (resolve_enforcement_conflicts raw)
      \<longleftrightarrow> \<not> same_membership raw (outcome_of raw) \<or> list_ex (\<lambda>n. annotations n \<noteq> []) (outcome_of raw)"
    by (simp add: outcome_of_def resolve_enforcement_conflicts_def Let_def split: prod.split)
  have "list_ex (\<lambda>n. annotations n \<noteq> []) (outcome_of raw) \<longleftrightarrow> annotated ?cs"
  proof
    assume "list_ex (\<lambda>n. annotations n \<noteq> []) (outcome_of raw)"
    then obtain n where "specified ?cs (cand_action n) = Some n" "annotations n \<noteq> []"
      by (auto simp: list_ex_iff outcome_entries(1))
    then show "annotated ?cs" by (auto elim: specified_fields split: if_splits)
  next
    assume a: "annotated ?cs"
    then obtain e where "owner_of ?cs Throttle_new_conversations = Some e" unfolding annotated_def by blast
    then obtain n where n: "specified ?cs Throttle_new_conversations = Some n"
      using a by (simp add: specified_def superseded_by_force_polling_def annotated_def)
    then have "cand_action n = Throttle_new_conversations" "annotations n \<noteq> []"
      using a by (auto elim: specified_fields)
    then show "list_ex (\<lambda>n. annotations n \<noteq> []) (outcome_of raw)"
      using n by (auto simp: list_ex_iff outcome_entries(1))
  qed
  then show ?thesis
    using same_membership_iff [OF outcome_keys(1)] outcome_keys(2) [of raw] outcome_entries(4) [of raw] ch by blast
qed

lemma specified_candidate:
  assumes "specified cs a = Some n"
  shows "\<exists>c\<in>set cs. cand_action c = a \<and> cand_action n = a \<and> rule_id n = rule_id c \<and> rule_slug n = rule_slug c"
proof -
  from assms obtain e where e: "owner_of cs a = Some e" by (auto simp: specified_def split: if_splits)
  from e obtain c rest where f: "filter (\<lambda>c. cand_action c = a) cs = c # rest"
    and n: "e = (start_owner c)\<lparr>merged_with := map rule_slug (filter (\<lambda>d. rule_slug d \<noteq> rule_slug c) rest)\<rparr>"
    by (auto simp: owner_of_def split: list.splits)
  have "c \<in> set cs" "cand_action c = a" using arg_cong [OF f, of set] by auto
  then show ?thesis
    using assms e by (intro bexI [of _ c]) (auto simp: specified_def n start_owner_def split: if_splits)
qed

lemma outcome_owner:
  assumes "n \<in> set (outcome_of raw)"
  shows "\<exists>c\<in>set raw. cand_action c = cand_action n \<and> rule_id n = rule_id c \<and> rule_slug n = rule_slug c"
  using specified_candidate [OF outcome_entries(1) [THEN iffD1, OF assms]] by auto

section \<open>Properties\<close>

text \<open>C34: the resolver keeps exactly the reference resolution: one entry per action that some rule wants,
  owned by the first of the sorted candidates for it (highest priority, then least slug) and listing
  the other rules' slugs in order; forced polling removes the reconnect back-off and the typing pause
  and records them; throttling is annotated when the priority-only mode is on as well. The result is
  sorted, holds no action twice, and the result is marked as changed exactly when a reason was given.\<close>

theorem resolver_meets_reference:
  "set (outcome_of raw) = {n. specified (js_sort compare_candidates raw) (cand_action n) = Some n}
   \<and> distinct (map cand_action (outcome_of raw)) \<and> sorted (map candidate_key (outcome_of raw))
   \<and> (changed (resolve_enforcement_conflicts raw) \<longleftrightarrow> reasons (resolve_enforcement_conflicts raw) \<noteq> [])"
  using outcome_entries(2,3) [of raw] changed_iff_reasons [of raw] by (auto simp: outcome_entries(1))

text \<open>The resolution does not depend on the order the rules were read in. Two inputs with the same
  candidates, in which no two different candidates have the same priority, slug and action, give the
  same entries, the same reasons and the same verdict.\<close>

theorem resolver_order_independent:
  assumes "mset raw = mset raw'"
    and "\<And>c d. c \<in> set raw \<Longrightarrow> d \<in> set raw \<Longrightarrow> candidate_key c = candidate_key d \<Longrightarrow> c = d"
  shows "(resolve_enforcement_conflicts raw)\<lparr>raw_candidates := []\<rparr> = (resolve_enforcement_conflicts raw')\<lparr>raw_candidates := []\<rparr>"
proof -
  have s: "js_sort compare_candidates raw = js_sort compare_candidates raw'"
    unfolding js_sort_key by (rule sort_by_key_unique) (use assms in auto)
  then have o: "outcome_of raw = outcome_of raw'" and r: "reasons (resolve_enforcement_conflicts raw) = reasons (resolve_enforcement_conflicts raw')"
    by (simp_all add: outcome_of_def resolve_enforcement_conflicts_def Let_def split: prod.split)
  then have "changed (resolve_enforcement_conflicts raw) = changed (resolve_enforcement_conflicts raw')"
    by (simp add: changed_iff_reasons)
  then show ?thesis using o r by (intro resolution.equality) (simp_all add: outcome_of_def)
qed

definition sample_candidate :: "string \<Rightarrow> int \<Rightarrow> enforcement_action \<Rightarrow> candidate" where
  "sample_candidate s p a =
     \<lparr>rule_id = s, rule_slug = s, rule_priority = p, cand_action = a, scope_type = ''platform'',
      scope_key = ''platform'', trigger_payload = Null\<rparr>"

lemma resolver_order_independent_witness:
  "(resolve_enforcement_conflicts [sample_candidate ''a'' 1 Force_polling_mode, sample_candidate ''b'' 2 Increase_reconnect_backoff])\<lparr>raw_candidates := []\<rparr>
   = (resolve_enforcement_conflicts [sample_candidate ''b'' 2 Increase_reconnect_backoff, sample_candidate ''a'' 1 Force_polling_mode])\<lparr>raw_candidates := []\<rparr>"
  by (rule resolver_order_independent) (auto simp: sample_candidate_def candidate_key_def)

end
