(* ===== verification/Call_Operators.thy ===== *)
theory Call_Operators
  imports Effective_Policy Enforcement_Resolver
begin

text \<open>
  Which operator a call goes to (\<open>server/services/calls/\<close>): the permissions of a role (\<open>permissions.ts\<close>), the availability
  of operators (\<open>availability.ts\<close>), the pools of candidates (\<open>departments.ts\<close>), the platform's fallback policy
  (\<open>globalAdvancedRouting.ts\<close>) and the routing decision (\<open>routing.ts\<close>). What the queries of one decision answer is
  a record; a query without an answer is an empty list or \<open>None\<close> as the code reads it. User ids are compared as texts of
  hexadecimal digits and dashes, for which \<open>localeCompare\<close> is the order of the characters.
\<close>

section \<open>Permissions\<close>

datatype call_permission =
    Can_start_audio_call | Can_start_video_call | Can_receive_audio_call | Can_receive_video_call
  | Can_record_calls | Can_transfer_calls | Can_join_queue_calls | Can_manage_call_queue

fun permission_text :: "call_permission \<Rightarrow> string" where
  "permission_text Can_start_audio_call = ''can_start_audio_call''"
| "permission_text Can_start_video_call = ''can_start_video_call''"
| "permission_text Can_receive_audio_call = ''can_receive_audio_call''"
| "permission_text Can_receive_video_call = ''can_receive_video_call''"
| "permission_text Can_record_calls = ''can_record_calls''"
| "permission_text Can_transfer_calls = ''can_transfer_calls''"
| "permission_text Can_join_queue_calls = ''can_join_queue_calls''"
| "permission_text Can_manage_call_queue = ''can_manage_call_queue''"

definition ALL_CALL_PERMISSIONS :: "call_permission list" where
  "ALL_CALL_PERMISSIONS =
     [Can_start_audio_call, Can_start_video_call, Can_receive_audio_call, Can_receive_video_call, Can_record_calls,
      Can_transfer_calls, Can_join_queue_calls, Can_manage_call_queue]"

type_synonym permission_map = "call_permission \<Rightarrow> bool"

definition HARD_DEFAULT :: permission_map where "HARD_DEFAULT = (\<lambda>_. False)"

record permission_row =
  pr_key :: string
  pr_granted :: jsval
  pr_workspace :: "string option"

definition grant_row :: "string option \<Rightarrow> permission_row \<Rightarrow> permission_map \<Rightarrow> permission_map" where
  "grant_row ws r m =
     (if pr_workspace r = ws
      then (case List.find (\<lambda>p. permission_text p = pr_key r) ALL_CALL_PERMISSIONS of
              Some p \<Rightarrow> m(p := truthy (pr_granted r)) | None \<Rightarrow> m)
      else m)"

text \<open>The rows of the platform first, then those of the workspace; \<open>None\<close> is a failed query.\<close>

definition permissions_of :: "string \<Rightarrow> permission_row list option \<Rightarrow> permission_map" where
  "permissions_of ws rows =
     (case rows of None \<Rightarrow> HARD_DEFAULT | Some rs \<Rightarrow> fold (grant_row (Some ws)) rs (fold (grant_row None) rs HARD_DEFAULT))"

definition PERMISSION_TTL_MS :: int where "PERMISSION_TTL_MS = 30000"

type_synonym permission_cache = "(string \<times> permission_map \<times> int) list"

definition permission_key :: "string \<Rightarrow> string \<Rightarrow> string" where "permission_key ws role = ws @ ''::'' @ role"

definition resolve_role_permissions ::
  "int \<Rightarrow> permission_row list option \<Rightarrow> string \<Rightarrow> string \<Rightarrow> permission_cache \<Rightarrow> permission_map \<times> permission_cache" where
  "resolve_role_permissions now rows ws role cache =
     (let v = permissions_of ws rows; fresh = (v, AList.update (permission_key ws role) (v, now) cache)
      in case map_of cache (permission_key ws role) of
           Some (m, ts) \<Rightarrow> if now - ts < PERMISSION_TTL_MS then (m, cache) else fresh
         | None \<Rightarrow> fresh)"

definition invalidate_permissions :: "string option \<Rightarrow> permission_cache \<Rightarrow> permission_cache" where
  "invalidate_permissions ws cache =
     (case ws of
        None \<Rightarrow> []
      | Some w \<Rightarrow> if w = [] then [] else filter (\<lambda>(k, _). take (length (w @ ''::'')) k \<noteq> w @ ''::'') cache)"

text \<open>The permissions of a user, from the role the membership gives, if any.\<close>

definition user_call_permissions ::
  "int \<Rightarrow> permission_row list option \<Rightarrow> string \<Rightarrow> string option \<Rightarrow> permission_cache \<Rightarrow> permission_map \<times> permission_cache" where
  "user_call_permissions now rows ws role cache =
     (case role of
        Some (c # r) \<Rightarrow> resolve_role_permissions now rows ws (c # r) cache
      | _ \<Rightarrow> (HARD_DEFAULT, cache))"

section \<open>Availability\<close>

datatype availability_status = Unavailable | Available_audio | Available_video | Available_both | Busy

datatype call_channel = Audio | Video

record availability_row =
  av_user :: string
  av_workspace :: string
  av_status :: availability_status
  av_in_call :: bool
  av_since :: "int option"
  av_session :: "string option"
  av_heartbeat :: int
  av_updated :: int

definition is_for :: "string \<Rightarrow> string \<Rightarrow> availability_row \<Rightarrow> bool" where
  "is_for ws u r \<longleftrightarrow> av_workspace r = ws \<and> av_user r = u"

text \<open>An upsert on the workspace and user; a new row has the defaults of the table.\<close>

definition upsert_availability ::
  "int \<Rightarrow> string \<Rightarrow> string \<Rightarrow> (availability_row \<Rightarrow> availability_row) \<Rightarrow> availability_row list \<Rightarrow> availability_row list" where
  "upsert_availability now ws u f db =
     (if list_ex (is_for ws u) db then map (\<lambda>r. if is_for ws u r then f r else r) db
      else db @ [f \<lparr>av_user = u, av_workspace = ws, av_status = Unavailable, av_in_call = False, av_since = None,
                   av_session = None, av_heartbeat = now, av_updated = now\<rparr>])"

definition set_my_availability ::
  "bool \<Rightarrow> int \<Rightarrow> string \<Rightarrow> string \<Rightarrow> availability_status \<Rightarrow> availability_row list \<Rightarrow> availability_row list option" where
  "set_my_availability ok now ws u st db =
     (if ok then Some (upsert_availability now ws u (\<lambda>r. r\<lparr>av_status := st, av_heartbeat := now, av_updated := now\<rparr>) db) else None)"

definition in_call_row :: "int \<Rightarrow> string \<Rightarrow> availability_row \<Rightarrow> availability_row" where
  "in_call_row now session r =
     r\<lparr>av_status := Busy, av_in_call := True, av_since := Some now, av_session := Some session, av_heartbeat := now, av_updated := now\<rparr>"

definition mark_in_call :: "bool \<Rightarrow> int \<Rightarrow> string \<Rightarrow> string \<Rightarrow> string \<Rightarrow> availability_row list \<Rightarrow> availability_row list" where
  "mark_in_call ok now ws u session db = (if ok then upsert_availability now ws u (in_call_row now session) db else db)"

definition call_over_row :: "int \<Rightarrow> availability_row \<Rightarrow> availability_row" where
  "call_over_row now r = r\<lparr>av_in_call := False, av_since := None, av_session := None, av_updated := now\<rparr>"

definition clear_in_call :: "bool \<Rightarrow> int \<Rightarrow> string \<Rightarrow> string \<Rightarrow> availability_row list \<Rightarrow> availability_row list" where
  "clear_in_call ok now ws u db = (if ok then map (\<lambda>r. if is_for ws u r then call_over_row now r else r) db else db)"

definition is_eligible :: "availability_row \<Rightarrow> call_channel \<Rightarrow> bool" where
  "is_eligible r ch \<longleftrightarrow>
     \<not> av_in_call r \<and> av_status r \<noteq> Busy \<and> av_status r \<noteq> Unavailable
     \<and> (if ch = Audio then av_status r = Available_audio \<or> av_status r = Available_both
        else av_status r = Available_video \<or> av_status r = Available_both)"

definition AVAILABILITY_TTL_MS :: int where "AVAILABILITY_TTL_MS = 5000"

type_synonym availability_cache = "(string \<times> availability_row list \<times> int) list"

text \<open>Every write of a status or a call drops the rows cached for its workspace.\<close>

definition invalidate_availability :: "string option \<Rightarrow> availability_cache \<Rightarrow> availability_cache" where
  "invalidate_availability ws cache =
     (case ws of None \<Rightarrow> [] | Some w \<Rightarrow> if w = [] then [] else AList.delete (''ws:'' @ w) cache)"

text \<open>A failed query answers with no rows, which are cached like any others.\<close>

definition list_workspace_availability ::
  "int \<Rightarrow> bool \<Rightarrow> string \<Rightarrow> availability_row list \<Rightarrow> availability_cache \<Rightarrow> availability_row list \<times> availability_cache" where
  "list_workspace_availability now ok ws db cache =
     (let rows = (if ok then filter (\<lambda>r. av_workspace r = ws) db else []);
          fresh = (rows, AList.update (''ws:'' @ ws) (rows, now) cache)
      in case map_of cache (''ws:'' @ ws) of
           Some (v, ts) \<Rightarrow> if now - ts < AVAILABILITY_TTL_MS then (v, cache) else fresh
         | None \<Rightarrow> fresh)"

definition my_availability ::
  "int \<Rightarrow> bool \<Rightarrow> string \<Rightarrow> string \<Rightarrow> availability_row list \<Rightarrow> availability_cache \<Rightarrow> availability_row option \<times> availability_cache" where
  "my_availability now ok ws u db cache =
     (let (rows, cache') = list_workspace_availability now ok ws db cache in (List.find (\<lambda>r. av_user r = u) rows, cache'))"

section \<open>The platform's fallback policy\<close>

record advanced_routing =
  ar_owner_fallback :: bool
  ar_for_chat :: bool
  ar_for_audio :: bool
  ar_for_video :: bool
  ar_general_pool :: bool
  ar_last_agent :: bool

definition normalize_routing :: "jsval \<Rightarrow> advanced_routing" where
  "normalize_routing v =
     (let on = (\<lambda>k. get_prop v k \<noteq> JBool False)
      in \<lparr>ar_owner_fallback = on ''owner_fallback_enabled'', ar_for_chat = on ''owner_fallback_for_chat'',
          ar_for_audio = on ''owner_fallback_for_audio'', ar_for_video = on ''owner_fallback_for_video'',
          ar_general_pool = on ''general_pool_enabled'', ar_last_agent = on ''last_agent_routing_enabled''\<rparr>)"

definition DEFAULT_GLOBAL_ADVANCED_ROUTING :: advanced_routing where
  "DEFAULT_GLOBAL_ADVANCED_ROUTING =
     \<lparr>ar_owner_fallback = True, ar_for_chat = True, ar_for_audio = True, ar_for_video = True, ar_general_pool = True, ar_last_agent = True\<rparr>"

definition ROUTING_TTL_MS :: int where "ROUTING_TTL_MS = 30000"

text \<open>The stored value, \<open>Undefined\<close> without a row or after a failed query; \<open>None\<close> is a throw.\<close>

definition load_global_routing ::
  "int \<Rightarrow> jsval option \<Rightarrow> (advanced_routing \<times> int) option \<Rightarrow> advanced_routing \<times> (advanced_routing \<times> int) option" where
  "load_global_routing now stored cache =
     (let v = (case stored of None \<Rightarrow> DEFAULT_GLOBAL_ADVANCED_ROUTING | Some x \<Rightarrow> normalize_routing x)
      in case cache of
           Some (p, ts) \<Rightarrow> if now - ts < ROUTING_TTL_MS then (p, cache) else (v, Some (v, now))
         | None \<Rightarrow> (v, Some (v, now)))"

definition routing_props :: "advanced_routing \<Rightarrow> props" where
  "routing_props p =
     [(''owner_fallback_enabled'', JBool (ar_owner_fallback p)), (''owner_fallback_for_chat'', JBool (ar_for_chat p)),
      (''owner_fallback_for_audio'', JBool (ar_for_audio p)), (''owner_fallback_for_video'', JBool (ar_for_video p)),
      (''general_pool_enabled'', JBool (ar_general_pool p)), (''last_agent_routing_enabled'', JBool (ar_last_agent p))]"

text \<open>A save merges the patch over the policy in force; a failed write throws and leaves the cache.\<close>

definition save_global_routing ::
  "int \<Rightarrow> jsval option \<Rightarrow> jsval \<Rightarrow> bool \<Rightarrow> (advanced_routing \<times> int) option \<Rightarrow> advanced_routing option \<times> (advanced_routing \<times> int) option" where
  "save_global_routing now stored patch write_ok cache =
     (let (current, cache') = load_global_routing now stored cache;
          merged = normalize_routing (JObj (spread (routing_props current) patch))
      in if write_ok then (Some merged, Some (merged, now)) else (None, cache'))"

definition owner_fallback_allowed :: "advanced_routing \<Rightarrow> call_channel \<Rightarrow> bool" where
  "owner_fallback_allowed p ch \<longleftrightarrow> ar_owner_fallback p \<and> (if ch = Audio then ar_for_audio p else ar_for_video p)"

section \<open>Pools of candidates\<close>

record department_row =
  dp_id :: string
  dp_audio :: bool
  dp_video :: bool

record member_row =
  mr_user :: string
  mr_suspended :: bool

datatype pool_source = From_department | From_general | From_all

record routing_reads =
  rr_member_rows :: "member_row list"
  rr_departments :: "department_row list"
  rr_department_members :: "string \<Rightarrow> string list"
  rr_assigned :: "string list"
  rr_locked :: "string list option"
  rr_members :: "(string \<times> string) list"
  rr_availability :: "availability_row list"
  rr_permissions :: "string \<Rightarrow> permission_map"
  rr_channels :: call_channels
  rr_callback :: jsval
  rr_policy :: advanced_routing
  rr_owner :: "string option"

definition supports_channel :: "department_row \<Rightarrow> call_channel \<Rightarrow> bool" where
  "supports_channel d ch = (if ch = Audio then dp_audio d else dp_video d)"

definition general_pool :: "routing_reads \<Rightarrow> string list" where
  "general_pool rd = filter (\<lambda>u. u \<noteq> [] \<and> u \<notin> set (rr_assigned rd)) (map mr_user (rr_member_rows rd))"

text \<open>A department is named by a text that is not empty.\<close>

definition given :: "string option \<Rightarrow> bool" where "given dept \<longleftrightarrow> dept \<noteq> None \<and> dept \<noteq> Some []"

text \<open>Without the suspended members and those whose seat the plan paused.\<close>

definition routable_members :: "routing_reads \<Rightarrow> string list \<Rightarrow> string list" where
  "routable_members rd us =
     (let active = filter (\<lambda>u. u \<notin> mr_user ` set (filter mr_suspended (rr_member_rows rd))) us
      in case rr_locked rd of None \<Rightarrow> active | Some locked \<Rightarrow> filter (\<lambda>u. u \<notin> set locked) active)"

definition department_pool :: "routing_reads \<Rightarrow> call_channel \<Rightarrow> string option \<Rightarrow> string list" where
  "department_pool rd ch dept =
     (case dept of
        None \<Rightarrow> []
      | Some i \<Rightarrow> (case List.find (\<lambda>d. i \<noteq> [] \<and> dp_id d = i \<and> supports_channel d ch) (rr_departments rd) of
                    None \<Rightarrow> [] | Some d \<Rightarrow> routable_members rd (rr_department_members rd (dp_id d))))"

definition resolve_routing_candidates :: "routing_reads \<Rightarrow> call_channel \<Rightarrow> string option \<Rightarrow> string list \<times> pool_source" where
  "resolve_routing_candidates rd ch dept =
     (if department_pool rd ch dept \<noteq> [] then (department_pool rd ch dept, From_department)
      else if routable_members rd (general_pool rd) \<noteq> [] then (routable_members rd (general_pool rd), From_general)
      else (routable_members rd (map mr_user (rr_member_rows rd)), From_all))"

section \<open>Routing\<close>

record eligible_operator =
  eo_user :: string
  eo_role :: string
  eo_status :: availability_status
  eo_in_call :: bool

definition may_receive :: "permission_map \<Rightarrow> call_channel \<Rightarrow> bool" where
  "may_receive p ch \<longleftrightarrow> p Can_join_queue_calls \<and> (if ch = Audio then p Can_receive_audio_call else p Can_receive_video_call)"

definition availability_of :: "routing_reads \<Rightarrow> string \<Rightarrow> availability_row option" where
  "availability_of rd u = map_of (rev (map (\<lambda>a. (av_user a, a)) (rr_availability rd))) u"

definition member_role :: "string \<Rightarrow> string" where "member_role r = (if r = [] then ''viewer'' else r)"

definition eligible_member :: "routing_reads \<Rightarrow> call_channel \<Rightarrow> string list \<Rightarrow> string \<times> string \<Rightarrow> eligible_operator option" where
  "eligible_member rd ch cands m =
     (let role = member_role (snd m)
      in if fst m \<notin> set cands \<or> \<not> may_receive (rr_permissions rd role) ch then None
         else (case availability_of rd (fst m) of
                 None \<Rightarrow> None
               | Some a \<Rightarrow>
                   if is_eligible a ch
                   then Some \<lparr>eo_user = fst m, eo_role = role, eo_status = av_status a, eo_in_call = av_in_call a\<rparr>
                   else None))"

definition resolve_eligible :: "routing_reads \<Rightarrow> call_channel \<Rightarrow> string option \<Rightarrow> eligible_operator list" where
  "resolve_eligible rd ch dept =
     sort_key eo_user (List.map_filter (eligible_member rd ch (fst (resolve_routing_candidates rd ch dept))) (rr_members rd))"

datatype routing_decision = Direct string | To_queue | To_callback | No_route string

text \<open>The department's pool, then the general one.\<close>

definition eligible_or_general :: "routing_reads \<Rightarrow> call_channel \<Rightarrow> string option \<Rightarrow> eligible_operator list" where
  "eligible_or_general rd ch dept =
     (if resolve_eligible rd ch dept = [] \<and> given dept then resolve_eligible rd ch None else resolve_eligible rd ch dept)"

definition owner_route :: "routing_reads \<Rightarrow> call_channel \<Rightarrow> string option" where
  "owner_route rd ch =
     (if owner_fallback_allowed (rr_policy rd) ch
      then (case rr_owner rd of
              None \<Rightarrow> None
            | Some u \<Rightarrow> if u \<noteq> [] \<and> list_ex (\<lambda>e. eo_user e = u) (resolve_eligible rd ch None) then Some u else None)
      else None)"

definition resolve_call_routing_target :: "routing_reads \<Rightarrow> call_channel \<Rightarrow> string option \<Rightarrow> routing_decision" where
  "resolve_call_routing_target rd ch dept =
     (if ch = Audio \<and> \<not> truthy (visitor_audio (rr_channels rd)) then No_route ''voice_disabled''
      else if ch = Video \<and> \<not> truthy (visitor_video (rr_channels rd)) then No_route ''video_disabled''
      else (case eligible_or_general rd ch dept of
              e # _ \<Rightarrow> Direct (eo_user e)
            | [] \<Rightarrow>
                (case owner_route rd ch of
                   Some u \<Rightarrow> Direct u
                 | None \<Rightarrow>
                     if truthy (queue (rr_channels rd)) then To_queue
                     else if truthy (rr_callback rd) then To_callback else No_route ''no_operators'')))"

definition pick_operator_for_offer :: "routing_reads \<Rightarrow> call_channel \<Rightarrow> string list \<Rightarrow> string option \<Rightarrow> string option" where
  "pick_operator_for_offer rd ch excluded dept =
     (let pick = (\<lambda>d. List.find (\<lambda>e. eo_user e \<notin> set excluded) (resolve_eligible rd ch d))
      in map_option eo_user
           (case pick dept of Some e \<Rightarrow> Some e | None \<Rightarrow> if given dept then pick None else None))"

section \<open>Only fit operators\<close>

text \<open>What the rows must say of an operator, written over the rows alone.\<close>

definition fit_operator :: "routing_reads \<Rightarrow> call_channel \<Rightarrow> string \<Rightarrow> bool" where
  "fit_operator rd ch u \<longleftrightarrow>
     (\<exists>(v, role)\<in>set (rr_members rd). v = u
        \<and> {Can_join_queue_calls, if ch = Audio then Can_receive_audio_call else Can_receive_video_call}
            \<subseteq> {p. rr_permissions rd (if role = [] then ''viewer'' else role) p})
     \<and> (\<exists>a\<in>set (rr_availability rd). av_user a = u \<and> \<not> av_in_call a
          \<and> av_status a \<in> {Available_both, if ch = Audio then Available_audio else Available_video})
     \<and> (\<forall>m\<in>set (rr_member_rows rd). mr_user m = u \<longrightarrow> \<not> mr_suspended m)
     \<and> (\<forall>locked. rr_locked rd = Some locked \<longrightarrow> u \<notin> set locked)"

lemma is_eligible_iff:
  "is_eligible a ch \<longleftrightarrow> \<not> av_in_call a \<and> av_status a \<in> {Available_both, if ch = Audio then Available_audio else Available_video}"
  by (cases ch) (auto simp: is_eligible_def)

lemma may_receive_iff:
  "may_receive p ch \<longleftrightarrow> {Can_join_queue_calls, if ch = Audio then Can_receive_audio_call else Can_receive_video_call} \<subseteq> {k. p k}"
  by (auto simp: may_receive_def)

lemma availability_of_some: "availability_of rd u = Some a \<Longrightarrow> a \<in> set (rr_availability rd) \<and> av_user a = u"
  unfolding availability_of_def by (drule map_of_SomeD) auto

lemma candidates_routable:
  assumes "u \<in> set (fst (resolve_routing_candidates rd ch dept))"
  shows "(\<forall>m\<in>set (rr_member_rows rd). mr_user m = u \<longrightarrow> \<not> mr_suspended m) \<and> (\<forall>locked. rr_locked rd = Some locked \<longrightarrow> u \<notin> set locked)"
proof -
  obtain us where "u \<in> set (routable_members rd us)"
    using assms by (auto simp: resolve_routing_candidates_def department_pool_def split: if_splits option.splits)
  then show ?thesis by (auto simp: routable_members_def Let_def split: option.splits)
qed

lemma eligible_fit:
  assumes "e \<in> set (resolve_eligible rd ch dept)"
  shows "fit_operator rd ch (eo_user e)"
proof -
  obtain m where m: "m \<in> set (rr_members rd)" "eligible_member rd ch (fst (resolve_routing_candidates rd ch dept)) m = Some e"
    using assms by (auto simp: resolve_eligible_def List.map_filter_def)
  then obtain a where a: "fst m \<in> set (fst (resolve_routing_candidates rd ch dept))" "may_receive (rr_permissions rd (member_role (snd m))) ch"
      "availability_of rd (fst m) = Some a" "is_eligible a ch" "eo_user e = fst m"
    by (auto simp: eligible_member_def Let_def split: if_splits option.splits)
  then have "\<exists>(v, role)\<in>set (rr_members rd). v = fst m \<and> may_receive (rr_permissions rd (member_role role)) ch"
    using m(1) by (intro bexI [of _ m]) (auto split: prod.split)
  moreover have "\<exists>x\<in>set (rr_availability rd). av_user x = fst m \<and> is_eligible x ch" using availability_of_some [OF a(3)] a(4) by blast
  ultimately show ?thesis
    using candidates_routable [OF a(1)] unfolding fit_operator_def a(5) may_receive_iff is_eligible_iff member_role_def by blast
qed

text \<open>With one availability row for each user, every fit candidate is found.\<close>

lemma fit_eligible:
  assumes "distinct (map av_user (rr_availability rd))" and "fit_operator rd ch u"
    and "u \<in> set (fst (resolve_routing_candidates rd ch dept))"
  shows "resolve_eligible rd ch dept \<noteq> []"
proof -
  obtain role where role: "(u, role) \<in> set (rr_members rd)" "may_receive (rr_permissions rd (member_role role)) ch"
    using assms(2) unfolding fit_operator_def may_receive_iff member_role_def by blast
  obtain a where a: "a \<in> set (rr_availability rd)" "av_user a = u" "is_eligible a ch"
    using assms(2) unfolding fit_operator_def is_eligible_iff by blast
  have "map_of (map (\<lambda>a. (av_user a, a)) (rev (rr_availability rd))) u = Some a"
    using a(1,2) assms(1) by (intro map_of_is_SomeI) (auto simp: comp_def rev_map [symmetric])
  then have "availability_of rd u = Some a" by (simp add: availability_of_def rev_map)
  then have "eligible_member rd ch (fst (resolve_routing_candidates rd ch dept)) (u, role) \<noteq> None"
    using assms(3) role(2) a(3) by (simp add: eligible_member_def Let_def)
  then obtain e where "eligible_member rd ch (fst (resolve_routing_candidates rd ch dept)) (u, role) = Some e" by blast
  then have "e \<in> set (List.map_filter (eligible_member rd ch (fst (resolve_routing_candidates rd ch dept))) (rr_members rd))"
    using role(1) by (force simp: List.map_filter_def)
  then show ?thesis unfolding resolve_eligible_def by (metis empty_iff list.set(1) set_sort)
qed

lemma eligible_candidate: "e \<in> set (resolve_eligible rd ch dept) \<Longrightarrow> eo_user e \<in> set (fst (resolve_routing_candidates rd ch dept))"
  by (auto simp: resolve_eligible_def List.map_filter_def eligible_member_def Let_def split: if_splits option.splits)

lemma find_never [simp]: "List.find (\<lambda>x. False) xs = None"
  by (induction xs) simp_all

lemma eligible_or_general_cases:
  "eligible_or_general rd ch dept = resolve_eligible rd ch dept \<or> eligible_or_general rd ch dept = resolve_eligible rd ch None"
  by (simp add: eligible_or_general_def)

text \<open>When nobody is found, the general pool has been looked at, in which the owner is looked for again.\<close>

lemma nobody_in_general:
  assumes "eligible_or_general rd ch dept = []"
  shows "resolve_eligible rd ch None = []"
  proof (cases "given dept")
    case True
    then show ?thesis using assms by (auto simp: eligible_or_general_def split: if_splits)
  next
    case False
    then have "dept = None \<or> dept = Some []" by (auto simp: given_def)
    then have "department_pool rd ch dept = []" by (auto simp: department_pool_def)
    then have "resolve_eligible rd ch dept = resolve_eligible rd ch None"
      by (simp add: resolve_eligible_def resolve_routing_candidates_def department_pool_def)
    then show ?thesis using assms False by (simp add: eligible_or_general_def)
  qed

lemma no_owner_route: "eligible_or_general rd ch dept = [] \<Longrightarrow> owner_route rd ch = None"
  by (simp add: owner_route_def nobody_in_general split: option.split)

lemma somebody_found:
  assumes "distinct (map av_user (rr_availability rd))"
  shows "eligible_or_general rd ch dept \<noteq> [] \<longleftrightarrow>
    (\<exists>u. fit_operator rd ch u \<and> (\<exists>d\<in>{dept, None}. u \<in> set (fst (resolve_routing_candidates rd ch d))))"
proof
  assume "eligible_or_general rd ch dept \<noteq> []"
  then obtain d e where d: "d \<in> {dept, None}" "e \<in> set (resolve_eligible rd ch d)"
    using eligible_or_general_cases [of rd ch dept] by (metis insertI1 insertI2 list.set_sel(1))
  then show "\<exists>u. fit_operator rd ch u \<and> (\<exists>d\<in>{dept, None}. u \<in> set (fst (resolve_routing_candidates rd ch d)))"
    using eligible_fit [OF d(2)] eligible_candidate [OF d(2)] by blast
next
  assume "\<exists>u. fit_operator rd ch u \<and> (\<exists>d\<in>{dept, None}. u \<in> set (fst (resolve_routing_candidates rd ch d)))"
  then obtain d where "d \<in> {dept, None}" "resolve_eligible rd ch d \<noteq> []" using fit_eligible [OF assms] by blast
  then show "eligible_or_general rd ch dept \<noteq> []"
    using nobody_in_general [of rd ch dept] by (auto simp: eligible_or_general_def split: if_splits)
qed

text \<open>C20: A call is routed directly, or offered from the queue, only to a fit operator: the rows say that the user is a member whose role
  may join the queue and receive calls of the channel (a member without a role counts as a viewer), whose availability is of the
  channel or of both and who is in no call, who is not suspended and whose seat the plan has not paused; an offer goes
  to none of those excluded. With one availability row for each user, which the table's unique key gives, a call
  is routed directly exactly when the channel is open to visitors and a fit operator is among the candidates of
  the department or, failing that, of the workspace.\<close>

theorem calls_go_to_fit_operators:
  assumes "distinct (map av_user (rr_availability rd))"
  shows "(\<forall>u. resolve_call_routing_target rd ch dept = Direct u \<longrightarrow> fit_operator rd ch u)
   \<and> (\<forall>u. pick_operator_for_offer rd ch excluded dept = Some u \<longrightarrow> fit_operator rd ch u \<and> u \<notin> set excluded)
   \<and> ((\<exists>u. resolve_call_routing_target rd ch dept = Direct u) \<longleftrightarrow>
        truthy (if ch = Audio then visitor_audio (rr_channels rd) else visitor_video (rr_channels rd))
        \<and> (\<exists>u. fit_operator rd ch u \<and> (\<exists>d\<in>{dept, None}. u \<in> set (fst (resolve_routing_candidates rd ch d)))))"
  unfolding somebody_found [OF assms, symmetric]
proof (intro conjI allI impI)
  fix u assume "resolve_call_routing_target rd ch dept = Direct u"
  then have "\<exists>e. e \<in> set (eligible_or_general rd ch dept) \<and> eo_user e = u"
    using no_owner_route [of rd ch dept] by (auto simp: resolve_call_routing_target_def split: if_splits list.splits option.splits)
  then show "fit_operator rd ch u" using eligible_fit eligible_or_general_cases [of rd ch dept] by metis
next
  fix u assume "pick_operator_for_offer rd ch excluded dept = Some u"
  then obtain e d where e: "List.find (\<lambda>e. eo_user e \<notin> set excluded) (resolve_eligible rd ch d) = Some e" "eo_user e = u"
    by (auto simp: pick_operator_for_offer_def Let_def split: option.splits if_splits)
  then have "e \<in> set (resolve_eligible rd ch d)" "eo_user e \<notin> set excluded" by (auto dest: find_Some_D)
  then show "fit_operator rd ch u" and "u \<notin> set excluded" using eligible_fit e(2) by blast+
next
  show "(\<exists>u. resolve_call_routing_target rd ch dept = Direct u) \<longleftrightarrow>
        truthy (if ch = Audio then visitor_audio (rr_channels rd) else visitor_video (rr_channels rd))
        \<and> eligible_or_general rd ch dept \<noteq> []"
    using no_owner_route [of rd ch dept]
    by (cases ch; cases "eligible_or_general rd ch dept") (auto simp: resolve_call_routing_target_def)
qed

definition ready_operator :: availability_row where
  "ready_operator =
     \<lparr>av_user = ''u1'', av_workspace = ''w1'', av_status = Available_both, av_in_call = False, av_since = None, av_session = None,
      av_heartbeat = 0, av_updated = 0\<rparr>"

definition sample_routing :: routing_reads where
  "sample_routing =
     \<lparr>rr_member_rows = [\<lparr>mr_user = ''u1'', mr_suspended = False\<rparr>], rr_departments = [], rr_department_members = (\<lambda>_. []),
      rr_assigned = [], rr_locked = None, rr_members = [(''u1'', ''agent'')], rr_availability = [ready_operator],
      rr_permissions = (\<lambda>_ _. True),
      rr_channels = load_effective_call_channels DEFAULT_CALL_CONTROL_PLANE DEFAULT_WORKSPACE_OVERRIDES\<lparr>visitor_audio := JBool True\<rparr>,
      rr_callback = JBool True, rr_policy = DEFAULT_GLOBAL_ADVANCED_ROUTING, rr_owner = None\<rparr>"

theorem calls_go_to_fit_operators_witness:
  "resolve_call_routing_target sample_routing Audio None = Direct ''u1'' \<and> fit_operator sample_routing Audio ''u1''"
proof -
  have "distinct (map av_user (rr_availability sample_routing))" by (simp add: sample_routing_def)
  note routed = calls_go_to_fit_operators [OF this, of Audio None "[]"]
  have "resolve_eligible sample_routing Audio None
      = [\<lparr>eo_user = ''u1'', eo_role = ''agent'', eo_status = Available_both, eo_in_call = False\<rparr>]"
    by (simp add: resolve_eligible_def List.map_filter_def eligible_member_def sample_routing_def resolve_routing_candidates_def
        department_pool_def routable_members_def general_pool_def may_receive_def availability_of_def ready_operator_def
        is_eligible_def member_role_def Let_def)
  then have "resolve_call_routing_target sample_routing Audio None = Direct ''u1''"
    by (simp add: resolve_call_routing_target_def eligible_or_general_def given_def sample_routing_def)
  then show ?thesis using routed by blast
qed

section \<open>The owner\<close>

lemma reads_no_policy [simp]:
  "routable_members (rd\<lparr>rr_policy := p, rr_owner := w\<rparr>) = routable_members rd"
  "general_pool (rd\<lparr>rr_policy := p, rr_owner := w\<rparr>) = general_pool rd"
  "availability_of (rd\<lparr>rr_policy := p, rr_owner := w\<rparr>) = availability_of rd"
  by (simp_all add: fun_eq_iff routable_members_def general_pool_def availability_of_def)

lemma candidates_no_policy [simp]:
  "department_pool (rd\<lparr>rr_policy := p, rr_owner := w\<rparr>) = department_pool rd"
  "eligible_member (rd\<lparr>rr_policy := p, rr_owner := w\<rparr>) = eligible_member rd"
  by (auto simp: fun_eq_iff department_pool_def eligible_member_def Let_def split: option.split)

lemma resolve_no_policy [simp]:
  "resolve_routing_candidates (rd\<lparr>rr_policy := p, rr_owner := w\<rparr>) = resolve_routing_candidates rd"
  by (simp add: fun_eq_iff resolve_routing_candidates_def)

lemma eligible_no_policy [simp]:
  "resolve_eligible (rd\<lparr>rr_policy := p, rr_owner := w\<rparr>) = resolve_eligible rd"
  by (simp add: fun_eq_iff resolve_eligible_def)

text \<open>C32: The owner fallback never routes a call: it looks for the owner among the operators of the general pool, which
  were looked at before and found empty. Whatever the policy and whoever the owner, the decision is the same.\<close>

theorem owner_fallback_never_routes:
  "resolve_call_routing_target (rd\<lparr>rr_policy := p, rr_owner := w\<rparr>) ch dept = resolve_call_routing_target rd ch dept"
proof -
  have e: "eligible_or_general (rd\<lparr>rr_policy := p, rr_owner := w\<rparr>) ch dept = eligible_or_general rd ch dept"
    by (simp add: eligible_or_general_def)
  show ?thesis
  proof (cases "eligible_or_general rd ch dept")
    case Nil
    then show ?thesis using e no_owner_route [of rd ch dept] no_owner_route [of "rd\<lparr>rr_policy := p, rr_owner := w\<rparr>" ch dept]
      by (simp add: resolve_call_routing_target_def)
  next
    case (Cons x xs)
    then show ?thesis using e by (simp add: resolve_call_routing_target_def)
  qed
qed

section \<open>After a call\<close>

lemma upsert_rows:
  assumes "r \<in> set (upsert_availability now ws u f db)" and "is_for ws u r" and "\<And>x. is_for ws u (f x) = is_for ws u x"
  shows "\<exists>x. r = f x"
  using assms by (auto simp: upsert_availability_def list_ex_iff split: if_splits)

text \<open>C38: Taking a call overwrites the operator's own status with busy, and the end of the call clears only the call: the
  operator is eligible for no channel until a new status is set.\<close>

theorem operator_stays_busy_after_call:
  assumes "r \<in> set (clear_in_call ok t' ws u (mark_in_call True t ws u session db))" and "is_for ws u r"
  shows "\<not> is_eligible r ch \<and> av_status r = Busy \<and> (ok \<longrightarrow> \<not> av_in_call r \<and> av_session r = None)"
proof -
  have i: "is_for ws u (in_call_row t session x) = is_for ws u x" "is_for ws u (call_over_row t' x) = is_for ws u x" for x
    by (simp_all add: is_for_def in_call_row_def call_over_row_def)
  obtain y where y: "y \<in> set (mark_in_call True t ws u session db)" "r = (if ok then call_over_row t' y else y)" "is_for ws u y"
    using assms i by (auto simp: clear_in_call_def split: if_splits)
  then obtain x where "y = in_call_row t session x"
    using upsert_rows [of y t ws u "in_call_row t session" db] i by (auto simp: mark_in_call_def)
  then show ?thesis using y(2) by (auto simp: is_eligible_def in_call_row_def call_over_row_def)
qed

theorem operator_stays_busy_after_call_witness:
  "is_eligible ready_operator Audio
   \<and> \<not> is_eligible (hd (clear_in_call True 2000 ''w1'' ''u1'' (mark_in_call True 1000 ''w1'' ''u1'' ''c1'' [ready_operator]))) Audio"
proof -
  let ?r = "call_over_row 2000 (in_call_row 1000 ''c1'' ready_operator)"
  have "clear_in_call True 2000 ''w1'' ''u1'' (mark_in_call True 1000 ''w1'' ''u1'' ''c1'' [ready_operator]) = [?r]" "is_for ''w1'' ''u1'' ?r"
    by (simp_all add: clear_in_call_def mark_in_call_def upsert_availability_def is_for_def ready_operator_def in_call_row_def call_over_row_def)
  then show ?thesis
    using operator_stays_busy_after_call [of ?r True 2000 "''w1''" "''u1''" 1000 "''c1''" "[ready_operator]" Audio]
    by (simp add: is_eligible_def ready_operator_def)
qed

end
