(* ===== verification/Enforcement_Cycle.thy ===== *)
theory Enforcement_Cycle
  imports Enforcement_Resolver
begin

text \<open>
  One cycle of the enforcement engine (\<open>server/services/observability/enforcementEngine.ts\<close>): the
  runtime flags, the triggers, the cool-down, the candidates handed to the conflict resolver and the
  activation of what it keeps. The two tables the cycle writes (\<open>auto_action_events\<close> and
  \<open>enforcement_actions\<close>) are the state; the answers of the other queries are arguments, \<open>None\<close> or
  \<open>False\<close> for one that failed, which the code reads as an empty answer. Times are milliseconds.
\<close>

section \<open>Flags\<close>

record runtime_flags =
  kill :: bool
  dry_mode :: bool
  max_concurrent :: rat

definition apply_flag :: "string \<times> jsval \<Rightarrow> runtime_flags \<Rightarrow> runtime_flags" where
  "apply_flag row f =
     (let (key, v) = row in
      if key = ''enforcement_kill_switch'' then f\<lparr>kill := truthy (get_prop v ''enabled'')\<rparr>
      else if key = ''enforcement_dry_run'' then f\<lparr>dry_mode := truthy (get_prop v ''enabled'')\<rparr>
      else if key = ''enforcement_max_concurrent''
      then (case to_number (get_prop v ''value'') of
              Fin q \<Rightarrow> if 1 \<le> q \<and> q \<le> 50 then f\<lparr>max_concurrent := q\<rparr> else f
            | _ \<Rightarrow> f)
      else f)"

definition load_runtime_flags :: "(string \<times> jsval) list option \<Rightarrow> runtime_flags" where
  "load_runtime_flags rows =
     fold apply_flag (case rows of None \<Rightarrow> [] | Some rs \<Rightarrow> rs) \<lparr>kill = False, dry_mode = False, max_concurrent = 5\<rparr>"

section \<open>Rules and their triggers\<close>

datatype trigger_type = Slo_breach | Health_score | Alert_rate

fun trigger_text :: "trigger_type \<Rightarrow> string" where
  "trigger_text Slo_breach = ''slo_breach''"
| "trigger_text Health_score = ''health_score''"
| "trigger_text Alert_rate = ''alert_rate''"

record enforcement_rule =
  er_id :: string
  er_slug :: string
  er_trigger :: trigger_type
  er_condition :: jsval
  er_actions :: "enforcement_action list"
  cooldown_seconds :: int
  ttl_seconds :: int
  er_priority :: "int option"

record breach =
  breach_id :: string
  breach_slo :: string
  breach_scope_type :: string
  breach_scope_key :: string
  consecutive_breaches :: int

record rule_match =
  match_scope_type :: string
  match_scope_key :: string
  match_payload :: jsval

record action_definition =
  definition_id :: string
  definition_slug :: string
  max_duration_seconds :: "int option"

text \<open>
  What the other tables answer: the newest open breach of an objective with at least so many breaches
  in a row, the critical alerts fired since a time, and the definition of an action.
\<close>

record store_reads =
  open_breach :: "string \<Rightarrow> jsnum \<Rightarrow> breach option"
  critical_alerts :: "int \<Rightarrow> nat option"
  find_definition :: "enforcement_action \<Rightarrow> action_definition option"

text \<open>\<open>String(v)\<close>.\<close>

fun js_text :: "jsval \<Rightarrow> string" and element_text :: "jsval \<Rightarrow> string" and join_texts :: "jsval list \<Rightarrow> string" where
  "js_text Undefined = ''undefined''"
| "js_text Null = ''null''"
| "js_text (JBool b) = (if b then ''true'' else ''false'')"
| "js_text (JNum n) = (case n of NaN \<Rightarrow> ''NaN'' | PInf \<Rightarrow> ''Infinity'' | NInf \<Rightarrow> ''-Infinity'' | Fin q \<Rightarrow> js_num_text q)"
| "js_text (JStr s) = s"
| "js_text (JArr xs) = join_texts xs"
| "js_text (JObj m) = ''[object Object]''"
| "element_text v = (if v = Undefined \<or> v = Null then [] else js_text v)"
| "join_texts [] = []"
| "join_texts [x] = element_text x"
| "join_texts (x # y # xs) = element_text x @ '','' @ join_texts (y # xs)"

definition js_or :: "jsval \<Rightarrow> jsval \<Rightarrow> jsval" where
  "js_or a b = (if truthy a then a else b)"

fun max_with :: "rat \<Rightarrow> jsnum \<Rightarrow> jsnum" where
  "max_with k NaN = NaN"
| "max_with k PInf = PInf"
| "max_with k NInf = Fin k"
| "max_with k (Fin q) = Fin (max k q)"

fun num_below :: "nat \<Rightarrow> jsnum \<Rightarrow> bool" where
  "num_below n NaN = False"
| "num_below n PInf = True"
| "num_below n NInf = False"
| "num_below n (Fin q) = (of_nat n < q)"

text \<open>The instant a window of seconds started, when a date can hold it.\<close>

fun window_start :: "int \<Rightarrow> jsnum \<Rightarrow> int option" where
  "window_start t (Fin q) =
     (let x = of_int t - q * 1000 in if \<bar>x\<bar> \<le> 8640000000000000 then Some (js_trunc x) else None)"
| "window_start t _ = None"

definition json_int :: "int \<Rightarrow> jsval" where
  "json_int n = JNum (Fin (of_int n))"

text \<open>\<open>evaluateRule\<close>; an error it throws is \<open>None\<close>.\<close>

definition evaluate_rule :: "store_reads \<Rightarrow> int \<Rightarrow> enforcement_rule \<Rightarrow> rule_match option option" where
  "evaluate_rule db t rule =
     (case er_trigger rule of
        Slo_breach \<Rightarrow>
          (let slug = js_text (js_or (get_prop (er_condition rule) ''slo_slug'') (JStr []));
               least = max_with 1 (to_number (js_or (get_prop (er_condition rule) ''min_consecutive_breaches'') (JNum (Fin 1))))
           in if slug = [] then Some None
              else Some (map_option
                (\<lambda>b. \<lparr>match_scope_type = breach_scope_type b, match_scope_key = breach_scope_key b,
                      match_payload = JObj [(''slo_slug'', JStr (breach_slo b)), (''breach_event_id'', JStr (breach_id b)),
                        (''consecutive_breaches'', json_int (consecutive_breaches b))]\<rparr>)
                (open_breach db slug least)))
      | Health_score \<Rightarrow> Some None
      | Alert_rate \<Rightarrow>
          (let least = max_with 1 (to_number (js_or (get_prop (er_condition rule) ''min_critical_in_window'') (JNum (Fin 5))));
               window = max_with 60 (to_number (js_or (get_prop (er_condition rule) ''window_seconds'') (JNum (Fin 600))))
           in case window_start t window of
                None \<Rightarrow> None
              | Some since \<Rightarrow>
                  (let n = critical_alerts db since
                   in if num_below (case n of None \<Rightarrow> 0 | Some k \<Rightarrow> k) least then Some None
                      else Some (Some \<lparr>match_scope_type = ''platform'', match_scope_key = ''platform'',
                             match_payload = JObj [(''critical_count'', case n of None \<Rightarrow> Null | Some k \<Rightarrow> json_int (int k)),
                               (''window_seconds'', JNum window)]\<rparr>))))"

section \<open>The tables a cycle writes\<close>

record action_event =
  event_definition :: string
  event_slug :: string
  event_action :: enforcement_action
  event_rule_slug :: string
  event_active :: bool
  started_at :: int
  event_expires :: int
  event_details :: jsval

record audit_row =
  audit_rule_id :: string
  audit_rule_slug :: string
  audit_trigger :: trigger_type
  audit_payload :: jsval
  audit_event :: "nat option"
  audit_scope :: "string \<times> string"
  audit_dry_run :: bool
  audit_at :: int

record enforcement_db =
  action_events :: "action_event list"
  audits :: "audit_row list"

definition live_event :: "int \<Rightarrow> action_event \<Rightarrow> bool" where
  "live_event t e \<longleftrightarrow> event_active e \<and> t < event_expires e"

definition last_audit :: "string \<Rightarrow> enforcement_db \<Rightarrow> int option" where
  "last_audit rid db =
     (case map audit_at (filter (\<lambda>a. audit_rule_id a = rid) (audits db)) of
        [] \<Rightarrow> None
      | x # xs \<Rightarrow> Some (fold max xs x))"

section \<open>The cycle\<close>

record cycle_result =
  evaluated :: nat
  triggered :: nat
  skipped_cooldown :: nat
  skipped_kill_switch :: bool
  skipped_max_concurrent :: bool
  result_dry_run :: bool
  result_normalized :: bool
  ran_at :: int

text \<open>
  What happens around the application of one candidate: when it runs, whether the look-up of a live
  event succeeds, and whether the two inserts are accepted.
\<close>

record apply_env =
  apply_time :: int
  sees_live :: bool
  event_accepted :: bool
  audit_accepted :: bool

record cycle_env =
  cycle_time :: int
  flag_rows :: "(string \<times> jsval) list option"
  count_read :: bool
  rule_rows :: "enforcement_rule list option"
  rule_time :: "string \<Rightarrow> int"
  cooldown_read :: "string \<Rightarrow> bool"
  around :: "enforcement_action \<Rightarrow> apply_env"

record collected =
  col_evaluated :: nat
  col_skipped :: nat
  col_rules :: "string \<Rightarrow> enforcement_rule option"
  col_candidates :: "candidate list"

definition rule_weight :: "enforcement_rule \<Rightarrow> int" where
  "rule_weight r = (case er_priority r of None \<Rightarrow> 100 | Some p \<Rightarrow> p)"

definition compare_rules :: "enforcement_rule \<Rightarrow> enforcement_rule \<Rightarrow> int" where
  "compare_rules a b =
     (if rule_weight a \<noteq> rule_weight b then rule_weight b - rule_weight a
      else if er_slug a < er_slug b then - 1 else if er_slug b < er_slug a then 1 else 0)"

definition cooling_down :: "cycle_env \<Rightarrow> enforcement_db \<Rightarrow> enforcement_rule \<Rightarrow> bool" where
  "cooling_down env db r \<longleftrightarrow>
     cooldown_read env (er_id r)
     \<and> (case last_audit (er_id r) db of
          None \<Rightarrow> False
        | Some c \<Rightarrow> rule_time env (er_id r) - c < cooldown_seconds r * 1000)"

definition rule_candidates :: "enforcement_rule \<Rightarrow> rule_match \<Rightarrow> candidate list" where
  "rule_candidates r m =
     map (\<lambda>a. \<lparr>rule_id = er_id r, rule_slug = er_slug r, rule_priority = rule_weight r, cand_action = a,
                scope_type = match_scope_type m, scope_key = match_scope_key m, trigger_payload = match_payload m\<rparr>)
       (er_actions r)"

definition collect_rule :: "store_reads \<Rightarrow> cycle_env \<Rightarrow> enforcement_db \<Rightarrow> enforcement_rule \<Rightarrow> collected \<Rightarrow> collected" where
  "collect_rule reads env db r st =
     (let st = st\<lparr>col_evaluated := col_evaluated st + 1\<rparr>
      in case evaluate_rule reads (rule_time env (er_id r)) r of
           Some (Some m) \<Rightarrow>
             if cooling_down env db r then st\<lparr>col_skipped := col_skipped st + 1\<rparr>
             else st\<lparr>col_rules := (col_rules st)(er_id r \<mapsto> r),
                     col_candidates := col_candidates st @ rule_candidates r m\<rparr>
         | _ \<Rightarrow> st)"

definition collect_candidates :: "store_reads \<Rightarrow> cycle_env \<Rightarrow> enforcement_db \<Rightarrow> enforcement_rule list \<Rightarrow> collected" where
  "collect_candidates reads env db rules =
     fold (collect_rule reads env db) (js_sort compare_rules rules)
       \<lparr>col_evaluated = 0, col_skipped = 0, col_rules = \<lambda>_. None, col_candidates = []\<rparr>"

definition with_props :: "jsval \<Rightarrow> (string \<times> jsval) list \<Rightarrow> jsval" where
  "with_props v ps = JObj (fold (\<lambda>(k, x). AList.update k x) ps (case v of JObj m \<Rightarrow> m | _ \<Rightarrow> []))"

definition outcome_props :: "normalized \<Rightarrow> (string \<times> jsval) list" where
  "outcome_props n =
     [(''merged_with'', JArr (map JStr (merged_with n))),
      (''suppressed'', JArr (map (\<lambda>(a, why). JObj [(''action_type'', JStr (action_text a)), (''reason'', JStr why)]) (suppressed n))),
      (''annotations'', JArr (map JStr (annotations n)))]"

definition add_audit :: "apply_env \<Rightarrow> enforcement_rule \<Rightarrow> normalized \<Rightarrow> jsval \<Rightarrow> nat option \<Rightarrow> bool \<Rightarrow> enforcement_db \<Rightarrow> enforcement_db" where
  "add_audit env r n payload ev dry db =
     (if audit_accepted env
      then db\<lparr>audits := audits db @
        [\<lparr>audit_rule_id = er_id r, audit_rule_slug = er_slug r, audit_trigger = er_trigger r, audit_payload = payload,
           audit_event = ev, audit_scope = (scope_type n, scope_key n), audit_dry_run = dry, audit_at = apply_time env\<rparr>]\<rparr>
      else db)"

definition event_ttl :: "enforcement_rule \<Rightarrow> action_definition \<Rightarrow> int" where
  "event_ttl r d =
     min (ttl_seconds r) (case max_duration_seconds d of None \<Rightarrow> ttl_seconds r | Some k \<Rightarrow> if k = 0 then ttl_seconds r else k)"

definition new_event :: "apply_env \<Rightarrow> enforcement_rule \<Rightarrow> normalized \<Rightarrow> action_definition \<Rightarrow> action_event" where
  "new_event env r n d =
     \<lparr>event_definition = definition_id d, event_slug = definition_slug d, event_action = cand_action n,
      event_rule_slug = er_slug r, event_active = True, started_at = apply_time env,
      event_expires = apply_time env + event_ttl r d * 1000,
      event_details = JObj ([(''source'', JStr ''enforcement_engine''), (''rule_slug'', JStr (er_slug r)),
        (''trigger_type'', JStr (trigger_text (er_trigger r))), (''scope_type'', JStr (scope_type n)),
        (''scope_key'', JStr (scope_key n)), (''trigger_payload'', trigger_payload n),
        (''rule_priority'', json_int (rule_priority n))] @ outcome_props n)\<rparr>"

definition apply_candidate ::
  "store_reads \<Rightarrow> apply_env \<Rightarrow> bool \<Rightarrow> enforcement_rule \<Rightarrow> normalized \<Rightarrow> enforcement_db \<Rightarrow> bool \<times> enforcement_db" where
  "apply_candidate reads env dry r n db =
     (case find_definition reads (cand_action n) of
        None \<Rightarrow> (False, db)
      | Some d \<Rightarrow>
          if sees_live env \<and> list_ex (\<lambda>e. event_action e = cand_action n \<and> live_event (apply_time env) e) (action_events db)
          then (False, add_audit env r n (with_props (trigger_payload n) [(''skipped'', JStr ''already_active'')]) None dry db)
          else if dry
          then (True, add_audit env r n
                  (with_props (trigger_payload n)
                     ([(''dry_run'', JBool True), (''action_type'', JStr (action_text (cand_action n)))] @ outcome_props n))
                  None True db)
          else if \<not> event_accepted env then (False, db)
          else (True, add_audit env r n
                  (with_props (trigger_payload n)
                     ([(''action_type'', JStr (action_text (cand_action n))), (''ttl_seconds'', json_int (event_ttl r d)),
                       (''rule_priority'', json_int (rule_priority n))] @ outcome_props n))
                  (Some (length (action_events db))) False
                  (db\<lparr>action_events := action_events db @ [new_event env r n d]\<rparr>)))"

text \<open>The loop over the resolved candidates: how many were started, whether the cap stopped it.\<close>

fun apply_all ::
  "store_reads \<Rightarrow> cycle_env \<Rightarrow> runtime_flags \<Rightarrow> (string \<Rightarrow> enforcement_rule option) \<Rightarrow> nat \<Rightarrow> normalized list
     \<Rightarrow> enforcement_db \<Rightarrow> nat \<times> bool \<times> enforcement_db" where
  "apply_all reads env f rules active [] db = (0, False, db)"
| "apply_all reads env f rules active (n # ns) db =
     (if max_concurrent f \<le> of_nat active then (0, True, db)
      else (case rules (rule_id n) of
              None \<Rightarrow> apply_all reads env f rules active ns db
            | Some r \<Rightarrow>
                (let (ok, db') = apply_candidate reads (around env (cand_action n)) (dry_mode f) r n db;
                     (k, capped, db'') = apply_all reads env f rules (if ok \<and> \<not> dry_mode f then active + 1 else active) ns db'
                 in (if ok then Suc k else k, capped, db''))))"

definition active_count :: "cycle_env \<Rightarrow> enforcement_db \<Rightarrow> nat" where
  "active_count env db = (if count_read env then length (filter (live_event (cycle_time env)) (action_events db)) else 0)"

definition run_enforcement_cycle :: "store_reads \<Rightarrow> cycle_env \<Rightarrow> enforcement_db \<Rightarrow> cycle_result \<times> enforcement_db" where
  "run_enforcement_cycle reads env db =
     (let f = load_runtime_flags (flag_rows env);
          out = \<lparr>evaluated = 0, triggered = 0, skipped_cooldown = 0, skipped_kill_switch = False,
                 skipped_max_concurrent = False, result_dry_run = dry_mode f, result_normalized = False,
                 ran_at = cycle_time env\<rparr>
      in if kill f then (out\<lparr>skipped_kill_switch := True\<rparr>, db)
         else if max_concurrent f \<le> of_nat (active_count env db) then (out\<lparr>skipped_max_concurrent := True\<rparr>, db)
         else (case rule_rows env of
                 None \<Rightarrow> (out, db)
               | Some rules \<Rightarrow>
                   (let c = collect_candidates reads env db rules;
                        out = out\<lparr>evaluated := col_evaluated c, skipped_cooldown := col_skipped c\<rparr>
                    in if col_candidates c = [] then (out, db)
                       else (let res = resolve_enforcement_conflicts (col_candidates c);
                                 (k, capped, db') = apply_all reads env f (col_rules c) (active_count env db)
                                                      (normalized_candidates res) db
                             in (out\<lparr>result_normalized := changed res, skipped_max_concurrent := capped, triggered := k\<rparr>, db')))))"

section \<open>What a cycle does to the tables\<close>

lemma add_audit_events [simp]: "action_events (add_audit env r n p ev dry db) = action_events db"
  by (simp add: add_audit_def)

lemma add_audit_grows: "\<exists>more. audits (add_audit env r n p ev dry db) = audits db @ more"
  by (simp add: add_audit_def)

lemma apply_candidate_cases:
  assumes "apply_candidate reads env dry r n db = (ok, db')"
  obtains "action_events db' = action_events db" and "ok \<longrightarrow> dry"
  | d where "ok" and "\<not> dry" and "find_definition reads (cand_action n) = Some d"
      and "action_events db' = action_events db @ [new_event env r n d]"
      and "sees_live env \<longrightarrow> (\<forall>e\<in>set (action_events db). event_action e = cand_action n \<longrightarrow> \<not> live_event (apply_time env) e)"
  using assms by (auto simp: apply_candidate_def list_ex_iff split: option.splits if_splits)

lemma apply_candidate_audits:
  "apply_candidate reads env dry r n db = (ok, db') \<Longrightarrow> \<exists>more. audits db' = audits db @ more"
  using add_audit_grows
  by (auto simp: apply_candidate_def add_audit_def split: option.splits if_splits)

text \<open>A started event, its candidate, its rule and what the look-up of live events said.\<close>

definition started_by ::
  "store_reads \<Rightarrow> cycle_env \<Rightarrow> (string \<Rightarrow> enforcement_rule option) \<Rightarrow> action_event list \<Rightarrow> action_event \<Rightarrow> normalized \<Rightarrow> bool" where
  "started_by reads env rules old e n \<longleftrightarrow>
     (\<exists>r d. rules (rule_id n) = Some r \<and> find_definition reads (cand_action n) = Some d
        \<and> e = new_event (around env (cand_action n)) r n d
        \<and> (sees_live (around env (cand_action n)) \<longrightarrow>
             (\<forall>x\<in>set old. event_action x = cand_action n \<longrightarrow> \<not> live_event (apply_time (around env (cand_action n))) x)))"

lemma started_by_action: "started_by reads env rules old e n \<Longrightarrow> event_action e = cand_action n"
  by (auto simp: started_by_def new_event_def)

lemma started_by_less: "started_by reads env rules (old @ later) e n \<Longrightarrow> started_by reads env rules old e n"
  by (auto simp: started_by_def)

lemma apply_all_effect:
  assumes "apply_all reads env f rules active ns db = (k, capped, db')" and "distinct (map cand_action ns)"
  shows "\<exists>more. action_events db' = action_events db @ more \<and> distinct (map event_action more)
     \<and> (if dry_mode f then more = [] else length more = k \<and> (k = 0 \<or> of_nat (active + k) < max_concurrent f + 1))
     \<and> (\<forall>e\<in>set more. \<exists>n\<in>set ns. started_by reads env rules (action_events db) e n)"
  using assms
proof (induction ns arbitrary: active db k)
  case Nil
  then show ?case by auto
next
  case (Cons n ns)
  show ?case
  proof (cases "max_concurrent f \<le> of_nat active \<or> rules (rule_id n) = None")
    case True
    then show ?thesis
      using Cons.IH [of active db k] Cons.prems by (cases "max_concurrent f \<le> of_nat active") auto
  next
    case False
    then obtain r where cap: "of_nat active < max_concurrent f" and r: "rules (rule_id n) = Some r" by auto
    obtain ok db1 where a: "apply_candidate reads (around env (cand_action n)) (dry_mode f) r n db = (ok, db1)" by force
    let ?act = "if ok \<and> \<not> dry_mode f then active + 1 else active"
    obtain k1 where rest: "apply_all reads env f rules ?act ns db1 = (k1, capped, db')" and k: "k = (if ok then Suc k1 else k1)"
      using Cons.prems(1) cap by (auto simp: r a split: prod.splits)
    have ds: "distinct (map cand_action ns)" "cand_action n \<notin> cand_action ` set ns" using Cons.prems(2) by auto
    obtain more where m: "action_events db' = action_events db1 @ more" "distinct (map event_action more)"
      "if dry_mode f then more = [] else length more = k1 \<and> (k1 = 0 \<or> of_nat (?act + k1) < max_concurrent f + 1)"
      "\<forall>e\<in>set more. \<exists>x\<in>set ns. started_by reads env rules (action_events db1) e x"
      using Cons.IH [OF rest ds(1)] by blast
    from a show ?thesis
    proof (cases rule: apply_candidate_cases)
      case 1
      then show ?thesis using m k by (intro exI [of _ more]) (auto split: if_splits)
    next
      case (2 d)
      let ?e = "new_event (around env (cand_action n)) r n d"
      have own: "started_by reads env rules (action_events db) ?e n"
        using 2(3,5) r by (auto simp: started_by_def)
      have "cand_action n \<notin> event_action ` set more"
      proof
        assume "cand_action n \<in> event_action ` set more"
        then obtain x y where "y \<in> set ns" "started_by reads env rules (action_events db1) x y" "event_action x = cand_action n"
          using m(4) by auto
        then show False using ds(2) started_by_action by (metis image_eqI)
      qed
      then have "event_action ?e \<notin> event_action ` set more" by (simp add: new_event_def)
      then have "distinct (map event_action (?e # more))" using m(2) by simp
      moreover have "\<forall>e\<in>set (?e # more). \<exists>x\<in>set (n # ns). started_by reads env rules (action_events db) e x"
        using own m(4) started_by_less unfolding 2(4) by (metis insert_iff list.set(2) set_ConsD)
      moreover have "length (?e # more) = k \<and> (k = 0 \<or> of_nat (active + k) < max_concurrent f + 1)"
        using m(3) 2(1,2) k cap by auto
      ultimately show ?thesis using m(1) 2(2,4) by (intro exI [of _ "?e # more"]) auto
    qed
  qed
qed

lemma apply_all_audits:
  "apply_all reads env f rules active ns db = (k, capped, db') \<Longrightarrow> \<exists>more. audits db' = audits db @ more"
proof (induction ns arbitrary: active db k)
  case Nil
  then show ?case by simp
next
  case (Cons n ns)
  show ?case
  proof (cases "max_concurrent f \<le> of_nat active \<or> rules (rule_id n) = None")
    case True
    then show ?thesis using Cons by (auto split: if_splits)
  next
    case False
    then obtain r where r: "rules (rule_id n) = Some r" by auto
    obtain ok db1 where a: "apply_candidate reads (around env (cand_action n)) (dry_mode f) r n db = (ok, db1)" by force
    obtain act k1 where "apply_all reads env f rules act ns db1 = (k1, capped, db')"
      using Cons.prems False by (auto simp: r a split: prod.splits)
    then show ?thesis using Cons.IH apply_candidate_audits [OF a] by (metis append.assoc)
  qed
qed

section \<open>Where the candidates come from\<close>

definition wanted_by :: "store_reads \<Rightarrow> cycle_env \<Rightarrow> enforcement_db \<Rightarrow> enforcement_rule \<Rightarrow> candidate \<Rightarrow> bool" where
  "wanted_by reads env db r c \<longleftrightarrow>
     (\<exists>m. evaluate_rule reads (rule_time env (er_id r)) r = Some (Some m) \<and> c \<in> set (rule_candidates r m))
     \<and> \<not> cooling_down env db r"

lemma set_insert_by: "set (insert_by cmp x xs) = insert x (set xs)"
  by (induction xs) auto

lemma mset_insert_by: "mset (insert_by cmp x xs) = add_mset x (mset xs)"
  by (induction xs) auto

lemma mset_sorted_by: "mset (js_sort cmp xs) = mset xs"
  unfolding js_sort_def by (induction xs) (simp_all add: mset_insert_by)

lemma collect_step:
  assumes old: "\<forall>c\<in>set (col_candidates st). \<exists>r\<in>set rs. col_rules st (rule_id c) = Some r \<and> er_id r = rule_id c \<and> wanted_by reads env db r c"
    and fresh: "er_id r \<notin> er_id ` set rs"
  shows "\<forall>c\<in>set (col_candidates (collect_rule reads env db r st)).
     \<exists>x\<in>set (rs @ [r]). col_rules (collect_rule reads env db r st) (rule_id c) = Some x \<and> er_id x = rule_id c \<and> wanted_by reads env db x c"
proof (cases "\<exists>m. evaluate_rule reads (rule_time env (er_id r)) r = Some (Some m) \<and> \<not> cooling_down env db r")
  case True
  then obtain m where m: "evaluate_rule reads (rule_time env (er_id r)) r = Some (Some m)" "\<not> cooling_down env db r" by blast
  have st: "col_candidates (collect_rule reads env db r st) = col_candidates st @ rule_candidates r m"
    "col_rules (collect_rule reads env db r st) = (col_rules st)(er_id r \<mapsto> r)"
    using m by (simp_all add: collect_rule_def)
  have new: "wanted_by reads env db r c \<and> rule_id c = er_id r" if "c \<in> set (rule_candidates r m)" for c
    using that m by (auto simp: wanted_by_def rule_candidates_def)
  show ?thesis
  proof
    fix c assume "c \<in> set (col_candidates (collect_rule reads env db r st))"
    then consider "c \<in> set (col_candidates st)" | "c \<in> set (rule_candidates r m)" unfolding st by auto
    then show "\<exists>x\<in>set (rs @ [r]). col_rules (collect_rule reads env db r st) (rule_id c) = Some x \<and> er_id x = rule_id c \<and> wanted_by reads env db x c"
    proof cases
      case 1
      then obtain x where x: "x \<in> set rs" "col_rules st (rule_id c) = Some x" "er_id x = rule_id c" "wanted_by reads env db x c"
        using old by blast
      then have "rule_id c \<noteq> er_id r" using fresh by (metis image_eqI)
      then show ?thesis using x by (auto simp: st)
    next
      case 2
      then show ?thesis using new by (auto simp: st)
    qed
  qed
next
  case False
  then have "col_candidates (collect_rule reads env db r st) = col_candidates st"
    "col_rules (collect_rule reads env db r st) = col_rules st"
    by (auto simp: collect_rule_def Let_def split: option.split)
  then show ?thesis using old by auto
qed

lemma collected_wanted:
  assumes "distinct (map er_id rules)" and "c \<in> set (col_candidates (collect_candidates reads env db rules))"
  shows "\<exists>r\<in>set rules. col_rules (collect_candidates reads env db rules) (rule_id c) = Some r \<and> er_id r = rule_id c \<and> wanted_by reads env db r c"
proof -
  let ?st0 = "\<lparr>col_evaluated = 0, col_skipped = 0, col_rules = \<lambda>_. None, col_candidates = []\<rparr>"
  have all: "distinct (map er_id rs) \<Longrightarrow> \<forall>c\<in>set (col_candidates (fold (collect_rule reads env db) rs ?st0)).
      \<exists>r\<in>set rs. col_rules (fold (collect_rule reads env db) rs ?st0) (rule_id c) = Some r \<and> er_id r = rule_id c \<and> wanted_by reads env db r c" for rs
  proof (induction rs rule: rev_induct)
    case (snoc r rs)
    then show ?case using collect_step [of "fold (collect_rule reads env db) rs ?st0" rs] by simp
  qed simp
  have m: "mset (js_sort compare_rules rules) = mset rules" by (rule mset_sorted_by)
  then have "mset (map er_id (js_sort compare_rules rules)) = mset (map er_id rules)" by simp
  then have "distinct (map er_id (js_sort compare_rules rules))" using assms(1) by (metis mset_eq_imp_distinct_iff)
  moreover have "set (js_sort compare_rules rules) = set rules" using m by (metis set_mset_mset)
  ultimately show ?thesis using all assms(2) unfolding collect_candidates_def by metis
qed

section \<open>Properties\<close>

lemma flags_bounded: "1 \<le> max_concurrent (load_runtime_flags rows) \<and> max_concurrent (load_runtime_flags rows) \<le> 50"
proof -
  have one: "1 \<le> max_concurrent (apply_flag row f) \<and> max_concurrent (apply_flag row f) \<le> 50"
    if "1 \<le> max_concurrent f \<and> max_concurrent f \<le> 50" for row f
    using that by (auto simp: apply_flag_def split: prod.split jsnum.split)
  have "1 \<le> max_concurrent f \<and> max_concurrent f \<le> 50 \<Longrightarrow>
      1 \<le> max_concurrent (fold apply_flag rs f) \<and> max_concurrent (fold apply_flag rs f) \<le> 50" for rs f
  proof (induction rs arbitrary: f)
    case (Cons r rs)
    then show ?case using one [of f r] by simp
  qed simp
  then show ?thesis by (simp add: load_runtime_flags_def)
qed

text \<open>A cycle leaves the tables as they are, or is one pass over the resolved candidates.\<close>

lemma cycle_cases:
  fixes env :: cycle_env
  defines "f \<equiv> load_runtime_flags (flag_rows env)"
  assumes run: "run_enforcement_cycle reads env db = (out, db')"
  obtains "db' = db" and "triggered out = 0"
  | rules k capped where "\<not> kill f" and "rule_rows env = Some rules" and "triggered out = k"
      and "apply_all reads env f (col_rules (collect_candidates reads env db rules)) (active_count env db)
             (outcome_of (col_candidates (collect_candidates reads env db rules))) db = (k, capped, db')"
proof (cases "kill f \<or> max_concurrent f \<le> of_nat (active_count env db) \<or> rule_rows env = None")
  case True
  then show ?thesis using that(1) run by (auto simp: run_enforcement_cycle_def Let_def f_def [symmetric] split: if_splits)
next
  case False
  then obtain rules where r: "rule_rows env = Some rules" by auto
  show ?thesis
  proof (cases "col_candidates (collect_candidates reads env db rules) = []")
    case True
    then show ?thesis using that(1) run False r by (auto simp: run_enforcement_cycle_def Let_def f_def [symmetric])
  next
    case ne: False
    show ?thesis
      using that(2) run False r ne
      by (auto simp: run_enforcement_cycle_def Let_def f_def [symmetric] outcome_of_def split: prod.splits)
  qed
qed

lemma cycle_limits:
  assumes "run_enforcement_cycle reads env db = (out, db')"
  shows "(\<exists>rows. audits db' = audits db @ rows)
      \<and> (if kill (load_runtime_flags (flag_rows env)) then db' = db \<and> triggered out = 0
         else if dry_mode (load_runtime_flags (flag_rows env)) then action_events db' = action_events db
         else \<exists>new. action_events db' = action_events db @ new \<and> length new = triggered out
                \<and> (triggered out = 0
                   \<or> of_nat (active_count env db + triggered out) < max_concurrent (load_runtime_flags (flag_rows env)) + 1))"
  using assms
proof (cases rule: cycle_cases)
  case 1
  then show ?thesis by simp
next
  case (2 rules k capped)
  show ?thesis
    using apply_all_effect [OF 2(4) outcome_entries(2)] apply_all_audits [OF 2(4)] 2(1,3) by (auto split: if_splits)
qed

lemma new_events_active:
  assumes "run_enforcement_cycle reads env db = (out, db')" and "action_events db' = action_events db @ new"
  shows "\<forall>e\<in>set new. event_active e"
  using assms(1)
proof (cases rule: cycle_cases)
  case 1
  then show ?thesis using assms(2) by simp
next
  case (2 rules k capped)
  show ?thesis
    using apply_all_effect [OF 2(4) outcome_entries(2)] assms(2) by (fastforce simp: started_by_def new_event_def)
qed

text \<open>C33: a cycle keeps within its switches and its cap. The cap is between one and fifty whatever the
  configuration holds. Under the kill switch nothing is written; in the dry run no action is started;
  otherwise the events are only added to, as many as the result reports, and when any is added, the
  added events together with those that were live when the cycle counted them (none, when that query
  failed) are at most the cap, rounded up if it is fractional. The audit is only added to.\<close>

theorem cycle_respects_limits:
  "let f = load_runtime_flags (flag_rows env); (out, db') = run_enforcement_cycle reads env db;
       live = (if count_read env then length (filter (live_event (cycle_time env)) (action_events db)) else 0)
   in 1 \<le> max_concurrent f \<and> max_concurrent f \<le> 50 \<and> (\<exists>rows. audits db' = audits db @ rows)
      \<and> (if kill f then db' = db \<and> triggered out = 0
         else if dry_mode f then action_events db' = action_events db
         else \<exists>new. action_events db' = action_events db @ new \<and> length new = triggered out
                \<and> (new = [] \<or> int (live + length new) \<le> \<lceil>max_concurrent f\<rceil>))"
proof -
  obtain out db' where run: "run_enforcement_cycle reads env db = (out, db')" by force
  have cap: "int n \<le> \<lceil>c\<rceil>" if "of_nat n < c + 1" for n and c :: rat
    using that by (simp add: le_ceiling_iff)
  show ?thesis
    unfolding Let_def run prod.case active_count_def [symmetric]
    using cycle_limits [OF run] flags_bounded [of "flag_rows env"] cap
    by (metis (no_types, lifting) list.size(3) length_0_conv)
qed

lemma fold_max_upper: "a \<in> set (x # xs) \<Longrightarrow> (a :: int) \<le> fold max xs x"
  by (metis List.finite_set Max.set_eq_fold Max_ge)

lemma not_cooling_down:
  assumes "\<not> cooling_down env db r" "cooldown_read env (er_id r)" "a \<in> set (audits db)" "audit_rule_id a = er_id r"
  shows "cooldown_seconds r * 1000 \<le> rule_time env (er_id r) - audit_at a"
proof -
  let ?ts = "map audit_at (filter (\<lambda>a. audit_rule_id a = er_id r) (audits db))"
  have a: "audit_at a \<in> set ?ts" using assms(3,4) by simp
  then obtain x xs where xs: "?ts = x # xs" by (cases ?ts) auto
  then have "last_audit (er_id r) db = Some (fold max xs x)" by (simp only: last_audit_def list.case)
  moreover have "audit_at a \<le> fold max xs x" using a unfolding xs by (rule fold_max_upper)
  ultimately show ?thesis using assms(1,2) by (simp add: cooling_down_def)
qed

text \<open>What entitles a rule to have started an event, over the rows alone.\<close>

definition justifies :: "store_reads \<Rightarrow> cycle_env \<Rightarrow> enforcement_db \<Rightarrow> action_event \<Rightarrow> enforcement_rule \<Rightarrow> bool" where
  "justifies reads env db e r \<longleftrightarrow>
     (\<exists>m d.
       event_rule_slug e = er_slug r \<and> event_action e \<in> set (er_actions r)
       \<and> evaluate_rule reads (rule_time env (er_id r)) r = Some (Some m)
       \<and> (cooldown_read env (er_id r) \<longrightarrow>
            (\<forall>a\<in>set (audits db). audit_rule_id a = er_id r \<longrightarrow>
               cooldown_seconds r * 1000 \<le> rule_time env (er_id r) - audit_at a))
       \<and> find_definition reads (event_action e) = Some d
       \<and> event_expires e = started_at e + 1000 *
            (if max_duration_seconds d \<in> {None, Some 0} then ttl_seconds r
             else min (ttl_seconds r) (the (max_duration_seconds d)))
       \<and> (sees_live (around env (event_action e)) \<longrightarrow>
            (\<forall>x\<in>set (action_events db). event_action x = event_action e \<longrightarrow> \<not> live_event (started_at e) x)))"

lemma started_justified:
  assumes "distinct (map er_id rules)" and "n \<in> set (outcome_of (col_candidates (collect_candidates reads env db rules)))"
    and "started_by reads env (col_rules (collect_candidates reads env db rules)) (action_events db) e n"
  shows "\<exists>r\<in>set rules. justifies reads env db e r"
proof -
  let ?col = "collect_candidates reads env db rules"
  obtain c where c: "c \<in> set (col_candidates ?col)" "cand_action c = cand_action n" "rule_id n = rule_id c"
    using outcome_owner [OF assms(2)] by blast
  obtain r where r: "r \<in> set rules" "col_rules ?col (rule_id c) = Some r" "wanted_by reads env db r c"
    using collected_wanted [OF assms(1) c(1)] by blast
  obtain d where d: "find_definition reads (cand_action n) = Some d" "e = new_event (around env (cand_action n)) r n d"
    "sees_live (around env (cand_action n)) \<longrightarrow>
       (\<forall>x\<in>set (action_events db). event_action x = cand_action n \<longrightarrow> \<not> live_event (apply_time (around env (cand_action n))) x)"
    using assms(3) r(2) c(3) unfolding started_by_def by auto
  obtain m where m: "evaluate_rule reads (rule_time env (er_id r)) r = Some (Some m)" "c \<in> set (rule_candidates r m)"
    "\<not> cooling_down env db r" using r(3) unfolding wanted_by_def by blast
  have a: "cand_action n \<in> set (er_actions r)" using m(2) c(2) by (auto simp: rule_candidates_def)
  have ttl: "event_ttl r d = (if max_duration_seconds d \<in> {None, Some 0} then ttl_seconds r
             else min (ttl_seconds r) (the (max_duration_seconds d)))"
    by (auto simp: event_ttl_def split: option.split)
  show ?thesis
    using m(1) d a not_cooling_down [OF m(3)] ttl unfolding justifies_def
    by (intro bexI [OF _ r(1)] exI [of _ m] exI [of _ d]) (simp_all add: new_event_def)
qed

text \<open>C5: every started action is justified. With rules that have distinct ids, an event a cycle adds
  belongs to a rule of the list that names this action and whose trigger was found to hold (evaluateRule);
  every audit row of that rule is at least the rule's cool-down old, provided that the look-up of them
  succeeded (a failed one counts as none); the event lasts for the rule's time to live, cut to the
  maximum of the action's definition when that has one; no event of the same action was live when it
  started, provided that this look-up succeeded; and a cycle starts no action twice.\<close>

theorem cycle_events_justified:
  assumes "rule_rows env = Some rules" and "distinct (map er_id rules)"
    and "run_enforcement_cycle reads env db = (out, db')" and "action_events db' = action_events db @ new"
  shows "distinct (map event_action new) \<and> (\<forall>e\<in>set new. \<exists>r\<in>set rules. justifies reads env db e r)"
  using assms(3)
proof (cases rule: cycle_cases)
  case 1
  then show ?thesis using assms(4) by simp
next
  case (2 rs k capped)
  let ?col = "collect_candidates reads env db rules"
  have rs: "rs = rules" using 2(2) assms(1) by simp
  obtain nw where nw: "action_events db' = action_events db @ nw" "distinct (map event_action nw)"
    "\<forall>e\<in>set nw. \<exists>n\<in>set (outcome_of (col_candidates ?col)). started_by reads env (col_rules ?col) (action_events db) e n"
    using apply_all_effect [OF 2(4) outcome_entries(2)] unfolding rs by blast
  have "nw = new" using nw(1) assms(4) by simp
  then show ?thesis using nw(2,3) started_justified [OF assms(2)] by blast
qed

text \<open>A small platform: one rule that always fires, and the definition of its action.\<close>

definition sample_rule :: enforcement_rule where
  "sample_rule =
     \<lparr>er_id = ''r'', er_slug = ''storm'', er_trigger = Alert_rate, er_condition = JObj [], er_actions = [Force_polling_mode],
      cooldown_seconds = 60, ttl_seconds = 900, er_priority = None\<rparr>"

definition sample_reads :: store_reads where
  "sample_reads =
     \<lparr>open_breach = \<lambda>_ _. None, critical_alerts = \<lambda>_. Some 9,
      find_definition = \<lambda>_. Some \<lparr>definition_id = ''d'', definition_slug = ''polling'', max_duration_seconds = Some 600\<rparr>\<rparr>"

definition sample_env :: cycle_env where
  "sample_env =
     \<lparr>cycle_time = 1000000, flag_rows = None, count_read = True, rule_rows = Some [sample_rule],
      rule_time = \<lambda>_. 1000000, cooldown_read = \<lambda>_. True,
      around = \<lambda>_. \<lparr>apply_time = 1000500, sees_live = True, event_accepted = True, audit_accepted = True\<rparr>\<rparr>"

definition empty_db :: enforcement_db where
  "empty_db = \<lparr>action_events = [], audits = []\<rparr>"

lemma sample_collected:
  "col_candidates (collect_candidates sample_reads sample_env empty_db [sample_rule])
     = [\<lparr>rule_id = ''r'', rule_slug = ''storm'', rule_priority = 100, cand_action = Force_polling_mode,
         scope_type = ''platform'', scope_key = ''platform'',
         trigger_payload = JObj [(''critical_count'', JNum (Fin 9)), (''window_seconds'', JNum (Fin 600))]\<rparr>]"
  "col_rules (collect_candidates sample_reads sample_env empty_db [sample_rule]) ''r'' = Some sample_rule"
  by (simp_all add: collect_candidates_def collect_rule_def js_sort_def evaluate_rule_def sample_rule_def sample_reads_def
      sample_env_def empty_db_def cooling_down_def last_audit_def rule_candidates_def rule_weight_def js_or_def json_int_def
      Let_def)

lemma sample_fields:
  "action_events empty_db = []" "flag_rows sample_env = None" "rule_rows sample_env = Some [sample_rule]"
  "count_read sample_env" "sees_live (around sample_env a)" "event_accepted (around sample_env a)"
  "find_definition sample_reads a = Some \<lparr>definition_id = ''d'', definition_slug = ''polling'', max_duration_seconds = Some 600\<rparr>"
  by (simp_all add: empty_db_def sample_env_def sample_reads_def)

lemma sample_cycle:
  "\<exists>e out db'. run_enforcement_cycle sample_reads sample_env empty_db = (out, db') \<and> triggered out = 1
     \<and> action_events db' = action_events empty_db @ [e] \<and> event_action e = Force_polling_mode
     \<and> started_at e = 1000500 \<and> event_expires e = 1600500"
proof -
  let ?cs = "col_candidates (collect_candidates sample_reads sample_env empty_db [sample_rule])"
  have n: "normalized_candidates (resolve_enforcement_conflicts ?cs) = [start_owner (hd ?cs)]"
    by (simp add: sample_collected resolve_enforcement_conflicts_def js_sort_def merge_candidate_def
        supersession_def supersede_def superseded_by_force_polling_def annotate_def start_owner_def Let_def)
  have a: "max_concurrent (load_runtime_flags None) = 5" "\<not> kill (load_runtime_flags None)" "\<not> dry_mode (load_runtime_flags None)"
    by (simp_all add: load_runtime_flags_def)
  show ?thesis
    by (simp add: run_enforcement_cycle_def sample_fields n a active_count_def Let_def)
      (simp add: sample_collected start_owner_def apply_candidate_def sample_fields a new_event_def event_ttl_def,
        simp add: sample_rule_def sample_env_def)
qed

lemma cycle_events_justified_witness:
  "\<exists>e :: action_event. event_action e = Force_polling_mode \<and> event_rule_slug e = ''storm''
     \<and> event_expires e = started_at e + 600000"
proof -
  obtain e :: action_event and out db' where run: "run_enforcement_cycle sample_reads sample_env empty_db = (out, db')"
    "action_events db' = action_events empty_db @ [e]" "event_action e = Force_polling_mode"
    using sample_cycle by blast
  have d: "distinct (map er_id [sample_rule])" by simp
  show ?thesis
    using cycle_events_justified [OF sample_fields(3) d run(1,2)] run(3)
    by (intro exI [of _ e]) (auto simp: justifies_def sample_rule_def sample_reads_def)
qed

text \<open>
  A threshold that is not a number switches an alert rule on for good: the comparison with it is never
  true, so the rule fires without a single critical alert.
\<close>

lemma unreadable_threshold_always_fires:
  assumes "er_trigger r = Alert_rate" and "to_number (get_prop (er_condition r) ''min_critical_in_window'') = NaN"
    and "truthy (get_prop (er_condition r) ''min_critical_in_window'')"
    and "get_prop (er_condition r) ''window_seconds'' = Undefined"
    and "0 \<le> t" and "t \<le> 8640000000000000" and "critical_alerts reads (t - 600000) = Some 0"
  shows "\<exists>m. evaluate_rule reads t r = Some (Some m)"
proof -
  have "window_start t (Fin 600) = Some (t - 600000)"
  proof -
    have "of_int t - 600 * 1000 = (of_int (t - 600000) :: rat)" by simp
    moreover have "\<bar>of_int (t - 600000) :: rat\<bar> \<le> 8640000000000000" using assms(5,6) by linarith
    ultimately show ?thesis by (simp add: js_trunc_def Let_def)
  qed
  then show ?thesis using assms by (simp add: evaluate_rule_def js_or_def Let_def)
qed

end
