(* ===== verification/Call_Queue.thy ===== *)
theory Call_Queue
  imports Call_Operators Enforcement_Cycle
begin

text \<open>
  The queue of calls (\<open>server/services/calls/queue.ts\<close>), the ticker that maintains it (\<open>queueTicker.ts\<close>) and the
  handlers operators reach it through (\<open>server/routes/callQueue.ts\<close>). The table has a key, the id, and an index that
  allows one active entry of a visitor and channel. Events and timeline entries are not modelled. Each query of a pass
  has its own time; what fails is a flag of an environment.
\<close>

section \<open>Entries\<close>

datatype queue_status = Queued | Offered | Accepted | Cancelled | Expired | Missed | Callback_requested

record queue_entry =
  qe_id :: string
  qe_workspace :: string
  qe_channel :: call_channel
  qe_state :: queue_status
  qe_visitor :: "string option"
  qe_contact :: "string option"
  qe_conversation :: "string option"
  qe_session :: "string option"
  qe_requested_by :: string
  qe_priority :: int
  qe_metadata :: jsval
  qe_offered_to :: "string option"
  qe_offered_at :: "int option"
  qe_accepted_at :: "int option"
  qe_ended_at :: "int option"
  qe_reason :: "string option"
  qe_expires :: int
  qe_created :: int
  qe_misses :: nat
  qe_offer_expires :: "int option"
  qe_offer_timeout :: int
  qe_sla_breached :: bool
  qe_callback :: "string option"

definition active_status :: "queue_status \<Rightarrow> bool" where
  "active_status st \<longleftrightarrow> st = Queued \<or> st = Offered"

text \<open>The key of the index of active entries, and the index.\<close>

definition active_key :: "queue_entry \<Rightarrow> (string \<times> string \<times> call_channel) option" where
  "active_key e = (if active_status (qe_state e) then map_option (\<lambda>v. (qe_workspace e, v, qe_channel e)) (qe_visitor e) else None)"

definition index_ok :: "queue_entry list \<Rightarrow> bool" where
  "index_ok db \<longleftrightarrow> distinct (List.map_filter active_key db)"

text \<open>An update of the row with an id, when its state is one of those asked for and the index allows it.\<close>

definition update_entry ::
  "string \<Rightarrow> (queue_status \<Rightarrow> bool) \<Rightarrow> (queue_entry \<Rightarrow> queue_entry) \<Rightarrow> queue_entry list \<Rightarrow> (queue_entry \<times> queue_entry list) option" where
  "update_entry i P f db =
     (case List.find (\<lambda>e. qe_id e = i \<and> P (qe_state e)) db of
        None \<Rightarrow> None
      | Some e \<Rightarrow>
          (let db' = map (\<lambda>x. if qe_id x = i \<and> P (qe_state x) then f x else x) db
           in if index_ok db' then Some (f e, db') else None))"

section \<open>Operations\<close>

datatype queue_error = Queue_disabled | Voice_disabled | Video_disabled | Enqueue_failed | Offer_failed | Accept_failed | Cancel_failed

record queue_env =
  qv_now :: int
  qv_new_id :: string
  qv_read_ok :: bool
  qv_write_ok :: bool

record enqueue_input =
  ei_workspace :: string
  ei_channel :: call_channel
  ei_visitor :: "string option"
  ei_contact :: "string option"
  ei_conversation :: "string option"
  ei_requested_by :: "string option"
  ei_priority :: "int option"
  ei_metadata :: "jsval option"

text \<open>The row inserted, with the defaults of the table: it expires after fifteen minutes.\<close>

definition queued_entry :: "queue_env \<Rightarrow> enqueue_input \<Rightarrow> queue_entry" where
  "queued_entry env x =
     \<lparr>qe_id = qv_new_id env, qe_workspace = ei_workspace x, qe_channel = ei_channel x, qe_state = Queued, qe_visitor = ei_visitor x,
      qe_contact = ei_contact x, qe_conversation = ei_conversation x, qe_session = None,
      qe_requested_by = (case ei_requested_by x of None \<Rightarrow> ''visitor'' | Some r \<Rightarrow> r),
      qe_priority = (case ei_priority x of None \<Rightarrow> 0 | Some p \<Rightarrow> p), qe_metadata = (case ei_metadata x of None \<Rightarrow> JObj [] | Some m \<Rightarrow> m),
      qe_offered_to = None, qe_offered_at = None, qe_accepted_at = None, qe_ended_at = None, qe_reason = None,
      qe_expires = qv_now env + 900000, qe_created = qv_now env, qe_misses = 0, qe_offer_expires = None, qe_offer_timeout = 25,
      qe_sla_breached = False, qe_callback = None\<rparr>"

definition active_for :: "enqueue_input \<Rightarrow> queue_entry \<Rightarrow> bool" where
  "active_for x e \<longleftrightarrow>
     qe_workspace e = ei_workspace x \<and> qe_visitor e = ei_visitor x \<and> qe_channel e = ei_channel x \<and> active_status (qe_state e)"

text \<open>The active entry of the visitor, when the query answers with exactly one.\<close>

definition existing_entry :: "queue_env \<Rightarrow> enqueue_input \<Rightarrow> queue_entry list \<Rightarrow> queue_entry option" where
  "existing_entry env x db =
     (case ei_visitor x of
        Some (c # v) \<Rightarrow> if qv_read_ok env then (case filter (active_for x) db of [e] \<Rightarrow> Some e | _ \<Rightarrow> None) else None
      | _ \<Rightarrow> None)"

definition enqueue_call ::
  "queue_env \<Rightarrow> call_channels \<Rightarrow> enqueue_input \<Rightarrow> queue_entry list \<Rightarrow> (queue_error + queue_entry) \<times> queue_entry list" where
  "enqueue_call env chans x db =
     (if \<not> truthy (queue chans) then (Inl Queue_disabled, db)
      else if ei_channel x = Audio \<and> \<not> truthy (visitor_audio chans) then (Inl Voice_disabled, db)
      else if ei_channel x = Video \<and> \<not> truthy (visitor_video chans) then (Inl Video_disabled, db)
      else (case existing_entry env x db of
              Some e \<Rightarrow> (Inr e, db)
            | None \<Rightarrow>
                (let e = queued_entry env x
                 in if qv_write_ok env \<and> qe_id e \<notin> qe_id ` set db \<and> index_ok (db @ [e]) then (Inr e, db @ [e])
                    else (Inl Enqueue_failed, db))))"

text \<open>The seconds an offer stands, at least five; the column holds four-byte integers.\<close>

definition offer_timeout :: "props \<Rightarrow> int option" where
  "offer_timeout cp =
     (case max_with 5 (to_number (js_or (prop_of cp ''queue_offer_timeout_seconds'') (JNum (Fin 25)))) of
        Fin q \<Rightarrow> if of_int \<lfloor>q\<rfloor> = q \<and> q < 2 ^ 31 then Some \<lfloor>q\<rfloor> else None
      | _ \<Rightarrow> None)"

definition offered_entry :: "int \<Rightarrow> int \<Rightarrow> string \<Rightarrow> queue_entry \<Rightarrow> queue_entry" where
  "offered_entry now secs operator e =
     e\<lparr>qe_state := Offered, qe_offered_to := Some operator, qe_offered_at := Some now, qe_offer_expires := Some (now + secs * 1000),
       qe_offer_timeout := secs\<rparr>"

definition offer_entry :: "queue_env \<Rightarrow> props \<Rightarrow> string \<Rightarrow> string \<Rightarrow> queue_entry list \<Rightarrow> (queue_error + queue_entry) \<times> queue_entry list" where
  "offer_entry env cp i operator db =
     (case (if qv_write_ok env then offer_timeout cp else None) of
        None \<Rightarrow> (Inl Offer_failed, db)
      | Some secs \<Rightarrow>
          (case update_entry i (\<lambda>st. st = Queued) (offered_entry (qv_now env) secs operator) db of
             None \<Rightarrow> (Inl Offer_failed, db) | Some (e, db') \<Rightarrow> (Inr e, db')))"

definition accepted_entry :: "int \<Rightarrow> string option \<Rightarrow> queue_entry \<Rightarrow> queue_entry" where
  "accepted_entry now session e = e\<lparr>qe_state := Accepted, qe_accepted_at := Some now, qe_session := session\<rparr>"

definition accept_entry :: "queue_env \<Rightarrow> string \<Rightarrow> string option \<Rightarrow> queue_entry list \<Rightarrow> (queue_error + queue_entry) \<times> queue_entry list" where
  "accept_entry env i session db =
     (case (if qv_write_ok env then update_entry i active_status (accepted_entry (qv_now env) session) db else None) of
        None \<Rightarrow> (Inl Accept_failed, db) | Some (e, db') \<Rightarrow> (Inr e, db'))"

definition ended_entry :: "int \<Rightarrow> queue_status \<Rightarrow> string \<Rightarrow> queue_entry \<Rightarrow> queue_entry" where
  "ended_entry now st reason e = e\<lparr>qe_state := st, qe_ended_at := Some now, qe_reason := Some reason\<rparr>"

text \<open>\<open>cancelEntry\<close>: no row is not an error.\<close>

definition cancel_entry :: "queue_env \<Rightarrow> string \<Rightarrow> string \<Rightarrow> queue_entry list \<Rightarrow> (queue_error + queue_entry option) \<times> queue_entry list" where
  "cancel_entry env i reason db =
     (if \<not> qv_write_ok env then (Inl Cancel_failed, db)
      else (case update_entry i active_status (ended_entry (qv_now env) Cancelled reason) db of
              None \<Rightarrow> (Inr None, db) | Some (e, db') \<Rightarrow> (Inr (Some e), db')))"

definition is_stale_entry :: "int \<Rightarrow> queue_entry \<Rightarrow> bool" where
  "is_stale_entry now e \<longleftrightarrow> qe_expires e < now \<and> active_status (qe_state e)"

definition expire_stale_entries :: "queue_env \<Rightarrow> queue_entry list \<Rightarrow> nat \<times> queue_entry list" where
  "expire_stale_entries env db =
     (if qv_write_ok env
      then (length (filter (is_stale_entry (qv_now env)) db),
            map (\<lambda>e. if is_stale_entry (qv_now env) e then ended_entry (qv_now env) Expired ''timeout'' e else e) db)
      else (0, db))"

section \<open>Offers that ran out\<close>

definition MAX_MISSES :: nat where "MAX_MISSES = 3"

definition stale_offers :: "queue_env \<Rightarrow> queue_entry list \<Rightarrow> queue_entry list" where
  "stale_offers env db =
     (if qv_read_ok env
      then take 100 (filter (\<lambda>e. qe_state e = Offered \<and> (case qe_offer_expires e of None \<Rightarrow> False | Some t \<Rightarrow> t < qv_now env)) db)
      else [])"

fun at_least :: "rat \<Rightarrow> jsnum \<Rightarrow> bool" where
  "at_least q (Fin k) = (k \<le> q)"
| "at_least q NInf = True"
| "at_least q _ = False"

definition sla_breach :: "int \<Rightarrow> props \<Rightarrow> queue_entry \<Rightarrow> bool" where
  "sla_breach now cp e = at_least (of_int (now - qe_created e) / 1000) (to_number (prop_of cp ''queue_max_wait_seconds''))"

definition missed_entry :: "int \<Rightarrow> nat \<Rightarrow> bool \<Rightarrow> queue_entry \<Rightarrow> queue_entry" where
  "missed_entry now misses sla e =
     e\<lparr>qe_state := Missed, qe_ended_at := Some now, qe_reason := Some (if sla then ''sla_breach'' else ''no_answer''),
       qe_misses := misses, qe_sla_breached := sla\<rparr>"

definition requeued_entry :: "nat \<Rightarrow> queue_entry \<Rightarrow> queue_entry" where
  "requeued_entry misses e =
     e\<lparr>qe_state := Queued, qe_offered_to := None, qe_offered_at := None, qe_offer_expires := None, qe_misses := misses\<rparr>"

text \<open>What becomes of an offer that ran out, from the row that was read.\<close>

definition reaped_entry :: "int \<Rightarrow> props \<Rightarrow> queue_entry \<Rightarrow> queue_entry \<Rightarrow> queue_entry" where
  "reaped_entry now cp read e =
     (if MAX_MISSES \<le> Suc (qe_misses read) \<or> sla_breach now cp read
      then missed_entry now (Suc (qe_misses read)) (sla_breach now cp read) e
      else requeued_entry (Suc (qe_misses read)) e)"

text \<open>The update is by id alone, in whatever state the row is by then.\<close>

definition reap_row :: "queue_env \<Rightarrow> props \<Rightarrow> queue_entry \<Rightarrow> queue_entry list \<Rightarrow> queue_entry list" where
  "reap_row env cp read db =
     (case (if qv_write_ok env then update_entry (qe_id read) (\<lambda>_. True) (reaped_entry (qv_now env) cp read) db else None) of
        None \<Rightarrow> db | Some (e, db') \<Rightarrow> db')"

text \<open>Each row has its own time and its own update.\<close>

definition reap_stale_offers :: "queue_env \<Rightarrow> (string \<Rightarrow> queue_env) \<Rightarrow> props \<Rightarrow> queue_entry list \<Rightarrow> queue_entry list" where
  "reap_stale_offers env env_of cp db = fold (\<lambda>e. reap_row (env_of (qe_id e)) cp e) (stale_offers env db) db"

definition mark_entry_as_callback :: "queue_env \<Rightarrow> string \<Rightarrow> string \<Rightarrow> queue_entry list \<Rightarrow> queue_entry list" where
  "mark_entry_as_callback env i cb db =
     (case (if qv_write_ok env
            then update_entry i active_status
                   (\<lambda>e. (ended_entry (qv_now env) Callback_requested ''callback_requested'' e)\<lparr>qe_callback := Some cb\<rparr>) db
            else None) of
        None \<Rightarrow> db | Some (e, db') \<Rightarrow> db')"

text \<open>By priority, the oldest first.\<close>

definition by_priority :: "queue_entry list \<Rightarrow> queue_entry list" where
  "by_priority es = sort_key (\<lambda>e. - qe_priority e) (sort_key qe_created es)"

definition list_active :: "bool \<Rightarrow> string \<Rightarrow> call_channel option \<Rightarrow> queue_entry list \<Rightarrow> queue_entry list" where
  "list_active ok ws ch db =
     (if ok
      then take 200 (by_priority (filter (\<lambda>e. qe_workspace e = ws \<and> active_status (qe_state e)
             \<and> (case ch of None \<Rightarrow> True | Some c \<Rightarrow> qe_channel e = c)) db))
      else [])"

definition get_entry :: "bool \<Rightarrow> string \<Rightarrow> string \<Rightarrow> queue_entry list \<Rightarrow> queue_entry option" where
  "get_entry ok ws i db = (if ok then List.find (\<lambda>e. qe_workspace e = ws \<and> qe_id e = i) db else None)"

section \<open>The ticker\<close>

definition live_offers :: "string \<Rightarrow> queue_entry list \<Rightarrow> string list" where
  "live_offers ws db = List.map_filter qe_offered_to (filter (\<lambda>e. qe_workspace e = ws \<and> qe_state e = Offered) db)"

text \<open>Whom to offer a call to: the operators of the moment, for a channel and those who already have an offer.\<close>

type_synonym picker = "call_channel \<Rightarrow> string list \<Rightarrow> string option"

fun offer_all ::
  "(string \<Rightarrow> queue_env) \<Rightarrow> props \<Rightarrow> picker \<Rightarrow> call_channel \<Rightarrow> queue_entry list \<Rightarrow> string list \<times> queue_entry list
     \<Rightarrow> string list \<times> queue_entry list" where
  "offer_all env_of cp pick ch [] (held, db) = (held, db)"
| "offer_all env_of cp pick ch (e # es) (held, db) =
     (case pick ch held of
        None \<Rightarrow> (held, db)
      | Some u \<Rightarrow>
          (case offer_entry (env_of (qe_id e)) cp (qe_id e) u db of
             (Inl _, db') \<Rightarrow> offer_all env_of cp pick ch es (held, db')
           | (Inr _, db') \<Rightarrow> offer_all env_of cp pick ch es (held @ [u], db')))"

record assign_env =
  as_queue_ok :: bool
  as_offers_ok :: bool
  as_around :: "string \<Rightarrow> queue_env"

definition auto_assign_workspace :: "assign_env \<Rightarrow> props \<Rightarrow> picker \<Rightarrow> string \<Rightarrow> queue_entry list \<Rightarrow> queue_entry list" where
  "auto_assign_workspace env cp pick ws db =
     (let rows = (if as_queue_ok env then take 20 (by_priority (filter (\<lambda>e. qe_workspace e = ws \<and> qe_state e = Queued) db)) else []);
          held = (if as_offers_ok env then live_offers ws db else []);
          step = (\<lambda>ch. offer_all (as_around env) cp pick ch (filter (\<lambda>e. qe_channel e = ch) rows))
      in if rows = [] then db else snd (step Video (step Audio (held, db))))"

definition queued_workspaces :: "queue_entry list \<Rightarrow> string list" where
  "queued_workspaces db = remdups (map qe_workspace (take 200 (filter (\<lambda>e. qe_state e = Queued) db)))"

definition auto_assign_all :: "(string \<Rightarrow> assign_env) \<Rightarrow> props \<Rightarrow> (string \<Rightarrow> picker) \<Rightarrow> queue_entry list \<Rightarrow> queue_entry list" where
  "auto_assign_all env cp pick db =
     fold (\<lambda>ws. auto_assign_workspace (env ws) cp (pick ws) ws) (queued_workspaces db) db"

text \<open>\<open>hasActiveEntries\<close>, from the answer of the function or of the query that stands in for it; a failure counts as yes.\<close>

definition has_active_entries :: "bool \<Rightarrow> bool \<Rightarrow> queue_entry list \<Rightarrow> bool" where
  "has_active_entries rpc_ok read_ok db = (if rpc_ok \<or> read_ok then list_ex (\<lambda>e. active_status (qe_state e)) db else True)"

record pass_env =
  pe_rpc_ok :: bool
  pe_read_ok :: bool
  pe_expire :: queue_env
  pe_reap :: queue_env
  pe_reap_row :: "string \<Rightarrow> queue_env"
  pe_assign :: "string \<Rightarrow> assign_env"

definition queue_pass :: "pass_env \<Rightarrow> props \<Rightarrow> (string \<Rightarrow> picker) \<Rightarrow> queue_entry list \<Rightarrow> queue_entry list" where
  "queue_pass env cp pick db =
     (if has_active_entries (pe_rpc_ok env) (pe_read_ok env) db
      then auto_assign_all (pe_assign env) cp pick
             (reap_stale_offers (pe_reap env) (pe_reap_row env) cp (snd (expire_stale_entries (pe_expire env) db)))
      else db)"

section \<open>The handlers\<close>

text \<open>
  The status a handler answers with and the table; \<open>auth\<close> is the status of a refusal, or that the caller is a member of the
  workspace in the path. The body of an acceptance is what the schema makes of it, \<open>None\<close> when it is refused.
\<close>

definition offer_route ::
  "queue_env \<Rightarrow> props \<Rightarrow> nat option \<Rightarrow> permission_map \<Rightarrow> string \<Rightarrow> string \<Rightarrow> string \<Rightarrow> queue_entry list \<Rightarrow> nat \<times> queue_entry list" where
  "offer_route env cp auth perms user ws i db =
     (case auth of
        Some code \<Rightarrow> (code, db)
      | None \<Rightarrow>
          if \<not> perms Can_join_queue_calls then (403, db)
          else (case get_entry (qv_read_ok env) ws i db of
                  None \<Rightarrow> (404, db)
                | Some _ \<Rightarrow> (case offer_entry env cp i user db of (Inl _, db') \<Rightarrow> (409, db') | (Inr _, db') \<Rightarrow> (200, db'))))"

definition accept_route ::
  "queue_env \<Rightarrow> nat option \<Rightarrow> string \<Rightarrow> string \<Rightarrow> string option option \<Rightarrow> queue_entry list \<Rightarrow> nat \<times> queue_entry list" where
  "accept_route env auth ws i body db =
     (case auth of
        Some code \<Rightarrow> (code, db)
      | None \<Rightarrow>
          (case body of
             None \<Rightarrow> (400, db)
           | Some session \<Rightarrow> (case accept_entry env i session db of (Inl _, db') \<Rightarrow> (409, db') | (Inr _, db') \<Rightarrow> (200, db'))))"

definition cancel_route ::
  "queue_env \<Rightarrow> nat option \<Rightarrow> string \<Rightarrow> string \<Rightarrow> jsval \<Rightarrow> queue_entry list \<Rightarrow> nat \<times> queue_entry list" where
  "cancel_route env auth ws i body db =
     (case auth of
        Some code \<Rightarrow> (code, db)
      | None \<Rightarrow>
          (case cancel_entry env i (js_text (js_or (get_prop body ''reason'') (JStr ''operator_cancelled''))) db of
             (Inl _, db') \<Rightarrow> (500, db') | (Inr None, db') \<Rightarrow> (404, db') | (Inr (Some _), db') \<Rightarrow> (200, db')))"

section \<open>Updates keep the keys\<close>

lemma update_entry_some:
  assumes "update_entry i P f db = Some (e', db')"
  shows "\<exists>e\<in>set db. qe_id e = i \<and> P (qe_state e) \<and> e' = f e
    \<and> db' = map (\<lambda>x. if qe_id x = i \<and> P (qe_state x) then f x else x) db \<and> index_ok db'"
  using assms by (auto simp: update_entry_def Let_def split: option.splits if_splits dest: find_Some_D)

section \<open>The life of an entry\<close>

fun may_become :: "queue_status \<Rightarrow> queue_status set" where
  "may_become Queued = {Offered, Accepted, Cancelled, Expired, Callback_requested}"
| "may_become Offered = {Queued, Accepted, Cancelled, Expired, Missed, Callback_requested}"
| "may_become _ = {}"

definition moves :: "queue_entry \<Rightarrow> queue_entry \<Rightarrow> bool" where
  "moves e e' \<longleftrightarrow>
     e' = e
     \<or> (qe_id e' = qe_id e \<and> qe_state e' \<in> may_become (qe_state e) \<and> active_key e' \<in> {None, active_key e}
        \<and> (qe_misses e' = qe_misses e
           \<or> qe_state e = Offered \<and> qe_misses e' = Suc (qe_misses e)
             \<and> (qe_state e' = Missed \<or> qe_state e' = Queued \<and> qe_misses e' < MAX_MISSES)))"

text \<open>An operation moves the rows of the table and may append one that is queued.\<close>

definition advances :: "queue_entry list \<Rightarrow> queue_entry list \<Rightarrow> bool" where
  "advances db db' \<longleftrightarrow>
     (\<exists>f xs. db' = map f db @ xs \<and> (\<forall>e\<in>set db. moves e (f e))
        \<and> (xs = [] \<or> (\<exists>x. xs = [x] \<and> qe_state x = Queued \<and> qe_misses x = 0 \<and> qe_id x \<notin> qe_id ` set db)))"

lemma advancesI: "(\<And>e. e \<in> set db \<Longrightarrow> moves e (f e)) \<Longrightarrow> advances db (map f db)"
  unfolding advances_def by (rule exI [of _ f], rule exI [of _ "[]"]) simp

lemma advances_refl [simp]: "advances db db"
  using advancesI [of db id] by (simp add: moves_def)

lemma active_states [simp]: "active_status Queued" "active_status Offered"
  by (simp_all add: active_status_def)

lemma keeps_key [simp]:
  "active_key (offered_entry now secs u e) = (if active_status (qe_state e) then active_key e else active_key (e\<lparr>qe_state := Queued\<rparr>))"
  by (simp add: active_key_def offered_entry_def)

lemma moves_offer: "qe_state e = Queued \<Longrightarrow> moves e (offered_entry now secs u e)"
  by (simp add: moves_def) (simp add: offered_entry_def)

lemma moves_accept: "active_status (qe_state e) \<Longrightarrow> moves e (accepted_entry now session e)"
  by (auto simp: moves_def accepted_entry_def active_status_def active_key_def)

lemma moves_end:
  "active_status (qe_state e) \<Longrightarrow> st \<in> {Cancelled, Expired, Callback_requested} \<Longrightarrow> moves e (ended_entry now st reason e)"
  unfolding moves_def
  by (rule disjI2, cases "qe_state e"; elim insertE emptyE) (simp_all add: ended_entry_def active_status_def active_key_def)

lemma moves_callback:
  "active_status (qe_state e) \<Longrightarrow> moves e ((ended_entry now Callback_requested reason e)\<lparr>qe_callback := cb\<rparr>)"
  unfolding moves_def
  by (rule disjI2, cases "qe_state e") (simp_all add: ended_entry_def active_status_def active_key_def)

lemma moves_reap:
  assumes "qe_state e = Offered"
  shows "moves e (reaped_entry now cp e e)"
proof (cases "MAX_MISSES \<le> Suc (qe_misses e) \<or> sla_breach now cp e")
  case True
  then show ?thesis using assms by (simp add: moves_def reaped_entry_def missed_entry_def requeued_entry_def active_key_def active_status_def)
next
  case False
  then show ?thesis using assms by (simp add: moves_def reaped_entry_def missed_entry_def requeued_entry_def active_key_def active_status_def)
qed

lemma update_advances:
  assumes "update_entry i P f db = Some (e', db')" and "\<And>e. e \<in> set db \<Longrightarrow> qe_id e = i \<Longrightarrow> P (qe_state e) \<Longrightarrow> moves e (f e)"
  shows "advances db db' \<and> index_ok db'"
proof -
  have db': "db' = map (\<lambda>x. if qe_id x = i \<and> P (qe_state x) then f x else x) db" "index_ok db'"
    using update_entry_some [OF assms(1)] by blast+
  have "advances db (map (\<lambda>x. if qe_id x = i \<and> P (qe_state x) then f x else x) db)"
    by (rule advancesI) (use assms(2) in \<open>auto simp: moves_def [of e e for e]\<close>)
  then show ?thesis using db' by simp
qed

lemma index_moves:
  "index_ok db \<Longrightarrow> (\<And>e. e \<in> set db \<Longrightarrow> active_key (f e) \<in> {None, active_key e}) \<Longrightarrow> index_ok (map f db)"
proof (induction db)
  case (Cons e db)
  have sub: "set (List.map_filter active_key (map f db)) \<subseteq> set (List.map_filter active_key db)"
    using Cons.prems(2) by (force simp: List.map_filter_def)
  have "active_key (f e) = None \<or> active_key (f e) = active_key e" using Cons.prems(2) by simp
  moreover have "index_ok (map f db)" using Cons by (cases "active_key e") (simp_all add: index_ok_def List.map_filter_simps)
  ultimately show ?case using Cons.prems(1) sub
    by (cases "active_key e") (auto simp: index_ok_def List.map_filter_simps)
qed simp

section \<open>Steps\<close>

text \<open>
  One operation on the table. A row whose offer ran out is reaped in the state it was read in; what happens when another
  operation comes in between is looked at below.
\<close>

inductive queue_step :: "queue_entry list \<Rightarrow> queue_entry list \<Rightarrow> bool" where
  enqueued: "enqueue_call env chans x db = (r, db') \<Longrightarrow> queue_step db db'"
| offered: "offer_entry env cp i u db = (r, db') \<Longrightarrow> queue_step db db'"
| accepted: "accept_entry env i session db = (r, db') \<Longrightarrow> queue_step db db'"
| cancelled: "cancel_entry env i reason db = (c, db') \<Longrightarrow> queue_step db db'"
| expired: "queue_step db (snd (expire_stale_entries env db))"
| reaped: "e \<in> set db \<Longrightarrow> qe_state e = Offered \<Longrightarrow> queue_step db (reap_row env cp e db)"
| called_back: "queue_step db (mark_entry_as_callback env i cb db)"

definition queue_ok :: "queue_entry list \<Rightarrow> bool" where
  "queue_ok db \<longleftrightarrow> distinct (map qe_id db) \<and> index_ok db"

lemma same_entry: "queue_ok db \<Longrightarrow> e \<in> set db \<Longrightarrow> e' \<in> set db \<Longrightarrow> qe_id e' = qe_id e \<Longrightarrow> e' = e"
  by (simp add: queue_ok_def distinct_map inj_on_def)

lemma advances_ids: "advances db db' \<Longrightarrow> distinct (map qe_id db) \<Longrightarrow> distinct (map qe_id db')"
proof -
  assume a: "advances db db'" and d: "distinct (map qe_id db)"
  then obtain f xs where f: "db' = map f db @ xs" "\<forall>e\<in>set db. moves e (f e)"
      "xs = [] \<or> (\<exists>x. xs = [x] \<and> qe_state x = Queued \<and> qe_misses x = 0 \<and> qe_id x \<notin> qe_id ` set db)"
    by (auto simp: advances_def)
  then have ids: "map qe_id (map f db) = map qe_id db" by (auto simp: moves_def)
  have "distinct (map qe_id (map f db @ xs))"
    unfolding map_append ids using d f(3) by (auto intro: rev_image_eqI)
  then show ?thesis using f(1) by simp
qed

text \<open>What the guarded updates do to the table.\<close>

definition applied ::
  "bool \<Rightarrow> string \<Rightarrow> (queue_status \<Rightarrow> bool) \<Rightarrow> (queue_entry \<Rightarrow> queue_entry) \<Rightarrow> queue_entry list \<Rightarrow> queue_entry list" where
  "applied ok i P f db = (case (if ok then update_entry i P f db else None) of None \<Rightarrow> db | Some (e, db') \<Rightarrow> db')"

lemma applied_advances:
  assumes "queue_ok db" and "\<And>e. e \<in> set db \<Longrightarrow> qe_id e = i \<Longrightarrow> P (qe_state e) \<Longrightarrow> moves e (f e)"
  shows "advances db (applied ok i P f db) \<and> index_ok (applied ok i P f db)"
proof (cases "if ok then update_entry i P f db else None")
  case None
  then show ?thesis using assms(1) by (simp add: applied_def queue_ok_def)
next
  case (Some x)
  obtain e db' where x: "x = (e, db')" by (cases x)
  then have "update_entry i P f db = Some (e, db')" using Some by (simp split: if_splits)
  then show ?thesis using update_advances [OF _ assms(2)] Some x by (simp add: applied_def)
qed

lemma operations_applied:
  "snd (accept_entry env i session db) = applied (qv_write_ok env) i active_status (accepted_entry (qv_now env) session) db"
  "snd (cancel_entry env i reason db) = applied (qv_write_ok env) i active_status (ended_entry (qv_now env) Cancelled reason) db"
  "reap_row env cp e db = applied (qv_write_ok env) (qe_id e) (\<lambda>_. True) (reaped_entry (qv_now env) cp e) db"
  "mark_entry_as_callback env i cb db = applied (qv_write_ok env) i active_status
     (\<lambda>e. (ended_entry (qv_now env) Callback_requested ''callback_requested'' e)\<lparr>qe_callback := Some cb\<rparr>) db"
  by (auto simp: applied_def accept_entry_def cancel_entry_def reap_row_def mark_entry_as_callback_def split: option.split)

lemma offer_applied:
  "snd (offer_entry env cp i u db) =
     (case offer_timeout cp of None \<Rightarrow> db
      | Some secs \<Rightarrow> applied (qv_write_ok env) i (\<lambda>st. st = Queued) (offered_entry (qv_now env) secs u) db)"
  by (auto simp: applied_def offer_entry_def split: option.split)

lemma step_advances:
  assumes "queue_step db db'" and "queue_ok db"
  shows "advances db db' \<and> queue_ok db'"
proof -
  have "advances db db' \<and> index_ok db'" using assms
  proof (cases rule: queue_step.cases)
    case (enqueued env chans x r)
    have "advances db (db @ [queued_entry env x])" if "qv_new_id env \<notin> qe_id ` set db"
      unfolding advances_def using that
      by (intro exI [of _ id] exI [of _ "[queued_entry env x]"]) (simp add: queued_entry_def moves_def)
    then show ?thesis using enqueued assms(2)
      by (auto simp: enqueue_call_def queue_ok_def Let_def queued_entry_def split: if_splits option.splits)
  next
    case (offered env cp i u r)
    then have "db' = snd (offer_entry env cp i u db)" by simp
    then show ?thesis using assms(2) applied_advances [OF assms(2), of i "\<lambda>st. st = Queued"] moves_offer
      by (auto simp: offer_applied queue_ok_def split: option.split)
  next
    case (accepted env i session r)
    then have "db' = snd (accept_entry env i session db)" by simp
    then show ?thesis using applied_advances [OF assms(2), of i active_status] moves_accept by (simp add: operations_applied)
  next
    case (cancelled env i reason c)
    then have "db' = snd (cancel_entry env i reason db)" by simp
    then show ?thesis using applied_advances [OF assms(2), of i active_status] moves_end by (simp add: operations_applied)
  next
    case (expired env)
    let ?f = "\<lambda>e. if is_stale_entry (qv_now env) e then ended_entry (qv_now env) Expired ''timeout'' e else e"
    have m: "moves e (?f e)" for e using moves_end [of e Expired] by (auto simp: is_stale_entry_def moves_def [of e e])
    then have "active_key (?f e) \<in> {None, active_key e}" for e using moves_def [of e "?f e"] by auto
    then have "index_ok (map ?f db)" using assms(2) by (intro index_moves) (auto simp: queue_ok_def)
    then show ?thesis using expired assms(2) advancesI [of db ?f] m by (simp add: expire_stale_entries_def queue_ok_def)
  next
    case (reaped e env cp)
    then have "moves x (reaped_entry (qv_now env) cp e x)" if "x \<in> set db" "qe_id x = qe_id e" for x
      using that same_entry [OF assms(2) reaped(2) that(1)] moves_reap [of e] by simp
    then show ?thesis using applied_advances [OF assms(2), of "qe_id e" "\<lambda>_. True"] reaped(1) by (simp add: operations_applied)
  next
    case (called_back env i cb)
    then show ?thesis using applied_advances [OF assms(2), of i active_status] moves_callback by (simp add: operations_applied)
  qed
  then show ?thesis using advances_ids [of db db'] assms(2) unfolding queue_ok_def by blast
qed

section \<open>A pass of the ticker is a sequence of steps\<close>

abbreviation queue_steps :: "queue_entry list \<Rightarrow> queue_entry list \<Rightarrow> bool" where
  "queue_steps \<equiv> queue_step\<^sup>*\<^sup>*"

lemma steps_ok: "queue_steps db db' \<Longrightarrow> queue_ok db \<Longrightarrow> queue_ok db'"
  by (induction rule: rtranclp_induct) (auto dest: step_advances)

lemma applied_other: "x \<in> set db \<Longrightarrow> qe_id x \<noteq> i \<Longrightarrow> x \<in> set (applied ok i P f db)"
proof -
  assume x: "x \<in> set db" "qe_id x \<noteq> i"
  show ?thesis
  proof (cases "if ok then update_entry i P f db else None")
    case None
    then show ?thesis using x by (simp add: applied_def)
  next
    case (Some y)
    then obtain e db' where "y = (e, db')" "update_entry i P f db = Some (e, db')" by (cases y) (simp split: if_splits)
    then show ?thesis using Some x update_entry_some [of i P f db e db'] by (force simp: applied_def)
  qed
qed

lemma reap_steps:
  "set es \<subseteq> set db \<Longrightarrow> distinct (map qe_id es) \<Longrightarrow> \<forall>e\<in>set es. qe_state e = Offered
   \<Longrightarrow> queue_steps db (fold (\<lambda>e. reap_row (env_of (qe_id e)) cp e) es db)"
proof (induction es arbitrary: db)
  case (Cons e es)
  let ?db = "reap_row (env_of (qe_id e)) cp e db"
  have "queue_step db ?db" using Cons.prems by (intro reaped) auto
  moreover have "x \<in> set ?db" if "x \<in> set es" for x
  proof -
    have "qe_id x \<noteq> qe_id e" using Cons.prems(2) that by (auto simp: rev_image_eqI)
    moreover have "x \<in> set db" using Cons.prems(1) that by auto
    ultimately show ?thesis using applied_other [of x db "qe_id e"] by (simp add: operations_applied)
  qed
  then have "set es \<subseteq> set ?db" by blast
  then have "queue_steps ?db (fold (\<lambda>e. reap_row (env_of (qe_id e)) cp e) es ?db)" using Cons.prems by (intro Cons.IH) auto
  ultimately show ?case by (simp add: converse_rtranclp_into_rtranclp)
qed simp

lemma offer_all_steps: "queue_steps db (snd (offer_all env_of cp pick ch es (held, db)))"
proof (induction es arbitrary: held db)
  case (Cons e es)
  show ?case
  proof (cases "pick ch held")
    case (Some u)
    obtain r db1 where o: "offer_entry (env_of (qe_id e)) cp (qe_id e) u db = (r, db1)"
      by (cases "offer_entry (env_of (qe_id e)) cp (qe_id e) u db")
    then have "queue_step db db1" by (rule offered)
    then show ?thesis using Some o Cons.IH by (auto split: sum.split intro: converse_rtranclp_into_rtranclp)
  qed simp
qed simp

lemma assign_steps: "queue_steps db (auto_assign_workspace env cp pick ws db)"
proof -
  have "queue_steps db (snd (offer_all a cp pick Video xs (offer_all b cp pick Audio ys (held, db))))" for a b xs ys held
    using offer_all_steps [of db b cp pick Audio ys held] offer_all_steps
    by (metis prod.collapse rtranclp_trans)
  then show ?thesis by (simp add: auto_assign_workspace_def Let_def)
qed

lemma assign_all_steps: "queue_steps db (fold (\<lambda>ws. auto_assign_workspace (env ws) cp (pick ws) ws) wss db)"
  by (induction wss arbitrary: db) (auto intro: rtranclp_trans assign_steps)

lemma pass_steps:
  assumes "queue_ok db"
  shows "queue_steps db (queue_pass env cp pick db)"
proof -
  let ?db1 = "snd (expire_stale_entries (pe_expire env) db)"
  let ?db2 = "reap_stale_offers (pe_reap env) (pe_reap_row env) cp ?db1"
  have s1: "queue_step db ?db1" by (rule expired)
  then have ok: "queue_ok ?db1" using step_advances assms by blast
  have "distinct (map qe_id (stale_offers (pe_reap env) ?db1))"
    using ok by (auto simp: stale_offers_def queue_ok_def distinct_map_filter intro!: distinct_take simp flip: take_map)
  then have "queue_steps ?db1 ?db2"
    unfolding reap_stale_offers_def by (intro reap_steps) (auto simp: stale_offers_def dest: in_set_takeD)
  moreover have "queue_steps ?db2 (auto_assign_all (pe_assign env) cp pick ?db2)"
    unfolding auto_assign_all_def by (rule assign_all_steps)
  ultimately show ?thesis using s1 by (auto simp: queue_pass_def intro: converse_rtranclp_into_rtranclp rtranclp_trans)
qed

section \<open>What every sequence keeps\<close>

definition misses_ok :: "queue_entry \<Rightarrow> bool" where
  "misses_ok e \<longleftrightarrow> qe_misses e \<le> MAX_MISSES \<and> (active_status (qe_state e) \<longrightarrow> qe_misses e < MAX_MISSES)"

lemma moves_misses:
  assumes "moves e e'" and "misses_ok e"
  shows "misses_ok e' \<and> qe_misses e \<le> qe_misses e' \<and> qe_id e' = qe_id e \<and> (\<not> active_status (qe_state e) \<longrightarrow> e' = e)"
  using assms
  by (cases "qe_state e") (auto simp: moves_def misses_ok_def active_status_def)

lemma steps_keep:
  assumes "queue_steps db db'" and "queue_ok db" and "\<forall>e\<in>set db. misses_ok e"
  shows "queue_ok db' \<and> (\<forall>e\<in>set db'. misses_ok e)
    \<and> (\<forall>e\<in>set db. \<exists>e'\<in>set db'. qe_id e' = qe_id e \<and> qe_misses e \<le> qe_misses e' \<and> (\<not> active_status (qe_state e) \<longrightarrow> e' = e))"
  using assms(1)
proof (induction rule: rtranclp_induct)
  case base
  then show ?case using assms(2,3) by auto
next
  case (step y z)
  then have adv: "advances y z" "queue_ok z" using step_advances by blast+
  then obtain f xs where f: "z = map f y @ xs" "\<forall>e\<in>set y. moves e (f e)"
      "xs = [] \<or> (\<exists>x. xs = [x] \<and> qe_state x = Queued \<and> qe_misses x = 0 \<and> qe_id x \<notin> qe_id ` set y)"
    by (auto simp: advances_def)
  have m: "misses_ok (f e) \<and> qe_misses e \<le> qe_misses (f e) \<and> qe_id (f e) = qe_id e \<and> (\<not> active_status (qe_state e) \<longrightarrow> f e = e)"
    if "e \<in> set y" for e
    using that step.IH f(2) moves_misses by blast
  have "\<exists>e'\<in>set z. qe_id e' = qe_id e \<and> qe_misses e \<le> qe_misses e' \<and> (\<not> active_status (qe_state e) \<longrightarrow> e' = e)"
    if e: "e \<in> set db" for e
  proof -
    obtain e1 where e1: "e1 \<in> set y" "qe_id e1 = qe_id e" "qe_misses e \<le> qe_misses e1" "\<not> active_status (qe_state e) \<longrightarrow> e1 = e"
      using step.IH e by blast
    then have "f e1 \<in> set z" using f(1) by simp
    then show ?thesis using e1 m [OF e1(1)] by (intro bexI [of _ "f e1"]) auto
  qed
  moreover have "\<forall>e\<in>set z. misses_ok e" using f m by (auto simp: misses_ok_def MAX_MISSES_def)
  ultimately show ?case using adv(2) by blast
qed

text \<open>C12: In any sequence of requests, offers, answers, cancellations, expiries, reaped offers and callbacks, and so in the passes of
  the ticker among them, no entry is lost, an entry that was answered or ended stays as it is, a visitor has at most one
  active entry for a channel, and no entry is offered after three missed offers.\<close>

theorem queue_entries_end_once:
  assumes "queue_steps db db'" and "queue_ok db" and "\<forall>e\<in>set db. misses_ok e"
  shows "queue_steps db' (queue_pass env cp pick db') \<and> distinct (map qe_id db') \<and> index_ok db'
    \<and> (\<forall>e\<in>set db'. qe_state e = Offered \<longrightarrow> qe_misses e < MAX_MISSES)
    \<and> (\<forall>e\<in>set db. \<exists>e'\<in>set db'. qe_id e' = qe_id e \<and> qe_misses e \<le> qe_misses e' \<and> (qe_state e \<notin> {Queued, Offered} \<longrightarrow> e' = e))"
proof -
  have ok: "queue_ok db'" using steps_ok assms(1,2) by blast
  then have "queue_steps db' (queue_pass env cp pick db')" by (rule pass_steps)
  then show ?thesis using steps_keep [OF assms] ok by (auto simp: queue_ok_def misses_ok_def active_status_def)
qed

text \<open>An entry that waits, is offered, answered, and still answered after a pass.\<close>

definition working :: "int \<Rightarrow> queue_env" where
  "working t = \<lparr>qv_now = t, qv_new_id = ''q1'', qv_read_ok = True, qv_write_ok = True\<rparr>"

definition visitor_call :: enqueue_input where
  "visitor_call =
     \<lparr>ei_workspace = ''w1'', ei_channel = Audio, ei_visitor = Some ''v1'', ei_contact = None, ei_conversation = None,
      ei_requested_by = None, ei_priority = None, ei_metadata = None\<rparr>"

definition waiting_call :: queue_entry where "waiting_call = queued_entry (working 0) visitor_call"

definition offered_call :: queue_entry where "offered_call = offered_entry 1000 25 ''u1'' waiting_call"

lemma call_simps [simp]:
  "qe_id waiting_call = ''q1''" "qe_state waiting_call = Queued" "qe_misses waiting_call = 0" "qe_visitor waiting_call = Some ''v1''"
  "qe_workspace waiting_call = ''w1''" "qe_channel waiting_call = Audio" "qe_created waiting_call = 0"
  "qe_id offered_call = ''q1''" "qe_state offered_call = Offered" "qe_misses offered_call = 0" "qe_visitor offered_call = Some ''v1''"
  "qe_workspace offered_call = ''w1''" "qe_offered_to offered_call = Some ''u1''" "qe_offer_expires offered_call = Some 26000"
  "qe_created offered_call = 0"
  by (simp_all add: waiting_call_def offered_call_def queued_entry_def offered_entry_def visitor_call_def working_def)

lemma index_one [simp]: "index_ok [e]"
  by (cases "active_key e") (simp_all add: index_ok_def List.map_filter_simps)

lemma accept_one:
  "qe_state e = Queued \<or> qe_state e = Offered
   \<Longrightarrow> accept_entry (working t) (qe_id e) session [e] = (Inr (accepted_entry t session e), [accepted_entry t session e])"
  by (auto simp: accept_entry_def update_entry_def working_def active_status_def Let_def)

theorem queue_entries_end_once_witness:
  "\<exists>e. queue_steps [waiting_call] [accepted_entry 2000 (Some ''c1'') waiting_call] \<and> e \<in> {accepted_entry 2000 (Some ''c1'') waiting_call}
     \<and> qe_id e = ''q1'' \<and> distinct (map qe_id [e])"
proof -
  have step: "queue_steps [waiting_call] [accepted_entry 2000 (Some ''c1'') waiting_call]"
    using accepted [OF accept_one [of waiting_call 2000 "Some ''c1''"]] by auto
  have "queue_ok [waiting_call]" "\<forall>e\<in>set [waiting_call]. misses_ok e" by (simp_all add: queue_ok_def misses_ok_def MAX_MISSES_def)
  from queue_entries_end_once [OF step this] step show ?thesis
    by (intro exI [of _ "accepted_entry 2000 (Some ''c1'') waiting_call"]) auto
qed

section \<open>An answer that comes while offers are reaped\<close>

lemma update_single:
  assumes "queue_ok db" and "e \<in> set db" and "P (qe_state e)" and "\<And>x. x \<in> set db \<Longrightarrow> qe_id x = qe_id e \<Longrightarrow> active_key (f x) \<in> {None, active_key x}"
  shows "update_entry (qe_id e) P f db = Some (f e, map (\<lambda>x. if qe_id x = qe_id e \<and> P (qe_state x) then f x else x) db)"
proof -
  have "List.find (\<lambda>x. qe_id x = qe_id e \<and> P (qe_state x)) db \<noteq> None" using assms(2,3) by (auto simp: find_None_iff)
  then obtain y where y: "List.find (\<lambda>x. qe_id x = qe_id e \<and> P (qe_state x)) db = Some y" by blast
  then have "y \<in> set db" "qe_id y = qe_id e" by (auto dest: find_Some_D)
  then have "y = e" using same_entry [OF assms(1,2)] by blast
  moreover have "index_ok (map (\<lambda>x. if qe_id x = qe_id e \<and> P (qe_state x) then f x else x) db)"
    using assms(1,4) by (intro index_moves) (auto simp: queue_ok_def)
  ultimately show ?thesis using y by (simp add: update_entry_def)
qed

lemma accept_active:
  assumes "queue_ok db" and "e \<in> set db" and "active_status (qe_state e)" and "qv_write_ok env"
  shows "accept_entry env (qe_id e) session db
    = (Inr (accepted_entry (qv_now env) session e),
       map (\<lambda>x. if qe_id x = qe_id e \<and> active_status (qe_state x) then accepted_entry (qv_now env) session x else x) db)"
  using update_single [OF assms(1,2), of active_status "accepted_entry (qv_now env) session"] assms(3,4)
  by (simp add: accept_entry_def accepted_entry_def active_key_def active_status_def)

lemma reaped_fields:
  "qe_id (reaped_entry now cp e x) = qe_id x" "qe_workspace (reaped_entry now cp e x) = qe_workspace x"
  "qe_channel (reaped_entry now cp e x) = qe_channel x" "qe_visitor (reaped_entry now cp e x) = qe_visitor x"
  "qe_session (reaped_entry now cp e x) = qe_session x"
  "qe_state (reaped_entry now cp e x) \<in> {Queued, Missed}" "qe_accepted_at (reaped_entry now cp e x) = qe_accepted_at x"
  "active_key (reaped_entry now cp e x)
     = (if qe_state (reaped_entry now cp e x) = Queued then map_option (\<lambda>v. (qe_workspace x, v, qe_channel x)) (qe_visitor x) else None)"
  by (simp_all add: reaped_entry_def missed_entry_def requeued_entry_def active_key_def active_status_def)

text \<open>C31: The update that reaps an offer asks for the id alone, not for the state that was read. When an operator's answer comes
  between the two, the answer is reported as a success, and the call is then queued again or counted as missed while it
  keeps the session of the answer.\<close>

theorem late_reap_undoes_answer:
  assumes "queue_ok db" and "e \<in> set (stale_offers env db)" and "qv_write_ok env1" and "qv_write_ok env2"
  shows "\<exists>a db1. accept_entry env1 (qe_id e) session db = (Inr a, db1) \<and> a \<in> set db1 \<and> qe_state a = Accepted
    \<and> (\<exists>x\<in>set (reap_row env2 cp e db1). qe_id x = qe_id e \<and> qe_session x = session \<and> qe_state x \<in> {Queued, Missed})"
proof -
  have e: "e \<in> set db" "qe_state e = Offered" using assms(2) by (auto simp: stale_offers_def dest: in_set_takeD split: if_splits)
  let ?a = "accepted_entry (qv_now env1) session"
  let ?f = "\<lambda>x. if qe_id x = qe_id e \<and> active_status (qe_state x) then ?a x else x"
  have acc: "accept_entry env1 (qe_id e) session db = (Inr (?a e), map ?f db)"
    using accept_active [OF assms(1) e(1) _ assms(3)] e(2) by simp
  have i: "qe_id (?a x) = qe_id x" "qe_session (?a e) = session" "qe_state (?a x) = Accepted"
    "qe_workspace (?a x) = qe_workspace x" "qe_channel (?a x) = qe_channel x" "qe_visitor (?a x) = qe_visitor x" for x
    by (simp_all add: accepted_entry_def)
  let ?r = "reaped_entry (qv_now env2) cp e"
  let ?g = "\<lambda>x. if qe_id x = qe_id e then ?r x else x"
  have "active_key (?g (?f x)) \<in> {None, active_key x}" if "x \<in> set db" for x
    using that same_entry [OF assms(1) e(1) that] e(2) i by (auto simp: reaped_fields active_key_def active_status_def)
  then have "index_ok (map (\<lambda>x. ?g (?f x)) db)" using assms(1) by (intro index_moves) (auto simp: queue_ok_def)
  then have ok: "index_ok (map ?g (map ?f db))" by (simp add: comp_def)
  have in1: "?a e \<in> set (map ?f db)" using e by force
  then have "List.find (\<lambda>x. qe_id x = qe_id e \<and> True) (map ?f db) \<noteq> None" unfolding find_None_iff using i(1) [of e] by blast
  then obtain y where y: "List.find (\<lambda>x. qe_id x = qe_id e \<and> True) (map ?f db) = Some y" by blast
  then have "update_entry (qe_id e) (\<lambda>_. True) ?r (map ?f db) = Some (?r y, map ?g (map ?f db))"
    using ok unfolding update_entry_def by (simp add: Let_def)
  then have "reap_row env2 cp e (map ?f db) = map ?g (map ?f db)" using assms(4) by (simp add: reap_row_def)
  moreover have "?r (?a e) \<in> set (map ?g (map ?f db))" using in1 i(1) by force
  ultimately show ?thesis using acc in1 i reaped_fields [of "qv_now env2" cp e "?a e"] by (intro exI conjI bexI) auto
qed

theorem late_reap_undoes_answer_witness:
  "\<exists>x. reap_row (working 30000) DEFAULT_CALL_CONTROL_PLANE offered_call
       (snd (accept_entry (working 29000) (qe_id offered_call) (Some ''c1'') [offered_call])) = [x]
     \<and> qe_session x = Some ''c1'' \<and> qe_state x \<in> {Queued, Missed}"
proof -
  have "queue_ok [offered_call]" by (simp add: queue_ok_def)
  moreover have "offered_call \<in> set (stale_offers (working 28000) [offered_call])" by (simp add: stale_offers_def working_def)
  ultimately obtain a db1 where a: "accept_entry (working 29000) (qe_id offered_call) (Some ''c1'') [offered_call] = (Inr a, db1)"
      "\<exists>x\<in>set (reap_row (working 30000) DEFAULT_CALL_CONTROL_PLANE offered_call db1). qe_id x = qe_id offered_call
         \<and> qe_session x = Some ''c1'' \<and> qe_state x \<in> {Queued, Missed}"
    using late_reap_undoes_answer [of "[offered_call]" offered_call "working 28000" "working 29000" "working 30000" "Some ''c1''"
        DEFAULT_CALL_CONTROL_PLANE]
    by (auto simp: working_def)
  have "db1 = [accepted_entry 29000 (Some ''c1'') offered_call]" using a(1) accept_one [of offered_call 29000 "Some ''c1''"] by simp
  then have "length (reap_row (working 30000) DEFAULT_CALL_CONTROL_PLANE offered_call db1) = 1"
    by (auto simp: reap_row_def update_entry_def Let_def split: option.split)
  then obtain x where "reap_row (working 30000) DEFAULT_CALL_CONTROL_PLANE offered_call db1 = [x]" by (auto simp: length_Suc_conv)
  then show ?thesis using a by auto
qed

section \<open>One offer at a time\<close>

lemma live_offers_split [simp]:
  "live_offers ws (as @ bs) = live_offers ws as @ live_offers ws bs"
  "live_offers ws (e # bs) = (if qe_workspace e = ws \<and> qe_state e = Offered then (case qe_offered_to e of None \<Rightarrow> [] | Some u \<Rightarrow> [u]) else [])
     @ live_offers ws bs"
  by (simp_all add: live_offers_def List.map_filter_def split: option.split)

lemma offer_result:
  assumes "queue_ok db" and "offer_entry env cp i u db = (r, db')"
  shows "db' = db \<and> (\<exists>x. r = Inl x)
    \<or> (\<exists>as e bs. db = as @ e # bs \<and> qe_id e = i \<and> qe_state e = Queued \<and> (\<exists>secs. db' = as @ offered_entry (qv_now env) secs u e # bs)
         \<and> (\<exists>x. r = Inr x))"
proof (cases "if qv_write_ok env then offer_timeout cp else None")
  case None
  then show ?thesis using assms(2) by (auto simp: offer_entry_def)
next
  case (Some secs)
  show ?thesis
  proof (cases "update_entry i (\<lambda>st. st = Queued) (offered_entry (qv_now env) secs u) db")
    case None
    then show ?thesis using assms(2) Some by (auto simp: offer_entry_def)
  next
    case up: (Some y)
    then obtain e' db1 where y: "y = (e', db1)" by (cases y)
    from update_entry_some [OF up [unfolded y]] obtain e where e: "e \<in> set db" "qe_id e = i" "qe_state e = Queued"
        "db1 = map (\<lambda>x. if qe_id x = i \<and> qe_state x = Queued then offered_entry (qv_now env) secs u x else x) db" by blast
    obtain as bs where split: "db = as @ e # bs" using e(1) by (meson split_list)
    have "qe_id x \<noteq> i" if "x \<in> set as \<union> set bs" for x
      using assms(1) split e(2) that by (auto simp: queue_ok_def rev_image_eqI)
    then have "db1 = as @ offered_entry (qv_now env) secs u e # bs" using e split by (auto intro!: map_idI)
    moreover have "db' = db1" "r = Inr e'" using assms(2) Some up y by (simp_all add: offer_entry_def)
    ultimately show ?thesis using e split by blast
  qed
qed

lemma offer_all_once:
  assumes "\<And>h u. pick ch h = Some u \<Longrightarrow> u \<notin> set h"
  shows "queue_ok db \<Longrightarrow> distinct (live_offers ws db) \<Longrightarrow> set (live_offers ws db) \<subseteq> set held
    \<Longrightarrow> offer_all env_of cp pick ch es (held, db) = (held', db')
    \<Longrightarrow> queue_ok db' \<and> distinct (live_offers ws db') \<and> set (live_offers ws db') \<subseteq> set held'"
proof (induction es arbitrary: held db)
  case (Cons e es)
  show ?case
  proof (cases "pick ch held")
    case None
    then show ?thesis using Cons.prems by auto
  next
    case (Some u)
    obtain r db1 where o: "offer_entry (env_of (qe_id e)) cp (qe_id e) u db = (r, db1)"
      by (cases "offer_entry (env_of (qe_id e)) cp (qe_id e) u db")
    have ok: "queue_ok db1" using step_advances [OF offered [OF o] Cons.prems(1)] by blast
    from offer_result [OF Cons.prems(1) o] consider (failed) x where "db1 = db" "r = Inl x"
      | (made) as a bs secs x where "db = as @ a # bs" "qe_state a = Queued" "db1 = as @ offered_entry (qv_now (env_of (qe_id e))) secs u a # bs"
          "r = Inr x" by blast
    then show ?thesis
    proof cases
      case failed
      then show ?thesis using Cons.IH [OF Cons.prems(1-3)] Cons.prems(4) Some o by simp
    next
      case made
      have "live_offers ws db1 = live_offers ws as @ (if qe_workspace a = ws then [u] else []) @ live_offers ws bs"
        using made(3) by (simp add: offered_entry_def)
      moreover have "live_offers ws db = live_offers ws as @ live_offers ws bs" using made(1,2) by simp
      ultimately have "distinct (live_offers ws db1)" "set (live_offers ws db1) \<subseteq> set (held @ [u])"
        using Cons.prems(2,3) assms [OF Some] by auto
      then show ?thesis using Cons.IH [OF ok, of "held @ [u]"] Cons.prems(4) Some o made(4) by simp
    qed
  qed
qed simp

text \<open>C13: A tick never rings an operator for two calls of a workspace at once: when the offers that stand are read and no operator has
  two of them, assigning the queued calls leaves it so, whichever operators routing finds eligible at each offer and
  whichever offers fail.\<close>

theorem operators_ring_once:
  assumes "queue_ok db" and "as_offers_ok env" and "distinct (live_offers ws db)"
  shows "distinct (live_offers ws (auto_assign_workspace env cp (\<lambda>ch held. pick_operator_for_offer (rd ch held) ch held None) ws db))"
proof -
  let ?pick = "\<lambda>ch held. pick_operator_for_offer (rd ch held) ch held None"
  have free: "u \<notin> set h" if "?pick ch h = Some u" for ch h u
    using that by (auto simp: pick_operator_for_offer_def given_def Let_def dest: find_Some_D split: option.splits)
  have once: "queue_ok db2 \<and> distinct (live_offers ws db2) \<and> set (live_offers ws db2) \<subseteq> set held2"
    if "queue_ok db1" "distinct (live_offers ws db1)" "set (live_offers ws db1) \<subseteq> set held1"
      "offer_all (as_around env) cp ?pick ch es (held1, db1) = (held2, db2)" for ch es held1 db1 held2 db2
    using free that by (rule offer_all_once)
  define rows where "rows = (if as_queue_ok env then take 20 (by_priority (filter (\<lambda>e. qe_workspace e = ws \<and> qe_state e = Queued) db)) else [])"
  obtain h1 db1 where 1: "offer_all (as_around env) cp ?pick Audio (filter (\<lambda>e. qe_channel e = Audio) rows) (live_offers ws db, db) = (h1, db1)"
    by (cases "offer_all (as_around env) cp ?pick Audio (filter (\<lambda>e. qe_channel e = Audio) rows) (live_offers ws db, db)")
  obtain h2 db2 where 2: "offer_all (as_around env) cp ?pick Video (filter (\<lambda>e. qe_channel e = Video) rows) (h1, db1) = (h2, db2)"
    by (cases "offer_all (as_around env) cp ?pick Video (filter (\<lambda>e. qe_channel e = Video) rows) (h1, db1)")
  have "distinct (live_offers ws db2)" using once [OF _ _ _ 2] once [OF assms(1,3) _ 1] by blast
  moreover have "auto_assign_workspace env cp ?pick ws db = (if rows = [] then db else db2)"
    using assms(2) 1 2 by (simp add: auto_assign_workspace_def Let_def rows_def)
  ultimately show ?thesis using assms(3) by simp
qed

text \<open>An operator is ready and a call waits.\<close>

definition assigning :: assign_env where
  "assigning = \<lparr>as_queue_ok = True, as_offers_ok = True, as_around = (\<lambda>_. working 1000)\<rparr>"

theorem operators_ring_once_witness:
  "\<exists>db. auto_assign_workspace assigning DEFAULT_CALL_CONTROL_PLANE (\<lambda>ch held. pick_operator_for_offer sample_routing ch held None) ''w1''
       [waiting_call] = db \<and> distinct (live_offers ''w1'' db)"
  using operators_ring_once [of "[waiting_call]" assigning "''w1''" DEFAULT_CALL_CONTROL_PLANE "\<lambda>_ _. sample_routing"]
  by (simp add: queue_ok_def assigning_def live_offers_def List.map_filter_def)

section \<open>The handlers and the workspace\<close>

text \<open>C22: The handlers that answer and cancel a call check that the caller is a member of the workspace in the path, and then
  change the entry with the id, of whatever workspace it is: a member of one workspace answers or cancels the calls of
  another. The handler that takes an offer refuses the same request.\<close>

theorem answer_crosses_workspaces:
  assumes "queue_ok db" and "e \<in> set db" and "active_status (qe_state e)" and "qe_workspace e \<noteq> ws" and "qv_write_ok env"
  shows "fst (accept_route env None ws (qe_id e) (Some session) db) = 200
    \<and> (\<exists>x\<in>set (snd (accept_route env None ws (qe_id e) (Some session) db)). qe_id x = qe_id e \<and> qe_state x = Accepted \<and> qe_session x = session)
    \<and> fst (cancel_route env None ws (qe_id e) body db) = 200
    \<and> fst (offer_route env cp None perms user ws (qe_id e) db) \<in> {403, 404}
    \<and> snd (offer_route env cp None perms user ws (qe_id e) db) = db"
proof -
  have acc: "accept_entry env (qe_id e) session db
    = (Inr (accepted_entry (qv_now env) session e),
       map (\<lambda>x. if qe_id x = qe_id e \<and> active_status (qe_state x) then accepted_entry (qv_now env) session x else x) db)"
    using assms(1,2,3,5) by (rule accept_active)
  moreover have "accepted_entry (qv_now env) session e
      \<in> set (map (\<lambda>x. if qe_id x = qe_id e \<and> active_status (qe_state x) then accepted_entry (qv_now env) session x else x) db)"
    using assms(2,3) by force
  ultimately have "fst (accept_route env None ws (qe_id e) (Some session) db) = 200
    \<and> (\<exists>x\<in>set (snd (accept_route env None ws (qe_id e) (Some session) db)). qe_id x = qe_id e \<and> qe_state x = Accepted \<and> qe_session x = session)"
    by (simp add: accept_route_def del: set_map) (erule rev_bexI, simp add: accepted_entry_def)
  moreover have "update_entry (qe_id e) active_status (ended_entry (qv_now env) Cancelled reason) db \<noteq> None" for reason
    using update_single [OF assms(1,2), of active_status "ended_entry (qv_now env) Cancelled reason"] assms(3)
    by (simp add: ended_entry_def active_key_def active_status_def)
  then have "fst (cancel_route env None ws (qe_id e) body db) = 200"
    using assms(5) by (auto simp: cancel_route_def cancel_entry_def split: option.split sum.split)
  moreover have "get_entry (qv_read_ok env) ws (qe_id e) db = None"
    using assms(1,2,4) same_entry by (fastforce simp: get_entry_def find_None_iff)
  ultimately show ?thesis by (simp add: offer_route_def)
qed

theorem answer_crosses_workspaces_witness:
  "fst (accept_route (working 2000) None ''w2'' ''q1'' (Some None) [waiting_call]) = 200"
  using answer_crosses_workspaces [of "[waiting_call]" waiting_call "''w2''" "working 2000" None]
  by (simp add: queue_ok_def working_def)

end
