(* ===== verification/Capability_Registry.thy ===== *)
theory Capability_Registry
  imports Js_Values "HOL-Library.AList"
begin

text \<open>
  The registry of capabilities (\<open>server/services/billing/capabilityRegistry.ts\<close>): the keys of modules, channels,
  features and limits with their defaults, the limits a new plan is given, the check of a plan and the diagnosis of all
  plans. Labels, descriptions and the sentences of the issues are for people and left out. An object is its
  properties in their order.
\<close>

section \<open>Capabilities\<close>

datatype capability_type = Feature_cap | Module_cap | Channel_cap | Limit_cap

record capability =
  cap_key :: string
  cap_type :: capability_type
  cap_group :: string
  cap_default :: jsval
  cap_configurable :: bool
  cap_overridable :: bool
  cap_visible :: bool
  cap_internal :: bool
  cap_deprecated :: bool
  cap_unit :: "string option"
  cap_sort :: int

text \<open>An entry without the optional fields; the two that are given further ones.\<close>

definition cap :: "string \<Rightarrow> capability_type \<Rightarrow> string \<Rightarrow> jsval \<Rightarrow> bool \<Rightarrow> bool \<Rightarrow> bool \<Rightarrow> int \<Rightarrow> capability" where
  "cap k t g d conf over vis s =
     \<lparr>cap_key = k, cap_type = t, cap_group = g, cap_default = d, cap_configurable = conf, cap_overridable = over,
      cap_visible = vis, cap_internal = False, cap_deprecated = False, cap_unit = None, cap_sort = s\<rparr>"

definition in_unit :: "string \<Rightarrow> capability \<Rightarrow> capability" where
  "in_unit u c = c\<lparr>cap_unit := Some u\<rparr>"

definition retired :: "capability \<Rightarrow> capability" where
  "retired c = c\<lparr>cap_internal := True, cap_deprecated := True\<rparr>"

section \<open>The registry\<close>

definition MODULES_AND_COMMERCE :: "capability list" where
  "MODULES_AND_COMMERCE =
     [
      cap ''chat'' Module_cap ''modules'' (JBool True) True True True 10,
      cap ''knowledge_base'' Module_cap ''modules'' (JBool True) True True True 20,
      cap ''ai_assistant'' Module_cap ''modules'' (JBool False) True True True 30,
      cap ''visitor_tracking'' Module_cap ''modules'' (JBool True) True True True 40,
      cap ''email_campaigns'' Module_cap ''modules'' (JBool False) True True True 50,
      cap ''automation'' Module_cap ''modules'' (JBool False) True True True 60,
      cap ''analytics'' Module_cap ''modules'' (JBool False) True True True 70,
      cap ''omnichannel'' Module_cap ''modules'' (JBool False) True True True 80,
      cap ''custom_branding'' Module_cap ''modules'' (JBool False) False False False 90,
      cap ''api_access'' Module_cap ''modules'' (JBool False) False False False 100,
      cap ''voice_video'' Module_cap ''modules'' (JBool False) True True True 110,
      cap ''help_center'' Module_cap ''modules'' (JBool True) True True True 120,
      cap ''call_center'' Module_cap ''modules'' (JBool False) True True True 115,
      cap ''contacts'' Module_cap ''modules'' (JBool True) True True True 125,
      cap ''seo'' Module_cap ''modules'' (JBool True) True True True 130,
      cap ''commerce'' Module_cap ''modules'' (JBool False) True True True 135,
      cap ''commerce_catalog'' Feature_cap ''commerce'' (JBool True) True True True 10,
      cap ''commerce_orders'' Feature_cap ''commerce'' (JBool False) True True True 20,
      cap ''commerce_customer_history'' Feature_cap ''commerce'' (JBool False) True True True 30,
      in_unit ''count'' (cap ''commerce_max_connected_stores'' Limit_cap ''commerce'' (JNum (Fin 1)) True True True 40)]"

definition CHANNELS :: "capability list" where
  "CHANNELS =
     [
      cap ''chat_widget'' Channel_cap ''channels'' (JBool True) True True True 10,
      cap ''email'' Channel_cap ''channels'' (JBool True) True True True 20,
      cap ''whatsapp'' Channel_cap ''channels'' (JBool False) True True True 30,
      cap ''sms'' Channel_cap ''channels'' (JBool False) True True True 40,
      cap ''instagram'' Channel_cap ''channels'' (JBool False) True True True 50,
      cap ''telegram'' Channel_cap ''channels'' (JBool False) True True True 60,
      cap ''bale'' Channel_cap ''channels'' (JBool False) True True True 65,
      cap ''gmail'' Channel_cap ''channels'' (JBool False) True True True 66,
      cap ''yahoomail'' Channel_cap ''channels'' (JBool False) True True True 67,
      cap ''x'' Channel_cap ''channels'' (JBool False) True True True 68,
      cap ''voice'' Channel_cap ''channels'' (JBool False) True True True 70,
      cap ''video'' Channel_cap ''channels'' (JBool False) True True True 80]"

definition FEATURE_FLAGS :: "capability list" where
  "FEATURE_FLAGS =
     [
      cap ''advanced_ai_agent'' Feature_cap ''ai'' (JBool False) False False False 10,
      cap ''ai_operator_assist'' Feature_cap ''ai'' (JBool False) True True True 20,
      cap ''ai_kb_builder'' Feature_cap ''ai'' (JBool False) True True True 30,
      cap ''priority_support'' Feature_cap ''support'' (JBool False) True False True 10,
      cap ''sso'' Feature_cap ''security'' (JBool False) False False False 10,
      cap ''audit_logs'' Feature_cap ''security'' (JBool False) True True True 20,
      cap ''white_label'' Feature_cap ''branding'' (JBool False) False False False 10,
      retired (cap ''remove_powered_by'' Feature_cap ''branding'' (JBool False) False False False 20),
      cap ''widget_powered_by'' Feature_cap ''branding'' (JBool True) True False True 25,
      cap ''widget_powered_by_toggle'' Feature_cap ''branding'' (JBool False) True True True 26]"

definition WIDGET_FEATURES :: "capability list" where
  "WIDGET_FEATURES =
     [
      cap ''widget_attachments'' Feature_cap ''widget'' (JBool False) True True True 10,
      cap ''widget_voice_notes'' Feature_cap ''widget'' (JBool False) True True True 20,
      cap ''widget_emoji'' Feature_cap ''widget'' (JBool True) True True True 30,
      cap ''widget_smart_engagement'' Feature_cap ''widget'' (JBool False) True True True 40,
      cap ''ai_proactive_nudge'' Feature_cap ''widget'' (JBool False) True True True 45,
      cap ''widget_business_hours'' Feature_cap ''widget'' (JBool True) True True True 50,
      cap ''widget_domain_allowlist'' Feature_cap ''widget'' (JBool True) True True True 60,
      in_unit ''count'' (cap ''max_widget_domains'' Limit_cap ''widget'' (JNum (Fin 1)) True True True 70),
      cap ''widget_assignment_routing'' Feature_cap ''widget'' (JBool False) True True True 80,
      cap ''widget_raw_ip_storage'' Feature_cap ''widget'' (JBool False) True True True 90,
      cap ''widget_reply_time_text'' Feature_cap ''widget'' (JBool True) True True True 100,
      cap ''widget_welcome_message'' Feature_cap ''widget'' (JBool True) True True True 110,
      cap ''widget_launcher_label'' Feature_cap ''widget'' (JBool True) True True True 120,
      cap ''widget_launcher_size'' Feature_cap ''widget'' (JBool False) True True True 130,
      cap ''widget_launcher_icon'' Feature_cap ''widget'' (JBool False) True True True 140,
      cap ''widget_composer_placeholder'' Feature_cap ''widget'' (JBool True) True True True 150,
      cap ''widget_team_avatars'' Feature_cap ''widget'' (JBool True) True True True 160,
      cap ''widget_workspace_logo'' Feature_cap ''widget'' (JBool True) True True True 170,
      cap ''widget_appearance'' Feature_cap ''widget'' (JBool True) True True True 180,
      cap ''widget_behavior'' Feature_cap ''widget'' (JBool True) True True True 190,
      cap ''widget_prechat_form'' Feature_cap ''widget'' (JBool True) True True True 200]"

definition INBOX_AND_MOBILE :: "capability list" where
  "INBOX_AND_MOBILE =
     [
      cap ''inbox_ai_queue'' Feature_cap ''inbox'' (JBool True) True True True 10,
      cap ''inbox_needs_human'' Feature_cap ''inbox'' (JBool True) True True True 20,
      cap ''inbox_team_chat'' Feature_cap ''inbox'' (JBool True) True True True 30,
      cap ''mobile_promo_banner'' Feature_cap ''mobile'' (JBool False) True True False 10,
      cap ''mobile_promo_fullscreen'' Feature_cap ''mobile'' (JBool False) True True False 20,
      cap ''mobile_promo_interval_minutes'' Limit_cap ''mobile'' (JNum (Fin 360)) True True False 30]"

definition CALLS_AND_CONTACTS :: "capability list" where
  "CALLS_AND_CONTACTS =
     [
      cap ''call_recording'' Feature_cap ''calls'' (JBool False) True True True 10,
      cap ''call_queue'' Feature_cap ''calls'' (JBool False) True True True 20,
      cap ''call_callbacks'' Feature_cap ''calls'' (JBool False) True True True 30,
      cap ''contact_import'' Feature_cap ''contacts'' (JBool False) True True True 10,
      cap ''contact_create'' Feature_cap ''contacts'' (JBool True) True True True 12,
      cap ''contact_edit'' Feature_cap ''contacts'' (JBool True) True True True 14,
      cap ''contact_export'' Feature_cap ''contacts'' (JBool False) True True True 20,
      cap ''contact_tags'' Feature_cap ''contacts'' (JBool True) True True True 30,
      cap ''contact_notes'' Feature_cap ''contacts'' (JBool True) True True True 40,
      cap ''bulk_contact_actions'' Feature_cap ''contacts'' (JBool False) True True True 50,
      cap ''contact_ip_visibility'' Feature_cap ''contacts'' (JBool False) True True True 60]"

definition NUMERIC_LIMITS :: "capability list" where
  "NUMERIC_LIMITS =
     [
      in_unit ''count'' (cap ''max_agents'' Limit_cap ''team'' (JNum (Fin 1)) True True True 10),
      in_unit ''count'' (cap ''max_kb_articles'' Limit_cap ''usage'' (JNum (Fin (-1))) True True True 50),
      in_unit ''count'' (cap ''max_workspaces'' Limit_cap ''team'' (JNum (Fin 1)) True False True 20),
      in_unit ''per_month'' (cap ''max_conversations'' Limit_cap ''usage'' (JNum (Fin 100)) True True True 10),
      in_unit ''per_month'' (cap ''max_visitors'' Limit_cap ''usage'' (JNum (Fin 1000)) True True True 20),
      retired (in_unit ''per_month'' (cap ''ai_credits_per_month'' Limit_cap ''ai'' (JNum (Fin 0)) False False False 100)),
      in_unit ''count'' (cap ''ai_kb_max_pages'' Limit_cap ''ai'' (JNum (Fin 50)) True True True 110),
      in_unit ''count'' (cap ''ai_kb_max_depth'' Limit_cap ''ai'' (JNum (Fin 2)) True True True 120),
      in_unit ''per_month'' (cap ''ai_kb_jobs_per_month'' Limit_cap ''ai'' (JNum (Fin 5)) True True True 130),
      in_unit ''count'' (cap ''ai_agent_web_source_max_pages'' Limit_cap ''ai'' (JNum (Fin 50)) True True True 111),
      in_unit ''count'' (cap ''ai_agent_web_source_max_depth'' Limit_cap ''ai'' (JNum (Fin 2)) True True True 121),
      in_unit ''per_month'' (cap ''ai_agent_web_source_jobs_per_month'' Limit_cap ''ai'' (JNum (Fin 5)) True True True 131),
      in_unit ''mb'' (cap ''ai_kb_file_size_mb'' Limit_cap ''ai'' (JNum (Fin 10)) True True True 140),
      in_unit ''count'' (cap ''ai_kb_file_count'' Limit_cap ''ai'' (JNum (Fin 20)) True True True 150),
      in_unit ''mb'' (cap ''storage_mb'' Limit_cap ''usage'' (JNum (Fin 1024)) True True True 30),
      in_unit ''days'' (cap ''data_retention_days'' Limit_cap ''usage'' (JNum (Fin 30)) True True True 40),
      in_unit ''count'' (cap ''max_contacts'' Limit_cap ''contacts'' (JNum (Fin 100)) True True True 60),
      in_unit ''count'' (cap ''max_concurrent_calls'' Limit_cap ''calls'' (JNum (Fin (-1))) True True True 70),
      in_unit ''minutes'' (cap ''max_call_minutes_per_month'' Limit_cap ''calls'' (JNum (Fin (-1))) True True True 80),
      in_unit ''days'' (cap ''recording_retention_days'' Limit_cap ''calls'' (JNum (Fin (-1))) True True True 90),
      in_unit ''count'' (cap ''max_call_recordings'' Limit_cap ''calls'' (JNum (Fin (-1))) True True True 100),
      in_unit ''mb'' (cap ''max_call_recording_storage_mb'' Limit_cap ''calls'' (JNum (Fin (-1))) True True True 110),
      in_unit ''count'' (cap ''included_ai_allowance_irr'' Limit_cap ''ai'' (JNum (Fin 0)) True True True 160)]"

definition SEO_CAPABILITIES :: "capability list" where
  "SEO_CAPABILITIES =
     [
      in_unit ''count'' (cap ''seo_max_pages_per_crawl'' Limit_cap ''seo'' (JNum (Fin 100)) True True True 10),
      in_unit ''count'' (cap ''seo_max_depth'' Limit_cap ''seo'' (JNum (Fin 3)) True True True 20),
      in_unit ''count'' (cap ''seo_workspace_concurrent_jobs'' Limit_cap ''seo'' (JNum (Fin 1)) True True True 30),
      in_unit ''hours'' (cap ''seo_crawl_frequency_hours'' Limit_cap ''seo'' (JNum (Fin 24)) True True True 40),
      cap ''seo_backlinks'' Module_cap ''modules'' (JBool False) True True True 131,
      in_unit ''count'' (cap ''seo_backlinks_max_per_scan'' Limit_cap ''seo'' (JNum (Fin 0)) True True True 50),
      in_unit ''count'' (cap ''seo_backlinks_workspace_concurrent_scans'' Limit_cap ''seo'' (JNum (Fin 1)) True True True 60),
      in_unit ''hours'' (cap ''seo_backlinks_scan_frequency_hours'' Limit_cap ''seo'' (JNum (Fin 168)) True True True 70),
      cap ''seo_keywords'' Module_cap ''modules'' (JBool False) True True True 132,
      in_unit ''count'' (cap ''seo_keywords_max_per_lookup'' Limit_cap ''seo'' (JNum (Fin 0)) True True True 80),
      in_unit ''count'' (cap ''seo_keywords_workspace_concurrent_runs'' Limit_cap ''seo'' (JNum (Fin 1)) True True True 90),
      in_unit ''hours'' (cap ''seo_keywords_lookup_frequency_hours'' Limit_cap ''seo'' (JNum (Fin 24)) True True True 100),
      cap ''seo_rank_tracking'' Module_cap ''modules'' (JBool False) True True True 133,
      in_unit ''count'' (cap ''seo_rank_tracking_max_keywords'' Limit_cap ''seo'' (JNum (Fin 0)) True True True 110),
      in_unit ''hours'' (cap ''seo_rank_tracking_check_frequency_hours'' Limit_cap ''seo'' (JNum (Fin 168)) True True True 120),
      cap ''seo_performance'' Module_cap ''modules'' (JBool False) True True True 134,
      in_unit ''count'' (cap ''seo_performance_max_pages_per_audit'' Limit_cap ''seo'' (JNum (Fin 0)) True True True 130),
      in_unit ''hours'' (cap ''seo_performance_audit_frequency_hours'' Limit_cap ''seo'' (JNum (Fin 168)) True True True 140),
      cap ''seo_gsc_insights'' Module_cap ''modules'' (JBool False) True True True 135,
      in_unit ''count'' (cap ''seo_gsc_max_properties'' Limit_cap ''seo'' (JNum (Fin 0)) True True True 150),
      in_unit ''hours'' (cap ''seo_gsc_sync_frequency_hours'' Limit_cap ''seo'' (JNum (Fin 6)) True True True 160),
      cap ''seo_site_explorer'' Module_cap ''modules'' (JBool False) True True True 136,
      in_unit ''count'' (cap ''seo_explorer_max_backlinks_per_scan'' Limit_cap ''seo'' (JNum (Fin 0)) True True True 170),
      in_unit ''count'' (cap ''seo_explorer_max_keywords_per_scan'' Limit_cap ''seo'' (JNum (Fin 0)) True True True 180),
      in_unit ''count'' (cap ''seo_explorer_workspace_concurrent_scans'' Limit_cap ''seo'' (JNum (Fin 1)) True True True 190),
      in_unit ''hours'' (cap ''seo_explorer_scan_frequency_hours'' Limit_cap ''seo'' (JNum (Fin 168)) True True True 200),
      cap ''web_analytics'' Module_cap ''modules'' (JBool False) True True True 137,
      in_unit ''count'' (cap ''web_analytics_max_funnels'' Limit_cap ''seo'' (JNum (Fin 0)) True True True 210),
      cap ''email_inbox'' Module_cap ''modules'' (JBool False) True True True 138,
      cap ''bot_analytics'' Module_cap ''modules'' (JBool False) True True True 138,
      in_unit ''count'' (cap ''bot_analytics_max_log_lines'' Limit_cap ''seo'' (JNum (Fin 0)) True True True 211),
      cap ''brand_radar'' Module_cap ''modules'' (JBool False) True True True 139,
      in_unit ''count'' (cap ''brand_radar_max_topics'' Limit_cap ''seo'' (JNum (Fin 0)) True True True 212),
      in_unit ''count'' (cap ''brand_radar_max_competitors'' Limit_cap ''seo'' (JNum (Fin 0)) True True True 213),
      in_unit ''hours'' (cap ''brand_radar_check_frequency_hours'' Limit_cap ''seo'' (JNum (Fin (-1))) True True True 214)]"

definition CAPABILITY_REGISTRY :: "capability list" where
  "CAPABILITY_REGISTRY =
     MODULES_AND_COMMERCE @ CHANNELS @ FEATURE_FLAGS @ WIDGET_FEATURES @ INBOX_AND_MOBILE @ CALLS_AND_CONTACTS @ NUMERIC_LIMITS @ SEO_CAPABILITIES"

section \<open>Lookups\<close>

definition BY_KEY :: "(string \<times> capability) list" where
  "BY_KEY = map (\<lambda>c. (cap_key c, c)) CAPABILITY_REGISTRY"

text \<open>The last entry of a key is the one a \<open>Map\<close> built of entries keeps.\<close>

definition get_capability :: "string \<Rightarrow> capability option" where
  "get_capability k = map_of (rev BY_KEY) k"

definition list_capabilities :: "capability_type option \<Rightarrow> string option \<Rightarrow> capability list" where
  "list_capabilities t g =
     filter (\<lambda>c. (case t of None \<Rightarrow> True | Some x \<Rightarrow> cap_type c = x)
       \<and> (case g of None \<Rightarrow> True | Some x \<Rightarrow> x = [] \<or> cap_group c = x)) CAPABILITY_REGISTRY"

lemmas registry_sections =
  CAPABILITY_REGISTRY_def MODULES_AND_COMMERCE_def CHANNELS_def FEATURE_FLAGS_def WIDGET_FEATURES_def INBOX_AND_MOBILE_def
  CALLS_AND_CONTACTS_def NUMERIC_LIMITS_def SEO_CAPABILITIES_def cap_def in_unit_def retired_def

lemma registry_keys_distinct: "distinct (map cap_key CAPABILITY_REGISTRY)"
  by (simp add: registry_sections)

lemma get_capability_member: "c \<in> set CAPABILITY_REGISTRY \<Longrightarrow> get_capability (cap_key c) = Some c"
proof -
  assume c: "c \<in> set CAPABILITY_REGISTRY"
  have "map fst (rev BY_KEY) = rev (map cap_key CAPABILITY_REGISTRY)" by (simp add: BY_KEY_def rev_map comp_def)
  hence "distinct (map fst (rev BY_KEY))" using registry_keys_distinct by simp
  moreover have "(cap_key c, c) \<in> set (rev BY_KEY)" using c by (simp add: BY_KEY_def)
  ultimately show ?thesis unfolding get_capability_def by (rule map_of_is_SomeI)
qed


lemma get_capability_in_registry: "get_capability k = Some c \<Longrightarrow> c \<in> set CAPABILITY_REGISTRY \<and> cap_key c = k"
  by (auto simp: get_capability_def BY_KEY_def dest!: map_of_SomeD)

text \<open>What the code relies on of every entry: a flag has a boolean default, a limit a number, and a retired one grants nothing.\<close>

definition entry_sound :: "capability \<Rightarrow> bool" where
  "entry_sound c \<longleftrightarrow>
     (case cap_default c of
        JBool b \<Rightarrow> cap_type c \<noteq> Limit_cap \<and> (cap_deprecated c \<longrightarrow> \<not> b)
      | JNum n \<Rightarrow> cap_type c = Limit_cap \<and> num_is_finite n
      | _ \<Rightarrow> False)"

lemma registry_sound: "c \<in> set CAPABILITY_REGISTRY \<Longrightarrow> entry_sound c"
proof -
  have "list_all entry_sound CAPABILITY_REGISTRY" by (simp add: registry_sections entry_sound_def)
  thus "c \<in> set CAPABILITY_REGISTRY \<Longrightarrow> entry_sound c" by (simp only: list_all_iff)
qed

section \<open>Plans\<close>

definition USAGE_BACKED_LIMIT_KEYS :: "string list" where
  "USAGE_BACKED_LIMIT_KEYS =
     [''max_conversations'', ''max_visitors'', ''storage_mb'', ''ai_kb_jobs_per_month'', ''max_contacts'', ''max_agents'',
      ''max_kb_articles'', ''max_concurrent_calls'', ''max_call_minutes_per_month'', ''max_call_recordings'',
      ''max_call_recording_storage_mb'']"

definition fill_limit :: "string \<Rightarrow> (string \<times> jsval) list \<Rightarrow> (string \<times> jsval) list" where
  "fill_limit k lims =
     (if map_of lims k \<noteq> None then lims
      else case get_capability k of
        None \<Rightarrow> lims
      | Some c \<Rightarrow> (case cap_default c of JNum n \<Rightarrow> lims @ [(k, JNum n)] | _ \<Rightarrow> lims))"

definition normalize_plan_limits :: "(string \<times> jsval) list option \<Rightarrow> (string \<times> jsval) list" where
  "normalize_plan_limits lims = fold fill_limit USAGE_BACKED_LIMIT_KEYS (case lims of None \<Rightarrow> [] | Some l \<Rightarrow> l)"

datatype issue_level = Error_level | Warning_level

datatype issue_code =
  Unknown_entitlement | Entitlement_not_boolean | Limit_in_entitlements | Unknown_limit | Limit_not_number | Not_a_limit

type_synonym plan_issue = "issue_level \<times> string \<times> issue_code"

definition LEGACY_PLAN_KEYS :: "string list" where
  "LEGACY_PLAN_KEYS =
     [''advanced_analytics'', ''ai_enabled'', ''ai_kb_max_articles'', ''ai_kb_max_chars'', ''ai_kb_monthly_credits'',
      ''ai_requests_monthly'', ''conversations_monthly'', ''kb_articles'', ''team_members'', ''contacts'', ''agents'',
      ''ai_credits'', ''conversations'', ''file_storage_mb'']"

definition is_boolean :: "jsval \<Rightarrow> bool" where
  "is_boolean v \<longleftrightarrow> (case v of JBool _ \<Rightarrow> True | _ \<Rightarrow> False)"

definition is_finite_number :: "jsval \<Rightarrow> bool" where
  "is_finite_number v \<longleftrightarrow> (case v of JNum n \<Rightarrow> num_is_finite n | _ \<Rightarrow> False)"

definition entitlement_issues :: "string \<times> jsval \<Rightarrow> plan_issue list" where
  "entitlement_issues kv =
     (let (k, v) = kv; legacy = k \<in> set LEGACY_PLAN_KEYS;
          typed = (if is_boolean v then [] else [(Error_level, k, Entitlement_not_boolean)])
      in case get_capability k of
           None \<Rightarrow> (if legacy then [] else [(Warning_level, k, Unknown_entitlement)]) @ typed
         | Some c \<Rightarrow>
             (if cap_type c = Limit_cap \<and> \<not> legacy then [(Warning_level, k, Limit_in_entitlements)] else []) @ typed)"

definition limit_issues :: "string \<times> jsval \<Rightarrow> plan_issue list" where
  "limit_issues kv =
     (let (k, v) = kv; legacy = k \<in> set LEGACY_PLAN_KEYS;
          typed = (if is_finite_number v then [] else [(Error_level, k, Limit_not_number)])
      in case get_capability k of
           None \<Rightarrow> (if legacy then [] else [(Warning_level, k, Unknown_limit)]) @ typed
         | Some c \<Rightarrow> (if cap_type c \<noteq> Limit_cap \<and> \<not> legacy then [(Warning_level, k, Not_a_limit)] else []) @ typed)"

definition validate_plan_payload ::
    "(string \<times> jsval) list option \<Rightarrow> (string \<times> jsval) list option \<Rightarrow> bool \<times> plan_issue list" where
  "validate_plan_payload ents lims =
     (let issues = concat (map entitlement_issues (case ents of None \<Rightarrow> [] | Some l \<Rightarrow> l))
                 @ concat (map limit_issues (case lims of None \<Rightarrow> [] | Some l \<Rightarrow> l))
      in (\<not> list_ex (\<lambda>i. fst i = Error_level) issues, issues))"

datatype plan_bucket = In_entitlements | In_limits

record plan_diagnosis =
  unknown_keys :: "(string \<times> string \<times> plan_bucket) list"
  missing_everywhere :: "string list"
  invalid_values :: "(string \<times> string \<times> jsval) list"

text \<open>A plan as its slug, its entitlements and its limits.\<close>

type_synonym plan_document = "string \<times> (string \<times> jsval) list option \<times> (string \<times> jsval) list option"

definition entries_of :: "(string \<times> jsval) list option \<Rightarrow> (string \<times> jsval) list" where
  "entries_of l = (case l of None \<Rightarrow> [] | Some kvs \<Rightarrow> kvs)"

definition plan_unknown :: "plan_document \<Rightarrow> (string \<times> string \<times> plan_bucket) list" where
  "plan_unknown p =
     (let (slug, ents, lims) = p
      in map (\<lambda>kv. (slug, fst kv, In_entitlements)) (filter (\<lambda>kv. get_capability (fst kv) = None) (entries_of ents))
       @ map (\<lambda>kv. (slug, fst kv, In_limits)) (filter (\<lambda>kv. get_capability (fst kv) = None) (entries_of lims)))"

definition plan_invalid :: "plan_document \<Rightarrow> (string \<times> string \<times> jsval) list" where
  "plan_invalid p =
     (let (slug, ents, lims) = p
      in map (\<lambda>kv. (slug, fst kv, snd kv)) (filter (\<lambda>kv. \<not> is_finite_number (snd kv)) (entries_of lims)))"

definition diagnose_against_plans :: "plan_document list \<Rightarrow> plan_diagnosis" where
  "diagnose_against_plans plans =
     (let mentioned = concat (map (\<lambda>(_, ents, lims). map fst (entries_of ents) @ map fst (entries_of lims)) plans)
      in \<lparr>unknown_keys = concat (map plan_unknown plans),
          missing_everywhere =
            map cap_key (filter (\<lambda>c. cap_configurable c \<and> cap_key c \<notin> set mentioned) CAPABILITY_REGISTRY),
          invalid_values = concat (map plan_invalid plans)\<rparr>)"

end
