(* ===== verification/Card_State.thy ===== *)
theory Card_State
  imports Billing_Money Calendar
begin

text \<open>
  What a saved card's subscription at the payment provider should look like
  (\<open>server/services/billing/account/cardState.ts\<close>, with the \<open>CARD_*\<close> constants of
  \<open>shared/simpleBilling.ts\<close>). Instants are milliseconds; an absent or empty date text is \<open>None\<close>
  where the field is optional. \<open>toISOString\<close> fails beyond 8.64e15 milliseconds from 1970; such
  instants are left out.
\<close>

section \<open>Data\<close>

definition CARD_RENEWAL_LEAD_MS :: int where
  "CARD_RENEWAL_LEAD_MS = 24 * 60 * 60 * 1000"

definition CARD_MIN_LEAD_FROM_NOW_MS :: int where
  "CARD_MIN_LEAD_FROM_NOW_MS = 45 * 60 * 1000"

definition CARD_LATEST_BEFORE_END_MS :: int where
  "CARD_LATEST_BEFORE_END_MS = 10 * 60 * 1000"

definition CARD_FREEZE_BEFORE_MS :: int where
  "CARD_FREEZE_BEFORE_MS = 2 * 60 * 60 * 1000"

definition CARD_FREEZE_MAX_AFTER_MS :: int where
  "CARD_FREEZE_MAX_AFTER_MS = 6 * 60 * 60 * 1000"

definition CARD_SETUP_HOLD_MS :: int where
  "CARD_SETUP_HOLD_MS = 2 * 60 * 60 * 1000"

lemmas card_constants =
  CARD_RENEWAL_LEAD_MS_def CARD_MIN_LEAD_FROM_NOW_MS_def CARD_LATEST_BEFORE_END_MS_def
  CARD_FREEZE_BEFORE_MS_def CARD_FREEZE_MAX_AFTER_MS_def CARD_SETUP_HOLD_MS_def

datatype card_status = Active | Past_due | Canceling | Canceled

datatype interval = Monthly | Yearly

record saved_card =
  card_status :: card_status
  card_created_at :: isotext
  card_currency :: string

record setup_payment =
  setup_status :: string
  setup_created_at :: isotext

record paid_period =
  paid_plan_id :: string
  paid_interval :: interval
  current_period_end :: isotext

record renewal_target =
  target_plan_id :: string
  target_is_free :: bool
  target_interval :: interval
  price_minor :: "jsnum option"

record card_state_input =
  now_ms :: int
  saved :: saved_card
  workspace_exists :: bool
  setup_pay :: "setup_payment option"
  auto_renew :: bool
  paid :: "paid_period option"
  prepaid_next_end :: "isotext option"
  next_target :: "renewal_target option"
  vat_percent :: "rat option"

record renewal_item =
  item_plan_id :: string
  item_interval :: interval
  item_currency :: string
  item_net_minor :: int
  item_tax_minor :: int
  item_amount_minor :: int
  item_vat_percent :: "rat option"

datatype desired_card_state =
    Cancel_now string
  | Hold string
  | Stop_at_period_end string
  | Renew (next_billed_at: isotext) (feasible: bool) (item: renewal_item)

definition SETUP_ENDED :: "string set" where
  "SETUP_ENDED = {''failed'', ''canceled'', ''expired''}"

section \<open>Operations\<close>

definition live_card :: "card_status \<Rightarrow> bool" where
  "live_card s \<longleftrightarrow> s = Active \<or> s = Past_due"

definition setup_hold_from :: "setup_payment \<Rightarrow> saved_card \<Rightarrow> int option" where
  "setup_hold_from s c =
     (case (parse_iso (setup_created_at s), parse_iso (card_created_at c)) of
        (Some a, Some b) \<Rightarrow> Some (max a b)
      | (Some a, None) \<Rightarrow> Some a
      | (None, Some b) \<Rightarrow> Some b
      | (None, None) \<Rightarrow> None)"

definition readable :: "isotext option \<Rightarrow> isotext option" where
  "readable x = (if parse_iso_opt x = None then None else x)"

definition last_paid_end :: "card_state_input \<Rightarrow> isotext option" where
  "last_paid_end i =
     coalesce (readable (prepaid_next_end i))
       (readable (map_option current_period_end (paid i)))"

definition charge_date_for :: "int \<Rightarrow> int \<Rightarrow> int \<times> bool" where
  "charge_date_for last_paid_end_ms t =
     (let due = max (last_paid_end_ms - CARD_RENEWAL_LEAD_MS) (t + CARD_MIN_LEAD_FROM_NOW_MS)
      in (due, due < last_paid_end_ms - CARD_LATEST_BEFORE_END_MS))"

record freeze =
  frozen :: bool
  until :: "isotext option"

definition in_freeze :: "int \<Rightarrow> int \<Rightarrow> bool" where
  "in_freeze due t \<longleftrightarrow> due - CARD_FREEZE_BEFORE_MS \<le> t \<and> t < due + CARD_FREEZE_MAX_AFTER_MS"

definition card_freeze :: "isotext option \<Rightarrow> card_status \<Rightarrow> int \<Rightarrow> freeze" where
  "card_freeze paddle_next_billed_at status t =
     (case parse_iso_opt paddle_next_billed_at of
        None \<Rightarrow> \<lparr>frozen = False, until = None\<rparr>
      | Some n \<Rightarrow>
          if \<not> live_card status then \<lparr>frozen = False, until = None\<rparr>
          else if in_freeze n t then \<lparr>frozen = True, until = Some (Iso (n + CARD_FREEZE_MAX_AFTER_MS))\<rparr>
          else \<lparr>frozen = False, until = None\<rparr>)"

definition setup_pending :: "card_state_input \<Rightarrow> bool" where
  "setup_pending i =
     (case setup_pay i of
        None \<Rightarrow> False
      | Some s \<Rightarrow>
          (case setup_hold_from s (saved i) of
             None \<Rightarrow> False
           | Some from \<Rightarrow>
               setup_status s \<notin> SETUP_ENDED \<and> now_ms i - from < CARD_SETUP_HOLD_MS))"

definition priced :: "renewal_target \<Rightarrow> int option" where
  "priced g =
     (case price_minor g of
        Some (Fin q) \<Rightarrow> if num_is_safe_integer (Fin q) \<and> 0 < q then Some \<lfloor>q\<rfloor> else None
      | _ \<Rightarrow> None)"

definition renewal :: "card_state_input \<Rightarrow> renewal_target \<Rightarrow> int \<Rightarrow> desired_card_state" where
  "renewal i g price =
     (let e = parse_iso_opt (last_paid_end i);
          (due, ok) = charge_date_for (case e of None \<Rightarrow> now_ms i | Some t \<Rightarrow> t) (now_ms i);
          c = charge_for price (vat_percent i)
      in Renew (Iso due) (e \<noteq> None \<and> ok)
           \<lparr>item_plan_id = target_plan_id g, item_interval = target_interval g,
            item_currency = card_currency (saved i), item_net_minor = net c,
            item_tax_minor = tax c, item_amount_minor = total c,
            item_vat_percent = (if 0 < tax c then vat_percent i else None)\<rparr>)"

definition desired_card_state :: "card_state_input \<Rightarrow> desired_card_state" where
  "desired_card_state i =
     (if card_status (saved i) = Canceling \<or> card_status (saved i) = Canceled
      then Cancel_now ''card_canceling''
      else if \<not> workspace_exists i then Cancel_now ''workspace_deleted''
      else if paid i = None then
        (if setup_pending i then Hold ''setup_pending'' else Cancel_now ''no_paid_plan'')
      else if \<not> auto_renew i then Stop_at_period_end ''auto_renew_off''
      else
        (case next_target i of
           None \<Rightarrow> Stop_at_period_end ''renewal_to_free''
         | Some g \<Rightarrow>
             if target_is_free g then Stop_at_period_end ''renewal_to_free''
             else (case priced g of
                     None \<Rightarrow> Stop_at_period_end ''price_unavailable''
                   | Some price \<Rightarrow> renewal i g price)))"

record own_freeze = freeze +
  charge_at :: "isotext option"

definition own_renewal_freeze :: "card_state_input \<Rightarrow> own_freeze" where
  "own_renewal_freeze i =
     (let open_window = \<lparr>frozen = False, until = None, charge_at = None\<rparr>
      in case paid i of
           None \<Rightarrow> open_window
         | Some p \<Rightarrow>
             if \<not> live_card (card_status (saved i)) \<or> prepaid_next_end i \<noteq> None then open_window
             else if \<not> is_Renew (desired_card_state i) then open_window
             else (case parse_iso (current_period_end p) of
                     None \<Rightarrow> open_window
                   | Some e \<Rightarrow>
                       let due = e - CARD_RENEWAL_LEAD_MS
                       in if in_freeze due (now_ms i)
                          then \<lparr>frozen = True, until = Some (Iso (due + CARD_FREEZE_MAX_AFTER_MS)),
                                charge_at = Some (Iso due)\<rparr>
                          else open_window))"

definition period_end_of :: "isotext \<Rightarrow> interval \<Rightarrow> isotext option" where
  "period_end_of start iv =
     (case parse_iso start of
        None \<Rightarrow> None
      | Some t \<Rightarrow>
          let months = utc_month t + (if iv = Yearly then 12 else 1);
              year = utc_year t + months div 12;
              month = months mod 12;
              last_day = utc_date (date_utc year (month + 1) 0 0 0 0 0)
          in Some (Iso (date_utc year month (min (utc_date t) last_day)
                 (utc_hours t) (utc_minutes t) (utc_seconds t) (utc_milliseconds t))))"

section \<open>The decision\<close>

lemma live_card_iff: "live_card s \<longleftrightarrow> \<not> (s = Canceling \<or> s = Canceled)"
  by (cases s) (auto simp: live_card_def)

lemma priced_Some:
  "priced g = Some p \<Longrightarrow> 0 < p \<and> p \<le> max_safe_integer \<and> price_minor g = Some (Fin (of_int p))"
  by (auto simp: priced_def rat_is_int_def split: option.splits jsnum.splits if_splits)

lemma renewal_Renew: "is_Renew (renewal i g p)"
  by (simp add: renewal_def Let_def split: prod.split)

lemma desired_Renew_iff:
  "is_Renew (desired_card_state i) \<longleftrightarrow>
     live_card (card_status (saved i)) \<and> workspace_exists i \<and> paid i \<noteq> None \<and> auto_renew i
     \<and> (\<exists>g p. next_target i = Some g \<and> \<not> target_is_free g \<and> priced g = Some p)"
  by (auto simp: desired_card_state_def live_card_iff renewal_Renew split: option.splits)

lemma desired_Renew_eq:
  assumes "is_Renew (desired_card_state i)"
  obtains g p where "next_target i = Some g" and "priced g = Some p" and "desired_card_state i = renewal i g p"
  using assms by (auto simp: desired_card_state_def split: option.splits if_splits)

lemma charge_date_for_bounds:
  assumes "charge_date_for e t = (due, ok)"
  shows "t + CARD_MIN_LEAD_FROM_NOW_MS \<le> due" and "e - CARD_RENEWAL_LEAD_MS \<le> due"
    and "ok \<longleftrightarrow> due < e - CARD_LATEST_BEFORE_END_MS"
    and "t + CARD_MIN_LEAD_FROM_NOW_MS \<le> e - CARD_RENEWAL_LEAD_MS \<Longrightarrow> due = e - CARD_RENEWAL_LEAD_MS"
  using assms by (auto simp: charge_date_for_def Let_def)

lemma renewal_fields:
  "item_amount_minor (item (renewal i g p)) = item_net_minor (item (renewal i g p))
     + item_tax_minor (item (renewal i g p))"
  "item_net_minor (item (renewal i g p)) = p"
  "item_tax_minor (item (renewal i g p)) = tax (charge_for p (vat_percent i))"
  by (simp_all add: renewal_def Let_def charge_for_simps split: prod.split)

section \<open>Period arithmetic\<close>

lemma make_day_add: "make_day y m d + k = make_day y m (d + k)"
  by (simp add: make_day_def Let_def)

lemma utc_parts_of_date_utc:
  assumes "100 \<le> y" and "0 \<le> r" and "r < ms_per_day"
    and r: "h * 3600000 + mi * 60000 + s * 1000 + ms = r"
  shows "date_utc y mo d h mi s ms = make_day y mo d * ms_per_day + r"
  using assms by (simp add: date_utc_def Let_def)

lemma last_day_of_month:
  assumes "100 \<le> y" and "0 \<le> m" and "m < 12"
  shows "utc_date (date_utc y (m + 1) 0 0 0 0 0) = days_in_month y (nat m)"
proof -
  let ?n = "days_in_month y (nat m)"
  have m: "nat m < 12" using assms by simp
  have "date_utc y (m + 1) 0 0 0 0 0 = make_day y (m + 1) 0 * ms_per_day"
    using assms(1) by (simp add: date_utc_def Let_def)
  moreover have "make_day y (m + 1) 0 = make_day y (int (nat m)) ?n"
    using make_day_next_month [OF assms(2,3), of y 0] make_day_add [of y m 0 ?n] assms(2) by simp
  moreover have "date_of_day (make_day y (int (nat m)) ?n) = ?n"
    using days_in_month_bounds [OF m, of y] m by (intro civil_of_make_day) auto
  ultimately show ?thesis by (simp add: utc_date_def ms_per_day_def)
qed

text \<open>The calendar fields of the end of a period, and its distance from the start in days.\<close>

definition shifted_year :: "int \<Rightarrow> interval \<Rightarrow> int" where
  "shifted_year t iv =
     (if iv = Yearly \<or> utc_month t = 11 then utc_year t + 1 else utc_year t)"

definition shifted_month :: "int \<Rightarrow> interval \<Rightarrow> nat" where
  "shifted_month t iv =
     (if iv = Yearly then nat (utc_month t) else if utc_month t = 11 then 0 else Suc (nat (utc_month t)))"

lemma utc_month_range: "0 \<le> utc_month t \<and> utc_month t < 12"
  using month_of_day_less by (simp add: utc_month_def)

lemma shifted_month_less: "shifted_month t iv < 12"
  using utc_month_range [of t] by (auto simp: shifted_month_def)

lemma shifted_months_div_mod:
  "(utc_month t + (if iv = Yearly then 12 else 1)) div 12 = shifted_year t iv - utc_year t"
  "(utc_month t + (if iv = Yearly then 12 else 1)) mod 12 = int (shifted_month t iv)"
proof -
  obtain m where m: "utc_month t = m" "0 \<le> m" "m < 12" using utc_month_range by blast
  show "(utc_month t + (if iv = Yearly then 12 else 1)) div 12 = shifted_year t iv - utc_year t"
    unfolding shifted_year_def m(1) using m(2,3) by (auto simp: div_pos_pos_trivial)
  show "(utc_month t + (if iv = Yearly then 12 else 1)) mod 12 = int (shifted_month t iv)"
    unfolding shifted_month_def m(1) using m(2,3) by (auto simp: mod_pos_pos_trivial)
qed

lemma period_end_of_eq:
  assumes "100 \<le> utc_year t"
  shows "period_end_of (Iso t) iv = Some (Iso
    (make_day (shifted_year t iv) (int (shifted_month t iv))
       (min (utc_date t) (days_in_month (shifted_year t iv) (shifted_month t iv))) * ms_per_day
     + t mod ms_per_day))"
proof -
  have y: "100 \<le> shifted_year t iv" using assms by (simp add: shifted_year_def)
  have last: "utc_date (date_utc (shifted_year t iv) (int (shifted_month t iv) + 1) 0 0 0 0 0)
      = days_in_month (shifted_year t iv) (shifted_month t iv)"
    using last_day_of_month [OF y, of "int (shifted_month t iv)"] shifted_month_less [of t iv] by simp
  have yy: "utc_year t + (shifted_year t iv - utc_year t) = shifted_year t iv" by simp
  show ?thesis
    unfolding period_end_of_def parse_iso.simps option.case Let_def shifted_months_div_mod yy last
    using utc_parts_of_date_utc [OF y time_of_day_range [THEN conjunct1]
        time_of_day_range [THEN conjunct2] time_of_day_parts] by simp
qed

lemma days_before_next_year:
  assumes "m < 12"
  shows "days_before_month l' m - days_before_month l m
    = (if m < 2 then 0 else (if l' then 1 else 0) - (if l then 1 else 0))"
  using month_cases [OF assms] by (elim disjE) simp_all

lemma period_days:
  assumes "d \<le> days_in_month y m" and "m < 12" and "1 \<le> d"
  shows "let y' = (if m = 11 then y + 1 else y); m' = (if m = 11 then 0 else Suc m);
             e = make_day y' (int m') (min d (days_in_month y' m'))
         in 28 \<le> e - make_day y (int m) d \<and> e - make_day y (int m) d \<le> 31"
proof -
  let ?y = "if m = 11 then y + 1 else y" and ?m = "if m = 11 then 0 else Suc m"
  have m': "?m < 12" using assms(2) by auto
  have next_first: "make_day ?y (int ?m) 0 = make_day y (int m + 1) 0"
    by (cases "m = 11") (auto simp: make_day_def Let_def add.commute)
  have "make_day ?y (int ?m) (min d (days_in_month ?y ?m)) - make_day y (int m) d
      = days_in_month y m + min d (days_in_month ?y ?m) - d"
    using next_first make_day_next_month [of "int m" y 0] assms(2)
      make_day_add [of ?y "int ?m" 0 "min d (days_in_month ?y ?m)"]
      make_day_add [of y "int m" 0 d] by simp
  then show ?thesis
    using assms(1) days_in_month_bounds [OF assms(2), of y] days_in_month_bounds [OF m', of ?y]
    by (simp add: Let_def min_def)
qed

lemma leap_year_mod4: "leap_year y \<Longrightarrow> y mod 4 = 0"
  using mod_mod_cancel [of 4 400 y] by (elim leap_year_def [THEN iffD1, elim_format]) auto

lemma year_days:
  assumes "d \<le> days_in_month y m" and "m < 12" and "1 \<le> d"
  shows "365 \<le> make_day (y + 1) (int m) (min d (days_in_month (y + 1) m)) - make_day y (int m) d
    \<and> make_day (y + 1) (int m) (min d (days_in_month (y + 1) m)) - make_day y (int m) d \<le> 366"
proof -
  have im: "int m div 12 = 0" "int m mod 12 = int m" using assms(2) by auto
  have both: "\<not> (leap_year y \<and> leap_year (y + 1))"
  proof
    assume "leap_year y \<and> leap_year (y + 1)"
    then have "y mod 4 = 0" and "(y + 1) mod 4 = 0" using leap_year_mod4 by blast+
    then show False using mod_add_left_eq [of y 4 1] by simp
  qed
  have "make_day (y + 1) (int m) (min d (days_in_month (y + 1) m)) - make_day y (int m) d
     = days_in_year y + (days_before_month (leap_year (y + 1)) m - days_before_month (leap_year y) m)
       + min d (days_in_month (y + 1) m) - d"
    using day_from_year_succ [of y] by (simp add: make_day_def im Let_def)
  then show ?thesis
    using assms both unfolding days_before_next_year [OF assms(2)] days_in_year_def
      days_in_month_cases [OF assms(2)]
    by (auto simp: min_def split: if_splits)
qed

text \<open>The same, for the start instant of a period.\<close>

lemma period_span_days:
  "let e = make_day (shifted_year t iv) (int (shifted_month t iv))
             (min (utc_date t) (days_in_month (shifted_year t iv) (shifted_month t iv)))
   in (if iv = Yearly then 365 else 28) \<le> e - t div ms_per_day
      \<and> e - t div ms_per_day \<le> (if iv = Yearly then 366 else 31)"
proof -
  let ?d = "t div ms_per_day"
  note b = date_of_day_bounds [of ?d] and m = month_of_day_less [of ?d]
  have s: "make_day (utc_year t) (int (month_of_day ?d)) (utc_date t) = ?d"
    unfolding utc_year_def utc_date_def by (rule make_day_of_civil)
  show ?thesis
  proof (cases iv)
    case Monthly
    have "shifted_year t iv = (if month_of_day ?d = 11 then utc_year t + 1 else utc_year t)"
      and "shifted_month t iv = (if month_of_day ?d = 11 then 0 else Suc (month_of_day ?d))"
      by (auto simp: Monthly shifted_year_def shifted_month_def utc_month_def)
    then show ?thesis
      using period_days [of "utc_date t" "utc_year t" "month_of_day ?d"] b m
      unfolding s utc_year_def [symmetric] utc_date_def [symmetric] Let_def
      by (simp add: Monthly)
  next
    case Yearly
    have "shifted_year t iv = utc_year t + 1" and "shifted_month t iv = month_of_day ?d"
      by (simp_all add: Yearly shifted_year_def shifted_month_def utc_month_def)
    then show ?thesis
      using year_days [of "utc_date t" "utc_year t" "month_of_day ?d"] b m
      unfolding s utc_year_def [symmetric] utc_date_def [symmetric] Let_def
      by (simp add: Yearly)
  qed
qed

section \<open>Properties\<close>

text \<open>The subscription is told to renew exactly for a live card of an existing workspace with a running
  paid period, automatic renewal on, and a priced non-free target; then the charge is never sooner
  than 45 minutes from now, a charge reported as feasible falls more than 10 minutes before the end
  of the last paid period, and the amount is the target's price plus its VAT.\<close>

theorem desired_renew_correct:
  "(is_Renew (desired_card_state i) \<longleftrightarrow>
      live_card (card_status (saved i)) \<and> workspace_exists i \<and> paid i \<noteq> None \<and> auto_renew i
      \<and> (\<exists>g p. next_target i = Some g \<and> \<not> target_is_free g \<and> priced g = Some p))
   \<and> (case desired_card_state i of
        Renew due ok it \<Rightarrow>
          (\<exists>d g p. due = Iso d \<and> now_ms i + 45 * 60 * 1000 \<le> d
             \<and> next_target i = Some g \<and> priced g = Some p
             \<and> item_plan_id it = target_plan_id g
             \<and> item_net_minor it = p \<and> item_tax_minor it = tax (charge_for p (vat_percent i))
             \<and> item_amount_minor it = p + item_tax_minor it
             \<and> (if ok then \<exists>e. last_paid_end i = Some (Iso e) \<and> d < e - 10 * 60 * 1000 else True))
      | _ \<Rightarrow> True)"
proof (intro conjI)
  show "case desired_card_state i of
        Renew due ok it \<Rightarrow>
          (\<exists>d g p. due = Iso d \<and> now_ms i + 45 * 60 * 1000 \<le> d
             \<and> next_target i = Some g \<and> priced g = Some p
             \<and> item_plan_id it = target_plan_id g
             \<and> item_net_minor it = p \<and> item_tax_minor it = tax (charge_for p (vat_percent i))
             \<and> item_amount_minor it = p + item_tax_minor it
             \<and> (if ok then \<exists>e. last_paid_end i = Some (Iso e) \<and> d < e - 10 * 60 * 1000 else True))
      | _ \<Rightarrow> True"
  proof (cases "is_Renew (desired_card_state i)")
    case True
    then obtain g p where g: "next_target i = Some g" "priced g = Some p"
      and eq: "desired_card_state i = renewal i g p"
      by (rule desired_Renew_eq)
    show ?thesis
      unfolding eq renewal_def Let_def using g
      by (auto simp: charge_for_simps charge_date_for_def Let_def card_constants parse_iso_opt_def
          bind_eq_Some_conv split: option.splits if_splits)
  qed (auto split: desired_card_state.split)
qed (rule desired_Renew_iff)

text \<open>While a plain renewal is due and the provider's mirrored charge date is the one the running
  period asks for, the freeze read from the mirror and the freeze read from our own period agree;
  a freeze always ends, at most eight hours after it began, and never outlasts its announced end.\<close>

theorem own_renewal_freeze_agrees:
  assumes "is_Renew (desired_card_state i)" and "prepaid_next_end i = None"
    and "map_option current_period_end (paid i) = Some (Iso e)"
  shows "frozen (own_renewal_freeze i)
      = frozen (card_freeze (Some (Iso (e - CARD_RENEWAL_LEAD_MS))) (card_status (saved i)) (now_ms i))
    \<and> until (own_renewal_freeze i)
      = until (card_freeze (Some (Iso (e - CARD_RENEWAL_LEAD_MS))) (card_status (saved i)) (now_ms i))
    \<and> (frozen (own_renewal_freeze i) \<longleftrightarrow> e - 26 * 3600000 \<le> now_ms i \<and> now_ms i < e - 18 * 3600000)
    \<and> (\<not> frozen (own_renewal_freeze i) \<or> until (own_renewal_freeze i) = Some (Iso (e - 18 * 3600000)))"
proof -
  have live: "live_card (card_status (saved i))" using assms(1) desired_Renew_iff by blast
  obtain p where p: "paid i = Some p" "current_period_end p = Iso e" using assms(3) by auto
  have own: "own_renewal_freeze i =
     (if in_freeze (e - CARD_RENEWAL_LEAD_MS) (now_ms i)
      then \<lparr>frozen = True, until = Some (Iso (e - CARD_RENEWAL_LEAD_MS + CARD_FREEZE_MAX_AFTER_MS)),
            charge_at = Some (Iso (e - CARD_RENEWAL_LEAD_MS))\<rparr>
      else \<lparr>frozen = False, until = None, charge_at = None\<rparr>)"
    using assms(1,2) live p by (simp add: own_renewal_freeze_def Let_def)
  show ?thesis
    unfolding own card_freeze_def using live
    by (auto simp: in_freeze_def card_constants)
qed

definition example_input :: card_state_input where
  "example_input =
     \<lparr>now_ms = 20 * 3600000,
      saved = \<lparr>card_status = Active, card_created_at = Unreadable, card_currency = ''USD''\<rparr>,
      workspace_exists = True, setup_pay = None, auto_renew = True,
      paid = Some \<lparr>paid_plan_id = ''pro'', paid_interval = Monthly, current_period_end = Iso (40 * 3600000)\<rparr>,
      prepaid_next_end = None,
      next_target = Some \<lparr>target_plan_id = ''pro'', target_is_free = False, target_interval = Monthly,
        price_minor = Some (Fin (of_int 2900))\<rparr>,
      vat_percent = None\<rparr>"

theorem own_renewal_freeze_agrees_witness:
  "is_Renew (desired_card_state example_input) \<and> frozen (own_renewal_freeze example_input)"
proof -
  have r: "is_Renew (desired_card_state example_input)"
    unfolding desired_Renew_iff
    by (simp add: example_input_def live_card_def priced_def rat_is_int_def max_safe_integer_def)
  have n: "now_ms example_input = 72000000" and e: "prepaid_next_end example_input = None"
    "map_option current_period_end (paid example_input) = Some (Iso 144000000)"
    by (simp_all add: example_input_def)
  have "frozen (own_renewal_freeze example_input)"
    using own_renewal_freeze_agrees [OF r e, THEN conjunct2, THEN conjunct2, THEN conjunct1] n by simp
  with r show ?thesis by blast
qed

text \<open>The end of a period lies one month or one year after its start in UTC, on the same date or the
  month's last day when it has no such date, at the same time of day; a month spans 28 to 31 days
  and a year 365 or 366.\<close>

theorem period_end_of_correct:
  assumes "100 \<le> utc_year t"
  shows "\<exists>e. period_end_of (Iso t) iv = Some (Iso e)
    \<and> utc_year e * 12 + utc_month e = utc_year t * 12 + utc_month t + (if iv = Yearly then 12 else 1)
    \<and> utc_date e = min (utc_date t) (days_in_month (utc_year e) (nat (utc_month e)))
    \<and> e mod ms_per_day = t mod ms_per_day
    \<and> (if iv = Yearly then 365 else 28) * ms_per_day \<le> e - t
    \<and> e - t \<le> (if iv = Yearly then 366 else 31) * ms_per_day"
proof -
  let ?y = "shifted_year t iv" and ?m = "shifted_month t iv"
  let ?d = "min (utc_date t) (days_in_month ?y ?m)"
  let ?day = "make_day ?y (int ?m) ?d"
  let ?e = "?day * ms_per_day + t mod ms_per_day"
  have d: "1 \<le> ?d" "?d \<le> days_in_month ?y ?m"
    using date_of_day_bounds [of "t div ms_per_day"] days_in_month_bounds [OF shifted_month_less, of ?y t iv]
    by (simp_all add: utc_date_def)
  note civil = civil_of_make_day [OF shifted_month_less d]
  note parts = instant_parts [OF time_of_day_range [THEN conjunct1] time_of_day_range [THEN conjunct2]]
  have f: "utc_year ?e = ?y" "utc_month ?e = int ?m" "utc_date ?e = ?d" "?e mod ms_per_day = t mod ms_per_day"
    unfolding utc_year_def utc_month_def utc_date_def parts by (simp_all add: civil [unfolded utc_date_def])
  have my: "?y * 12 + int ?m = utc_year t * 12 + utc_month t + (if iv = Yearly then 12 else 1)"
    using utc_month_range [of t] by (auto simp: shifted_year_def shifted_month_def)
  have "?e - t = ?day * ms_per_day - (t - t mod ms_per_day)" by simp
  then have span: "?e - t = (?day - t div ms_per_day) * ms_per_day"
    unfolding minus_mod_eq_div_mult left_diff_distrib .
  have "(if iv = Yearly then 365 else 28) * ms_per_day \<le> ?e - t"
    and "?e - t \<le> (if iv = Yearly then 366 else 31) * ms_per_day"
    unfolding span using period_span_days [of t iv] unfolding Let_def
    by (intro mult_right_mono; simp add: ms_per_day_def)+
  then show ?thesis
    unfolding period_end_of_eq [OF assms] using f my
    by (intro exI [of _ ?e] conjI) simp_all
qed

text \<open>31 January 2024, 10:30 UTC, plus a month is 29 February 2024, 10:30 UTC.\<close>

theorem period_end_of_correct_witness:
  "period_end_of (Iso 1706697000000) Monthly = Some (Iso 1709202600000)"
proof -
  have y: "100 \<le> utc_year 1706697000000" by code_simp
  obtain e where "period_end_of (Iso 1706697000000) Monthly = Some (Iso e)"
    and "utc_year e * 12 + utc_month e = utc_year 1706697000000 * 12 + utc_month 1706697000000 + 1"
    using period_end_of_correct [OF y, of Monthly] by auto
  then show ?thesis by code_simp
qed

end
