(* ===== verification/Card_Transfer.thy ===== *)
theory Card_Transfer
  imports Prelude
begin

text \<open>
  Card-to-card top-ups (\<open>shared/cardTransfer.ts\<close>): the bank account shown to the payer and the
  checks run on it. Texts are lists of UTF-16 code units, since Persian and Arabic digits are read.
  A field that is neither text nor absent reaches these functions as the text \<open>String\<close> gives for it.
\<close>

type_synonym units = "nat list"

section \<open>Digits\<close>

definition unit_digit :: "nat \<Rightarrow> bool" where
  "unit_digit u \<longleftrightarrow> 48 \<le> u \<and> u \<le> 57"

definition unit_space :: "nat \<Rightarrow> bool" where
  "unit_space u \<longleftrightarrow>
     9 \<le> u \<and> u \<le> 13 \<or> u = 32 \<or> u = 160 \<or> u = 5760 \<or> 8192 \<le> u \<and> u \<le> 8202
     \<or> u = 8232 \<or> u = 8233 \<or> u = 8239 \<or> u = 8287 \<or> u = 12288 \<or> u = 65279"

definition latin_digit :: "nat \<Rightarrow> nat" where
  "latin_digit u =
     (if 1776 \<le> u \<and> u \<le> 1785 then u - 1776 + 48
      else if 1632 \<le> u \<and> u \<le> 1641 then u - 1632 + 48
      else u)"

definition latin_digits :: "units \<Rightarrow> units" where
  "latin_digits s = filter unit_digit (map latin_digit s)"

lemma latin_digit_id [simp]: "unit_digit u \<Longrightarrow> latin_digit u = u"
  by (simp add: unit_digit_def latin_digit_def)

lemma latin_digits_append: "latin_digits (s @ t) = latin_digits s @ latin_digits t"
  by (simp add: latin_digits_def)

lemma latin_digits_Nil [simp]: "latin_digits [] = []"
  by (simp add: latin_digits_def)

lemma latin_digits_id: "list_all unit_digit s \<Longrightarrow> latin_digits s = s"
  by (induction s) (auto simp: latin_digits_def)

lemma latin_digits_digits: "list_all unit_digit (latin_digits s)"
  by (auto simp: latin_digits_def list_all_iff)

section \<open>The Luhn checksum\<close>

definition luhn_double :: "nat \<Rightarrow> nat" where
  "luhn_double d = (if 9 < 2 * d then 2 * d - 9 else 2 * d)"

text \<open>The weighted sum over the digits from the last to the first; every second one is doubled.\<close>

fun luhn_sum :: "bool \<Rightarrow> units \<Rightarrow> nat" where
  "luhn_sum doubled [] = 0"
| "luhn_sum doubled (u # us) =
     (if doubled then luhn_double (u - 48) else u - 48) + luhn_sum (\<not> doubled) us"

definition luhn_valid :: "units \<Rightarrow> bool" where
  "luhn_valid digits \<longleftrightarrow>
     12 \<le> length digits \<and> length digits \<le> 19 \<and> list_all unit_digit digits
     \<and> luhn_sum False (rev digits) mod 10 = 0"

definition normalize_card_number :: "units \<Rightarrow> units option" where
  "normalize_card_number value =
     (let digits = latin_digits value
      in if length digits = 16 \<and> luhn_valid digits then Some digits else None)"

definition card_number :: "units \<Rightarrow> bool" where
  "card_number c \<longleftrightarrow> length c = 16 \<and> luhn_valid c"

definition luhn_term :: "bool \<Rightarrow> nat \<Rightarrow> nat" where
  "luhn_term doubled u = (if doubled then luhn_double (u - 48) else u - 48)"

lemma luhn_sum_append:
  "luhn_sum b (xs @ ys) = luhn_sum b xs + luhn_sum (b \<noteq> odd (length xs)) ys"
proof (induction xs arbitrary: b)
  case (Cons x xs)
  have "((\<not> b) \<noteq> odd (length xs)) = (b \<noteq> odd (length (x # xs)))" by auto
  with Cons [of "\<not> b"] show ?case by simp
qed simp

lemma luhn_term_less: "unit_digit u \<Longrightarrow> luhn_term b u < 10"
  by (auto simp: luhn_term_def luhn_double_def unit_digit_def)

lemma unit_digit_all:
  "list_all P [48, 49, 50, 51, 52, 53, 54, 55, 56, 57] \<Longrightarrow> unit_digit u \<Longrightarrow> P u"
proof -
  assume "list_all P [48, 49, 50, 51, 52, 53, 54, 55, 56, 57]" and "unit_digit u"
  moreover from this(2) have "u = 48 \<or> u = 49 \<or> u = 50 \<or> u = 51 \<or> u = 52 \<or> u = 53 \<or> u = 54
      \<or> u = 55 \<or> u = 56 \<or> u = 57"
    unfolding unit_digit_def by arith
  ultimately show "P u" by (elim disjE) simp_all
qed

lemma luhn_term_table:
  "list_all (\<lambda>a. list_all (\<lambda>b. luhn_term c a = luhn_term c b \<longrightarrow> a = b)
     [48, 49, 50, 51, 52, 53, 54, 55, 56, 57]) [48, 49, 50, 51, 52, 53, 54, 55, 56, 57]"
  by (cases c) (simp_all add: luhn_term_def luhn_double_def)

lemmas luhn_term_inj = unit_digit_all [OF unit_digit_all [OF luhn_term_table], THEN mp]

lemma luhn_single_error:
  assumes "unit_digit u" and "unit_digit v" and "u \<noteq> v"
    and "luhn_sum b (xs @ u # ys) mod 10 = 0" and "luhn_sum b (xs @ v # ys) mod 10 = 0"
  shows False
proof -
  let ?c = "b \<noteq> odd (length xs)"
  let ?S = "luhn_sum b xs + luhn_sum (\<not> ?c) ys"
  have "luhn_sum b (xs @ w # ys) = ?S + luhn_term ?c w" for w
    unfolding luhn_sum_append by (simp add: luhn_term_def)
  then have "luhn_term ?c u = luhn_term ?c v"
    using assms(4,5) mod_add_cancel_nat [of ?S "luhn_term ?c u" 10 "luhn_term ?c v"]
      luhn_term_less [OF assms(1)] luhn_term_less [OF assms(2)] by simp
  then show False using luhn_term_inj assms(1-3) by blast
qed

lemma luhn_pair_table:
  "list_all (\<lambda>a. list_all (\<lambda>b.
       (luhn_term False a + luhn_term True b) mod 10 = (luhn_term False b + luhn_term True a) mod 10
       \<longrightarrow> a = b \<or> (a = 48 \<and> b = 57) \<or> (a = 57 \<and> b = 48))
     [48, 49, 50, 51, 52, 53, 54, 55, 56, 57]) [48, 49, 50, 51, 52, 53, 54, 55, 56, 57]"
  by (simp add: luhn_term_def luhn_double_def)

lemmas luhn_pair = unit_digit_all [OF unit_digit_all [OF luhn_pair_table]]

lemma luhn_transposition:
  assumes "unit_digit u" and "unit_digit v" and "u \<noteq> v"
    and "\<not> (u = 48 \<and> v = 57)" and "\<not> (u = 57 \<and> v = 48)"
    and "luhn_sum b (xs @ u # v # ys) mod 10 = 0" and "luhn_sum b (xs @ v # u # ys) mod 10 = 0"
  shows False
proof -
  let ?c = "b \<noteq> odd (length xs)"
  let ?S = "luhn_sum b xs + luhn_sum ?c ys"
  have pair: "luhn_sum b (xs @ x # y # ys) = ?S + (luhn_term ?c x + luhn_term (\<not> ?c) y)" for x y
    unfolding luhn_sum_append by (simp add: luhn_term_def)
  have "(luhn_term ?c u + luhn_term (\<not> ?c) v) mod 10 = (luhn_term ?c v + luhn_term (\<not> ?c) u) mod 10"
    by (rule mod_add_cancel_nat [of ?S]) (simp only: assms(6,7) pair [symmetric])
  then have "(luhn_term False u + luhn_term True v) mod 10 = (luhn_term False v + luhn_term True u) mod 10
     \<or> (luhn_term False v + luhn_term True u) mod 10 = (luhn_term False u + luhn_term True v) mod 10"
    by (cases ?c) (simp_all add: add.commute)
  then show False using luhn_pair [OF assms(1,2)] assms(3-5) by auto
qed

section \<open>The IBAN check digits\<close>

definition unit_capital :: "nat \<Rightarrow> bool" where
  "unit_capital u \<longleftrightarrow> 65 \<le> u \<and> u \<le> 90"

text \<open>A letter counts as the two decimal digits of its place in the alphabet plus ten.\<close>

definition iban_step :: "nat \<Rightarrow> nat \<Rightarrow> nat" where
  "iban_step r u =
     (if unit_capital u
      then ((r * 10 + (u - 55) div 10) mod 97 * 10 + (u - 55) mod 10) mod 97
      else (r * 10 + (u - 48)) mod 97)"

definition iban_checksum_valid :: "units \<Rightarrow> bool" where
  "iban_checksum_valid iban \<longleftrightarrow> foldl iban_step 0 (drop 4 iban @ take 4 iban) = 1"

text \<open>Upper-casing beyond ASCII only touches letters, and every letter is dropped afterwards.\<close>

definition unit_upper :: "nat \<Rightarrow> nat" where
  "unit_upper u = (if 97 \<le> u \<and> u \<le> 122 then u - 32 else u)"

definition strip_ir :: "units \<Rightarrow> units" where
  "strip_ir s = (if take 2 s = [73, 82] then drop 2 s else s)"

definition normalize_iban :: "units \<Rightarrow> units option" where
  "normalize_iban value =
     (let raw = filter (\<lambda>u. \<not> unit_space u \<and> u \<noteq> 45) (map unit_upper value);
          digits = latin_digits (strip_ir raw);
          iban = [73, 82] @ digits
      in if length digits = 24 \<and> iban_checksum_valid iban then Some iban else None)"

definition ir_iban :: "units \<Rightarrow> bool" where
  "ir_iban s \<longleftrightarrow>
     (\<exists>ds. s = [73, 82] @ ds \<and> length ds = 24 \<and> list_all unit_digit ds \<and> iban_checksum_valid s)"

fun iban_value :: "units \<Rightarrow> nat" where
  "iban_value [] = 0"
| "iban_value (u # us) = (u - 48) * 10 ^ length us + iban_value us"

lemma iban_step_digit: "unit_digit u \<Longrightarrow> iban_step r u = (r * 10 + (u - 48)) mod 97"
  by (simp add: iban_step_def unit_capital_def unit_digit_def)

lemma iban_fold_digits:
  "list_all unit_digit ds \<Longrightarrow> foldl iban_step r ds mod 97 = (r * 10 ^ length ds + iban_value ds) mod 97"
proof (induction ds arbitrary: r)
  case (Cons d ds)
  then have "foldl iban_step r (d # ds) mod 97
      = ((r * 10 + (d - 48)) mod 97 * 10 ^ length ds + iban_value ds) mod 97"
    by (simp add: iban_step_digit)
  also have "\<dots> = ((r * 10 + (d - 48)) * 10 ^ length ds + iban_value ds) mod 97"
    by (rule mod_mult_add_left)
  finally show ?case by (simp add: algebra_simps)
qed simp

lemma iban_value_append:
  "iban_value (xs @ ys) = iban_value xs * 10 ^ length ys + iban_value ys"
  by (induction xs) (simp_all add: power_add algebra_simps)

lemma iban_fold_less: "r < 97 \<Longrightarrow> foldl iban_step r us < 97"
  by (induction us arbitrary: r) (auto simp: iban_step_def)

text \<open>An Iranian IBAN passes when its account digits, then 1827, then the check digits are 1 mod 97.\<close>

lemma iban_checksum_digits:
  assumes "length ds = 24" and "list_all unit_digit ds"
  shows "iban_checksum_valid ([73, 82] @ ds) \<longleftrightarrow>
    (iban_value (drop 2 ds) * 10 ^ 6 + 182700 + iban_value (take 2 ds)) mod 97 = 1"
proof -
  let ?a = "drop 2 ds" and ?b = "take 2 ds"
  have d: "list_all unit_digit ?a" "list_all unit_digit ?b"
    using assms(2) by (auto simp: list_all_iff dest: in_set_takeD in_set_dropD)
  let ?r = "foldl iban_step 0 ?a"
  have r: "?r mod 97 = iban_value ?a mod 97" using iban_fold_digits [OF d(1), of 0] by simp
  have letters: "foldl iban_step ?r [73, 82] mod 97 = (?r * 10 ^ 4 + 1827) mod 97"
  proof -
    have "foldl iban_step ?r [73, 82]
        = ((((?r * 10 + 1) mod 97 * 10 + 8) mod 97 * 10 + 2) mod 97 * 10 + 7) mod 97"
      by (simp add: iban_step_def unit_capital_def)
    then show ?thesis unfolding mod_mult_add_left by (simp add: algebra_simps)
  qed
  have "drop 4 ([73, 82] @ ds) @ take 4 ([73, 82] @ ds) = ?a @ [73, 82] @ ?b"
    by (simp add: numeral_eq_Suc)
  then have "foldl iban_step 0 (drop 4 ([73, 82] @ ds) @ take 4 ([73, 82] @ ds)) mod 97
      = (foldl iban_step ?r [73, 82] * 10 ^ 2 + iban_value ?b) mod 97"
    using iban_fold_digits [OF d(2)] assms(1) by simp
  also have "\<dots> = ((?r * 10 ^ 4 + 1827) * 10 ^ 2 + iban_value ?b) mod 97"
    using letters by (metis mod_mult_add_left)
  also have "\<dots> = ((iban_value ?a * 10 ^ 4 + 1827) * 10 ^ 2 + iban_value ?b) mod 97"
    using r by (metis mod_mult_add_left)
  finally have *: "foldl iban_step 0 (drop 4 ([73, 82] @ ds) @ take 4 ([73, 82] @ ds)) mod 97
      = (iban_value ?a * 10 ^ 6 + 182700 + iban_value ?b) mod 97"
    by (simp add: algebra_simps)
  have "foldl iban_step 0 (drop 4 ([73, 82] @ ds) @ take 4 ([73, 82] @ ds)) < 97"
    by (rule iban_fold_less) simp
  with * show ?thesis unfolding iban_checksum_valid_def by simp
qed

text \<open>The weight of a digit is a power of ten, so no change that 97 cannot divide goes unseen.\<close>

definition iban_number :: "units \<Rightarrow> nat" where
  "iban_number ds = iban_value (drop 2 ds) * 10 ^ 6 + 182700 + iban_value (take 2 ds)"

lemma iban_number_digit:
  "\<exists>C k. \<forall>u. iban_number (us @ u # vs) = C + (u - 48) * 10 ^ k"
proof -
  consider "us = []" | x where "us = [x]" | x y zs where "us = x # y # zs"
    by (cases us rule: remdups_adj.cases) auto
  then show ?thesis
  proof cases
    case 1
    show ?thesis
    proof (cases vs)
      case Nil
      with 1 have "\<forall>u. iban_number (us @ u # vs) = 182700 + (u - 48) * 10 ^ 0"
        by (simp add: iban_number_def)
      then show ?thesis by blast
    next
      case (Cons v ws)
      with 1 have "\<forall>u. iban_number (us @ u # vs)
          = iban_value ws * 10 ^ 6 + 182700 + (v - 48) + (u - 48) * 10 ^ 1"
        by (simp add: iban_number_def numeral_2_eq_2)
      then show ?thesis by blast
    qed
  next
    case 2
    then have "\<forall>u. iban_number (us @ u # vs)
        = iban_value vs * 10 ^ 6 + 182700 + (x - 48) * 10 + (u - 48) * 10 ^ 0"
      by (simp add: iban_number_def numeral_2_eq_2)
    then show ?thesis by blast
  next
    case 3
    then have "\<forall>u. iban_number (us @ u # vs)
        = (iban_value zs * 10 ^ Suc (length vs) + iban_value vs) * 10 ^ 6 + 182700
          + iban_value [x, y] + (u - 48) * 10 ^ (length vs + 6)"
      by (simp add: iban_number_def iban_value_append numeral_2_eq_2 power_add algebra_simps)
    then show ?thesis by blast
  qed
qed

lemma dvd_97_scaled: "(97 :: int) dvd x * 10 ^ k \<longleftrightarrow> 97 dvd x"
proof -
  have "coprime (97 :: int) 10"   proof (rule coprimeI)
    fix c :: int assume "c dvd 97" and "c dvd 10"
    then have "c dvd 3 * 97 - 29 * 10" by (intro dvd_diff dvd_mult)
    then show "is_unit c" by simp
  qed
  then have "coprime (97 :: int) (10 ^ k)" by simp
  then show ?thesis by (simp add: coprime_dvd_mult_left_iff)
qed

lemma iban_single_error:
  assumes "unit_digit u" and "unit_digit v"
    and "iban_number (us @ u # vs) mod 97 = iban_number (us @ v # vs) mod 97"
  shows "u = v"
proof -
  obtain C k where n: "\<And>u. iban_number (us @ u # vs) = C + (u - 48) * 10 ^ k"
    using iban_number_digit by blast
  have "(u - 48) * 10 ^ k mod 97 = (v - 48) * 10 ^ k mod 97"
    using assms(3) unfolding n by (rule mod_add_cancel_nat)
  then have "int ((u - 48) * 10 ^ k) mod 97 = int ((v - 48) * 10 ^ k) mod 97"
    by (metis of_nat_numeral zmod_int)
  then have "97 dvd int ((u - 48) * 10 ^ k) - int ((v - 48) * 10 ^ k)" by (simp add: mod_eq_dvd_iff)
  then have "97 dvd (int (u - 48) - int (v - 48)) * 10 ^ k" by (simp add: left_diff_distrib)
  then have "97 dvd int (u - 48) - int (v - 48)" unfolding dvd_97_scaled .
  moreover have "\<bar>int (u - 48) - int (v - 48)\<bar> \<le> 9" using assms(1,2) by (auto simp: unit_digit_def)
  ultimately have "int (u - 48) - int (v - 48) = 0"
    using dvd_imp_le_int [of "int (u - 48) - int (v - 48)" 97] by linarith
  then show "u = v" using assms(1,2) by (auto simp: unit_digit_def)
qed

section \<open>Formatting\<close>

text \<open>A space after every fourth character that another one follows, in runs of a class of characters.\<close>

fun space_groups :: "(nat \<Rightarrow> bool) \<Rightarrow> units \<Rightarrow> units" where
  "space_groups P (a # b # c # d # e # us) =
     (if P a \<and> P b \<and> P c \<and> P d \<and> P e then a # b # c # d # 32 # space_groups P (e # us)
      else a # space_groups P (b # c # d # e # us))"
| "space_groups P us = us"

definition line_terminator :: "nat \<Rightarrow> bool" where
  "line_terminator u \<longleftrightarrow> u \<in> {10, 13, 8232, 8233}"

definition format_card_number :: "units \<Rightarrow> units" where
  "format_card_number digits = space_groups unit_digit digits"

definition format_iban :: "units \<Rightarrow> units" where
  "format_iban iban = space_groups (\<lambda>u. \<not> line_terminator u) iban"

lemma latin_digits_Cons:
  "latin_digits (u # s) = (if unit_digit (latin_digit u) then latin_digit u # latin_digits s else latin_digits s)"
  by (simp add: latin_digits_def)

lemma latin_digits_32 [simp]: "\<not> unit_digit (latin_digit 32)"
  by (simp add: latin_digit_def unit_digit_def)

lemma latin_digits_space_groups: "latin_digits (space_groups P us) = latin_digits us"
  by (induction P us rule: space_groups.induct)
    (simp_all add: latin_digits_Cons del: latin_digit_id)

lemma unit_space_32 [simp]: "unit_space 32"
  by (simp add: unit_space_def)

lemma unit_upper_32 [simp]: "unit_upper 32 = 32"
  by (simp add: unit_upper_def)

lemma strip_space_groups:
  "filter (\<lambda>u. \<not> unit_space u \<and> u \<noteq> 45) (map unit_upper (space_groups P us))
   = filter (\<lambda>u. \<not> unit_space u \<and> u \<noteq> 45) (map unit_upper us)"
  by (induction P us rule: space_groups.induct) simp_all

lemma unit_digit_plain:
  "unit_digit u \<Longrightarrow> \<not> unit_space u \<and> u \<noteq> 45 \<and> unit_upper u = u"
  by (auto simp: unit_digit_def unit_space_def unit_upper_def)

lemma normalize_iban_wellformed: "normalize_iban s = Some v \<Longrightarrow> ir_iban v"
  using latin_digits_digits by (auto simp: normalize_iban_def Let_def ir_iban_def split: if_splits)

lemma iban_plain:
  assumes "list_all unit_digit ds"
  shows "filter (\<lambda>u. \<not> unit_space u \<and> u \<noteq> 45) (map unit_upper ([73, 82] @ ds)) = [73, 82] @ ds"
proof -
  have "map unit_upper ds = ds" and "filter (\<lambda>u. \<not> unit_space u \<and> u \<noteq> 45) ds = ds"
    using assms by (induction ds) (auto simp: unit_digit_plain)
  moreover have "unit_upper 73 = 73" "unit_upper 82 = 82" "\<not> unit_space 73" "\<not> unit_space 82"
    by (simp_all add: unit_upper_def unit_space_def)
  ultimately show ?thesis by simp
qed

lemma normalize_iban_id: "ir_iban v \<Longrightarrow> normalize_iban v = Some v"
proof -
  assume "ir_iban v"
  then obtain ds where v: "v = [73, 82] @ ds" "length ds = 24" "list_all unit_digit ds"
    "iban_checksum_valid v"
    by (auto simp: ir_iban_def)
  have "filter (\<lambda>u. \<not> unit_space u \<and> u \<noteq> 45) (map unit_upper v) = v"
    unfolding v(1) by (rule iban_plain [OF v(3)])
  then show "normalize_iban v = Some v"
    using v latin_digits_id [OF v(3)] by (simp add: normalize_iban_def strip_ir_def)
qed

lemma normalize_card_wellformed: "normalize_card_number s = Some v \<Longrightarrow> card_number v"
  by (auto simp: normalize_card_number_def card_number_def Let_def split: if_splits)

lemma normalize_card_id: "card_number v \<Longrightarrow> normalize_card_number v = Some v"
  using latin_digits_id [of v] by (simp add: normalize_card_number_def card_number_def luhn_valid_def)

text \<open>Both readers accept what the page shows: the formatted number reads back as the number.\<close>

interpretation card_reader: normalizer normalize_card_number format_card_number card_number
proof unfold_locales
  fix v assume "card_number v"
  then show "normalize_card_number (format_card_number v) = Some v"
    using normalize_card_id [of v]
    by (simp add: normalize_card_number_def format_card_number_def latin_digits_space_groups)
qed (rule normalize_card_wellformed)

interpretation iban_reader: normalizer normalize_iban format_iban ir_iban
proof unfold_locales
  fix v assume "ir_iban v"
  then show "normalize_iban (format_iban v) = Some v"
    using normalize_iban_id [of v]
    by (simp add: normalize_iban_def format_iban_def strip_space_groups)
qed (rule normalize_iban_wellformed)

section \<open>The settings\<close>

record card_transfer_settings =
  ct_enabled :: bool
  holder_name :: units
  ct_card_number :: units
  ct_iban :: units
  ct_bank :: units

text \<open>The bank's default name, Blu Bank in Persian.\<close>

definition EMPTY_CARD_TRANSFER :: card_transfer_settings where
  "EMPTY_CARD_TRANSFER =
     \<lparr>ct_enabled = False, holder_name = [], ct_card_number = [], ct_iban = [],
      ct_bank = [1576, 1604, 1608, 1576, 1575, 1606, 1705]\<rparr>"

text \<open>
  What was typed: \<open>raw_enabled\<close> is \<open>raw.enabled === true\<close>, and a field that is null or undefined is
  \<open>None\<close>. Input that is not an object has every field absent.
\<close>

record raw_card_transfer =
  raw_enabled :: bool
  raw_holder :: "units option"
  raw_card :: "units option"
  raw_iban :: "units option"
  raw_bank :: "units option"

datatype card_transfer_settings_problem =
    CARD_TRANSFER_HOLDER_INVALID
  | CARD_TRANSFER_CARD_INVALID
  | CARD_TRANSFER_IBAN_INVALID
  | CARD_TRANSFER_BANK_INVALID

definition or_empty :: "units option \<Rightarrow> units" where
  "or_empty x = (case x of None \<Rightarrow> [] | Some s \<Rightarrow> s)"

function collapse_spaces :: "units \<Rightarrow> units" where
  "collapse_spaces [] = []"
| "collapse_spaces (u # us) =
     (if unit_space u then 32 # collapse_spaces (dropWhile unit_space us) else u # collapse_spaces us)"
  by pat_completeness auto
termination
  by (relation "measure length") (auto simp: length_dropWhile_le less_Suc_eq_le)

definition unit_trim :: "units \<Rightarrow> units" where
  "unit_trim s = rev (dropWhile unit_space (rev (dropWhile unit_space s)))"

definition tidy_text :: "units \<Rightarrow> units" where
  "tidy_text s = unit_trim (collapse_spaces s)"

definition clean_card_field :: "units \<Rightarrow> units option" where
  "clean_card_field typed =
     (let card_raw = latin_digits typed
      in if card_raw \<noteq> [] then normalize_card_number card_raw else Some [])"

definition clean_iban_field :: "units \<Rightarrow> units option" where
  "clean_iban_field typed =
     (let iban_raw = unit_trim typed
      in if iban_raw \<noteq> [] then normalize_iban iban_raw else Some [])"

definition clean_bank_field :: "units \<Rightarrow> units" where
  "clean_bank_field typed =
     (let bank = tidy_text typed in if bank = [] then ct_bank EMPTY_CARD_TRANSFER else bank)"

definition clean_card_transfer_settings ::
  "raw_card_transfer \<Rightarrow> card_transfer_settings_problem + card_transfer_settings" where
  "clean_card_transfer_settings raw =
     (let on = raw_enabled raw;
          holder = tidy_text (or_empty (raw_holder raw));
          bank = clean_bank_field (or_empty (raw_bank raw));
          card = clean_card_field (or_empty (raw_card raw));
          iban = clean_iban_field (or_empty (raw_iban raw))
      in if 80 < length holder \<or> on \<and> length holder < 2 then Inl CARD_TRANSFER_HOLDER_INVALID
         else (case card of
                 None \<Rightarrow> Inl CARD_TRANSFER_CARD_INVALID
               | Some c \<Rightarrow>
                   if on \<and> c = [] then Inl CARD_TRANSFER_CARD_INVALID
                   else (case iban of
                           None \<Rightarrow> Inl CARD_TRANSFER_IBAN_INVALID
                         | Some ib \<Rightarrow>
                             if on \<and> ib = [] then Inl CARD_TRANSFER_IBAN_INVALID
                             else if 40 < length bank then Inl CARD_TRANSFER_BANK_INVALID
                             else Inr \<lparr>ct_enabled = on, holder_name = holder, ct_card_number = c,
                                       ct_iban = ib, ct_bank = bank\<rparr>)))"

definition read_card_transfer_settings :: "raw_card_transfer \<Rightarrow> card_transfer_settings" where
  "read_card_transfer_settings stored =
     (case clean_card_transfer_settings stored of Inl _ \<Rightarrow> EMPTY_CARD_TRANSFER | Inr v \<Rightarrow> v)"

definition card_transfer_ready :: "card_transfer_settings \<Rightarrow> bool" where
  "card_transfer_ready s \<longleftrightarrow>
     ct_enabled s \<and> 2 \<le> length (holder_name s) \<and> ct_card_number s \<noteq> [] \<and> ct_iban s \<noteq> []"

subsection \<open>Tidy text\<close>

definition tidy :: "units \<Rightarrow> bool" where
  "tidy s \<longleftrightarrow> successively (\<lambda>a b. \<not> (unit_space a \<and> unit_space b)) s
     \<and> (\<forall>u\<in>set s. unit_space u \<longrightarrow> u = 32)"

lemma tidy_suffix: "tidy (xs @ ys) \<Longrightarrow> tidy ys"
  by (auto simp: tidy_def successively_append_iff)

lemma tidy_dropWhile: "tidy s \<Longrightarrow> tidy (dropWhile P s)"
  by (metis takeWhile_dropWhile_id tidy_suffix)

lemma tidy_rev: "tidy (rev s) \<longleftrightarrow> tidy s"
proof -
  have "(\<lambda>a b. \<not> (unit_space b \<and> unit_space a)) = (\<lambda>a b. \<not> (unit_space a \<and> unit_space b))" by auto
  then show ?thesis unfolding tidy_def successively_rev set_rev by (simp only:)
qed

lemma collapse_first: "s \<noteq> [] \<Longrightarrow> collapse_spaces s \<noteq> [] \<and> (unit_space (hd (collapse_spaces s)) \<longleftrightarrow> unit_space (hd s))"
  by (cases s) auto

lemma tidy_Cons:
  "tidy (u # s) \<longleftrightarrow> (s = [] \<or> \<not> (unit_space u \<and> unit_space (hd s))) \<and> (unit_space u \<longrightarrow> u = 32) \<and> tidy s"
  by (cases s) (auto simp: tidy_def)

lemma tidy_collapse: "tidy (collapse_spaces s)"
proof (induction s rule: collapse_spaces.induct)
  case (2 u us)
  show ?case
  proof (cases "unit_space u")
    case True
    obtain t where t: "dropWhile unit_space us = t" by simp
    have "t = [] \<or> \<not> unit_space (hd t)"
      using hd_dropWhile unfolding t [symmetric] by blast
    then have "collapse_spaces (dropWhile unit_space us) = []
        \<or> \<not> unit_space (hd (collapse_spaces (dropWhile unit_space us)))"
      unfolding t using collapse_first [of t] by (cases "t = []") simp_all
    then show ?thesis using 2(1) [OF True] True by (simp add: tidy_Cons)
  qed (use 2 in \<open>simp add: tidy_Cons\<close>)
qed (simp add: tidy_def)

lemma collapse_tidy: "tidy s \<Longrightarrow> collapse_spaces s = s"
proof (induction s rule: collapse_spaces.induct)
  case (2 u us)
  show ?case
  proof (cases "unit_space u")
    case True
    have d: "dropWhile unit_space us = us"
      using 2(3) True by (cases us) (auto simp: tidy_Cons)
    have u: "u = 32" and t: "tidy us" using 2(3) True by (simp_all add: tidy_Cons)
    then show ?thesis using 2(1) [OF True] True by (simp add: d)
  qed (use 2 in \<open>simp add: tidy_Cons\<close>)
qed simp

lemma dropWhile_twice: "dropWhile P (dropWhile P s) = dropWhile P s"
  by (induction s) auto

lemma dropWhile_trimmed:
  assumes "t = [] \<or> \<not> P (hd t)"
  shows "dropWhile P (rev (dropWhile P (rev t))) = rev (dropWhile P (rev t))"
proof -
  obtain r where r: "rev (dropWhile P (rev t)) = r" by simp
  have "rev t = takeWhile P (rev t) @ dropWhile P (rev t)" by simp
  then have "t = r @ rev (takeWhile P (rev t))" unfolding r [symmetric] by (metis rev_append rev_rev_ident)
  then have "r = [] \<or> t \<noteq> [] \<and> hd r = hd t" by (metis append_is_Nil_conv hd_append)
  then show ?thesis unfolding r using assms by (cases r) auto
qed

lemma unit_trim_idem: "unit_trim (unit_trim s) = unit_trim s"
proof -
  have "dropWhile unit_space (unit_trim s) = unit_trim s"
    unfolding unit_trim_def using hd_dropWhile by (intro dropWhile_trimmed) blast
  then show ?thesis
    by (simp only: unit_trim_def [of "unit_trim s"]) (simp only: unit_trim_def rev_rev_ident dropWhile_twice)
qed

lemma tidy_text_idem [simp]: "tidy_text (tidy_text s) = tidy_text s"
proof -
  have "tidy (unit_trim (collapse_spaces s))"
    unfolding unit_trim_def tidy_rev
    by (intro tidy_dropWhile) (simp add: tidy_rev tidy_dropWhile tidy_collapse)
  then show ?thesis by (simp add: tidy_text_def collapse_tidy unit_trim_idem)
qed

subsection \<open>Reading and writing the settings\<close>

text \<open>What the settings hold when they were accepted, and how they are stored again.\<close>

definition settings_wellformed :: "card_transfer_settings \<Rightarrow> bool" where
  "settings_wellformed s \<longleftrightarrow>
     tidy_text (holder_name s) = holder_name s \<and> length (holder_name s) \<le> 80
     \<and> (ct_card_number s = [] \<or> card_number (ct_card_number s))
     \<and> (ct_iban s = [] \<or> ir_iban (ct_iban s))
     \<and> tidy_text (ct_bank s) = ct_bank s \<and> ct_bank s \<noteq> [] \<and> length (ct_bank s) \<le> 40
     \<and> (\<not> ct_enabled s
        \<or> 2 \<le> length (holder_name s) \<and> ct_card_number s \<noteq> [] \<and> ct_iban s \<noteq> [])"

definition stored_settings :: "card_transfer_settings \<Rightarrow> raw_card_transfer" where
  "stored_settings s =
     \<lparr>raw_enabled = ct_enabled s, raw_holder = Some (holder_name s),
      raw_card = Some (ct_card_number s), raw_iban = Some (ct_iban s), raw_bank = Some (ct_bank s)\<rparr>"

definition accepted_settings :: "raw_card_transfer \<Rightarrow> card_transfer_settings option" where
  "accepted_settings raw =
     (case clean_card_transfer_settings raw of Inl _ \<Rightarrow> None | Inr v \<Rightarrow> Some v)"

lemma tidy_default_bank [simp]:
  "tidy_text (ct_bank EMPTY_CARD_TRANSFER) = ct_bank EMPTY_CARD_TRANSFER"
  "ct_bank EMPTY_CARD_TRANSFER \<noteq> []"
  "length (ct_bank EMPTY_CARD_TRANSFER) \<le> 40"
  by (simp_all add: EMPTY_CARD_TRANSFER_def tidy_text_def unit_trim_def unit_space_def)

lemma unit_trim_digits:
  "ir_iban s \<Longrightarrow> unit_trim s = s"
proof -
  assume "ir_iban s"
  then obtain ds where s: "s = [73, 82] @ ds" "length ds = 24" "list_all unit_digit ds"
    by (auto simp: ir_iban_def)
  obtain d es where "ds = es @ [d]" using s(2) by (cases ds rule: rev_cases) auto
  moreover have "\<not> unit_space 73" by (simp add: unit_space_def)
  ultimately show "unit_trim s = s"
    using s unit_digit_plain [of d] by (simp add: unit_trim_def)
qed

lemma ir_iban_not_Nil: "ir_iban s \<Longrightarrow> s \<noteq> []"
  by (auto simp: ir_iban_def)

lemma card_number_digits: "card_number c \<Longrightarrow> latin_digits c = c \<and> c \<noteq> []"
  by (auto simp: card_number_def luhn_valid_def intro: latin_digits_id)

lemma clean_card_field_wellformed: "clean_card_field s = Some c \<Longrightarrow> c = [] \<or> card_number c"
  using normalize_card_wellformed by (auto simp: clean_card_field_def Let_def split: if_splits)

lemma clean_iban_field_wellformed: "clean_iban_field s = Some c \<Longrightarrow> c = [] \<or> ir_iban c"
  using normalize_iban_wellformed by (auto simp: clean_iban_field_def Let_def split: if_splits)

lemma clean_card_field_id: "c = [] \<or> card_number c \<Longrightarrow> clean_card_field c = Some c"
  using normalize_card_id card_number_digits [of c] by (auto simp: clean_card_field_def Let_def)

lemma clean_iban_field_id: "c = [] \<or> ir_iban c \<Longrightarrow> clean_iban_field c = Some c"
  by (elim disjE)
    (simp_all add: clean_iban_field_def Let_def unit_trim_digits normalize_iban_id ir_iban_not_Nil,
      simp add: unit_trim_def)

lemma clean_bank_field_tidy:
  "tidy_text (clean_bank_field s) = clean_bank_field s" "clean_bank_field s \<noteq> []"
  by (simp_all add: clean_bank_field_def Let_def)

lemma clean_bank_field_id: "tidy_text s = s \<Longrightarrow> s \<noteq> [] \<Longrightarrow> clean_bank_field s = s"
  by (simp add: clean_bank_field_def)

lemma clean_settings_Inr:
  assumes "clean_card_transfer_settings raw = Inr v"
  obtains c ib where "clean_card_field (or_empty (raw_card raw)) = Some c"
    and "clean_iban_field (or_empty (raw_iban raw)) = Some ib"
    and "v = \<lparr>ct_enabled = raw_enabled raw, holder_name = tidy_text (or_empty (raw_holder raw)),
              ct_card_number = c, ct_iban = ib, ct_bank = clean_bank_field (or_empty (raw_bank raw))\<rparr>"
    and "length (holder_name v) \<le> 80" and "length (ct_bank v) \<le> 40"
    and "\<not> ct_enabled v \<or> 2 \<le> length (holder_name v) \<and> c \<noteq> [] \<and> ib \<noteq> []"
  using assms unfolding clean_card_transfer_settings_def Let_def
  by (auto simp: not_less split: if_split_asm option.split_asm)

lemma clean_settings_wellformed:
  assumes "clean_card_transfer_settings raw = Inr v" shows "settings_wellformed v"
proof (rule clean_settings_Inr [OF assms])
  fix c ib
  assume c: "clean_card_field (or_empty (raw_card raw)) = Some c"
    and ib: "clean_iban_field (or_empty (raw_iban raw)) = Some ib"
    and v: "v = \<lparr>ct_enabled = raw_enabled raw, holder_name = tidy_text (or_empty (raw_holder raw)),
              ct_card_number = c, ct_iban = ib, ct_bank = clean_bank_field (or_empty (raw_bank raw))\<rparr>"
    and l: "length (holder_name v) \<le> 80" "length (ct_bank v) \<le> 40"
      "\<not> ct_enabled v \<or> 2 \<le> length (holder_name v) \<and> c \<noteq> [] \<and> ib \<noteq> []"
  show ?thesis
    using clean_card_field_wellformed [OF c] clean_iban_field_wellformed [OF ib] l
      clean_bank_field_tidy [of "or_empty (raw_bank raw)"]
    unfolding settings_wellformed_def by (simp add: v)
qed

lemma clean_stored_settings:
  assumes "settings_wellformed s" shows "clean_card_transfer_settings (stored_settings s) = Inr s"
proof -
  have f: "clean_card_field (ct_card_number s) = Some (ct_card_number s)"
    "clean_iban_field (ct_iban s) = Some (ct_iban s)" "clean_bank_field (ct_bank s) = ct_bank s"
    using assms clean_card_field_id clean_iban_field_id clean_bank_field_id
    unfolding settings_wellformed_def by blast+
  show ?thesis
    using assms f unfolding settings_wellformed_def
    by (auto simp: clean_card_transfer_settings_def stored_settings_def or_empty_def Let_def)
qed

interpretation settings_reader: normalizer accepted_settings stored_settings settings_wellformed
  by unfold_locales
    (auto simp: accepted_settings_def clean_stored_settings clean_settings_wellformed split: sum.splits)

section \<open>Properties\<close>

text \<open>The Luhn check catches every single mistyped digit of a card number, and every swap of two
  different neighbouring digits except 0 with 9.\<close>

theorem luhn_detects_errors:
  assumes "luhn_valid (us @ u # vs)" and "unit_digit w" and "w \<noteq> u"
  shows "\<not> luhn_valid (us @ w # vs)
    \<and> (\<forall>v ws. vs = v # ws \<and> u \<noteq> v \<and> {u, v} \<noteq> {48, 57} \<longrightarrow> \<not> luhn_valid (us @ v # u # ws))"
proof (intro conjI allI impI)
  have u: "unit_digit u" and sum: "luhn_sum False (rev vs @ u # rev us) mod 10 = 0"
    using assms(1) by (auto simp: luhn_valid_def)
  show "\<not> luhn_valid (us @ w # vs)"
    using luhn_single_error [OF u assms(2) assms(3) [symmetric] sum] by (auto simp: luhn_valid_def)
  fix v ws assume v: "vs = v # ws \<and> u \<noteq> v \<and> {u, v} \<noteq> {48, 57}"
  then have "unit_digit v" and s: "luhn_sum False (rev ws @ v # u # rev us) mod 10 = 0"
    using assms(1) sum by (auto simp: luhn_valid_def)
  show "\<not> luhn_valid (us @ v # u # ws)"
  proof
    assume "luhn_valid (us @ v # u # ws)"
    then have "luhn_sum False (rev ws @ u # v # rev us) mod 10 = 0" by (simp add: luhn_valid_def)
    then show False using luhn_transposition [OF \<open>unit_digit v\<close> u _ _ _ s] v by auto
  qed
qed

text \<open>The card number 6219861012345673 and its neighbour with the last digits swapped.\<close>

theorem luhn_detects_errors_witness:
  "luhn_valid [54, 50, 49, 57, 56, 54, 49, 48, 49, 50, 51, 52, 53, 54, 55, 51]
   \<and> \<not> luhn_valid [54, 50, 49, 57, 56, 54, 49, 48, 49, 50, 51, 52, 53, 54, 51, 55]"
proof -
  have v: "luhn_valid ([54, 50, 49, 57, 56, 54, 49, 48, 49, 50, 51, 52, 53, 54] @ 55 # [51])"
    by (simp add: luhn_valid_def unit_digit_def luhn_double_def)
  show ?thesis
    using luhn_detects_errors [OF v, of 48] v by (simp add: unit_digit_def doubleton_eq_iff)
qed

text \<open>The IBAN check catches every single mistyped digit of an Iranian IBAN.\<close>

theorem iban_detects_single_error:
  assumes "ir_iban ([73, 82] @ us @ u # vs)" and "unit_digit w" and "w \<noteq> u"
  shows "normalize_iban ([73, 82] @ us @ w # vs) = None"
proof (rule ccontr)
  let ?ds = "us @ u # vs" and ?es = "us @ w # vs"
  assume "normalize_iban ([73, 82] @ ?es) \<noteq> None"
  have d: "length ?ds = 24" "list_all unit_digit ?ds" "iban_checksum_valid ([73, 82] @ ?ds)"
    using assms(1) by (auto simp: ir_iban_def)
  have e: "length ?es = 24" "list_all unit_digit ?es" using d assms(2) by auto
  have "iban_checksum_valid ([73, 82] @ ?es)"
    using \<open>normalize_iban ([73, 82] @ ?es) \<noteq> None\<close> latin_digits_id [OF e(2)]
    unfolding normalize_iban_def iban_plain [OF e(2)] by (simp add: strip_ir_def Let_def split: if_splits)
  then have "iban_number ?es mod 97 = 1"
    using iban_checksum_digits [OF e] unfolding iban_number_def by blast
  moreover have "iban_number ?ds mod 97 = 1"
    using iban_checksum_digits [OF d(1,2)] d(3) unfolding iban_number_def by blast
  ultimately have same: "iban_number ?ds mod 97 = iban_number ?es mod 97" by (simp only:)
  have "unit_digit u" using d(2) by simp
  then have "u = w" using assms(2) same by (rule iban_single_error)
  then show False using assms(3) by simp
qed

theorem iban_detects_single_error_witness:
  "normalize_iban ([73, 82, 51, 50] @ [48, 54, 50, 48, 48, 48, 48, 48, 48, 48, 51, 48, 50, 56, 55, 54,
     49, 50, 56, 48, 48, 50]) = None"
proof -
  let ?us = "[51, 50, 48, 54, 50, 48, 48, 48, 48, 48, 48, 48, 51, 48, 50, 56, 55, 54, 49, 50, 56, 48, 48 :: nat]"
  have "ir_iban ([73, 82] @ ?us @ 49 # [])"
    by (simp add: ir_iban_def unit_digit_def iban_checksum_valid_def iban_step_def unit_capital_def)
  from iban_detects_single_error [OF this, of 50] show ?thesis by (simp add: unit_digit_def)
qed

text \<open>Settings that were accepted are stored and read back unchanged, an enabled method is complete
  (a holder, a valid card number and a valid IBAN), and the payer is shown the method exactly when it
  is enabled, whatever is stored.\<close>

theorem card_transfer_settings_stable:
  "settings_wellformed (read_card_transfer_settings raw)
   \<and> read_card_transfer_settings (stored_settings (read_card_transfer_settings raw))
       = read_card_transfer_settings raw
   \<and> card_transfer_ready (read_card_transfer_settings raw) = ct_enabled (read_card_transfer_settings raw)"
proof -
  have empty: "settings_wellformed EMPTY_CARD_TRANSFER"
    unfolding settings_wellformed_def by (simp add: EMPTY_CARD_TRANSFER_def [symmetric])
      (simp add: EMPTY_CARD_TRANSFER_def tidy_text_def unit_trim_def)
  have w: "settings_wellformed (read_card_transfer_settings raw)"
    unfolding read_card_transfer_settings_def
    using clean_settings_wellformed empty by (auto split: sum.split)
  have "card_transfer_ready v = ct_enabled v" if "settings_wellformed v" for v
    using that by (auto simp: settings_wellformed_def card_transfer_ready_def)
  with w show ?thesis
    using clean_stored_settings [OF w] by (simp add: read_card_transfer_settings_def [of "stored_settings _"])
qed

end
