(* ===== verification/Needs_Reply.thy ===== *)
theory Needs_Reply
  imports Enforcement_Cycle
begin

text \<open>
  Who waits for whom: which inbound message counts as a reply of the customer
  (\<open>server/services/conversationResumeEligibility.ts\<close>), which message answers one, whether the business owes an answer
  and since when (\<open>server/services/needsReply.ts\<close>), and the reading of an inactivity close (\<open>shared/inactivityClose.ts\<close>).
  The order of two times as texts (\<open>localeCompare\<close>) is a parameter.
\<close>

section \<open>A reply of the customer\<close>

record resume_candidate =
  rc_sender :: "string option"
  rc_inbound :: bool
  rc_text :: "string option"
  rc_attachments :: int
  rc_menu :: bool
  rc_note :: bool
  rc_system :: bool
  rc_echo :: bool

definition sender_text :: "string option \<Rightarrow> string" where "sender_text s = (case s of None \<Rightarrow> [] | Some t \<Rightarrow> t)"

definition CUSTOMER_SENDER_TYPES :: "string set" where "CUSTOMER_SENDER_TYPES = {''contact''}"

definition resume_eligibility :: "resume_candidate \<Rightarrow> bool \<times> string" where
  "resume_eligibility c =
     (if \<not> rc_inbound c then (False, ''not_inbound'')
      else if rc_echo c then (False, ''provider_echo'')
      else if sender_text (rc_sender c) \<notin> CUSTOMER_SENDER_TYPES then (False, ''sender_not_customer'')
      else if rc_note c then (False, ''internal_note'')
      else if rc_system c then (False, ''system_generated'')
      else if rc_menu c then (False, ''menu_navigation'')
      else if (case rc_text c of None \<Rightarrow> True | Some t \<Rightarrow> js_trim t = []) \<and> \<not> 0 < rc_attachments c then (False, ''empty_message'')
      else (True, ''customer_replied''))"

section \<open>Messages\<close>

record reply_message =
  rm_sender :: "string option"
  rm_body :: "string option"
  rm_created :: "string option"
  rm_meta :: jsval
  rm_attachments :: int

definition REPLY_SENDER_TYPES :: "string set" where "REPLY_SENDER_TYPES = {''agent'', ''ai''}"

text \<open>\<open>String(v ?? '')\<close>.\<close>

definition text_or_blank :: "jsval \<Rightarrow> string" where
  "text_or_blank v = (if nullish v then [] else js_text v)"

definition is_menu_event :: "reply_message \<Rightarrow> bool" where
  "is_menu_event m \<longleftrightarrow>
     text_or_blank (get_prop (rm_meta m) ''channel_menu_event'') = ''true'' \<or> truthy (get_prop (rm_meta m) ''channel_menu_command'')"

definition is_system_generated :: "reply_message \<Rightarrow> bool" where
  "is_system_generated m \<longleftrightarrow>
     sender_text (rm_sender m) = ''system'' \<or> (case get_prop (rm_meta m) ''routing_notice'' of JStr _ \<Rightarrow> True | _ \<Rightarrow> False)"

definition channel_attachment_count :: "reply_message \<Rightarrow> int" where
  "channel_attachment_count m = (case get_prop (rm_meta m) ''attachments'' of JArr xs \<Rightarrow> int (length xs) | _ \<Rightarrow> 0)"

definition has_content :: "reply_message \<Rightarrow> bool" where
  "has_content m \<longleftrightarrow>
     (case rm_body m of None \<Rightarrow> False | Some t \<Rightarrow> js_trim t \<noteq> []) \<or> 0 < rm_attachments m
     \<or> truthy (get_prop (rm_meta m) ''attachment_id'') \<or> 0 < channel_attachment_count m"

definition candidate_of :: "reply_message \<Rightarrow> resume_candidate" where
  "candidate_of m =
     \<lparr>rc_sender = rm_sender m, rc_inbound = True, rc_text = Some (case rm_body m of None \<Rightarrow> [] | Some t \<Rightarrow> t),
      rc_attachments = (if rm_attachments m \<noteq> 0 then rm_attachments m
                        else if truthy (get_prop (rm_meta m) ''attachment_id'') then 1 else channel_attachment_count m),
      rc_menu = is_menu_event m, rc_note = False, rc_system = is_system_generated m,
      rc_echo = (get_prop (rm_meta m) ''provider_echo'' = JBool True)\<rparr>"

definition is_actionable_customer_turn :: "reply_message \<Rightarrow> bool" where
  "is_actionable_customer_turn m = fst (resume_eligibility (candidate_of m))"

definition is_permanently_undelivered :: "reply_message \<Rightarrow> bool" where
  "is_permanently_undelivered m \<longleftrightarrow> text_or_blank (get_prop (rm_meta m) ''channel_delivery'') = ''failed''"

definition is_ai_handoff_line :: "reply_message \<Rightarrow> bool" where
  "is_ai_handoff_line m \<longleftrightarrow>
     sender_text (rm_sender m) = ''ai''
     \<and> (get_prop (rm_meta m) ''handoff'' = JBool True \<or> get_prop (rm_meta m) ''handoff'' = JStr ''true'')"

definition is_qualified_answer :: "reply_message \<Rightarrow> bool" where
  "is_qualified_answer m \<longleftrightarrow>
     sender_text (rm_sender m) \<in> REPLY_SENDER_TYPES \<and> \<not> is_system_generated m \<and> \<not> is_menu_event m
     \<and> text_or_blank (get_prop (rm_meta m) ''channel_delivery_skip'') \<noteq> ''true''
     \<and> \<not> is_permanently_undelivered m \<and> \<not> is_ai_handoff_line m \<and> has_content m"

section \<open>Whether an answer is owed\<close>

definition created_text :: "reply_message \<Rightarrow> string" where "created_text m = sender_text (rm_created m)"

text \<open>The newest first; messages of one time stay in the order they came in.\<close>

definition newest_first :: "(string \<Rightarrow> string \<Rightarrow> int) \<Rightarrow> reply_message list \<Rightarrow> reply_message list" where
  "newest_first cmp ms = js_sort (\<lambda>a b. cmp (created_text b) (created_text a)) ms"

fun owed :: "reply_message list \<Rightarrow> bool" where
  "owed [] = False"
| "owed (m # ms) = (if is_actionable_customer_turn m then True else if is_qualified_answer m then False else owed ms)"

definition compute_needs_reply :: "(string \<Rightarrow> string \<Rightarrow> int) \<Rightarrow> string option \<Rightarrow> reply_message list \<Rightarrow> bool" where
  "compute_needs_reply cmp status ms = (if sender_text status \<noteq> ''open'' then False else owed (newest_first cmp ms))"

fun oldest_turn :: "string option \<Rightarrow> reply_message list \<Rightarrow> string option" where
  "oldest_turn oldest [] = oldest"
| "oldest_turn oldest (m # ms) =
     (if is_qualified_answer m then oldest
      else oldest_turn (if is_actionable_customer_turn m \<and> created_text m \<noteq> [] then rm_created m else oldest) ms)"

definition compute_waiting_since :: "(string \<Rightarrow> string \<Rightarrow> int) \<Rightarrow> string option \<Rightarrow> reply_message list \<Rightarrow> string option" where
  "compute_waiting_since cmp status ms =
     (if compute_needs_reply cmp status ms then oldest_turn None (newest_first cmp ms) else None)"

section \<open>The inactivity close\<close>

definition INACTIVITY_CLOSE_MIN_HOURS :: int where "INACTIVITY_CLOSE_MIN_HOURS = 1"
definition INACTIVITY_CLOSE_MAX_HOURS :: int where "INACTIVITY_CLOSE_MAX_HOURS = 48"
definition INACTIVITY_CLOSE_DEFAULT_HOURS :: int where "INACTIVITY_CLOSE_DEFAULT_HOURS = 24"

definition INACTIVITY_CLOSE_RACE_GRACE_SECONDS :: int where "INACTIVITY_CLOSE_RACE_GRACE_SECONDS = 60"
definition INACTIVITY_CLOSE_CHANNEL_RACE_GRACE_SECONDS :: int where "INACTIVITY_CLOSE_CHANNEL_RACE_GRACE_SECONDS = 600"

definition CLOSED_KEYS :: "string list" where
  "CLOSED_KEYS =
     [''closed_reason'', ''closed_by'', ''closed_at'', ''closed_from'', ''closed_source'', ''closed_idle_hours'',
      ''closed_last_exchange_at'', ''closed_outcome'', ''closed_line_id'', ''closed_prev_stamps'']"

definition cleared_closed_markers :: "(string \<times> jsval) list" where
  "cleared_closed_markers = map (\<lambda>k. (k, Null)) CLOSED_KEYS"

definition operator_close_markers :: "string \<Rightarrow> string \<Rightarrow> (string \<times> jsval) list" where
  "operator_close_markers closed_at from_status =
     AList.update ''closed_from'' (JStr from_status) (AList.update ''closed_at'' (JStr closed_at)
       (AList.update ''closed_by'' (JStr ''agent'') (AList.update ''closed_reason'' (JStr ''operator'') cleared_closed_markers)))"

definition integer_or_null :: "jsval \<Rightarrow> int option" where
  "integer_or_null v =
     (if nullish v \<or> v = JStr [] \<or> (case v of JBool _ \<Rightarrow> True | _ \<Rightarrow> False) then None
      else (case to_number v of Fin q \<Rightarrow> Some (js_trunc q) | _ \<Rightarrow> None))"

definition clamp_hours :: "int \<Rightarrow> int" where
  "clamp_hours n = min INACTIVITY_CLOSE_MAX_HOURS (max INACTIVITY_CLOSE_MIN_HOURS n)"

definition effective_inactivity_close_hours :: "jsval \<Rightarrow> jsval \<Rightarrow> int" where
  "effective_inactivity_close_hours own platform =
     (case integer_or_null own of
        Some n \<Rightarrow> clamp_hours n
      | None \<Rightarrow> clamp_hours (case integer_or_null platform of Some n \<Rightarrow> n | None \<Rightarrow> INACTIVITY_CLOSE_DEFAULT_HOURS))"

datatype conversation_end = End_resolved | End_operator | End_inactive | End_inactive_after_resolve

definition conversation_end_of :: "string \<Rightarrow> jsval \<Rightarrow> conversation_end option" where
  "conversation_end_of status meta =
     (if status = ''resolved'' then Some End_resolved
      else if status \<noteq> ''closed'' then None
      else if get_prop meta ''closed_reason'' \<noteq> JStr ''inactivity'' then Some End_operator
      else if get_prop meta ''closed_from'' = JStr ''resolved'' then Some End_inactive_after_resolve
      else Some End_inactive)"

section \<open>A turn is one thing\<close>

lemma turn_exclusive: "is_actionable_customer_turn m \<Longrightarrow> \<not> is_qualified_answer m"
  by (auto simp: is_actionable_customer_turn_def resume_eligibility_def candidate_of_def is_qualified_answer_def
      CUSTOMER_SENDER_TYPES_def REPLY_SENDER_TYPES_def split: if_splits)

text \<open>What the customer is owed, message by message in the order of time.\<close>

definition next_owed :: "bool \<Rightarrow> reply_message \<Rightarrow> bool" where
  "next_owed w m = (if is_actionable_customer_turn m then True else if is_qualified_answer m then False else w)"

definition next_since :: "string option \<Rightarrow> reply_message \<Rightarrow> string option" where
  "next_since s m =
     (if is_qualified_answer m then None
      else if is_actionable_customer_turn m \<and> created_text m \<noteq> [] then (case s of None \<Rightarrow> rm_created m | Some t \<Rightarrow> Some t) else s)"

lemma owed_rev: "owed (rev ms) = foldl next_owed False ms"
  by (induction ms rule: rev_induct) (simp_all add: next_owed_def)


text \<open>Sorting a list whose order is strict gives that list back, from whatever permutation it comes.\<close>

definition strictly_by :: "('a \<Rightarrow> 'a \<Rightarrow> int) \<Rightarrow> 'a list \<Rightarrow> bool" where
  "strictly_by cmp = sorted_wrt (\<lambda>a b. cmp a b < 0 \<and> 0 < cmp b a)"

lemma insert_by_middle:
  assumes "\<And>y. y \<in> set ys \<Longrightarrow> 0 < cmp x y" and "\<And>z. z \<in> set zs \<Longrightarrow> cmp x z < 0"
  shows "insert_by cmp x (ys @ zs) = ys @ x # zs"
  using assms(1)
proof (induction ys)
  case Nil
  show ?case
  proof (cases zs)
    case (Cons z rest)
    thus ?thesis using assms(2) [of z] by simp
  qed simp
next
  case (Cons y ys)
  have "0 < cmp x y" using Cons.prems [of y] by simp
  moreover have "insert_by cmp x (ys @ zs) = ys @ x # zs" using Cons.prems by (intro Cons.IH) simp
  ultimately show ?case by simp
qed

lemma strictly_by_distinct: "strictly_by cmp xs \<Longrightarrow> distinct xs"
  unfolding strictly_by_def by (induction xs) (auto dest: less_asym)

lemma js_sort_strict: "strictly_by cmp ys \<Longrightarrow> mset xs = mset ys \<Longrightarrow> js_sort cmp xs = ys"
proof (induction xs arbitrary: ys)
  case Nil thus ?case by (simp add: js_sort_def)
next
  case (Cons x xs)
  have "x \<in> set ys" using Cons.prems(2) by (metis list.set_intros(1) set_mset_mset)
  then obtain us vs where ys: "ys = us @ x # vs" by (meson split_list)
  have "strictly_by cmp (us @ vs)" "mset xs = mset (us @ vs)"
    using Cons.prems by (simp_all add: ys strictly_by_def sorted_wrt_append)
  hence "js_sort cmp xs = us @ vs" by (rule Cons.IH)
  moreover have "insert_by cmp x (us @ vs) = us @ x # vs"
    using Cons.prems(1) by (intro insert_by_middle) (auto simp: ys strictly_by_def sorted_wrt_append)
  ultimately show ?case by (simp add: ys js_sort_def)
qed

definition chronological :: "(string \<Rightarrow> string \<Rightarrow> int) \<Rightarrow> reply_message list \<Rightarrow> bool" where
  "chronological cmp = strictly_by (\<lambda>a b. cmp (created_text a) (created_text b))"

lemma newest_first_rev:
  assumes "chronological cmp ms" and "mset msgs = mset ms"
  shows "newest_first cmp msgs = rev ms"
  unfolding newest_first_def
proof (rule js_sort_strict)
  show "strictly_by (\<lambda>a b. cmp (created_text b) (created_text a)) (rev ms)"
    using assms(1) unfolding chronological_def strictly_by_def
    by (auto simp: sorted_wrt_rev elim!: sorted_wrt_mono_rel [rotated])
  show "mset msgs = mset (rev ms)" using assms(2) by simp
qed

text \<open>The oldest turn kept by the walk from the newest to the oldest is the first turn of the streak.\<close>

lemma oldest_turn_or:
  "oldest_turn s ms = (case oldest_turn None ms of None \<Rightarrow> s | Some t \<Rightarrow> Some t)"
proof (induction ms arbitrary: s)
  case (Cons m ms)
  have created: "created_text m \<noteq> [] \<Longrightarrow> \<exists>t. rm_created m = Some t"
    by (cases "rm_created m") (auto simp: created_text_def sender_text_def)
  show ?case
  proof (cases "is_actionable_customer_turn m \<and> created_text m \<noteq> []")
    case True
    then obtain t where "rm_created m = Some t" using created by blast
    thus ?thesis using True Cons.IH [of "Some t"] by (auto simp: turn_exclusive split: option.splits)
  next
    case False thus ?thesis using Cons.IH [of s] by auto
  qed
qed simp

lemma oldest_turn_rev: "oldest_turn None (rev ms) = foldl next_since None ms"
proof (induction ms rule: rev_induct)
  case (snoc m ms)
  show ?case
    using snoc by (auto simp: next_since_def oldest_turn_or [of "rm_created m"] split: option.splits)
qed simp

lemma since_only_owed: "\<not> foldl next_owed False ms \<Longrightarrow> foldl next_since None ms = None"
proof (induction ms rule: rev_induct)
  case (snoc m ms)
  thus ?case by (auto simp: next_owed_def next_since_def turn_exclusive split: if_splits)
qed simp


lemma turns_leave_since: "foldl next_owed False ms \<Longrightarrow> \<forall>m \<in> set ms. created_text m \<noteq> [] \<Longrightarrow> \<exists>t. foldl next_since None ms = Some t"
proof (induction ms rule: rev_induct)
  case (snoc m ms)
  obtain t where t: "rm_created m = Some t"
    using snoc.prems(2) by (cases "rm_created m") (auto simp: created_text_def sender_text_def)
  show ?case
    using snoc t by (auto simp: next_owed_def next_since_def turn_exclusive split: if_splits option.splits)
qed simp

section \<open>The walk from the newest message and the history\<close>

text \<open>C30: An open conversation owes an answer exactly when the history of its messages, read from the oldest to the
  newest (every real turn of the customer opens the debt, every qualified answer clears it, everything else leaves it), ends
  in debt, and it has waited since the first turn after the last answer: the walk back from the newest message, over the
  messages in whatever order they come, agrees with the history, whose times are compared by the order given. Outside
  open nothing is owed, and nobody waits where nothing is owed; where something is owed and every message has its time,
  the waiting has a start.\<close>

theorem needs_reply_equals_history:
  assumes "chronological cmp ms" and "mset msgs = mset ms"
  shows "(compute_needs_reply cmp status msgs \<longleftrightarrow> sender_text status = ''open'' \<and> foldl next_owed False ms)
    \<and> compute_waiting_since cmp status msgs = (if sender_text status = ''open'' then foldl next_since None ms else None)
    \<and> (compute_needs_reply cmp status msgs \<and> (\<forall>m \<in> set ms. created_text m \<noteq> []) \<longrightarrow>
        (\<exists>t. compute_waiting_since cmp status msgs = Some t))"
proof -
  note order = newest_first_rev [OF assms]
  have needs: "compute_needs_reply cmp status msgs \<longleftrightarrow> sender_text status = ''open'' \<and> foldl next_owed False ms"
    by (simp add: compute_needs_reply_def order owed_rev)
  have since: "compute_waiting_since cmp status msgs = (if sender_text status = ''open'' then foldl next_since None ms else None)"
    by (simp add: compute_waiting_since_def needs order oldest_turn_rev since_only_owed)
  show ?thesis using needs since turns_leave_since [of ms] by simp
qed

definition sample_message :: "string \<Rightarrow> string \<Rightarrow> string \<Rightarrow> reply_message" where
  "sample_message who words time =
     \<lparr>rm_sender = Some who, rm_body = Some words, rm_created = Some time, rm_meta = JObj [], rm_attachments = 0\<rparr>"

definition by_length :: "string \<Rightarrow> string \<Rightarrow> int" where
  "by_length a b = int (length a) - int (length b)"

definition sample_history :: "reply_message list" where
  "sample_history =
     [sample_message ''contact'' ''hello'' ''1'', sample_message ''agent'' ''hi'' ''11'', sample_message ''contact'' ''when'' ''111'',
      sample_message ''bot'' ''menu'' ''1111'', sample_message ''contact'' ''today'' ''11111'']"

lemma needs_reply_equals_history_witness:
  "chronological by_length sample_history \<and> mset (rev sample_history) = mset sample_history
   \<and> (compute_needs_reply by_length (Some ''open'') (rev sample_history) \<longleftrightarrow> foldl next_owed False sample_history)
   \<and> compute_waiting_since by_length (Some ''open'') (rev sample_history) = foldl next_since None sample_history
   \<and> foldl next_owed False sample_history \<and> foldl next_since None sample_history = Some ''111''
   \<and> (\<exists>t. compute_waiting_since by_length (Some ''open'') (rev sample_history) = Some t)"
proof -
  have c: "chronological by_length sample_history"
    by (simp add: chronological_def strictly_by_def by_length_def sample_history_def sample_message_def created_text_def sender_text_def)
  have m: "mset (rev sample_history) = mset sample_history" by simp
  have owing: "foldl next_owed False sample_history" by code_simp
  have s: "foldl next_since None sample_history = Some ''111''" by code_simp
  have a: "\<forall>m \<in> set sample_history. created_text m \<noteq> []"
    by (simp add: sample_history_def sample_message_def created_text_def sender_text_def)
  note h = needs_reply_equals_history [OF c m]
  have opened: "sender_text (Some ''open'') = ''open''" by (simp add: sender_text_def)
  have n: "compute_needs_reply by_length (Some ''open'') (rev sample_history)" using h opened owing by blast
  show ?thesis using c m h [of "Some ''open''"] opened owing s n a by simp
qed

end
