(* ===== verification/Conversation_Lifecycle.thy ===== *)
theory Conversation_Lifecycle
  imports Needs_Reply
begin

text \<open>
  The state of a conversation under the messages of both sides: the inbound lifecycle
  (\<open>server/services/conversationLifecycle.ts\<close>, \<open>conversationPending.ts\<close>), the merge of metadata
  (\<open>conversationMetadata.ts\<close>), the action that follows an operator's message (\<open>conversationPostSend.ts\<close> with the SQL
  function of \<open>database/migrations/070_post_send_action_guards.sql\<close>) and the reading of a raced inactivity close
  (\<open>idleCloseRace.ts\<close>). The tables are maps and lists; how the database answers is an argument of each operation.
\<close>

section \<open>The tables\<close>

type_synonym metadata = "string \<rightharpoonup> jsval"

record conversation =
  cv_workspace :: string
  cv_status :: string
  cv_meta :: metadata
  cv_updated :: int

record message_row =
  mr_id :: string
  mr_conversation :: string
  mr_sender :: "string option"
  mr_created :: int
  mr_candidate :: resume_candidate

record timeline_event =
  te_conversation :: string
  te_type :: string
  te_actor :: string
  te_from :: string
  te_to :: string
  te_reason :: string

record inbox_store =
  conversations :: "string \<rightharpoonup> conversation"
  message_rows :: "message_row list"
  timeline :: "timeline_event list"
  skip_resets :: "string list"

text \<open>What a statement comes back with.\<close>

datatype answer = Answers | Errors | Throws

definition of_workspace :: "string \<Rightarrow> string option \<Rightarrow> inbox_store \<Rightarrow> conversation option" where
  "of_workspace cid ws st =
     (case conversations st cid of
        None \<Rightarrow> None
      | Some c \<Rightarrow> (case ws of None \<Rightarrow> Some c | Some w \<Rightarrow> if cv_workspace c = w then Some c else None))"

definition write_conversation :: "string \<Rightarrow> conversation \<Rightarrow> inbox_store \<Rightarrow> inbox_store" where
  "write_conversation cid c st = st\<lparr>conversations := (conversations st)(cid \<mapsto> c)\<rparr>"

definition log_event :: "timeline_event \<Rightarrow> inbox_store \<Rightarrow> inbox_store" where
  "log_event e st = st\<lparr>timeline := timeline st @ [e]\<rparr>"

section \<open>The merge of metadata\<close>

definition patch_rpc :: "string \<Rightarrow> string option \<Rightarrow> metadata \<Rightarrow> int \<Rightarrow> inbox_store \<Rightarrow> bool \<times> inbox_store" where
  "patch_rpc cid ws patch now st =
     (case of_workspace cid ws st of
        None \<Rightarrow> (False, st)
      | Some c \<Rightarrow> (True, write_conversation cid (c\<lparr>cv_meta := cv_meta c ++ patch, cv_updated := now\<rparr>) st))"

definition read_meta :: "string \<Rightarrow> inbox_store \<Rightarrow> metadata option" where
  "read_meta cid st = map_option cv_meta (conversations st cid)"

definition write_meta :: "string \<Rightarrow> string option \<Rightarrow> metadata \<Rightarrow> inbox_store \<Rightarrow> inbox_store" where
  "write_meta cid ws meta st =
     (case of_workspace cid ws st of None \<Rightarrow> st | Some c \<Rightarrow> write_conversation cid (c\<lparr>cv_meta := meta\<rparr>) st)"

definition patch_conversation_metadata ::
    "answer \<Rightarrow> answer \<Rightarrow> string \<Rightarrow> metadata \<Rightarrow> string option \<Rightarrow> int \<Rightarrow> inbox_store \<Rightarrow> bool \<times> inbox_store" where
  "patch_conversation_metadata rpc upd cid patch ws now st =
     (if cid = [] then (False, st)
      else case rpc of
        Answers \<Rightarrow> patch_rpc cid (if ws = Some [] then None else ws) patch now st
      | Throws \<Rightarrow> (False, st)
      | Errors \<Rightarrow>
          (case read_meta cid st of
             None \<Rightarrow> (False, st)
           | Some old \<Rightarrow>
               (case upd of
                  Answers \<Rightarrow> (True, write_meta cid (if ws = Some [] then None else ws) (old ++ patch) st)
                | _ \<Rightarrow> (False, st))))"

section \<open>The end of a thread\<close>

definition thread_end_patch :: "string \<Rightarrow> metadata" where
  "thread_end_patch now = map_of
     [(''ai_state'', Null), (''managed_by_ai'', JBool False), (''ai_managed_by_ai'', JBool False),
      (''ai_handoff_requested'', JBool False), (''ai_handoff_reason'', Null), (''ai_handoff_sent'', JBool False),
      (''human_takeover_at'', Null), (''human_takeover_by'', Null), (''human_takeover_reason'', Null),
      (''routing_pending'', JBool False), (''routing_department_only'', Null),
      (''ai_thread_reset_at'', JStr now), (''routing_thread_ended_at'', JStr now)]"

text \<open>The instant as a number and as the text of \<open>toISOString\<close>.\<close>

type_synonym instant = "int \<times> string"

definition end_conversation_thread ::
    "answer \<Rightarrow> answer \<Rightarrow> answer \<Rightarrow> string \<Rightarrow> string \<Rightarrow> instant \<Rightarrow> inbox_store \<Rightarrow> inbox_store" where
  "end_conversation_thread rpc upd skip ws cid now st =
     (let st' = snd (patch_conversation_metadata rpc upd cid (thread_end_patch (snd now)) (Some ws) (fst now) st)
      in if skip = Answers then st'\<lparr>skip_resets := skip_resets st' @ [cid]\<rparr> else st')"

definition continue_conversation_thread ::
    "answer \<Rightarrow> answer \<Rightarrow> string \<Rightarrow> string \<Rightarrow> instant \<Rightarrow> inbox_store \<Rightarrow> inbox_store" where
  "continue_conversation_thread rpc upd ws cid now st =
     snd (patch_conversation_metadata rpc upd cid [''routing_thread_ended_at'' \<mapsto> Null] (Some ws) (fst now) st)"

section \<open>The inbound lifecycle\<close>

definition INBOUND_REUSABLE_STATUSES :: "string list" where
  "INBOUND_REUSABLE_STATUSES = [''open'', ''pending'', ''resolved'']"

datatype lifecycle_decision = Reuse | Resume_pending | Reopen_resolved | Create_new_after_closed

definition decide_inbound_lifecycle :: "string option \<Rightarrow> lifecycle_decision" where
  "decide_inbound_lifecycle status =
     (if sender_text status = ''pending'' then Resume_pending
      else if sender_text status = ''resolved'' then Reopen_resolved
      else if sender_text status = ''closed'' then Create_new_after_closed
      else Reuse)"

text \<open>The conditional update of a status: the row, in the workspace, while it still has the status expected.\<close>

definition swap_status ::
    "string \<Rightarrow> string \<Rightarrow> string list \<Rightarrow> string \<Rightarrow> int \<Rightarrow> inbox_store \<Rightarrow> (conversation \<times> inbox_store) option" where
  "swap_status cid ws from_statuses to now st =
     (case of_workspace cid (Some ws) st of
        None \<Rightarrow> None
      | Some c \<Rightarrow>
          if cv_status c \<in> set from_statuses
          then let c' = c\<lparr>cv_status := to, cv_updated := now\<rparr> in Some (c', write_conversation cid c' st)
          else None)"

record lifecycle_input =
  li_workspace :: string
  li_conversation :: string
  li_message :: resume_candidate

definition visitor_event :: "string \<Rightarrow> string \<Rightarrow> string \<Rightarrow> string \<Rightarrow> timeline_event" where
  "visitor_event cid type was reason =
     \<lparr>te_conversation = cid, te_type = type, te_actor = ''visitor'', te_from = was, te_to = ''open'', te_reason = reason\<rparr>"

definition resume_conversation_if_pending ::
    "answer \<Rightarrow> lifecycle_input \<Rightarrow> instant \<Rightarrow> inbox_store \<Rightarrow> (bool \<times> string) \<times> inbox_store" where
  "resume_conversation_if_pending db p now st =
     (if li_workspace p = [] \<or> li_conversation p = [] then ((False, ''missing_ids''), st)
      else let (ok, why) = resume_eligibility (li_message p) in
      if \<not> ok then ((False, why), st)
      else case db of
        Throws \<Rightarrow> ((False, ''error''), st)
      | Errors \<Rightarrow> ((False, ''not_pending''), st)
      | Answers \<Rightarrow>
          (case swap_status (li_conversation p) (li_workspace p) [''pending''] ''open'' (fst now) st of
             None \<Rightarrow> ((False, ''not_pending''), st)
           | Some (_, st') \<Rightarrow>
               ((True, ''customer_replied''),
                log_event (visitor_event (li_conversation p) ''status_changed'' ''pending'' ''customer_replied'') st')))"

definition ai_reset_patch :: "string \<Rightarrow> metadata" where
  "ai_reset_patch now = (thread_end_patch now)(''routing_thread_ended_at'' := None)"

definition has_reset_stamp :: "conversation \<Rightarrow> bool" where
  "has_reset_stamp c \<longleftrightarrow> (case cv_meta c ''ai_thread_reset_at'' of Some (JStr _) \<Rightarrow> True | _ \<Rightarrow> False)"

definition reopen_conversation_if_resolved ::
    "answer \<Rightarrow> answer \<Rightarrow> answer \<Rightarrow> lifecycle_input \<Rightarrow> instant \<Rightarrow> inbox_store \<Rightarrow> (bool \<times> string) \<times> inbox_store" where
  "reopen_conversation_if_resolved db rpc upd p now st =
     (if li_workspace p = [] \<or> li_conversation p = [] then ((False, ''missing_ids''), st)
      else let (ok, why) = resume_eligibility (li_message p) in
      if \<not> ok then ((False, why), st)
      else case db of
        Throws \<Rightarrow> ((False, ''error''), st)
      | Errors \<Rightarrow> ((False, ''not_resolved''), st)
      | Answers \<Rightarrow>
          (case swap_status (li_conversation p) (li_workspace p) [''resolved''] ''open'' (fst now) st of
             None \<Rightarrow> ((False, ''not_resolved''), st)
           | Some (c, st1) \<Rightarrow>
               let st2 = (if has_reset_stamp c then st1
                          else snd (patch_conversation_metadata rpc upd (li_conversation p) (ai_reset_patch (snd now))
                                      (Some (li_workspace p)) (fst now) st1))
               in ((True, ''customer_replied_after_resolution''),
                   log_event (visitor_event (li_conversation p) ''reopened'' ''resolved'' ''customer_replied_after_resolution'') st2)))"

datatype transition = Resumed_pending | Reopened_resolved | No_transition

text \<open>How the three statements of the lifecycle answer.\<close>

record lifecycle_db =
  resume_db :: answer
  reopen_db :: answer
  rpc_db :: answer
  update_db :: answer

datatype 'a stage = Over 'a | Goes_on

text \<open>The part up to the first helper, and the whole.\<close>

definition lifecycle_first ::
    "lifecycle_db \<Rightarrow> lifecycle_input \<Rightarrow> string option \<Rightarrow> instant \<Rightarrow> inbox_store \<Rightarrow> (transition \<times> string) stage \<times> inbox_store" where
  "lifecycle_first db p known now st =
     (if known \<noteq> None \<and> known \<noteq> Some ''pending'' \<and> known \<noteq> Some ''resolved'' then (Over (No_transition, ''not_resolved''), st)
      else if known = None \<or> known = Some ''pending'' then
        (let ((resumed, why), st') = resume_conversation_if_pending (resume_db db) p now st
         in if resumed then (Over (Resumed_pending, why), st')
            else if known = Some ''pending'' then (Over (No_transition, why), st')
            else (Goes_on, st'))
      else (Goes_on, st))"

definition lifecycle_second ::
    "lifecycle_db \<Rightarrow> lifecycle_input \<Rightarrow> instant \<Rightarrow> inbox_store \<Rightarrow> (transition \<times> string) \<times> inbox_store" where
  "lifecycle_second db p now st =
     (let ((reopened, why), st') = reopen_conversation_if_resolved (reopen_db db) (rpc_db db) (update_db db) p now st
      in ((if reopened then Reopened_resolved else No_transition, why), st'))"

definition apply_inbound_lifecycle ::
    "lifecycle_db \<Rightarrow> lifecycle_input \<Rightarrow> string option \<Rightarrow> instant \<Rightarrow> inbox_store \<Rightarrow> (transition \<times> string) \<times> inbox_store" where
  "apply_inbound_lifecycle db p known now st =
     (case lifecycle_first db p known now st of
        (Over r, st') \<Rightarrow> (r, st')
      | (Goes_on, st') \<Rightarrow> lifecycle_second db p now st')"

section \<open>A raced inactivity close\<close>

text \<open>The row as its status and metadata; the reading of a time (\<open>Date.parse\<close>) is a parameter.\<close>

definition just_closed_for_inactivity ::
    "(string \<Rightarrow> int option) \<Rightarrow> (jsval \<times> jsval) option \<Rightarrow> int \<Rightarrow> int \<Rightarrow> bool" where
  "just_closed_for_inactivity parse row now grace =
     (case row of
        None \<Rightarrow> False
      | Some (status, meta) \<Rightarrow>
          if status \<noteq> JStr ''closed'' then False
          else if get_prop meta ''closed_reason'' \<noteq> JStr ''inactivity'' then False
          else case get_prop meta ''closed_at'' of
            JStr t \<Rightarrow> (case parse t of None \<Rightarrow> False | Some t0 \<Rightarrow> now - t0 \<le> grace * 1000)
          | _ \<Rightarrow> False)"

section \<open>The lifecycle of a message\<close>

text \<open>The input of the lifecycle of a message.\<close>

definition input_of :: "string \<Rightarrow> string \<Rightarrow> message_row \<Rightarrow> lifecycle_input" where
  "input_of ws cid m = \<lparr>li_workspace = ws, li_conversation = cid, li_message = mr_candidate m\<rparr>"

definition statements_answer :: "lifecycle_db \<Rightarrow> bool" where
  "statements_answer db \<longleftrightarrow> resume_db db = Answers \<and> reopen_db db = Answers"

section \<open>What an operation leaves of the rows and the status\<close>

definition seen :: "string \<Rightarrow> inbox_store \<Rightarrow> message_row list \<times> (string \<times> string) option" where
  "seen cid st = (message_rows st, map_option (\<lambda>c. (cv_workspace c, cv_status c)) (conversations st cid))"

lemma seen_write [simp]:
  "seen cid (write_conversation k c st) = (message_rows st, if k = cid then Some (cv_workspace c, cv_status c) else snd (seen cid st))"
  by (simp add: seen_def write_conversation_def)

lemma seen_log [simp]: "seen cid (log_event e st) = seen cid st"
  by (simp add: seen_def log_event_def)

lemma of_workspace_seen: "of_workspace cid ws st = Some c \<Longrightarrow> seen cid st = (message_rows st, Some (cv_workspace c, cv_status c))"
  by (auto simp: of_workspace_def seen_def split: option.splits if_splits)

lemma of_workspace_found:
  "snd (seen cid st) = Some (ws, s) \<Longrightarrow> \<exists>c. of_workspace cid (Some ws) st = Some c \<and> cv_workspace c = ws \<and> cv_status c = s"
  by (auto simp: of_workspace_def seen_def)

lemma seen_patch_rpc [simp]: "seen cid (snd (patch_rpc k ws patch now st)) = seen cid st"
  by (auto simp: patch_rpc_def of_workspace_def seen_def write_conversation_def split: option.splits if_splits)

lemma seen_write_meta [simp]: "seen cid (write_meta k ws meta st) = seen cid st"
  by (auto simp: write_meta_def of_workspace_def seen_def write_conversation_def split: option.splits if_splits)

lemma seen_patch [simp]: "seen cid (snd (patch_conversation_metadata rpc upd k patch ws now st)) = seen cid st"
  by (simp add: patch_conversation_metadata_def split: answer.split option.split)

lemma seen_end [simp]: "seen cid (end_conversation_thread rpc upd skip ws k now st) = seen cid st"
proof -
  have "seen cid (st'\<lparr>skip_resets := x\<rparr>) = seen cid st'" for st' x by (simp add: seen_def)
  thus ?thesis by (simp add: end_conversation_thread_def Let_def)
qed

lemma swap_seen:
  assumes "seen cid st = (rows, Some (ws, s))"
  shows "s \<notin> set from_statuses \<Longrightarrow> swap_status cid ws from_statuses to now st = None"
    and "s \<in> set from_statuses \<Longrightarrow> \<exists>c st'. swap_status cid ws from_statuses to now st = Some (c, st') \<and> seen cid st' = (rows, Some (ws, to))"
proof -
  obtain c where c: "of_workspace cid (Some ws) st = Some c" "cv_workspace c = ws" "cv_status c = s"
    using of_workspace_found [of cid st ws s] assms by auto
  have rows: "message_rows st = rows" using assms by (simp add: seen_def)
  show "s \<notin> set from_statuses \<Longrightarrow> swap_status cid ws from_statuses to now st = None"
    by (simp add: swap_status_def c)
  show "s \<in> set from_statuses \<Longrightarrow> \<exists>c st'. swap_status cid ws from_statuses to now st = Some (c, st') \<and> seen cid st' = (rows, Some (ws, to))"
    by (auto simp: swap_status_def c rows Let_def)
qed


abbreviation real_reply :: "message_row \<Rightarrow> bool" where
  "real_reply m \<equiv> fst (resume_eligibility (mr_candidate m))"

lemma helper_seen:
  assumes "seen cid st = (rows, Some (ws, s))" and "ws \<noteq> []" "cid \<noteq> []"
  shows "resume_conversation_if_pending Answers (input_of ws cid m) now st = (r, st') \<Longrightarrow>
      fst r = (real_reply m \<and> s = ''pending'') \<and> seen cid st' = (rows, Some (ws, if fst r then ''open'' else s))"
    and "reopen_conversation_if_resolved Answers rpc upd (input_of ws cid m) now st = (r, st') \<Longrightarrow>
      fst r = (real_reply m \<and> s = ''resolved'') \<and> seen cid st' = (rows, Some (ws, if fst r then ''open'' else s))"
proof -
  note swaps = swap_seen [OF assms(1)]
  obtain ok why where e: "resume_eligibility (mr_candidate m) = (ok, why)" by force
  {
    assume "resume_conversation_if_pending Answers (input_of ws cid m) now st = (r, st')"
    thus "fst r = (real_reply m \<and> s = ''pending'') \<and> seen cid st' = (rows, Some (ws, if fst r then ''open'' else s))"
      using assms swaps(1) [of "[''pending'']" "''open''" "fst now"] swaps(2) [of "[''pending'']" "''open''" "fst now"]
      by (cases "s = ''pending''") (auto simp: resume_conversation_if_pending_def input_of_def e split: if_splits)
  next
    assume "reopen_conversation_if_resolved Answers rpc upd (input_of ws cid m) now st = (r, st')"
    thus "fst r = (real_reply m \<and> s = ''resolved'') \<and> seen cid st' = (rows, Some (ws, if fst r then ''open'' else s))"
      using assms swaps(1) [of "[''resolved'']" "''open''" "fst now"] swaps(2) [of "[''resolved'']" "''open''" "fst now"]
      by (cases "s = ''resolved''") (auto simp: reopen_conversation_if_resolved_def input_of_def e Let_def split: if_splits)
  }
qed


section \<open>The lifecycle does what its table says\<close>

fun decided_transition :: "lifecycle_decision \<Rightarrow> transition" where
  "decided_transition Resume_pending = Resumed_pending"
| "decided_transition Reopen_resolved = Reopened_resolved"
| "decided_transition Reuse = No_transition"
| "decided_transition Create_new_after_closed = No_transition"

lemma resume_result:
  assumes "of_workspace cid (Some ws) st = Some c" "ws \<noteq> []" "cid \<noteq> []"
  shows "resume_conversation_if_pending Answers (input_of ws cid m) now st =
     (if \<not> real_reply m then ((False, snd (resume_eligibility (mr_candidate m))), st)
      else if cv_status c \<noteq> ''pending'' then ((False, ''not_pending''), st)
      else ((True, ''customer_replied''),
            log_event (visitor_event cid ''status_changed'' ''pending'' ''customer_replied'')
              (write_conversation cid (c\<lparr>cv_status := ''open'', cv_updated := fst now\<rparr>) st)))"
  using assms by (auto simp: resume_conversation_if_pending_def input_of_def swap_status_def Let_def split: prod.split)

definition reopened_store :: "answer \<Rightarrow> answer \<Rightarrow> string \<Rightarrow> string \<Rightarrow> conversation \<Rightarrow> instant \<Rightarrow> inbox_store \<Rightarrow> inbox_store" where
  "reopened_store rpc upd ws cid c now st =
     (let st1 = write_conversation cid (c\<lparr>cv_status := ''open'', cv_updated := fst now\<rparr>) st
      in if has_reset_stamp c then st1
         else snd (patch_conversation_metadata rpc upd cid (ai_reset_patch (snd now)) (Some ws) (fst now) st1))"

lemma reset_stamp_status [simp]: "has_reset_stamp (c\<lparr>cv_status := s, cv_updated := n\<rparr>) = has_reset_stamp c"
  by (simp add: has_reset_stamp_def)

lemma reopen_result:
  assumes "of_workspace cid (Some ws) st = Some c" "ws \<noteq> []" "cid \<noteq> []"
  shows "reopen_conversation_if_resolved Answers rpc upd (input_of ws cid m) now st =
     (if \<not> real_reply m then ((False, snd (resume_eligibility (mr_candidate m))), st)
      else if cv_status c \<noteq> ''resolved'' then ((False, ''not_resolved''), st)
      else ((True, ''customer_replied_after_resolution''),
            log_event (visitor_event cid ''reopened'' ''resolved'' ''customer_replied_after_resolution'')
              (reopened_store rpc upd ws cid c now st)))"
  using assms
  by (auto simp: reopen_conversation_if_resolved_def input_of_def swap_status_def Let_def reopened_store_def split: prod.split)

lemma conversations_write [simp]: "conversations (write_conversation k c st) = (conversations st)(k \<mapsto> c)"
  by (simp add: write_conversation_def)

lemma conversations_log [simp]: "conversations (log_event e st) = conversations st"
  by (simp add: log_event_def)

lemma timeline_write [simp]: "timeline (write_conversation k c st) = timeline st"
  by (simp add: write_conversation_def)

lemma timeline_log [simp]: "timeline (log_event e st) = timeline st @ [e]"
  by (simp add: log_event_def)

lemma patch_leaves:
  "timeline (snd (patch_conversation_metadata rpc upd cid patch ws now st)) = timeline st"
  "k \<noteq> cid \<Longrightarrow> conversations (snd (patch_conversation_metadata rpc upd cid patch ws now st)) k = conversations st k"
  by (auto simp: patch_conversation_metadata_def patch_rpc_def write_meta_def split: answer.split option.split)

lemma reopened_leaves:
  assumes "of_workspace cid (Some ws) st = Some c"
  shows "timeline (reopened_store rpc upd ws cid c now st) = timeline st"
    and "k \<noteq> cid \<Longrightarrow> conversations (reopened_store rpc upd ws cid c now st) k = conversations st k"
    and "seen cid (reopened_store rpc upd ws cid c now st) = (message_rows st, Some (ws, ''open''))"
proof -
  have w: "cv_workspace c = ws" using assms by (auto simp: of_workspace_def split: option.splits if_splits)
  show "timeline (reopened_store rpc upd ws cid c now st) = timeline st"
    by (simp add: reopened_store_def Let_def patch_leaves)
  show "k \<noteq> cid \<Longrightarrow> conversations (reopened_store rpc upd ws cid c now st) k = conversations st k"
    by (simp add: reopened_store_def Let_def patch_leaves)
  show "seen cid (reopened_store rpc upd ws cid c now st) = (message_rows st, Some (ws, ''open''))"
    by (simp add: reopened_store_def Let_def w)
qed

lemma ai_reset_patch_keys:
  "ai_reset_patch now ''ai_thread_reset_at'' = Some (JStr now)" "ai_reset_patch now ''routing_thread_ended_at'' = None"
  by (simp_all add: ai_reset_patch_def thread_end_patch_def)

lemma reopened_metadata:
  assumes "of_workspace cid (Some ws) st = Some c" "ws \<noteq> []" "cid \<noteq> []" "rpc = Answers"
  shows "\<exists>c'. conversations (reopened_store rpc upd ws cid c now st) cid = Some c' \<and> has_reset_stamp c'
     \<and> cv_meta c' ''routing_thread_ended_at'' = cv_meta c ''routing_thread_ended_at''"
proof -
  have w: "cv_workspace c = ws" using assms by (auto simp: of_workspace_def split: option.splits if_splits)
  show ?thesis
    by (simp add: reopened_store_def Let_def patch_conversation_metadata_def patch_rpc_def of_workspace_def w assms
        has_reset_stamp_def ai_reset_patch_keys map_add_def)
qed

definition lifecycle_outcome :: "string \<Rightarrow> message_row \<Rightarrow> transition" where
  "lifecycle_outcome status m =
     (if real_reply m then decided_transition (decide_inbound_lifecycle (Some status)) else No_transition)"

lemma lifecycle_result:
  assumes "of_workspace cid (Some ws) st = Some c" "ws \<noteq> []" "cid \<noteq> []" "statements_answer db"
    and "known = None \<or> known = Some (cv_status c)"
    and "apply_inbound_lifecycle db (input_of ws cid m) known now st = (r, st')"
  shows "fst r = lifecycle_outcome (cv_status c) m"
    and "st' = (case fst r of
           No_transition \<Rightarrow> st
         | Resumed_pending \<Rightarrow>
             log_event (visitor_event cid ''status_changed'' ''pending'' ''customer_replied'')
               (write_conversation cid (c\<lparr>cv_status := ''open'', cv_updated := fst now\<rparr>) st)
         | Reopened_resolved \<Rightarrow>
             log_event (visitor_event cid ''reopened'' ''resolved'' ''customer_replied_after_resolution'')
               (reopened_store (rpc_db db) (update_db db) ws cid c now st))"
  using assms(4-)
  by (auto simp: apply_inbound_lifecycle_def lifecycle_first_def lifecycle_second_def statements_answer_def
      resume_result [OF assms(1-3)] reopen_result [OF assms(1-3)] lifecycle_outcome_def decide_inbound_lifecycle_def
      sender_text_def split: if_splits)

text \<open>C29: Where the statements answer, a message of the customer does to its conversation what the table of the
  lifecycle says, whether the status was told or not: a real reply brings a pending conversation and a resolved one back
  to open, with one event on the timeline; an open and a closed conversation, and any conversation after a message that is no
  real reply, stay as they are, without an event. No other conversation and no message changes. A resolved conversation that comes
  back has the stamp of the reset of the AI, and routing's stamp of the end of the thread is the one it had.\<close>

theorem lifecycle_follows_decision:
  assumes "of_workspace cid (Some ws) st = Some c" "ws \<noteq> []" "cid \<noteq> []" "statements_answer db"
    and "known = None \<or> known = Some (cv_status c)"
    and "apply_inbound_lifecycle db (input_of ws cid m) known now st = (r, st')"
  shows "fst r = (if fst (resume_eligibility (mr_candidate m))
                  then decided_transition (decide_inbound_lifecycle (Some (cv_status c))) else No_transition)
    \<and> seen cid st' = (message_rows st, Some (ws, if fst r = No_transition then cv_status c else ''open''))
    \<and> length (timeline st') = length (timeline st) + (if fst r = No_transition then 0 else 1)
    \<and> (fst r = No_transition \<longrightarrow> st' = st)
    \<and> (\<forall>k. k \<noteq> cid \<longrightarrow> conversations st' k = conversations st k)
    \<and> (fst r = Reopened_resolved \<and> rpc_db db = Answers \<longrightarrow>
         (\<exists>c'. conversations st' cid = Some c' \<and> has_reset_stamp c'
            \<and> cv_meta c' ''routing_thread_ended_at'' = cv_meta c ''routing_thread_ended_at''))"
proof (intro conjI allI impI)
  note result = lifecycle_result [OF assms] and leaves = reopened_leaves [OF assms(1)]
  have w: "cv_workspace c = ws" using assms(1) by (auto simp: of_workspace_def split: option.splits if_splits)
  note [simp] = result(2) leaves of_workspace_seen [OF assms(1)] w
  show "fst r = (if fst (resume_eligibility (mr_candidate m))
                  then decided_transition (decide_inbound_lifecycle (Some (cv_status c))) else No_transition)"
    using result(1) by (simp add: lifecycle_outcome_def)
  show "seen cid st' = (message_rows st, Some (ws, if fst r = No_transition then cv_status c else ''open''))"
    by (cases "fst r") simp_all
  show "length (timeline st') = length (timeline st) + (if fst r = No_transition then 0 else 1)"
    by (cases "fst r") simp_all
  show "st' = st" if "fst r = No_transition" using that by simp
  show "conversations st' k = conversations st k" if "k \<noteq> cid" for k using that by (cases "fst r") simp_all
  show "\<exists>c'. conversations st' cid = Some c' \<and> has_reset_stamp c'
        \<and> cv_meta c' ''routing_thread_ended_at'' = cv_meta c ''routing_thread_ended_at''"
    if "fst r = Reopened_resolved \<and> rpc_db db = Answers"
    using that reopened_metadata [OF assms(1-3)] by simp
qed


definition sample_reply :: resume_candidate where
  "sample_reply = \<lparr>rc_sender = Some ''contact'', rc_inbound = True, rc_text = Some ''hi'', rc_attachments = 0, rc_menu = False,
     rc_note = False, rc_system = False, rc_echo = False\<rparr>"

definition sample_row :: "string \<Rightarrow> string \<Rightarrow> int \<Rightarrow> message_row" where
  "sample_row mid who time =
     \<lparr>mr_id = mid, mr_conversation = ''c'', mr_sender = Some who, mr_created = time, mr_candidate = sample_reply\<rparr>"

definition sample_conversation :: "string \<Rightarrow> conversation" where
  "sample_conversation s = \<lparr>cv_workspace = ''w'', cv_status = s, cv_meta = Map.empty, cv_updated = 0\<rparr>"

definition sample_store :: "string \<Rightarrow> message_row list \<Rightarrow> inbox_store" where
  "sample_store s rows =
     \<lparr>conversations = [''c'' \<mapsto> sample_conversation s], message_rows = rows, timeline = [], skip_resets = []\<rparr>"

definition all_answer :: lifecycle_db where
  "all_answer = \<lparr>resume_db = Answers, reopen_db = Answers, rpc_db = Answers, update_db = Answers\<rparr>"

lemma sample_found [simp]: "of_workspace ''c'' (Some ''w'') (sample_store s rows) = Some (sample_conversation s)"
  by (simp add: of_workspace_def sample_store_def sample_conversation_def)

lemma sample_status [simp]: "cv_status (sample_conversation s) = s"
  by (simp add: sample_conversation_def)

lemma sample_reply_real [simp]: "fst (resume_eligibility (mr_candidate (sample_row mid who time)))"
  by (simp add: sample_row_def sample_reply_def resume_eligibility_def sender_text_def CUSTOMER_SENDER_TYPES_def js_trim_def js_space_def)

lemma lifecycle_follows_decision_witness:
  "let (r, st') = apply_inbound_lifecycle all_answer (input_of ''w'' ''c'' (sample_row ''m'' ''contact'' 5)) (Some ''resolved'')
                    (7, ''t'') (sample_store ''resolved'' [])
   in fst r = Reopened_resolved \<and> seen ''c'' st' = ([], Some (''w'', ''open'')) \<and> length (timeline st') = 1
      \<and> conversations st' ''d'' = None \<and> (\<exists>c'. conversations st' ''c'' = Some c' \<and> has_reset_stamp c')"
proof -
  let ?m = "sample_row ''m'' ''contact'' 5" and ?st = "sample_store ''resolved'' []"
  let ?x = "apply_inbound_lifecycle all_answer (input_of ''w'' ''c'' ?m) (Some ''resolved'') (7, ''t'') ?st"
  have ws: "''w'' \<noteq> []" "''c'' \<noteq> []" "statements_answer all_answer"
    "Some ''resolved'' = None \<or> Some ''resolved'' = Some (cv_status (sample_conversation ''resolved''))"
    by (simp_all add: statements_answer_def all_answer_def)
  have x: "?x = (fst ?x, snd ?x)" by simp
  note h = lifecycle_follows_decision [OF sample_found ws x]
  have r: "fst (fst ?x) = Reopened_resolved" using h by (simp add: decide_inbound_lifecycle_def sender_text_def)
  have rows: "message_rows ?st = []" "timeline ?st = []" "conversations ?st ''d'' = None" by (simp_all add: sample_store_def)
  have "\<exists>c'. conversations (snd ?x) ''c'' = Some c' \<and> has_reset_stamp c'"
    using h r by (auto simp: all_answer_def)
  thus ?thesis using h r rows by (simp add: case_prod_beta)
qed

end
