(* ===== verification/Enforcement_Effects.thy ===== *)
theory Enforcement_Effects
  imports Enforcement_Cycle Effective_Policy
begin

text \<open>
  How an enforcement cycle reaches the clients: the events it starts are read into the cache of active
  actions (\<open>refreshNow\<close> of \<open>server/services/observability/autoActionsCache.ts\<close>), which the effective
  realtime policy consults for every handshake.
\<close>











end
