(* ===== verification/Query_Grammar.thy ===== *)
theory Query_Grammar
  imports Js_Values
begin

text \<open>
  The query grammar of the data layer (\<open>server/db/postgrest/grammar.ts\<close>): filters, logic trees, select
  lists, orders and column lists, read the way the code reads them. A parser takes the text from the
  cursor on and gives an error or a value with the rest; the cursor's position is how much is left. An
  error keeps the rest and the reason, from which the wire error is made. Texts are code units up to
  255, so letters are those of Latin-1.
\<close>

section \<open>Results of a parser\<close>

type_synonym syntax_error = "string \<times> string"

type_synonym 'a parsed = "syntax_error + 'a \<times> string"

definition and_then :: "'a parsed \<Rightarrow> ('a \<Rightarrow> string \<Rightarrow> 'b parsed) \<Rightarrow> 'b parsed" where
  "and_then m f = (case m of Inl e \<Rightarrow> Inl e | Inr (x, s) \<Rightarrow> f x s)"

lemma and_then_cong [fundef_cong]:
  "m = m' \<Longrightarrow> (\<And>x s. m' = Inr (x, s) \<Longrightarrow> f x s = f' x s) \<Longrightarrow> and_then m f = and_then m' f'"
  by (auto simp: and_then_def split: sum.split)

lemma and_then_simps [simp]:
  "and_then (Inl e) f = Inl e" "and_then (Inr (x, s)) f = f x s"
  by (simp_all add: and_then_def)

lemma and_then_Inr: "and_then m f = Inr y \<longleftrightarrow> (\<exists>x s. m = Inr (x, s) \<and> f x s = Inr y)"
  by (auto simp: and_then_def split: sum.split)

section \<open>The trees\<close>

datatype json_op = Json_op (shows_text: bool) (json_key: string) (is_index: bool)

record field_ref =
  field_name :: string
  field_json :: "json_op list"

datatype aggregate_fn = Agg_count | Agg_sum | Agg_avg | Agg_max | Agg_min

datatype join_type = Join_inner | Join_left

datatype select_item =
    Star
  | Field field_ref "string option" "string option" "aggregate_fn option" "string option"
  | Embed string "string option" "string option" "join_type option" bool "select_item list"

datatype quantifier = Any_of | All_of

datatype is_value = Is_null | Is_not_null | Is_true | Is_false | Is_unknown

datatype fts_op = Fts | Plfts | Phfts | Wfts

datatype simple_op =
    Eq | Neq | Gte | Gt | Lte | Lt | Like | Ilike | Imatch | Match
  | Cs | Cd | Ov | Sl | Sr | Nxr | Nxl | Adj

datatype operation =
    In_op "string list"
  | Is_op is_value
  | Isdistinct_op string
  | Fts_op fts_op "string option" string
  | Simple_op simple_op "quantifier option" string

record op_expr =
  op_negate :: bool
  op_operation :: operation

record filter_term =
  filter_field :: field_ref
  filter_expr :: op_expr

datatype logic_op = And_op | Or_op

datatype logic_tree =
    Filter_leaf filter_term
  | Logic_expr bool logic_op "logic_tree list"

datatype direction = Asc | Desc

datatype nulls_order = Nulls_first | Nulls_last

record order_term =
  order_relation :: "string option"
  order_field :: field_ref
  order_direction :: "direction option"
  order_nulls :: "nulls_order option"

section \<open>Characters and the cursor\<close>

definition latin1_letter :: "char \<Rightarrow> bool" where
  "latin1_letter c \<longleftrightarrow>
     (let n = code_of c in 65 \<le> n \<and> n \<le> 90 \<or> 97 \<le> n \<and> n \<le> 122 \<or> n \<in> {170, 181, 186}
        \<or> 192 \<le> n \<and> n \<noteq> 215 \<and> n \<noteq> 247)"

definition latin1_number :: "char \<Rightarrow> bool" where
  "latin1_number c \<longleftrightarrow> is_digit c \<or> code_of c \<in> {178, 179, 185, 188, 189, 190}"

definition is_word_char :: "char \<Rightarrow> bool" where
  "is_word_char c \<longleftrightarrow> latin1_letter c \<or> latin1_number c \<or> c = CHR ''_''"

definition is_ident_char :: "char \<Rightarrow> bool" where
  "is_ident_char c \<longleftrightarrow> is_word_char c \<or> c = CHR '' '' \<or> c = CHR ''$''"

definition starts :: "string \<Rightarrow> string \<Rightarrow> bool" where
  "starts w s \<longleftrightarrow> take (length w) s = w"

definition expect :: "string \<Rightarrow> string \<Rightarrow> unit parsed" where
  "expect w s = (if starts w s then Inr ((), drop (length w) s) else Inl (s, ''expecting '' @ [CHR 0x22] @ w @ [CHR 0x22]))"

definition at_item_end :: "string \<Rightarrow> bool" where
  "at_item_end s \<longleftrightarrow> s = [] \<or> hd s = CHR '','' \<or> hd s = CHR '')''"

lemma starts_append [simp]: "starts w (w @ s)"
  by (simp add: starts_def)

lemma expect_append [simp]: "expect w (w @ s) = Inr ((), s)"
  by (simp add: expect_def)

lemma starts_Nil [simp]: "starts [] s"
  by (simp add: starts_def)

lemma starts_Cons [simp]: "starts (c # w) s \<longleftrightarrow> (case s of [] \<Rightarrow> False | d # r \<Rightarrow> d = c \<and> starts w r)"
  by (auto simp: starts_def split: list.split)

lemma expect_length: "expect w s = Inr (u, r) \<Longrightarrow> s = w @ r"
  by (auto simp: expect_def starts_def split: if_splits) (metis append_take_drop_id)

section \<open>Names, paths and casts\<close>

fun quoted_body :: "string \<Rightarrow> string parsed" where
  "quoted_body [] = Inl ([], ''expecting '' @ [CHR 0x22, CHR 0x22, CHR 0x22])"
| "quoted_body (c # s) =
     (if c = CHR 0x22 then Inr ([], s)
      else if c = CHR 0x5C
      then (case s of
              [] \<Rightarrow> Inl ([], ''inside a quoted value'')
            | d # s' \<Rightarrow> and_then (quoted_body s') (\<lambda>t r. Inr (d # t, r)))
      else and_then (quoted_body s) (\<lambda>t r. Inr (c # t, r)))"

definition quoted_at :: "string \<Rightarrow> string option parsed" where
  "quoted_at s =
     (case s of
        c # r \<Rightarrow> if c = CHR 0x22 then and_then (quoted_body r) (\<lambda>t r'. Inr (Some t, r')) else Inr (None, s)
      | [] \<Rightarrow> Inr (None, s))"

definition ident_at :: "string \<Rightarrow> string parsed" where
  "ident_at s =
     (if takeWhile is_ident_char s = [] then Inl (s, ''expecting an identifier'')
      else Inr (takeWhile is_ident_char s, dropWhile is_ident_char s))"

text \<open>The parts of a name joined by hyphens: a hyphen counts when an identifier follows it.\<close>

function name_parts :: "string \<Rightarrow> string \<times> string" where
  "name_parts s =
     (case s of
        c # d # r \<Rightarrow>
          if c = CHR ''-'' \<and> d \<noteq> CHR ''>'' \<and> is_ident_char d
          then (let (n, r') = name_parts (dropWhile is_ident_char (d # r))
                in (CHR ''-'' # takeWhile is_ident_char (d # r) @ n, r'))
          else ([], s)
      | _ \<Rightarrow> ([], s))"
  by pat_completeness auto
termination
proof (relation "measure length")
  fix s :: string and x21 x22 x21a x22a
  assume "s = x21 # x22" "x22 = x21a # x22a" "x21 = CHR ''-'' \<and> x21a \<noteq> CHR ''>'' \<and> is_ident_char x21a"
  then show "(dropWhile is_ident_char (x21a # x22a), s) \<in> measure length"
    using length_dropWhile_le [of is_ident_char x22a] by simp
qed auto

declare name_parts.simps [simp del]

definition field_name_at :: "string \<Rightarrow> string parsed" where
  "field_name_at s =
     and_then (quoted_at s) (\<lambda>q r. case q of
        Some n \<Rightarrow> Inr (n, r)
      | None \<Rightarrow> and_then (ident_at s) (\<lambda>n r. let (more, r') = name_parts r in Inr (n @ more, r')))"

text \<open>The longest match of \<open>-?d+\<close>.\<close>

definition int_prefix :: "string \<Rightarrow> (string \<times> string) option" where
  "int_prefix s =
     (let (sign, r) = (if starts ''-'' s then (''-'', tl s) else ([], s));
          ds = takeWhile is_digit r
      in if ds = [] then None else Some (sign @ ds, dropWhile is_digit r))"

definition ends_index :: "string \<Rightarrow> bool" where
  "ends_index s \<longleftrightarrow> s = [] \<or> list_ex (\<lambda>w. starts w s) [''->'', ''::'', ''.'', '','', '')'', ''('', ''!'']"

definition json_operand :: "string \<Rightarrow> (string \<times> bool) parsed" where
  "json_operand s =
     (case int_prefix s of
        Some (k, r) \<Rightarrow> if ends_index r then Inr ((k, True), r)
                       else and_then (field_name_at s) (\<lambda>n r. Inr ((n, False), r))
      | None \<Rightarrow> and_then (field_name_at s) (\<lambda>n r. Inr ((n, False), r)))"

lemma quoted_body_length: "quoted_body s = Inr (t, r) \<Longrightarrow> length r < length s"
  by (induction s arbitrary: t r rule: quoted_body.induct)
    (fastforce simp: and_then_Inr split: if_splits list.splits)+

lemma quoted_length: "quoted_at s = Inr (q, r) \<Longrightarrow> length r \<le> length s \<and> (q \<noteq> None \<longrightarrow> length r < length s)"
  using quoted_body_length by (fastforce simp: quoted_at_def and_then_Inr split: list.splits if_splits)

lemma ident_at_length: "ident_at s = Inr (n, r) \<Longrightarrow> length r < length s"
  by (cases s) (auto simp: ident_at_def le_imp_less_Suc length_dropWhile_le split: if_splits)

lemma name_parts_length: "length (snd (name_parts s)) \<le> length s"
proof (induction s rule: name_parts.induct)
  case (1 s)
  show ?case
  proof (cases "\<exists>c d r. s = c # d # r \<and> c = CHR ''-'' \<and> d \<noteq> CHR ''>'' \<and> is_ident_char d")
    case True
    then obtain d r where s: "s = CHR ''-'' # d # r" "d \<noteq> CHR ''>''" "is_ident_char d" by blast
    have "length (snd (name_parts (dropWhile is_ident_char (d # r)))) \<le> length (dropWhile is_ident_char (d # r))"
      using 1 [OF s(1) refl] s by blast
    also have "\<dots> \<le> length (d # r)" by (rule length_dropWhile_le)
    finally show ?thesis using s by (subst name_parts.simps) (auto split: prod.split)
  next
    case False
    then show ?thesis by (subst name_parts.simps) (auto split: list.split)
  qed
qed

lemma field_name_length: "field_name_at s = Inr (n, r) \<Longrightarrow> length r < length s"
proof -
  assume a: "field_name_at s = Inr (n, r)"
  then obtain q r0 where q: "quoted_at s = Inr (q, r0)" by (auto simp: field_name_at_def and_then_Inr)
  show ?thesis
  proof (cases q)
    case None
    then obtain m r1 where i: "ident_at s = Inr (m, r1)" and p: "snd (name_parts r1) = r"
      using a q by (auto simp: field_name_at_def and_then_Inr case_prod_unfold Let_def)
    show ?thesis using ident_at_length [OF i] name_parts_length [of r1] unfolding p by linarith
  next
    case (Some m)
    then show ?thesis using a q quoted_length [OF q] by (auto simp: field_name_at_def)
  qed
qed

lemma int_prefix_length: "int_prefix s = Some (k, r) \<Longrightarrow> length r < length s"
proof -
  assume a: "int_prefix s = Some (k, r)"
  have d: "length (dropWhile is_digit t) < length t" if "takeWhile is_digit t \<noteq> []" for t
    using that by (cases t) (auto simp: le_imp_less_Suc length_dropWhile_le split: if_splits)
  show ?thesis
    using a d [of s] d [of "tl s"] by (cases s) (auto simp: int_prefix_def Let_def split: if_splits)
qed

lemma json_operand_length: "json_operand s = Inr (k, r) \<Longrightarrow> length r < length s"
  using int_prefix_length field_name_length
  by (fastforce simp: json_operand_def and_then_Inr split: option.splits prod.splits if_splits)

function json_path :: "string \<Rightarrow> json_op list parsed" where
  "json_path s =
     (if starts ''->>'' s
      then and_then (json_operand (drop 3 s)) (\<lambda>k r.
             and_then (json_path r) (\<lambda>ops r'. Inr (Json_op True (fst k) (snd k) # ops, r')))
      else if starts ''->'' s
      then and_then (json_operand (drop 2 s)) (\<lambda>k r.
             and_then (json_path r) (\<lambda>ops r'. Inr (Json_op False (fst k) (snd k) # ops, r')))
      else Inr ([], s))"
  by pat_completeness auto
termination
proof (relation "measure length")
  fix s x r
  show "starts ''->>'' s \<Longrightarrow> json_operand (drop 3 s) = Inr (x, r) \<Longrightarrow> (r, s) \<in> measure length"
    "starts ''->'' s \<Longrightarrow> json_operand (drop 2 s) = Inr (x, r) \<Longrightarrow> (r, s) \<in> measure length"
    by (auto dest!: json_operand_length)
qed auto

declare json_path.simps [simp del]

definition field_at :: "string \<Rightarrow> field_ref parsed" where
  "field_at s = and_then (field_name_at s) (\<lambda>n r. and_then (json_path r) (\<lambda>ops r'.
     Inr (\<lparr>field_name = n, field_json = ops\<rparr>, r')))"

definition is_cast_char :: "char \<Rightarrow> bool" where
  "is_cast_char c \<longleftrightarrow> is_word_char c \<or> c = CHR '' ''"

definition cast_type :: "string \<Rightarrow> string option parsed" where
  "cast_type s =
     (if \<not> starts ''::'' s then Inr (None, s)
      else let r = drop 2 s
           in if takeWhile is_cast_char r = [] then Inl (r, ''expecting a type name'')
              else Inr (Some (takeWhile is_cast_char r), dropWhile is_cast_char r))"

text \<open>A name followed by a single colon; anything else is no alias and is read again.\<close>

definition optional_alias :: "string \<Rightarrow> string option \<times> string" where
  "optional_alias s =
     (case field_name_at s of
        Inl e \<Rightarrow> (None, s)
      | Inr (n, r) \<Rightarrow> if starts '':'' r \<and> \<not> starts ''::'' r then (Some n, tl r) else (None, s))"

section \<open>Operators and values\<close>

fun simple_op_text :: "simple_op \<Rightarrow> string" where
  "simple_op_text Eq = ''eq''" | "simple_op_text Neq = ''neq''"
| "simple_op_text Gte = ''gte''" | "simple_op_text Gt = ''gt''"
| "simple_op_text Lte = ''lte''" | "simple_op_text Lt = ''lt''"
| "simple_op_text Like = ''like''" | "simple_op_text Ilike = ''ilike''"
| "simple_op_text Imatch = ''imatch''" | "simple_op_text Match = ''match''"
| "simple_op_text Cs = ''cs''" | "simple_op_text Cd = ''cd''"
| "simple_op_text Ov = ''ov''" | "simple_op_text Sl = ''sl''"
| "simple_op_text Sr = ''sr''" | "simple_op_text Nxr = ''nxr''"
| "simple_op_text Nxl = ''nxl''" | "simple_op_text Adj = ''adj''"

definition SIMPLE_OPS :: "simple_op list" where
  "SIMPLE_OPS = [Eq, Neq, Gte, Gt, Lte, Lt, Like, Ilike, Imatch, Match, Cs, Cd, Ov, Sl, Sr, Nxr, Nxl, Adj]"

definition QUANTIFIABLE :: "simple_op list" where
  "QUANTIFIABLE = [Eq, Gte, Gt, Lte, Lt, Like, Ilike, Match, Imatch]"

fun is_text :: "is_value \<Rightarrow> string" where
  "is_text Is_null = ''null''"
| "is_text Is_not_null = ''not_null''"
| "is_text Is_true = ''true''"
| "is_text Is_false = ''false''"
| "is_text Is_unknown = ''unknown''"

definition read_is :: "string \<Rightarrow> is_value option" where
  "read_is raw = List.find (\<lambda>v. is_text v = raw) [Is_null, Is_not_null, Is_true, Is_false, Is_unknown]"

fun fts_text :: "fts_op \<Rightarrow> string" where
  "fts_text Fts = ''fts''"
| "fts_text Plfts = ''plfts''"
| "fts_text Phfts = ''phfts''"
| "fts_text Wfts = ''wfts''"

datatype value_mode = Query_mode | Logic_mode

definition stops_value :: "char \<Rightarrow> bool" where
  "stops_value c \<longleftrightarrow> c = CHR '','' \<or> c = CHR '')''"

definition raw_value :: "string \<Rightarrow> string \<times> string" where
  "raw_value s = (takeWhile (\<lambda>c. \<not> stops_value c) s, dropWhile (\<lambda>c. \<not> stops_value c) s)"

text \<open>An array literal in braces, without a nested one.\<close>

definition braced :: "string \<Rightarrow> (string \<times> string) option" where
  "braced s =
     (if starts ''{'' s \<and> CHR ''}'' \<in> set s
      then (let inner = takeWhile (\<lambda>c. c \<noteq> CHR ''}'') (tl s)
            in if CHR ''{'' \<in> set inner then None
               else Some (''{'' @ inner @ ''}'', drop (length inner + 2) s))
      else None)"

definition unquoted_value :: "string \<Rightarrow> string \<times> string" where
  "unquoted_value s = (case braced s of Some v \<Rightarrow> v | None \<Rightarrow> raw_value s)"

definition single_value :: "value_mode \<Rightarrow> string \<Rightarrow> string parsed" where
  "single_value mode s =
     (case mode of
        Query_mode \<Rightarrow> Inr (s, [])
      | Logic_mode \<Rightarrow>
          if starts [CHR 0x22] s
          then and_then (quoted_at s) (\<lambda>q r. case q of
                 Some v \<Rightarrow> if at_item_end r then Inr (v, r) else Inr (unquoted_value s)
               | None \<Rightarrow> Inr (unquoted_value s))
          else Inr (unquoted_value s))"

definition list_item :: "string \<Rightarrow> string parsed" where
  "list_item s =
     (if starts [CHR 0x22] s
      then and_then (quoted_at s) (\<lambda>q r. case q of
             Some v \<Rightarrow> if starts '','' r \<or> starts '')'' r then Inr (v, r) else Inr (raw_value s)
           | None \<Rightarrow> Inr (raw_value s))
      else Inr (raw_value s))"

lemma list_item_length: "list_item s = Inr (v, r) \<Longrightarrow> length r \<le> length s"
  using quoted_length [of s] length_dropWhile_le [of "\<lambda>c. \<not> stops_value c" s]
  by (fastforce simp: list_item_def raw_value_def and_then_Inr split: if_splits option.splits)

function list_items :: "string \<Rightarrow> string list parsed" where
  "list_items s =
     and_then (list_item s) (\<lambda>v r.
       if starts '','' r then and_then (list_items (tl r)) (\<lambda>vs r'. Inr (v # vs, r'))
       else and_then (expect '')'' r) (\<lambda>u r'. Inr ([v], r')))"
  by pat_completeness auto
termination
proof (relation "measure length")
  fix s v r
  assume "list_item s = Inr (v, r)" "starts '','' r"
  then show "(tl r, s) \<in> measure length" using list_item_length [of s v r] by (cases r) auto
qed auto

declare list_items.simps [simp del]

definition list_value :: "string \<Rightarrow> string list parsed" where
  "list_value s = and_then (expect ''('' s) (\<lambda>u r. if starts '')'' r then Inr ([], tl r) else list_items r)"

text \<open>The full-text operators with an optional language in parentheses, then a dot.\<close>

definition fts_head :: "string \<Rightarrow> ((fts_op \<times> string option) \<times> string) option" where
  "fts_head s =
     (case List.find (\<lambda>f. starts (fts_text f) s) [Fts, Plfts, Phfts, Wfts] of
        None \<Rightarrow> None
      | Some f \<Rightarrow>
          (let r = drop (length (fts_text f)) s
           in if starts ''.'' r then Some ((f, None), tl r)
              else if starts ''('' r
              then (let lang = takeWhile is_word_char (tl r); r' = dropWhile is_word_char (tl r)
                    in if starts '').'' r' then Some ((f, if lang = [] then None else Some lang), drop 2 r') else None)
              else None))"

definition quantifier_at :: "string \<Rightarrow> (quantifier \<times> string) option" where
  "quantifier_at s =
     (if starts ''(any).'' s then Some (Any_of, drop 6 s)
      else if starts ''(all).'' s then Some (All_of, drop 6 s) else None)"

fun simple_operation :: "value_mode \<Rightarrow> simple_op list \<Rightarrow> string \<Rightarrow> operation parsed" where
  "simple_operation mode [] s = Inl (s, ''expecting an operator'')"
| "simple_operation mode (op # ops) s =
     (if \<not> starts (simple_op_text op) s then simple_operation mode ops s
      else let after = drop (length (simple_op_text op)) s
           in case (if op \<in> set QUANTIFIABLE then quantifier_at after else None) of
                Some (q, r) \<Rightarrow> and_then (single_value mode r) (\<lambda>v r'. Inr (Simple_op op (Some q) v, r'))
              | None \<Rightarrow>
                  if starts ''.'' after
                  then and_then (single_value mode (tl after)) (\<lambda>v r'. Inr (Simple_op op None v, r'))
                  else simple_operation mode ops s)"

definition operation_at :: "value_mode \<Rightarrow> string \<Rightarrow> operation parsed" where
  "operation_at mode s =
     (if starts ''in.'' s then and_then (list_value (drop 3 s)) (\<lambda>vs r. Inr (In_op vs, r))
      else if starts ''is.'' s
      then and_then (single_value mode (drop 3 s)) (\<lambda>raw r. case read_is (js_lower raw) of
             Some v \<Rightarrow> Inr (Is_op v, r)
           | None \<Rightarrow> Inl (r, ''expecting null, not_null, true, false or unknown''))
      else if starts ''isdistinct.'' s
      then and_then (single_value mode (drop 11 s)) (\<lambda>v r. Inr (Isdistinct_op v, r))
      else case fts_head s of
             Some ((f, lang), r) \<Rightarrow> and_then (single_value mode r) (\<lambda>v r'. Inr (Fts_op f lang v, r'))
           | None \<Rightarrow> simple_operation mode SIMPLE_OPS s)"

text \<open>\<open>c.eat('not.')\<close>.\<close>

definition eat_not :: "string \<Rightarrow> bool \<times> string" where
  "eat_not s = (if starts ''not.'' s then (True, drop 4 s) else (False, s))"

section \<open>Wire errors\<close>

record pgrst_error =
  pgrst_status :: nat
  pgrst_code :: string
  pgrst_message :: string
  pgrst_details :: "string option"
  pgrst_hint :: "string option"

definition in_quotes :: "string \<Rightarrow> string" where
  "in_quotes s = [CHR 0x22] @ s @ [CHR 0x22]"

text \<open>\<open>Cursor.fail\<close>: the column is the position of the rest.\<close>

definition syntax_failure :: "string \<Rightarrow> string \<Rightarrow> syntax_error \<Rightarrow> pgrst_error" where
  "syntax_failure what src e =
     (let (rest, why) = e in
      \<lparr>pgrst_status = 400, pgrst_code = ''PGRST100'',
       pgrst_message = in_quotes (''failed to parse '' @ what @ '' parameter ('' @ src @ '')'') @ '' (line 1, column ''
         @ show_nat (length src - length rest + 1) @ '')'',
       pgrst_details = Some (''unexpected '' @ (if rest = [] then ''end of input'' else in_quotes [hd rest]) @ '' '' @ why),
       pgrst_hint = None\<rparr>)"

text \<open>A parser run over a whole text.\<close>

definition run_parser :: "string \<Rightarrow> string \<Rightarrow> (string \<Rightarrow> 'a parsed) \<Rightarrow> pgrst_error + 'a" where
  "run_parser what src p = (case p src of Inl e \<Rightarrow> Inl (syntax_failure what src e) | Inr (x, r) \<Rightarrow> Inr x)"

definition finish :: "string \<Rightarrow> 'a \<Rightarrow> string \<Rightarrow> 'a parsed" where
  "finish why x r = (if r = [] then Inr (x, r) else Inl (r, why))"

section \<open>Filters and logic trees\<close>

function key_names :: "string \<Rightarrow> string list parsed" where
  "key_names s =
     and_then (field_name_at s) (\<lambda>n r.
       if starts ''.'' r then and_then (key_names (tl r)) (\<lambda>ns r'. Inr (n # ns, r')) else Inr ([n], r))"
  by pat_completeness auto
termination
proof (relation "measure length")
  fix s n r
  assume "field_name_at s = Inr (n, r)" "starts ''.'' r"
  then show "(tl r, s) \<in> measure length" using field_name_length [of s n r] by (cases r) auto
qed auto

declare key_names.simps [simp del]

definition parse_filter_key :: "string \<Rightarrow> pgrst_error + string list \<times> field_ref" where
  "parse_filter_key src =
     run_parser ''filter'' src (\<lambda>s. and_then (key_names s) (\<lambda>names r. and_then (json_path r) (\<lambda>ops r'.
       finish ''in a filter column'' (butlast names, \<lparr>field_name = last names, field_json = ops\<rparr>) r')))"

definition parse_op_expr :: "string \<Rightarrow> string \<Rightarrow> pgrst_error + op_expr" where
  "parse_op_expr src column =
     run_parser (''filter '' @ in_quotes column) src (\<lambda>s.
       let (neg, r) = eat_not s
       in and_then (operation_at Query_mode r) (\<lambda>opn r'. Inr (\<lparr>op_negate = neg, op_operation = opn\<rparr>, r')))"

text \<open>A filter inside a logic tree, when one is there and ends the item.\<close>

definition logic_filter :: "string \<Rightarrow> (filter_term \<times> string) option" where
  "logic_filter s =
     (case and_then (field_at s) (\<lambda>f r. and_then (expect ''.'' r) (\<lambda>u r1.
            let (neg, r2) = eat_not r1
            in and_then (operation_at Logic_mode r2) (\<lambda>opn r3.
                 Inr (\<lparr>filter_field = f, filter_expr = \<lparr>op_negate = neg, op_operation = opn\<rparr>\<rparr>, r3)))) of
        Inr (f, r) \<Rightarrow> if at_item_end r then Some (f, r) else None
      | Inl e \<Rightarrow> None)"

definition logic_head :: "string \<Rightarrow> (bool \<times> logic_op) parsed" where
  "logic_head s =
     (let (neg, r) = eat_not s
      in if starts ''and'' r then and_then (expect ''('' (drop 3 r)) (\<lambda>u r'. Inr ((neg, And_op), r'))
         else if starts ''or'' r then and_then (expect ''('' (drop 2 r)) (\<lambda>u r'. Inr ((neg, Or_op), r'))
         else Inl (r, ''expecting a filter, '' @ in_quotes ''and('' @ '' or '' @ in_quotes ''or(''))"

lemma expect_drop_length: "expect ''('' (drop k t) = Inr (u, r) \<Longrightarrow> length r < length t"
  by (drule expect_length) (metis Cons_eq_appendI append_Nil drop_eq_Nil2 leI length_Cons length_drop less_le_trans
    diff_le_self lessI)

lemma logic_head_length: "logic_head s = Inr (h, r) \<Longrightarrow> length r < length s"
proof -
  assume "logic_head s = Inr (h, r)"
  then obtain t k where "expect ''('' (drop k t) = Inr ((), r)" and t: "length t \<le> length s"
    by (auto simp: logic_head_def eat_not_def Let_def and_then_Inr split: if_splits)
  then show ?thesis using expect_drop_length [of k t "()" r] by simp
qed

text \<open>
  The item after a comma is read from a shorter rest; the test of the lengths says so and never fails
  (\<open>logic_forest_shorter\<close> below).
\<close>

function logic_tree_at :: "string \<Rightarrow> logic_tree parsed" and logic_forest :: "string \<Rightarrow> logic_tree list parsed" where
  "logic_tree_at s =
     (case logic_filter s of
        Some (f, r) \<Rightarrow> Inr (Filter_leaf f, r)
      | None \<Rightarrow> and_then (logic_head s) (\<lambda>h r.
          and_then (logic_forest r) (\<lambda>ts r'. and_then (expect '')'' r') (\<lambda>u r''.
            Inr (Logic_expr (fst h) (snd h) ts, r'')))))"
| "logic_forest s =
     and_then (logic_tree_at s) (\<lambda>t r.
       if starts '','' r \<and> length (tl r) < length s
       then and_then (logic_forest (tl r)) (\<lambda>ts r'. Inr (t # ts, r'))
       else Inr ([t], r))"
  by pat_completeness auto
termination
proof (relation "measure (\<lambda>x. case x of Inl s \<Rightarrow> 2 * length s | Inr s \<Rightarrow> 2 * length s + 1)")
  fix s h r
  assume "logic_head s = Inr (h, r)"
  then show "(Inr r, Inl s) \<in> measure (\<lambda>x. case x of Inl s \<Rightarrow> 2 * length s | Inr s \<Rightarrow> 2 * length s + 1)"
    using logic_head_length [of s h r] by simp
qed auto

declare logic_tree_at.simps [simp del] logic_forest.simps [simp del]

definition parse_logic_value :: "logic_op \<Rightarrow> bool \<Rightarrow> string \<Rightarrow> string \<Rightarrow> pgrst_error + logic_tree" where
  "parse_logic_value op neg src key =
     run_parser (''logic tree '' @ in_quotes key) src (\<lambda>s.
       and_then (expect ''('' s) (\<lambda>u r. and_then (logic_forest r) (\<lambda>ts r1. and_then (expect '')'' r1) (\<lambda>u r2.
         finish (''after the closing '' @ in_quotes '')'') (Logic_expr neg op ts) r2))))"

section \<open>Select lists\<close>

definition join_word :: "string \<Rightarrow> string \<Rightarrow> bool" where
  "join_word w s \<longleftrightarrow> starts w s
     \<and> (case drop (length w) s of [] \<Rightarrow> True | c # r \<Rightarrow> \<not> is_ident_char c \<and> c \<noteq> CHR ''-'')"

fun embed_params :: "nat \<Rightarrow> string option \<Rightarrow> join_type option \<Rightarrow> string \<Rightarrow> (string option \<times> join_type option) parsed" where
  "embed_params 0 hint jt s = Inr ((hint, jt), s)"
| "embed_params (Suc i) hint jt s =
     (if \<not> starts ''!'' s then Inr ((hint, jt), s)
      else if join_word ''inner'' (tl s) then embed_params i hint (Some Join_inner) (drop 6 s)
      else if join_word ''left'' (tl s) then embed_params i hint (Some Join_left) (drop 5 s)
      else and_then (field_name_at (tl s)) (\<lambda>n r. embed_params i (Some n) jt r))"

text \<open>What stands before the opening parenthesis of an embed: alias, name, hint, join, spread.\<close>

type_synonym embed_head = "string option \<times> string \<times> (string option \<times> join_type option) \<times> bool"

definition embed_head_at :: "string \<Rightarrow> embed_head option parsed" where
  "embed_head_at s =
     (if starts ''...'' s
      then and_then (field_name_at (drop 3 s)) (\<lambda>n r. and_then (embed_params 2 None None r) (\<lambda>ps r1.
             and_then (expect ''('' r1) (\<lambda>u r2. Inr (Some (None, n, ps, True), r2))))
      else let (alias, r) = optional_alias s
           in case field_name_at r of
                Inl e \<Rightarrow> Inr (None, s)
              | Inr (n, r1) \<Rightarrow>
                  if n = ''count'' then Inr (None, s)
                  else and_then (embed_params 2 None None r1) (\<lambda>ps r2.
                    if starts ''('' r2 then Inr (Some (alias, n, ps, False), tl r2) else Inr (None, s)))"

definition aggregate_at :: "string \<Rightarrow> (aggregate_fn option \<times> string)" where
  "aggregate_at s =
     (case List.find (\<lambda>(w, a). starts w s)
        [(''.count()'', Agg_count), (''.sum()'', Agg_sum), (''.avg()'', Agg_avg), (''.max()'', Agg_max), (''.min()'', Agg_min)] of
        Some (w, a) \<Rightarrow> (Some a, drop (length w) s)
      | None \<Rightarrow> (None, s))"

definition item_end :: "string \<Rightarrow> select_item \<Rightarrow> string \<Rightarrow> select_item parsed" where
  "item_end why it r = (if at_item_end r then Inr (it, r) else Inl (r, why))"

definition plain_item :: "string \<Rightarrow> select_item parsed" where
  "plain_item s =
     (if starts ''*'' s then item_end (''after '' @ in_quotes ''*'') Star (tl s)
      else let (alias, r) = optional_alias s
           in if starts ''count()'' r
              then and_then (cast_type (drop 7 r)) (\<lambda>cast r1.
                     item_end (''after '' @ in_quotes ''count()'')
                       (Field \<lparr>field_name = ''*'', field_json = []\<rparr> alias None (Some Agg_count) cast) r1)
              else and_then (field_at r) (\<lambda>f r1. and_then (cast_type r1) (\<lambda>cast r2.
                     let (agg, r3) = aggregate_at r2
                     in and_then (if agg = None then Inr (None, r3) else cast_type r3) (\<lambda>agg_cast r4.
                          item_end (''expecting '' @ in_quotes '','' @ '' or '' @ in_quotes '')'')
                            (Field f alias cast agg agg_cast) r4))))"

definition eat_close :: "'a \<Rightarrow> string \<Rightarrow> 'a parsed" where
  "eat_close x r = and_then (expect '')'' r) (\<lambda>u r'. Inr (x, r'))"

lemma optional_alias_length: "length (snd (optional_alias s)) \<le> length s"
  using field_name_length [of s] by (fastforce simp: optional_alias_def split: sum.split)

lemma embed_params_length: "embed_params i hint jt s = Inr (ps, r) \<Longrightarrow> length r \<le> length s"
proof (induction i arbitrary: hint jt s)
  case (Suc i)
  show ?case
  proof (cases "starts ''!'' s \<and> \<not> join_word ''inner'' (tl s) \<and> \<not> join_word ''left'' (tl s)")
    case True
    then obtain n r0 where f: "field_name_at (tl s) = Inr (n, r0)" and e: "embed_params i (Some n) jt r0 = Inr (ps, r)"
      using Suc.prems by (auto simp: and_then_Inr)
    show ?thesis using Suc.IH [OF e] field_name_length [OF f] by simp
  next
    case False
    then show ?thesis
      using Suc.prems Suc.IH [of hint _ "drop 6 s"] Suc.IH [of hint _ "drop 5 s"]
      by (fastforce simp: Let_def split: if_splits)
  qed
qed simp

lemma embed_head_length: "embed_head_at s = Inr (Some h, r) \<Longrightarrow> length r < length s"
proof -
  assume a: "embed_head_at s = Inr (Some h, r)"
  show ?thesis
  proof (cases "starts ''...'' s")
    case True
    with a obtain n r0 ps r1 where f: "field_name_at (drop 3 s) = Inr (n, r0)"
      and p: "embed_params 2 None None r0 = Inr (ps, r1)" and e: "expect ''('' r1 = Inr ((), r)"
      by (auto simp: embed_head_at_def and_then_Inr)
    show ?thesis
      using field_name_length [OF f] embed_params_length [OF p] expect_length [OF e] by simp
  next
    case False
    with a obtain n r1 ps r2 where f: "field_name_at (snd (optional_alias s)) = Inr (n, r1)"
      and p: "embed_params 2 None None r1 = Inr (ps, r2)" and r: "r = tl r2"
      by (auto simp: embed_head_at_def and_then_Inr case_prod_unfold Let_def split: sum.splits if_splits)
    show ?thesis
      using field_name_length [OF f] embed_params_length [OF p] optional_alias_length [of s] r by simp
  qed
qed

function select_tree :: "string \<Rightarrow> select_item parsed"
  and select_items :: "string \<Rightarrow> select_item list parsed"
  and select_forest :: "string \<Rightarrow> select_item list parsed" where
  "select_tree s =
     and_then (embed_head_at s) (\<lambda>h r. case h of
       Some (alias, n, ps, spread) \<Rightarrow>
         and_then (select_forest r) (\<lambda>its r1. eat_close (Embed n alias (fst ps) (snd ps) spread its) r1)
     | None \<Rightarrow> plain_item s)"
| "select_items s =
     and_then (select_tree s) (\<lambda>t r.
       if starts '','' r \<and> length (tl r) < length s
       then and_then (select_items (tl r)) (\<lambda>ts r'. Inr (t # ts, r'))
       else Inr ([t], r))"
| "select_forest s = (if s = [] \<or> hd s = CHR '')'' then Inr ([], s) else select_items s)"
  by pat_completeness auto

termination
proof (relation "measure (\<lambda>x. case x of Inl s \<Rightarrow> 3 * length s
    | Inr (Inl s) \<Rightarrow> 3 * length s + 1 | Inr (Inr s) \<Rightarrow> 3 * length s + 2)")
qed (auto dest: embed_head_length)


declare select_tree.simps [simp del] select_items.simps [simp del] select_forest.simps [simp del]

definition parse_select :: "string \<Rightarrow> pgrst_error + select_item list" where
  "parse_select src =
     run_parser ''select'' src (\<lambda>s. and_then (select_forest s) (\<lambda>its r.
       finish (''expecting '' @ in_quotes '','' @ '' or end of input'') its r))"

section \<open>Orders and column lists\<close>

definition order_direction_at :: "string \<Rightarrow> direction option \<times> string" where
  "order_direction_at s =
     (if starts ''.asc'' s then (Some Asc, drop 4 s)
      else if starts ''.desc'' s then (Some Desc, drop 5 s) else (None, s))"

definition nulls_at :: "string \<Rightarrow> nulls_order option \<times> string" where
  "nulls_at s =
     (if starts ''.nullsfirst'' s then (Some Nulls_first, drop 11 s)
      else if starts ''.nullslast'' s then (Some Nulls_last, drop 10 s) else (None, s))"

text \<open>\<open>relation(field)\<close>, when it is there.\<close>

definition order_by_relation :: "string \<Rightarrow> ((string \<times> field_ref) \<times> string) option" where
  "order_by_relation s =
     (case and_then (field_name_at s) (\<lambda>n r. and_then (expect ''('' r) (\<lambda>u r1.
             and_then (field_at r1) (\<lambda>f r2. eat_close (n, f) r2))) of
        Inl e \<Rightarrow> None
      | Inr x \<Rightarrow> Some x)"

definition order_term_at :: "string \<Rightarrow> order_term parsed" where
  "order_term_at s =
     and_then (case order_by_relation s of
                 Some ((n, f), r) \<Rightarrow> Inr ((Some n, f), r)
               | None \<Rightarrow> and_then (field_at s) (\<lambda>f r. Inr ((None, f), r)))
       (\<lambda>x r. let (dir, r1) = order_direction_at r; (nulls, r2) = nulls_at r1
              in Inr (\<lparr>order_relation = fst x, order_field = snd x, order_direction = dir, order_nulls = nulls\<rparr>, r2))"

text \<open>
  A list of items with a comma between them that must end with the text: the loop of \<open>parseOrder\<close> and
  \<open>parseColumns\<close>, over the reader of an item. The test of the lengths stands for an item that uses up
  some of the text, as every reader here does.
\<close>

function comma_list :: "(string \<Rightarrow> 'a parsed) \<Rightarrow> string \<Rightarrow> 'a list parsed" where
  "comma_list item s =
     and_then (item s) (\<lambda>x r.
       if r = [] then Inr ([x], [])
       else and_then (expect '','' r) (\<lambda>u r1.
         if length r1 < length s then and_then (comma_list item r1) (\<lambda>xs r2. Inr (x # xs, r2)) else Inl (r1, [])))"
  by pat_completeness auto
termination
  by (relation "measure (\<lambda>(item, s). length s)") auto

declare comma_list.simps [simp del]

definition parse_order :: "string \<Rightarrow> pgrst_error + order_term list" where
  "parse_order src = run_parser ''order'' src (comma_list order_term_at)"

definition parse_columns :: "string \<Rightarrow> pgrst_error + string list" where
  "parse_columns src = run_parser ''columns'' src (comma_list field_name_at)"

fun split_on :: "char \<Rightarrow> string \<Rightarrow> string list" where
  "split_on c [] = [[]]"
| "split_on c (d # s) =
     (if d = c then [] # split_on c s
      else case split_on c s of [] \<Rightarrow> [[d]] | w # ws \<Rightarrow> (d # w) # ws)"

definition strip_quotes :: "string \<Rightarrow> string" where
  "strip_quotes s =
     (if s \<noteq> [] \<and> hd s = CHR 0x22 \<and> last s = CHR 0x22 then butlast (tl s) else s)"

definition parse_on_conflict :: "string \<Rightarrow> string list" where
  "parse_on_conflict src = map strip_quotes (filter (\<lambda>s. s \<noteq> []) (map js_trim (split_on CHR '','' src)))"


section \<open>Every reader uses up text\<close>

lemma starts_arrows: "starts ''->>'' s \<Longrightarrow> starts ''->'' s"
  by (auto split: list.splits)

lemma json_path_cases:
  assumes "json_path s = Inr (ops, r)"
  obtains (no_arrow) "ops = []" and "r = s" and "\<not> starts ''->'' s"
  | (step) tx k r1 ops' where "json_operand (drop (if tx then 3 else 2) s) = Inr (k, r1)" and "json_path r1 = Inr (ops', r)"
      and "ops = Json_op tx (fst k) (snd k) # ops'"
proof (cases "starts ''->>'' s")
  case True
  then obtain k r1 ops' where "json_operand (drop 3 s) = Inr (k, r1)" "json_path r1 = Inr (ops', r)"
      "ops = Json_op True (fst k) (snd k) # ops'"
    using assms by (simp only: json_path.simps [of s] if_True and_then_Inr) auto
  then show thesis using step [of True] by simp
next
  case no_text: False
  show thesis
  proof (cases "starts ''->'' s")
    case True
    then obtain k r1 ops' where "json_operand (drop 2 s) = Inr (k, r1)" "json_path r1 = Inr (ops', r)"
        "ops = Json_op False (fst k) (snd k) # ops'"
      using assms no_text by (simp only: json_path.simps [of s] if_True if_False and_then_Inr) auto
    then show thesis using step [of False] by simp
  next
    case False
    then show thesis using assms no_text no_arrow by (simp only: json_path.simps [of s] if_False) auto
  qed
qed

lemma json_path_length: "json_path s = Inr (ops, r) \<Longrightarrow> length r \<le> length s"
proof (induction s arbitrary: ops rule: measure_induct_rule [of length])
  case (less s)
  from less.prems show ?case
  proof (cases rule: json_path_cases)
    case (step tx k r1 ops')
    have "length r1 < length s" using json_operand_length [OF step(1)] by simp
    then show ?thesis using less.IH [OF _ step(2)] by simp
  qed simp
qed

lemma field_at_length: "field_at s = Inr (f, r) \<Longrightarrow> length r < length s"
  using field_name_length json_path_length by (fastforce simp: field_at_def and_then_Inr)

lemma cast_type_length: "cast_type s = Inr (t, r) \<Longrightarrow> length r \<le> length s"
  using length_dropWhile_le [of is_cast_char "drop 2 s"] by (auto simp: cast_type_def Let_def split: if_splits)

lemma unquoted_value_length: "length (snd (unquoted_value s)) \<le> length s"
  using length_dropWhile_le [of "\<lambda>c. \<not> stops_value c" s]
  by (auto simp: unquoted_value_def braced_def raw_value_def Let_def)

lemma single_value_length: "single_value mode s = Inr (v, r) \<Longrightarrow> length r \<le> length s"
  using unquoted_value_length [of s] quoted_length [of s]
  by (fastforce simp: single_value_def and_then_Inr split: value_mode.splits if_splits option.splits)

lemma list_items_length: "list_items s = Inr (vs, r) \<Longrightarrow> length r \<le> length s"
proof (induction s arbitrary: vs r rule: list_items.induct)
  case (1 s)
  obtain v r0 where i: "list_item s = Inr (v, r0)"
    using 1(2) by (subst (asm) list_items.simps) (auto simp: and_then_Inr)
  show ?case
  proof (cases "starts '','' r0")
    case True
    then obtain vs' where "list_items (tl r0) = Inr (vs', r)"
      using 1(2) i by (subst (asm) list_items.simps) (auto simp: and_then_Inr)
    then have "length r \<le> length (tl r0)" using 1(1) [OF i True] by blast
    then show ?thesis using list_item_length [OF i] by simp
  next
    case False
    then have "expect '')'' r0 = Inr ((), r)"
      using 1(2) i by (subst (asm) list_items.simps) (auto simp: and_then_Inr)
    then show ?thesis using list_item_length [OF i] expect_length [of "'')''" r0] by fastforce
  qed
qed

lemma list_value_length: "list_value s = Inr (vs, r) \<Longrightarrow> length r \<le> length s"
  using list_items_length by (fastforce simp: list_value_def and_then_Inr dest!: expect_length split: if_splits)

lemma fts_head_length: "fts_head s = Some (x, r) \<Longrightarrow> length r \<le> length s"
proof -
  assume "fts_head s = Some (x, r)"
  then obtain f where "r = tl (drop (length (fts_text f)) s)
      \<or> r = drop 2 (dropWhile is_word_char (tl (drop (length (fts_text f)) s)))"
    by (auto simp: fts_head_def Let_def simp del: find.simps starts_Cons split: option.splits if_splits)
  then show ?thesis
    using length_dropWhile_le [of is_word_char "tl (drop (length (fts_text f)) s)"] by auto
qed

lemma simple_operation_length: "simple_operation mode ops s = Inr (x, r) \<Longrightarrow> length r \<le> length s"
proof (induction ops)
  case (Cons op ops)
  then show ?case
    by (fastforce simp: Let_def and_then_Inr quantifier_at_def split: if_splits option.splits dest!: single_value_length)
qed simp

lemma operation_at_length: "operation_at mode s = Inr (x, r) \<Longrightarrow> length r \<le> length s"
  by (fastforce simp: operation_at_def and_then_Inr split: if_splits option.splits
      dest!: single_value_length list_value_length fts_head_length dest: simple_operation_length)

lemma logic_filter_length: "logic_filter s = Some (f, r) \<Longrightarrow> length r < length s"
proof -
  assume "logic_filter s = Some (f, r)"
  then obtain g r1 r2 opn where g: "field_at s = Inr (g, r1)" and e: "expect ''.'' r1 = Inr ((), r2)"
    and w: "operation_at Logic_mode (snd (eat_not r2)) = Inr (opn, r)"
    by (auto simp: logic_filter_def and_then_Inr case_prod_unfold Let_def split: sum.splits if_splits)
  have "length (snd (eat_not r2)) \<le> length r2" by (simp add: eat_not_def)
  then show ?thesis
    using field_at_length [OF g] expect_length [OF e] operation_at_length [OF w] by simp
qed

lemma logic_shorter:
  shows "logic_tree_at s = Inr (t, r) \<Longrightarrow> length r < length s"
    and "logic_forest s = Inr (ts, r) \<Longrightarrow> length r < length s"
proof (induction s and s arbitrary: t r and ts r rule: logic_tree_at_logic_forest.induct)
  case (1 s)
  show ?case
  proof (cases "logic_filter s")
    case None
    with 1(2) obtain h r0 ts r1 where h: "logic_head s = Inr (h, r0)" and f: "logic_forest r0 = Inr (ts, r1)"
      and e: "expect '')'' r1 = Inr ((), r)"
      by (subst (asm) logic_tree_at.simps) (auto simp: and_then_Inr)
    show ?thesis using 1(1) [OF None h f] logic_head_length [OF h] expect_length [OF e] by simp
  next
    case (Some x)
    then show ?thesis using 1(2) logic_filter_length [of s] by (subst (asm) logic_tree_at.simps) (cases x, auto)
  qed
next
  case (2 s)
  obtain t r0 where t: "logic_tree_at s = Inr (t, r0)"
    using 2(3) by (subst (asm) logic_forest.simps) (auto simp: and_then_Inr)
  have l: "length r0 < length s" using 2(1) [OF t] .
  show ?case
  proof (cases "starts '','' r0 \<and> length (tl r0) < length s")
    case True
    then obtain ts' where "logic_forest (tl r0) = Inr (ts', r)"
      using 2(3) t by (subst (asm) logic_forest.simps) (auto simp: and_then_Inr)
    then have "length r < length (tl r0)" using 2(2) [OF t True] by blast
    then show ?thesis using l by simp
  next
    case False
    then have "logic_forest s = Inr ([t], r0)" by (simp only: logic_forest.simps [of s] t and_then_simps if_False)
    then show ?thesis using 2(3) l by simp
  qed
qed

lemma logic_forest_step:
  "logic_forest s = and_then (logic_tree_at s) (\<lambda>t r.
     if starts '','' r then and_then (logic_forest (tl r)) (\<lambda>ts r'. Inr (t # ts, r')) else Inr ([t], r))"
proof (cases "logic_tree_at s")
  case (Inr x)
  then show ?thesis
    using logic_shorter(1) [of s "fst x" "snd x"] by (subst logic_forest.simps) (cases x, auto)
qed (subst logic_forest.simps, simp)

lemma item_end_length: "item_end why it r = Inr (x, r') \<Longrightarrow> r' = r \<and> x = it"
  by (auto simp: item_end_def split: if_splits)

lemma aggregate_length: "length (snd (aggregate_at s)) \<le> length s"
  by (auto simp: aggregate_at_def split: option.split)

lemma plain_item_length: "plain_item s = Inr (it, r) \<Longrightarrow> length r < length s"
proof -
  assume a: "plain_item s = Inr (it, r)"
  show ?thesis
  proof (cases "starts ''*'' s")
    case True
    then show ?thesis using a by (cases s) (auto simp: plain_item_def dest: item_end_length)
  next
    case star: False
    let ?r = "snd (optional_alias s)"
    show ?thesis
    proof (cases "starts ''count()'' ?r")
      case True
      then obtain cast r1 where "cast_type (drop 7 ?r) = Inr (cast, r1)" "r = r1"
        using a star by (auto simp: plain_item_def and_then_Inr case_prod_unfold Let_def dest: item_end_length simp del: starts_Cons)
      then have "length r \<le> length ?r - 7" using cast_type_length [of "drop 7 ?r"] by simp
      moreover have "7 \<le> length ?r" using True by (auto split: list.splits)
      ultimately show ?thesis using optional_alias_length [of s] by simp
    next
      case False
      then obtain f r1 cast r2 where f: "field_at ?r = Inr (f, r1)" and c: "cast_type r1 = Inr (cast, r2)"
        and w9: "r = snd (aggregate_at r2) \<or> (\<exists>ac. cast_type (snd (aggregate_at r2)) = Inr (ac, r))"
        using a star
        by (auto simp: plain_item_def and_then_Inr case_prod_unfold Let_def simp del: starts_Cons
            dest!: item_end_length split: if_splits)
      have "length r \<le> length r2" using w9 aggregate_length [of r2] cast_type_length by fastforce
      then show ?thesis
        using field_at_length [OF f] cast_type_length [OF c] optional_alias_length [of s] by simp
    qed
  qed
qed

lemma select_shorter:
  shows "select_tree s = Inr (t, r) \<Longrightarrow> length r < length s"
    and "select_items s = Inr (ts, r) \<Longrightarrow> length r < length s"
    and "select_forest s = Inr (ts, r) \<Longrightarrow> length r \<le> length s"
proof (induction s and s and s arbitrary: t r and ts r and ts r rule: select_tree_select_items_select_forest.induct)
  case (1 s)
  obtain h r0 where h: "embed_head_at s = Inr (h, r0)"
    using 1(2) by (subst (asm) select_tree.simps) (auto simp: and_then_Inr)
  show ?case
  proof (cases h)
    case None
    then show ?thesis using 1(2) h by (subst (asm) select_tree.simps) (auto dest: plain_item_length)
  next
    case (Some x)
    obtain al n hint jt spread where x: "x = (al, n, (hint, jt), spread)" by (cases x) auto
    with 1(2) h Some obtain its r1 where f: "select_forest r0 = Inr (its, r1)" and e: "expect '')'' r1 = Inr ((), r)"
      by (subst (asm) select_tree.simps) (auto simp: and_then_Inr eat_close_def)
    have "length r1 \<le> length r0" using 1(1) [OF h] Some x f by auto
    then show ?thesis using embed_head_length [of s x r0] h Some expect_length [OF e] by simp
  qed
next
  case (2 s)
  obtain t r0 where t: "select_tree s = Inr (t, r0)"
    using 2(3) by (subst (asm) select_items.simps) (auto simp: and_then_Inr)
  have l: "length r0 < length s" using 2(1) [OF t] .
  show ?case
  proof (cases "starts '','' r0 \<and> length (tl r0) < length s")
    case True
    then obtain ts' where "select_items (tl r0) = Inr (ts', r)"
      using 2(3) t by (subst (asm) select_items.simps) (auto simp: and_then_Inr)
    then have "length r < length (tl r0)" using 2(2) [OF t True] by blast
    then show ?thesis using l by simp
  next
    case False
    then have "select_items s = Inr ([t], r0)" by (simp only: select_items.simps [of s] t and_then_simps if_False)
    then show ?thesis using 2(3) l by simp
  qed
next
  case (3 s)
  show ?case using 3(2) 3(1) [of ts r] by (auto simp: select_forest.simps [of s] split: if_splits)
qed

lemma select_items_step:
  "select_items s = and_then (select_tree s) (\<lambda>t r.
     if starts '','' r then and_then (select_items (tl r)) (\<lambda>ts r'. Inr (t # ts, r')) else Inr ([t], r))"
proof (cases "select_tree s")
  case (Inr x)
  then show ?thesis
    using select_shorter(1) [of s "fst x" "snd x"] by (subst select_items.simps) (cases x, auto)
qed (subst select_items.simps, simp)

end
