(* ===== verification/Sql_Text.thy ===== *)
theory Sql_Text
  imports Js_Values
begin

text \<open>
  The text helpers of the data layer (\<open>server/db/postgrest/sql.ts\<close>): quoted identifiers and literals,
  the bind parameters of a statement and the names of cast types. The lemmas show that a quoted name
  ends where it should, whatever it holds, and say of which pieces a statement may be made.
\<close>

section \<open>Quoting\<close>

definition double_every :: "char \<Rightarrow> string \<Rightarrow> string" where
  "double_every q s = concat (map (\<lambda>c. if c = q then [q, q] else [c]) s)"

definition qi :: "string \<Rightarrow> string" where
  "qi name = CHR 0x22 # double_every CHR 0x22 name @ [CHR 0x22]"

definition ql :: "string \<Rightarrow> string" where
  "ql value = CHR 0x27 # double_every CHR 0x27 value @ [CHR 0x27]"

definition qtable :: "string \<Rightarrow> string \<Rightarrow> string" where
  "qtable schema name = qi schema @ ''.'' @ qi name"

text \<open>How a quoted token is read: a doubled quote stands for one, a single one ends the token.\<close>

fun read_quoted_tail :: "char \<Rightarrow> string \<Rightarrow> (string \<times> string) option" where
  "read_quoted_tail q [] = None"
| "read_quoted_tail q (c # s) =
     (if c \<noteq> q then map_option (\<lambda>(t, r). (c # t, r)) (read_quoted_tail q s)
      else case s of
             d # s' \<Rightarrow> if d = q then map_option (\<lambda>(t, r). (q # t, r)) (read_quoted_tail q s') else Some ([], s)
           | [] \<Rightarrow> Some ([], []))"

definition read_quoted :: "char \<Rightarrow> string \<Rightarrow> (string \<times> string) option" where
  "read_quoted q s = (case s of c # r \<Rightarrow> if c = q then read_quoted_tail q r else None | [] \<Rightarrow> None)"

definition starts_with_char :: "char \<Rightarrow> string \<Rightarrow> bool" where
  "starts_with_char q s = (s \<noteq> [] \<and> hd s = q)"

lemma starts_with_char_simps [simp]:
  "\<not> starts_with_char q []" "starts_with_char q (c # s) = (c = q)"
  by (simp_all add: starts_with_char_def)

lemma double_every_simps [simp]:
  "double_every q [] = []"
  "double_every q (c # s) = (if c = q then q # q # double_every q s else c # double_every q s)"
  by (simp_all add: double_every_def)

lemma read_quoted_tail_double:
  "\<not> starts_with_char q r \<Longrightarrow> read_quoted_tail q (double_every q s @ q # r) = Some (s, r)"
  by (induction s) (cases r; simp)+

lemma read_quoted_ident: "\<not> starts_with_char CHR 0x22 r \<Longrightarrow> read_quoted CHR 0x22 (qi name @ r) = Some (name, r)"
  by (simp add: read_quoted_def qi_def read_quoted_tail_double)

lemma read_quoted_literal: "\<not> starts_with_char CHR 0x27 r \<Longrightarrow> read_quoted CHR 0x27 (ql v @ r) = Some (v, r)"
  by (simp add: read_quoted_def ql_def read_quoted_tail_double)

section \<open>Bind parameters\<close>

text \<open>A bound value is a text, a list of texts, or the JSON text of a value.\<close>

datatype bind_value = Text_value string | List_value "string list" | Json_value jsval

type_synonym params = "bind_value list"

definition params_add :: "bind_value \<Rightarrow> params \<Rightarrow> string \<times> params" where
  "params_add v ps = (CHR ''$'' # show_nat (Suc (length ps)), ps @ [v])"

section \<open>Cast types\<close>

definition ascii_letter :: "char \<Rightarrow> bool" where
  "ascii_letter c \<longleftrightarrow> 65 \<le> code_of c \<and> code_of c \<le> 90 \<or> 97 \<le> code_of c \<and> code_of c \<le> 122"

definition type_name_ok :: "string \<Rightarrow> bool" where
  "type_name_ok t =
     (let body = (if 2 \<le> length t \<and> drop (length t - 2) t = ''[]'' then take (length t - 2) t else t)
      in case body of
           [] \<Rightarrow> False
         | c # cs \<Rightarrow> (ascii_letter c \<or> c = CHR ''_'')
             \<and> list_all (\<lambda>d. ascii_letter d \<or> is_digit d \<or> d = CHR ''_'' \<or> d = CHR '' '') cs)"

definition safe_type_name :: "string \<Rightarrow> string option" where
  "safe_type_name t = (let trimmed = js_trim t in if type_name_ok trimmed then Some trimmed else None)"

section \<open>What a statement is made of\<close>

definition json_index :: "string \<Rightarrow> bool" where
  "json_index k =
     (case k of
        [] \<Rightarrow> False
      | c # cs \<Rightarrow> if c = CHR ''-'' then cs \<noteq> [] \<and> list_all is_digit cs else list_all is_digit k)"

text \<open>
  A text made of fixed pieces, quoted names and literals, numbers, placeholders, array indices behind
  an arrow and checked type names inside a cast: nothing else of a request can be in it.
\<close>

inductive sql_text :: "string set \<Rightarrow> string \<Rightarrow> bool" for fixed where
  sql_empty: "sql_text fixed []"
| sql_fixed: "w \<in> fixed \<Longrightarrow> sql_text fixed w"
| sql_name: "sql_text fixed (qi name)"
| sql_literal: "sql_text fixed (ql v)"
| sql_number: "sql_text fixed (show_nat n)"
| sql_index: "arrow \<in> {''->'', ''->>''} \<Longrightarrow> json_index k \<Longrightarrow> sql_text fixed (arrow @ k)"
| sql_placeholder: "sql_text fixed (CHR ''$'' # show_nat n)"
| sql_cast: "sql_text fixed e \<Longrightarrow> type_name_ok t \<Longrightarrow> sql_text fixed (''CAST('' @ e @ '' AS '' @ t @ '')'')"
| sql_append: "sql_text fixed s \<Longrightarrow> sql_text fixed t \<Longrightarrow> sql_text fixed (s @ t)"

named_theorems sql_text_intros \<open>introduction rules for statement texts\<close>

lemmas [sql_text_intros] = sql_empty sql_name sql_literal sql_number sql_append

lemma sql_fixed_append: "w \<in> fixed \<Longrightarrow> sql_text fixed t \<Longrightarrow> sql_text fixed (w @ t)"
  by (rule sql_append [OF sql_fixed])

lemma sql_qtable [sql_text_intros]: "''.'' \<in> fixed \<Longrightarrow> sql_text fixed (qtable s n)"
  unfolding qtable_def by (intro sql_append sql_name sql_fixed)

lemma sql_params_add: "sql_text fixed (fst (params_add v ps))"
  by (simp add: params_add_def sql_placeholder)

end
