(* ===== verification/Query_Roundtrip.thy ===== *)
theory Query_Roundtrip
  imports Query_Grammar Sql_Text
begin

text \<open>
  Printing the trees of the query grammar and reading them back. Names are printed in quotes with
  escapes, so that any text can be a name; the readers of \<open>Query_Grammar\<close> give the tree that was
  printed, and what they accept is always a tree of the printable form: an array index of a JSON path is
  an integer, a cast is a nonempty word, a quantifier stands on an operator that takes one.
\<close>

section \<open>Lists with commas between the items\<close>

definition commas :: "string list \<Rightarrow> string" where
  "commas ws = (case ws of [] \<Rightarrow> [] | w # vs \<Rightarrow> w @ concat (map (\<lambda>v. '','' @ v) vs))"

lemma commas_simps [simp]:
  "commas [] = []" "commas [w] = w" "commas (w # v # vs) = w @ '','' @ commas (v # vs)"
  by (simp_all add: commas_def)

text \<open>A reader that always uses up some of its text.\<close>

locale item_reader =
  fixes item :: "string \<Rightarrow> 'a parsed"
  assumes consumes: "item s = Inr (x, r) \<Longrightarrow> length r < length s"
begin

lemma comma_list_step:
  "comma_list item s = and_then (item s) (\<lambda>x r.
     if r = [] then Inr ([x], [])
     else and_then (expect '','' r) (\<lambda>u r1. and_then (comma_list item r1) (\<lambda>xs r2. Inr (x # xs, r2))))"
proof (cases "item s")
  case (Inr p)
  then obtain x r where i: "item s = Inr (x, r)" by (cases p) auto
  have "length r1 < length s" if "expect '','' r = Inr (u, r1)" for u r1
    using consumes [OF i] expect_length [OF that] by simp
  then show ?thesis by (subst comma_list.simps) (auto simp: i and_then_def split: sum.split)
qed (subst comma_list.simps, simp)

end

text \<open>A reader that gives back what a printer wrote, up to a comma or the end.\<close>

locale printed_item = item_reader item for item :: "string \<Rightarrow> 'a parsed" +
  fixes show_item :: "'a \<Rightarrow> string" and printable :: "'a \<Rightarrow> bool"
  assumes reads_back: "printable x \<Longrightarrow> r = [] \<or> hd r = CHR '','' \<Longrightarrow> item (show_item x @ r) = Inr (x, r)"
begin

lemma comma_list_printed:
  "list_all printable xs \<Longrightarrow> xs \<noteq> [] \<Longrightarrow> comma_list item (commas (map show_item xs)) = Inr (xs, [])"
proof (induction xs)
  case (Cons x xs)
  show ?case
  proof (cases xs)
    case Nil
    then show ?thesis
      using Cons.prems reads_back [of x "[]"] by (subst comma_list_step) simp
  next
    case (Cons y ys)
    have "item (show_item x @ '','' @ commas (map show_item xs)) = Inr (x, '','' @ commas (map show_item xs))"
      using Cons.prems by (intro reads_back) auto
    then show ?thesis
      using Cons.IH Cons.prems Cons by (subst comma_list_step) (simp add: expect_def)
  qed
qed simp

end

section \<open>Names and paths\<close>

definition escape :: "string \<Rightarrow> string" where
  "escape t = concat (map (\<lambda>c. if c = CHR 0x22 \<or> c = CHR 0x5C then [CHR 0x5C, c] else [c]) t)"

definition show_quoted :: "string \<Rightarrow> string" where
  "show_quoted t = CHR 0x22 # escape t @ [CHR 0x22]"

lemma quoted_body_escape: "quoted_body (escape t @ CHR 0x22 # r) = Inr (t, r)"
  by (induction t) (auto simp: escape_def)

lemma quoted_show: "quoted_at (show_quoted t @ r) = Inr (Some t, r)"
  by (simp add: quoted_at_def show_quoted_def quoted_body_escape)

lemma field_name_show [simp]: "field_name_at (show_quoted t @ r) = Inr (t, r)"
  by (simp add: field_name_at_def quoted_show)

lemma show_quoted_Cons: "\<exists>w. show_quoted t = CHR 0x22 # w"
  by (simp add: show_quoted_def)

definition show_json :: "json_op \<Rightarrow> string" where
  "show_json j = (if shows_text j then ''->>'' else ''->'')
     @ (if is_index j then json_key j else show_quoted (json_key j))"

definition json_ok :: "json_op \<Rightarrow> bool" where
  "json_ok j \<longleftrightarrow> (is_index j \<longrightarrow> json_index (json_key j))"

definition show_field :: "field_ref \<Rightarrow> string" where
  "show_field f = show_quoted (field_name f) @ concat (map show_json (field_json f))"

definition field_ok :: "field_ref \<Rightarrow> bool" where
  "field_ok f \<longleftrightarrow> list_all json_ok (field_json f)"

text \<open>Where a field may end: what ends an array index, and no arrow.\<close>

definition ends_field :: "string \<Rightarrow> bool" where
  "ends_field r \<longleftrightarrow> ends_index r \<and> \<not> starts ''->'' r"

interpretation field_names: item_reader field_name_at
  by unfold_locales (rule field_name_length)

interpretation column_list: printed_item field_name_at show_quoted "\<lambda>t. True"
  by unfold_locales simp

lemma ends_index_no_digit: "ends_index r \<Longrightarrow> takeWhile is_digit r = [] \<and> dropWhile is_digit r = r"
  by (cases r) (auto simp: ends_index_def is_digit_def)

lemma int_prefix_index:
  assumes "json_index k" "ends_index r"
  shows "int_prefix (k @ r) = Some (k, r)"
proof -
  obtain c cs where k: "k = c # cs" using assms(1) by (cases k) (auto simp: json_index_def)
  have stop: "takeWhile is_digit (ds @ r) = ds" "dropWhile is_digit (ds @ r) = r" if "list_all is_digit ds" for ds
    using that ends_index_no_digit [OF assms(2)] by (auto simp: list_all_iff)
  show ?thesis
  proof (cases "c = CHR ''-''")
    case True
    then have "cs \<noteq> []" "list_all is_digit cs" using assms(1) k by (auto simp: json_index_def)
    then show ?thesis using True k stop [of cs] by (auto simp: int_prefix_def)
  next
    case False
    then have "list_all is_digit (c # cs)" using assms(1) k by (auto simp: json_index_def)
    then show ?thesis using False k stop [of "c # cs"] by (auto simp: int_prefix_def simp del: takeWhile.simps dropWhile.simps)
  qed
qed

lemma int_prefix_quoted: "int_prefix (CHR 0x22 # w) = None"
  by (simp add: int_prefix_def is_digit_def)

lemma json_operand_show:
  assumes "json_ok j" "ends_index r"
  shows "json_operand ((if is_index j then json_key j else show_quoted (json_key j)) @ r) = Inr ((json_key j, is_index j), r)"
proof (cases "is_index j")
  case True
  then show ?thesis using assms int_prefix_index [of "json_key j" r] by (simp add: json_operand_def json_ok_def)
next
  case False
  have "int_prefix (show_quoted (json_key j) @ r) = None" by (simp add: show_quoted_def int_prefix_quoted)
  then show ?thesis using False by (simp add: json_operand_def)
qed

lemma ends_index_arrow: "ends_index (concat (map show_json ops) @ r)" if "ends_index r"
  using that by (cases ops) (auto simp: ends_index_def show_json_def)

lemma json_operand_no_angle: "json_ok j \<Longrightarrow>
    \<not> starts ''>'' ((if is_index j then json_key j else show_quoted (json_key j)) @ r)"
  by (auto simp: json_ok_def json_index_def show_quoted_def is_digit_def split: list.splits if_splits)

lemma json_path_show:
  "list_all json_ok ops \<Longrightarrow> ends_field r \<Longrightarrow> json_path (concat (map show_json ops) @ r) = Inr (ops, r)"
proof (induction ops)
  case Nil
  then have "\<not> starts ''->'' r" by (simp add: ends_field_def)
  then show ?case using starts_arrows [of r] by (subst json_path.simps) (auto simp del: starts_Cons)
next
  case (Cons j ops)
  let ?k = "(if is_index j then json_key j else show_quoted (json_key j))"
  let ?r = "concat (map show_json ops) @ r"
  have j: "json_operand (?k @ ?r) = Inr ((json_key j, is_index j), ?r)"
    using Cons.prems by (intro json_operand_show ends_index_arrow) (auto simp: ends_field_def)
  have no: "\<not> starts ''>'' (?k @ ?r)" using Cons.prems json_operand_no_angle [of j ?r] by simp
  have ih: "json_path ?r = Inr (ops, r)" using Cons by simp
  show ?case
  proof (cases "shows_text j")
    case True
    then have "concat (map show_json (j # ops)) @ r = ''->>'' @ ?k @ ?r" by (simp add: show_json_def)
    then show ?thesis using True j ih by (cases j) (subst json_path.simps, simp)
  next
    case False
    then have "concat (map show_json (j # ops)) @ r = ''->'' @ ?k @ ?r" by (simp add: show_json_def)
    then show ?thesis using False j ih no by (cases j) (subst json_path.simps, auto)
  qed
qed

lemma field_at_show: "field_ok f \<Longrightarrow> ends_field r \<Longrightarrow> field_at (show_field f @ r) = Inr (f, r)"
  using json_path_show [of "field_json f" r] by (simp add: field_at_def show_field_def field_ok_def)

text \<open>What the readers give is printable.\<close>

lemma int_prefix_json_index: "int_prefix s = Some (k, r) \<Longrightarrow> json_index k"
  by (auto simp: int_prefix_def json_index_def Let_def list_all_iff is_digit_def dest: set_takeWhileD split: if_splits list.splits)

lemma json_operand_ok: "json_operand s = Inr (k, r) \<Longrightarrow> snd k \<Longrightarrow> json_index (fst k)"
  using int_prefix_json_index by (fastforce simp: json_operand_def and_then_Inr split: option.splits prod.splits if_splits)

lemma json_path_ok: "json_path s = Inr (ops, r) \<Longrightarrow> list_all json_ok ops"
proof (induction s arbitrary: ops rule: measure_induct_rule [of length])
  case (less s)
  from less.prems show ?case
  proof (cases rule: json_path_cases)
    case (step tx k r1 ops')
    have "length r1 < length s" using json_operand_length [OF step(1)] by simp
    then show ?thesis using less.IH [OF _ step(2)] step(3) json_operand_ok [OF step(1)] by (simp add: json_ok_def)
  qed simp
qed

lemma field_at_ok: "field_at s = Inr (f, r) \<Longrightarrow> field_ok f"
  using json_path_ok by (fastforce simp: field_at_def field_ok_def and_then_Inr)

section \<open>Operations\<close>

definition show_value :: "value_mode \<Rightarrow> string \<Rightarrow> string" where
  "show_value mode v = (case mode of Query_mode \<Rightarrow> v | Logic_mode \<Rightarrow> show_quoted v)"

text \<open>Where a value may end: a query value runs to the end of its parameter.\<close>

definition ends_value :: "value_mode \<Rightarrow> string \<Rightarrow> bool" where
  "ends_value mode r = (case mode of Query_mode \<Rightarrow> r = [] | Logic_mode \<Rightarrow> at_item_end r)"

definition show_quantifier :: "quantifier option \<Rightarrow> string" where
  "show_quantifier q = (case q of None \<Rightarrow> [] | Some Any_of \<Rightarrow> ''(any)'' | Some All_of \<Rightarrow> ''(all)'')"

fun show_operation :: "value_mode \<Rightarrow> operation \<Rightarrow> string" where
  "show_operation mode (In_op vs) = ''in.('' @ commas (map show_quoted vs) @ '')''"
| "show_operation mode (Is_op v) = ''is.'' @ is_text v"
| "show_operation mode (Isdistinct_op v) = ''isdistinct.'' @ show_value mode v"
| "show_operation mode (Fts_op f lang v) =
     fts_text f @ (case lang of None \<Rightarrow> [] | Some l \<Rightarrow> ''('' @ l @ '')'') @ ''.'' @ show_value mode v"
| "show_operation mode (Simple_op op q v) =
     simple_op_text op @ show_quantifier q @ ''.'' @ show_value mode v"

fun operation_ok :: "operation \<Rightarrow> bool" where
  "operation_ok (Fts_op f (Some l) v) \<longleftrightarrow> l \<noteq> [] \<and> list_all is_word_char l"
| "operation_ok (Simple_op op (Some q) v) \<longleftrightarrow> op \<in> set QUANTIFIABLE"
| "operation_ok opn \<longleftrightarrow> True"

lemma single_value_show: "ends_value mode r \<Longrightarrow> single_value mode (show_value mode v @ r) = Inr (v, r)"
proof (cases mode)
  case Logic_mode
  have "starts [CHR 0x22] (show_quoted v @ r)" by (simp add: show_quoted_def)
  then show "ends_value mode r \<Longrightarrow> ?thesis"
    using Logic_mode by (simp add: single_value_def show_value_def ends_value_def quoted_show del: starts_Cons)
qed (simp add: single_value_def show_value_def ends_value_def)

lemma list_item_show: "r \<noteq> [] \<Longrightarrow> hd r = CHR '','' \<or> hd r = CHR '')'' \<Longrightarrow> list_item (show_quoted v @ r) = Inr (v, r)"
proof -
  assume "r \<noteq> []" "hd r = CHR '','' \<or> hd r = CHR '')''"
  then have "starts '','' r \<or> starts '')'' r" by (cases r) auto
  moreover have "starts [CHR 0x22] (show_quoted v @ r)" by (simp add: show_quoted_def)
  ultimately show ?thesis by (simp add: list_item_def quoted_show del: starts_Cons)
qed

lemma list_items_show:
  "vs \<noteq> [] \<Longrightarrow> list_items (commas (map show_quoted vs) @ CHR '')'' # r) = Inr (vs, r)"
proof (induction vs)
  case (Cons v vs)
  show ?case
  proof (cases vs)
    case Nil
    then show ?thesis by (subst list_items.simps) (simp add: list_item_show expect_def)
  next
    case (Cons u us)
    then show ?thesis using Cons.IH by (subst list_items.simps) (simp add: list_item_show)
  qed
qed simp

lemma list_value_show: "list_value (''('' @ commas (map show_quoted vs) @ '')'' @ r) = Inr (vs, r)"
proof (cases vs)
  case (Cons v ws)
  have "list_items (commas (map show_quoted vs) @ CHR '')'' # r) = Inr (vs, r)" using Cons by (intro list_items_show) simp
  moreover have "\<not> starts '')'' (commas (map show_quoted vs) @ CHR '')'' # r)"
    using Cons by (cases ws) (simp_all add: show_quoted_def)
  ultimately show ?thesis by (simp add: list_value_def expect_def del: starts_Cons) (simp add: starts_def)
qed (simp add: list_value_def expect_def)

lemma is_text_plain: "list_all (\<lambda>c. \<not> stops_value c) (is_text v)"
  by (cases v) (simp_all add: stops_value_def)

lemma raw_value_is: "at_item_end r \<Longrightarrow> unquoted_value (is_text v @ r) = (is_text v, r)"
proof -
  assume r: "at_item_end r"
  have b: "braced (is_text v @ r) = None" by (cases v) (simp_all add: braced_def)
  have "takeWhile (\<lambda>c. \<not> stops_value c) (is_text v @ r) = is_text v
      \<and> dropWhile (\<lambda>c. \<not> stops_value c) (is_text v @ r) = r"
    using is_text_plain [of v] r by (cases r) (auto simp: list_all_iff at_item_end_def stops_value_def)
  then show ?thesis by (simp add: unquoted_value_def b raw_value_def)
qed

lemma single_value_is: "ends_value mode r \<Longrightarrow> single_value mode (is_text v @ r) = Inr (is_text v, r)"
  using raw_value_is [of r v]
  by (cases mode; cases v) (simp_all add: single_value_def ends_value_def)

lemma read_is_text [simp]: "read_is (js_lower (is_text v)) = Some v"
  by (cases v) (simp_all add: read_is_def js_lower_def js_lower_char_def latin1_upper_def)

lemma fts_lang_end: "list_all is_word_char l \<Longrightarrow>
    takeWhile is_word_char (l @ CHR '')'' # r) = l \<and> dropWhile is_word_char (l @ CHR '')'' # r) = CHR '')'' # r"
proof -
  assume "list_all is_word_char l"
  moreover have "\<not> is_word_char CHR '')''" by (simp add: is_word_char_def latin1_letter_def latin1_number_def is_digit_def)
  ultimately show ?thesis by (auto simp: list_all_iff)
qed

lemma fts_head_show:
  "(\<forall>l. lang = Some l \<longrightarrow> l \<noteq> [] \<and> list_all is_word_char l) \<Longrightarrow>
   fts_head (fts_text f @ (case lang of None \<Rightarrow> [] | Some l \<Rightarrow> ''('' @ l @ '')'') @ ''.'' @ r) = Some ((f, lang), r)"
  using fts_lang_end [of "the lang" "CHR ''.'' # r"]
  by (cases f; cases lang) (simp_all add: fts_head_def)

lemma simple_operation_skip:
  "\<not> starts (simple_op_text op @ ''.'') s \<Longrightarrow> \<not> starts (simple_op_text op @ ''('') s \<Longrightarrow>
   simple_operation mode (op # ops) s = simple_operation mode ops s"
proof -
  assume no: "\<not> starts (simple_op_text op @ ''.'') s" "\<not> starts (simple_op_text op @ ''('') s"
  show ?thesis
  proof (cases "starts (simple_op_text op) s")
    case True
    then obtain r where s: "s = simple_op_text op @ r" by (metis append_take_drop_id starts_def)
    have "\<not> starts ''.'' r" "\<not> starts ''('' r" using no s by (auto simp: starts_def)
    moreover from this have "quantifier_at r = None" by (auto simp: quantifier_at_def split: list.splits)
    ultimately show ?thesis by (simp add: s Let_def del: starts_Cons)
  qed simp
qed

lemma simple_operation_hit:
  assumes "q = None \<or> op \<in> set QUANTIFIABLE" "ends_value mode r"
  shows "simple_operation mode (op # ops) (simple_op_text op @ show_quantifier q @ ''.'' @ show_value mode v @ r)
    = Inr (Simple_op op q v, r)"
proof (cases q)
  case None
  have "quantifier_at (CHR ''.'' # w) = None" for w by (simp add: quantifier_at_def)
  then show ?thesis using None single_value_show [OF assms(2), of v] by (simp add: show_quantifier_def Let_def)
next
  case (Some k)
  then have "op \<in> set QUANTIFIABLE" using assms(1) by simp
  moreover have "quantifier_at (show_quantifier q @ ''.'' @ w) = Some (k, w)" for w
    using Some by (cases k) (simp_all add: show_quantifier_def quantifier_at_def)
  ultimately show ?thesis using Some single_value_show [OF assms(2), of v] by (simp add: Let_def)
qed

lemma simple_op_texts_differ:
  "simple_op_text op' \<noteq> simple_op_text op \<Longrightarrow> c \<in> {CHR ''.'', CHR ''(''} \<Longrightarrow> d \<in> {CHR ''.'', CHR ''(''} \<Longrightarrow>
   \<not> starts (simple_op_text op' @ [c]) (simple_op_text op @ d # w)"
  by (cases op; cases op') auto

lemma simple_operation_show:
  assumes "q = None \<or> op \<in> set QUANTIFIABLE" "ends_value mode r" "op \<in> set ops"
  shows "simple_operation mode ops (simple_op_text op @ show_quantifier q @ ''.'' @ show_value mode v @ r)
    = Inr (Simple_op op q v, r)"
  using assms(3)
proof (induction ops)
  case (Cons op' ops)
  obtain d w where w: "show_quantifier q @ ''.'' @ show_value mode v @ r = d # w" "d \<in> {CHR ''.'', CHR ''(''}"
    by (cases q rule: option.exhaust; cases "the q") (auto simp: show_quantifier_def)
  show ?case
  proof (cases "op' = op")
    case True
    then show ?thesis using simple_operation_hit [OF assms(1,2)] by simp
  next
    case False
    then have "simple_op_text op' \<noteq> simple_op_text op" by (cases op; cases op') simp_all
    then have "simple_operation mode (op' # ops) (simple_op_text op @ d # w) = simple_operation mode ops (simple_op_text op @ d # w)"
      using simple_op_texts_differ [of op' op _ d w] w(2) by (intro simple_operation_skip) blast+
    then show ?thesis using Cons False w(1) by simp
  qed
qed simp

lemma operation_at_show:
  assumes "operation_ok opn" "ends_value mode r"
  shows "operation_at mode (show_operation mode opn @ r) = Inr (opn, r)"
proof (cases opn)
  case (In_op vs)
  then show ?thesis using list_value_show [of vs r] by (simp add: operation_at_def)
next
  case (Is_op v)
  then show ?thesis using single_value_is [OF assms(2), of v] by (simp add: operation_at_def)
next
  case (Isdistinct_op v)
  then show ?thesis using single_value_show [OF assms(2), of v] by (simp add: operation_at_def)
next
  case (Fts_op f lang v)
  have "\<forall>l. lang = Some l \<longrightarrow> l \<noteq> [] \<and> list_all is_word_char l" using assms(1) Fts_op by auto
  from fts_head_show [OF this, of f "show_value mode v @ r"] show ?thesis
    using Fts_op single_value_show [OF assms(2), of v] by (cases f) (simp_all add: operation_at_def)
next
  case (Simple_op op q v)
  have n: "\<not> starts ''in.'' (show_operation mode opn @ r)" "\<not> starts ''is.'' (show_operation mode opn @ r)"
    "\<not> starts ''isdistinct.'' (show_operation mode opn @ r)" "fts_head (show_operation mode opn @ r) = None"
    using Simple_op by (cases op; simp add: fts_head_def)+
  show ?thesis
    using n assms Simple_op simple_operation_show [of q op mode r SIMPLE_OPS v]
    by (cases q; cases op) (simp_all add: operation_at_def SIMPLE_OPS_def del: starts_Cons simple_operation.simps)
qed

text \<open>Whatever operation is read is a printable one.\<close>

lemma simple_operation_ok: "simple_operation mode ops s = Inr (opn, r) \<Longrightarrow> operation_ok opn"
  by (induction ops) (auto simp: Let_def and_then_Inr split: if_splits option.splits)

lemma fts_head_ok: "fts_head s = Some ((f, lang), r) \<Longrightarrow> (\<forall>l. lang = Some l \<longrightarrow> l \<noteq> [] \<and> list_all is_word_char l)"
  by (auto simp: fts_head_def Let_def list_all_iff simp del: find.simps starts_Cons dest: set_takeWhileD
      split: option.splits if_splits)

lemma fts_operation_ok: "(\<forall>l. lang = Some l \<longrightarrow> l \<noteq> [] \<and> list_all is_word_char l) \<Longrightarrow> operation_ok (Fts_op f lang v)"
  by (cases lang) auto

lemma operation_at_ok: "operation_at mode s = Inr (opn, r) \<Longrightarrow> operation_ok opn"
  using simple_operation_ok fts_operation_ok [OF fts_head_ok]
  by (fastforce simp: operation_at_def and_then_Inr simp del: starts_Cons split: if_splits option.splits)

section \<open>Filters and logic trees\<close>

definition show_op_expr :: "value_mode \<Rightarrow> op_expr \<Rightarrow> string" where
  "show_op_expr mode e = (if op_negate e then ''not.'' else []) @ show_operation mode (op_operation e)"

definition show_filter :: "filter_term \<Rightarrow> string" where
  "show_filter f = show_field (filter_field f) @ ''.'' @ show_op_expr Logic_mode (filter_expr f)"

definition filter_ok :: "filter_term \<Rightarrow> bool" where
  "filter_ok f \<longleftrightarrow> field_ok (filter_field f) \<and> operation_ok (op_operation (filter_expr f))"

fun logic_word :: "logic_op \<Rightarrow> string" where
  "logic_word And_op = ''and''"
| "logic_word Or_op = ''or''"

fun show_logic :: "logic_tree \<Rightarrow> string" where
  "show_logic (Filter_leaf f) = show_filter f"
| "show_logic (Logic_expr neg op ts) =
     (if neg then ''not.'' else []) @ logic_word op @ ''('' @ commas (map show_logic ts) @ '')''"

fun logic_ok :: "logic_tree \<Rightarrow> bool" where
  "logic_ok (Filter_leaf f) \<longleftrightarrow> filter_ok f"
| "logic_ok (Logic_expr neg op ts) \<longleftrightarrow> ts \<noteq> [] \<and> list_all logic_ok ts"

lemma eat_not_operation: "eat_not (show_operation mode opn @ r) = (False, show_operation mode opn @ r)"
proof -
  have "\<not> starts ''not.'' (show_operation mode opn @ r)"
  proof (cases opn)
    case (Fts_op f lang v)
    then show ?thesis by (cases f) simp_all
  next
    case (Simple_op op q v)
    then show ?thesis by (cases op) simp_all
  qed simp_all
  then show ?thesis by (simp add: eat_not_def del: starts_Cons)
qed

lemma op_expr_show:
  assumes "operation_ok (op_operation e)" "ends_value mode r"
  shows "(let (neg, r1) = eat_not (show_op_expr mode e @ r)
          in and_then (operation_at mode r1) (\<lambda>opn r2. k \<lparr>op_negate = neg, op_operation = opn\<rparr> r2)) = k e r"
proof (cases "op_negate e")
  case True
  then show ?thesis using operation_at_show [OF assms] by (cases e) (simp add: show_op_expr_def eat_not_def)
next
  case False
  then show ?thesis using operation_at_show [OF assms] by (cases e) (simp add: show_op_expr_def eat_not_operation)
qed

lemma parse_op_expr_show: "operation_ok (op_operation e) \<Longrightarrow> parse_op_expr (show_op_expr Query_mode e) col = Inr e"
  using op_expr_show [of e Query_mode "[]" "\<lambda>e r. Inr (e, r)"]
  by (simp add: parse_op_expr_def run_parser_def ends_value_def)

lemma ends_field_dot: "ends_field (CHR ''.'' # r)"
  by (simp add: ends_field_def ends_index_def)

lemma logic_filter_show:
  assumes "filter_ok f" "at_item_end r"
  shows "logic_filter (show_filter f @ r) = Some (f, r)"
proof -
  have f: "field_at (show_field (filter_field f) @ CHR ''.'' # w) = Inr (filter_field f, CHR ''.'' # w)" for w
    using assms(1) by (intro field_at_show ends_field_dot) (simp add: filter_ok_def)
  have e: "(let (neg, r1) = eat_not (show_op_expr Logic_mode (filter_expr f) @ r)
      in and_then (operation_at Logic_mode r1) (\<lambda>opn r2.
        Inr (\<lparr>filter_field = filter_field f, filter_expr = \<lparr>op_negate = neg, op_operation = opn\<rparr>\<rparr>, r2))) = Inr (f, r)"
    using op_expr_show [of "filter_expr f" Logic_mode r "\<lambda>e r. Inr (\<lparr>filter_field = filter_field f, filter_expr = e\<rparr>, r)"]
      assms by (simp add: filter_ok_def ends_value_def)
  show ?thesis using f e assms(2) by (simp add: logic_filter_def show_filter_def expect_def)
qed

lemma ident_stops: "\<not> is_ident_char CHR ''(''" "\<not> is_ident_char CHR ''.''"
  by (simp_all add: is_ident_char_def is_word_char_def latin1_letter_def latin1_number_def is_digit_def)

lemma ident_letters: "is_ident_char CHR ''a''" "is_ident_char CHR ''n''" "is_ident_char CHR ''d''"
  "is_ident_char CHR ''o''" "is_ident_char CHR ''r''" "is_ident_char CHR ''t''" "is_ident_char CHR ''c''"
  "is_ident_char CHR ''u''"
  by (simp_all add: is_ident_char_def is_word_char_def latin1_letter_def)

lemma field_at_word:
  assumes "s = w @ d # r" "w \<noteq> []" "list_all is_ident_char w" "CHR 0x22 \<notin> set w" "d \<in> {CHR ''('', CHR ''.''}"
  shows "field_at s = Inr (\<lparr>field_name = w, field_json = []\<rparr>, d # r)"
proof -
  have d: "\<not> is_ident_char d" using assms(5) ident_stops by auto
  have "takeWhile is_ident_char s = w" "dropWhile is_ident_char s = d # r"
    using assms(3) d unfolding assms(1) list_all_iff by (auto intro: takeWhile_append_stop dropWhile_append_stop)
  moreover have "quoted_at s = Inr (None, s)"
    using assms(1,2,4) by (cases w) (auto simp: quoted_at_def)
  moreover have "name_parts (d # r) = ([], d # r)"
    using assms(5) by (subst name_parts.simps) (auto split: list.split)
  moreover have "json_path (d # r) = Inr ([], d # r)"
    using assms(5) by (subst json_path.simps) auto
  ultimately show ?thesis using assms(2) by (simp add: field_at_def field_name_at_def ident_at_def)
qed

lemma logic_filter_group:
  "logic_filter ((if neg then ''not.'' else []) @ logic_word op @ CHR ''('' # r) = None"
proof (cases neg)
  case False
  have "field_at (logic_word op @ CHR ''('' # r) = Inr (\<lparr>field_name = logic_word op, field_json = []\<rparr>, CHR ''('' # r)"
    by (rule field_at_word) (cases op; simp add: ident_letters)+
  then show ?thesis using False by (simp add: logic_filter_def expect_def)
next
  case True
  have "field_at (''not'' @ CHR ''.'' # (logic_word op @ CHR ''('' # r)) =
      Inr (\<lparr>field_name = ''not'', field_json = []\<rparr>, CHR ''.'' # (logic_word op @ CHR ''('' # r))"
    by (rule field_at_word) (simp_all add: ident_letters)
  moreover have "operation_at Logic_mode (logic_word op @ CHR ''('' # r) = Inl (logic_word op @ CHR ''('' # r, ''expecting an operator'')"
    by (cases op) (simp_all add: operation_at_def fts_head_def SIMPLE_OPS_def)
  moreover have "eat_not (logic_word op @ CHR ''('' # r) = (False, logic_word op @ CHR ''('' # r)"
    by (cases op) (simp_all add: eat_not_def)
  ultimately show ?thesis using True by (simp add: logic_filter_def expect_def)
qed

lemma logic_head_show:
  "logic_head ((if neg then ''not.'' else []) @ logic_word op @ CHR ''('' # r) = Inr ((neg, op), r)"
  by (cases neg; cases op) (simp_all add: logic_head_def eat_not_def expect_def)

lemma at_item_end_simps [simp]: "at_item_end []" "at_item_end (c # r) \<longleftrightarrow> c = CHR '','' \<or> c = CHR '')''"
  by (simp_all add: at_item_end_def)

lemma logic_forest_show:
  assumes "\<And>t r. t \<in> set ts \<Longrightarrow> at_item_end r \<Longrightarrow> logic_tree_at (show_logic t @ r) = Inr (t, r)"
  shows "ts \<noteq> [] \<Longrightarrow> logic_forest (commas (map show_logic ts) @ CHR '')'' # r) = Inr (ts, CHR '')'' # r)"
  using assms
proof (induction ts)
  case (Cons t ts)
  show ?case
  proof (cases ts)
    case Nil
    then show ?thesis by (subst logic_forest_step) (simp add: Cons.prems(2))
  next
    case (Cons u us)
    have ih: "logic_forest (commas (map show_logic ts) @ CHR '')'' # r) = Inr (ts, CHR '')'' # r)"
      using Cons.IH Cons.prems(2) Cons by simp
    then show ?thesis using Cons by (subst logic_forest_step) (simp add: Cons.prems(2))
  qed
qed simp

lemma logic_tree_show: "logic_ok t \<Longrightarrow> at_item_end r \<Longrightarrow> logic_tree_at (show_logic t @ r) = Inr (t, r)"
proof (induction t arbitrary: r)
  case (Filter_leaf f)
  then show ?case by (subst logic_tree_at.simps) (simp add: logic_filter_show)
next
  case (Logic_expr neg op ts)
  have f: "logic_forest (commas (map show_logic ts) @ CHR '')'' # r) = Inr (ts, CHR '')'' # r)"
    using Logic_expr by (intro logic_forest_show) (auto simp: list_all_iff)
  have s: "show_logic (Logic_expr neg op ts) @ r =
      (if neg then ''not.'' else []) @ logic_word op @ CHR ''('' # (commas (map show_logic ts) @ CHR '')'' # r)"
    by simp
  show ?case
    unfolding s by (subst logic_tree_at.simps) (simp only: logic_filter_group logic_head_show, simp add: f expect_def)
qed

lemma parse_logic_show:
  "ts \<noteq> [] \<Longrightarrow> list_all logic_ok ts \<Longrightarrow>
   parse_logic_value op neg (''('' @ commas (map show_logic ts) @ '')'') key = Inr (Logic_expr neg op ts)"
  using logic_forest_show [of ts "[]"] logic_tree_show
  by (simp add: parse_logic_value_def run_parser_def finish_def expect_def list_all_iff)

lemma logic_filter_ok: "logic_filter s = Some (f, r) \<Longrightarrow> filter_ok f"
  using field_at_ok operation_at_ok
  by (fastforce simp: logic_filter_def and_then_Inr case_prod_unfold Let_def filter_ok_def split: sum.splits if_splits)

lemma logic_readers_ok:
  shows "logic_tree_at s = Inr (t, r) \<Longrightarrow> logic_ok t"
    and "logic_forest s = Inr (ts, r) \<Longrightarrow> ts \<noteq> [] \<and> list_all logic_ok ts"
proof (induction s and s arbitrary: t r and ts r rule: logic_tree_at_logic_forest.induct)
  case (1 s)
  show ?case
  proof (cases "logic_filter s")
    case None
    with 1(2) obtain h r0 ts r1 where h: "logic_head s = Inr (h, r0)" and f: "logic_forest r0 = Inr (ts, r1)"
      and t: "t = Logic_expr (fst h) (snd h) ts"
      by (subst (asm) logic_tree_at.simps) (auto simp: and_then_Inr)
    show ?thesis using 1(1) [OF None h f] t by simp
  next
    case (Some x)
    then show ?thesis using 1(2) logic_filter_ok [of s] by (subst (asm) logic_tree_at.simps) (cases x, auto)
  qed
next
  case (2 s)
  obtain t r0 where t: "logic_tree_at s = Inr (t, r0)"
    using 2(3) by (subst (asm) logic_forest.simps) (auto simp: and_then_Inr)
  have l: "length r0 < length s" using logic_shorter(1) [OF t] .
  show ?case
  proof (cases "starts '','' r0")
    case True
    then obtain ts' where f: "logic_forest (tl r0) = Inr (ts', r)" and ts: "ts = t # ts'"
      using 2(3) t by (simp only: logic_forest_step [of s] and_then_simps if_True and_then_Inr) auto
    have "list_all logic_ok ts'" using 2(2) [OF t _ f] True l by simp
    then show ?thesis using ts 2(1) [OF t] by simp
  next
    case False
    then have "ts = [t]"
      using 2(3) t by (simp only: logic_forest_step [of s] and_then_simps if_False) simp
    then show ?thesis using 2(1) [OF t] by simp
  qed
qed

lemma parse_logic_ok: "parse_logic_value op neg src key = Inr t \<Longrightarrow> logic_ok t"
  using logic_readers_ok(2)
  by (fastforce simp: parse_logic_value_def run_parser_def finish_def and_then_Inr split: sum.splits if_splits)

lemma parse_logic_shape: "parse_logic_value op neg src key = Inr t \<Longrightarrow> \<exists>ts. t = Logic_expr neg op ts"
  by (fastforce simp: parse_logic_value_def run_parser_def finish_def and_then_Inr split: sum.splits if_splits)

lemma parse_op_expr_ok: "parse_op_expr src col = Inr e \<Longrightarrow> operation_ok (op_operation e)"
  using operation_at_ok
  by (fastforce simp: parse_op_expr_def run_parser_def and_then_Inr case_prod_unfold Let_def split: sum.splits)

text \<open>The key of a filter: the names of the embeds it is about, then the field.\<close>

definition show_filter_key :: "string list \<Rightarrow> field_ref \<Rightarrow> string" where
  "show_filter_key path f = concat (map (\<lambda>n. show_quoted n @ ''.'') path) @ show_field f"

lemma key_names_show:
  "\<not> starts ''.'' r \<Longrightarrow> key_names (concat (map (\<lambda>n. show_quoted n @ ''.'') path) @ show_quoted n @ r) = Inr (path @ [n], r)"
proof (induction path)
  case Nil
  then show ?case by (subst key_names.simps) (simp del: starts_Cons)
next
  case (Cons m path)
  then show ?case by (subst key_names.simps) (simp add: starts_def)
qed

lemma parse_filter_key_show:
  assumes "field_ok f"
  shows "parse_filter_key (show_filter_key path f) = Inr (path, f)"
proof -
  let ?js = "concat (map show_json (field_json f))"
  have "\<not> starts ''.'' ?js" by (cases "field_json f") (auto simp: show_json_def)
  then have "key_names (show_filter_key path f) = Inr (path @ [field_name f], ?js)"
    using key_names_show [of ?js path "field_name f"] by (simp add: show_filter_key_def show_field_def)
  moreover have "json_path ?js = Inr (field_json f, [])"
    using assms json_path_show [of "field_json f" "[]"] by (simp add: field_ok_def ends_field_def ends_index_def)
  ultimately show ?thesis by (simp add: parse_filter_key_def run_parser_def finish_def)
qed

lemma key_names_not_Nil: "key_names s = Inr (ns, r) \<Longrightarrow> ns \<noteq> []"
  by (subst (asm) key_names.simps) (auto simp: and_then_Inr split: if_splits)

lemma parse_filter_key_ok: "parse_filter_key src = Inr (path, f) \<Longrightarrow> field_ok f"
  using json_path_ok
  by (fastforce simp: parse_filter_key_def run_parser_def finish_def and_then_Inr field_ok_def split: sum.splits if_splits)

section \<open>Orders\<close>

definition show_order_term :: "order_term \<Rightarrow> string" where
  "show_order_term t =
     (case order_relation t of
        None \<Rightarrow> show_field (order_field t)
      | Some n \<Rightarrow> show_quoted n @ ''('' @ show_field (order_field t) @ '')'')
     @ (case order_direction t of None \<Rightarrow> [] | Some Asc \<Rightarrow> ''.asc'' | Some Desc \<Rightarrow> ''.desc'')
     @ (case order_nulls t of None \<Rightarrow> [] | Some Nulls_first \<Rightarrow> ''.nullsfirst'' | Some Nulls_last \<Rightarrow> ''.nullslast'')"

definition order_term_ok :: "order_term \<Rightarrow> bool" where
  "order_term_ok t \<longleftrightarrow> field_ok (order_field t)"

lemma order_by_relation_length: "order_by_relation s = Some (x, r) \<Longrightarrow> length r < length s"
proof -
  assume "order_by_relation s = Some (x, r)"
  then obtain n r0 r1 f r2 where "field_name_at s = Inr (n, r0)" "expect ''('' r0 = Inr ((), r1)"
    "field_at r1 = Inr (f, r2)" "expect '')'' r2 = Inr ((), r)"
    by (auto simp: order_by_relation_def and_then_Inr eat_close_def split: sum.splits)
  then show ?thesis
    using field_name_length [of s] field_at_length [of r1] by (fastforce dest!: expect_length)
qed

lemma order_term_length: "order_term_at s = Inr (t, r) \<Longrightarrow> length r < length s"
proof -
  assume a: "order_term_at s = Inr (t, r)"
  have d: "length (snd (nulls_at (snd (order_direction_at q)))) \<le> length q" for q
    by (auto simp: order_direction_at_def nulls_at_def)
  obtain q where "r = snd (nulls_at (snd (order_direction_at q)))" "length q < length s"
    using a order_by_relation_length [of s] field_at_length [of s]
    by (fastforce simp: order_term_at_def and_then_Inr case_prod_unfold Let_def split: option.splits)
  then show ?thesis using d [of q] by simp
qed

interpretation order_terms: item_reader order_term_at
  by unfold_locales (rule order_term_length)

definition order_suffix :: "order_term \<Rightarrow> string" where
  "order_suffix t =
     (case order_direction t of None \<Rightarrow> [] | Some Asc \<Rightarrow> ''.asc'' | Some Desc \<Rightarrow> ''.desc'')
     @ (case order_nulls t of None \<Rightarrow> [] | Some Nulls_first \<Rightarrow> ''.nullsfirst'' | Some Nulls_last \<Rightarrow> ''.nullslast'')"

lemma show_order_term_suffix:
  "show_order_term t = (case order_relation t of
     None \<Rightarrow> show_field (order_field t) | Some n \<Rightarrow> show_quoted n @ ''('' @ show_field (order_field t) @ '')'') @ order_suffix t"
  by (simp add: show_order_term_def order_suffix_def)

lemma order_suffix_ends: "r = [] \<or> hd r = CHR '','' \<Longrightarrow> ends_field (order_suffix t @ r)"
  by (cases "order_direction t"; cases "the (order_direction t)"; cases "order_nulls t"; cases "the (order_nulls t)"; cases r)
    (auto simp: order_suffix_def ends_field_def ends_index_def)

lemma order_suffix_first: "r = [] \<or> hd r = CHR '','' \<Longrightarrow> \<not> starts ''('' (order_suffix t @ r)"
  by (cases "order_direction t"; cases "the (order_direction t)"; cases "order_nulls t"; cases "the (order_nulls t)"; cases r)
    (auto simp: order_suffix_def)

lemma order_suffix_read:
  "r = [] \<or> hd r = CHR '','' \<Longrightarrow>
   (let (dir, r1) = order_direction_at (order_suffix t @ r); (nulls, r2) = nulls_at r1 in (dir, nulls, r2))
     = (order_direction t, order_nulls t, r)"
  by (cases "order_direction t"; cases "the (order_direction t)"; cases "order_nulls t"; cases "the (order_nulls t)"; cases r)
    (auto simp: order_suffix_def order_direction_at_def nulls_at_def)

lemma order_term_show:
  assumes "order_term_ok t" "r = [] \<or> hd r = CHR '','' "
  shows "order_term_at (show_order_term t @ r) = Inr (t, r)"
proof -
  let ?q = "order_suffix t @ r"
  have f: "field_ok (order_field t)" using assms(1) by (simp add: order_term_ok_def)
  have head: "(case order_by_relation (show_order_term t @ r) of
        Some ((n, f), r) \<Rightarrow> Inr ((Some n, f), r)
      | None \<Rightarrow> and_then (field_at (show_order_term t @ r)) (\<lambda>f r. Inr ((None, f), r)))
      = (Inr ((order_relation t, order_field t), ?q) :: (string option \<times> field_ref) parsed)"
  proof (cases "order_relation t")
    case None
    then have s: "show_order_term t @ r = show_field (order_field t) @ ?q" by (simp add: show_order_term_suffix)
    have no: "\<not> starts ''('' (concat (map show_json (field_json (order_field t))) @ ?q)"
      using order_suffix_first [OF assms(2)] by (cases "field_json (order_field t)") (simp_all add: show_json_def del: starts_Cons, simp)
    have "order_by_relation (show_order_term t @ r) = None"
      using no by (simp add: order_by_relation_def s show_field_def expect_def del: starts_Cons)
    then show ?thesis
      using None field_at_show [OF f order_suffix_ends [OF assms(2)]] by (simp add: s)
  next
    case (Some n)
    then have s: "show_order_term t @ r = show_quoted n @ CHR ''('' # show_field (order_field t) @ CHR '')'' # ?q"
      by (simp add: show_order_term_suffix)
    have "field_at (show_field (order_field t) @ CHR '')'' # ?q) = Inr (order_field t, CHR '')'' # ?q)"
      by (rule field_at_show [OF f]) (simp add: ends_field_def ends_index_def)
    then show ?thesis using Some by (simp add: order_by_relation_def s expect_def eat_close_def)
  qed
  show ?thesis
    using order_suffix_read [OF assms(2), of t]
    by (simp add: order_term_at_def head case_prod_unfold Let_def)
qed

interpretation order_list: printed_item order_term_at show_order_term order_term_ok
  by unfold_locales (rule order_term_show)

lemma parse_order_show:
  "list_all order_term_ok ts \<Longrightarrow> ts \<noteq> [] \<Longrightarrow> parse_order (commas (map show_order_term ts)) = Inr ts"
  using order_list.comma_list_printed [of ts] by (simp add: parse_order_def run_parser_def)

lemma parse_columns_show: "ns \<noteq> [] \<Longrightarrow> parse_columns (commas (map show_quoted ns)) = Inr ns"
  using column_list.comma_list_printed [of ns] by (simp add: parse_columns_def run_parser_def list_all_iff)

section \<open>Select lists\<close>

definition show_alias :: "string option \<Rightarrow> string" where
  "show_alias a = (case a of None \<Rightarrow> [] | Some n \<Rightarrow> show_quoted n @ '':'')"

definition show_cast :: "string option \<Rightarrow> string" where
  "show_cast c = (case c of None \<Rightarrow> [] | Some t \<Rightarrow> ''::'' @ t)"

definition show_aggregate :: "aggregate_fn option \<Rightarrow> string" where
  "show_aggregate a =
     (case a of None \<Rightarrow> [] | Some Agg_count \<Rightarrow> ''.count()'' | Some Agg_sum \<Rightarrow> ''.sum()'' | Some Agg_avg \<Rightarrow> ''.avg()''
      | Some Agg_max \<Rightarrow> ''.max()'' | Some Agg_min \<Rightarrow> ''.min()'')"

definition show_params :: "string option \<Rightarrow> join_type option \<Rightarrow> string" where
  "show_params hint jt =
     (case hint of None \<Rightarrow> [] | Some h \<Rightarrow> ''!'' @ show_quoted h)
     @ (case jt of None \<Rightarrow> [] | Some Join_inner \<Rightarrow> ''!inner'' | Some Join_left \<Rightarrow> ''!left'')"

fun show_select :: "select_item \<Rightarrow> string" where
  "show_select Star = ''*''"
| "show_select (Field f al cast agg agg_cast) =
     show_alias al @ show_field f @ show_cast cast @ show_aggregate agg @ show_cast agg_cast"
| "show_select (Embed n al hint jt spread its) =
     (if spread then ''...'' else show_alias al) @ show_quoted n @ show_params hint jt
       @ ''('' @ commas (map show_select its) @ '')''"

definition cast_ok :: "string option \<Rightarrow> bool" where
  "cast_ok c = (case c of None \<Rightarrow> True | Some t \<Rightarrow> t \<noteq> [] \<and> list_all is_cast_char t)"

fun select_ok :: "select_item \<Rightarrow> bool" where
  "select_ok Star \<longleftrightarrow> True"
| "select_ok (Field f al cast agg agg_cast) \<longleftrightarrow>
     field_ok f \<and> cast_ok cast \<and> cast_ok agg_cast \<and> (agg = None \<longrightarrow> agg_cast = None)"
| "select_ok (Embed n al hint jt spread its) \<longleftrightarrow>
     (if spread then al = None else n \<noteq> ''count'') \<and> list_all select_ok its"

lemma cast_stops: "\<not> is_cast_char CHR '',''" "\<not> is_cast_char CHR '')''" "\<not> is_cast_char CHR ''.''" "\<not> is_cast_char CHR '':''"
  by (simp_all add: is_cast_char_def is_word_char_def latin1_letter_def latin1_number_def is_digit_def)

lemma cast_type_show:
  assumes "cast_ok c" "\<not> starts ''::'' r" "r = [] \<or> \<not> is_cast_char (hd r)"
  shows "cast_type (show_cast c @ r) = Inr (c, r)"
proof (cases c)
  case None
  then show ?thesis using assms(2) by (simp add: cast_type_def show_cast_def del: starts_Cons)
next
  case (Some t)
  then have "takeWhile is_cast_char (t @ r) = t" "dropWhile is_cast_char (t @ r) = r"
    using assms(1,3) by (cases r; auto simp: cast_ok_def list_all_iff)+
  then show ?thesis using Some assms(1) by (simp add: cast_type_def show_cast_def cast_ok_def)
qed

lemma optional_alias_none: "\<not> starts '':'' r \<or> starts ''::'' r \<Longrightarrow> optional_alias (show_quoted n @ r) = (None, show_quoted n @ r)"
  by (auto simp: optional_alias_def simp del: starts_Cons)

lemma optional_alias_show:
  "\<not> starts '':'' r \<or> starts ''::'' r \<Longrightarrow>
   optional_alias (show_alias al @ show_quoted n @ r) = (al, show_quoted n @ r)"
proof (cases al)
  case (Some a)
  obtain w where "show_quoted n = CHR 0x22 # w" using show_quoted_Cons by blast
  then have "\<not> starts ''::'' (CHR '':'' # show_quoted n @ r)" by simp
  then show ?thesis using Some by (simp add: show_alias_def optional_alias_def del: starts_Cons) simp
qed (simp add: show_alias_def optional_alias_none)

text \<open>What may follow the name of a plain column.\<close>

definition plain_tail :: "string \<Rightarrow> bool" where
  "plain_tail r \<longleftrightarrow> at_item_end r \<or> hd r = CHR ''.'' \<or> starts ''->'' r \<or> starts ''::'' r"

lemma plain_tail_starts:
  assumes "plain_tail r"
  shows "\<not> starts ''!'' r" "\<not> starts ''('' r" "\<not> starts '':'' r \<or> starts ''::'' r"
  using assms by (cases r; auto simp: plain_tail_def split: list.splits)+

lemma plain_tail_agg: "at_item_end r \<Longrightarrow> plain_tail (show_aggregate agg @ show_cast agg_cast @ r)"
  by (cases agg; cases "the agg"; cases agg_cast) (auto simp: plain_tail_def show_aggregate_def show_cast_def)

lemma plain_tail_cast: "plain_tail r \<Longrightarrow> plain_tail (show_cast c @ r)"
  by (cases c) (auto simp: plain_tail_def show_cast_def)

lemma plain_tail_json: "plain_tail r \<Longrightarrow> plain_tail (concat (map show_json js) @ r)"
  by (cases js) (auto simp: plain_tail_def show_json_def)

lemma plain_tail_ends_field: "at_item_end r \<Longrightarrow> ends_field (show_cast c @ show_aggregate agg @ show_cast agg_cast @ r)"
  by (cases c; cases agg; cases "the agg"; cases agg_cast; cases r)
    (auto simp: ends_field_def ends_index_def show_aggregate_def show_cast_def)

lemma embed_head_plain: "plain_tail r \<Longrightarrow> embed_head_at (show_alias al @ show_quoted n @ r) = Inr (None, show_alias al @ show_quoted n @ r)"
proof -
  assume r: "plain_tail r"
  obtain w where w: "show_alias al @ show_quoted n @ r = CHR 0x22 # w"
    by (cases al) (auto simp: show_alias_def show_quoted_def)
  then have dots: "\<not> starts ''...'' (show_alias al @ show_quoted n @ r)" by simp
  have "embed_params 2 None None r = Inr ((None, None), r)"
    using plain_tail_starts(1) [OF r] by (simp add: numeral_2_eq_2 del: starts_Cons)
  then show ?thesis
    using dots plain_tail_starts(2) [OF r] optional_alias_show [OF plain_tail_starts(3) [OF r], of al n]
    by (simp add: embed_head_at_def del: starts_Cons)
qed

lemma aggregate_show: "agg \<noteq> None \<or> at_item_end r \<Longrightarrow> aggregate_at (show_aggregate agg @ r) = (agg, r)"
  by (cases agg; cases "the agg"; cases r) (auto simp: aggregate_at_def show_aggregate_def)

lemma aggregate_cast_show:
  assumes "at_item_end r" "cast_ok c" "agg = None \<longrightarrow> c = None"
  shows "aggregate_at (show_aggregate agg @ show_cast c @ r) = (agg, show_cast c @ r)"
    and "(if agg = None then Inr (None, show_cast c @ r) else cast_type (show_cast c @ r)) = Inr (c, r)"
proof -
  show "aggregate_at (show_aggregate agg @ show_cast c @ r) = (agg, show_cast c @ r)"
    using assms by (intro aggregate_show) (auto simp: show_cast_def)
  have "\<not> starts ''::'' r" "r = [] \<or> \<not> is_cast_char (hd r)"
    using assms(1) cast_stops by (cases r; auto)+
  then show "(if agg = None then Inr (None, show_cast c @ r) else cast_type (show_cast c @ r)) = Inr (c, r)"
    using cast_type_show [OF assms(2), of r] assms(3) by (simp add: show_cast_def)
qed

lemma plain_item_show:
  assumes "select_ok (Field f al cast agg ac)" "at_item_end r"
  shows "plain_item (show_select (Field f al cast agg ac) @ r) = Inr (Field f al cast agg ac, r)"
proof -
  let ?agg = "show_aggregate agg @ show_cast ac @ r"
  let ?tail = "concat (map show_json (field_json f)) @ show_cast cast @ ?agg"
  have tail: "plain_tail ?tail" by (intro plain_tail_json plain_tail_cast plain_tail_agg assms)
  have s: "show_select (Field f al cast agg ac) @ r = show_alias al @ show_quoted (field_name f) @ ?tail"
    by (simp add: show_field_def)
  have al: "optional_alias (show_alias al @ show_quoted (field_name f) @ ?tail) = (al, show_quoted (field_name f) @ ?tail)"
    by (rule optional_alias_show) (rule plain_tail_starts(3) [OF tail])
  have star: "\<not> starts ''*'' (show_alias al @ show_quoted (field_name f) @ ?tail)"
    by (cases al) (simp_all add: show_alias_def show_quoted_def)
  have count: "\<not> starts ''count()'' (show_quoted (field_name f) @ ?tail)" by (simp add: show_quoted_def)
  have f: "field_at (show_quoted (field_name f) @ ?tail) = Inr (f, show_cast cast @ ?agg)"
    using field_at_show [OF _ plain_tail_ends_field [OF assms(2)], of f cast agg ac] assms(1)
    by (simp add: show_field_def)
  have "\<not> starts ''::'' ?agg" "?agg = [] \<or> \<not> is_cast_char (hd ?agg)"
    using assms cast_stops
    by (cases agg; cases "the agg"; cases r; auto simp: show_aggregate_def show_cast_def)+
  then have c: "cast_type (show_cast cast @ ?agg) = Inr (cast, ?agg)"
    using assms(1) by (intro cast_type_show) auto
  have ok: "cast_ok ac" "agg = None \<longrightarrow> ac = None" using assms(1) by simp_all
  show ?thesis
    unfolding plain_item_def s al Let_def prod.case aggregate_cast_show(1) [OF assms(2) ok]
    using assms(2)
    by (simp add: star count f c aggregate_cast_show [OF assms(2) ok] item_end_def del: starts_Cons)
qed

lemma join_word_show: "join_word w (w @ CHR ''('' # r)"
  by (simp add: join_word_def ident_stops)

lemma embed_params_show:
  "embed_params 2 None None (show_params hint jt @ CHR ''('' # r) = Inr ((hint, jt), CHR ''('' # r)"
proof -
  have q: "\<not> join_word ''inner'' (show_quoted h @ w)" "\<not> join_word ''left'' (show_quoted h @ w)" for h w
    by (simp_all add: join_word_def show_quoted_def)
  have j: "join_word ''inner'' (''inner'' @ CHR ''('' # r)" "join_word ''left'' (''left'' @ CHR ''('' # r)"
    "\<not> join_word ''inner'' (''left'' @ CHR ''('' # r)"
    by (rule join_word_show)+ (simp add: join_word_def)
  show ?thesis
    using j q
    by (cases hint; cases jt; cases "the jt") (simp_all add: show_params_def numeral_2_eq_2)
qed

lemma embed_head_show:
  assumes "if spread then al = None else n \<noteq> ''count''"
  shows "embed_head_at ((if spread then ''...'' else show_alias al) @ show_quoted n @ show_params hint jt @ CHR ''('' # r)
    = Inr (Some (al, n, (hint, jt), spread), r)"
proof (cases spread)
  case True
  then show ?thesis using assms embed_params_show [of hint jt r] by (simp add: embed_head_at_def expect_def)
next
  case False
  let ?t = "show_params hint jt @ CHR ''('' # r"
  have dots: "\<not> starts ''...'' (show_alias al @ show_quoted n @ ?t)"
    by (cases al) (simp_all add: show_alias_def show_quoted_def)
  have "\<not> starts '':'' ?t \<or> starts ''::'' ?t"
    by (cases hint; cases jt; cases "the jt") (simp_all add: show_params_def)
  then have "optional_alias (show_alias al @ show_quoted n @ ?t) = (al, show_quoted n @ ?t)" by (rule optional_alias_show)
  then show ?thesis
    using False assms dots embed_params_show [of hint jt r] by (simp add: embed_head_at_def del: starts_Cons) simp
qed

lemma select_items_show:
  assumes "\<And>t r. t \<in> set ts \<Longrightarrow> at_item_end r \<Longrightarrow> select_tree (show_select t @ r) = Inr (t, r)" "r = [] \<or> hd r = CHR '')''"
  shows "ts \<noteq> [] \<Longrightarrow> select_items (commas (map show_select ts) @ r) = Inr (ts, r)"
  using assms(1)
proof (induction ts)
  case (Cons t ts)
  have r: "at_item_end r" "\<not> starts '','' r" using assms(2) by (cases r; auto)+
  show ?case
  proof (cases ts)
    case Nil
    then show ?thesis using r by (subst select_items_step) (simp add: Cons.prems(2) del: starts_Cons)
  next
    case (Cons u us)
    have ih: "select_items (commas (map show_select ts) @ r) = Inr (ts, r)"
      using Cons.IH Cons.prems(2) Cons by simp
    then show ?thesis using Cons by (subst select_items_step) (simp add: Cons.prems(2))
  qed
qed simp

lemma show_select_start: "show_select t \<noteq> [] \<and> hd (show_select t) \<noteq> CHR '')''"
proof (cases t)
  case (Field f al cast agg ac)
  then show ?thesis by (cases al) (simp_all add: show_alias_def show_field_def show_quoted_def)
next
  case (Embed n al hint jt spread its)
  then show ?thesis by (cases al) (simp_all add: show_alias_def show_quoted_def)
qed simp

lemma select_forest_show:
  assumes "\<And>t r. t \<in> set ts \<Longrightarrow> at_item_end r \<Longrightarrow> select_tree (show_select t @ r) = Inr (t, r)" "r = [] \<or> hd r = CHR '')''"
  shows "select_forest (commas (map show_select ts) @ r) = Inr (ts, r)"
proof (cases ts)
  case Nil
  then show ?thesis using assms(2) by (simp add: select_forest.simps)
next
  case (Cons t us)
  have "commas (map show_select ts) @ r \<noteq> [] \<and> hd (commas (map show_select ts) @ r) \<noteq> CHR '')''"
    using show_select_start [of t] Cons by (cases us) auto
  moreover have "select_items (commas (map show_select ts) @ r) = Inr (ts, r)"
    using Cons by (intro select_items_show assms) auto
  ultimately show ?thesis by (auto simp add: select_forest.simps)
qed

lemma select_tree_show: "select_ok t \<Longrightarrow> at_item_end r \<Longrightarrow> select_tree (show_select t @ r) = Inr (t, r)"
proof (induction t arbitrary: r)
  case Star
  have "embed_head_at (CHR ''*'' # r) = Inr (None, CHR ''*'' # r)"
    by (simp add: embed_head_at_def optional_alias_def field_name_at_def quoted_at_def ident_at_def is_ident_char_def
        is_word_char_def latin1_letter_def latin1_number_def is_digit_def)
  then show ?case using Star by (subst select_tree.simps) (simp add: plain_item_def item_end_def)
next
  case (Field f al cast agg ac)
  have "plain_tail (concat (map show_json (field_json f)) @ show_cast cast @ show_aggregate agg @ show_cast ac @ r)"
    by (intro plain_tail_json plain_tail_cast plain_tail_agg Field.prems)
  then have "embed_head_at (show_select (Field f al cast agg ac) @ r) = Inr (None, show_select (Field f al cast agg ac) @ r)"
    using embed_head_plain by (simp add: show_field_def)
  then show ?case using plain_item_show [OF Field.prems] by (subst select_tree.simps) (simp del: show_select.simps)
next
  case (Embed n al hint jt spread its)
  have f: "select_forest (commas (map show_select its) @ CHR '')'' # r) = Inr (its, CHR '')'' # r)"
    using Embed by (intro select_forest_show) (auto simp: list_all_iff)
  have h: "embed_head_at ((if spread then ''...'' else show_alias al) @ show_quoted n @ show_params hint jt
      @ CHR ''('' # (commas (map show_select its) @ CHR '')'' # r)) = Inr (Some (al, n, (hint, jt), spread),
        commas (map show_select its) @ CHR '')'' # r)"
    using Embed.prems by (intro embed_head_show) simp
  have s: "show_select (Embed n al hint jt spread its) @ r = (if spread then ''...'' else show_alias al) @ show_quoted n
      @ show_params hint jt @ CHR ''('' # (commas (map show_select its) @ CHR '')'' # r)"
    by simp
  show ?case
    unfolding s by (subst select_tree.simps) (simp only: h and_then_simps option.case prod.case f, simp add: eat_close_def expect_def)
qed

lemma parse_select_show: "list_all select_ok ts \<Longrightarrow> parse_select (commas (map show_select ts)) = Inr ts"
  using select_forest_show [of ts "[]"] select_tree_show
  by (simp add: parse_select_def run_parser_def finish_def list_all_iff)

text \<open>Whatever select list is read is a printable one.\<close>

lemma cast_type_ok: "cast_type s = Inr (c, r) \<Longrightarrow> cast_ok c"
  by (auto simp: cast_type_def cast_ok_def Let_def list_all_iff simp del: starts_Cons dest: set_takeWhileD split: if_splits)

lemma plain_item_ok: "plain_item s = Inr (it, r) \<Longrightarrow> select_ok it"
proof -
  assume a: "plain_item s = Inr (it, r)"
  have agg: "agg_cast = None" if "(if agg = None then Inr (None, r3) else cast_type r3) = Inr (agg_cast, r4)" "agg = None"
    for agg :: "aggregate_fn option" and agg_cast r3 r4 using that by simp
  show ?thesis
    using a field_at_ok cast_type_ok
    by (fastforce simp: plain_item_def and_then_Inr case_prod_unfold Let_def field_ok_def cast_ok_def simp del: starts_Cons
        dest!: item_end_length split: if_splits)
qed

lemma embed_head_ok: "embed_head_at s = Inr (Some (al, n, ps, spread), r) \<Longrightarrow> (if spread then al = None else n \<noteq> ''count'')"
  by (auto simp: embed_head_at_def and_then_Inr case_prod_unfold Let_def simp del: starts_Cons split: if_splits sum.splits)

lemma select_readers_ok:
  shows "select_tree s = Inr (t, r) \<Longrightarrow> select_ok t"
    and "select_items s = Inr (ts, r) \<Longrightarrow> list_all select_ok ts"
    and "select_forest s = Inr (ts, r) \<Longrightarrow> list_all select_ok ts"
proof (induction s and s and s arbitrary: t r and ts r and ts r rule: select_tree_select_items_select_forest.induct)
  case (1 s)
  obtain h r0 where h: "embed_head_at s = Inr (h, r0)"
    using 1(2) by (subst (asm) select_tree.simps) (auto simp: and_then_Inr)
  show ?case
  proof (cases h)
    case None
    then show ?thesis using 1(2) h by (subst (asm) select_tree.simps) (auto dest: plain_item_ok)
  next
    case (Some x)
    obtain al n hint jt spread where x: "x = (al, n, (hint, jt), spread)" by (cases x) auto
    with 1(2) h Some obtain its r1 where f: "select_forest r0 = Inr (its, r1)" and t: "t = Embed n al hint jt spread its"
      by (subst (asm) select_tree.simps) (auto simp: and_then_Inr eat_close_def)
    have "list_all select_ok its" using 1(1) [OF h] Some x f by auto
    then show ?thesis using embed_head_ok h Some x t by fastforce
  qed
next
  case (2 s)
  obtain t r0 where t: "select_tree s = Inr (t, r0)"
    using 2(3) by (subst (asm) select_items.simps) (auto simp: and_then_Inr)
  have l: "length r0 < length s" using select_shorter(1) [OF t] .
  show ?case
  proof (cases "starts '','' r0")
    case True
    then obtain ts' where f: "select_items (tl r0) = Inr (ts', r)" and ts: "ts = t # ts'"
      using 2(3) t by (simp only: select_items_step [of s] and_then_simps if_True and_then_Inr) auto
    have "list_all select_ok ts'" using 2(2) [OF t _ f] True l by simp
    then show ?thesis using ts 2(1) [OF t] by simp
  next
    case False
    then have "ts = [t]"
      using 2(3) t by (simp only: select_items_step [of s] and_then_simps if_False) simp
    then show ?thesis using 2(1) [OF t] by simp
  qed
next
  case (3 s)
  show ?case using 3(2) 3(1) [of ts r] by (auto simp: select_forest.simps [of s] split: if_splits)
qed

lemma parse_select_ok: "parse_select src = Inr ts \<Longrightarrow> list_all select_ok ts"
  using select_readers_ok(3)
  by (fastforce simp: parse_select_def run_parser_def finish_def and_then_Inr split: sum.splits if_splits)

section \<open>Round trips\<close>

text \<open>C8: The select lists that can be printed and read back are exactly the well-formed ones, at any depth of
  embedding and with any text as a name; and whatever is read is one of them, so printing it in the
  canonical form and reading it again gives the same tree.
\<close>

theorem select_round_trip:
  "(parse_select (commas (map show_select ts)) = Inr ts \<longleftrightarrow> list_all select_ok ts)
   \<and> (case parse_select src of Inl e \<Rightarrow> True | Inr us \<Rightarrow> parse_select (commas (map show_select us)) = Inr us)"
  using parse_select_show parse_select_ok by (auto split: sum.split)

text \<open>Logic trees of any depth are read back as they were printed, exactly when every group has a member and
  every leaf is well-formed; and whatever is read is such a tree with the operator and the negation asked for.
\<close>

theorem logic_round_trip:
  "(parse_logic_value op neg (CHR ''('' # commas (map show_logic ts) @ '')'') key = Inr (Logic_expr neg op ts)
      \<longleftrightarrow> ts \<noteq> [] \<and> list_all logic_ok ts)
   \<and> (case parse_logic_value op neg src key of
        Inl e \<Rightarrow> True
      | Inr t \<Rightarrow> (\<exists>us. t = Logic_expr neg op us
          \<and> parse_logic_value op neg (CHR ''('' # commas (map show_logic us) @ '')'') key = Inr t))"
proof -
  have shown: "parse_logic_value op neg (CHR ''('' # commas (map show_logic us) @ '')'') key = Inr (Logic_expr neg op us)"
    if "us \<noteq> []" "list_all logic_ok us" for us
    using parse_logic_show [OF that] by simp
  have read: "us \<noteq> [] \<and> list_all logic_ok us" if "parse_logic_value op neg s key = Inr (Logic_expr neg op us)" for s us
    using parse_logic_ok [OF that] by simp
  show ?thesis
  proof (intro conjI)
    show "parse_logic_value op neg (CHR ''('' # commas (map show_logic ts) @ '')'') key = Inr (Logic_expr neg op ts)
      \<longleftrightarrow> ts \<noteq> [] \<and> list_all logic_ok ts"
      using shown read by blast
    show "case parse_logic_value op neg src key of
        Inl e \<Rightarrow> True
      | Inr t \<Rightarrow> (\<exists>us. t = Logic_expr neg op us
          \<and> parse_logic_value op neg (CHR ''('' # commas (map show_logic us) @ '')'') key = Inr t)"
    proof (cases "parse_logic_value op neg src key")
      case (Inr t)
      then obtain us where "t = Logic_expr neg op us" using parse_logic_shape by blast
      then show ?thesis using Inr read [of src us] shown by auto
    qed simp
  qed
qed

text \<open>A filter is read back as it was printed, key and operation: the key for every path and field whose
  array indices are integers, the operation for every value, whatever characters it holds.
\<close>

theorem filter_round_trip:
  "(parse_filter_key (show_filter_key path f) = Inr (path, f) \<longleftrightarrow> field_ok f)
   \<and> (parse_op_expr (show_op_expr Query_mode e) col = Inr e \<longleftrightarrow> operation_ok (op_operation e))"
  using parse_filter_key_show parse_filter_key_ok parse_op_expr_show parse_op_expr_ok by blast

end
