(* ===== verification/Query_Plan.thy ===== *)
theory Query_Plan
  imports Query_Roundtrip Prelude
begin

text \<open>
  The planner of the data layer (\<open>server/db/postgrest/plan.ts\<close>, the part before the statement): the
  parameters of a request sorted into the maps of \<open>parseQueryParams\<close>, the schema cache it looks names up
  in (\<open>schemaCache.ts\<close>), and the read tree with every filter attached to its node. The nodes of a tree are
  numbered as the planner's alias counter numbers them, the root is 0; the clauses that the code pushes
  onto the nodes are kept per number.
\<close>

section \<open>Request parameters\<close>

record query_params =
  q_select :: "select_item list option"
  q_columns :: "string list option"
  q_on_conflict :: "string list option"
  q_filters :: "(string \<times> filter_term list) list"
  q_logic :: "(string \<times> logic_tree list) list"
  q_order :: "(string \<times> order_term list) list"
  q_limit :: "(string \<times> nat) list"
  q_offset :: "(string \<times> nat) list"
  q_plain :: "(string \<times> string) list"

definition no_params :: query_params where
  "no_params = \<lparr>q_select = None, q_columns = None, q_on_conflict = None, q_filters = [], q_logic = [], q_order = [],
     q_limit = [], q_offset = [], q_plain = []\<rparr>"

definition bad_request :: "string \<Rightarrow> string \<Rightarrow> pgrst_error" where
  "bad_request code message =
     \<lparr>pgrst_status = 400, pgrst_code = code, pgrst_message = message, pgrst_details = None, pgrst_hint = None\<rparr>"

text \<open>A \<open>Map\<close> keeps its keys in the order of their first \<open>set\<close>.\<close>

definition push_all :: "(string \<times> 'a list) list \<Rightarrow> string \<Rightarrow> 'a list \<Rightarrow> (string \<times> 'a list) list" where
  "push_all m k vs = AList.update k ((case map_of m k of None \<Rightarrow> [] | Some ws \<Rightarrow> ws) @ vs) m"

definition ends_with :: "string \<Rightarrow> string \<Rightarrow> bool" where
  "ends_with w s \<longleftrightarrow> length w \<le> length s \<and> drop (length s - length w) s = w"

definition strip_end :: "string \<Rightarrow> string \<Rightarrow> string" where
  "strip_end w s = take (length s - length w) s"

text \<open>
  \<open>LOGIC_KEY\<close>, \<open>/^(?:(.*)\.)?(not\.)?(or|and)$/\<close>: the first group is greedy, so a \<open>not.\<close> before the word is
  taken by it and the second group never matches; a dot does not match a line terminator.
\<close>

definition logic_key :: "string \<Rightarrow> (string option \<times> bool \<times> logic_op) option" where
  "logic_key key =
     (case (if ends_with ''or'' key then Some (Or_op, strip_end ''or'' key)
            else if ends_with ''and'' key then Some (And_op, strip_end ''and'' key) else None) of
        None \<Rightarrow> None
      | Some (op, prefix) \<Rightarrow>
          if prefix = [] then Some (None, False, op)
          else if last prefix = CHR ''.'' \<and> CHR 0x0A \<notin> set prefix \<and> CHR 0x0D \<notin> set prefix
          then Some (Some (butlast prefix), False, op)
          else None)"

definition int_param :: "string \<Rightarrow> string \<Rightarrow> pgrst_error + nat" where
  "int_param v key =
     (if v \<noteq> [] \<and> list_all is_digit v then Inr (digits_value v)
      else Inl (bad_request ''PGRST100'' (in_quotes (''failed to parse '' @ key @ '' parameter ('' @ v @ '')''))))"

text \<open>\<open>path.join('.')\<close>.\<close>

fun join_path :: "string list \<Rightarrow> string" where
  "join_path [] = []"
| "join_path [n] = n"
| "join_path (n # ns) = n @ ''.'' @ join_path ns"

definition sum_map :: "('a \<Rightarrow> 'b) \<Rightarrow> 'e + 'a \<Rightarrow> 'e + 'b" where
  "sum_map f r = (case r of Inl e \<Rightarrow> Inl e | Inr x \<Rightarrow> Inr (f x))"

definition keyed_path :: "string \<Rightarrow> string \<Rightarrow> string option" where
  "keyed_path w key = (if key = w then Some [] else if ends_with (CHR ''.'' # w) key then Some (strip_end (CHR ''.'' # w) key) else None)"

definition add_filter :: "string \<Rightarrow> string \<Rightarrow> query_params \<Rightarrow> pgrst_error + query_params" where
  "add_filter key value q =
     (case parse_filter_key key of
        Inl e \<Rightarrow> Inl e
      | Inr (path, f) \<Rightarrow> sum_map (\<lambda>x. q\<lparr>q_filters := push_all (q_filters q) (join_path path) [\<lparr>filter_field = f, filter_expr = x\<rparr>]\<rparr>)
          (parse_op_expr value key))"

definition param_step :: "string list option \<Rightarrow> string \<Rightarrow> string \<Rightarrow> query_params \<Rightarrow> pgrst_error + query_params" where
  "param_step rpc_args key value q =
     (if key = ''select'' then sum_map (\<lambda>its. q\<lparr>q_select := Some its\<rparr>) (parse_select value)
      else if key = ''columns'' then sum_map (\<lambda>cs. q\<lparr>q_columns := Some cs\<rparr>) (parse_columns value)
      else if key = ''on_conflict'' then Inr (q\<lparr>q_on_conflict := Some (parse_on_conflict value)\<rparr>)
      else case keyed_path ''order'' key of
        Some path \<Rightarrow> sum_map (\<lambda>ts. q\<lparr>q_order := push_all (q_order q) path ts\<rparr>) (parse_order value)
      | None \<Rightarrow> case keyed_path ''limit'' key of
        Some path \<Rightarrow> sum_map (\<lambda>n. q\<lparr>q_limit := AList.update path n (q_limit q)\<rparr>) (int_param value key)
      | None \<Rightarrow> case keyed_path ''offset'' key of
        Some path \<Rightarrow> sum_map (\<lambda>n. q\<lparr>q_offset := AList.update path n (q_offset q)\<rparr>) (int_param value key)
      | None \<Rightarrow> case (if starts ''('' value then logic_key key else None) of
        Some (path, neg, op) \<Rightarrow>
          sum_map (\<lambda>t. q\<lparr>q_logic := push_all (q_logic q) (case path of None \<Rightarrow> [] | Some p \<Rightarrow> p) [t]\<rparr>) (parse_logic_value op neg value key)
      | None \<Rightarrow>
          if (case rpc_args of None \<Rightarrow> False | Some names \<Rightarrow> key \<in> set names)
          then Inr (q\<lparr>q_plain := AList.update key value (q_plain q)\<rparr>)
          else add_filter key value q)"

fun param_loop :: "string list option \<Rightarrow> (string \<times> string) list \<Rightarrow> query_params \<Rightarrow> pgrst_error + query_params" where
  "param_loop rpc_args [] q = Inr q"
| "param_loop rpc_args ((key, value) # rest) q =
     (case param_step rpc_args key value q of Inl e \<Rightarrow> Inl e | Inr q' \<Rightarrow> param_loop rpc_args rest q')"

definition parse_query_params :: "string list option \<Rightarrow> (string \<times> string) list \<Rightarrow> pgrst_error + query_params" where
  "parse_query_params rpc_args query = param_loop rpc_args query no_params"

section \<open>The schema cache\<close>

record column_info =
  col_name :: string
  col_type :: string
  col_typname :: string
  col_generated :: bool
  col_default :: "string option"

record table_info =
  tbl_schema :: string
  tbl_name :: string
  tbl_kind :: string
  tbl_columns :: "(string \<times> column_info) list"
  tbl_pk :: "string list"
  tbl_unique :: "string list list"

datatype cardinality = Many_to_one | One_to_many | One_to_one

record relationship =
  rel_constraint :: string
  rel_from :: table_info
  rel_to :: table_info
  rel_from_cols :: "string list"
  rel_to_cols :: "string list"
  rel_forward :: bool
  rel_to_one :: bool
  rel_cardinality :: cardinality
  rel_fk_cols :: "string list"

record function_arg =
  arg_name :: string
  arg_type :: string
  arg_has_default :: bool

datatype return_shape = Ret_void | Ret_scalar | Ret_composite | Ret_setof_scalar | Ret_setof_composite

record function_info =
  fn_schema :: string
  fn_name :: string
  fn_args :: "function_arg list"
  fn_shape :: return_shape
  fn_return_type :: string
  fn_all_named :: bool

text \<open>
  What the planner reads of a snapshot. The suggestion of a near name (\<open>fuzzy.ts\<close>) only words the hint
  of an error and is an argument.
\<close>

record snapshot =
  snap_schemas :: "string list"
  snap_tables :: "(string \<times> table_info) list"
  snap_relationships :: "relationship list"
  snap_functions :: "(string \<times> function_info list) list"
  snap_closest :: "string \<Rightarrow> string list \<Rightarrow> string option"

definition table_key :: "string \<Rightarrow> string \<Rightarrow> string" where
  "table_key schema name = schema @ [CHR 0x00] @ name"

text \<open>A catalog foreign key: its name, the referencing table and columns, the referenced ones.\<close>

record foreign_key =
  fk_name :: string
  fk_rel :: table_info
  fk_frel :: table_info
  fk_cols :: "string list"
  fk_fcols :: "string list"

definition is_unique :: "table_info \<Rightarrow> string list \<Rightarrow> bool" where
  "is_unique t cols \<longleftrightarrow> list_ex (\<lambda>k. length k = length cols \<and> list_all (\<lambda>c. c \<in> set cols) k) (tbl_unique t)"

text \<open>Every foreign key is seen from both sides.\<close>

definition fk_relationships :: "foreign_key \<Rightarrow> relationship list" where
  "fk_relationships fk =
     (let one = is_unique (fk_rel fk) (fk_cols fk)
      in [\<lparr>rel_constraint = fk_name fk, rel_from = fk_rel fk, rel_to = fk_frel fk, rel_from_cols = fk_cols fk,
           rel_to_cols = fk_fcols fk, rel_forward = True, rel_to_one = True,
           rel_cardinality = (if one then One_to_one else Many_to_one), rel_fk_cols = fk_cols fk\<rparr>,
          \<lparr>rel_constraint = fk_name fk, rel_from = fk_frel fk, rel_to = fk_rel fk, rel_from_cols = fk_fcols fk,
           rel_to_cols = fk_cols fk, rel_forward = False, rel_to_one = one,
           rel_cardinality = (if one then One_to_one else One_to_many), rel_fk_cols = fk_cols fk\<rparr>])"

text \<open>A function row of the catalog: its parameters by name, mode and type, and what it returns.\<close>

record function_row =
  fr_schema :: string
  fr_name :: string
  fr_ndefaults :: nat
  fr_argnames :: "string list option"
  fr_argmodes :: "char list option"
  fr_argtypes :: "string list"
  fr_retset :: bool
  fr_rettype :: string
  fr_composite_type :: bool
  fr_retrecord :: bool
  fr_retvoid :: bool

definition function_from_row :: "function_row \<Rightarrow> function_info" where
  "function_from_row r =
     (let modes = (case fr_argmodes r of Some ms \<Rightarrow> ms | None \<Rightarrow> map (\<lambda>t. CHR ''i'') (fr_argtypes r));
          names = (case fr_argnames r of Some ns \<Rightarrow> ns | None \<Rightarrow> []);
          ins = filter (\<lambda>(i, m). m \<in> {CHR ''i'', CHR ''b'', CHR ''v''}) (zip [0..<length modes] modes);
          args = map (\<lambda>(i, m). (if i < length names then names ! i else [], fr_argtypes r ! i)) ins;
          outs = length (filter (\<lambda>m. m \<in> {CHR ''o'', CHR ''b'', CHR ''t''}) modes);
          composite = (fr_composite_type r \<or> fr_retrecord r \<and> 0 < outs)
      in \<lparr>fn_schema = fr_schema r, fn_name = fr_name r,
          fn_args = map (\<lambda>(i, n, t). \<lparr>arg_name = n, arg_type = t, arg_has_default = (length args \<le> i + fr_ndefaults r)\<rparr>)
                      (zip [0..<length args] args),
          fn_shape = (if fr_retvoid r then Ret_void
                      else if fr_retset r then (if composite \<or> fr_retrecord r then Ret_setof_composite else Ret_setof_scalar)
                      else if composite then Ret_composite else Ret_scalar),
          fn_return_type = fr_rettype r,
          fn_all_named = list_all (\<lambda>(n, t). n \<noteq> []) args\<rparr>)"

section \<open>Errors of the planner\<close>

text \<open>
  A miss of the cache (the engine reloads once and retries), an answer of its own, a name with several
  relationships (its details are worded from them), or an exception that is no answer.
\<close>

datatype plan_error =
    Schema_miss pgrst_error
  | Pgrst pgrst_error
  | Ambiguous_relationship table_info string "relationship list"
  | Js_error string

definition quoted_name :: "string \<Rightarrow> string" where
  "quoted_name s = [CHR 0x27] @ s @ [CHR 0x27]"

definition table_not_found :: "string \<Rightarrow> string \<Rightarrow> string option \<Rightarrow> pgrst_error" where
  "table_not_found schema table suggestion =
     \<lparr>pgrst_status = 404, pgrst_code = ''PGRST205'',
      pgrst_message = ''Could not find the table '' @ quoted_name (schema @ ''.'' @ table) @ '' in the schema cache'',
      pgrst_details = None,
      pgrst_hint = (case suggestion of
         Some s \<Rightarrow> if s = [] then None else Some (''Perhaps you meant the table '' @ quoted_name (schema @ ''.'' @ s))
       | None \<Rightarrow> None)\<rparr>"

definition column_not_found :: "string \<Rightarrow> string \<Rightarrow> pgrst_error" where
  "column_not_found table column =
     \<lparr>pgrst_status = 400, pgrst_code = ''PGRST204'',
      pgrst_message = ''Could not find the '' @ quoted_name column @ '' column of '' @ quoted_name table @ '' in the schema cache'',
      pgrst_details = None, pgrst_hint = None\<rparr>"

definition relationship_not_found :: "string \<Rightarrow> string \<Rightarrow> string \<Rightarrow> string option \<Rightarrow> pgrst_error" where
  "relationship_not_found parent child schema hint =
     \<lparr>pgrst_status = 400, pgrst_code = ''PGRST200'',
      pgrst_message = ''Could not find a relationship between '' @ quoted_name parent @ '' and '' @ quoted_name child @ '' in the schema cache'',
      pgrst_details = Some (''Searched for a foreign key relationship between '' @ quoted_name parent @ '' and '' @ quoted_name child
        @ (case hint of Some h \<Rightarrow> if h = [] then [] else '' using the hint '' @ quoted_name h | None \<Rightarrow> [])
        @ '' in the schema '' @ quoted_name schema @ '', but no matches were found.''),
      pgrst_hint = None\<rparr>"

definition not_embedded :: "string \<Rightarrow> pgrst_error" where
  "not_embedded name =
     \<lparr>pgrst_status = 400, pgrst_code = ''PGRST108'',
      pgrst_message = quoted_name name @ '' is not an embedded resource in this request'', pgrst_details = None,
      pgrst_hint = Some (''Verify that '' @ quoted_name name @ '' is included in the '' @ quoted_name ''select'' @ '' query parameter.'')\<rparr>"

definition find_table :: "snapshot \<Rightarrow> string \<Rightarrow> string \<Rightarrow> plan_error + table_info" where
  "find_table snap schema name =
     (case map_of (snap_tables snap) (table_key schema name) of
        Some t \<Rightarrow> Inr t
      | None \<Rightarrow> Inl (Schema_miss (table_not_found schema name (snap_closest snap name
          (map tbl_name (filter (\<lambda>t. tbl_schema t = schema) (map snd (snap_tables snap))))))))"

fun check_columns :: "table_info \<Rightarrow> string list \<Rightarrow> plan_error option" where
  "check_columns t [] = None"
| "check_columns t (c # cs) =
     (if map_of (tbl_columns t) c = None then Some (Schema_miss (column_not_found (tbl_name t) c)) else check_columns t cs)"

section \<open>Relationships\<close>

definition reaches :: "table_info \<Rightarrow> string \<Rightarrow> relationship \<Rightarrow> bool" where
  "reaches from_t name r \<longleftrightarrow> rel_from r = from_t
     \<and> (tbl_name (rel_to r) = name
        \<or> rel_forward r \<and> (rel_constraint r = name \<or> rel_fk_cols r = [name]))"

definition hinted :: "string \<Rightarrow> string \<Rightarrow> relationship \<Rightarrow> bool" where
  "hinted name hint r \<longleftrightarrow> rel_constraint r = hint
     \<or> length (rel_fk_cols r) = 1 \<and> (take 1 (rel_from_cols r) = [hint] \<or> take 1 (rel_to_cols r) = [hint])
     \<or> tbl_name (rel_to r) = hint \<and> tbl_name (rel_to r) \<noteq> name"

definition find_relationship :: "snapshot \<Rightarrow> string \<Rightarrow> table_info \<Rightarrow> string \<Rightarrow> string option \<Rightarrow> plan_error + relationship" where
  "find_relationship snap schema from_t name hint =
     (let found = filter (reaches from_t name) (snap_relationships snap);
          narrowed = (case hint of None \<Rightarrow> found | Some h \<Rightarrow> filter (hinted name h) found)
      in case narrowed of
           [r] \<Rightarrow> Inr r
         | [] \<Rightarrow>
             (let reachable = map (\<lambda>r. tbl_name (rel_to r)) (filter (\<lambda>r. rel_from r = from_t) (snap_relationships snap));
                  err = relationship_not_found (tbl_name from_t) name schema hint
              in Inl (Schema_miss (case snap_closest snap name reachable of
                   Some g \<Rightarrow> if g = [] then err
                     else err\<lparr>pgrst_hint := Some (''Perhaps you meant '' @ quoted_name g @ '' instead of '' @ quoted_name name @ ''.'')\<rparr>
                 | None \<Rightarrow> err)))
         | _ \<Rightarrow> Inl (Ambiguous_relationship from_t name narrowed))"

section \<open>The read tree\<close>

datatype read_node =
  Read_node (node_id: nat) (node_table: table_info) (node_alias: string) (node_items: "planned_item list")
and planned_item =
    P_star
  | P_field field_ref string "string option"
  | P_embed embed_plan
and embed_plan =
  Embed_plan (embed_node: read_node) (embed_rel: relationship) (embed_output: string) (embed_inner: bool)

text \<open>\<open>node.embeds\<close> is filled together with the items.\<close>

fun item_embed :: "planned_item \<Rightarrow> embed_plan option" where
  "item_embed (P_embed e) = Some e"
| "item_embed _ = None"

definition node_embeds :: "read_node \<Rightarrow> embed_plan list" where
  "node_embeds n = List.map_filter item_embed (node_items n)"

lemma item_embed_Some: "item_embed it = Some e \<longleftrightarrow> it = P_embed e"
  by (cases it) auto

lemma node_embeds_item: "e \<in> set (node_embeds n) \<longleftrightarrow> P_embed e \<in> set (node_items n)"
proof -
  have "e \<in> set (List.map_filter item_embed its) \<longleftrightarrow> P_embed e \<in> set its" for its
    by (induction its) (auto simp: item_embed_Some split: option.split)
  then show ?thesis by (simp add: node_embeds_def)
qed

definition output_name :: "field_ref \<Rightarrow> string option \<Rightarrow> string" where
  "output_name f al =
     (if al \<noteq> None \<and> al \<noteq> Some [] then the al
      else if field_json f \<noteq> [] \<and> \<not> is_index (last (field_json f)) then json_key (last (field_json f)) else field_name f)"

definition aggregates_not_allowed :: pgrst_error where
  "aggregates_not_allowed = bad_request ''PGRST123'' ''Use of aggregate functions is not allowed''"

definition spread_not_supported :: "string \<Rightarrow> pgrst_error" where
  "spread_not_supported name =
     bad_request ''PGRST100'' (''spread embedding ('' @ in_quotes (''...'' @ name) @ '') is not supported by this server'')"

text \<open>
  The loop of \<open>Planner.node\<close> over a select list, with the alias counter; an embed takes its number before
  its own list is planned.
\<close>

fun plan_items :: "snapshot \<Rightarrow> string \<Rightarrow> table_info \<Rightarrow> select_item list \<Rightarrow> nat \<Rightarrow> plan_error + planned_item list \<times> nat" where
  "plan_items snap schema t [] k = Inr ([], k)"
| "plan_items snap schema t (Star # rest) k =
     (case plan_items snap schema t rest k of Inl e \<Rightarrow> Inl e | Inr (its, k') \<Rightarrow> Inr (P_star # its, k'))"
| "plan_items snap schema t (Field f al cast agg agg_cast # rest) k =
     (if agg \<noteq> None then Inl (Pgrst aggregates_not_allowed)
      else case plan_items snap schema t rest k of
             Inl e \<Rightarrow> Inl e
           | Inr (its, k') \<Rightarrow> Inr (P_field f (output_name f al) cast # its, k'))"
| "plan_items snap schema t (Embed n al hint jt spread sub # rest) k =
     (if spread then Inl (Pgrst (spread_not_supported n))
      else case find_relationship snap schema t n hint of
             Inl e \<Rightarrow> Inl e
           | Inr r \<Rightarrow>
               (case (if sub = [] then Inr ([P_star], Suc k) else plan_items snap schema (rel_to r) sub (Suc k)) of
                  Inl e \<Rightarrow> Inl e
                | Inr (sub_items, k1) \<Rightarrow>
                    (case plan_items snap schema t rest k1 of
                       Inl e \<Rightarrow> Inl e
                     | Inr (its, k2) \<Rightarrow>
                         Inr (P_embed (Embed_plan
                                (Read_node (Suc k) (rel_to r) (tbl_name (rel_to r) @ ''_'' @ show_nat (Suc k)) sub_items)
                                r (case al of None \<Rightarrow> n | Some a \<Rightarrow> a) (jt = Some Join_inner)) # its, k2))))"

section \<open>Clauses of the nodes\<close>

record node_clauses =
  cl_filters :: "filter_term list"
  cl_logic :: "logic_tree list"
  cl_order :: "order_term list"
  cl_limit :: "nat option"
  cl_offset :: "nat option"
  cl_existence :: "(string \<times> bool) list"

definition no_clauses :: node_clauses where
  "no_clauses = \<lparr>cl_filters = [], cl_logic = [], cl_order = [], cl_limit = None, cl_offset = None, cl_existence = []\<rparr>"

type_synonym clauses = "nat \<Rightarrow> node_clauses"

text \<open>\<open>index\<close>: the path of every embed, a later one of the same path in place of an earlier.\<close>

fun index_node :: "read_node \<Rightarrow> string \<Rightarrow> (string \<times> read_node) list \<Rightarrow> (string \<times> read_node) list"
  and index_item :: "planned_item \<Rightarrow> string \<Rightarrow> (string \<times> read_node) list \<Rightarrow> (string \<times> read_node) list"
  and index_embed :: "embed_plan \<Rightarrow> string \<Rightarrow> (string \<times> read_node) list \<Rightarrow> (string \<times> read_node) list" where
  "index_node (Read_node i t a its) prefix m = fold (\<lambda>it m. index_item it prefix m) its m"
| "index_item P_star prefix m = m"
| "index_item (P_field f out cast) prefix m = m"
| "index_item (P_embed e) prefix m = index_embed e prefix m"
| "index_embed (Embed_plan n r out inner) prefix m =
     (let p = (if prefix = [] then out else prefix @ ''.'' @ out) in index_node n p (AList.update p n m))"

definition tree_nodes :: "read_node \<Rightarrow> (string \<times> read_node) list" where
  "tree_nodes n = index_node n [] [([], n)]"

definition last_part :: "string \<Rightarrow> string" where
  "last_part path = last (split_on CHR ''.'' path)"

definition node_at :: "(string \<times> read_node) list \<Rightarrow> string \<Rightarrow> plan_error + read_node" where
  "node_at nodes path =
     (case map_of nodes path of Some n \<Rightarrow> Inr n | None \<Rightarrow> Inl (Pgrst (not_embedded (last_part path))))"

definition attach_filter :: "read_node \<Rightarrow> filter_term \<Rightarrow> node_clauses \<Rightarrow> node_clauses" where
  "attach_filter n f c =
     (let embed = (if field_json (filter_field f) = []
                   then List.find (\<lambda>e. embed_output e = field_name (filter_field f)) (node_embeds n) else None);
          neg = op_negate (filter_expr f)
      in case (embed, op_operation (filter_expr f)) of
           (Some e, Is_op Is_null) \<Rightarrow> c\<lparr>cl_existence := cl_existence c @ [(embed_output e, neg)]\<rparr>
         | (Some e, Is_op Is_not_null) \<Rightarrow> c\<lparr>cl_existence := cl_existence c @ [(embed_output e, \<not> neg)]\<rparr>
         | _ \<Rightarrow> c\<lparr>cl_filters := cl_filters c @ [f]\<rparr>)"

text \<open>One \<open>for\<close> of \<open>readTree\<close> over a map: each entry changes the clauses of its node.\<close>

fun attach_all :: "(string \<times> read_node) list \<Rightarrow> (read_node \<Rightarrow> 'a \<Rightarrow> node_clauses \<Rightarrow> node_clauses)
    \<Rightarrow> (string \<times> 'a) list \<Rightarrow> clauses \<Rightarrow> plan_error + clauses" where
  "attach_all nodes f [] cs = Inr cs"
| "attach_all nodes f ((path, x) # rest) cs =
     (case node_at nodes path of
        Inl e \<Rightarrow> Inl e
      | Inr n \<Rightarrow> attach_all nodes f rest (cs(node_id n := f n x (cs (node_id n)))))"

definition sum_bind :: "'e + 'a \<Rightarrow> ('a \<Rightarrow> 'e + 'b) \<Rightarrow> 'e + 'b" where
  "sum_bind r f = (case r of Inl e \<Rightarrow> Inl e | Inr x \<Rightarrow> f x)"

definition attach_params :: "(string \<times> read_node) list \<Rightarrow> query_params \<Rightarrow> plan_error + clauses" where
  "attach_params nodes q =
     sum_bind (attach_all nodes (\<lambda>n fs c. fold (attach_filter n) fs c) (q_filters q) (\<lambda>i. no_clauses)) (\<lambda>cs.
     sum_bind (attach_all nodes (\<lambda>n ts c. c\<lparr>cl_logic := cl_logic c @ ts\<rparr>) (q_logic q) cs) (\<lambda>cs.
     sum_bind (attach_all nodes (\<lambda>n ts c. c\<lparr>cl_order := cl_order c @ ts\<rparr>) (q_order q) cs) (\<lambda>cs.
     sum_bind (attach_all nodes (\<lambda>n k c. c\<lparr>cl_limit := Some k\<rparr>) (q_limit q) cs) (\<lambda>cs.
       attach_all nodes (\<lambda>n k c. c\<lparr>cl_offset := Some k\<rparr>) (q_offset q) cs))))"

record read_tree =
  tree_root :: read_node
  tree_clauses :: clauses

text \<open>\<open>readTree\<close>, with the alias counter of the planner before and after.\<close>

definition read_tree :: "snapshot \<Rightarrow> string \<Rightarrow> table_info \<Rightarrow> select_item list option \<Rightarrow> query_params \<Rightarrow> string option \<Rightarrow> nat
    \<Rightarrow> plan_error + read_tree \<times> nat" where
  "read_tree snap schema t select q top_alias k =
     sum_bind (plan_items snap schema t (case select of None \<Rightarrow> [Star] | Some its \<Rightarrow> its) k) (\<lambda>(its, k').
       let rootn = Read_node 0 t (case top_alias of None \<Rightarrow> tbl_name t | Some a \<Rightarrow> a) its
       in sum_map (\<lambda>cs. (\<lparr>tree_root = rootn, tree_clauses = cs\<rparr>, k')) (attach_params (tree_nodes rootn) q))"

end
