(* ===== verification/Query_Sql.thy ===== *)
theory Query_Sql
  imports Query_Plan
begin

text \<open>
  From the read tree to the text of a statement (\<open>server/db/postgrest/plan.ts\<close>, the SQL part of
  \<open>Planner\<close> and \<open>opSql\<close>). The bind parameters are the state: \<open>p.add\<close> appends a value and gives its
  placeholder. An exception of the code is an error value.
\<close>

section \<open>Writing with bind parameters\<close>

type_synonym 'a writer = "params \<Rightarrow> plan_error + 'a \<times> params"

definition ret :: "'a \<Rightarrow> 'a writer" where
  "ret x ps = Inr (x, ps)"

definition raise :: "plan_error \<Rightarrow> 'a writer" where
  "raise e ps = Inl e"

definition bind_w :: "'a writer \<Rightarrow> ('a \<Rightarrow> 'b writer) \<Rightarrow> 'b writer" where
  "bind_w m f ps = (case m ps of Inl e \<Rightarrow> Inl e | Inr (x, ps') \<Rightarrow> f x ps')"

definition add_param :: "bind_value \<Rightarrow> string writer" where
  "add_param v ps = Inr (params_add v ps)"

fun each :: "('a \<Rightarrow> 'b writer) \<Rightarrow> 'a list \<Rightarrow> 'b list writer" where
  "each f [] = ret []"
| "each f (x # xs) = bind_w (f x) (\<lambda>y. bind_w (each f xs) (\<lambda>ys. ret (y # ys)))"

lemma bind_w_cong [fundef_cong]:
  "m ps = m' ps' \<Longrightarrow> ps = ps' \<Longrightarrow> (\<And>x qs. m' ps' = Inr (x, qs) \<Longrightarrow> f x qs = f' x qs) \<Longrightarrow> bind_w m f ps = bind_w m' f' ps'"
  by (auto simp: bind_w_def split: sum.split)

lemma each_cong [fundef_cong]:
  "xs = ys \<Longrightarrow> (\<And>x. x \<in> set ys \<Longrightarrow> f x = g x) \<Longrightarrow> each f xs = each g ys"
proof -
  have "(\<And>x. x \<in> set ys \<Longrightarrow> f x = g x) \<Longrightarrow> each f ys = each g ys" by (induction ys) auto
  then show "xs = ys \<Longrightarrow> (\<And>x. x \<in> set ys \<Longrightarrow> f x = g x) \<Longrightarrow> each f xs = each g ys" by simp
qed

fun joined :: "string \<Rightarrow> string list \<Rightarrow> string" where
  "joined sep [] = []"
| "joined sep [w] = w"
| "joined sep (w # v # vs) = w @ sep @ joined sep (v # vs)"

section \<open>Expressions\<close>

definition starts_underscore :: "string \<Rightarrow> bool" where
  "starts_underscore s \<longleftrightarrow> starts ''_'' s"

fun json_ops_sql :: "json_op list \<Rightarrow> string" where
  "json_ops_sql [] = []"
| "json_ops_sql (j # js) =
     (if shows_text j then ''->>'' else ''->'') @ (if is_index j then json_key j else ql (json_key j)) @ json_ops_sql js"

definition field_expr :: "string \<Rightarrow> field_ref \<Rightarrow> table_info \<Rightarrow> string" where
  "field_expr al f t =
     (let e = qi al @ ''.'' @ qi (field_name f);
          array = (case map_of (tbl_columns t) (field_name f) of None \<Rightarrow> False | Some c \<Rightarrow> starts_underscore (col_typname c))
      in (if field_json f \<noteq> [] \<and> array then ''to_jsonb('' @ e @ '')'' else e) @ json_ops_sql (field_json f))"

fun SQL_OPS :: "simple_op \<Rightarrow> string" where
  "SQL_OPS Eq = ''=''" | "SQL_OPS Neq = ''<>''"
| "SQL_OPS Gt = ''>''" | "SQL_OPS Gte = ''>=''"
| "SQL_OPS Lt = ''<''" | "SQL_OPS Lte = ''<=''"
| "SQL_OPS Like = ''LIKE''" | "SQL_OPS Ilike = ''ILIKE''"
| "SQL_OPS Match = ''~''" | "SQL_OPS Imatch = ''~*''"
| "SQL_OPS Cs = ''@>''" | "SQL_OPS Cd = ''<@''"
| "SQL_OPS Ov = ''&&''" | "SQL_OPS Sl = ''<<''"
| "SQL_OPS Sr = ''>>''" | "SQL_OPS Nxr = ''&<''"
| "SQL_OPS Nxl = ''&>''" | "SQL_OPS Adj = ''-|-''"

fun TSQUERY :: "fts_op \<Rightarrow> string" where
  "TSQUERY Fts = ''to_tsquery''"
| "TSQUERY Plfts = ''plainto_tsquery''"
| "TSQUERY Phfts = ''phraseto_tsquery''"
| "TSQUERY Wfts = ''websearch_to_tsquery''"

fun is_sql :: "is_value \<Rightarrow> string" where
  "is_sql Is_null = ''NULL''"
| "is_sql Is_not_null = ''NOT NULL''"
| "is_sql Is_true = ''TRUE''"
| "is_sql Is_false = ''FALSE''"
| "is_sql Is_unknown = ''UNKNOWN''"

fun quantifier_sql :: "quantifier \<Rightarrow> string" where
  "quantifier_sql Any_of = ''ANY''"
| "quantifier_sql All_of = ''ALL''"

definition like_value :: "simple_op \<Rightarrow> string \<Rightarrow> string" where
  "like_value op v = (if op \<in> {Like, Ilike} then map (\<lambda>c. if c = CHR ''*'' then CHR ''%'' else c) v else v)"

fun cond_sql :: "string \<Rightarrow> bool \<Rightarrow> operation \<Rightarrow> string writer" where
  "cond_sql e tsv (In_op vs) = bind_w (add_param (List_value vs)) (\<lambda>p. ret (e @ '' = ANY('' @ p @ '')''))"
| "cond_sql e tsv (Is_op v) = ret (e @ '' IS '' @ is_sql v)"
| "cond_sql e tsv (Isdistinct_op v) = bind_w (add_param (Text_value v)) (\<lambda>p. ret (e @ '' IS DISTINCT FROM '' @ p))"
| "cond_sql e tsv (Fts_op f lang v) =
     (let l = (case lang of None \<Rightarrow> [] | Some w \<Rightarrow> ql w @ ''::regconfig, '');
          doc = (if tsv then e else ''to_tsvector('' @ l @ e @ '')'')
      in bind_w (add_param (Text_value v)) (\<lambda>p. ret (doc @ '' @@ '' @ TSQUERY f @ ''('' @ l @ p @ '')'')))"
| "cond_sql e tsv (Simple_op op q v) =
     bind_w (add_param (Text_value (like_value op v))) (\<lambda>p. ret (case q of
       Some k \<Rightarrow> e @ '' '' @ SQL_OPS op @ '' '' @ quantifier_sql k @ ''('' @ p @ '')''
     | None \<Rightarrow> e @ '' '' @ SQL_OPS op @ '' '' @ p))"

definition op_sql :: "string \<Rightarrow> op_expr \<Rightarrow> bool \<Rightarrow> string writer" where
  "op_sql e x tsv =
     bind_w (cond_sql e tsv (op_operation x)) (\<lambda>cond. ret (if op_negate x then ''NOT '' @ cond else cond))"

section \<open>Clauses of a node\<close>

definition filter_sql :: "read_node \<Rightarrow> filter_term \<Rightarrow> string writer" where
  "filter_sql n f =
     (let column = map_of (tbl_columns (node_table n)) (field_name (filter_field f));
          tsv = (case column of None \<Rightarrow> False | Some c \<Rightarrow> col_typname c = ''tsvector'' \<and> field_json (filter_field f) = [])
      in op_sql (field_expr (node_alias n) (filter_field f) (node_table n)) (filter_expr f) tsv)"

fun logic_sql :: "read_node \<Rightarrow> logic_tree \<Rightarrow> string writer" where
  "logic_sql n (Filter_leaf f) = filter_sql n f"
| "logic_sql n (Logic_expr neg op ts) =
     bind_w (each (logic_sql n) ts) (\<lambda>parts.
       ret ((if neg then ''NOT '' else []) @ ''('' @ joined (case op of And_op \<Rightarrow> '' AND '' | Or_op \<Rightarrow> '' OR '') parts @ '')''))"

definition ordering_not_supported :: "string \<Rightarrow> pgrst_error" where
  "ordering_not_supported name =
     bad_request ''PGRST100'' (''ordering by an embedded resource ('' @ in_quotes (name @ ''(...)'') @ '') is not supported by this server'')"

definition order_term_sql :: "read_node \<Rightarrow> order_term \<Rightarrow> string writer" where
  "order_term_sql n t =
     (if order_relation t \<noteq> None \<and> order_relation t \<noteq> Some [] then raise (Pgrst (ordering_not_supported (the (order_relation t))))
      else ret (field_expr (node_alias n) (order_field t) (node_table n) @ '' ''
             @ (if order_direction t = Some Desc then ''DESC'' else ''ASC'')
             @ (case order_nulls t of None \<Rightarrow> [] | Some Nulls_first \<Rightarrow> '' NULLS FIRST'' | Some Nulls_last \<Rightarrow> '' NULLS LAST'')))"

definition order_sql :: "read_node \<Rightarrow> order_term list \<Rightarrow> string writer" where
  "order_sql n ts = bind_w (each (order_term_sql n) ts) (\<lambda>parts. ret (joined '', '' parts))"

definition join_cols_sql :: "string \<Rightarrow> embed_plan \<Rightarrow> string" where
  "join_cols_sql parent_alias e =
     joined '' AND '' (map (\<lambda>(c, d). qi (node_alias (embed_node e)) @ ''.'' @ qi c @ '' = '' @ qi parent_alias @ ''.'' @ qi d)
       (zip (rel_to_cols (embed_rel e)) (rel_from_cols (embed_rel e))))"

definition node_source :: "read_node \<Rightarrow> string" where
  "node_source n = qtable (tbl_schema (node_table n)) (tbl_name (node_table n))"

definition as_alias :: "read_node \<Rightarrow> string" where
  "as_alias n = '' AS '' @ qi (node_alias n)"

lemma embed_smaller:
  assumes "e \<in> set (node_embeds n)" shows "size (embed_node e) < size n"
proof -
  have p: "P_embed e \<in> set (node_items n)" using assms by (simp add: node_embeds_item)
  have "size (P_embed e) \<le> size_list size (node_items n)" by (rule size_list_estimation' [OF p]) simp
  then show ?thesis by (cases n; cases e) simp
qed

text \<open>
  \<open>whereParts\<close> and \<open>existsSql\<close>. An embed named by an existence filter is the first of that name, as
  \<open>readTree\<close> found it.
\<close>

function where_parts :: "clauses \<Rightarrow> read_node \<Rightarrow> string list writer"
  and exists_sql :: "clauses \<Rightarrow> read_node \<Rightarrow> embed_plan \<Rightarrow> string writer" where
  "where_parts cs n =
     bind_w (each (filter_sql n) (cl_filters (cs (node_id n)))) (\<lambda>fs.
     bind_w (each (logic_sql n) (cl_logic (cs (node_id n)))) (\<lambda>ls.
     bind_w (each (\<lambda>e. bind_w (exists_sql cs n e) (\<lambda>sub. ret (''EXISTS ('' @ sub @ '')'')))
             (filter embed_inner (node_embeds n))) (\<lambda>ins.
     bind_w (each (\<lambda>x. case List.find (\<lambda>e. embed_output e = fst x) (node_embeds n) of
               None \<Rightarrow> raise (Js_error ''no such embed'')
             | Some e \<Rightarrow> bind_w (exists_sql cs n e) (\<lambda>sub. ret ((if snd x then [] else ''NOT '') @ ''EXISTS ('' @ sub @ '')'')))
             (cl_existence (cs (node_id n)))) (\<lambda>xs.
       ret (fs @ ls @ ins @ xs)))))"
| "exists_sql cs parent e =
     bind_w (where_parts cs (embed_node e)) (\<lambda>ws.
       ret (''SELECT 1 FROM '' @ node_source (embed_node e) @ as_alias (embed_node e) @ '' WHERE ''
         @ joined '' AND '' (join_cols_sql (node_alias parent) e # ws)))"
  by pat_completeness auto
termination
  by (relation "measure (\<lambda>x. case x of Inl (cs, n) \<Rightarrow> 2 * size n | Inr (cs, parent, e) \<Rightarrow> 2 * size (embed_node e) + 1)")
    (auto dest!: find_Some_D embed_smaller)

declare where_parts.simps [simp del] exists_sql.simps [simp del]

section \<open>The statement of a node\<close>

record select_opts =
  opt_from :: "string option"
  opt_join :: "string option"
  opt_max_rows :: "nat option"
  opt_columns :: "string option"
  opt_explicit_star :: bool

definition default_opts :: select_opts where
  "default_opts = \<lparr>opt_from = None, opt_join = None, opt_max_rows = None, opt_columns = None, opt_explicit_star = False\<rparr>"

definition effective_limit :: "nat option \<Rightarrow> nat option \<Rightarrow> nat option" where
  "effective_limit limit max_rows =
     (case max_rows of
        Some m \<Rightarrow> if 0 < m then Some (case limit of None \<Rightarrow> m | Some l \<Rightarrow> min l m) else limit
      | None \<Rightarrow> limit)"

definition star_sql :: "bool \<Rightarrow> read_node \<Rightarrow> string" where
  "star_sql explicit n =
     (if \<not> explicit then qi (node_alias n) @ ''.*''
      else joined '', '' (map (\<lambda>c. qi (node_alias n) @ ''.'' @ qi c) (map fst (tbl_columns (node_table n)))))"

definition cast_sql :: "string \<Rightarrow> string option \<Rightarrow> string writer" where
  "cast_sql e cast =
     (case cast of
        None \<Rightarrow> ret e
      | Some t \<Rightarrow> if t = [] then ret e
          else case safe_type_name t of
                 None \<Rightarrow> raise (Js_error (''invalid cast type: '' @ t))
               | Some n \<Rightarrow> ret (''CAST('' @ e @ '' AS '' @ n @ '')''))"

definition embed_value_sql :: "embed_plan \<Rightarrow> string \<Rightarrow> string" where
  "embed_value_sql e sub =
     (let al = qi (node_alias (embed_node e) @ ''_row'')
      in if rel_to_one (embed_rel e)
         then ''(SELECT to_jsonb('' @ al @ '') FROM ('' @ sub @ '') AS '' @ al @ '')''
         else ''COALESCE((SELECT jsonb_agg('' @ al @ '') FROM ('' @ sub @ '') AS '' @ al @ ''), '' @ ql ''[]'' @ ''::jsonb)'')"

text \<open>The clauses after the columns, from the conditions and the order.\<close>

definition tail_sql :: "read_node \<Rightarrow> node_clauses \<Rightarrow> select_opts \<Rightarrow> string list \<Rightarrow> string \<Rightarrow> string list \<Rightarrow> string" where
  "tail_sql n c opts cols order where =
     (''SELECT '' @ joined '', '' cols @ '' FROM '' @ (case opt_from opts of None \<Rightarrow> node_source n | Some f \<Rightarrow> f) @ as_alias n
      @ (if where = [] then [] else '' WHERE '' @ joined '' AND '' where)
      @ (if cl_order c = [] then [] else '' ORDER BY '' @ order)
      @ (case effective_limit (cl_limit c) (opt_max_rows opts) of None \<Rightarrow> [] | Some l \<Rightarrow> '' LIMIT '' @ show_nat l)
      @ (case cl_offset c of None \<Rightarrow> [] | Some k \<Rightarrow> if k = 0 then [] else '' OFFSET '' @ show_nat k))"

definition with_join :: "select_opts \<Rightarrow> string list \<Rightarrow> string list" where
  "with_join opts where = (case opt_join opts of None \<Rightarrow> where | Some j \<Rightarrow> if j = [] then where else j # where)"

lemma item_smaller: "it \<in> set (node_items n) \<Longrightarrow> size it < size n"
  by (cases n) (auto dest: size_list_estimation' [where f = size, OF _ order_refl])

lemma embed_node_smaller: "size (embed_node e) < Suc (size e)"
  by (cases e) simp

function select_sql :: "clauses \<Rightarrow> read_node \<Rightarrow> select_opts \<Rightarrow> string writer"
  and item_sql :: "clauses \<Rightarrow> bool \<Rightarrow> read_node \<Rightarrow> planned_item \<Rightarrow> string writer" where
  "select_sql cs n opts =
     bind_w (case opt_columns opts of
               Some c \<Rightarrow> ret [c]
             | None \<Rightarrow> each (\<lambda>it. item_sql cs (opt_explicit_star opts) n it) (node_items n)) (\<lambda>cols.
     bind_w (where_parts cs n) (\<lambda>where.
     bind_w (order_sql n (cl_order (cs (node_id n)))) (\<lambda>order.
       ret (tail_sql n (cs (node_id n)) opts cols order (with_join opts where)))))"
| "item_sql cs explicit n it =
     (case it of
        P_star \<Rightarrow> ret (star_sql explicit n)
      | P_field f out cast \<Rightarrow>
          bind_w (cast_sql (field_expr (node_alias n) f (node_table n)) cast) (\<lambda>e. ret (e @ '' AS '' @ qi out))
      | P_embed e \<Rightarrow>
          bind_w (select_sql cs (embed_node e) (default_opts\<lparr>opt_join := Some (join_cols_sql (node_alias n) e)\<rparr>)) (\<lambda>sub.
            ret (embed_value_sql e sub @ '' AS '' @ qi (embed_output e))))"
  by pat_completeness auto

termination
  by (relation "measure (\<lambda>x. case x of Inl (cs, n, opts) \<Rightarrow> size n | Inr (cs, explicit, n, it) \<Rightarrow> size it)")
    (auto dest!: item_smaller intro: embed_node_smaller)

declare select_sql.simps [simp del] item_sql.simps [simp del]

end
