(* ===== verification/Query_Engine.thy ===== *)
theory Query_Engine
  imports Query_Sql
begin

text \<open>
  The engine of the data layer (\<open>server/db/postgrest/engine.ts\<close>, \<open>errors.ts\<close>): one request becomes one
  statement, and the row of the statement becomes the response. A request is prepared first (the
  statement, its parameters, and how its rows are answered), then the statement is run; \<open>handle_request\<close> is the
  loop around both, with the statements it ran. The database is an argument.
\<close>

section \<open>Requests, rows and responses\<close>

datatype http_method = Method_get | Method_head | Method_post | Method_patch | Method_delete | Method_other string

text \<open>The body after \<open>JSON.parse\<close>; objects list their keys in the order of \<open>Object.keys\<close>.\<close>

datatype request_body = No_body | Bad_json | Json_body jsval

record engine_request =
  req_method :: http_method
  req_segments :: "string list"
  req_path :: string
  req_query :: "(string \<times> string) list"
  req_prefer :: string
  req_accept :: string
  req_accept_profile :: "string option"
  req_content_profile :: "string option"
  req_body :: request_body

record db_row =
  row_total :: "nat option"
  row_page :: nat
  row_body :: "string option"
  row_inserted :: bool

record db_error =
  err_code :: "string option"
  err_message :: "string option"
  err_detail :: "string option"
  err_hint :: "string option"
  err_severity :: bool

type_synonym db_reply = "db_error + db_row list"

datatype response_body = Text_body string | Error_body pgrst_error | Choices_body table_info string "relationship list"

record engine_response =
  res_status :: nat
  res_content_range :: "string option"
  res_body :: response_body

section \<open>Preferences\<close>

datatype duplicate_resolution = Merge_duplicates | Ignore_duplicates

record preferences =
  pref_representation :: bool
  pref_count :: bool
  pref_resolution :: "duplicate_resolution option"
  pref_missing_default :: bool

definition no_preference :: preferences where
  "no_preference = \<lparr>pref_representation = False, pref_count = False, pref_resolution = None, pref_missing_default = False\<rparr>"

definition prefer_token :: "string \<Rightarrow> preferences \<Rightarrow> preferences" where
  "prefer_token t p =
     (if t = ''return=representation'' then p\<lparr>pref_representation := True\<rparr>
      else if t = ''return=minimal'' \<or> t = ''return=headers-only'' then p\<lparr>pref_representation := False\<rparr>
      else if starts ''count='' t then p\<lparr>pref_count := True\<rparr>
      else if t = ''resolution=merge-duplicates'' then p\<lparr>pref_resolution := Some Merge_duplicates\<rparr>
      else if t = ''resolution=ignore-duplicates'' then p\<lparr>pref_resolution := Some Ignore_duplicates\<rparr>
      else if t = ''missing=default'' then p\<lparr>pref_missing_default := True\<rparr>
      else p)"

definition parse_prefer :: "string \<Rightarrow> preferences" where
  "parse_prefer header = fold prefer_token (filter (\<lambda>t. t \<noteq> []) (map js_trim (split_on CHR '','' header))) no_preference"

section \<open>Errors\<close>

definition singularity_error :: "nat \<Rightarrow> pgrst_error" where
  "singularity_error rows =
     \<lparr>pgrst_status = 406, pgrst_code = ''PGRST116'', pgrst_message = ''Cannot coerce the result to a single JSON object'',
      pgrst_details = Some (''The result contains '' @ show_nat rows @ '' rows''), pgrst_hint = None\<rparr>"

definition range_not_satisfiable :: "nat \<Rightarrow> nat \<Rightarrow> pgrst_error" where
  "range_not_satisfiable offset tot =
     \<lparr>pgrst_status = 416, pgrst_code = ''PGRST103'', pgrst_message = ''Requested range not satisfiable'',
      pgrst_details = Some (''An offset of '' @ show_nat offset @ '' was requested, but there are only '' @ show_nat tot @ '' rows.''),
      pgrst_hint = None\<rparr>"

definition sql_state_class :: "string \<Rightarrow> string \<Rightarrow> nat" where
  "sql_state_class two rest =
     (if two = ''08'' then 503
      else if two = ''09'' then 500
      else if two \<in> {''0L'', ''0P''} then 403
      else if two \<in> {''25'', ''2D'', ''38'', ''39'', ''3B'', ''40''} then 500
      else if two = ''28'' then 403
      else if two = ''53'' then 503
      else if two \<in> {''54'', ''55'', ''57'', ''58'', ''F0'', ''HV'', ''P0'', ''XX''} then 500
      else if two = ''PT''
      then (case num_value (js_number rest) of
              Some q \<Rightarrow> if rat_is_int q \<and> 100 \<le> q \<and> q \<le> 599 then nat \<lfloor>q\<rfloor> else 500
            | None \<Rightarrow> 500)
      else 400)"

definition status_for_sql_state :: "string \<Rightarrow> string \<Rightarrow> nat" where
  "status_for_sql_state code message =
     (if code = ''23503'' \<or> code = ''23505'' then 409
      else if code = ''25006'' then 405
      else if code = ''21000'' then (if ends_with ''requires a WHERE clause'' message then 400 else 500)
      else if code = ''53400'' then 500
      else if code = ''57P01'' then 503
      else if code = ''P0001'' then 400
      else if code = ''42883'' \<or> code = ''42P01'' then 404
      else if code = ''42P17'' then 500
      else if code = ''42501'' then 403
      else sql_state_class (take 2 code) (drop 2 code))"

definition from_pg_error :: "db_error \<Rightarrow> pgrst_error" where
  "from_pg_error e =
     (let code = (case err_code e of None \<Rightarrow> [] | Some c \<Rightarrow> c); message = (case err_message e of None \<Rightarrow> [] | Some m \<Rightarrow> m)
      in \<lparr>pgrst_status = status_for_sql_state code message, pgrst_code = code, pgrst_message = message,
          pgrst_details = err_detail e, pgrst_hint = err_hint e\<rparr>)"

definition is_pg_server_error :: "db_error \<Rightarrow> bool" where
  "is_pg_server_error e \<longleftrightarrow>
     (case err_code e of
        None \<Rightarrow> False
      | Some c \<Rightarrow> length c = 5 \<and> list_all (\<lambda>d. is_digit d \<or> is_upper_letter d) c \<and> err_severity e)"

definition error_response :: "pgrst_error \<Rightarrow> engine_response" where
  "error_response e = \<lparr>res_status = pgrst_status e, res_content_range = None, res_body = Error_body e\<rparr>"

section \<open>Ranges and guards\<close>

definition content_range :: "nat \<Rightarrow> nat \<Rightarrow> nat option \<Rightarrow> string" where
  "content_range offset rows tot =
     (let t = (case tot of None \<Rightarrow> ''*'' | Some n \<Rightarrow> show_nat n)
      in if 0 < rows then show_nat offset @ ''-'' @ show_nat (offset + rows - 1) @ ''/'' @ t else ''*/'' @ t)"

definition SINGULAR_GUARD :: string where "SINGULAR_GUARD = ''pgrst_singular:''"

definition RANGE_GUARD :: string where "RANGE_GUARD = ''pgrst_range:''"

text \<open>\<open>responseGuard\<close>: the column of the rows of a single-row request, the offset, the column of the tot.\<close>

definition response_guard :: "string option \<Rightarrow> nat \<Rightarrow> string option \<Rightarrow> string" where
  "response_guard single_rows offset tot =
     (let branches =
        (case single_rows of None \<Rightarrow> []
         | Some r \<Rightarrow> [''WHEN '' @ r @ '' <> 1 THEN ('' @ ql SINGULAR_GUARD @ '' || '' @ r @ '')::int''])
        @ (case tot of None \<Rightarrow> []
           | Some t \<Rightarrow> if offset = 0 then []
               else [''WHEN '' @ t @ '' IS NOT NULL AND '' @ show_nat offset @ '' > '' @ t @ '' THEN ('' @ ql (RANGE_GUARD @ show_nat offset @ '':'')
                 @ '' || '' @ t @ '')::int''])
      in if branches = [] then ''0'' else ''CASE '' @ joined '' '' branches @ '' ELSE 0 END'')"

section \<open>Prepared requests\<close>

text \<open>A statement with its parameters and how its rows are answered, an error included.\<close>

record prepared =
  prep_sql :: string
  prep_params :: params
  prep_answer :: "db_row list \<Rightarrow> plan_error + engine_response"

definition with_row :: "(db_row \<Rightarrow> plan_error + engine_response) \<Rightarrow> db_row list \<Rightarrow> plan_error + engine_response" where
  "with_row f rows = (case rows of [] \<Rightarrow> Inl (Js_error ''no row'') | r # rs \<Rightarrow> f r)"

definition row_text :: "db_row \<Rightarrow> response_body" where
  "row_text r = Text_body (case row_body r of None \<Rightarrow> ''null'' | Some b \<Rightarrow> b)"

definition body_column :: "bool \<Rightarrow> bool \<Rightarrow> string" where
  "body_column head single =
     (if head then ql []
      else if single then ''(json_agg(_pgrst_t) -> 0)::text''
      else ''coalesce(json_agg(_pgrst_t), '' @ ql ''[]'' @ '')::text'')"

definition where_text :: "string list \<Rightarrow> string" where
  "where_text ws = (if ws = [] then [] else '' WHERE '' @ joined '' AND '' ws)"

definition lift_plan :: "plan_error + 'a \<Rightarrow> 'a writer" where
  "lift_plan r ps = (case r of Inl e \<Rightarrow> Inl e | Inr x \<Rightarrow> Inr (x, ps))"

definition partial_page :: "nat \<Rightarrow> nat \<Rightarrow> nat option \<Rightarrow> bool" where
  "partial_page offset page tot = (case tot of None \<Rightarrow> False | Some t \<Rightarrow> 0 < offset \<or> offset + page < t)"

section \<open>Reads\<close>

definition read_answer :: "bool \<Rightarrow> bool \<Rightarrow> nat \<Rightarrow> db_row \<Rightarrow> plan_error + engine_response" where
  "read_answer single head offset r =
     (let page = row_page r; tot = row_total r
      in if single \<and> page \<noteq> 1 then Inl (Pgrst (singularity_error page))
         else if (case tot of None \<Rightarrow> False | Some t \<Rightarrow> t < offset) then Inl (Pgrst (range_not_satisfiable offset (the tot)))
         else Inr \<lparr>res_status = (if partial_page offset page tot then 206 else 200),
                   res_content_range = Some (content_range offset page tot),
                   res_body = (if head then Text_body [] else row_text r)\<rparr>)"

definition read_statement :: "nat option \<Rightarrow> table_info \<Rightarrow> read_tree \<Rightarrow> preferences \<Rightarrow> bool \<Rightarrow> bool \<Rightarrow> string writer" where
  "read_statement max_rows t tree pref single head =
     (let n = tree_root tree
      in bind_w (select_sql (tree_clauses tree) n (default_opts\<lparr>opt_max_rows := max_rows\<rparr>)) (\<lambda>page_sql.
         bind_w (if pref_count pref
                 then bind_w (where_parts (tree_clauses tree) n) (\<lambda>ws.
                   ret (''(SELECT pg_catalog.count(*) FROM '' @ qtable (tbl_schema t) (tbl_name t) @ '' AS '' @ qi (node_alias n)
                     @ where_text ws @ '')''))
                 else ret ''NULL::bigint'') (\<lambda>count_sql.
           ret (''SELECT '' @ count_sql @ '' AS total, pg_catalog.count(*) AS page, '' @ body_column head single @ '' AS body FROM (''
             @ page_sql @ '') AS _pgrst_t''))))"

definition run_writer :: "'a writer \<Rightarrow> plan_error + 'a \<times> params" where
  "run_writer m = m []"

definition prepare_read :: "nat option \<Rightarrow> snapshot \<Rightarrow> string \<Rightarrow> table_info \<Rightarrow> query_params \<Rightarrow> preferences \<Rightarrow> bool \<Rightarrow> bool
    \<Rightarrow> plan_error + prepared" where
  "prepare_read max_rows snap schema t q pref single head =
     sum_bind (read_tree snap schema t (q_select q) q None 0) (\<lambda>(tree, k).
     sum_bind (run_writer (read_statement max_rows t tree pref single head)) (\<lambda>(sql, ps).
       let offset = (case cl_offset (tree_clauses tree 0) of None \<Rightarrow> 0 | Some o' \<Rightarrow> o')
       in Inr \<lparr>prep_sql = sql, prep_params = ps, prep_answer = with_row (read_answer single head offset)\<rparr>))"

section \<open>Writes\<close>

datatype write_kind = Kind_insert | Kind_upsert | Kind_update | Kind_delete

definition single_guard :: "bool \<Rightarrow> string" where
  "single_guard single =
     (if single
      then ''CASE WHEN pg_catalog.count(*) > 1 THEN ('' @ ql SINGULAR_GUARD @ '' || pg_catalog.count(*))::int ELSE 0 END''
      else ''0'')"

definition inserted_column :: "string \<Rightarrow> string" where
  "inserted_column al = ''('' @ qi al @ ''.xmax = 0) AS pgrst_inserted''"

definition inserted_sql :: "write_kind \<Rightarrow> string" where
  "inserted_sql kind =
     (if kind = Kind_upsert then ''(SELECT coalesce(bool_or(pgrst_inserted), true) FROM pgrst_source)'' else ''true'')"

definition without_clauses :: "query_params \<Rightarrow> query_params" where
  "without_clauses q = q\<lparr>q_filters := [], q_logic := [], q_order := [], q_limit := [], q_offset := []\<rparr>"

definition mutate_statement :: "snapshot \<Rightarrow> string \<Rightarrow> table_info \<Rightarrow> query_params \<Rightarrow> (string \<Rightarrow> string writer)
    \<Rightarrow> preferences \<Rightarrow> bool \<Rightarrow> write_kind \<Rightarrow> string writer" where
  "mutate_statement snap schema t q mutation pref single kind =
     (let al = tbl_name t
      in if pref_representation pref \<or> single
         then bind_w (lift_plan (read_tree snap schema t (q_select q) (without_clauses q) (Some al) 0)) (\<lambda>(tree, k).
              bind_w (select_sql (tree_clauses tree) (tree_root tree)
                (default_opts\<lparr>opt_from := Some ''pgrst_source'', opt_explicit_star := (kind = Kind_upsert)\<rparr>)) (\<lambda>shaped.
              bind_w (mutation (qi al @ ''.*'' @ (if kind = Kind_upsert then '', '' @ inserted_column al else []))) (\<lambda>change.
                ret (''WITH pgrst_source AS ('' @ change @ '') SELECT '' @ single_guard single
                  @ '' AS guard, pg_catalog.count(*) AS page, '' @ body_column False single @ '' AS body, '' @ inserted_sql kind
                  @ '' AS inserted FROM ('' @ shaped @ '') AS _pgrst_t''))))
         else bind_w (mutation (if kind = Kind_upsert then inserted_column al else ''1'')) (\<lambda>change.
                ret (''WITH pgrst_source AS ('' @ change @ '') SELECT '' @ single_guard single
                  @ '' AS guard, pg_catalog.count(*) AS page, '' @ ql [] @ '' AS body, '' @ inserted_sql kind
                  @ '' AS inserted FROM pgrst_source'')))"

definition mutate_answer :: "preferences \<Rightarrow> bool \<Rightarrow> write_kind \<Rightarrow> db_row \<Rightarrow> plan_error + engine_response" where
  "mutate_answer pref single kind r =
     (let page = row_page r;
          tot = (if pref_count pref then Some page else None);
          created = (kind = Kind_insert \<or> kind = Kind_upsert \<and> (page = 0 \<or> row_inserted r));
          writes_rows = (kind = Kind_insert \<or> kind = Kind_upsert);
          rows_range = ''*/'' @ (case tot of None \<Rightarrow> ''*'' | Some n \<Rightarrow> show_nat n)
      in if single \<and> page \<noteq> 1 then Inl (Pgrst (singularity_error page))
         else if \<not> (pref_representation pref \<or> single)
         then Inr \<lparr>res_status = (if writes_rows then (if created then 201 else 200) else 204),
                   res_content_range = Some (if writes_rows then rows_range
                     else content_range 0 (case tot of None \<Rightarrow> 0 | Some n \<Rightarrow> n) tot),
                   res_body = Text_body []\<rparr>
         else Inr \<lparr>res_status = (if created then 201 else 200),
                   res_content_range = Some (if writes_rows then rows_range else content_range 0 page tot),
                   res_body = row_text r\<rparr>)"

definition prepare_write :: "snapshot \<Rightarrow> string \<Rightarrow> table_info \<Rightarrow> query_params \<Rightarrow> (string \<Rightarrow> string writer)
    \<Rightarrow> preferences \<Rightarrow> bool \<Rightarrow> write_kind \<Rightarrow> plan_error + prepared" where
  "prepare_write snap schema t q mutation pref single kind =
     sum_map (\<lambda>(sql, ps). \<lparr>prep_sql = sql, prep_params = ps, prep_answer = with_row (mutate_answer pref single kind)\<rparr>)
       (run_writer (mutate_statement snap schema t q mutation pref single kind))"

definition target :: "table_info \<Rightarrow> string" where
  "target t = qtable (tbl_schema t) (tbl_name t) @ '' AS '' @ qi (tbl_name t)"

definition nothing_sql :: "table_info \<Rightarrow> string \<Rightarrow> string" where
  "nothing_sql t returning = ''SELECT '' @ returning @ '' FROM '' @ target t @ '' WHERE false''"

subsection \<open>The rows a PATCH or DELETE is about\<close>

text \<open>
  \<open>targetWhere\<close> plans \<open>*\<close>, so the tree has no embed and the alias counter does not matter; a limit or an
  offset turns the condition into one on the row identifiers.
\<close>

definition target_where :: "snapshot \<Rightarrow> string \<Rightarrow> table_info \<Rightarrow> query_params \<Rightarrow> string list writer" where
  "target_where snap schema t q =
     bind_w (lift_plan (read_tree snap schema t (Some [Star]) q None 0)) (\<lambda>(tree, k).
       let n = tree_root tree; c = tree_clauses tree 0
       in bind_w (where_parts (tree_clauses tree) n) (\<lambda>ws.
            if cl_limit c = None \<and> cl_offset c = None then ret ws
            else bind_w (select_sql (tree_clauses tree) n (default_opts\<lparr>opt_columns := Some (qi (node_alias n) @ ''.ctid'')\<rparr>)) (\<lambda>inner.
              ret (ws @ [qi (node_alias n) @ ''.ctid = ANY(ARRAY('' @ inner @ ''))'']))))"

definition delete_sql :: "snapshot \<Rightarrow> string \<Rightarrow> table_info \<Rightarrow> query_params \<Rightarrow> string \<Rightarrow> string writer" where
  "delete_sql snap schema t q returning =
     bind_w (target_where snap schema t q) (\<lambda>ws.
       ret (''DELETE FROM '' @ target t @ where_text ws @ '' RETURNING '' @ returning))"

definition update_sql :: "snapshot \<Rightarrow> string \<Rightarrow> table_info \<Rightarrow> query_params \<Rightarrow> (string \<times> jsval) list \<Rightarrow> string \<Rightarrow> string writer" where
  "update_sql snap schema t q payload returning =
     (if payload = [] then ret (nothing_sql t returning)
      else bind_w (add_param (Json_value (JObj payload))) (\<lambda>body.
           bind_w (target_where snap schema t q) (\<lambda>ws.
             ret (''UPDATE '' @ target t @ '' SET '' @ joined '', '' (map (\<lambda>c. qi c @ '' = pgrst_body.'' @ qi c) (map fst payload))
               @ '' FROM (SELECT * FROM json_populate_record(NULL::'' @ qtable (tbl_schema t) (tbl_name t) @ '', '' @ body
               @ ''::json)) AS pgrst_body'' @ where_text ws @ '' RETURNING '' @ returning))))"

definition object_of :: "jsval \<Rightarrow> (string \<times> jsval) list option" where
  "object_of v = (case v of JObj kvs \<Rightarrow> Some kvs | _ \<Rightarrow> None)"

definition parse_body :: "request_body \<Rightarrow> plan_error + jsval" where
  "parse_body b = (case b of No_body \<Rightarrow> Inr (JObj []) | Json_body v \<Rightarrow> Inr v
     | Bad_json \<Rightarrow> Inl (Pgrst (bad_request ''PGRST102'' ''Empty or invalid json'')))"

definition checked :: "plan_error option \<Rightarrow> (unit \<Rightarrow> plan_error + 'a) \<Rightarrow> plan_error + 'a" where
  "checked e k = (case e of Some x \<Rightarrow> Inl x | None \<Rightarrow> k ())"

definition pgrst :: "pgrst_error + 'a \<Rightarrow> plan_error + 'a" where
  "pgrst r = (case r of Inl e \<Rightarrow> Inl (Pgrst e) | Inr x \<Rightarrow> Inr x)"

definition prepare_delete :: "snapshot \<Rightarrow> string \<Rightarrow> table_info \<Rightarrow> engine_request \<Rightarrow> preferences \<Rightarrow> bool \<Rightarrow> plan_error + prepared" where
  "prepare_delete snap schema t req pref single =
     sum_bind (pgrst (parse_query_params None (req_query req))) (\<lambda>q.
       prepare_write snap schema t q (delete_sql snap schema t q) pref single Kind_delete)"

definition prepare_update :: "snapshot \<Rightarrow> string \<Rightarrow> table_info \<Rightarrow> engine_request \<Rightarrow> preferences \<Rightarrow> bool \<Rightarrow> plan_error + prepared" where
  "prepare_update snap schema t req pref single =
     sum_bind (pgrst (parse_query_params None (req_query req))) (\<lambda>q.
     sum_bind (parse_body (req_body req)) (\<lambda>payload.
       case object_of payload of
         None \<Rightarrow> Inl (Pgrst (bad_request ''PGRST102'' ''Empty or invalid json''))
       | Some kvs \<Rightarrow> checked (check_columns t (map fst kvs)) (\<lambda>u.
           prepare_write snap schema t q (update_sql snap schema t q kvs) pref single Kind_update)))"

subsection \<open>Inserts\<close>

text \<open>The conflict clause of an upsert.\<close>

definition conflict_sql :: "duplicate_resolution \<Rightarrow> string list \<Rightarrow> string list \<Rightarrow> string" where
  "conflict_sql res keys cols =
     (if keys = [] then []
      else if res = Ignore_duplicates \<or> cols = []
      then '' ON CONFLICT ('' @ joined '', '' (map qi keys) @ '') DO NOTHING''
      else '' ON CONFLICT ('' @ joined '', '' (map qi keys) @ '') DO UPDATE SET ''
        @ joined '', '' (map (\<lambda>c. qi c @ '' = EXCLUDED.'' @ qi c) cols))"

definition default_or_null :: "table_info \<Rightarrow> string \<Rightarrow> string" where
  "default_or_null t c =
     (case map_of (tbl_columns t) c of None \<Rightarrow> ''NULL''
      | Some i \<Rightarrow> (case col_default i of None \<Rightarrow> ''NULL'' | Some d \<Rightarrow> d))"

definition insert_sql :: "table_info \<Rightarrow> jsval list \<Rightarrow> string list \<Rightarrow> bool \<Rightarrow> string \<Rightarrow> string \<Rightarrow> string writer" where
  "insert_sql t rows cols missing_default conflict returning =
     (if rows = [] then ret (nothing_sql t returning)
      else if cols = [] then ret (''INSERT INTO '' @ target t @ '' DEFAULT VALUES RETURNING '' @ returning)
      else bind_w (add_param (Json_value (JArr rows))) (\<lambda>body.
        let list = joined '', '' (map qi cols); table = qtable (tbl_schema t) (tbl_name t)
        in if missing_default
           then bind_w (each (\<lambda>c. bind_w (add_param (Text_value c)) (\<lambda>p.
                  ret (''CASE WHEN pgrst_elem.value ? '' @ p @ '' THEN pgrst_row.'' @ qi c @ '' ELSE '' @ default_or_null t c @ '' END''))) cols)
                (\<lambda>values.
                  ret (''INSERT INTO '' @ target t @ '' ('' @ list @ '') SELECT '' @ joined '', '' values
                    @ '' FROM jsonb_array_elements('' @ body @ ''::jsonb) WITH ORDINALITY AS pgrst_elem(value, ord), ''
                    @ ''LATERAL jsonb_populate_record(NULL::'' @ table @ '', pgrst_elem.value) AS pgrst_row ORDER BY pgrst_elem.ord''
                    @ conflict @ '' RETURNING '' @ returning))
           else ret (''INSERT INTO '' @ target t @ '' ('' @ list @ '') SELECT '' @ list @ '' FROM json_populate_recordset(NULL::'' @ table
                    @ '', '' @ body @ ''::json) AS pgrst_body'' @ conflict @ '' RETURNING '' @ returning)))"

definition insert_rows :: "jsval \<Rightarrow> jsval list" where
  "insert_rows payload = (case payload of JArr vs \<Rightarrow> vs | v \<Rightarrow> [v])"

definition first_keys :: "jsval list \<Rightarrow> string list" where
  "first_keys rows = (case rows of JObj kvs # vs \<Rightarrow> map fst kvs | _ \<Rightarrow> [])"

definition prepare_insert :: "snapshot \<Rightarrow> string \<Rightarrow> table_info \<Rightarrow> engine_request \<Rightarrow> preferences \<Rightarrow> bool \<Rightarrow> plan_error + prepared" where
  "prepare_insert snap schema t req pref single =
     sum_bind (pgrst (parse_query_params None (req_query req))) (\<lambda>q.
     sum_bind (parse_body (req_body req)) (\<lambda>payload.
       let rows = insert_rows payload;
           cols = (case q_columns q of Some cs \<Rightarrow> cs | None \<Rightarrow> first_keys rows);
           keys = (case pref_resolution pref of None \<Rightarrow> []
                   | Some r \<Rightarrow> (case q_on_conflict q of None \<Rightarrow> tbl_pk t | Some ks \<Rightarrow> ks));
           conflict = (case pref_resolution pref of None \<Rightarrow> [] | Some r \<Rightarrow> conflict_sql r keys cols)
       in if list_ex (\<lambda>r. object_of r = None) rows then Inl (Pgrst (bad_request ''PGRST102'' ''All object keys must match''))
          else checked (check_columns t cols) (\<lambda>u. checked (check_columns t keys) (\<lambda>u.
            if 1 < length rows \<and> cols = [] then Inl (Pgrst (bad_request ''PGRST102'' ''All object keys must match''))
            else prepare_write snap schema t q (insert_sql t rows cols (pref_missing_default pref) conflict) pref single
                   (if pref_resolution pref = None then Kind_insert else Kind_upsert)))))"

section \<open>Functions\<close>

definition single_json :: "function_info \<Rightarrow> bool" where
  "single_json f \<longleftrightarrow> (case fn_args f of [a] \<Rightarrow> arg_name a = [] \<and> arg_type a \<in> {''json'', ''jsonb''} | _ \<Rightarrow> False)"

definition function_fits :: "string list \<Rightarrow> function_info \<Rightarrow> bool" where
  "function_fits keys f \<longleftrightarrow> single_json f
     \<or> fn_all_named f \<and> list_all (\<lambda>k. k \<in> arg_name ` set (fn_args f)) keys
        \<and> list_all (\<lambda>a. arg_has_default a \<or> arg_name a \<in> set keys) (fn_args f)"

fun str_le :: "string \<Rightarrow> string \<Rightarrow> bool" where
  "str_le [] t = True"
| "str_le (c # s) [] = False"
| "str_le (c # s) (d # t) = (code_of c < code_of d \<or> c = d \<and> str_le s t)"

fun insert_sorted_str :: "string \<Rightarrow> string list \<Rightarrow> string list" where
  "insert_sorted_str w [] = [w]"
| "insert_sorted_str w (v # vs) = (if str_le w v then w # v # vs else v # insert_sorted_str w vs)"

definition sorted_names :: "string list \<Rightarrow> string list" where
  "sorted_names ws = foldr insert_sorted_str ws []"

definition function_not_found :: "string \<Rightarrow> string \<Rightarrow> string list \<Rightarrow> string option \<Rightarrow> pgrst_error" where
  "function_not_found schema fn keys suggestion =
     (let names = joined '', '' (sorted_names keys);
          sig = (if keys = [] then '' without parameters'' else ''('' @ names @ '')'');
          with_names = (if keys = [] then '' without parameters''
            else '' with parameter'' @ (if 1 < length keys then ''s '' else '' '') @ names)
      in \<lparr>pgrst_status = 404, pgrst_code = ''PGRST202'',
          pgrst_message = ''Could not find the function '' @ schema @ ''.'' @ fn @ sig @ '' in the schema cache'',
          pgrst_details = Some (''Searched for the function '' @ schema @ ''.'' @ fn @ with_names
            @ '' or with a single unnamed json/jsonb parameter, but no matches were found in the schema cache.''),
          pgrst_hint = (case suggestion of Some s \<Rightarrow> if s = [] then None else Some (''Perhaps you meant to call the function '' @ schema @ ''.'' @ s)
            | None \<Rightarrow> None)\<rparr>)"

definition ambiguous_function :: "string \<Rightarrow> string \<Rightarrow> string list \<Rightarrow> pgrst_error" where
  "ambiguous_function schema fn candidates =
     \<lparr>pgrst_status = 300, pgrst_code = ''PGRST203'',
      pgrst_message = ''Could not choose the best candidate function between: ''
        @ joined '', '' (map (\<lambda>c. schema @ ''.'' @ fn @ ''('' @ c @ '')'') candidates),
      pgrst_details = None,
      pgrst_hint = Some ''Try renaming the parameters or the function itself in the database so function overloading can be resolved''\<rparr>"

definition functions_named :: "snapshot \<Rightarrow> string \<Rightarrow> string \<Rightarrow> function_info list" where
  "functions_named snap schema name =
     (case map_of (snap_functions snap) (table_key schema name) of None \<Rightarrow> [] | Some fs \<Rightarrow> fs)"

definition resolve_function :: "snapshot \<Rightarrow> string \<Rightarrow> string \<Rightarrow> string list \<Rightarrow> plan_error + function_info" where
  "resolve_function snap schema name keys =
     (let candidates = functions_named snap schema name;
          fits = filter (function_fits keys) candidates;
          exact = filter (\<lambda>f. \<not> single_json f \<and> length (fn_args f) = length keys) fits;
          chosen = (if 1 < length fits \<and> length exact = 1 then exact else fits)
      in case chosen of
           [f] \<Rightarrow> Inr f
         | [] \<Rightarrow>
             Inl (Schema_miss (function_not_found schema name keys
               (case candidates of
                  f # fs \<Rightarrow> Some (name @ ''('' @ joined '', '' (map arg_name (fn_args f)) @ '')'')
                | [] \<Rightarrow> snap_closest snap name
                    (map fn_name (filter (\<lambda>f. fn_schema f = schema) (concat (map snd (snap_functions snap))))))))
         | _ \<Rightarrow> Inl (Pgrst (ambiguous_function schema name
                (map (\<lambda>f. joined '', '' (map (\<lambda>a. arg_name a @ '' => '' @ arg_type a) (fn_args f))) chosen))))"

text \<open>The arguments of a call: the JSON object of a POST, the query parameters that name one otherwise.\<close>

definition rpc_args :: "snapshot \<Rightarrow> string \<Rightarrow> string \<Rightarrow> engine_request \<Rightarrow> plan_error + (string \<times> jsval) list" where
  "rpc_args snap schema name req =
     (case req_method req of
        Method_post \<Rightarrow>
          sum_bind (parse_body (req_body req)) (\<lambda>v. case object_of v of
            Some kvs \<Rightarrow> Inr kvs
          | None \<Rightarrow> Inl (Pgrst (bad_request ''PGRST102'' ''Bulk RPC calls are not supported by this server'')))
      | m \<Rightarrow>
          if m = Method_get \<or> m = Method_head
          then (let names = concat (map (\<lambda>f. map arg_name (fn_args f)) (functions_named snap schema name))
                in Inr (fold (\<lambda>(k, v) m. AList.update k (JStr v) m) (filter (\<lambda>(k, v). k \<in> set names) (req_query req)) []))
          else Inl (Pgrst \<lparr>pgrst_status = 405, pgrst_code = ''PGRST101'',
                 pgrst_message = ''Only GET, HEAD and POST are allowed for RPC'', pgrst_details = None, pgrst_hint = None\<rparr>))"

definition type_of_arg :: "function_info \<Rightarrow> string \<Rightarrow> string" where
  "type_of_arg f k = (case List.find (\<lambda>a. arg_name a = k) (rev (fn_args f)) of None \<Rightarrow> [] | Some a \<Rightarrow> arg_type a)"

text \<open>The call of the function and the source of its arguments.\<close>

definition call_sql :: "function_info \<Rightarrow> (string \<times> jsval) list \<Rightarrow> (string \<times> string) writer" where
  "call_sql f args =
     (let qfn = qtable (fn_schema f) (fn_name f); keys = map fst args
      in if single_json f
         then bind_w (add_param (Json_value (JObj args))) (\<lambda>p. ret (qfn @ ''('' @ p @ ''::'' @ arg_type (hd (fn_args f)) @ '')'', []))
         else if keys = [] then ret (qfn @ ''()'', [])
         else bind_w (add_param (Json_value (JObj args))) (\<lambda>p.
           ret (qfn @ ''('' @ joined '', '' (map (\<lambda>k. qi k @ '' := pgrst_args.'' @ qi k) keys) @ '')'',
             ''json_to_record('' @ p @ ''::json) AS pgrst_args('' @ joined '', '' (map (\<lambda>k. qi k @ '' '' @ type_of_arg f k) keys) @ '')'')))"

definition from_list :: "string \<Rightarrow> string \<Rightarrow> string" where
  "from_list source extra =
     (if source \<noteq> [] then ''FROM '' @ source @ (if extra = [] then [] else '', LATERAL '' @ extra)
      else if extra = [] then [] else ''FROM '' @ extra)"

text \<open>The type name after its last dot, quotes removed.\<close>

definition bare_type :: "string \<Rightarrow> string" where
  "bare_type ty = filter (\<lambda>c. c \<noteq> CHR 0x22) (rev (takeWhile (\<lambda>c. c \<noteq> CHR ''.'') (rev ty)))"

definition row_table :: "snapshot \<Rightarrow> string \<Rightarrow> function_info \<Rightarrow> table_info" where
  "row_table snap schema f =
     (case map_of (snap_tables snap) (table_key schema (bare_type (fn_return_type f))) of
        Some t \<Rightarrow> t
      | None \<Rightarrow> \<lparr>tbl_schema = schema, tbl_name = fn_name f, tbl_kind = ''f'', tbl_columns = [], tbl_pk = [], tbl_unique = []\<rparr>)"

definition set_rpc_sql :: "string \<Rightarrow> string \<Rightarrow> string \<Rightarrow> preferences \<Rightarrow> bool \<Rightarrow> nat \<Rightarrow> string" where
  "set_rpc_sql with_source total_sql page_sql pref single offset =
     (let tot = (if pref_count pref then total_sql else ''NULL::bigint'');
          guard = response_guard (if single then Some ''pgrst_page.page'' else None) offset
                    (if pref_count pref then Some ''pgrst_page.total'' else None)
      in with_source @ '' SELECT pgrst_page.total, pgrst_page.page, pgrst_page.body, '' @ guard @ '' AS guard ''
         @ ''FROM (SELECT '' @ tot @ '' AS total, _pgrst_p.page, _pgrst_p.body FROM ('' @ page_sql @ '') AS _pgrst_p) AS pgrst_page'')"

definition set_rpc_answer :: "bool \<Rightarrow> nat \<Rightarrow> db_row \<Rightarrow> plan_error + engine_response" where
  "set_rpc_answer head offset r =
     Inr \<lparr>res_status = (if partial_page offset (row_page r) (row_total r) then 206 else 200),
          res_content_range = Some (content_range offset (row_page r) (row_total r)),
          res_body = (if head then Text_body [] else row_text r)\<rparr>"

definition first_body :: "db_row list \<Rightarrow> response_body" where
  "first_body rows = (case rows of [] \<Rightarrow> Text_body ''null'' | r # rs \<Rightarrow> row_text r)"

definition fixed_answer :: "nat \<Rightarrow> response_body \<Rightarrow> engine_response" where
  "fixed_answer status b = \<lparr>res_status = status, res_content_range = Some ''0-0/*'', res_body = b\<rparr>"

definition scalar_column :: "bool \<Rightarrow> bool \<Rightarrow> string" where
  "scalar_column head single =
     (if head then ql []
      else if single then ''(json_agg(_pgrst_t.pgrst_scalar) -> 0)::text''
      else ''coalesce(json_agg(_pgrst_t.pgrst_scalar), '' @ ql ''[]'' @ '')::text'')"

definition offset_of :: "nat option \<Rightarrow> nat" where
  "offset_of k = (case k of None \<Rightarrow> 0 | Some n \<Rightarrow> n)"

definition rpc_statement :: "nat option \<Rightarrow> snapshot \<Rightarrow> string \<Rightarrow> function_info \<Rightarrow> (string \<times> jsval) list \<Rightarrow> query_params
    \<Rightarrow> preferences \<Rightarrow> bool \<Rightarrow> bool \<Rightarrow> (string \<times> nat) writer" where
  "rpc_statement max_rows snap schema f args q pref single head =
     bind_w (call_sql f args) (\<lambda>(call, source).
       case fn_shape f of
         Ret_void \<Rightarrow> ret (''SELECT '' @ call @ '' '' @ from_list source [], 0)
       | Ret_scalar \<Rightarrow> ret (''SELECT to_json('' @ call @ '')::text AS body '' @ from_list source [], 0)
       | Ret_composite \<Rightarrow> ret (''SELECT to_json(pgrst_call)::text AS body '' @ from_list source (call @ '' AS pgrst_call''), 0)
       | Ret_setof_scalar \<Rightarrow>
           (let offset = offset_of (map_of (q_offset q) []);
                src = ''SELECT pgrst_call AS pgrst_scalar '' @ from_list source (call @ '' AS pgrst_call'');
                page = ''SELECT pgrst_scalar FROM pgrst_source''
                  @ (case effective_limit (map_of (q_limit q) []) max_rows of None \<Rightarrow> [] | Some l \<Rightarrow> '' LIMIT '' @ show_nat l)
                  @ (if offset = 0 then [] else '' OFFSET '' @ show_nat offset)
            in ret (set_rpc_sql (''WITH pgrst_source AS MATERIALIZED ('' @ src @ '')'') ''(SELECT pg_catalog.count(*) FROM pgrst_source)''
                     (''SELECT pg_catalog.count(*) AS page, '' @ scalar_column head single @ '' AS body FROM ('' @ page @ '') AS _pgrst_t'')
                     pref single offset, offset))
       | Ret_setof_composite \<Rightarrow>
           bind_w (lift_plan (read_tree snap schema (row_table snap schema f) (q_select q) q (Some (fn_name f)) 0)) (\<lambda>(tree, k).
             let n = tree_root tree; offset = offset_of (cl_offset (tree_clauses tree 0));
                 src = ''SELECT pgrst_call.* '' @ from_list source (call @ '' AS pgrst_call'')
             in bind_w (select_sql (tree_clauses tree) n (default_opts\<lparr>opt_from := Some ''pgrst_source'', opt_max_rows := max_rows\<rparr>)) (\<lambda>page.
                bind_w (if pref_count pref
                        then bind_w (where_parts (tree_clauses tree) n) (\<lambda>ws.
                          ret (''(SELECT pg_catalog.count(*) FROM pgrst_source AS '' @ qi (node_alias n) @ where_text ws @ '')''))
                        else ret ''NULL::bigint'') (\<lambda>tot.
                  ret (set_rpc_sql (''WITH pgrst_source AS MATERIALIZED ('' @ src @ '')'') tot
                     (''SELECT pg_catalog.count(*) AS page, '' @ body_column head single @ '' AS body FROM ('' @ page @ '') AS _pgrst_t'')
                     pref single offset, offset)))))"

definition rpc_answer :: "return_shape \<Rightarrow> bool \<Rightarrow> bool \<Rightarrow> nat \<Rightarrow> db_row list \<Rightarrow> plan_error + engine_response" where
  "rpc_answer shape single head offset rows =
     (case shape of
        Ret_void \<Rightarrow> Inr (fixed_answer 204 (Text_body []))
      | Ret_scalar \<Rightarrow> Inr (fixed_answer 200 (first_body rows))
      | Ret_composite \<Rightarrow> if single \<and> length rows \<noteq> 1 then Inl (Pgrst (singularity_error (length rows)))
                        else Inr (fixed_answer 200 (first_body rows))
      | _ \<Rightarrow> with_row (set_rpc_answer head offset) rows)"

definition prepare_rpc :: "nat option \<Rightarrow> snapshot \<Rightarrow> string \<Rightarrow> string \<Rightarrow> engine_request \<Rightarrow> preferences \<Rightarrow> bool \<Rightarrow> plan_error + prepared" where
  "prepare_rpc max_rows snap schema name req pref single =
     sum_bind (rpc_args snap schema name req) (\<lambda>args.
     sum_bind (resolve_function snap schema name (map fst args)) (\<lambda>f.
     sum_bind (pgrst (parse_query_params (Some (if req_method req = Method_post then [] else map fst args)) (req_query req))) (\<lambda>q.
       let head = (req_method req = Method_head)
       in sum_map (\<lambda>((sql, offset), ps).
            \<lparr>prep_sql = sql, prep_params = ps, prep_answer = rpc_answer (fn_shape f) single head offset\<rparr>)
          (run_writer (rpc_statement max_rows snap schema f args q pref single head)))))"

section \<open>Dispatch\<close>

definition schema_for :: "engine_request \<Rightarrow> snapshot \<Rightarrow> plan_error + string" where
  "schema_for req snap =
     (let read = (req_method req = Method_get \<or> req_method req = Method_head);
          requested = (if read then req_accept_profile req else req_content_profile req);
          schema = (case requested of Some s \<Rightarrow> Some s | None \<Rightarrow> (case snap_schemas snap of [] \<Rightarrow> None | s # ss \<Rightarrow> Some s))
      in case schema of
           Some s \<Rightarrow>
             if s \<in> set (snap_schemas snap) then Inr s
             else Inl (Pgrst \<lparr>pgrst_status = 406, pgrst_code = ''PGRST106'',
                    pgrst_message = ''The schema must be one of the following: '' @ joined '', '' (snap_schemas snap),
                    pgrst_details = None, pgrst_hint = None\<rparr>)
         | None \<Rightarrow> Inl (Pgrst \<lparr>pgrst_status = 406, pgrst_code = ''PGRST106'',
                    pgrst_message = ''The schema must be one of the following: '', pgrst_details = None, pgrst_hint = None\<rparr>))"

fun contains_text :: "string \<Rightarrow> string \<Rightarrow> bool" where
  "contains_text w [] = (w = [])"
| "contains_text w (c # s) = (starts w (c # s) \<or> contains_text w s)"

definition wants_single :: "engine_request \<Rightarrow> bool" where
  "wants_single req = contains_text ''application/vnd.pgrst.object+json'' (req_accept req)"

definition prepare_table :: "nat option \<Rightarrow> snapshot \<Rightarrow> string \<Rightarrow> table_info \<Rightarrow> engine_request \<Rightarrow> plan_error + prepared" where
  "prepare_table max_rows snap schema t req =
     (let pref = parse_prefer (req_prefer req); single = wants_single req
      in case req_method req of
           Method_get \<Rightarrow> sum_bind (pgrst (parse_query_params None (req_query req))) (\<lambda>q. prepare_read max_rows snap schema t q pref single False)
         | Method_head \<Rightarrow> sum_bind (pgrst (parse_query_params None (req_query req))) (\<lambda>q. prepare_read max_rows snap schema t q pref single True)
         | Method_post \<Rightarrow> prepare_insert snap schema t req pref single
         | Method_patch \<Rightarrow> prepare_update snap schema t req pref single
         | Method_delete \<Rightarrow> prepare_delete snap schema t req pref single
         | Method_other m \<Rightarrow> Inl (Pgrst \<lparr>pgrst_status = 405, pgrst_code = ''PGRST117'',
              pgrst_message = ''Unsupported HTTP method: '' @ m, pgrst_details = None, pgrst_hint = None\<rparr>))"

definition dispatch :: "nat option \<Rightarrow> snapshot \<Rightarrow> engine_request \<Rightarrow> plan_error + prepared" where
  "dispatch max_rows snap req =
     sum_bind (schema_for req snap) (\<lambda>schema.
       case req_segments req of
         [seg] \<Rightarrow> sum_bind (find_table snap schema seg) (\<lambda>t. prepare_table max_rows snap schema t req)
       | [a, b] \<Rightarrow> if a = ''rpc'' then prepare_rpc max_rows snap schema b req (parse_prefer (req_prefer req)) (wants_single req)
                  else Inl (Pgrst (bad_request ''PGRST100'' (''unsupported path: '' @ req_path req)))
       | _ \<Rightarrow> Inl (Pgrst (bad_request ''PGRST100'' (''unsupported path: '' @ req_path req))))"

section \<open>The loop of a request\<close>

datatype failure = Plan_failure plan_error | Db_failure db_error

datatype outcome = Response engine_response | Rethrown failure

text \<open>The first place of a text where a pattern matches.\<close>

fun first_match :: "(string \<Rightarrow> 'a option) \<Rightarrow> string \<Rightarrow> 'a option" where
  "first_match f [] = f []"
| "first_match f (c # s) = (case f (c # s) of Some x \<Rightarrow> Some x | None \<Rightarrow> first_match f s)"

definition digits_at :: "string \<Rightarrow> (nat \<times> string) option" where
  "digits_at s =
     (if takeWhile is_digit s = [] then None else Some (digits_value (takeWhile is_digit s), dropWhile is_digit s))"

definition singular_at :: "string \<Rightarrow> nat option" where
  "singular_at s = (if starts SINGULAR_GUARD s then map_option fst (digits_at (drop (length SINGULAR_GUARD) s)) else None)"

definition range_at :: "string \<Rightarrow> (nat \<times> nat) option" where
  "range_at s =
     (if starts RANGE_GUARD s
      then (case digits_at (drop (length RANGE_GUARD) s) of
              Some (n, r) \<Rightarrow> if starts '':'' r then map_option (\<lambda>(m, r'). (n, m)) (digits_at (tl r)) else None
            | None \<Rightarrow> None)
      else None)"

definition singular_rows :: "string \<Rightarrow> nat" where
  "singular_rows message = (case first_match singular_at message of None \<Rightarrow> 0 | Some n \<Rightarrow> n)"

definition range_numbers :: "string \<Rightarrow> nat \<times> nat" where
  "range_numbers message = (case first_match range_at message of None \<Rightarrow> (0, 0) | Some x \<Rightarrow> x)"

definition answer_db_error :: "db_error \<Rightarrow> outcome" where
  "answer_db_error e =
     (if \<not> is_pg_server_error e then Rethrown (Db_failure e)
      else let message = (case err_message e of None \<Rightarrow> [] | Some m \<Rightarrow> m)
           in if err_code e = Some ''22P02'' \<and> contains_text SINGULAR_GUARD message
              then Response (error_response (singularity_error (singular_rows message)))
              else if err_code e = Some ''22P02'' \<and> contains_text RANGE_GUARD message
              then Response (error_response (range_not_satisfiable (fst (range_numbers message)) (snd (range_numbers message))))
              else Response (error_response (from_pg_error e)))"

definition answer_failure :: "failure \<Rightarrow> outcome" where
  "answer_failure f =
     (case f of
        Plan_failure (Schema_miss e) \<Rightarrow> Response (error_response e)
      | Plan_failure (Pgrst e) \<Rightarrow> Response (error_response e)
      | Plan_failure (Ambiguous_relationship t n rs) \<Rightarrow>
          Response \<lparr>res_status = 300, res_content_range = None, res_body = Choices_body t n rs\<rparr>
      | Plan_failure (Js_error m) \<Rightarrow> Rethrown f
      | Db_failure e \<Rightarrow> answer_db_error e)"

definition is_stale :: "engine_request \<Rightarrow> failure \<Rightarrow> bool" where
  "is_stale req f =
     (case f of
        Plan_failure (Schema_miss e) \<Rightarrow> True
      | Db_failure e \<Rightarrow> is_pg_server_error e \<and> err_code e = Some ''42883'' \<and> starts ''/rpc/'' (req_path req)
      | _ \<Rightarrow> False)"

text \<open>One attempt: the statements it ran, at most one, and how it ended.\<close>

definition attempt :: "(string \<Rightarrow> params \<Rightarrow> db_reply) \<Rightarrow> nat option \<Rightarrow> snapshot \<Rightarrow> engine_request
    \<Rightarrow> (failure + engine_response) \<times> (string \<times> params) list" where
  "attempt run max_rows snap req =
     (case dispatch max_rows snap req of
        Inl e \<Rightarrow> (Inl (Plan_failure e), [])
      | Inr p \<Rightarrow>
          ((case run (prep_sql p) (prep_params p) of
              Inl e \<Rightarrow> Inl (Db_failure e)
            | Inr rows \<Rightarrow> (case prep_answer p rows of Inl e \<Rightarrow> Inl (Plan_failure e) | Inr res \<Rightarrow> Inr res)),
           [(prep_sql p, prep_params p)]))"

definition conclude :: "failure + engine_response \<Rightarrow> outcome" where
  "conclude r = (case r of Inl f \<Rightarrow> answer_failure f | Inr res \<Rightarrow> Response res)"

text \<open>
  \<open>handle\<close>: a stale name reloads the schema once, when there is a newer one, and tries again; \<open>run\<close> is the
  database at the attempt.
\<close>

definition handle_request :: "(nat \<Rightarrow> string \<Rightarrow> params \<Rightarrow> db_reply) \<Rightarrow> nat option \<Rightarrow> snapshot \<Rightarrow> snapshot option \<Rightarrow> engine_request
    \<Rightarrow> outcome \<times> (string \<times> params) list" where
  "handle_request run max_rows snap newer req =
     (let (r, ran) = attempt (run 0) max_rows snap req
      in case (r, newer) of
           (Inl f, Some snap') \<Rightarrow>
             if is_stale req f
             then (let (r', ran') = attempt (run 1) max_rows snap' req in (conclude r', ran @ ran'))
             else (conclude r, ran)
         | _ \<Rightarrow> (conclude r, ran))"

section \<open>The schema cache\<close>

text \<open>
  \<open>SchemaCache\<close>: the snapshot held with the time it was loaded at; \<open>loadSchema\<close> is an argument, its result
  carries its own time. Reloads of one process are single-flight, so one at a time suffices here.
\<close>

record cached_schema =
  cached_snapshot :: snapshot
  cached_at :: int

definition SCHEMA_MAX_AGE_MS :: int where "SCHEMA_MAX_AGE_MS = 300000"

definition MIN_RELOAD_GAP_MS :: int where "MIN_RELOAD_GAP_MS = 1000"

definition schema_get :: "int \<Rightarrow> cached_schema \<Rightarrow> cached_schema option \<Rightarrow> cached_schema" where
  "schema_get now loaded current =
     (case current of Some c \<Rightarrow> if now - cached_at c < SCHEMA_MAX_AGE_MS then c else loaded | None \<Rightarrow> loaded)"

text \<open>The newer snapshot after a miss, and what the cache then holds; \<open>same\<close> is identity of the objects.\<close>

definition refresh_after_miss :: "int \<Rightarrow> cached_schema \<Rightarrow> (cached_schema \<Rightarrow> cached_schema \<Rightarrow> bool) \<Rightarrow> cached_schema
    \<Rightarrow> cached_schema option \<Rightarrow> cached_schema option \<times> cached_schema option" where
  "refresh_after_miss now loaded same seen current =
     (case current of
        Some c \<Rightarrow> if \<not> same c seen then (Some c, current)
                 else if now - cached_at seen < MIN_RELOAD_GAP_MS then (None, current)
                 else (if same loaded seen then None else Some loaded, Some loaded)
      | None \<Rightarrow> if now - cached_at seen < MIN_RELOAD_GAP_MS then (None, current)
                 else (if same loaded seen then None else Some loaded, Some loaded))"

end
