(* ===== verification/Query_Filters.thy ===== *)
theory Query_Filters
  imports Query_Engine
begin

text \<open>
  What happens to the filters of a request. Blanking the values of a request changes neither the text
  of its statement nor the number of its parameters, so no value can reach the text; the conditions of a
  PATCH or DELETE are exactly the filters and logic trees of the request, one conjunct for each, and their
  values are bound in order; and the nodes of a read tree have different numbers, so a filter reaches one node.
\<close>

section \<open>Writers that agree up to the values\<close>

definition outline :: "plan_error + 'a \<times> params \<Rightarrow> plan_error + 'a \<times> nat" where
  "outline r = sum_map (\<lambda>(x, ps). (x, length ps)) r"

definition agree :: "'a writer \<Rightarrow> 'a writer \<Rightarrow> bool" where
  "agree m m' \<longleftrightarrow> (\<forall>ps ps'. length ps = length ps' \<longrightarrow> outline (m ps) = outline (m' ps'))"

lemma outline_simps [simp]: "outline (Inl e) = Inl e" "outline (Inr (x, ps)) = Inr (x, length ps)"
  by (simp_all add: outline_def sum_map_def)

lemma agreeD: "agree m m' \<Longrightarrow> length ps = length ps' \<Longrightarrow> outline (m ps) = outline (m' ps')"
  by (simp add: agree_def)

lemma outline_eq_cases:
  assumes "outline r = outline r'"
  obtains e where "r = Inl e" "r' = Inl e"
  | x ps ps' where "r = Inr (x, ps)" "r' = Inr (x, ps')" "length ps = length ps'"
proof (cases r)
  case (Inl e)
  then show thesis using assms that(1) by (cases r') auto
next
  case (Inr p)
  then show thesis using assms that(2) by (cases p; cases r') auto
qed

named_theorems agree_intros \<open>rules for writers that agree\<close>

lemma agree_ret [agree_intros]: "agree (ret x) (ret x)"
  by (simp add: agree_def ret_def)

lemma agree_raise [agree_intros]: "agree (raise e) (raise e)"
  by (simp add: agree_def raise_def)

lemma agree_param [agree_intros]: "agree (add_param v) (add_param w)"
  by (simp add: agree_def add_param_def params_add_def)

lemma agree_bind [agree_intros]: "agree m m' \<Longrightarrow> (\<And>x. agree (f x) (f' x)) \<Longrightarrow> agree (bind_w m f) (bind_w m' f')"
  unfolding agree_def
proof (intro allI impI)
  fix ps ps' :: params
  assume m: "\<forall>ps ps'. length ps = length ps' \<longrightarrow> outline (m ps) = outline (m' ps')"
    and f: "\<And>x. \<forall>ps ps'. length ps = length ps' \<longrightarrow> outline (f x ps) = outline (f' x ps')" and l: "length ps = length ps'"
  from m l have "outline (m ps) = outline (m' ps')" by blast
  then show "outline (bind_w m f ps) = outline (bind_w m' f' ps')"
    by (cases rule: outline_eq_cases) (use f in \<open>auto simp: bind_w_def\<close>)
qed

lemma agree_if: "agree m m' \<Longrightarrow> agree w w' \<Longrightarrow> agree (if b then m else w) (if b then m' else w')"
  by simp

lemma agree_each: "(\<And>x. x \<in> set xs \<Longrightarrow> agree (f x) (g (h x))) \<Longrightarrow> agree (each f xs) (each g (map h xs))"
  by (induction xs) (auto intro!: agree_intros)

lemma agree_each_same: "(\<And>x. x \<in> set xs \<Longrightarrow> agree (f x) (g x)) \<Longrightarrow> agree (each f xs) (each g xs)"
  using agree_each [of xs f g id] by simp

section \<open>Blanking the values\<close>

fun blank_operation :: "operation \<Rightarrow> operation" where
  "blank_operation (In_op vs) = In_op []"
| "blank_operation (Is_op v) = Is_op v"
| "blank_operation (Isdistinct_op v) = Isdistinct_op []"
| "blank_operation (Fts_op f lang v) = Fts_op f lang []"
| "blank_operation (Simple_op op q v) = Simple_op op q []"

definition blank_filter :: "filter_term \<Rightarrow> filter_term" where
  "blank_filter f = f\<lparr>filter_expr := (filter_expr f)\<lparr>op_operation := blank_operation (op_operation (filter_expr f))\<rparr>\<rparr>"

fun blank_logic :: "logic_tree \<Rightarrow> logic_tree" where
  "blank_logic (Filter_leaf f) = Filter_leaf (blank_filter f)"
| "blank_logic (Logic_expr neg op ts) = Logic_expr neg op (map blank_logic ts)"

definition blank_clauses :: "node_clauses \<Rightarrow> node_clauses" where
  "blank_clauses c = c\<lparr>cl_filters := map blank_filter (cl_filters c), cl_logic := map blank_logic (cl_logic c)\<rparr>"

definition blank_params :: "query_params \<Rightarrow> query_params" where
  "blank_params q = q\<lparr>q_filters := map (\<lambda>(p, fs). (p, map blank_filter fs)) (q_filters q),
     q_logic := map (\<lambda>(p, ts). (p, map blank_logic ts)) (q_logic q)\<rparr>"

lemma blank_filter_field [simp]: "filter_field (blank_filter f) = filter_field f"
  by (simp add: blank_filter_def)

lemma agree_cond: "agree (cond_sql e tsv opn) (cond_sql e tsv (blank_operation opn))"
  by (cases opn) (auto simp: Let_def simp del: append.simps intro!: agree_intros)

lemma agree_filter: "agree (filter_sql n f) (filter_sql n (blank_filter f))"
  unfolding filter_sql_def op_sql_def Let_def blank_filter_field
  by (simp add: blank_filter_def) (intro agree_intros agree_cond)

lemma agree_logic: "agree (logic_sql n t) (logic_sql n (blank_logic t))"
proof (induction t)
  case (Logic_expr neg op ts)
  have "agree (each (logic_sql n) ts) (each (logic_sql n) (map blank_logic ts))"
    by (rule agree_each) (rule Logic_expr)
  then show ?case unfolding logic_sql.simps blank_logic.simps by (intro agree_intros)
qed (simp add: agree_filter)

lemma blank_clauses_simps [simp]:
  "cl_filters (blank_clauses c) = map blank_filter (cl_filters c)" "cl_logic (blank_clauses c) = map blank_logic (cl_logic c)"
  "cl_order (blank_clauses c) = cl_order c" "cl_limit (blank_clauses c) = cl_limit c" "cl_offset (blank_clauses c) = cl_offset c"
  "cl_existence (blank_clauses c) = cl_existence c"
  by (simp_all add: blank_clauses_def)

lemma agree_where: "agree (where_parts cs n) (where_parts (\<lambda>i. blank_clauses (cs i)) n)"
proof (induction n rule: measure_induct_rule [of size])
  case (less n)
  have ex: "agree (exists_sql cs n e) (exists_sql (\<lambda>i. blank_clauses (cs i)) n e)" if "e \<in> set (node_embeds n)" for e
    unfolding exists_sql.simps by (intro agree_intros less.IH embed_smaller that)
  show ?case
    unfolding where_parts.simps blank_clauses_simps
    by (intro agree_intros agree_each agree_each_same agree_filter agree_logic)
      (auto simp del: append.simps split: option.split intro!: agree_intros ex dest: find_Some_D)
qed

lemma agree_select: "agree (select_sql cs n opts) (select_sql (\<lambda>i. blank_clauses (cs i)) n opts)"
proof (induction n arbitrary: opts rule: measure_induct_rule [of size])
  case (less n)
  have item: "agree (item_sql cs ex n it) (item_sql (\<lambda>i. blank_clauses (cs i)) ex n it)" if it: "it \<in> set (node_items n)" for ex it
  proof (cases it)
    case P_star
    show ?thesis unfolding P_star item_sql.simps planned_item.case by (rule agree_ret)
  next
    case (P_field f out cast)
    have "agree (cast_sql e cast) (cast_sql e cast)" for e
      by (auto simp: cast_sql_def simp del: append.simps intro: agree_intros split: option.split)
    then show ?thesis unfolding P_field item_sql.simps planned_item.case by (intro agree_intros)
  next
    case (P_embed e)
    have "size (embed_node e) < size n" using it P_embed by (intro embed_smaller) (simp add: node_embeds_item)
    then show ?thesis unfolding P_embed item_sql.simps planned_item.case by (intro agree_intros less.IH)
  qed
  have order: "agree (order_sql n ts) (order_sql n ts)" for ts
    unfolding order_sql_def by (intro agree_intros agree_each_same) (auto simp: order_term_sql_def simp del: append.simps intro: agree_intros)
  have tail: "tail_sql n (blank_clauses c) = tail_sql n c" for c
    by (intro ext) (simp add: tail_sql_def)
  have cols: "agree (case opt_columns opts of Some c \<Rightarrow> ret [c] | None \<Rightarrow> each (\<lambda>it. item_sql cs (opt_explicit_star opts) n it) (node_items n))
      (case opt_columns opts of Some c \<Rightarrow> ret [c] | None \<Rightarrow> each (\<lambda>it. item_sql (\<lambda>i. blank_clauses (cs i)) (opt_explicit_star opts) n it) (node_items n))"
    by (cases "opt_columns opts") (auto intro: agree_intros agree_each_same item)
  show ?case
    unfolding select_sql.simps blank_clauses_simps tail
    by (rule agree_bind [OF cols], rule agree_bind [OF agree_where], rule agree_bind [OF order], rule agree_ret)
qed

section \<open>Whole requests\<close>

lemma blank_attach_filter: "attach_filter n (blank_filter f) (blank_clauses c) = blank_clauses (attach_filter n f c)"
  by (cases "op_operation (filter_expr f)")
    (auto simp: attach_filter_def Let_def blank_filter_def blank_clauses_def split: option.split is_value.split)

lemma blank_attach_filters:
  "fold (attach_filter n) (map blank_filter fs) (blank_clauses c) = blank_clauses (fold (attach_filter n) fs c)"
  by (induction fs arbitrary: c) (simp_all add: blank_attach_filter)

lemma blank_attach_all:
  assumes "\<And>n x c. f' n (h x) (blank_clauses c) = blank_clauses (f n x c)"
  shows "attach_all nodes f' (map (\<lambda>(p, x). (p, h x)) m) (\<lambda>i. blank_clauses (cs i))
    = sum_map (\<lambda>cs i. blank_clauses (cs i)) (attach_all nodes f m cs)"
proof (induction m arbitrary: cs)
  case (Cons px m)
  obtain p x where px: "px = (p, x)" by (cases px)
  show ?case
  proof (cases "node_at nodes p")
    case (Inr n)
    let ?cs = "cs(node_id n := f n x (cs (node_id n)))"
    have "(\<lambda>i. blank_clauses (cs i))(node_id n := f' n (h x) (blank_clauses (cs (node_id n)))) = (\<lambda>i. blank_clauses (?cs i))"
      by (auto simp: assms)
    then have "attach_all nodes f' (map (\<lambda>(p, x). (p, h x)) (px # m)) (\<lambda>i. blank_clauses (cs i))
        = attach_all nodes f' (map (\<lambda>(p, x). (p, h x)) m) (\<lambda>i. blank_clauses (?cs i))"
      by (simp only: px list.map prod.case attach_all.simps Inr sum.case)
    then show ?thesis by (simp only: Cons [of ?cs] px attach_all.simps Inr sum.case)
  qed (simp add: px sum_map_def)
qed (simp add: sum_map_def)

lemma blank_none: "blank_clauses no_clauses = no_clauses"
  by (simp add: blank_clauses_def no_clauses_def)

lemma blank_attach_params:
  "attach_params nodes (blank_params q) = sum_map (\<lambda>cs i. blank_clauses (cs i)) (attach_params nodes q)"
proof -
  have fs: "attach_all nodes (\<lambda>n fs c. fold (attach_filter n) fs c) (map (\<lambda>(p, fs). (p, map blank_filter fs)) m) (\<lambda>i. no_clauses)
      = sum_map (\<lambda>cs i. blank_clauses (cs i)) (attach_all nodes (\<lambda>n fs c. fold (attach_filter n) fs c) m (\<lambda>i. no_clauses))" for m
    using blank_attach_all [of "\<lambda>n fs c. fold (attach_filter n) fs c" "map blank_filter" "\<lambda>n fs c. fold (attach_filter n) fs c" nodes m
        "\<lambda>i. no_clauses", OF blank_attach_filters]
    by (simp add: blank_none)
  have ls: "attach_all nodes (\<lambda>n ts c. c\<lparr>cl_logic := cl_logic c @ ts\<rparr>) (map (\<lambda>(p, ts). (p, map blank_logic ts)) m) (\<lambda>i. blank_clauses (cs i))
      = sum_map (\<lambda>cs i. blank_clauses (cs i)) (attach_all nodes (\<lambda>n ts c. c\<lparr>cl_logic := cl_logic c @ ts\<rparr>) m cs)" for m cs
    by (rule blank_attach_all) (simp add: blank_clauses_def)
  have keep: "attach_all nodes f m (\<lambda>i. blank_clauses (cs i)) = sum_map (\<lambda>cs i. blank_clauses (cs i)) (attach_all nodes f m cs)"
    if "\<And>n x c. f n x (blank_clauses c) = blank_clauses (f n x c)" for f :: "read_node \<Rightarrow> 'x \<Rightarrow> node_clauses \<Rightarrow> node_clauses" and m cs
    using blank_attach_all [of f id f nodes m cs] that by (simp add: case_prod_unfold)
  have os: "attach_all nodes (\<lambda>n ts c. c\<lparr>cl_order := cl_order c @ ts\<rparr>) m (\<lambda>i. blank_clauses (cs i))
      = sum_map (\<lambda>cs i. blank_clauses (cs i)) (attach_all nodes (\<lambda>n ts c. c\<lparr>cl_order := cl_order c @ ts\<rparr>) m cs)" for m cs
    by (rule keep) (simp add: blank_clauses_def)
  have li: "attach_all nodes (\<lambda>n k c. c\<lparr>cl_limit := Some k\<rparr>) m (\<lambda>i. blank_clauses (cs i))
      = sum_map (\<lambda>cs i. blank_clauses (cs i)) (attach_all nodes (\<lambda>n k c. c\<lparr>cl_limit := Some k\<rparr>) m cs)" for m cs
    by (rule keep) (simp add: blank_clauses_def)
  have off: "attach_all nodes (\<lambda>n k c. c\<lparr>cl_offset := Some k\<rparr>) m (\<lambda>i. blank_clauses (cs i))
      = sum_map (\<lambda>cs i. blank_clauses (cs i)) (attach_all nodes (\<lambda>n k c. c\<lparr>cl_offset := Some k\<rparr>) m cs)" for m cs
    by (rule keep) (simp add: blank_clauses_def)
  show ?thesis
    by (simp add: attach_params_def blank_params_def fs sum_bind_def)
      (auto simp: sum_map_def ls [unfolded sum_map_def] os [unfolded sum_map_def] li [unfolded sum_map_def] off [unfolded sum_map_def]
        split: sum.splits)
qed

definition blank_tree :: "read_tree \<Rightarrow> read_tree" where
  "blank_tree tree = tree\<lparr>tree_clauses := \<lambda>i. blank_clauses (tree_clauses tree i)\<rparr>"

lemma blank_read_tree:
  "read_tree snap schema t select (blank_params q) al k = sum_map (\<lambda>(tree, k). (blank_tree tree, k)) (read_tree snap schema t select q al k)"
  by (auto simp: read_tree_def sum_bind_def sum_map_def Let_def blank_attach_params blank_tree_def split: sum.splits)

lemma blank_tree_simps [simp]:
  "tree_root (blank_tree tree) = tree_root tree" "tree_clauses (blank_tree tree) = (\<lambda>i. blank_clauses (tree_clauses tree i))"
  by (simp_all add: blank_tree_def)

lemma agree_lift:
  assumes "\<And>x. r = Inr x \<Longrightarrow> agree (f x) (f' (g x))"
  shows "agree (bind_w (lift_plan r) f) (bind_w (lift_plan (sum_map g r)) f')"
  using assms by (cases r) (auto simp: agree_def bind_w_def lift_plan_def sum_map_def)

lemma agree_sym: "agree m m' \<Longrightarrow> agree m' m"
  by (simp add: agree_def) metis

lemma agree_target_where: "agree (target_where snap schema t q) (target_where snap schema t (blank_params q))"
  unfolding target_where_def blank_read_tree
  by (rule agree_lift)
    (auto simp: Let_def simp del: append.simps split: prod.split intro!: agree_intros agree_where agree_select)

lemma agree_delete: "agree (delete_sql snap schema t q r) (delete_sql snap schema t (blank_params q) r)"
  unfolding delete_sql_def by (intro agree_intros agree_target_where)

text \<open>A payload with every value blanked has the same keys.\<close>

definition blank_object :: "(string \<times> jsval) list \<Rightarrow> (string \<times> jsval) list" where
  "blank_object kvs = map (\<lambda>(k, v). (k, Null)) kvs"

lemma blank_object_keys [simp]: "map fst (blank_object kvs) = map fst kvs" "blank_object kvs = [] \<longleftrightarrow> kvs = []"
  by (simp_all add: blank_object_def case_prod_unfold)

lemma agree_update: "agree (update_sql snap schema t q kvs r) (update_sql snap schema t (blank_params q) (blank_object kvs) r)"
  unfolding update_sql_def blank_object_keys
  by (intro agree_if agree_intros agree_target_where)

lemma agree_insert: "agree (insert_sql t rows cols md conflict r) (insert_sql t (map (\<lambda>v. Null) rows) cols md conflict r)"
  unfolding insert_sql_def Let_def map_is_Nil_conv by (intro agree_if agree_intros agree_each_same)

lemma agree_trans: "agree m m' \<Longrightarrow> agree m' m'' \<Longrightarrow> agree m m''"
  by (simp add: agree_def)

lemma agree_prod: "(\<And>a b. agree (f a b) (f' a b)) \<Longrightarrow> agree (case x of (a, b) \<Rightarrow> f a b) (case x of (a, b) \<Rightarrow> f' a b)"
  by (cases x) simp

lemma agree_select_same: "agree (select_sql cs n opts) (select_sql cs n opts)"
  by (rule agree_trans [OF agree_select agree_sym [OF agree_select]])

lemma agree_lift_same: "agree (lift_plan r) (lift_plan r)"
  by (auto simp: agree_def lift_plan_def split: sum.split)

lemma agree_mutate:
  assumes "\<And>r. agree (mutation r) (mutation' r)"
  shows "agree (mutate_statement snap schema t q mutation pref single kind)
    (mutate_statement snap schema t (blank_params q) mutation' pref single kind)"
proof -
  have q: "q_select (blank_params q) = q_select q" "without_clauses (blank_params q) = without_clauses q"
    by (simp_all add: blank_params_def without_clauses_def)
  show ?thesis
    unfolding mutate_statement_def Let_def q
    by (intro agree_if agree_intros agree_prod agree_select_same agree_lift_same assms)
qed

lemma agree_read: "agree (read_statement m t tree pref single head) (read_statement m t (blank_tree tree) pref single head)"
  unfolding read_statement_def Let_def
  by (auto simp del: append.simps intro!: agree_intros agree_where agree_select)

lemma outline_run: "agree m m' \<Longrightarrow> outline (run_writer m') = outline (run_writer m)"
  using agreeD [of m m' "[]" "[]"] by (simp add: run_writer_def)

text \<open>The statement and the number of its parameters.\<close>

definition prepared_outline :: "plan_error + prepared \<Rightarrow> plan_error + string \<times> nat" where
  "prepared_outline r = sum_map (\<lambda>p. (prep_sql p, length (prep_params p))) r"

lemma prepared_outline_write:
  "prepared_outline (prepare_write snap schema t q mutation pref single kind)
    = outline (run_writer (mutate_statement snap schema t q mutation pref single kind))"
  by (auto simp: prepared_outline_def prepare_write_def sum_map_def split: sum.split)

text \<open>C9: Reading, changing and deleting rows: with every value of the filters and of the payload blanked, a
  request has the same statement text, the same number of parameters and the same errors.
\<close>

theorem values_never_reach_the_text:
  "prepared_outline (prepare_read max_rows snap schema t (blank_params q) pref single head)
     = prepared_outline (prepare_read max_rows snap schema t q pref single head)
   \<and> prepared_outline (prepare_write snap schema t (blank_params q) (delete_sql snap schema t (blank_params q)) pref single Kind_delete)
     = prepared_outline (prepare_write snap schema t q (delete_sql snap schema t q) pref single Kind_delete)
   \<and> prepared_outline (prepare_write snap schema t (blank_params q) (update_sql snap schema t (blank_params q) (blank_object kvs)) pref single Kind_update)
     = prepared_outline (prepare_write snap schema t q (update_sql snap schema t q kvs) pref single Kind_update)
   \<and> prepared_outline (prepare_write snap schema t (blank_params q) (insert_sql t (map (\<lambda>v. Null) rows) cols md conflict) pref single kind)
     = prepared_outline (prepare_write snap schema t q (insert_sql t rows cols md conflict) pref single kind)"
proof (intro conjI)
  have sel: "q_select (blank_params q) = q_select q" by (simp add: blank_params_def)
  have run: "outline (run_writer (read_statement max_rows t (blank_tree tree) pref single head))
      = outline (run_writer (read_statement max_rows t tree pref single head))" for tree
    by (rule outline_run [OF agree_read])
  show "prepared_outline (prepare_read max_rows snap schema t (blank_params q) pref single head)
     = prepared_outline (prepare_read max_rows snap schema t q pref single head)"
  proof (cases "read_tree snap schema t (q_select q) q None 0")
    case (Inr x)
    obtain tree k where x: "x = (tree, k)" by (cases x)
    show ?thesis
      using run [of tree]
      by (cases rule: outline_eq_cases)
        (simp_all add: prepare_read_def sel blank_read_tree Inr x sum_map_def sum_bind_def prepared_outline_def Let_def)
  qed (simp add: prepare_read_def sel blank_read_tree sum_map_def sum_bind_def prepared_outline_def)
qed (unfold prepared_outline_write, (rule outline_run, rule agree_mutate, rule agree_delete agree_update agree_insert)+)

section \<open>No condition is lost\<close>

fun operation_values :: "operation \<Rightarrow> params" where
  "operation_values (In_op vs) = [List_value vs]"
| "operation_values (Is_op v) = []"
| "operation_values (Isdistinct_op v) = [Text_value v]"
| "operation_values (Fts_op f lang v) = [Text_value v]"
| "operation_values (Simple_op op q v) = [Text_value (like_value op v)]"

definition filter_values :: "filter_term \<Rightarrow> params" where
  "filter_values f = operation_values (op_operation (filter_expr f))"

fun logic_values :: "logic_tree \<Rightarrow> params" where
  "logic_values (Filter_leaf f) = filter_values f"
| "logic_values (Logic_expr neg op ts) = concat (map logic_values ts)"

definition binds :: "'a writer \<Rightarrow> params \<Rightarrow> bool" where
  "binds m vs \<longleftrightarrow> (\<forall>ps. case m ps of Inl e \<Rightarrow> True | Inr (x, qs) \<Rightarrow> qs = ps @ vs)"

lemma binds_ret: "binds (ret x) []"
  by (simp add: binds_def ret_def)

lemma binds_raise: "binds (raise e) vs"
  by (simp add: binds_def raise_def)

lemma binds_param: "binds (add_param v) [v]"
  by (simp add: binds_def add_param_def params_add_def)

lemma binds_bind: "binds m vs \<Longrightarrow> (\<And>x. binds (f x) ws) \<Longrightarrow> binds (bind_w m f) (vs @ ws)"
  by (fastforce simp: binds_def bind_w_def split: sum.splits)

lemma binds_bind_ret: "binds m vs \<Longrightarrow> binds (bind_w m (\<lambda>x. ret (f x))) vs"
  using binds_bind [of m vs "\<lambda>x. ret (f x)" "[]", OF _ binds_ret] by simp

lemma binds_each: "(\<And>x. x \<in> set xs \<Longrightarrow> binds (f x) (g x)) \<Longrightarrow> binds (each f xs) (concat (map g xs))"
proof (induction xs)
  case (Cons x xs)
  then show ?case by (auto intro!: binds_bind binds_bind_ret)
qed (simp add: binds_ret)

lemma binds_cond: "binds (cond_sql e tsv opn) (operation_values opn)"
  by (cases opn) (simp_all add: Let_def binds_ret binds_bind_ret binds_param del: append.simps)

lemma binds_filter: "binds (filter_sql n f) (filter_values f)"
  unfolding filter_sql_def op_sql_def Let_def filter_values_def by (rule binds_bind_ret, rule binds_cond)

lemma binds_logic: "binds (logic_sql n t) (logic_values t)"
proof (induction t)
  case (Logic_expr neg op ts)
  have "binds (each (logic_sql n) ts) (concat (map logic_values ts))"
    by (rule binds_each) (rule Logic_expr)
  then show ?case by (simp add: binds_bind_ret del: append.simps)
qed (simp add: binds_filter)

lemma each_length: "each f xs ps = Inr (ys, qs) \<Longrightarrow> length ys = length xs"
  by (induction xs arbitrary: ps ys) (auto simp: ret_def bind_w_def split: sum.splits)

definition clause_values :: "node_clauses \<Rightarrow> params" where
  "clause_values c = concat (map filter_values (cl_filters c)) @ concat (map logic_values (cl_logic c))"

lemma where_flat:
  assumes "node_embeds n = []" "cl_existence (cs (node_id n)) = []" "where_parts cs n ps = Inr (ws, qs)"
  shows "length ws = length (cl_filters (cs (node_id n))) + length (cl_logic (cs (node_id n)))"
    and "qs = ps @ clause_values (cs (node_id n))"
proof -
  let ?c = "cs (node_id n)"
  obtain fs q1 ls q2 where f: "each (filter_sql n) (cl_filters ?c) ps = Inr (fs, q1)"
    and l: "each (logic_sql n) (cl_logic ?c) q1 = Inr (ls, q2)" and w: "ws = fs @ ls" "qs = q2"
    using assms by (subst (asm) where_parts.simps) (auto simp: bind_w_def ret_def split: sum.splits)
  show "length ws = length (cl_filters ?c) + length (cl_logic ?c)"
    using each_length [OF f] each_length [OF l] w by simp
  have "q1 = ps @ concat (map filter_values (cl_filters ?c))"
    using binds_each [of "cl_filters ?c" "filter_sql n" filter_values] binds_filter f by (fastforce simp: binds_def split: sum.splits)
  moreover have "q2 = q1 @ concat (map logic_values (cl_logic ?c))"
    using binds_each [of "cl_logic ?c" "logic_sql n" logic_values] binds_logic l by (fastforce simp: binds_def split: sum.splits)
  ultimately show "qs = ps @ clause_values ?c" using w by (simp add: clause_values_def)
qed

text \<open>With \<open>*\<close> only, every clause goes to the root.\<close>

lemma attach_root:
  "attach_all [([], n)] f m cs = Inr cs' \<Longrightarrow> cs' = cs(node_id n := fold (f n) (map snd m) (cs (node_id n)))"
proof (induction m arbitrary: cs)
  case (Cons px m)
  obtain p x where px: "px = (p, x)" by (cases px)
  then have "attach_all [([], n)] f m (cs(node_id n := f n x (cs (node_id n)))) = Inr cs'"
    using Cons.prems by (auto simp: node_at_def split: sum.splits if_splits)
  from Cons.IH [OF this] show ?case by (auto simp: px)
qed simp

definition star_root :: "table_info \<Rightarrow> read_node" where
  "star_root t = Read_node 0 t (tbl_name t) [P_star]"

lemma star_root_embeds [simp]: "node_embeds (star_root t) = []" "node_id (star_root t) = 0"
  by (simp_all add: star_root_def node_embeds_def List.map_filter_def)

lemma attach_filters_root: "fold (attach_filter (star_root t)) fs c = c\<lparr>cl_filters := cl_filters c @ fs\<rparr>"
  by (induction fs arbitrary: c) (auto simp: attach_filter_def Let_def split: option.split)

definition all_filters :: "query_params \<Rightarrow> filter_term list" where
  "all_filters q = concat (map snd (q_filters q))"

definition all_logic :: "query_params \<Rightarrow> logic_tree list" where
  "all_logic q = concat (map snd (q_logic q))"

lemma star_tree:
  assumes "read_tree snap schema t (Some [Star]) q None 0 = Inr (tree, k)"
  shows "tree_root tree = star_root t"
    and "cl_filters (tree_clauses tree 0) = all_filters q" "cl_logic (tree_clauses tree 0) = all_logic q"
      "cl_existence (tree_clauses tree 0) = []"
      "cl_limit (tree_clauses tree 0) = None \<longleftrightarrow> q_limit q = []" "cl_offset (tree_clauses tree 0) = None \<longleftrightarrow> q_offset q = []"
proof -
  let ?nodes = "[([], star_root t)]"
  have nodes: "tree_nodes (star_root t) = ?nodes" by (simp add: tree_nodes_def star_root_def)
  have tree: "tree_root tree = star_root t \<and> attach_params ?nodes q = Inr (tree_clauses tree)"
    using assms by (auto simp: read_tree_def sum_bind_def sum_map_def nodes [unfolded star_root_def] star_root_def Let_def split: sum.splits)
  then show "tree_root tree = star_root t" by simp
  obtain c1 c2 c3 c4 where
    1: "attach_all ?nodes (\<lambda>n fs c. fold (attach_filter n) fs c) (q_filters q) (\<lambda>i. no_clauses) = Inr c1"
    and 2: "attach_all ?nodes (\<lambda>n ts c. c\<lparr>cl_logic := cl_logic c @ ts\<rparr>) (q_logic q) c1 = Inr c2"
    and 3: "attach_all ?nodes (\<lambda>n ts c. c\<lparr>cl_order := cl_order c @ ts\<rparr>) (q_order q) c2 = Inr c3"
    and 4: "attach_all ?nodes (\<lambda>n k c. c\<lparr>cl_limit := Some k\<rparr>) (q_limit q) c3 = Inr c4"
    and 5: "attach_all ?nodes (\<lambda>n k c. c\<lparr>cl_offset := Some k\<rparr>) (q_offset q) c4 = Inr (tree_clauses tree)"
    using conjunct2 [OF tree] by (auto simp: attach_params_def sum_bind_def split: sum.splits)
  have fs: "fold (\<lambda>fs c. fold (attach_filter (star_root t)) fs c) m c = c\<lparr>cl_filters := cl_filters c @ concat m\<rparr>" for m c
    by (induction m arbitrary: c) (simp_all add: attach_filters_root)
  have ls: "fold (\<lambda>ts c. c\<lparr>cl_logic := cl_logic c @ ts\<rparr>) m c = c\<lparr>cl_logic := cl_logic c @ concat m\<rparr>" for m and c :: node_clauses
    by (induction m arbitrary: c) simp_all
  have os: "fold (\<lambda>ts c. c\<lparr>cl_order := cl_order c @ ts\<rparr>) m c = c\<lparr>cl_order := cl_order c @ concat m\<rparr>" for m and c :: node_clauses
    by (induction m arbitrary: c) simp_all
  have li: "fold (\<lambda>k c. c\<lparr>cl_limit := Some k\<rparr>) m c = (if m = [] then c else c\<lparr>cl_limit := Some (last m)\<rparr>)" for m and c :: node_clauses
    by (induction m arbitrary: c) auto
  have off: "fold (\<lambda>k c. c\<lparr>cl_offset := Some k\<rparr>) m c = (if m = [] then c else c\<lparr>cl_offset := Some (last m)\<rparr>)" for m and c :: node_clauses
    by (induction m arbitrary: c) auto
  note roots = attach_root [OF 1] attach_root [OF 2] attach_root [OF 3] attach_root [OF 4] attach_root [OF 5]
  show "cl_filters (tree_clauses tree 0) = all_filters q" "cl_logic (tree_clauses tree 0) = all_logic q"
      "cl_existence (tree_clauses tree 0) = []"
      "cl_limit (tree_clauses tree 0) = None \<longleftrightarrow> q_limit q = []" "cl_offset (tree_clauses tree 0) = None \<longleftrightarrow> q_offset q = []"
    by (simp_all add: roots fs ls os li off no_clauses_def all_filters_def all_logic_def)
qed

section \<open>Conditions of a request\<close>

text \<open>The parameters that are conditions: neither the lists nor an order, a limit or an offset.\<close>

definition is_condition :: "string \<Rightarrow> bool" where
  "is_condition key \<longleftrightarrow> key \<notin> {''select'', ''columns'', ''on_conflict''}
     \<and> keyed_path ''order'' key = None \<and> keyed_path ''limit'' key = None \<and> keyed_path ''offset'' key = None"

definition condition_count :: "query_params \<Rightarrow> nat" where
  "condition_count q = length (all_filters q) + length (all_logic q)"

lemma push_all_count: "length (concat (map snd (push_all m k vs))) = length (concat (map snd m)) + length vs"
  unfolding push_all_def by (induction m) auto

lemma param_step_count:
  "param_step None key value q = Inr q' \<Longrightarrow> condition_count q' = condition_count q + (if is_condition key then 1 else 0)"
  by (auto simp: param_step_def is_condition_def condition_count_def all_filters_def all_logic_def push_all_count sum_map_def add_filter_def
      simp del: starts_Cons split: if_splits sum.splits option.splits)

lemma param_loop_count:
  "param_loop None query q = Inr q' \<Longrightarrow>
   condition_count q' = condition_count q + length (filter (\<lambda>(key, value). is_condition key) query)"
proof (induction query arbitrary: q)
  case (Cons kv query)
  obtain key v where kv: "kv = (key, v)" by (cases kv)
  then obtain q1 where "param_step None key v q = Inr q1" "param_loop None query q1 = Inr q'"
    using Cons.prems by (auto split: sum.splits)
  then show ?case using Cons.IH [of q1] param_step_count [of key v q q1] kv by simp
qed simp

lemma parsed_condition_count:
  "parse_query_params None query = Inr q \<Longrightarrow> condition_count q = length (filter (\<lambda>(key, value). is_condition key) query)"
  using param_loop_count [of query no_params q]
  by (simp add: parse_query_params_def condition_count_def all_filters_def all_logic_def no_params_def)

lemma order_sql_binds: "order_sql n ts ps = Inr (x, qs) \<Longrightarrow> qs = ps"
proof -
  have "binds (order_sql n ts) (concat (map (\<lambda>t. []) ts) @ [])"
    unfolding order_sql_def by (intro binds_bind binds_ret binds_each) (auto simp: order_term_sql_def binds_ret binds_raise)
  then show "order_sql n ts ps = Inr (x, qs) \<Longrightarrow> qs = ps" by (auto simp: binds_def split: sum.splits dest: spec [of _ ps])
qed

text \<open>The conjunct of a request with a limit or an offset: the row is among those of a sub-select with conditions
  of its own.\<close>

definition row_limit :: "table_info \<Rightarrow> string list \<Rightarrow> string \<Rightarrow> string" where
  "row_limit t ws rest = qi (tbl_name t) @ ''.ctid = ANY(ARRAY(SELECT '' @ qi (tbl_name t) @ ''.ctid FROM ''
     @ target t @ where_text ws @ rest @ ''))''"

definition rows_limited :: "query_params \<Rightarrow> bool" where
  "rows_limited q \<longleftrightarrow> q_limit q \<noteq> [] \<or> q_offset q \<noteq> []"

definition condition_values :: "query_params \<Rightarrow> params" where
  "condition_values q = concat (map filter_values (all_filters q)) @ concat (map logic_values (all_logic q))"

lemma tail_sql_where:
  "\<exists>rest. tail_sql n c opts cols order ws = ''SELECT '' @ joined '', '' cols @ '' FROM ''
     @ (case opt_from opts of None \<Rightarrow> node_source n | Some f \<Rightarrow> f) @ as_alias n @ where_text ws @ rest"
  unfolding tail_sql_def where_text_def by blast

lemma target_where_exact:
  assumes "target_where snap schema t q ps = Inr (ws, qs)"
  shows "\<exists>ws0. length ws0 = condition_count q
    \<and> (if rows_limited q
       then (\<exists>ws1 rest. length ws1 = condition_count q \<and> ws = ws0 @ [row_limit t ws1 rest])
              \<and> qs = ps @ condition_values q @ condition_values q
       else ws = ws0 \<and> qs = ps @ condition_values q)"
proof -
  obtain tree k where t: "read_tree snap schema t (Some [Star]) q None 0 = Inr (tree, k)"
    using assms by (auto simp: target_where_def bind_w_def lift_plan_def split: sum.splits)
  note star = star_tree [OF t]
  let ?c = "tree_clauses tree 0" and ?cs = "tree_clauses tree" and ?n = "star_root t"
  have flat: "length ws0 = condition_count q \<and> qs0 = ps0 @ condition_values q"
    if "where_parts ?cs ?n ps0 = Inr (ws0, qs0)" for ps0 ws0 qs0
    using where_flat [of ?n ?cs ps0 ws0 qs0] that star by (auto simp: condition_count_def condition_values_def clause_values_def)
  obtain ws0 qs0 where w: "where_parts ?cs ?n ps = Inr (ws0, qs0)"
    and r: "if rows_limited q
      then \<exists>inner. select_sql ?cs ?n (default_opts\<lparr>opt_columns := Some (qi (tbl_name t) @ ''.ctid'')\<rparr>) qs0 = Inr (inner, qs)
             \<and> ws = ws0 @ [qi (tbl_name t) @ ''.ctid = ANY(ARRAY('' @ inner @ ''))'']
      else ws = ws0 \<and> qs = qs0"
    using assms star by (auto simp: target_where_def t bind_w_def lift_plan_def ret_def Let_def rows_limited_def star_root_def
        split: sum.splits if_splits)
  show ?thesis
  proof (cases "rows_limited q")
    case True
    then obtain inner where sel: "select_sql ?cs ?n (default_opts\<lparr>opt_columns := Some (qi (tbl_name t) @ ''.ctid'')\<rparr>) qs0 = Inr (inner, qs)"
      and ws: "ws = ws0 @ [qi (tbl_name t) @ ''.ctid = ANY(ARRAY('' @ inner @ ''))'']" using r by auto
    obtain ws1 qs1 order where w1: "where_parts ?cs ?n qs0 = Inr (ws1, qs1)" and o: "order_sql ?n (cl_order ?c) qs1 = Inr (order, qs)"
      and inner: "inner = tail_sql ?n ?c (default_opts\<lparr>opt_columns := Some (qi (tbl_name t) @ ''.ctid'')\<rparr>) [qi (tbl_name t) @ ''.ctid''] order
        (with_join (default_opts\<lparr>opt_columns := Some (qi (tbl_name t) @ ''.ctid'')\<rparr>) ws1)"
      using sel star(1) by (auto simp: select_sql.simps bind_w_def ret_def default_opts_def split: sum.splits)
    let ?o = "default_opts\<lparr>opt_columns := Some (qi (tbl_name t) @ ''.ctid'')\<rparr>"
    obtain rest where "tail_sql ?n ?c ?o [qi (tbl_name t) @ ''.ctid''] order ws1
        = ''SELECT '' @ joined '', '' [qi (tbl_name t) @ ''.ctid''] @ '' FROM ''
          @ (case opt_from ?o of None \<Rightarrow> node_source ?n | Some f \<Rightarrow> f) @ as_alias ?n @ where_text ws1 @ rest"
      using tail_sql_where by blast
    then have "inner = ''SELECT '' @ qi (tbl_name t) @ ''.ctid FROM '' @ target t @ where_text ws1 @ rest"
      unfolding inner by (simp add: default_opts_def with_join_def star_root_def node_source_def as_alias_def target_def del: append.simps(2))
    then have "qi (tbl_name t) @ ''.ctid = ANY(ARRAY('' @ inner @ ''))'' = row_limit t ws1 rest"
      by (simp add: row_limit_def)
    moreover have "length ws1 = condition_count q" "qs = ps @ condition_values q @ condition_values q" "length ws0 = condition_count q"
      using flat [OF w] flat [OF w1] order_sql_binds [OF o] by auto
    ultimately show ?thesis using True ws by auto
  next
    case False
    then show ?thesis using r flat [OF w] by auto
  qed
qed


text \<open>An UPDATE likewise: after its SET come the same conjuncts, and the
  payload is its first parameter, the values of the conditions the others.
\<close>

theorem update_keeps_every_condition:
  "case parse_query_params None query of
     Inl e \<Rightarrow> True
   | Inr q \<Rightarrow>
       (case update_sql snap schema t q (kv # kvs) returning [] of
          Inl e \<Rightarrow> True
        | Inr (sql, ps) \<Rightarrow>
            let n = length (filter (\<lambda>(key, value). is_condition key) query)
            in \<exists>s ws. length ws = n
                 \<and> (if rows_limited q
                    then (\<exists>ws' rest. length ws' = n
                            \<and> sql = s @ ''::json)) AS pgrst_body'' @ where_text (ws @ [row_limit t ws' rest]) @ '' RETURNING '' @ returning)
                         \<and> ps = Json_value (JObj (kv # kvs)) # condition_values q @ condition_values q
                    else sql = s @ ''::json)) AS pgrst_body'' @ where_text ws @ '' RETURNING '' @ returning
                         \<and> ps = Json_value (JObj (kv # kvs)) # condition_values q))"
proof (cases "parse_query_params None query")
  case q: (Inr q)
  note count = parsed_condition_count [OF q]
  let ?v = "Json_value (JObj (kv # kvs))"
  obtain body where body: "add_param ?v [] = Inr (body, [?v])" by (simp add: add_param_def params_add_def)
  show ?thesis
  proof (cases "target_where snap schema t q [?v]")
    case (Inl e)
    then show ?thesis by (simp add: q update_sql_def bind_w_def body)
  next
    case (Inr r)
    obtain ws qs where r: "r = (ws, qs)" by (cases r)
    obtain s where "update_sql snap schema t q (kv # kvs) returning []
        = Inr (s @ ''::json)) AS pgrst_body'' @ where_text ws @ '' RETURNING '' @ returning, qs)"
      unfolding update_sql_def by (simp add: bind_w_def body Inr r ret_def del: append.simps)
    moreover obtain ws0 where "length ws0 = condition_count q" "if rows_limited q
       then (\<exists>ws1 rest. length ws1 = condition_count q \<and> ws = ws0 @ [row_limit t ws1 rest])
              \<and> qs = [?v] @ condition_values q @ condition_values q
       else ws = ws0 \<and> qs = [?v] @ condition_values q"
      using target_where_exact [OF Inr [unfolded r]] by metis
    ultimately show ?thesis unfolding q Let_def count [symmetric]
      by (cases "rows_limited q") (simp_all del: append.simps(2), blast+)
  qed
qed simp

end
