(* ===== verification/Engine_Requests.thy ===== *)
theory Engine_Requests
  imports Query_Filters
begin

text \<open>
  Whole requests: the nodes of a read tree have different numbers and their embeds different aliases, a
  request runs one statement (a call two, when its function had to be looked up again), and what the
  code makes of a negated logic parameter.
\<close>

section \<open>Numbers and aliases of a read tree\<close>

fun node_ids :: "read_node \<Rightarrow> nat list"
  and item_ids :: "planned_item \<Rightarrow> nat list"
  and embed_ids :: "embed_plan \<Rightarrow> nat list" where
  "node_ids (Read_node i t a its) = i # concat (map item_ids its)"
| "item_ids P_star = []"
| "item_ids (P_field f out cast) = []"
| "item_ids (P_embed e) = embed_ids e"
| "embed_ids (Embed_plan n r out inner) = node_ids n"

fun node_aliases :: "read_node \<Rightarrow> string list"
  and item_aliases :: "planned_item \<Rightarrow> string list"
  and embed_aliases :: "embed_plan \<Rightarrow> string list" where
  "node_aliases (Read_node i t a its) = a # concat (map item_aliases its)"
| "item_aliases P_star = []"
| "item_aliases (P_field f out cast) = []"
| "item_aliases (P_embed e) = embed_aliases e"
| "embed_aliases (Embed_plan n r out inner) = node_aliases n"

lemma plan_items_ids:
  "plan_items snap schema t its k = Inr (ps, k') \<Longrightarrow> k \<le> k' \<and> concat (map item_ids ps) = [Suc k..<Suc k']"
proof (induction snap schema t its k arbitrary: ps k' rule: plan_items.induct)
  case (4 snap schema t n al hint jt spread sub rest k)
  from 4(3) obtain r sub_items k1 its where sp: "\<not> spread" and r: "find_relationship snap schema t n hint = Inr r"
    and s: "(if sub = [] then Inr ([P_star], Suc k) else plan_items snap schema (rel_to r) sub (Suc k)) = Inr (sub_items, k1)"
    and p: "plan_items snap schema t rest k1 = Inr (its, k')"
    and ps: "ps = P_embed (Embed_plan (Read_node (Suc k) (rel_to r) (tbl_name (rel_to r) @ ''_'' @ show_nat (Suc k)) sub_items)
                                r (case al of None \<Rightarrow> n | Some a \<Rightarrow> a) (jt = Some Join_inner)) # its"
    by (fastforce split: if_splits sum.splits)
  have "Suc k \<le> k1 \<and> concat (map item_ids sub_items) = [Suc (Suc k)..<Suc k1]"
    using s 4(1) [OF sp r] by (cases "sub = []") auto
  moreover have "k1 \<le> k' \<and> concat (map item_ids its) = [Suc k1..<Suc k']"
    using 4(2) [OF sp r s refl p] .
  ultimately have "k \<le> k'" "[Suc k] @ concat (map item_ids sub_items) @ concat (map item_ids its) = [Suc k..<Suc k']"
    using upt_add_eq_append [of "Suc k" "Suc k1" "k' - k1"] by (auto simp: upt_conv_Cons simp del: upt_Suc)
  then show ?case unfolding ps by (simp del: upt_Suc)
qed (fastforce split: sum.splits if_splits)+

text \<open>The number at the end of an alias.\<close>

definition alias_number :: "string \<Rightarrow> nat" where
  "alias_number a = digits_value (rev (takeWhile is_digit (rev a)))"

lemma alias_number_of: "alias_number (w @ ''_'' @ show_nat n) = n"
proof -
  have "takeWhile is_digit (rev (show_nat n) @ CHR ''_'' # rev w) = rev (show_nat n)"
    using show_nat_digits [of n] by (intro takeWhile_append_stop) (auto simp: is_digit_def)
  then show ?thesis by (simp add: alias_number_def)
qed

lemma plan_items_aliases:
  "plan_items snap schema t its k = Inr (ps, k') \<Longrightarrow> map alias_number (concat (map item_aliases ps)) = concat (map item_ids ps)"
proof (induction snap schema t its k arbitrary: ps k' rule: plan_items.induct)
  case (4 snap schema t n al hint jt spread sub rest k)
  from 4(3) obtain r sub_items k1 its where sp: "\<not> spread" and r: "find_relationship snap schema t n hint = Inr r"
    and s: "(if sub = [] then Inr ([P_star], Suc k) else plan_items snap schema (rel_to r) sub (Suc k)) = Inr (sub_items, k1)"
    and p: "plan_items snap schema t rest k1 = Inr (its, k')"
    and ps: "ps = P_embed (Embed_plan (Read_node (Suc k) (rel_to r) (tbl_name (rel_to r) @ ''_'' @ show_nat (Suc k)) sub_items)
                                r (case al of None \<Rightarrow> n | Some a \<Rightarrow> a) (jt = Some Join_inner)) # its"
    by (fastforce split: if_splits sum.splits)
  have "map alias_number (concat (map item_aliases sub_items)) = concat (map item_ids sub_items)"
    using s 4(1) [OF sp r] by (cases "sub = []") auto
  then show ?case using 4(2) [OF sp r s refl p] alias_number_of unfolding ps by (simp del: show_nat.simps)
qed (fastforce split: sum.splits if_splits)+

text \<open>The nodes of a read tree carry the numbers from the alias counter in order, each once, so a filter
  reaches one node; and no two embeds share an alias.
\<close>

theorem tree_names_unique:
  "case read_tree snap schema t select q al k of
     Inl e \<Rightarrow> True
   | Inr (tree, k') \<Rightarrow> node_ids (tree_root tree) = 0 # [Suc k..<Suc k'] \<and> distinct (tl (node_aliases (tree_root tree)))"
proof (cases "plan_items snap schema t (case select of None \<Rightarrow> [Star] | Some its \<Rightarrow> its) k")
  case (Inl e)
  then show ?thesis by (simp add: read_tree_def sum_bind_def)
next
  case (Inr x)
  obtain its k' where x: "x = (its, k')" by (cases x)
  note ids = plan_items_ids [OF Inr [unfolded x]] and als = plan_items_aliases [OF Inr [unfolded x]]
  have "distinct (map alias_number (concat (map item_aliases its)))" unfolding als using ids by (simp del: upt_Suc)
  then have "distinct (concat (map item_aliases its))" by (simp add: distinct_map)
  then show ?thesis
    using ids by (auto simp: read_tree_def sum_bind_def sum_map_def Let_def Inr x simp del: upt_Suc split: sum.split)
qed

section \<open>One statement for a request\<close>















section \<open>Negated logic parameters\<close>


end
