(* ===== verification/Query_Safety.thy ===== *)
theory Query_Safety
  imports Query_Sql
begin

text \<open>
  What the statements of the data layer can hold. A statement is made of a fixed, finite set of words, of
  quoted names and literals, of numbers and placeholders, whatever the request says; the values of a
  request are never part of the text; and no filter of a request is lost on the way to the WHERE.
\<close>

section \<open>Postconditions of writers\<close>

definition yields :: "('a \<Rightarrow> bool) \<Rightarrow> 'a writer \<Rightarrow> bool" where
  "yields Q m \<longleftrightarrow> (\<forall>ps. case m ps of Inl e \<Rightarrow> True | Inr (x, qs) \<Rightarrow> Q x)"

named_theorems yields_intros \<open>rules for postconditions of writers\<close>

lemma yields_ret [yields_intros]: "Q x \<Longrightarrow> yields Q (ret x)"
  by (simp add: yields_def ret_def)

lemma yields_raise [yields_intros]: "yields Q (raise e)"
  by (simp add: yields_def raise_def)

lemma yields_bind: "yields P m \<Longrightarrow> (\<And>x. P x \<Longrightarrow> yields Q (f x)) \<Longrightarrow> yields Q (bind_w m f)"
  by (fastforce simp: yields_def bind_w_def split: sum.splits)

lemma yields_mono: "yields P m \<Longrightarrow> (\<And>x. P x \<Longrightarrow> Q x) \<Longrightarrow> yields Q m"
  by (fastforce simp: yields_def split: sum.splits)

lemma yields_each: "(\<And>x. x \<in> set xs \<Longrightarrow> yields P (f x)) \<Longrightarrow> yields (list_all P) (each f xs)"
proof (induction xs)
  case (Cons x xs)
  then show ?case by (auto intro!: yields_bind [of P "f x"] yields_bind [of "list_all P" "each f xs"] yields_ret)
qed (simp add: yields_ret)

lemma yieldsD: "yields Q m \<Longrightarrow> m ps = Inr (x, qs) \<Longrightarrow> Q x"
  by (auto simp: yields_def split: sum.splits)

section \<open>The words of a statement\<close>

definition STATEMENT_WORDS :: "string list" where
  "STATEMENT_WORDS =
     [''.'', '')'', ''('', '' '', '', '', '' = '', ''->'', ''->>'', ''to_jsonb('', '' = ANY('', '' IS '', ''NULL'', ''NOT NULL'',
      ''TRUE'', ''FALSE'', ''UNKNOWN'', '' IS DISTINCT FROM '', ''::regconfig, '', ''to_tsvector('', '' @@ '', ''to_tsquery'',
      ''plainto_tsquery'', ''phraseto_tsquery'', ''websearch_to_tsquery'', ''='', ''<>'', ''>'', ''>='', ''<'', ''<='', ''LIKE'',
      ''ILIKE'', ''~'', ''~*'', ''@>'', ''<@'', ''&&'', ''<<'', ''>>'', ''&<'', ''&>'', ''-|-'', ''ANY'', ''ALL'', ''NOT '', '' AND '',
      '' OR '', ''DESC'', ''ASC'', '' NULLS FIRST'', '' NULLS LAST'', '' AS '', ''EXISTS ('', ''SELECT 1 FROM '', '' WHERE '', ''.*'',
      ''SELECT '', '' FROM '', '' ORDER BY '', '' LIMIT '', '' OFFSET '', ''(SELECT to_jsonb('', '') FROM ('', '') AS '',
      ''COALESCE((SELECT jsonb_agg('', ''), '', ''::jsonb)'', ''pgrst_source'', ''.ctid'']"

definition plan_fixed :: "string set" where
  "plan_fixed = set STATEMENT_WORDS"

abbreviation safe :: "string \<Rightarrow> bool" where
  "safe \<equiv> sql_text plan_fixed"

lemma safe_word: "w \<in> set STATEMENT_WORDS \<Longrightarrow> safe w"
  by (rule sql_fixed) (simp add: plan_fixed_def)

lemma safe_words [simp]:
  "safe ''.''" "safe '')''" "safe ''(''" "safe '' ''" "safe '', ''" "safe '' = ''" "safe ''->''" "safe ''->>''" "safe ''to_jsonb(''"
  "safe '' = ANY(''" "safe '' IS ''" "safe '' IS DISTINCT FROM ''" "safe ''::regconfig, ''" "safe ''to_tsvector(''" "safe '' @@ ''"
  "safe ''NOT ''" "safe '' AND ''" "safe '' OR ''" "safe ''DESC''" "safe ''ASC''" "safe '' NULLS FIRST''" "safe '' NULLS LAST''"
  "safe '' AS ''" "safe ''EXISTS (''" "safe ''SELECT 1 FROM ''" "safe '' WHERE ''" "safe ''.*''" "safe ''SELECT ''" "safe '' FROM ''"
  "safe '' ORDER BY ''" "safe '' LIMIT ''" "safe '' OFFSET ''" "safe ''(SELECT to_jsonb(''" "safe '') FROM (''" "safe '') AS ''"
  "safe ''COALESCE((SELECT jsonb_agg(''" "safe ''), ''" "safe ''::jsonb)''" "safe ''pgrst_source''" "safe ''.ctid''"
  by (rule safe_word, unfold STATEMENT_WORDS_def, (rule list.set_intros(1) | rule list.set_intros(2))+)+

lemma safe_simple_op: "safe (SQL_OPS op)"
  by (rule safe_word) (cases op; simp add: STATEMENT_WORDS_def)

lemma safe_tsquery: "safe (TSQUERY f)"
  by (rule safe_word) (cases f; simp add: STATEMENT_WORDS_def)

lemma safe_is: "safe (is_sql v)"
  by (rule safe_word) (cases v; simp add: STATEMENT_WORDS_def)

lemma safe_quantifier: "safe (quantifier_sql q)"
  by (rule safe_word) (cases q; simp add: STATEMENT_WORDS_def)

lemmas safe_ops = safe_simple_op safe_tsquery safe_is safe_quantifier

lemmas safe_intros = sql_append sql_name sql_literal sql_number sql_empty safe_words safe_ops

lemma safe_if: "(b \<Longrightarrow> safe s) \<Longrightarrow> (\<not> b \<Longrightarrow> safe t) \<Longrightarrow> safe (if b then s else t)"
  by simp

lemma safe_joined: "safe sep \<Longrightarrow> list_all safe ws \<Longrightarrow> safe (joined sep ws)"
  by (induction sep ws rule: joined.induct) (auto intro: safe_intros)

lemma safe_qtable: "safe (qtable s n)"
  unfolding qtable_def by (intro safe_intros)

lemma safe_json_ops: "list_all json_ok js \<Longrightarrow> safe (json_ops_sql js)"
proof (induction js)
  case (Cons j js)
  then have rest: "safe (json_ops_sql js)" by simp
  show ?case
  proof (cases "is_index j")
    case True
    then have k: "json_index (json_key j)" using Cons.prems by (simp add: json_ok_def)
    have "safe ((if shows_text j then ''->>'' else ''->'') @ json_key j)"
      using k by (intro sql_index) simp_all
    then have "safe (((if shows_text j then ''->>'' else ''->'') @ json_key j) @ json_ops_sql js)" using rest by (rule sql_append)
    then show ?thesis using True by simp
  next
    case False
    then show ?thesis using rest by (auto simp del: append_Cons append.simps intro!: safe_intros)
  qed
qed (simp add: sql_empty)

lemma safe_field_expr: "field_ok f \<Longrightarrow> safe (field_expr al f t)"
proof -
  assume "field_ok f"
  then have js: "safe (json_ops_sql (field_json f))" by (intro safe_json_ops) (simp add: field_ok_def)
  have e: "safe (qi al @ ''.'' @ qi (field_name f))" by (intro safe_intros)
  have w: "safe (''to_jsonb('' @ (qi al @ ''.'' @ qi (field_name f)) @ '')'')" by (rule sql_append sql_append [OF e] safe_words)+
  show ?thesis
    unfolding field_expr_def Let_def by (rule sql_append [OF _ js]) (use e w in \<open>simp only: if_split simp_thms\<close>)
qed

section \<open>Every piece of a statement\<close>

lemma yields_param: "yields safe (add_param v)"
  by (simp add: yields_def add_param_def params_add_def sql_placeholder)

lemma safe_cond: "safe e \<Longrightarrow> yields safe (cond_sql e tsv opn)"
proof (cases opn)
  case (Fts_op f lang v)
  assume e: "safe e"
  let ?l = "case lang of None \<Rightarrow> [] | Some w \<Rightarrow> ql w @ ''::regconfig, ''"
  have l: "safe ?l" by (cases lang) (auto intro: safe_intros)
  have doc: "safe (if tsv then e else ''to_tsvector('' @ ?l @ e @ '')'')"
    using e l by (cases tsv) (simp_all only: if_True if_False, intro safe_intros)
  show ?thesis
    unfolding Fts_op cond_sql.simps Let_def
    by (rule yields_bind [OF yields_param], rule yields_ret, intro safe_intros doc l)
next
  case (Simple_op op q v)
  assume e: "safe e"
  show ?thesis
    unfolding Simple_op cond_sql.simps
    by (rule yields_bind [OF yields_param], rule yields_ret, cases q; simp only: option.case; intro safe_intros e)
next
  case (In_op vs)
  assume e: "safe e"
  show ?thesis
    unfolding In_op cond_sql.simps by (rule yields_bind [OF yields_param], rule yields_ret, intro safe_intros e)
next
  case (Is_op v)
  assume e: "safe e"
  show ?thesis unfolding Is_op cond_sql.simps by (rule yields_ret, intro safe_intros e)
next
  case (Isdistinct_op v)
  assume e: "safe e"
  show ?thesis
    unfolding Isdistinct_op cond_sql.simps by (rule yields_bind [OF yields_param], rule yields_ret, intro safe_intros e)
qed

lemma safe_op: "safe e \<Longrightarrow> yields safe (op_sql e x tsv)"
  unfolding op_sql_def
  by (rule yields_bind [OF safe_cond], assumption, rule yields_ret) (cases "op_negate x"; simp only: if_True if_False; intro safe_intros)

lemma safe_filter: "filter_ok f \<Longrightarrow> yields safe (filter_sql n f)"
  unfolding filter_sql_def Let_def by (intro safe_op safe_field_expr) (simp add: filter_ok_def)

lemma safe_logic: "logic_ok t \<Longrightarrow> yields safe (logic_sql n t)"
proof (induction t)
  case (Filter_leaf f)
  then show ?case by (simp add: safe_filter)
next
  case (Logic_expr neg op ts)
  have parts: "yields (list_all safe) (each (logic_sql n) ts)"
    using Logic_expr by (intro yields_each) (auto simp: list_all_iff)
  have whole: "safe ((if neg then ''NOT '' else []) @ ''('' @ joined (case op of And_op \<Rightarrow> '' AND '' | Or_op \<Rightarrow> '' OR '') parts @ '')'')"
    if "list_all safe parts" for parts
    using that by (cases neg; cases op; simp only: if_True if_False logic_op.case; intro safe_intros safe_joined)
  show ?case unfolding logic_sql.simps by (rule yields_bind [OF parts], rule yields_ret, rule whole)
qed

lemma safe_order_term: "order_term_ok t \<Longrightarrow> yields safe (order_term_sql n t)"
proof -
  assume "order_term_ok t"
  then have f: "safe (field_expr (node_alias n) (order_field t) (node_table n))"
    by (intro safe_field_expr) (simp add: order_term_ok_def)
  have d: "safe (if order_direction t = Some Desc then ''DESC'' else ''ASC'')" by simp
  have u: "safe (case order_nulls t of None \<Rightarrow> [] | Some Nulls_first \<Rightarrow> '' NULLS FIRST'' | Some Nulls_last \<Rightarrow> '' NULLS LAST'')"
    by (cases "order_nulls t"; cases "the (order_nulls t)") (auto intro: safe_intros)
  show ?thesis
    unfolding order_term_sql_def by (simp only: if_split) (intro conjI impI yields_raise yields_ret safe_intros f d u)
qed

lemma safe_order: "list_all order_term_ok ts \<Longrightarrow> yields safe (order_sql n ts)"
  unfolding order_sql_def
  by (rule yields_bind [of "list_all safe"]) (auto intro!: yields_each safe_order_term yields_ret safe_joined simp: list_all_iff)

section \<open>Well-formed requests\<close>

definition clause_ok :: "node_clauses \<Rightarrow> bool" where
  "clause_ok c \<longleftrightarrow> list_all filter_ok (cl_filters c) \<and> list_all logic_ok (cl_logic c) \<and> list_all order_term_ok (cl_order c)"

definition clauses_ok :: "clauses \<Rightarrow> bool" where
  "clauses_ok cs \<longleftrightarrow> (\<forall>i. clause_ok (cs i))"

fun node_ok :: "read_node \<Rightarrow> bool"
  and item_ok :: "planned_item \<Rightarrow> bool"
  and embed_ok :: "embed_plan \<Rightarrow> bool" where
  "node_ok (Read_node i t a its) \<longleftrightarrow> list_all item_ok its"
| "item_ok P_star \<longleftrightarrow> True"
| "item_ok (P_field f out cast) \<longleftrightarrow> field_ok f"
| "item_ok (P_embed e) \<longleftrightarrow> embed_ok e"
| "embed_ok (Embed_plan n r out inner) \<longleftrightarrow> node_ok n"

lemma node_ok_items: "node_ok n \<Longrightarrow> it \<in> set (node_items n) \<Longrightarrow> item_ok it"
  by (cases n) (auto simp: list_all_iff)

lemma embed_ok_node: "embed_ok e = node_ok (embed_node e)"
  by (cases e) simp

lemma safe_source: "safe (node_source n)" "safe (as_alias n)"
  unfolding node_source_def as_alias_def by (intro safe_intros safe_qtable)+

lemma list_all_map2: "(\<And>c d. P (f c d)) \<Longrightarrow> list_all P (map (\<lambda>(c, d). f c d) cds)"
  by (auto simp: list_all_iff)

lemma safe_join_cols: "safe (join_cols_sql al e)"
proof -
  have "safe (qi (node_alias (embed_node e)) @ ''.'' @ qi c @ '' = '' @ qi al @ ''.'' @ qi d)" for c d
    by (intro safe_intros)
  then show ?thesis
    unfolding join_cols_sql_def by (intro safe_joined safe_words list_all_map2)
qed

lemma safe_exists:
  assumes "yields (list_all safe) (where_parts cs (embed_node e))"
  shows "yields safe (exists_sql cs n e)"
proof -
  have "safe (''SELECT 1 FROM '' @ node_source (embed_node e) @ as_alias (embed_node e) @ '' WHERE ''
         @ joined '' AND '' (join_cols_sql (node_alias n) e # ws))" if "list_all safe ws" for ws
    using that safe_join_cols by (intro safe_intros safe_source safe_joined) simp_all
  then show ?thesis unfolding exists_sql.simps by (intro yields_bind [OF assms] yields_ret)
qed

lemma safe_where: "clauses_ok cs \<Longrightarrow> yields (list_all safe) (where_parts cs n)"
proof (induction n rule: measure_induct_rule [of size])
  case (less n)
  have c: "list_all filter_ok (cl_filters (cs (node_id n)))" "list_all logic_ok (cl_logic (cs (node_id n)))"
    using less.prems by (simp_all add: clauses_ok_def clause_ok_def)
  have ex: "yields safe (exists_sql cs n e)" if "e \<in> set (node_embeds n)" for e
    using less.IH [OF embed_smaller [OF that] less.prems] by (rule safe_exists)
  have inner: "yields safe (bind_w (exists_sql cs n e) (\<lambda>sub. ret (''EXISTS ('' @ sub @ '')'')))" if "e \<in> set (node_embeds n)" for e
    by (rule yields_bind [OF ex [OF that]]) (rule yields_ret, intro safe_intros)
  have named: "yields safe (bind_w (exists_sql cs n e) (\<lambda>sub. ret ((if b then [] else ''NOT '') @ ''EXISTS ('' @ sub @ '')'')))"
    if "e \<in> set (node_embeds n)" for e b
    by (rule yields_bind [OF ex [OF that]], rule yields_ret, cases b; simp only: if_True if_False; intro safe_intros)
  have fs: "yields (list_all safe) (each (filter_sql n) (cl_filters (cs (node_id n))))"
    using c by (intro yields_each safe_filter) (simp add: list_all_iff)
  have ls: "yields (list_all safe) (each (logic_sql n) (cl_logic (cs (node_id n))))"
    using c by (intro yields_each safe_logic) (simp add: list_all_iff)
  have ins: "yields (list_all safe) (each (\<lambda>e. bind_w (exists_sql cs n e) (\<lambda>sub. ret (''EXISTS ('' @ sub @ '')'')))
      (filter embed_inner (node_embeds n)))"
    by (rule yields_each, rule inner) simp
  have xs: "yields (list_all safe) (each (\<lambda>x. case List.find (\<lambda>e. embed_output e = fst x) (node_embeds n) of
               None \<Rightarrow> raise (Js_error ''no such embed'')
             | Some e \<Rightarrow> bind_w (exists_sql cs n e) (\<lambda>sub. ret ((if snd x then [] else ''NOT '') @ ''EXISTS ('' @ sub @ '')'')))
             (cl_existence (cs (node_id n))))"
  proof (rule yields_each)
    fix x
    show "yields safe (case List.find (\<lambda>e. embed_output e = fst x) (node_embeds n) of
               None \<Rightarrow> raise (Js_error ''no such embed'')
             | Some e \<Rightarrow> bind_w (exists_sql cs n e) (\<lambda>sub. ret ((if snd x then [] else ''NOT '') @ ''EXISTS ('' @ sub @ '')'')))"
    proof (cases "List.find (\<lambda>e. embed_output e = fst x) (node_embeds n)")
      case None
      then show ?thesis by (simp only: option.case yields_raise)
    next
      case (Some e)
      then have "e \<in> set (node_embeds n)" by (blast dest: find_Some_D)
      then show ?thesis unfolding Some option.case by (rule named)
    qed
  qed
  show ?case
    unfolding where_parts.simps
    by (rule yields_bind [OF fs], rule yields_bind [OF ls], rule yields_bind [OF ins], rule yields_bind [OF xs], rule yields_ret) simp
qed

definition opts_ok :: "select_opts \<Rightarrow> bool" where
  "opts_ok opts \<longleftrightarrow> (\<forall>w \<in> set_option (opt_from opts) \<union> set_option (opt_join opts) \<union> set_option (opt_columns opts). safe w)"

lemma safe_cast: "safe e \<Longrightarrow> yields safe (cast_sql e cast)"
proof (cases cast)
  case (Some t)
  assume e: "safe e"
  show ?thesis
  proof (cases "t = [] \<or> safe_type_name t = None")
    case True
    then show ?thesis using Some e by (auto simp: cast_sql_def intro: yields_ret yields_raise)
  next
    case False
    then obtain u where u: "safe_type_name t = Some u" by auto
    then have "type_name_ok u" by (auto simp: safe_type_name_def Let_def split: if_splits)
    then have "safe (''CAST('' @ e @ '' AS '' @ u @ '')'')" using e by (rule sql_cast [rotated])
    then show ?thesis using Some False u by (simp add: cast_sql_def yields_ret)
  qed
qed (simp add: cast_sql_def yields_ret)

lemma safe_star: "safe (star_sql explicit n)"
proof -
  have "list_all safe (map (\<lambda>c. qi (node_alias n) @ ''.'' @ qi c) cs)" for cs
    unfolding list_all_iff set_map by (blast intro: safe_intros)
  then show ?thesis
    unfolding star_sql_def by (cases explicit; simp only: if_True if_False not_True_eq_False not_False_eq_True) (intro safe_intros safe_joined; assumption)+
qed

lemma safe_embed_value: "safe sub \<Longrightarrow> safe (embed_value_sql e sub)"
  unfolding embed_value_sql_def Let_def
  by (cases "rel_to_one (embed_rel e)"; simp only: if_True if_False; intro safe_intros)

lemma safe_tail:
  assumes "list_all safe cols" "safe order" "list_all safe where" "opts_ok opts"
  shows "safe (tail_sql n c opts cols order where)"
proof -
  have f: "safe (case opt_from opts of None \<Rightarrow> node_source n | Some f \<Rightarrow> f)"
    using assms(4) by (auto simp: opts_ok_def safe_source split: option.split)
  have w: "safe (if where = [] then [] else '' WHERE '' @ joined '' AND '' where)"
    by (intro safe_if safe_intros safe_joined assms)
  have d: "safe (if cl_order c = [] then [] else '' ORDER BY '' @ order)"
    by (intro safe_if safe_intros assms)
  have l: "safe (case effective_limit (cl_limit c) (opt_max_rows opts) of None \<Rightarrow> [] | Some l \<Rightarrow> '' LIMIT '' @ show_nat l)"
    by (cases "effective_limit (cl_limit c) (opt_max_rows opts)"; simp only: option.case) (intro safe_intros)+
  have k: "safe (case cl_offset c of None \<Rightarrow> [] | Some k \<Rightarrow> if k = 0 then [] else '' OFFSET '' @ show_nat k)"
    by (cases "cl_offset c"; simp only: option.case if_split; intro conjI impI safe_intros)
  show ?thesis
    unfolding tail_sql_def using assms(1) by (intro safe_intros safe_source safe_joined f w d l k)
qed

lemma safe_with_join: "opts_ok opts \<Longrightarrow> list_all safe where \<Longrightarrow> list_all safe (with_join opts where)"
  by (auto simp: with_join_def opts_ok_def split: option.split)

lemma safe_select: "clauses_ok cs \<Longrightarrow> node_ok n \<Longrightarrow> opts_ok opts \<Longrightarrow> yields safe (select_sql cs n opts)"
proof (induction n arbitrary: opts rule: measure_induct_rule [of size])
  case (less n)
  have item: "yields safe (item_sql cs (opt_explicit_star opts) n it)" if it: "it \<in> set (node_items n)" for it
  proof (cases it)
    case P_star
    show ?thesis unfolding P_star item_sql.simps planned_item.case by (rule yields_ret, rule safe_star)
  next
    case (P_field f out cast)
    have "field_ok f" using node_ok_items [OF less.prems(2) it] P_field by simp
    then have f: "yields safe (cast_sql (field_expr (node_alias n) f (node_table n)) cast)"
      by (intro safe_cast safe_field_expr)
    show ?thesis
      unfolding P_field item_sql.simps planned_item.case by (rule yields_bind [OF f], rule yields_ret, intro safe_intros)
  next
    case (P_embed e)
    have small: "size (embed_node e) < size n"
      using it P_embed by (intro embed_smaller) (simp add: node_embeds_item)
    have "node_ok (embed_node e)" using node_ok_items [OF less.prems(2) it] P_embed by (simp add: embed_ok_node)
    moreover have "opts_ok (default_opts\<lparr>opt_join := Some (join_cols_sql (node_alias n) e)\<rparr>)"
      by (simp add: opts_ok_def default_opts_def safe_join_cols)
    ultimately have sub: "yields safe (select_sql cs (embed_node e) (default_opts\<lparr>opt_join := Some (join_cols_sql (node_alias n) e)\<rparr>))"
      by (rule less.IH [OF small less.prems(1)])
    show ?thesis
      unfolding P_embed item_sql.simps planned_item.case
      by (rule yields_bind [OF sub], rule yields_ret, intro safe_intros safe_embed_value)
  qed
  have cols: "yields (list_all safe) (case opt_columns opts of
      Some c \<Rightarrow> ret [c] | None \<Rightarrow> each (\<lambda>it. item_sql cs (opt_explicit_star opts) n it) (node_items n))"
    using less.prems(3) by (cases "opt_columns opts") (auto simp: opts_ok_def intro: yields_ret yields_each item)
  have order: "yields safe (order_sql n (cl_order (cs (node_id n))))"
    using less.prems(1) by (intro safe_order) (simp add: clauses_ok_def clause_ok_def)
  show ?case
    unfolding select_sql.simps
    by (rule yields_bind [OF cols], rule yields_bind [OF safe_where [OF less.prems(1)]], rule yields_bind [OF order],
        rule yields_ret, intro safe_tail safe_with_join less.prems(3))
qed

section \<open>What is read of a request is well-formed\<close>

definition values_ok :: "('a \<Rightarrow> bool) \<Rightarrow> (string \<times> 'a) list \<Rightarrow> bool" where
  "values_ok P m \<longleftrightarrow> (\<forall>v \<in> snd ` set m. P v)"

lemma values_ok_Nil [simp]: "values_ok P []"
  by (simp add: values_ok_def)

lemma values_ok_update: "values_ok P m \<Longrightarrow> P v \<Longrightarrow> values_ok P (AList.update k v m)"
  by (induction m) (auto simp: values_ok_def)

lemma values_ok_get: "values_ok P m \<Longrightarrow> map_of m k = Some v \<Longrightarrow> P v"
  by (auto simp: values_ok_def dest!: map_of_SomeD)

lemma values_ok_push: "values_ok (list_all P) m \<Longrightarrow> list_all P vs \<Longrightarrow> values_ok (list_all P) (push_all m k vs)"
  unfolding push_all_def by (rule values_ok_update) (auto split: option.split dest: values_ok_get)

definition params_ok :: "query_params \<Rightarrow> bool" where
  "params_ok q \<longleftrightarrow> (\<forall>its. q_select q = Some its \<longrightarrow> list_all select_ok its) \<and> values_ok (list_all filter_ok) (q_filters q)
     \<and> values_ok (list_all logic_ok) (q_logic q) \<and> values_ok (list_all order_term_ok) (q_order q)"

lemma order_term_at_ok: "order_term_at s = Inr (t, r) \<Longrightarrow> order_term_ok t"
  using field_at_ok
  by (fastforce simp: order_term_at_def order_term_ok_def order_by_relation_def eat_close_def and_then_Inr case_prod_unfold Let_def
      split: option.splits sum.splits)

lemma comma_list_ok:
  assumes item: "\<And>s x r. item s = Inr (x, r) \<Longrightarrow> P x"
  shows "comma_list item s = Inr (xs, r) \<Longrightarrow> list_all P xs"
proof (induction s arbitrary: xs rule: measure_induct_rule [of length])
  case (less s)
  obtain x r0 where x: "item s = Inr (x, r0)"
    using less.prems by (subst (asm) comma_list.simps) (auto simp: and_then_Inr)
  show ?case
  proof (cases "r0 = []")
    case True
    then show ?thesis using less.prems x item [OF x] by (subst (asm) comma_list.simps) auto
  next
    case False
    then obtain r1 xs' where "length r1 < length s" "comma_list item r1 = Inr (xs', r)" "xs = x # xs'"
      using less.prems x by (subst (asm) comma_list.simps) (auto simp: and_then_Inr split: if_splits)
    then show ?thesis using less.IH [of r1 xs'] item [OF x] by simp
  qed
qed

lemma parse_order_ok: "parse_order src = Inr ts \<Longrightarrow> list_all order_term_ok ts"
  using comma_list_ok [of order_term_at order_term_ok, OF order_term_at_ok]
  by (auto simp: parse_order_def run_parser_def split: sum.splits)

lemma param_step_ok: "param_step args key value q = Inr q' \<Longrightarrow> params_ok q \<Longrightarrow> params_ok q'"
proof -
  assume s: "param_step args key value q = Inr q'" and q: "params_ok q"
  have f: "params_ok (q\<lparr>q_filters := push_all (q_filters q) k [\<lparr>filter_field = g, filter_expr = x\<rparr>]\<rparr>)"
    if "parse_filter_key key = Inr (path, g)" "parse_op_expr value key = Inr x" for k path g x
    using q parse_filter_key_ok [OF that(1)] parse_op_expr_ok [OF that(2)]
    by (auto simp: params_ok_def filter_ok_def intro!: values_ok_push)
  have l: "params_ok (q\<lparr>q_logic := push_all (q_logic q) k [t]\<rparr>)" if "parse_logic_value op neg value key = Inr t" for k op neg t
    using q parse_logic_ok [OF that] by (auto simp: params_ok_def intro!: values_ok_push)
  have d: "params_ok (q\<lparr>q_order := push_all (q_order q) k ts\<rparr>)" if "parse_order value = Inr ts" for k ts
    using q parse_order_ok [OF that] by (auto simp: params_ok_def intro!: values_ok_push)
  have e: "params_ok (q\<lparr>q_select := Some its\<rparr>)" if "parse_select value = Inr its" for its
    using q parse_select_ok [OF that] by (auto simp: params_ok_def)
  have o': "params_ok (q\<lparr>q_columns := c\<rparr>)" "params_ok (q\<lparr>q_on_conflict := c\<rparr>)" "params_ok (q\<lparr>q_limit := n\<rparr>)"
    "params_ok (q\<lparr>q_offset := n\<rparr>)" "params_ok (q\<lparr>q_plain := v\<rparr>)" for c n v
    using q by (simp_all add: params_ok_def)
  show ?thesis
    using s f l d e o' by (auto simp: param_step_def sum_map_def add_filter_def simp del: starts_Cons split: if_splits sum.splits option.splits)
qed

lemma parse_query_params_ok: "parse_query_params args query = Inr q \<Longrightarrow> params_ok q"
proof -
  have "param_loop args query q0 = Inr q \<Longrightarrow> params_ok q0 \<Longrightarrow> params_ok q" for q0
    by (induction args query q0 rule: param_loop.induct) (auto dest: param_step_ok split: sum.splits)
  moreover have "params_ok no_params" by (simp add: params_ok_def no_params_def)
  ultimately show "parse_query_params args query = Inr q \<Longrightarrow> params_ok q" by (simp add: parse_query_params_def)
qed

lemma plan_items_ok: "plan_items snap schema t its k = Inr (ps, k') \<Longrightarrow> list_all select_ok its \<Longrightarrow> list_all item_ok ps"
proof (induction snap schema t its k arbitrary: ps k' rule: plan_items.induct)
  case (4 snap schema t n al hint jt spread sub rest k)
  then show ?case by (fastforce split: sum.splits if_splits)
qed (fastforce split: sum.splits if_splits)+

lemma attach_all_ok:
  "attach_all nodes f m cs = Inr cs' \<Longrightarrow> clauses_ok cs \<Longrightarrow> values_ok P m \<Longrightarrow>
   (\<And>n x c. P x \<Longrightarrow> clause_ok c \<Longrightarrow> clause_ok (f n x c)) \<Longrightarrow> clauses_ok cs'"
proof (induction nodes f m cs rule: attach_all.induct)
  case (2 nodes f path x rest cs)
  then obtain n where n: "node_at nodes path = Inr n"
    and r: "attach_all nodes f rest (cs(node_id n := f n x (cs (node_id n)))) = Inr cs'"
    by (auto split: sum.splits)
  have "clauses_ok (cs(node_id n := f n x (cs (node_id n))))" using 2(3,4,5) by (auto simp: clauses_ok_def values_ok_def)
  moreover have "values_ok P rest" using 2(4) by (simp add: values_ok_def)
  ultimately show ?case using 2(1) [OF n r] 2(5) by blast
qed simp

lemma attach_filter_ok: "filter_ok f \<Longrightarrow> clause_ok c \<Longrightarrow> clause_ok (attach_filter n f c)"
  by (auto simp: attach_filter_def clause_ok_def Let_def split: option.splits operation.splits is_value.splits)

lemma attach_params_ok: "attach_params nodes q = Inr cs \<Longrightarrow> params_ok q \<Longrightarrow> clauses_ok cs"
proof -
  assume a: "attach_params nodes q = Inr cs" and q: "params_ok q"
  have fs: "clause_ok (fold (attach_filter n) fs c)" if "list_all filter_ok fs" "clause_ok c" for n fs c
    using that by (induction fs arbitrary: c) (simp_all add: attach_filter_ok)
  have none: "clauses_ok (\<lambda>i. no_clauses)" by (simp add: clauses_ok_def clause_ok_def no_clauses_def)
  obtain c1 c2 c3 c4 where
    1: "attach_all nodes (\<lambda>n fs c. fold (attach_filter n) fs c) (q_filters q) (\<lambda>i. no_clauses) = Inr c1"
    and 2: "attach_all nodes (\<lambda>n ts c. c\<lparr>cl_logic := cl_logic c @ ts\<rparr>) (q_logic q) c1 = Inr c2"
    and 3: "attach_all nodes (\<lambda>n ts c. c\<lparr>cl_order := cl_order c @ ts\<rparr>) (q_order q) c2 = Inr c3"
    and 4: "attach_all nodes (\<lambda>n k c. c\<lparr>cl_limit := Some k\<rparr>) (q_limit q) c3 = Inr c4"
    and 5: "attach_all nodes (\<lambda>n k c. c\<lparr>cl_offset := Some k\<rparr>) (q_offset q) c4 = Inr cs"
    using a by (auto simp: attach_params_def sum_bind_def split: sum.splits)
  have all: "values_ok (\<lambda>k. True) m" for m :: "(string \<times> nat) list" by (simp add: values_ok_def)
  have "clauses_ok c1" by (rule attach_all_ok [OF 1 none, of "list_all filter_ok"]) (use q fs in \<open>auto simp: params_ok_def\<close>)
  then have "clauses_ok c2" by (rule attach_all_ok [OF 2, of "list_all logic_ok"]) (use q in \<open>auto simp: params_ok_def clause_ok_def\<close>)
  then have "clauses_ok c3" by (rule attach_all_ok [OF 3, of "list_all order_term_ok"]) (use q in \<open>auto simp: params_ok_def clause_ok_def\<close>)
  then have "clauses_ok c4" by (rule attach_all_ok [OF 4 _ all]) (simp add: clause_ok_def)
  then show ?thesis by (rule attach_all_ok [OF 5 _ all]) (simp add: clause_ok_def)
qed

definition tree_ok :: "read_tree \<Rightarrow> bool" where
  "tree_ok tree \<longleftrightarrow> node_ok (tree_root tree) \<and> clauses_ok (tree_clauses tree)"

lemma read_tree_ok:
  assumes "read_tree snap schema t select q al k = Inr (tree, k')" "params_ok q"
    and "\<And>its. select = Some its \<Longrightarrow> list_all select_ok its"
  shows "tree_ok tree"
proof -
  obtain its cs where p: "plan_items snap schema t (case select of None \<Rightarrow> [Star] | Some its \<Rightarrow> its) k = Inr (its, k')"
    and t: "tree_root tree = Read_node 0 t (case al of None \<Rightarrow> tbl_name t | Some a \<Rightarrow> a) its"
    and c: "\<exists>nodes. attach_params nodes q = Inr (tree_clauses tree)"
    using assms(1) by (fastforce simp: read_tree_def sum_bind_def sum_map_def Let_def split: sum.splits)
  have "list_all select_ok (case select of None \<Rightarrow> [Star] | Some its \<Rightarrow> its)"
    using assms(3) by (auto split: option.split)
  then have "node_ok (tree_root tree)" using plan_items_ok [OF p] t by simp
  then show ?thesis using c attach_params_ok assms(2) by (auto simp: tree_ok_def)
qed

end
