(* ===== verification/Engine_Safety.thy ===== *)
theory Engine_Safety
  imports Query_Safety Query_Engine
begin

text \<open>
  The statements of the engine are made of fixed words too: reads, writes and calls. What else can be in
  them comes from the catalog, the default of a column and the type of a function's argument; nothing of
  the request does, other than quoted, as a number, or as a placeholder.
\<close>

section \<open>The words of the engine\<close>

definition ENGINE_WORDS :: "string list" where
  "ENGINE_WORDS =
     [''WHEN '', '' <> 1 THEN ('', '' || '', '')::int'', '' IS NOT NULL AND '', '' > '', '' THEN ('', ''0'', ''CASE '',
      '' ELSE 0 END'', ''(json_agg(_pgrst_t) -> 0)::text'', ''coalesce(json_agg(_pgrst_t), '', '')::text'',
      ''(SELECT pg_catalog.count(*) FROM '', ''NULL::bigint'', '' AS total, pg_catalog.count(*) AS page, '', '' AS body FROM ('',
      '') AS _pgrst_t'', ''CASE WHEN pg_catalog.count(*) > 1 THEN ('', '' || pg_catalog.count(*))::int ELSE 0 END'',
      ''.xmax = 0) AS pgrst_inserted'', ''(SELECT coalesce(bool_or(pgrst_inserted), true) FROM pgrst_source)'', ''true'',
      ''pgrst_source'', ''WITH pgrst_source AS ('', '') SELECT '', '' AS guard, pg_catalog.count(*) AS page, '', '' AS body, '',
      '' AS inserted FROM ('', ''1'', '' AS inserted FROM pgrst_source'', '' WHERE false'', ''.ctid'', ''.ctid = ANY(ARRAY('',
      ''))'', ''DELETE FROM '', '' RETURNING '', ''UPDATE '', '' SET '', '' = pgrst_body.'',
      '' FROM (SELECT * FROM json_populate_record(NULL::'', ''::json)) AS pgrst_body'', '' ON CONFLICT ('', '') DO NOTHING'',
      '') DO UPDATE SET '', '' = EXCLUDED.'', ''INSERT INTO '', '' DEFAULT VALUES RETURNING '', ''CASE WHEN pgrst_elem.value ? '',
      '' THEN pgrst_row.'', '' ELSE '', '' END'', '' ('', '' FROM jsonb_array_elements('',
      ''::jsonb) WITH ORDINALITY AS pgrst_elem(value, ord), '', ''LATERAL jsonb_populate_record(NULL::'',
      '', pgrst_elem.value) AS pgrst_row ORDER BY pgrst_elem.ord'', '' FROM json_populate_recordset(NULL::'',
      ''::json) AS pgrst_body'', ''::'', ''()'', '' := pgrst_args.'', ''json_to_record('', ''::json) AS pgrst_args('', ''FROM '',
      '', LATERAL '', ''pgrst_page.page'', ''pgrst_page.total'', '' SELECT pgrst_page.total, pgrst_page.page, pgrst_page.body, '',
      '' AS guard '', ''FROM (SELECT '', '' AS total, _pgrst_p.page, _pgrst_p.body FROM ('', '') AS _pgrst_p) AS pgrst_page'',
      ''(json_agg(_pgrst_t.pgrst_scalar) -> 0)::text'', ''coalesce(json_agg(_pgrst_t.pgrst_scalar), '', ''SELECT to_json('',
      '')::text AS body '', ''SELECT to_json(pgrst_call)::text AS body '', '' AS pgrst_call'',
      ''SELECT pgrst_call AS pgrst_scalar '', ''SELECT pgrst_scalar FROM pgrst_source'', ''WITH pgrst_source AS MATERIALIZED ('',
      ''(SELECT pg_catalog.count(*) FROM pgrst_source)'', ''SELECT pg_catalog.count(*) AS page, '', ''SELECT pgrst_call.* '',
      ''(SELECT pg_catalog.count(*) FROM pgrst_source AS '']"

definition statement_fixed :: "string set \<Rightarrow> string set" where
  "statement_fixed C = plan_fixed \<union> set ENGINE_WORDS \<union> C"

abbreviation stmt_safe :: "string set \<Rightarrow> string \<Rightarrow> bool" where
  "stmt_safe C \<equiv> sql_text (statement_fixed C)"









section \<open>The statements of the tables\<close>




















section \<open>Inserts and calls\<close>

definition catalog_words :: "snapshot \<Rightarrow> string set" where
  "catalog_words snap =
     {d. \<exists>k t c i. (k, t) \<in> set (snap_tables snap) \<and> (c, i) \<in> set (tbl_columns t) \<and> col_default i = Some d}
     \<union> {ty. \<exists>k fs f a. (k, fs) \<in> set (snap_functions snap) \<and> f \<in> set fs \<and> a \<in> set (fn_args f) \<and> arg_type a = ty}"










section \<open>Every prepared statement\<close>

definition safe_prepared :: "snapshot \<Rightarrow> plan_error + prepared \<Rightarrow> bool" where
  "safe_prepared snap r = (case r of Inl e \<Rightarrow> True | Inr p \<Rightarrow> stmt_safe (catalog_words snap) (prep_sql p))"

lemma safe_prepared_simps [simp]:
  "safe_prepared snap (Inl e)" "safe_prepared snap (Inr p) = stmt_safe (catalog_words snap) (prep_sql p)"
  by (simp_all add: safe_prepared_def)
















end
