(* ===== verification/Entitlements.thy ===== *)
theory Entitlements
  imports Capability_Registry
begin

text \<open>
  What a workspace has: the plan in force (\<open>server/services/billing/planSelection.ts\<close> and \<open>getWorkspacePlanInfo\<close> of
  \<open>server/middleware/featureGating.ts\<close>), the values every surface reads the same way (\<open>shared/planLimits.ts\<close>), the
  snapshot every client renders (\<open>effectiveEntitlements.ts\<close>), the strict reading of an answer of the database
  (\<open>entitlementParse.ts\<close>) and the functions of the database that enforcement asks
  (\<open>database/migrations/251_production_parity.sql\<close>). How PostgreSQL casts a JSON value to a boolean or an integer is
  a parameter; so is \<open>Date.parse\<close>.
\<close>

section \<open>The plan in force\<close>

record subscription =
  su_status :: "string option"
  su_plan :: "string option"
  su_trial_end :: "string option"
  su_fallback :: "string option"
  su_cancel :: "bool option"
  su_period_end :: "string option"

definition is_future :: "(string \<Rightarrow> int option) \<Rightarrow> string option \<Rightarrow> int \<Rightarrow> bool" where
  "is_future parse stamp now =
     (case stamp of None \<Rightarrow> False | Some t \<Rightarrow> if t = [] then False else (case parse t of None \<Rightarrow> False | Some i \<Rightarrow> now < i))"

definition present :: "string option \<Rightarrow> bool" where
  "present s \<longleftrightarrow> s \<noteq> None \<and> s \<noteq> Some []"

definition assigned_plan_applies :: "(string \<Rightarrow> int option) \<Rightarrow> subscription option \<Rightarrow> int \<Rightarrow> bool" where
  "assigned_plan_applies parse sub now =
     (case sub of
        None \<Rightarrow> False
      | Some s \<Rightarrow>
          if \<not> present (su_plan s) then False
          else if su_status s = Some ''active'' then True
          else if su_status s = Some ''past_due'' then \<not> present (su_fallback s)
          else if su_status s = Some ''trialing'' then \<not> present (su_trial_end s) \<or> is_future parse (su_trial_end s) now
          else if su_status s = Some ''canceled'' \<or> su_status s = Some ''cancelled''
            then su_cancel s = Some True \<and> is_future parse (su_period_end s) now
          else False)"

section \<open>The tables\<close>

record plan_row =
  pl_id :: string
  pl_slug :: string
  pl_active :: bool
  pl_entitlements :: "(string \<times> jsval) list option"
  pl_limits :: "(string \<times> jsval) list option"

record flag_override =
  fo_enabled :: bool
  fo_note :: "string option"

record plan_tables =
  subscriptions :: "string \<rightharpoonup> subscription"
  plans :: "plan_row list"
  limit_overrides :: "string \<Rightarrow> (string \<times> int \<times> string option) list"
  module_overrides :: "string \<Rightarrow> (string option \<times> flag_override) list"
  channel_overrides :: "string \<Rightarrow> (string option \<times> flag_override) list"

definition plan_by_id :: "string \<Rightarrow> plan_tables \<Rightarrow> plan_row option" where
  "plan_by_id i db = List.find (\<lambda>p. pl_id p = i) (plans db)"

definition free_plans :: "plan_tables \<Rightarrow> plan_row list" where
  "free_plans db = filter (\<lambda>p. pl_slug p = ''free'' \<and> pl_active p) (plans db)"

section \<open>What the clients are shown\<close>

text \<open>How the four reads come back: a failing one has its own error, a missing table of overrides is no override.\<close>

datatype read = Read_ok | Read_missing | Read_failed

record plan_reads =
  subscription_read :: read
  overrides_read :: read
  plan_read :: read
  free_read :: read

record plan_info =
  pi_plan :: plan_row
  pi_subscription :: "subscription option"
  pi_overrides :: "(string \<times> int \<times> string option) list"

datatype plan_info_error =
  Subscription_read_failed | Overrides_read_failed | Plan_read_failed | Free_plan_read_failed | Free_plan_not_found | No_valid_slug

definition plan_limits_of :: "plan_info \<Rightarrow> (string \<times> jsval) list" where
  "plan_limits_of i = entries_of (pl_limits (pi_plan i))"

definition plan_entitlements_of :: "plan_info \<Rightarrow> (string \<times> jsval) list" where
  "plan_entitlements_of i = entries_of (pl_entitlements (pi_plan i))"

text \<open>The limits with the overrides applied.\<close>

definition merged_limits :: "plan_info \<Rightarrow> (string \<times> jsval) list" where
  "merged_limits i =
     fold (\<lambda>(k, v, _) lims. AList.update k (JNum (Fin (of_int v))) lims) (pi_overrides i) (plan_limits_of i)"

definition free_plan :: "plan_reads \<Rightarrow> plan_tables \<Rightarrow> plan_info_error + plan_row" where
  "free_plan reads db =
     (if free_read reads \<noteq> Read_ok then Inl Free_plan_read_failed
      else case free_plans db of [] \<Rightarrow> Inl Free_plan_not_found | [p] \<Rightarrow> Inr p | _ \<Rightarrow> Inl Free_plan_read_failed)"

definition assigned_plan ::
    "(string \<Rightarrow> int option) \<Rightarrow> plan_reads \<Rightarrow> plan_tables \<Rightarrow> subscription option \<Rightarrow> int \<Rightarrow> plan_info_error + plan_row option" where
  "assigned_plan parse reads db sub now =
     (case sub of
        None \<Rightarrow> Inr None
      | Some s \<Rightarrow>
          if present (su_plan s) \<and> assigned_plan_applies parse sub now
          then if plan_read reads \<noteq> Read_ok then Inl Plan_read_failed else Inr (plan_by_id (the (su_plan s)) db)
          else Inr None)"

definition get_workspace_plan_info ::
    "(string \<Rightarrow> int option) \<Rightarrow> plan_reads \<Rightarrow> plan_tables \<Rightarrow> string \<Rightarrow> int \<Rightarrow> plan_info_error + plan_info" where
  "get_workspace_plan_info parse reads db ws now =
     (if subscription_read reads \<noteq> Read_ok then Inl Subscription_read_failed
      else if overrides_read reads = Read_failed then Inl Overrides_read_failed
      else let sub = subscriptions db ws;
               overrides = (if overrides_read reads = Read_ok then limit_overrides db ws else [])
      in case assigned_plan parse reads db sub now of
           Inl e \<Rightarrow> Inl e
         | Inr assigned \<Rightarrow>
             (case (case assigned of Some p \<Rightarrow> Inr p | None \<Rightarrow> free_plan reads db) of
                Inl e \<Rightarrow> Inl e
              | Inr p \<Rightarrow>
                  if js_trim (pl_slug p) = [] then Inl No_valid_slug
                  else Inr \<lparr>pi_plan = p, pi_subscription = sub, pi_overrides = overrides\<rparr>))"

section \<open>Values read the same way everywhere\<close>

definition STORAGE_LIMIT_KEY :: string where "STORAGE_LIMIT_KEY = ''storage_mb''"
definition MB_PER_GB :: rat where "MB_PER_GB = 1024"
definition BYTES_PER_MB :: rat where "BYTES_PER_MB = 1024 * 1024"
definition AI_WALLET_UNIT :: string where "AI_WALLET_UNIT = ''IRR''"

definition finite_number :: "jsval \<Rightarrow> rat option" where
  "finite_number v =
     (case v of
        JNum n \<Rightarrow> num_value n
      | JStr s \<Rightarrow> if js_trim s = [] then None else num_value (js_number s)
      | _ \<Rightarrow> None)"

definition json_prop :: "(string \<times> jsval) list \<Rightarrow> string \<Rightarrow> jsval" where
  "json_prop kvs k = get_prop (JObj kvs) k"

definition storage_limit_mb :: "(string \<times> jsval) list option \<Rightarrow> rat option" where
  "storage_limit_mb lims =
     (case lims of
        None \<Rightarrow> None
      | Some l \<Rightarrow> (case finite_number (json_prop l STORAGE_LIMIT_KEY) of None \<Rightarrow> None | Some mb \<Rightarrow> Some (if mb < 0 then - 1 else mb)))"

definition mb_to_gb :: "rat \<Rightarrow> rat" where
  "mb_to_gb mb = (if mb < 0 then - 1 else mb / MB_PER_GB)"

definition bytes_to_mb :: "jsnum \<Rightarrow> rat" where
  "bytes_to_mb b = (case b of Fin q \<Rightarrow> if q \<le> 0 then 0 else q / BYTES_PER_MB | _ \<Rightarrow> 0)"

definition plan_ai_allowance :: "(string \<times> jsval) list option \<Rightarrow> (string \<times> jsval) list option \<Rightarrow> rat" where
  "plan_ai_allowance allowance lims =
     (let number = (\<lambda>kvs k. Option.bind kvs (\<lambda>l. finite_number (json_prop l k)))
      in max 0 (case number allowance AI_WALLET_UNIT of Some q \<Rightarrow> q | None \<Rightarrow>
           (case number lims ''included_ai_allowance_irr'' of Some q \<Rightarrow> q | None \<Rightarrow>
             (case number lims ''ai_credits_per_month'' of Some q \<Rightarrow> q | None \<Rightarrow> 0))))"

section \<open>The snapshot\<close>

datatype effective_source = From_override | From_plan | From_default

record effective_flag =
  ef_value :: bool
  ef_source :: effective_source
  ef_note :: "string option"

record limit_entry =
  el_value :: "rat option"
  el_source :: effective_source
  el_unit :: "string option"
  el_note :: "string option"

record effective_entitlements =
  en_features :: "(string \<times> effective_flag) list"
  en_modules :: "(string \<times> effective_flag) list"
  en_channels :: "(string \<times> effective_flag) list"
  en_limits :: "(string \<times> limit_entry) list"

definition TRUE_TEXTS :: "string list" where
  "TRUE_TEXTS = [''t'', ''true'', ''y'', ''yes'', ''on'', ''1'']"

definition plan_flag :: "jsval \<Rightarrow> bool" where
  "plan_flag v =
     (case v of
        JBool b \<Rightarrow> b
      | JNum n \<Rightarrow> n \<noteq> Fin 0
      | JStr s \<Rightarrow> js_lower (js_trim s) \<in> set TRUE_TEXTS
      | _ \<Rightarrow> False)"

text \<open>The last row of a key is the one kept; a row without a key is skipped.\<close>

definition override_map :: "(string option \<times> flag_override) list \<Rightarrow> string \<rightharpoonup> flag_override" where
  "override_map rows k = map_of (rev (map (\<lambda>(k, r). (the k, r)) (filter (\<lambda>(k, _). present k) rows))) k"

definition limit_override :: "(string \<times> int \<times> string option) list \<Rightarrow> string \<Rightarrow> (int \<times> string option) option" where
  "limit_override rows k = map_of (rev rows) k"

definition LEGACY_LIMIT_ALIASES :: "(string \<times> string list) list" where
  "LEGACY_LIMIT_ALIASES =
     [(''max_kb_articles'', [''ai_kb_max_articles'', ''kb_articles'']),
      (''ai_agent_web_source_max_pages'', [''ai_kb_max_pages'']),
      (''ai_agent_web_source_max_depth'', [''ai_kb_max_depth'']),
      (''ai_agent_web_source_jobs_per_month'', [''ai_kb_jobs_per_month''])]"

definition limit_keys :: "string \<Rightarrow> string list" where
  "limit_keys k = k # (case map_of LEGACY_LIMIT_ALIASES k of None \<Rightarrow> [] | Some ks \<Rightarrow> ks)"

definition default_limit :: "capability \<Rightarrow> rat option" where
  "default_limit c = (case cap_default c of JNum n \<Rightarrow> num_value n | _ \<Rightarrow> None)"

definition first_number :: "(string \<times> jsval) list \<Rightarrow> string list \<Rightarrow> rat option" where
  "first_number lims ks =
     (case List.find (\<lambda>v. v \<noteq> None) (map (\<lambda>k. finite_number (json_prop lims k)) ks) of Some v \<Rightarrow> v | None \<Rightarrow> None)"

definition resolve_limit ::
    "capability \<Rightarrow> (string \<times> jsval) list \<Rightarrow> (string \<times> int \<times> string option) list \<Rightarrow> limit_entry" where
  "resolve_limit c lims overrides =
     (case limit_override overrides (cap_key c) of
        Some (v, note) \<Rightarrow> \<lparr>el_value = Some (of_int v), el_source = From_override, el_unit = cap_unit c, el_note = note\<rparr>
      | None \<Rightarrow>
          (case (if cap_key c = STORAGE_LIMIT_KEY then storage_limit_mb (Some lims) else None) of
             Some mb \<Rightarrow> \<lparr>el_value = Some mb, el_source = From_plan, el_unit = cap_unit c, el_note = None\<rparr>
           | None \<Rightarrow>
               (case first_number lims (limit_keys (cap_key c)) of
                  Some q \<Rightarrow> \<lparr>el_value = Some q, el_source = From_plan, el_unit = cap_unit c, el_note = None\<rparr>
                | None \<Rightarrow> \<lparr>el_value = default_limit c, el_source = From_default, el_unit = cap_unit c, el_note = None\<rparr>)))"

definition resolve_effective_limit ::
    "((string \<times> jsval) list \<times> (string \<times> int \<times> string option) list) option \<Rightarrow> string \<Rightarrow> rat option" where
  "resolve_effective_limit info k =
     (case get_capability k of
        None \<Rightarrow> None
      | Some c \<Rightarrow>
          if cap_type c \<noteq> Limit_cap then None
          else (case info of
                  None \<Rightarrow> el_value (resolve_limit c [] [])
                | Some (lims, overrides) \<Rightarrow> el_value (resolve_limit c lims overrides)))"

definition snapshot_flag :: "(string \<times> jsval) list \<Rightarrow> capability \<Rightarrow> flag_override option \<Rightarrow> effective_flag" where
  "snapshot_flag ents c override =
     (case override of
        Some r \<Rightarrow> \<lparr>ef_value = fo_enabled r, ef_source = From_override, ef_note = fo_note r\<rparr>
      | None \<Rightarrow>
          if has_prop (JObj ents) (cap_key c)
          then \<lparr>ef_value = plan_flag (json_prop ents (cap_key c)), ef_source = From_plan, ef_note = None\<rparr>
          else \<lparr>ef_value = (cap_default c = JBool True), ef_source = From_default, ef_note = None\<rparr>)"

definition snapshot_entry ::
    "plan_info \<Rightarrow> (string option \<times> flag_override) list \<Rightarrow> (string option \<times> flag_override) list \<Rightarrow> capability
     \<Rightarrow> effective_entitlements \<Rightarrow> effective_entitlements" where
  "snapshot_entry i mods chans c s =
     (let k = cap_key c; ents = plan_entitlements_of i
      in case cap_type c of
           Feature_cap \<Rightarrow> s\<lparr>en_features := AList.update k (snapshot_flag ents c None) (en_features s)\<rparr>
         | Module_cap \<Rightarrow> s\<lparr>en_modules := AList.update k (snapshot_flag ents c (override_map mods k)) (en_modules s)\<rparr>
         | Channel_cap \<Rightarrow> s\<lparr>en_channels := AList.update k (snapshot_flag ents c (override_map chans k)) (en_channels s)\<rparr>
         | Limit_cap \<Rightarrow> s\<lparr>en_limits := AList.update k (resolve_limit c (plan_limits_of i) (pi_overrides i)) (en_limits s)\<rparr>)"

definition empty_entitlements :: effective_entitlements where
  "empty_entitlements = \<lparr>en_features = [], en_modules = [], en_channels = [], en_limits = []\<rparr>"

definition resolve_effective_entitlements ::
    "plan_info \<Rightarrow> (string option \<times> flag_override) list \<Rightarrow> (string option \<times> flag_override) list \<Rightarrow> effective_entitlements" where
  "resolve_effective_entitlements i mods chans = fold (snapshot_entry i mods chans) CAPABILITY_REGISTRY empty_entitlements"

definition unlimited_entry :: "capability \<Rightarrow> effective_entitlements \<Rightarrow> effective_entitlements" where
  "unlimited_entry c s =
     (let k = cap_key c; on = \<lparr>ef_value = True, ef_source = From_default, ef_note = None\<rparr>
      in case cap_type c of
           Feature_cap \<Rightarrow> s\<lparr>en_features := AList.update k on (en_features s)\<rparr>
         | Module_cap \<Rightarrow> s\<lparr>en_modules := AList.update k on (en_modules s)\<rparr>
         | Channel_cap \<Rightarrow> s\<lparr>en_channels := AList.update k on (en_channels s)\<rparr>
         | Limit_cap \<Rightarrow> s\<lparr>en_limits := AList.update k
             \<lparr>el_value = Some (- 1), el_source = From_default, el_unit = cap_unit c, el_note = None\<rparr> (en_limits s)\<rparr>)"

definition unlimited_entitlements :: effective_entitlements where
  "unlimited_entitlements = fold unlimited_entry CAPABILITY_REGISTRY empty_entitlements"

section \<open>Services that enforce a limit themselves\<close>

definition registry_limits :: "plan_info option \<Rightarrow> string list \<Rightarrow> (string \<times> rat) list" where
  "registry_limits info ks =
     map (\<lambda>k. (k, case resolve_effective_limit (map_option (\<lambda>i. (plan_limits_of i, pi_overrides i)) info) k of
                    Some q \<Rightarrow> q | None \<Rightarrow> 0)) ks"

definition service_plan_slug :: "plan_info option \<Rightarrow> string" where
  "service_plan_slug info = (case info of None \<Rightarrow> ''free'' | Some i \<Rightarrow> if pl_slug (pi_plan i) = [] then ''free'' else pl_slug (pi_plan i))"

definition unregistered_limits ::
    "plan_info option \<Rightarrow> (string \<times> (string \<times> rat) list) list \<Rightarrow> (string \<times> rat) list \<Rightarrow> (string \<times> rat) list" where
  "unregistered_limits info fallbacks free =
     (let fallback = (case map_of fallbacks (service_plan_slug info) of Some f \<Rightarrow> f | None \<Rightarrow> free);
          values = (case info of None \<Rightarrow> [] | Some i \<Rightarrow> merged_limits i)
      in map (\<lambda>(k, q). (k, case finite_number (json_prop values k) of Some v \<Rightarrow> v | None \<Rightarrow> q)) fallback)"


section \<open>Reading the snapshot\<close>

lemma snapshot_keeps:
  "k \<notin> cap_key ` set cs \<Longrightarrow>
     map_of (en_features (fold (snapshot_entry i mods chans) cs s)) k = map_of (en_features s) k
   \<and> map_of (en_modules (fold (snapshot_entry i mods chans) cs s)) k = map_of (en_modules s) k
   \<and> map_of (en_channels (fold (snapshot_entry i mods chans) cs s)) k = map_of (en_channels s) k
   \<and> map_of (en_limits (fold (snapshot_entry i mods chans) cs s)) k = map_of (en_limits s) k"
proof (induction cs arbitrary: s)
  case (Cons c cs)
  have "k \<noteq> cap_key c" "k \<notin> cap_key ` set cs" using Cons.prems by auto
  thus ?case using Cons.IH [of "snapshot_entry i mods chans c s"]
    by (cases "cap_type c") (simp_all add: snapshot_entry_def Let_def update_conv')
qed simp

definition entry_shown :: "plan_info \<Rightarrow> (string option \<times> flag_override) list \<Rightarrow> (string option \<times> flag_override) list
    \<Rightarrow> capability \<Rightarrow> effective_entitlements \<Rightarrow> bool" where
  "entry_shown i mods chans c s \<longleftrightarrow>
     (let k = cap_key c; ents = plan_entitlements_of i
      in case cap_type c of
           Feature_cap \<Rightarrow> map_of (en_features s) k = Some (snapshot_flag ents c None)
         | Module_cap \<Rightarrow> map_of (en_modules s) k = Some (snapshot_flag ents c (override_map mods k))
         | Channel_cap \<Rightarrow> map_of (en_channels s) k = Some (snapshot_flag ents c (override_map chans k))
         | Limit_cap \<Rightarrow> map_of (en_limits s) k = Some (resolve_limit c (plan_limits_of i) (pi_overrides i)))"

lemma entry_shown_step: "entry_shown i mods chans c (snapshot_entry i mods chans c s)"
  by (cases "cap_type c") (simp_all add: entry_shown_def snapshot_entry_def Let_def update_conv')

lemma entry_shown_keep:
  "cap_key c \<notin> cap_key ` set cs \<Longrightarrow> entry_shown i mods chans c s
     \<Longrightarrow> entry_shown i mods chans c (fold (snapshot_entry i mods chans) cs s)"
  by (cases "cap_type c") (simp_all add: entry_shown_def Let_def snapshot_keeps)

lemma snapshot_entries:
  "distinct (map cap_key cs) \<Longrightarrow> c \<in> set cs \<Longrightarrow> entry_shown i mods chans c (fold (snapshot_entry i mods chans) cs s)"
proof (induction cs arbitrary: s)
  case (Cons x cs)
  show ?case
  proof (cases "c = x")
    case True
    have "cap_key x \<notin> cap_key ` set cs" using Cons.prems by simp
    thus ?thesis using True entry_shown_keep entry_shown_step by simp
  next
    case False
    thus ?thesis using Cons by simp
  qed
qed simp

lemma snapshot_shows:
  "c \<in> set CAPABILITY_REGISTRY \<Longrightarrow> entry_shown i mods chans c (resolve_effective_entitlements i mods chans)"
  unfolding resolve_effective_entitlements_def by (rule snapshot_entries [OF registry_keys_distinct])

text \<open>A service that enforces a registry limit itself resolves the number the snapshot shows.\<close>

lemma service_limit_shown:
  assumes "get_capability k = Some c" and "cap_type c = Limit_cap"
  shows "resolve_effective_limit (Some (plan_limits_of i, pi_overrides i)) k
       = el_value (the (map_of (en_limits (resolve_effective_entitlements i mods chans)) k))"
  using get_capability_in_registry [OF assms(1)] snapshot_shows [of c i mods chans] assms
  by (auto simp: entry_shown_def Let_def resolve_effective_limit_def)

end
