(* ===== verification/Failover_Engine.thy ===== *)
theory Failover_Engine
  imports Realtime_Control Calendar
begin

text \<open>
  The realtime failover engine: how each provider's health is scored
  (\<open>server/services/realtime/failoverHealth.ts\<close>), how the next state is decided
  (\<open>failoverEngine.ts\<close>), and what of the state is persisted (\<open>failoverState.ts\<close>). The probe of
  the message server and the monitoring counters are arguments. A health signal's reason is the kind
  of its text. A run of the engine is a sequence of evaluations at given times.
\<close>

section \<open>Health\<close>

datatype health_status = Healthy | Degraded | Unhealthy | Unknown

datatype health_reason =
    Insufficient_samples | Error_rate_over_double | Latency_over_double | Error_rate_over
  | Latency_over | Within_thresholds | Not_configured | Probe_down string | Last_resort
  | Probe_degraded health_reason string

record health_signal =
  signal_provider :: provider_id
  signal_status :: health_status
  signal_error_rate :: "rat option"
  signal_p95 :: "rat option"
  signal_samples :: rat
  signal_reason :: health_reason
  signal_checked_at :: int

record health_snapshot =
  window_seconds :: rat
  evaluated_at :: int
  signals :: "provider_id \<Rightarrow> health_signal"

definition REALTIME_ERROR_METRICS :: "string list" where
  "REALTIME_ERROR_METRICS =
     [''realtime.subscribe_failed'', ''realtime.token_refresh_failed'', ''realtime.channel_ownership_reject'']"

definition REALTIME_TOTAL_METRICS :: "string list" where
  "REALTIME_TOTAL_METRICS =
     [''realtime.subscribe_failed'', ''realtime.token_refresh_failed'', ''realtime.channel_ownership_reject'',
      ''realtime.token_minted'', ''realtime.reconnect_attempt'']"

definition MIN_SAMPLE :: rat where
  "MIN_SAMPLE = 20"

definition classify ::
  "rat option \<Rightarrow> rat option \<Rightarrow> rat \<Rightarrow> control_plane \<Rightarrow> health_status \<times> health_reason" where
  "classify error_rate p95 sample policy =
     (let over = (\<lambda>x limit. case x of None \<Rightarrow> False | Some v \<Rightarrow> limit \<le> (v :: rat))
      in if sample < MIN_SAMPLE \<and> error_rate = None \<and> p95 = None then (Unknown, Insufficient_samples)
         else if over error_rate (error_threshold policy * 2) then (Unhealthy, Error_rate_over_double)
         else if over p95 (latency_threshold_ms policy * 2) then (Unhealthy, Latency_over_double)
         else if over error_rate (error_threshold policy) then (Degraded, Error_rate_over)
         else if over p95 (latency_threshold_ms policy) then (Degraded, Latency_over)
         else (Healthy, Within_thresholds))"

text \<open>The counters of a window; a collector that throws counts as no sample.\<close>

definition metric_rates :: "(string \<Rightarrow> nat) option \<Rightarrow> nat \<times> nat" where
  "metric_rates counts =
     (case counts of
        None \<Rightarrow> (0, 0)
      | Some n \<Rightarrow> (sum_list (map n (filter (\<lambda>m. m \<in> set REALTIME_ERROR_METRICS) REALTIME_TOTAL_METRICS)),
                  sum_list (map n REALTIME_TOTAL_METRICS)))"

datatype probe_status = Probe_healthy | Probe_degraded_status | Probe_down_status | Probe_unknown

datatype probe = No_driver | Probe probe_status string | Probe_failed string

record measurements =
  counts_of :: "provider_id \<Rightarrow> (string \<Rightarrow> nat) option"
  perf_p95 :: "rat option"
  perf_samples :: rat

definition down_signal :: "provider_id \<Rightarrow> health_reason \<Rightarrow> int \<Rightarrow> health_signal" where
  "down_signal p reason t =
     \<lparr>signal_provider = p, signal_status = Unhealthy, signal_error_rate = None, signal_p95 = None,
      signal_samples = 0, signal_reason = reason, signal_checked_at = t\<rparr>"

definition measured_signal ::
  "provider_id \<Rightarrow> measurements \<Rightarrow> control_plane \<Rightarrow> int \<Rightarrow> health_signal" where
  "measured_signal p m policy t =
     (let (errors, total) = metric_rates (counts_of m p);
          error_rate = (if 0 < total then Some (of_nat errors / of_nat total) else None);
          samples = max (of_nat total) (perf_samples m);
          (status, reason) = classify error_rate (perf_p95 m) samples policy
      in \<lparr>signal_provider = p, signal_status = status, signal_error_rate = error_rate,
          signal_p95 = perf_p95 m, signal_samples = samples, signal_reason = reason,
          signal_checked_at = t\<rparr>)"

definition evaluate_centrifugo ::
  "probe \<Rightarrow> measurements \<Rightarrow> control_plane \<Rightarrow> int \<Rightarrow> health_signal" where
  "evaluate_centrifugo pr m policy t =
     (let judge = measured_signal Centrifugo m policy t in
      case pr of
        No_driver \<Rightarrow> down_signal Centrifugo Not_configured t
      | Probe_failed msg \<Rightarrow> down_signal Centrifugo (Probe_down msg) t
      | Probe Probe_down_status msg \<Rightarrow> down_signal Centrifugo (Probe_down msg) t
      | Probe Probe_degraded_status msg \<Rightarrow>
          judge\<lparr>signal_status := (if signal_status judge = Healthy then Degraded else signal_status judge),
                signal_reason := Probe_degraded (signal_reason judge) msg\<rparr>
      | Probe _ msg \<Rightarrow> judge)"

definition evaluate_supabase ::
  "bool \<Rightarrow> measurements \<Rightarrow> control_plane \<Rightarrow> int \<Rightarrow> health_signal" where
  "evaluate_supabase available m policy t =
     (if \<not> available then down_signal Supabase_realtime Not_configured t
      else measured_signal Supabase_realtime m policy t)"

definition evaluate_polling :: "int \<Rightarrow> health_signal" where
  "evaluate_polling t =
     \<lparr>signal_provider = Polling_builtin, signal_status = Healthy, signal_error_rate = None,
      signal_p95 = None, signal_samples = 0, signal_reason = Last_resort, signal_checked_at = t\<rparr>"

definition evaluate_provider_health ::
  "probe \<Rightarrow> bool \<Rightarrow> measurements \<Rightarrow> control_plane \<Rightarrow> int \<Rightarrow> health_snapshot" where
  "evaluate_provider_health pr available m policy t =
     \<lparr>window_seconds = max 30 (health_window_seconds policy), evaluated_at = t,
      signals = (\<lambda>p. case p of
          Centrifugo \<Rightarrow> evaluate_centrifugo pr m policy t
        | Supabase_realtime \<Rightarrow> evaluate_supabase available m policy t
        | Polling_builtin \<Rightarrow> evaluate_polling t)\<rparr>"

section \<open>The decision\<close>

record failover_state =
  effective_provider :: provider_id
  last_failover_at :: "isotext option"
  last_failover_reason :: "string option"
  recovery_provider :: "provider_id option"
  recovery_since :: "isotext option"
  failback_eligible_at :: "isotext option"
  cooldown_until :: "isotext option"
  last_health :: "provider_id \<Rightarrow> health_signal option"
  last_evaluated_at :: "isotext option"

datatype transition_kind = Failover | Failback | Last_resort_taken | Lock_applied | Lock_cleared

record failover_transition =
  kind :: transition_kind
  from_provider :: provider_id
  to_provider :: provider_id

type_synonym decision = "failover_state \<times> failover_transition option"

definition is_usable :: "health_status \<Rightarrow> bool" where
  "is_usable s \<longleftrightarrow> s \<noteq> Unhealthy"

text \<open>A provider that needs a real probe is not usable while its health is unknown.\<close>

definition PROVIDERS_REQUIRING_PROBE :: "provider_id set" where
  "PROVIDERS_REQUIRING_PROBE = {Centrifugo}"

definition pickable :: "(provider_id \<Rightarrow> health_signal) \<Rightarrow> provider_id \<Rightarrow> bool" where
  "pickable health p \<longleftrightarrow>
     \<not> (p \<in> PROVIDERS_REQUIRING_PROBE \<and> signal_status (health p) = Unknown)
     \<and> is_usable (signal_status (health p))"

definition pick_first_usable ::
  "provider_id list \<Rightarrow> (provider_id \<Rightarrow> health_signal) \<Rightarrow> provider_id \<times> bool" where
  "pick_first_usable order health =
     (case List.find (pickable health) order of
        Some p \<Rightarrow> (p, False)
      | None \<Rightarrow> (Polling_builtin, True))"

definition index_of :: "provider_id list \<Rightarrow> provider_id \<Rightarrow> int" where
  "index_of order p =
     (if p \<in> set order then int (length (takeWhile (\<lambda>x. x \<noteq> p) order)) else max_safe_integer)"

definition clear_recovery :: "failover_state \<Rightarrow> failover_state" where
  "clear_recovery s = s\<lparr>recovery_provider := None, recovery_since := None, failback_eligible_at := None\<rparr>"

text \<open>\<open>new Date(ms)\<close> drops a fraction of a millisecond.\<close>

definition iso_of :: "rat \<Rightarrow> isotext" where
  "iso_of ms = Iso (js_trunc ms)"

definition switch_to ::
  "failover_state \<Rightarrow> provider_id \<Rightarrow> int \<Rightarrow> string \<Rightarrow> isotext option \<Rightarrow> transition_kind \<Rightarrow> decision" where
  "switch_to s p t reason cooldown k =
     ((clear_recovery s)\<lparr>effective_provider := p, last_failover_at := Some (Iso t),
        last_failover_reason := Some reason, cooldown_until := cooldown\<rparr>,
      Some \<lparr>kind = k, from_provider = effective_provider s, to_provider = p\<rparr>)"

definition cooldown_end :: "control_plane \<Rightarrow> int \<Rightarrow> isotext option" where
  "cooldown_end policy t = Some (iso_of (of_int t + cooldown_seconds policy * 1000))"

definition cooling_down :: "failover_state \<Rightarrow> int \<Rightarrow> bool" where
  "cooling_down s t = (case parse_iso_opt (cooldown_until s) of None \<Rightarrow> False | Some u \<Rightarrow> t < u)"

definition decide_lock :: "provider_id \<Rightarrow> failover_state \<Rightarrow> failover_state \<Rightarrow> int \<Rightarrow> decision" where
  "decide_lock locked prev base t =
     (if effective_provider prev \<noteq> locked
      then switch_to base locked t (''lock_applied:'' @ provider_text locked) None Lock_applied
      else (clear_recovery base, None))"

definition decide_disabled ::
  "control_plane \<Rightarrow> (provider_id \<Rightarrow> health_signal) \<Rightarrow> failover_state \<Rightarrow> failover_state \<Rightarrow> int \<Rightarrow> decision" where
  "decide_disabled policy health prev base t =
     (let desired = (case provider_order policy of [] \<Rightarrow> Centrifugo | p # _ \<Rightarrow> p)
      in if effective_provider prev \<noteq> desired \<and> is_usable (signal_status (health desired))
         then switch_to base desired t ''failover_disabled_realigned'' None Lock_cleared
         else (base, None))"

text \<open>The recovery timer: an unreadable start makes \<open>toISOString\<close> throw, which is \<open>None\<close>.\<close>

definition decide_failback ::
  "control_plane \<Rightarrow> provider_id \<Rightarrow> failover_state \<Rightarrow> failover_state \<Rightarrow> int \<Rightarrow> decision option" where
  "decide_failback policy candidate prev base t =
     (if \<not> failback_enabled policy then Some (base, None)
      else
        let window = stable_window_seconds policy * 1000 in
        case (if recovery_provider prev = Some candidate then recovery_since prev else None) of
          Some since \<Rightarrow>
            (case parse_iso since of
               None \<Rightarrow> None
             | Some s \<Rightarrow>
                 if of_int s + window \<le> of_int t
                 then Some (switch_to base candidate t (''failback_to:'' @ provider_text candidate)
                              (cooldown_end policy t) Failback)
                 else Some (base\<lparr>failback_eligible_at := Some (iso_of (of_int s + window))\<rparr>, None))
        | None \<Rightarrow>
            Some (base\<lparr>recovery_provider := Some candidate, recovery_since := Some (Iso t),
                    failback_eligible_at := Some (iso_of (of_int t + window))\<rparr>, None))"

definition decide_automatic ::
  "control_plane \<Rightarrow> (provider_id \<Rightarrow> health_signal) \<Rightarrow> failover_state \<Rightarrow> failover_state \<Rightarrow> int \<Rightarrow> decision option" where
  "decide_automatic policy health prev base t =
     (let order = provider_order policy;
          (pick, last_resort) = pick_first_usable order health;
          current = effective_provider prev
      in if pick = current then Some (clear_recovery base, None)
         else if index_of order current < index_of order pick then
           (if cooling_down prev t
            then Some (base\<lparr>recovery_provider := None, recovery_since := None\<rparr>, None)
            else Some (switch_to base pick t
                         (if last_resort then ''all_providers_unhealthy_last_resort''
                          else ''primary_unhealthy:'' @ provider_text current)
                         (cooldown_end policy t) (if last_resort then Last_resort_taken else Failover)))
         else decide_failback policy pick prev base t)"

definition decide_failover ::
  "control_plane \<Rightarrow> (provider_id \<Rightarrow> health_signal) \<Rightarrow> failover_state \<Rightarrow> int \<Rightarrow> decision option" where
  "decide_failover policy health prev t =
     (let base = prev\<lparr>last_health := (\<lambda>p. Some (health p)), last_evaluated_at := Some (Iso t)\<rparr>
      in case provider_lock policy of
           Some locked \<Rightarrow> Some (decide_lock locked prev base t)
         | None \<Rightarrow>
             if \<not> failover_enabled policy then Some (decide_disabled policy health prev base t)
             else decide_automatic policy health prev base t)"

section \<open>Persisted state\<close>

record state_row =
  row_effective :: jsval
  row_failover_at :: "isotext option"
  row_failover_reason :: "string option"
  row_recovery :: jsval
  row_recovery_since :: "isotext option"
  row_eligible_at :: "isotext option"
  row_cooldown :: "isotext option"
  row_health :: "provider_id \<Rightarrow> health_signal option"
  row_evaluated_at :: "isotext option"

definition FALLBACK_STATE :: failover_state where
  "FALLBACK_STATE =
     \<lparr>effective_provider = Centrifugo, last_failover_at = None, last_failover_reason = None,
      recovery_provider = None, recovery_since = None, failback_eligible_at = None,
      cooldown_until = None, last_health = (\<lambda>_. None), last_evaluated_at = None\<rparr>"

definition normalize_state :: "state_row option \<Rightarrow> failover_state" where
  "normalize_state row =
     (case row of
        None \<Rightarrow> FALLBACK_STATE
      | Some r \<Rightarrow>
          \<lparr>effective_provider = (case provider_of (row_effective r) of Some p \<Rightarrow> p | None \<Rightarrow> Centrifugo),
           last_failover_at = row_failover_at r, last_failover_reason = row_failover_reason r,
           recovery_provider = provider_of (row_recovery r), recovery_since = row_recovery_since r,
           failback_eligible_at = row_eligible_at r, cooldown_until = row_cooldown r,
           last_health = row_health r, last_evaluated_at = row_evaluated_at r\<rparr>)"

definition HEARTBEAT_PERSIST_MS :: int where
  "HEARTBEAT_PERSIST_MS = 15 * 60 * 1000"

text \<open>
  The statuses in the fixed order of the providers' names, then every field that matters. The code
  joins these parts with a bar, which none of them contains.
\<close>

definition health_status_signature ::
  "(provider_id \<Rightarrow> health_signal option) \<Rightarrow> (provider_id \<times> health_status) list" where
  "health_status_signature health =
     List.map_filter (\<lambda>p. map_option (\<lambda>s. (p, signal_status s)) (health p))
       [Centrifugo, Polling_builtin, Supabase_realtime]"

type_synonym signature =
  "provider_id \<times> isotext option \<times> string option \<times> provider_id option \<times> isotext option
   \<times> isotext option \<times> isotext option \<times> (provider_id \<times> health_status) list"

definition material_signature :: "failover_state \<Rightarrow> signature" where
  "material_signature s =
     (effective_provider s, last_failover_at s, last_failover_reason s, recovery_provider s,
      recovery_since s, failback_eligible_at s, cooldown_until s,
      health_status_signature (last_health s))"

definition needs_failover_persist :: "failover_state \<Rightarrow> failover_state \<Rightarrow> int \<Rightarrow> bool" where
  "needs_failover_persist stored next t =
     (if material_signature next \<noteq> material_signature stored then True
      else (case parse_iso_opt (last_evaluated_at stored) of
              None \<Rightarrow> True
            | Some evaluated \<Rightarrow> HEARTBEAT_PERSIST_MS \<le> t - evaluated))"

record persistence =
  persisted_at :: int
  persisted_signature :: "signature option"
  database_row :: failover_state
  cached_state :: failover_state

text \<open>The write of the merged state; \<open>None\<close> when the database refused it.\<close>

definition save_failover_state ::
  "persistence \<Rightarrow> failover_state \<Rightarrow> bool \<Rightarrow> int \<Rightarrow> bool \<Rightarrow> persistence option" where
  "save_failover_state ps merged force t write_ok =
     (let signature = material_signature merged;
          unchanged = (persisted_signature ps = Some signature);
          heartbeat_due = (HEARTBEAT_PERSIST_MS \<le> t - persisted_at ps)
      in if \<not> force \<and> unchanged \<and> \<not> heartbeat_due then Some (ps\<lparr>cached_state := merged\<rparr>)
         else if \<not> write_ok then None
         else Some (ps\<lparr>database_row := merged, persisted_at := t,
                       persisted_signature := Some signature, cached_state := merged\<rparr>))"

text \<open>The cached signature is that of the row.\<close>

definition row_current :: "persistence \<Rightarrow> bool" where
  "row_current ps \<longleftrightarrow>
     (case persisted_signature ps of None \<Rightarrow> True | Some g \<Rightarrow> material_signature (database_row ps) = g)"

lemma parse_iso_opt_some: "parse_iso_opt x = Some u \<longleftrightarrow> x = Some (Iso u)"
  by (cases x rule: option.exhaust; simp add: parse_iso_opt_def split: isotext.splits)

lemma health_status_signature_inj:
  assumes "health_status_signature a = health_status_signature b"
  shows "map_option signal_status (a p) = map_option signal_status (b p)"
proof -
  have "map_of (health_status_signature h) p = map_option signal_status (h p)" for h
    by (cases p) (auto simp: health_status_signature_def List.map_filter_simps split: option.splits)
  then show ?thesis using assms by metis
qed

section \<open>One evaluation\<close>

lemma js_trunc_bounds: "x - 1 < of_int (js_trunc x) \<and> of_int (js_trunc x) < x + 1"
  by (cases "x < 0") (simp_all add: js_trunc_def, linarith+)

lemma switch_to_fields [realtime_simps]:
  "effective_provider (fst (switch_to s p t r c k)) = p"
  "cooldown_until (fst (switch_to s p t r c k)) = c"
  "recovery_provider (fst (switch_to s p t r c k)) = None"
  "recovery_since (fst (switch_to s p t r c k)) = None"
  "snd (switch_to s p t r c k) = Some \<lparr>kind = k, from_provider = effective_provider s, to_provider = p\<rparr>"
  by (simp_all add: switch_to_def clear_recovery_def)

lemma clear_recovery_fields [realtime_simps]:
  "effective_provider (clear_recovery s) = effective_provider s"
  "cooldown_until (clear_recovery s) = cooldown_until s"
  "recovery_provider (clear_recovery s) = None"
  "recovery_since (clear_recovery s) = None"
  by (simp_all add: clear_recovery_def)

text \<open>The automatic mode: no lock, failover on.\<close>

definition automatic :: "control_plane \<Rightarrow> bool" where
  "automatic policy \<longleftrightarrow> provider_lock policy = None \<and> failover_enabled policy"

definition pick_of :: "control_plane \<Rightarrow> (provider_id \<Rightarrow> health_signal) \<Rightarrow> provider_id" where
  "pick_of policy health = fst (pick_first_usable (provider_order policy) health)"

text \<open>The five outcomes of an automatic evaluation.\<close>

lemma decide_automatic_cases [consumes 2, case_names stay wait down off warm begin_timer fail_back]:
  assumes "automatic policy" and "decide_failover policy h s t = Some (s', tr)"
  obtains (stay) "pick_of policy h = effective_provider s" "tr = None"
      "recovery_provider s' = None" "cooldown_until s' = cooldown_until s"
      "effective_provider s' = effective_provider s"
    | (wait) "cooling_down s t" "tr = None"
      "recovery_provider s' = None" "cooldown_until s' = cooldown_until s"
      "effective_provider s' = effective_provider s"
      "index_of (provider_order policy) (effective_provider s) < index_of (provider_order policy) (pick_of policy h)"
    | (down) k where "\<not> cooling_down s t"
      "tr = Some \<lparr>kind = k, from_provider = effective_provider s, to_provider = pick_of policy h\<rparr>"
      "k = Failover \<or> k = Last_resort_taken" "recovery_provider s' = None"
      "cooldown_until s' = cooldown_end policy t" "effective_provider s' = pick_of policy h"
      "index_of (provider_order policy) (effective_provider s) < index_of (provider_order policy) (pick_of policy h)"
    | (off) "\<not> failback_enabled policy" "tr = None" "cooldown_until s' = cooldown_until s"
      "effective_provider s' = effective_provider s" "pick_of policy h \<noteq> effective_provider s"
    | (warm) "failback_enabled policy" "tr = None" "cooldown_until s' = cooldown_until s"
      "effective_provider s' = effective_provider s"
      "recovery_provider s = Some (pick_of policy h)" "recovery_since s \<noteq> None"
      "recovery_provider s' = recovery_provider s" "recovery_since s' = recovery_since s"
    | (begin_timer) "failback_enabled policy" "tr = None" "cooldown_until s' = cooldown_until s"
      "effective_provider s' = effective_provider s"
      "recovery_provider s' = Some (pick_of policy h)" "recovery_since s' = Some (Iso t)"
    | (fail_back) since where "failback_enabled policy"
      "tr = Some \<lparr>kind = Failback, from_provider = effective_provider s, to_provider = pick_of policy h\<rparr>"
      "recovery_provider s = Some (pick_of policy h)" "recovery_since s = Some (Iso since)"
      "of_int since + stable_window_seconds policy * 1000 \<le> of_int t"
      "recovery_provider s' = None" "cooldown_until s' = cooldown_end policy t"
      "effective_provider s' = pick_of policy h"
proof -
  let ?base = "s\<lparr>last_health := (\<lambda>p. Some (h p)), last_evaluated_at := Some (Iso t)\<rparr>"
  let ?order = "provider_order policy" and ?cur = "effective_provider s"
  obtain pick lr where p: "pick_first_usable ?order h = (pick, lr)" by fastforce
  then have pk: "pick_of policy h = pick" by (simp add: pick_of_def)
  have d: "decide_automatic policy h s ?base t = Some (s', tr)"
    using assms by (simp add: decide_failover_def automatic_def)
  show thesis
  proof (cases "pick = ?cur")
    case True
    then show thesis
      using d p pk by (intro stay) (auto simp: decide_automatic_def Let_def realtime_simps)
  next
    case ne: False
    show thesis
    proof (cases "index_of ?order ?cur < index_of ?order pick")
      case True
      show thesis
      proof (cases "cooling_down s t")
        case c: True
        then show thesis
          using d p pk ne True by (intro wait) (auto simp: decide_automatic_def Let_def)
      next
        case c: False
        obtain k r where "switch_to ?base pick t r (cooldown_end policy t) k = (s', tr)"
          and "k = Failover \<or> k = Last_resort_taken"
          using d p ne True c by (cases lr) (auto simp: decide_automatic_def Let_def)
        then show thesis
          using pk True c by (intro down [of k]) (auto simp: switch_to_def clear_recovery_def)
      qed
    next
      case False
      then have f: "decide_failback policy pick s ?base t = Some (s', tr)"
        using d p ne by (simp add: decide_automatic_def Let_def)
      show thesis
      proof (cases "failback_enabled policy")
        case False
        then show thesis
          using f pk ne by (intro off) (auto simp: decide_failback_def)
      next
        case on: True
        show thesis
        proof (cases "recovery_provider s = Some pick \<and> recovery_since s \<noteq> None")
          case False
          then show thesis
            using f on pk by (intro begin_timer) (auto simp: decide_failback_def Let_def split: if_splits)
        next
          case True
          then obtain x where x: "recovery_since s = Some x" by auto
          then obtain u where u: "x = Iso u"
            using f on True by (cases x) (auto simp: decide_failback_def Let_def)
          show thesis
          proof (cases "of_int u + stable_window_seconds policy * 1000 \<le> (of_int t :: rat)")
            case w: True
            then show thesis
              using f on pk True x u
              by (intro fail_back [of u]) (auto simp: decide_failback_def Let_def switch_to_def clear_recovery_def)
          next
            case w: False
            then show thesis
              using f on pk True x u by (intro warm) (auto simp: decide_failback_def Let_def)
          qed
        qed
      qed
    qed
  qed
qed

section \<open>Runs\<close>

record event =
  event_time :: int
  event_health :: "provider_id \<Rightarrow> health_signal"
  event_transition :: "failover_transition option"

inductive engine_run :: "control_plane \<Rightarrow> failover_state \<Rightarrow> event list \<Rightarrow> failover_state \<Rightarrow> bool"
  for policy s0 where
  start: "engine_run policy s0 [] s0"
| tick: "engine_run policy s0 evs s \<Longrightarrow> \<forall>e\<in>set evs. event_time e \<le> t
    \<Longrightarrow> decide_failover policy h s t = Some (s', tr)
    \<Longrightarrow> engine_run policy s0 (evs @ [\<lparr>event_time = t, event_health = h, event_transition = tr\<rparr>]) s'"

inductive_cases engine_run_snocE: "engine_run policy s0 (evs @ [e]) s"

text \<open>A run in which the settings may change between the evaluations: each event with the settings it was
  decided under.\<close>

inductive settings_run :: "failover_state \<Rightarrow> (control_plane \<times> event) list \<Rightarrow> failover_state \<Rightarrow> bool"
  for s0 where
  settings_start: "settings_run s0 [] s0"
| settings_tick: "settings_run s0 evs s \<Longrightarrow> \<forall>e\<in>set evs. event_time (snd e) \<le> t
    \<Longrightarrow> decide_failover policy h s t = Some (s', tr)
    \<Longrightarrow> settings_run s0 (evs @ [(policy, \<lparr>event_time = t, event_health = h, event_transition = tr\<rparr>)]) s'"

inductive_cases settings_run_snocE: "settings_run s0 (evs @ [e]) s"

lemma settings_run_last:
  assumes "settings_run s0 (evs @ [(p, e)]) s"
  obtains r where "settings_run s0 evs r" "\<forall>x\<in>set evs. event_time (snd x) \<le> event_time e"
    "decide_failover p (event_health e) r (event_time e) = Some (s, event_transition e)"
  using assms by (auto elim!: settings_run_snocE)

text \<open>While the automation is on, the cool-down runs from the newest switch.\<close>

lemma cooldown_after_switch:
  assumes "settings_run s0 (old @ evs) s" and "\<forall>(p, x)\<in>set evs. automatic p" and "pe \<in> set evs"
    and "event_transition (snd pe) \<noteq> None"
  shows "\<exists>(p, e')\<in>set evs. event_time (snd pe) \<le> event_time e' \<and> cooldown_until s = cooldown_end p (event_time e')"
  using assms
proof (induction evs arbitrary: s rule: rev_induct)
  case (snoc x evs)
  obtain p x' where x: "x = (p, x')" by (cases x)
  obtain r where run: "settings_run s0 (old @ evs) r"
    and d: "decide_failover p (event_health x') r (event_time x') = Some (s, event_transition x')"
    and t: "\<forall>e\<in>set (old @ evs). event_time (snd e) \<le> event_time x'"
    using settings_run_last [of s0 "old @ evs" p x' s] snoc.prems(1) x by auto
  have auto: "automatic p" using snoc.prems(2) x by auto
  show ?case
  proof (cases "event_transition x' = None")
    case True
    have "cooldown_until s = cooldown_until r"
      using auto d True by (cases rule: decide_automatic_cases) auto
    moreover have "pe \<in> set evs" using snoc.prems x True by auto
    ultimately show ?thesis using snoc.IH [OF run] snoc.prems by auto
  next
    case False
    have "cooldown_until s = cooldown_end p (event_time x')"
      using auto d False by (cases rule: decide_automatic_cases) auto
    moreover have "event_time (snd pe) \<le> event_time x'" using snoc.prems(3) t x by auto
    ultimately show ?thesis using x by (intro bexI [of _ x]) auto
  qed
qed simp

text \<open>While a recovery is tracked, every evaluation since its start picked that provider.\<close>

lemma recovery_tracked:
  assumes "engine_run policy s0 evs s" and "automatic policy" and "failback_enabled policy"
    and "recovery_provider s0 = None" and "recovery_provider s = Some p" and "recovery_since s = Some x"
  shows "\<exists>as b bs. evs = as @ b # bs \<and> x = Iso (event_time b)
    \<and> (\<forall>e\<in>set (b # bs). event_transition e = None \<and> pick_of policy (event_health e) = p)"
  using assms
proof (induction arbitrary: x rule: engine_run.induct)
  case (tick evs s t h s' tr)
  let ?e = "\<lparr>event_time = t, event_health = h, event_transition = tr\<rparr>"
  show ?case using tick.prems(1) tick.hyps(3)
  proof (cases rule: decide_automatic_cases)
    case warm
    then obtain as b bs where "evs = as @ b # bs" "x = Iso (event_time b)"
      "\<forall>e\<in>set (b # bs). event_transition e = None \<and> pick_of policy (event_health e) = p"
      using tick.IH tick.prems by fastforce
    then show ?thesis
      using warm tick.prems by (intro exI [of _ as] exI [of _ b] exI [of _ "bs @ [?e]"]) auto
  next
    case begin_timer
    then show ?thesis
      using tick.prems by (intro exI [of _ evs] exI [of _ ?e] exI [of _ "[]"]) auto
  qed (use tick.prems in auto)
qed simp

text \<open>Under a lock every evaluation leaves the locked provider in effect.\<close>

lemma decide_locked:
  assumes "provider_lock policy = Some p"
  obtains s' tr where "decide_failover policy h s t = Some (s', tr)" "effective_provider s' = p"
    "tr = None \<longleftrightarrow> effective_provider s = p" "recovery_provider s' = None"
  using assms by (cases "decide_lock p s (s\<lparr>last_health := (\<lambda>p. Some (h p)), last_evaluated_at := Some (Iso t)\<rparr>) t")
    (auto simp: decide_failover_def decide_lock_def switch_to_def clear_recovery_def split: if_splits)

lemma engine_run_two:
  assumes "decide_failover policy h s t = Some d" and "decide_failover policy h' (fst d) t' = Some d'"
    and "t \<le> t'"
  shows "engine_run policy s ([\<lparr>event_time = t, event_health = h, event_transition = snd d\<rparr>]
    @ [\<lparr>event_time = t', event_health = h', event_transition = snd d'\<rparr>]) (fst d')"
proof (rule engine_run.tick)
  show "engine_run policy s [\<lparr>event_time = t, event_health = h, event_transition = snd d\<rparr>] (fst d)"
    using engine_run.tick [OF engine_run.start, of t policy h s "fst d" "snd d"] assms(1) by simp
qed (use assms in auto)

text \<open>Concrete evaluations: every provider as given, under the default settings with the failover on.\<close>

definition example_policy :: control_plane where
  "example_policy = DEFAULT_CONTROL_PLANE\<lparr>failover_enabled := True\<rparr>"

definition example_health :: "provider_id set \<Rightarrow> provider_id \<Rightarrow> health_signal" where
  "example_health bad p =
     \<lparr>signal_provider = p, signal_status = (if p \<in> bad then Unhealthy else Healthy),
      signal_error_rate = None, signal_p95 = None, signal_samples = 0,
      signal_reason = Within_thresholds, signal_checked_at = 0\<rparr>"

lemma example_automatic [realtime_simps]: "automatic example_policy"
  "failback_enabled example_policy" "cooldown_seconds example_policy = 300"
  "stable_window_seconds example_policy = 600" "provider_lock example_policy = None"
  "provider_order example_policy = [Centrifugo, Supabase_realtime, Polling_builtin]"
  "failover_enabled example_policy"
  by (simp_all add: example_policy_def DEFAULT_CONTROL_PLANE_def automatic_def)

lemmas engine_eval =
  realtime_simps decide_failover_def decide_automatic_def decide_failback_def pick_first_usable_def
  pickable_def is_usable_def index_of_def switch_to_def clear_recovery_def cooldown_end_def
  cooling_down_def iso_of_def example_health_def PROVIDERS_REQUIRING_PROBE_def FALLBACK_STATE_def
  max_safe_integer_def js_trunc_def Let_def

section \<open>Properties\<close>

text \<open>C7: The automation does not flap. In a run whose settings may change, take a stretch of evaluations in
  all of which failover is on and no provider is locked: after a switch of any kind in the stretch, the engine
  does not fail over to a lower-priority provider or to the last resort at its end before the least cool-down
  configured in the stretch has passed (to the millisecond). A lock breaks the stretch, since applying it clears the cool-down.\<close>

theorem failover_respects_cooldown:
  assumes "settings_run s0 (old @ evs @ [(policy, e)]) s" and "\<forall>(p, x)\<in>set (evs @ [(policy, e)]). automatic p"
    and "(p1, e1) \<in> set evs" and "event_transition e1 \<noteq> None"
    and "\<forall>(p, x)\<in>set evs. least \<le> cooldown_seconds p"
    and "event_transition e = Some x" and "kind x = Failover \<or> kind x = Last_resort_taken"
  shows "of_int (event_time e1) + least * 1000 - 1 < (of_int (event_time e) :: rat)"
proof -
  obtain r where run: "settings_run s0 (old @ evs) r"
    and d: "decide_failover policy (event_health e) r (event_time e) = Some (s, event_transition e)"
    using settings_run_last [of s0 "old @ evs" policy e s] assms(1) by auto
  have auto: "automatic policy" "\<forall>(p, x)\<in>set evs. automatic p" using assms(2) by auto
  have cool: "\<not> cooling_down r (event_time e)"
    using auto(1) d by (cases rule: decide_automatic_cases) (use assms(6,7) in auto)
  obtain p2 and e2 :: event where e2: "(p2, e2) \<in> set evs" "event_time e1 \<le> event_time e2"
    "cooldown_until r = cooldown_end p2 (event_time e2)"
    using cooldown_after_switch [OF run auto(2) assms(3)] assms(4) by auto
  have "js_trunc (of_int (event_time e2) + cooldown_seconds p2 * 1000) \<le> event_time e"
    using cool e2(3) by (simp add: cooling_down_def cooldown_end_def iso_of_def)
  then have "of_int (event_time e2) + cooldown_seconds p2 * 1000 - 1 < (of_int (event_time e) :: rat)"
    using js_trunc_bounds [of "of_int (event_time e2) + cooldown_seconds p2 * 1000"]
    by (meson less_le_trans of_int_le_iff)
  moreover have "(of_int (event_time e1) :: rat) \<le> of_int (event_time e2)" "least \<le> cooldown_seconds p2"
    using e2(1,2) assms(5) by auto
  ultimately show "of_int (event_time e1) + least * 1000 - 1 < (of_int (event_time e) :: rat)"
    by linarith
qed

lemma failover_respects_cooldown_witness:
  "\<exists>(e1 :: event) (e2 :: event). kind (the (event_transition e2)) = Failover
    \<and> of_int (event_time e1) + 300 * 1000 - 1 < (of_int (event_time e2) :: rat)"
proof -
  let ?q = "example_policy\<lparr>cooldown_seconds := 600\<rparr>"
  obtain d where d: "decide_failover example_policy (example_health {Centrifugo}) FALLBACK_STATE 0 = Some d"
    by (simp add: engine_eval)
  then have d_f: "effective_provider (fst d) = Supabase_realtime" "snd d \<noteq> None"
    "cooldown_until (fst d) = Some (Iso 300000)"
    by (auto simp: engine_eval)
  obtain d' where d': "decide_failover ?q (example_health {Centrifugo, Supabase_realtime}) (fst d) 300000 = Some d'"
    using d_f by (simp add: engine_eval)
  then obtain x where x: "snd d' = Some x" "kind x = Failover"
    using d_f by (auto simp: engine_eval)
  let ?e1 = "\<lparr>event_time = 0, event_health = example_health {Centrifugo}, event_transition = snd d\<rparr>"
  let ?e2 = "\<lparr>event_time = 300000, event_health = example_health {Centrifugo, Supabase_realtime}, event_transition = snd d'\<rparr>"
  have "settings_run FALLBACK_STATE ([] @ [(example_policy, ?e1)]) (fst d)"
    using settings_tick [OF settings_start, of 0 example_policy] d by simp
  then have run: "settings_run FALLBACK_STATE ([] @ [(example_policy, ?e1)] @ [(?q, ?e2)]) (fst d')"
    using settings_tick [of FALLBACK_STATE "[(example_policy, ?e1)]" "fst d" 300000 ?q] d' by simp
  have "automatic ?q" using example_automatic(1) by (simp add: automatic_def)
  then have "of_int (event_time ?e1) + 300 * 1000 - 1 < (of_int (event_time ?e2) :: rat)"
    using failover_respects_cooldown [OF run, of example_policy ?e1 300 x] d_f(2) x example_automatic by simp
  moreover have "kind (the (event_transition ?e2)) = Failover" using x by simp
  ultimately show ?thesis by blast
qed

text \<open>The engine fails back only to a provider that every evaluation has picked, without a switch in
  between, since at least the stable window before.\<close>

theorem failback_needs_stability:
  assumes "engine_run policy s0 (evs @ [e]) s" and "automatic policy" and "recovery_provider s0 = None"
    and "event_transition e = Some x" and "kind x = Failback"
  shows "\<exists>as b bs. evs = as @ b # bs
    \<and> of_int (event_time b) + stable_window_seconds policy * 1000 \<le> (of_int (event_time e) :: rat)
    \<and> (\<forall>e\<in>set (b # bs). event_transition e = None \<and> pick_of policy (event_health e) = to_provider x)"
proof -
  obtain r t h tr where run: "engine_run policy s0 evs r"
    and d: "decide_failover policy h r t = Some (s, tr)"
    and e': "event_time e = t" "event_transition e = tr"
    using assms(1) by (auto elim: engine_run_snocE)
  from assms(2) d show ?thesis
  proof (cases rule: decide_automatic_cases)
    case (fail_back since)
    then have "to_provider x = pick_of policy h" using assms(4) e'(2) by auto
    then show ?thesis
      using recovery_tracked [OF run assms(2) fail_back(1) assms(3) fail_back(3,4)] fail_back(5) e' by fastforce
  qed (use assms(4,5) e'(2) in auto)
qed

lemma failback_needs_stability_witness:
  "\<exists>(evs :: event list) (e :: event) as b bs. kind (the (event_transition e)) = Failback \<and> evs = as @ b # bs
    \<and> of_int (event_time b) + stable_window_seconds example_policy * 1000 \<le> (of_int (event_time e) :: rat)"
proof -
  let ?s = "FALLBACK_STATE\<lparr>effective_provider := Supabase_realtime\<rparr>" and ?h = "example_health {}"
  obtain d where d: "decide_failover example_policy ?h ?s 0 = Some d"
    by (simp add: engine_eval)
  then have d_f: "effective_provider (fst d) = Supabase_realtime"
    "recovery_provider (fst d) = Some Centrifugo" "recovery_since (fst d) = Some (Iso 0)"
    by (auto simp: engine_eval)
  obtain d' where d': "decide_failover example_policy ?h (fst d) 600000 = Some d'"
    using d_f by (simp add: engine_eval)
  then obtain x where x: "snd d' = Some x" "kind x = Failback"
    using d_f by (auto simp: engine_eval)
  let ?e1 = "\<lparr>event_time = 0, event_health = ?h, event_transition = snd d\<rparr>"
  let ?e2 = "\<lparr>event_time = 600000, event_health = ?h, event_transition = snd d'\<rparr>"
  have run: "engine_run example_policy ?s ([?e1] @ [?e2]) (fst d')"
    by (rule engine_run_two [OF d d']) simp
  have s: "recovery_provider ?s = None" by (simp add: FALLBACK_STATE_def)
  have "event_transition ?e2 = Some x" using x by simp
  from failback_needs_stability [OF run example_automatic(1) s this x(2)]
  have "\<exists>as b bs. [?e1] = as @ b # bs
    \<and> of_int (event_time b) + stable_window_seconds example_policy * 1000 \<le> (of_int (event_time ?e2) :: rat)"
    by blast
  moreover have "kind (the (event_transition ?e2)) = Failback" using x by simp
  ultimately show ?thesis by blast
qed

text \<open>A lock pins the provider: after any non-empty run under a lock the locked provider is in
  effect, no failback is being timed, and only the first evaluation of the run can have switched.\<close>

theorem lock_pins_provider:
  assumes "engine_run policy s0 evs s" and "provider_lock policy = Some p" and "evs \<noteq> []"
  shows "effective_provider s = p \<and> recovery_provider s = None
    \<and> (\<forall>e\<in>set (tl evs). event_transition e = None)
    \<and> (event_transition (hd evs) = None \<longleftrightarrow> effective_provider s0 = p)"
  using assms
proof (induction rule: engine_run.induct)
  case (tick evs s t h s' tr)
  obtain "effective_provider s' = p" "tr = None \<longleftrightarrow> effective_provider s = p" "recovery_provider s' = None"
    using decide_locked [OF tick.prems(1), of h s t] tick.hyps(3) by fastforce
  then show ?case
  proof (cases "evs = []")
    case True
    then have "s = s0" using tick.hyps(1) by (auto elim: engine_run.cases)
    then show ?thesis using True \<open>effective_provider s' = p\<close> \<open>tr = None \<longleftrightarrow> _\<close> \<open>recovery_provider s' = None\<close> by simp
  qed (use tick.IH tick.prems in auto)
qed simp

lemma lock_pins_provider_witness:
  "\<exists>evs s. evs \<noteq> [] \<and> effective_provider s = Polling_builtin
    \<and> engine_run (example_policy\<lparr>provider_lock := Some Polling_builtin\<rparr>) FALLBACK_STATE evs s"
proof -
  let ?p = "example_policy\<lparr>provider_lock := Some Polling_builtin\<rparr>" and ?h = "example_health {}"
  obtain d where d: "decide_failover ?p ?h FALLBACK_STATE 0 = Some d"
    by (simp add: decide_failover_def)
  obtain d' where d': "decide_failover ?p ?h (fst d) 1 = Some d'"
    by (simp add: decide_failover_def)
  show ?thesis
    using lock_pins_provider [OF engine_run_two [OF d d'], of Polling_builtin] engine_run_two [OF d d'] by auto
qed

text \<open>With the failback disabled the engine never takes a provider that stands before the current one
  in the order, even while the current provider is unhealthy: as long as each evaluation's pick stands
  earlier, nothing ever switches.\<close>

theorem failback_disabled_stays:
  assumes "engine_run policy s0 evs s" and "automatic policy" and "\<not> failback_enabled policy"
    and "\<forall>e\<in>set evs. index_of (provider_order policy) (pick_of policy (event_health e))
      < index_of (provider_order policy) (effective_provider s0)"
  shows "effective_provider s = effective_provider s0 \<and> (\<forall>e\<in>set evs. event_transition e = None)"
  using assms
proof (induction rule: engine_run.induct)
  case (tick evs s t h s' tr)
  then have eff: "effective_provider s = effective_provider s0"
    and none: "\<forall>e\<in>set evs. event_transition e = None" by auto
  have ix: "index_of (provider_order policy) (pick_of policy h)
      < index_of (provider_order policy) (effective_provider s)"
    using tick.prems eff by auto
  from tick.prems(1) tick.hyps(3) show ?case
    by (cases rule: decide_automatic_cases) (use ix eff none tick.prems in auto)
qed simp

lemma failback_disabled_stays_witness:
  "\<exists>evs s. signal_status (event_health (last evs) Supabase_realtime) = Unhealthy
    \<and> pick_of (example_policy\<lparr>failback_enabled := False\<rparr>) (event_health (last evs)) = Centrifugo
    \<and> engine_run (example_policy\<lparr>failback_enabled := False\<rparr>)
        (FALLBACK_STATE\<lparr>effective_provider := Supabase_realtime\<rparr>) evs s
    \<and> effective_provider s = Supabase_realtime"
proof -
  let ?p = "example_policy\<lparr>failback_enabled := False\<rparr>" and ?h = "example_health {Supabase_realtime}"
    and ?s = "FALLBACK_STATE\<lparr>effective_provider := Supabase_realtime\<rparr>"
  have pick: "pick_of ?p ?h = Centrifugo" by (simp add: pick_of_def engine_eval)
  have auto: "automatic ?p" using example_automatic(1) by (simp add: automatic_def)
  obtain d where d: "decide_failover ?p ?h ?s 0 = Some d"
    by (simp add: engine_eval)
  then have d_f: "effective_provider (fst d) = Supabase_realtime"
    by (auto simp: engine_eval)
  obtain d' where d': "decide_failover ?p ?h (fst d) 1 = Some d'"
    using d_f by (simp add: engine_eval)
  let ?evs = "[\<lparr>event_time = 0, event_health = ?h, event_transition = snd d\<rparr>]
    @ [\<lparr>event_time = 1, event_health = ?h, event_transition = snd d'\<rparr>]"
  have run: "engine_run ?p ?s ?evs (fst d')" by (rule engine_run_two [OF d d']) simp
  have "effective_provider (fst d') = Supabase_realtime"
    using failback_disabled_stays [OF run auto] pick by (simp add: engine_eval)
  then show ?thesis
    using run pick by (intro exI [of _ ?evs] exI [of _ "fst d'"]) (simp add: example_health_def)
qed

text \<open>The write of the state is skipped only when nothing that matters changed: if the row need not be
  written, the stored and the new state agree on the effective provider, the last switch, the whole
  recovery and cool-down and on every provider's status, and the stored row is younger than the
  heartbeat. A save that succeeds leaves a row with the same material content as the cached state.\<close>

theorem persist_skips_only_immaterial:
  "(\<not> needs_failover_persist stored next t \<longrightarrow>
      effective_provider next = effective_provider stored \<and> last_failover_at next = last_failover_at stored
      \<and> last_failover_reason next = last_failover_reason stored
      \<and> recovery_provider next = recovery_provider stored \<and> recovery_since next = recovery_since stored
      \<and> failback_eligible_at next = failback_eligible_at stored
      \<and> cooldown_until next = cooldown_until stored
      \<and> (\<forall>p. map_option signal_status (last_health next p) = map_option signal_status (last_health stored p))
      \<and> (\<exists>u. last_evaluated_at stored = Some (Iso u) \<and> t < u + HEARTBEAT_PERSIST_MS))
   \<and> (row_current ps \<longrightarrow> save_failover_state ps merged force t ok = Some ps' \<longrightarrow>
      row_current ps' \<and> cached_state ps' = merged
      \<and> material_signature (database_row ps') = material_signature merged)"
proof (intro conjI impI)
  assume "\<not> needs_failover_persist stored next t"
  then have sig: "material_signature next = material_signature stored"
    and u: "\<exists>u. last_evaluated_at stored = Some (Iso u) \<and> t < u + HEARTBEAT_PERSIST_MS"
    by (auto simp: needs_failover_persist_def parse_iso_opt_some split: if_splits option.splits)
  show "\<exists>u. last_evaluated_at stored = Some (Iso u) \<and> t < u + HEARTBEAT_PERSIST_MS" by (rule u)
  have h: "health_status_signature (last_health next) = health_status_signature (last_health stored)"
    using sig by (simp add: material_signature_def)
  show "\<forall>p. map_option signal_status (last_health next p) = map_option signal_status (last_health stored p)"
    using health_status_signature_inj [OF h] by blast
qed (auto simp: material_signature_def save_failover_state_def row_current_def Let_def needs_failover_persist_def
       split: if_splits)

lemma persist_skips_only_immaterial_witness:
  "effective_provider FALLBACK_STATE = Centrifugo
   \<and> row_current \<lparr>persisted_at = 0, persisted_signature = None, database_row = FALLBACK_STATE,
       cached_state = FALLBACK_STATE\<rparr>
   \<and> \<not> needs_failover_persist (FALLBACK_STATE\<lparr>last_evaluated_at := Some (Iso 0)\<rparr>) FALLBACK_STATE 1
   \<and> (\<exists>u. last_evaluated_at (FALLBACK_STATE\<lparr>last_evaluated_at := Some (Iso 0)\<rparr>) = Some (Iso u)
       \<and> 1 < u + HEARTBEAT_PERSIST_MS)"
proof -
  have n: "\<not> needs_failover_persist (FALLBACK_STATE\<lparr>last_evaluated_at := Some (Iso 0)\<rparr>) FALLBACK_STATE 1"
    by (simp add: needs_failover_persist_def material_signature_def FALLBACK_STATE_def HEARTBEAT_PERSIST_MS_def)
  then show ?thesis
    using persist_skips_only_immaterial [of "FALLBACK_STATE\<lparr>last_evaluated_at := Some (Iso 0)\<rparr>" FALLBACK_STATE 1]
    by (auto simp: FALLBACK_STATE_def row_current_def)
qed

end
