(* ===== verification/Feature_Gates.thy ===== *)
theory Feature_Gates
  imports Entitlements
begin

text \<open>
  Enforcement of what a workspace has (\<open>server/middleware/featureGating.ts\<close>): the answers of the database read strictly
  (\<open>services/billing/entitlementParse.ts\<close>), the cache of the answers, the checks of features, modules, channels and limits,
  the gates of the routes, and the services that decide with them (\<open>conversationLimit.ts\<close>, \<open>contactsLimit.ts\<close>,
  \<open>kbArticleQuota.ts\<close>, \<open>planStops.ts\<close>). The functions the database answers with are those of
  \<open>database/migrations/251_production_parity.sql\<close>; PostgreSQL's casts of a JSON value are a parameter.
\<close>

section \<open>The functions of the database\<close>

datatype db_answer = Rpc_data jsval | Rpc_error | Rpc_throws

text \<open>The cast of \<open>v->>key\<close>: an error, the null, or a value.\<close>

record pg_casts =
  to_bool :: "jsval \<Rightarrow> bool option option"
  to_int :: "jsval \<Rightarrow> int option option"

definition sql_later :: "(string \<Rightarrow> int option) \<Rightarrow> string option \<Rightarrow> int \<Rightarrow> bool" where
  "sql_later parse s now = (case Option.bind s parse of None \<Rightarrow> False | Some i \<Rightarrow> now < i)"

definition sql_sub_valid :: "(string \<Rightarrow> int option) \<Rightarrow> subscription \<Rightarrow> int \<Rightarrow> bool" where
  "sql_sub_valid parse s now \<longleftrightarrow>
     su_plan s \<noteq> None
     \<and> (su_status s = Some ''active''
        \<or> su_status s = Some ''past_due'' \<and> su_fallback s = None
        \<or> su_status s = Some ''trialing'' \<and> (su_trial_end s = None \<or> sql_later parse (su_trial_end s) now)
        \<or> (su_status s = Some ''canceled'' \<or> su_status s = Some ''cancelled'') \<and> su_cancel s = Some True
          \<and> sql_later parse (su_period_end s) now)"

definition sql_plan :: "(string \<Rightarrow> int option) \<Rightarrow> plan_tables \<Rightarrow> string \<Rightarrow> int \<Rightarrow> plan_row option" where
  "sql_plan parse db ws now =
     (case (case subscriptions db ws of
              Some s \<Rightarrow> if sql_sub_valid parse s now then plan_by_id (the (su_plan s)) db else None
            | None \<Rightarrow> None) of
        Some p \<Rightarrow> Some p
      | None \<Rightarrow> (case free_plans db of [] \<Rightarrow> None | p # _ \<Rightarrow> Some p))"

definition json_bool :: "bool option \<Rightarrow> jsval" where
  "json_bool b = (case b of None \<Rightarrow> Null | Some x \<Rightarrow> JBool x)"

definition json_number :: "int option \<Rightarrow> jsval" where
  "json_number n = (case n of None \<Rightarrow> Null | Some i \<Rightarrow> JNum (Fin (of_int i)))"

definition sql_check_entitlement ::
    "pg_casts \<Rightarrow> (string \<Rightarrow> int option) \<Rightarrow> plan_tables \<Rightarrow> int \<Rightarrow> string \<Rightarrow> string \<Rightarrow> db_answer" where
  "sql_check_entitlement pg parse db now ws feature =
     (case sql_plan parse db ws now of
        None \<Rightarrow> Rpc_data (JObj [(''allowed'', JBool False), (''plan'', JStr ''none''), (''reason'', JStr ''no_plan_found'')])
      | Some p \<Rightarrow>
          let ents = entries_of (pl_entitlements p); lims = entries_of (pl_limits p); slug = (''plan'', JStr (pl_slug p)) in
          if has_prop (JObj ents) feature then
            (case to_bool pg (json_prop ents feature) of
               None \<Rightarrow> Rpc_error
             | Some b \<Rightarrow> Rpc_data (JObj [(''allowed'', json_bool b), slug]))
          else (case map_of (limit_overrides db ws) feature of
                  Some (v, _) \<Rightarrow>
                    Rpc_data (JObj [(''allowed'', JBool True), (''limit'', json_number (Some v)), slug, (''source'', JStr ''override'')])
                | None \<Rightarrow>
                    if has_prop (JObj lims) feature then
                      (case to_int pg (json_prop lims feature) of
                         None \<Rightarrow> Rpc_error
                       | Some n \<Rightarrow>
                           Rpc_data (JObj [(''allowed'', JBool True), (''limit'', json_number n), slug, (''source'', JStr ''plan'')]))
                    else Rpc_data (JObj [(''allowed'', JBool False), slug, (''reason'', JStr ''feature_not_in_plan'')])))"

definition sql_check_access ::
    "(string option \<times> flag_override) list \<Rightarrow> (string \<Rightarrow> db_answer) \<Rightarrow> string \<Rightarrow> db_answer" where
  "sql_check_access overrides entitlement k =
     (case map_of overrides (Some k) of
        Some r \<Rightarrow> Rpc_data (JObj [(''allowed'', JBool (fo_enabled r)), (''source'', JStr ''override'')])
      | None \<Rightarrow>
          (case entitlement k of
             Rpc_data e \<Rightarrow>
               Rpc_data (JObj [(''allowed'', JBool (get_prop e ''allowed'' = JBool True)), (''source'', JStr ''plan''),
                               (''plan'', get_prop e ''plan'')])
           | other \<Rightarrow> other))"

section \<open>The strict reading of an answer\<close>

datatype parse_outcome = Allowed | Denied | Unavailable

record parsed_entitlement =
  pe_outcome :: parse_outcome
  pe_allowed :: "bool option"
  pe_limit :: "rat option"
  pe_plan :: "string option"
  pe_reason :: "string option"

definition INVALID_ENTITLEMENT_RESPONSE :: string where "INVALID_ENTITLEMENT_RESPONSE = ''invalid_entitlement_response''"
definition INVALID_ENTITLEMENT_LIMIT :: string where "INVALID_ENTITLEMENT_LIMIT = ''invalid_entitlement_limit''"

definition unavailable :: "string \<Rightarrow> parsed_entitlement" where
  "unavailable why = \<lparr>pe_outcome = Unavailable, pe_allowed = None, pe_limit = None, pe_plan = None, pe_reason = Some why\<rparr>"

definition text_prop :: "jsval \<Rightarrow> string \<Rightarrow> string option" where
  "text_prop v k = (case get_prop v k of JStr s \<Rightarrow> Some s | _ \<Rightarrow> None)"

text \<open>\<open>limitValid\<close> is whether a limit was read.\<close>

definition limit_valid :: "parsed_entitlement \<Rightarrow> bool" where
  "limit_valid p \<longleftrightarrow> pe_limit p \<noteq> None"

definition parse_entitlement_response :: "db_answer \<Rightarrow> parsed_entitlement" where
  "parse_entitlement_response a =
     (case a of
        Rpc_data (JObj kvs) \<Rightarrow>
          (case get_prop (JObj kvs) ''allowed'' of
             JBool b \<Rightarrow>
               \<lparr>pe_outcome = (if b then Allowed else Denied), pe_allowed = Some b,
                pe_limit = finite_number (get_prop (JObj kvs) ''limit''), pe_plan = text_prop (JObj kvs) ''plan'',
                pe_reason = (case text_prop (JObj kvs) ''reason'' of Some r \<Rightarrow> Some r | None \<Rightarrow> text_prop (JObj kvs) ''source'')\<rparr>
           | _ \<Rightarrow> unavailable INVALID_ENTITLEMENT_RESPONSE)
      | Rpc_data _ \<Rightarrow> unavailable INVALID_ENTITLEMENT_RESPONSE
      | _ \<Rightarrow> unavailable ''rpc_error'')"

definition parse_numeric_response :: "db_answer \<Rightarrow> parsed_entitlement" where
  "parse_numeric_response a =
     (let p = parse_entitlement_response a
      in if pe_outcome p \<noteq> Allowed then p else if limit_valid p then p else unavailable INVALID_ENTITLEMENT_LIMIT)"

definition UNREADABLE_REASONS :: "string list" where
  "UNREADABLE_REASONS = [''rpc_error'', ''exception'', INVALID_ENTITLEMENT_RESPONSE, INVALID_ENTITLEMENT_LIMIT]"

definition is_unreadable_reason :: "string option \<Rightarrow> bool" where
  "is_unreadable_reason r \<longleftrightarrow> (case r of None \<Rightarrow> False | Some s \<Rightarrow> s \<in> set UNREADABLE_REASONS)"

section \<open>The cache\<close>

record entitlement_result =
  er_allowed :: bool
  er_limit :: "rat option"
  er_plan :: "string option"
  er_reason :: "string option"
  er_limit_valid :: bool

type_synonym gate_cache = "(string \<times> entitlement_result \<times> int) list"

definition CACHE_TTL :: int where "CACHE_TTL = 60000"
definition CACHE_MAX_ENTRIES :: nat where "CACHE_MAX_ENTRIES = 2000"

definition bound_entitlement_cache :: "int \<Rightarrow> gate_cache \<Rightarrow> gate_cache" where
  "bound_entitlement_cache now c =
     (if length c \<le> CACHE_MAX_ENTRIES then c
      else let live = filter (\<lambda>(_, _, expires). now < expires) c
           in drop (length live - CACHE_MAX_ENTRIES) live)"

definition gate_cache_key :: "string \<Rightarrow> string \<Rightarrow> string" where
  "gate_cache_key ws feature = ws @ '':'' @ feature"

definition mode_key :: "string \<Rightarrow> string \<Rightarrow> bool \<Rightarrow> bool \<Rightarrow> string" where
  "mode_key ws feature numeric unlimited =
     gate_cache_key ws feature @ '':'' @ (if numeric then ''num'' else ''bool'') @ '':'' @ (if unlimited then ''shu'' else ''std'')"

definition clear_entitlement_cache :: "string option \<Rightarrow> gate_cache \<Rightarrow> gate_cache" where
  "clear_entitlement_cache ws c =
     (case ws of
        None \<Rightarrow> []
      | Some w \<Rightarrow> if w = [] then [] else filter (\<lambda>(k, _). take (length w) k \<noteq> w) c)"

definition store_result :: "string \<Rightarrow> entitlement_result \<Rightarrow> int \<Rightarrow> gate_cache \<Rightarrow> gate_cache" where
  "store_result k r now c = bound_entitlement_cache now (AList.update k (r, now + CACHE_TTL) c)"

section \<open>The checks\<close>

definition REGISTRY_DEFAULT :: string where "REGISTRY_DEFAULT = ''registry_default''"
definition SELF_HOST_UNLIMITED :: string where "SELF_HOST_UNLIMITED = ''self_host_billing_schema_absent''"

definition registry_default :: "string \<Rightarrow> string option \<Rightarrow> entitlement_result option" where
  "registry_default feature plan =
     (case get_capability feature of
        None \<Rightarrow> None
      | Some c \<Rightarrow>
          if cap_deprecated c then None
          else if cap_type c = Limit_cap then
            (case default_limit c of
               None \<Rightarrow> None
             | Some q \<Rightarrow> Some \<lparr>er_allowed = True, er_limit = Some q, er_plan = plan, er_reason = Some REGISTRY_DEFAULT, er_limit_valid = True\<rparr>)
          else Some \<lparr>er_allowed = (cap_default c = JBool True), er_limit = None, er_plan = plan,
                     er_reason = Some REGISTRY_DEFAULT, er_limit_valid = False\<rparr>)"

definition refused :: "string option \<Rightarrow> string option \<Rightarrow> entitlement_result" where
  "refused plan why = \<lparr>er_allowed = False, er_limit = None, er_plan = plan, er_reason = why, er_limit_valid = False\<rparr>"

definition unlimited_result :: entitlement_result where
  "unlimited_result =
     \<lparr>er_allowed = True, er_limit = Some (- 1), er_plan = Some ''self-host-unlimited'', er_reason = Some SELF_HOST_UNLIMITED,
      er_limit_valid = True\<rparr>"

text \<open>What the answers of the database are, whether the server knows its database, and whether it is an unlimited install.
  A request without the server's settings and one whose settings lack the address or the key of the database are one case here;
  the batch import of contacts tells them apart (it answers 500 only to the first and asks the database in the second).\<close>

record gate_env =
  entitlement_rpc :: "string \<Rightarrow> string \<Rightarrow> db_answer"
  module_rpc :: "string \<Rightarrow> string \<Rightarrow> db_answer"
  channel_rpc :: "string \<Rightarrow> string \<Rightarrow> db_answer"
  configured :: bool
  billing_unlimited :: bool

definition decided_result :: "string \<Rightarrow> parsed_entitlement \<Rightarrow> entitlement_result" where
  "decided_result feature p =
     (case (if pe_allowed p = Some False \<and> pe_reason p = Some ''feature_not_in_plan'' then registry_default feature (pe_plan p) else None) of
        Some r \<Rightarrow> r
      | None \<Rightarrow>
          \<lparr>er_allowed = (pe_allowed p = Some True), er_limit = pe_limit p, er_plan = pe_plan p, er_reason = pe_reason p,
           er_limit_valid = limit_valid p\<rparr>)"

definition read_entitlement :: "bool \<Rightarrow> db_answer \<Rightarrow> parsed_entitlement" where
  "read_entitlement numeric a = (if numeric then parse_numeric_response a else parse_entitlement_response a)"

text \<open>The times of the look into the cache and of the answer.\<close>

definition check_entitlement ::
    "gate_env \<Rightarrow> bool \<Rightarrow> bool \<Rightarrow> string \<Rightarrow> string \<Rightarrow> int \<times> int \<Rightarrow> gate_cache \<Rightarrow> entitlement_result \<times> gate_cache" where
  "check_entitlement env numeric unlimited ws feature t c =
     (let k = mode_key ws feature numeric unlimited in
      case (case map_of c k of Some (r, expires) \<Rightarrow> if fst t < expires then Some r else None | None \<Rightarrow> None) of
        Some r \<Rightarrow> (r, c)
      | None \<Rightarrow>
          if unlimited then (unlimited_result, store_result k unlimited_result (fst t) c)
          else case entitlement_rpc env ws feature of
            Rpc_throws \<Rightarrow> (refused (Some ''error'') (Some ''exception''), c)
          | a \<Rightarrow>
              (let p = read_entitlement numeric a
               in if pe_outcome p = Unavailable then (refused (Some ''error'') (pe_reason p), c)
                  else let r = decided_result feature p in (r, store_result k r (snd t) c)))"

definition self_host_unlimited ::
    "gate_env \<Rightarrow> string \<Rightarrow> string \<Rightarrow> int \<times> int \<Rightarrow> gate_cache \<Rightarrow> entitlement_result option \<times> gate_cache" where
  "self_host_unlimited env ws k t c =
     (let (probe, c') = check_entitlement env False True ws k t c
      in (if er_reason probe = Some SELF_HOST_UNLIMITED then Some probe else None, c'))"

definition plan_denial_or_default ::
    "gate_env \<Rightarrow> string \<Rightarrow> string \<Rightarrow> entitlement_result \<Rightarrow> int \<times> int \<Rightarrow> gate_cache \<Rightarrow> entitlement_result \<times> gate_cache" where
  "plan_denial_or_default env ws k denial t c =
     (let (plan, c') = check_entitlement env False False ws k t c
      in (if er_reason plan = Some REGISTRY_DEFAULT then plan else denial, c'))"

definition module_answer ::
    "gate_env \<Rightarrow> string \<Rightarrow> string \<Rightarrow> int \<times> int \<Rightarrow> gate_cache \<Rightarrow> entitlement_result \<times> gate_cache" where
  "module_answer env ws k t c =
     (case module_rpc env ws k of
        Rpc_throws \<Rightarrow> (refused None (Some ''exception''), c)
      | a \<Rightarrow>
          (let p = parse_entitlement_response a in
           if pe_outcome p = Unavailable then (refused None (pe_reason p), c)
           else let r = \<lparr>er_allowed = (pe_allowed p = Some True), er_limit = None, er_plan = pe_plan p, er_reason = pe_reason p,
                         er_limit_valid = False\<rparr>
                in if \<not> er_allowed r \<and> pe_reason p = Some ''plan'' then plan_denial_or_default env ws k r t c else (r, c)))"

definition channel_answer ::
    "gate_env \<Rightarrow> string \<Rightarrow> string \<Rightarrow> int \<times> int \<Rightarrow> gate_cache \<Rightarrow> entitlement_result \<times> gate_cache" where
  "channel_answer env ws k t c =
     (case channel_rpc env ws k of
        Rpc_throws \<Rightarrow> (refused None (Some ''exception''), c)
      | Rpc_error \<Rightarrow> (refused None (Some ''rpc_error''), c)
      | Rpc_data d \<Rightarrow>
          (let r = \<lparr>er_allowed = (get_prop d ''allowed'' = JBool True), er_limit = None, er_plan = text_prop d ''plan'',
                    er_reason = text_prop d ''source'', er_limit_valid = False\<rparr>
           in if \<not> er_allowed r \<and> er_reason r = Some ''plan'' then plan_denial_or_default env ws k r t c else (r, c)))"


definition unless_unlimited ::
    "(gate_env \<Rightarrow> string \<Rightarrow> string \<Rightarrow> int \<times> int \<Rightarrow> gate_cache \<Rightarrow> entitlement_result \<times> gate_cache)
     \<Rightarrow> gate_env \<Rightarrow> bool \<Rightarrow> string \<Rightarrow> string \<Rightarrow> int \<times> int \<Rightarrow> gate_cache \<Rightarrow> entitlement_result \<times> gate_cache" where
  "unless_unlimited answer env unlimited ws k t c =
     (if unlimited then
        (case self_host_unlimited env ws k t c of (Some r, c') \<Rightarrow> (r, c') | (None, c') \<Rightarrow> answer env ws k t c')
      else answer env ws k t c)"

definition check_module_access ::
    "gate_env \<Rightarrow> bool \<Rightarrow> string \<Rightarrow> string \<Rightarrow> int \<times> int \<Rightarrow> gate_cache \<Rightarrow> entitlement_result \<times> gate_cache" where
  "check_module_access = unless_unlimited module_answer"

definition check_channel_access ::
    "gate_env \<Rightarrow> bool \<Rightarrow> string \<Rightarrow> string \<Rightarrow> int \<times> int \<Rightarrow> gate_cache \<Rightarrow> entitlement_result \<times> gate_cache" where
  "check_channel_access = unless_unlimited channel_answer"

section \<open>The gates of the routes\<close>

text \<open>A gate lets the request go on or answers it with a status and an error.\<close>

datatype gate_reply = Goes_through | Answered int string

text \<open>The workspace of a request: the one the server pinned, or the one its parameters, body and query agree on.\<close>

record gate_request =
  rq_pinned :: "string option"
  rq_candidates :: "jsval list"

definition is_given :: "jsval \<Rightarrow> bool" where
  "is_given v \<longleftrightarrow> \<not> nullish v \<and> v \<noteq> JStr []"

fun agree_on :: "string option \<Rightarrow> jsval list \<Rightarrow> string + string option" where
  "agree_on r [] = Inr r"
| "agree_on r (v # vs) =
     (if \<not> is_given v then agree_on r vs
      else case v of
        JStr s \<Rightarrow> (case r of None \<Rightarrow> agree_on (Some s) vs | Some q \<Rightarrow> if q \<noteq> s then Inl ''workspace_id_mismatch'' else agree_on r vs)
      | _ \<Rightarrow> Inl ''invalid_workspace_id'')"

definition resolve_gate_workspace :: "gate_request \<Rightarrow> string + string option" where
  "resolve_gate_workspace rq =
     (case rq_pinned rq of Some w \<Rightarrow> if w = [] then agree_on None (rq_candidates rq) else Inr (Some w)
      | None \<Rightarrow> agree_on None (rq_candidates rq))"

definition with_workspace ::
    "gate_env \<Rightarrow> gate_request \<Rightarrow> string \<Rightarrow> (string \<Rightarrow> gate_reply \<times> gate_cache) \<Rightarrow> gate_cache \<Rightarrow> gate_reply \<times> gate_cache" where
  "with_workspace env rq missing gate c =
     (if \<not> configured env then (Goes_through, c)
      else case resolve_gate_workspace rq of
        Inl e \<Rightarrow> (Answered 400 e, c)
      | Inr None \<Rightarrow> (Answered 400 missing, c)
      | Inr (Some ws) \<Rightarrow> gate ws)"

definition single_quoted :: "string \<Rightarrow> string" where "single_quoted k = [CHR 0x27] @ k @ [CHR 0x27]"

definition require_feature :: "gate_env \<Rightarrow> string \<Rightarrow> gate_request \<Rightarrow> int \<times> int \<Rightarrow> gate_cache \<Rightarrow> gate_reply \<times> gate_cache" where
  "require_feature env feature rq t c =
     with_workspace env rq ''Missing workspaceId for feature check''
       (\<lambda>ws. let (r, c') = check_entitlement env False (billing_unlimited env) ws feature t c
             in (if is_unreadable_reason (er_reason r) then Answered 503 ''entitlement_status_unavailable''
                 else if \<not> er_allowed r then Answered 403 ''Feature not available on your current plan''
                 else Goes_through, c')) c"

definition enforce_module :: "gate_env \<Rightarrow> string \<Rightarrow> string \<Rightarrow> int \<times> int \<Rightarrow> gate_cache \<Rightarrow> gate_reply \<times> gate_cache" where
  "enforce_module env ws k t c =
     (if \<not> configured env then (Goes_through, c)
      else let (r, c') = check_module_access env (billing_unlimited env) ws k t c
           in (if is_unreadable_reason (er_reason r) then Answered 503 ''module_status_unavailable''
               else if \<not> er_allowed r then Answered 403 (''Module '' @ single_quoted k @ '' is not enabled'')
               else Goes_through, c'))"

definition require_module :: "gate_env \<Rightarrow> string \<Rightarrow> gate_request \<Rightarrow> int \<times> int \<Rightarrow> gate_cache \<Rightarrow> gate_reply \<times> gate_cache" where
  "require_module env k rq t c =
     with_workspace env rq ''Missing workspaceId for module check'' (\<lambda>ws. enforce_module env ws k t c) c"

definition require_channel :: "gate_env \<Rightarrow> string \<Rightarrow> gate_request \<Rightarrow> int \<times> int \<Rightarrow> gate_cache \<Rightarrow> gate_reply \<times> gate_cache" where
  "require_channel env k rq t c =
     with_workspace env rq ''Missing workspaceId for channel check''
       (\<lambda>ws. let (r, c') = check_channel_access env (billing_unlimited env) ws k t c
             in (if \<not> er_allowed r then Answered 403 (''Channel '' @ single_quoted k @ '' is not available on your plan'') else Goes_through, c')) c"

text \<open>The use so far is a number or cannot be read.\<close>

definition limit_verdict :: "string \<Rightarrow> entitlement_result \<Rightarrow> rat option \<Rightarrow> gate_reply" where
  "limit_verdict feature r used =
     (if is_unreadable_reason (er_reason r) then Answered 503 ''entitlement_status_unavailable''
      else if \<not> er_allowed r then Answered 403 ''Feature not available on your current plan''
      else if er_limit r = Some (- 1) then Goes_through
      else case used of
        None \<Rightarrow> Answered 503 ''usage_status_unavailable''
      | Some u \<Rightarrow>
          (case er_limit r of
             Some l \<Rightarrow> if l \<le> u then Answered 403 (''Limit reached: '' @ feature) else Goes_through
           | None \<Rightarrow> Goes_through))"

definition require_limit ::
    "gate_env \<Rightarrow> string \<Rightarrow> (string \<Rightarrow> rat option) \<Rightarrow> gate_request \<Rightarrow> int \<times> int \<Rightarrow> gate_cache \<Rightarrow> gate_reply \<times> gate_cache" where
  "require_limit env feature usage rq t c =
     with_workspace env rq ''Missing workspaceId for limit check''
       (\<lambda>ws. let (r, c') = check_entitlement env True (billing_unlimited env) ws feature t c
             in (limit_verdict feature r (usage ws), c')) c"

section \<open>Services that decide with the checks\<close>

definition pinned :: "string \<Rightarrow> gate_request" where
  "pinned ws = \<lparr>rq_pinned = Some ws, rq_candidates = []\<rparr>"

datatype allowance_reason = Ok | Not_in_plan | Limit_reached | Entitlement_unavailable | Usage_unavailable

record conversation_allowance =
  ca_allowed :: bool
  ca_reason :: allowance_reason
  ca_retryable :: bool

definition MAX_CONVERSATIONS_KEY :: string where "MAX_CONVERSATIONS_KEY = ''max_conversations''"

definition check_max_conversations ::
    "gate_env \<Rightarrow> (string \<Rightarrow> rat option) \<Rightarrow> string \<Rightarrow> int \<times> int \<Rightarrow> gate_cache \<Rightarrow> conversation_allowance \<times> gate_cache" where
  "check_max_conversations env usage ws t c =
     (let (r, c') = check_entitlement env True (billing_unlimited env) ws MAX_CONVERSATIONS_KEY t c in
      (if is_unreadable_reason (er_reason r) then \<lparr>ca_allowed = False, ca_reason = Entitlement_unavailable, ca_retryable = True\<rparr>
       else if \<not> er_allowed r then \<lparr>ca_allowed = False, ca_reason = Not_in_plan, ca_retryable = False\<rparr>
       else if er_limit r = Some (- 1) then \<lparr>ca_allowed = True, ca_reason = Ok, ca_retryable = False\<rparr>
       else case usage ws of
         None \<Rightarrow> \<lparr>ca_allowed = False, ca_reason = Usage_unavailable, ca_retryable = True\<rparr>
       | Some u \<Rightarrow>
           (case er_limit r of
              Some l \<Rightarrow>
                if l \<le> u then \<lparr>ca_allowed = False, ca_reason = Limit_reached, ca_retryable = False\<rparr>
                else \<lparr>ca_allowed = True, ca_reason = Ok, ca_retryable = False\<rparr>
            | None \<Rightarrow> \<lparr>ca_allowed = True, ca_reason = Ok, ca_retryable = False\<rparr>), c'))"

text \<open>The wrapper of a helper that gates in its handler on a workspace it authorized.\<close>

definition enforce_limit_on ::
    "string \<Rightarrow> gate_env \<Rightarrow> (string \<Rightarrow> rat option) \<Rightarrow> string \<Rightarrow> int \<times> int \<Rightarrow> gate_cache \<Rightarrow> gate_reply \<times> gate_cache" where
  "enforce_limit_on feature env usage ws t c =
     (if ws = [] then (Answered 400 ''Missing workspaceId for limit check'', c)
      else require_limit env feature usage (pinned ws) t c)"

definition enforce_max_conversations ::
    "gate_env \<Rightarrow> (string \<Rightarrow> rat option) \<Rightarrow> string \<Rightarrow> int \<times> int \<Rightarrow> gate_cache \<Rightarrow> gate_reply \<times> gate_cache" where
  "enforce_max_conversations = enforce_limit_on MAX_CONVERSATIONS_KEY"

definition MAX_CONTACTS_KEY :: string where "MAX_CONTACTS_KEY = ''max_contacts''"

definition enforce_max_contacts ::
    "gate_env \<Rightarrow> (string \<Rightarrow> rat option) \<Rightarrow> string \<Rightarrow> int \<times> int \<Rightarrow> gate_cache \<Rightarrow> gate_reply \<times> gate_cache" where
  "enforce_max_contacts = enforce_limit_on MAX_CONTACTS_KEY"

definition contacts_batch_fits ::
    "gate_env \<Rightarrow> (string \<Rightarrow> rat option) \<Rightarrow> string \<Rightarrow> int \<Rightarrow> int \<times> int \<Rightarrow> gate_cache \<Rightarrow> gate_reply \<times> gate_cache" where
  "contacts_batch_fits env usage ws size_of_batch t c =
     (if size_of_batch \<le> 0 then (Goes_through, c)
      else if \<not> configured env then (Answered 500 ''serverConfig_missing'', c)
      else let (r, c') = check_entitlement env False False ws MAX_CONTACTS_KEY t c in
        (if \<not> er_allowed r then Answered 403 ''Feature not available on your current plan''
         else case er_limit r of
           None \<Rightarrow> Goes_through
         | Some l \<Rightarrow>
             if l = - 1 then Goes_through
             else (case usage ws of
                     None \<Rightarrow> Answered 403 ''Could not determine current usage''
                   | Some u \<Rightarrow> if l < u + of_int size_of_batch then Answered 403 ''limit_exceeded'' else Goes_through), c'))"

definition MAX_VISITORS_KEY :: string where "MAX_VISITORS_KEY = ''max_visitors''"

text \<open>Whether the visitor already came this month, when that could be read.\<close>

definition enforce_max_visitors ::
    "gate_env \<Rightarrow> (string \<Rightarrow> rat option) \<Rightarrow> bool option \<Rightarrow> string \<Rightarrow> int \<times> int \<Rightarrow> gate_cache \<Rightarrow> gate_reply \<times> gate_cache" where
  "enforce_max_visitors env usage in_month ws t c =
     (if in_month \<noteq> Some False then (Goes_through, c) else enforce_limit_on MAX_VISITORS_KEY env usage ws t c)"

section \<open>The quota of articles\<close>

datatype kb_quota = Kb_unlimited | Kb_left rat | Kb_denied int string

definition KB_LIMIT_KEYS :: "string list" where
  "KB_LIMIT_KEYS = [''max_kb_articles'', ''ai_kb_max_articles'', ''kb_articles'']"

definition kb_article_quota :: "bool \<Rightarrow> plan_info_error + plan_info \<Rightarrow> int option \<Rightarrow> kb_quota" where
  "kb_article_quota unlimited info stored =
     (if unlimited then Kb_unlimited
      else case info of
        Inl _ \<Rightarrow> Kb_denied 503 ''entitlement_status_unavailable''
      | Inr i \<Rightarrow>
          (case first_number (merged_limits i) KB_LIMIT_KEYS of
             None \<Rightarrow> Kb_unlimited
           | Some l \<Rightarrow>
               if l < 0 then Kb_unlimited
               else (case stored of
                       None \<Rightarrow> Kb_denied 503 ''usage_status_unavailable''
                     | Some n \<Rightarrow> if l \<le> of_int n then Kb_denied 403 ''Limit reached: max_kb_articles'' else Kb_left (l - of_int n))))"

section \<open>What the plan stops\<close>

datatype stop_kind = Stop_channel | Stop_module

type_synonym stop_target = "stop_kind \<times> string"

text \<open>The plan keys of a plugin, the channel's first.\<close>

definition plan_target_of :: "(string \<Rightarrow> (string option \<times> string option) option) \<Rightarrow> string option \<Rightarrow> stop_target option" where
  "plan_target_of plugin i =
     (if \<not> present i then None
      else case plugin (if i = Some ''yahoo'' then ''yahoomail'' else the i) of
        None \<Rightarrow> None
      | Some (ck, mk) \<Rightarrow>
          if present ck then Some (Stop_channel, the ck)
          else if present mk then Some (Stop_module, the mk)
          else None)"

definition plan_stops_active :: "gate_env \<Rightarrow> bool option \<Rightarrow> bool" where
  "plan_stops_active env switch = (if billing_unlimited env then False else case switch of Some on \<Rightarrow> on | None \<Rightarrow> False)"

definition STOP_TTL_MS :: int where "STOP_TTL_MS = 30000"
definition MAX_STOP_ENTRIES :: nat where "MAX_STOP_ENTRIES = 4000"

type_synonym stop_cache = "(string \<times> bool \<times> int) list"

definition stop_key :: "string \<Rightarrow> stop_target \<Rightarrow> string" where
  "stop_key ws target =
     ws @ '':'' @ (case fst target of Stop_channel \<Rightarrow> ''channel'' | Stop_module \<Rightarrow> ''module'') @ '':'' @ snd target"

definition clear_plan_stops :: "string option \<Rightarrow> stop_cache \<Rightarrow> stop_cache" where
  "clear_plan_stops ws c =
     (if \<not> present ws then [] else filter (\<lambda>(k, _). take (length (the ws) + 1) k \<noteq> the ws @ '':'') c)"

definition store_stop :: "string \<Rightarrow> bool \<Rightarrow> int \<Rightarrow> stop_cache \<Rightarrow> stop_cache" where
  "store_stop k stopped now c =
     (let c' = AList.update k (stopped, now + STOP_TTL_MS) c in if MAX_STOP_ENTRIES < length c' then tl c' else c')"

definition check_target ::
    "gate_env \<Rightarrow> string \<Rightarrow> stop_target \<Rightarrow> int \<times> int \<Rightarrow> gate_cache \<Rightarrow> entitlement_result \<times> gate_cache" where
  "check_target env ws target t c =
     (case fst target of
        Stop_channel \<Rightarrow> check_channel_access env False ws (snd target) t c
      | Stop_module \<Rightarrow> check_module_access env False ws (snd target) t c)"

definition is_plan_stopped ::
    "gate_env \<Rightarrow> bool option \<Rightarrow> string \<Rightarrow> stop_target option \<Rightarrow> int \<times> int \<Rightarrow> gate_cache \<times> stop_cache
     \<Rightarrow> bool \<times> gate_cache \<times> stop_cache" where
  "is_plan_stopped env switch ws target t caches =
     (let (c, stops) = caches in
      case target of
        None \<Rightarrow> (False, c, stops)
      | Some tg \<Rightarrow>
          if ws = [] \<or> \<not> plan_stops_active env switch then (False, c, stops)
          else case (case map_of stops (stop_key ws tg) of
                       Some (stopped, expires) \<Rightarrow> if fst t < expires then Some stopped else None | None \<Rightarrow> None) of
            Some stopped \<Rightarrow> (stopped, c, stops)
          | None \<Rightarrow>
              (let (r, c') = check_target env ws tg t c
               in if \<not> er_allowed r \<and> is_unreadable_reason (er_reason r) then (False, c', stops)
                  else (\<not> er_allowed r, c', store_stop (stop_key ws tg) (\<not> er_allowed r) (snd t) stops)))"

definition check_storage_upload ::
    "gate_env \<Rightarrow> bool option \<Rightarrow> (string \<Rightarrow> rat option) \<Rightarrow> string \<Rightarrow> int \<times> int \<Rightarrow> gate_cache \<Rightarrow> gate_reply \<times> gate_cache" where
  "check_storage_upload env switch usage ws t c =
     (if \<not> plan_stops_active env switch then (Goes_through, c)
      else require_limit env STORAGE_LIMIT_KEY usage (pinned ws) t c)"

end
