(* ===== verification/Gate_Agreement.thy ===== *)
theory Gate_Agreement
  imports Feature_Gates
begin

text \<open>
  The gates and what the clients are shown. Where the database answers and a plan is of the shape its editor means it
  to have, every gate decides as the snapshot of the same tables says; the theorems after it show where enforcement
  departs from what its comments promise: an answer that cannot be read taken for a denial, and two paths of one limit that
  disagree.
\<close>

section \<open>One plan for both\<close>

text \<open>Columns hold no empty text.\<close>

definition texts_filled :: "subscription option \<Rightarrow> bool" where
  "texts_filled sub \<longleftrightarrow>
     (case sub of None \<Rightarrow> True
      | Some s \<Rightarrow> su_plan s \<noteq> Some [] \<and> su_fallback s \<noteq> Some [] \<and> su_trial_end s \<noteq> Some [] \<and> su_period_end s \<noteq> Some [])"

lemma later_future: "s \<noteq> Some [] \<Longrightarrow> sql_later parse s now = is_future parse s now"
  by (cases s) (auto simp: sql_later_def is_future_def split: option.splits)

lemma sub_valid_applies:
  "texts_filled (Some s) \<Longrightarrow> sql_sub_valid parse s now = assigned_plan_applies parse (Some s) now"
  by (auto simp: sql_sub_valid_def assigned_plan_applies_def present_def texts_filled_def later_future)

lemma sql_plan_of_info:
  assumes "get_workspace_plan_info parse reads db ws now = Inr i" and "texts_filled (subscriptions db ws)"
  shows "sql_plan parse db ws now = Some (pi_plan i)"
proof -
  obtain a where a: "assigned_plan parse reads db (subscriptions db ws) now = Inr a"
    and p: "(case a of Some p \<Rightarrow> Inr p | None \<Rightarrow> free_plan reads db) = Inr (pi_plan i)"
    using assms(1) by (auto simp: get_workspace_plan_info_def Let_def split: if_splits sum.splits)
  have sql: "(case subscriptions db ws of
              Some s \<Rightarrow> if sql_sub_valid parse s now then plan_by_id (the (su_plan s)) db else None
            | None \<Rightarrow> None) = a"
    using a assms(2)
    by (auto simp: assigned_plan_def sub_valid_applies split: option.splits if_splits)
       (auto simp: assigned_plan_applies_def split: if_splits)
  show ?thesis
    using p by (auto simp: sql_plan_def sql free_plan_def split: option.splits if_splits list.splits)
qed

lemma info_overrides:
  "get_workspace_plan_info parse reads db ws now = Inr i \<Longrightarrow> overrides_read reads = Read_ok \<Longrightarrow>
     pi_overrides i = limit_overrides db ws"
  by (auto simp: get_workspace_plan_info_def Let_def split: if_splits sum.splits)

section \<open>The checks against the tables\<close>

definition casts_ok :: "pg_casts \<Rightarrow> bool" where
  "casts_ok pg \<longleftrightarrow>
     (\<forall>b. to_bool pg (JBool b) = Some (Some b))
     \<and> (\<forall>n :: int. - (2 ^ 31) \<le> n \<and> n < 2 ^ 31 \<longrightarrow> to_int pg (JNum (Fin (of_int n))) = Some (Some n))"

definition enforcing :: "pg_casts \<Rightarrow> (string \<Rightarrow> int option) \<Rightarrow> plan_tables \<Rightarrow> int \<Rightarrow> gate_env" where
  "enforcing pg parse db now =
     \<lparr>entitlement_rpc = sql_check_entitlement pg parse db now,
      module_rpc = (\<lambda>ws k. sql_check_access (module_overrides db ws) (sql_check_entitlement pg parse db now ws) k),
      channel_rpc = (\<lambda>ws k. sql_check_access (channel_overrides db ws) (sql_check_entitlement pg parse db now ws) k),
      configured = True, billing_unlimited = False\<rparr>"

text \<open>A capability as a plan and the overrides of a workspace hold it.\<close>

definition int4 :: "int \<Rightarrow> bool" where "int4 n \<longleftrightarrow> - (2 ^ 31) \<le> n \<and> n < 2 ^ 31"

definition flag_fits :: "(string \<times> jsval) list \<Rightarrow> (string \<times> jsval) list \<Rightarrow> (string \<times> int \<times> string option) list \<Rightarrow> capability \<Rightarrow> bool" where
  "flag_fits ents lims overrides c \<longleftrightarrow>
     (case map_of ents (cap_key c) of Some v \<Rightarrow> is_boolean v | None \<Rightarrow> True)
     \<and> map_of lims (cap_key c) = None \<and> map_of overrides (cap_key c) = None"

definition limit_fits :: "(string \<times> jsval) list \<Rightarrow> (string \<times> jsval) list \<Rightarrow> (string \<times> int \<times> string option) list \<Rightarrow> capability \<Rightarrow> bool" where
  "limit_fits ents lims overrides c \<longleftrightarrow>
     \<not> cap_deprecated c \<and> map_of ents (cap_key c) = None
     \<and> (case map_of lims (cap_key c) of
          Some v \<Rightarrow> (case v of JNum (Fin q) \<Rightarrow> rat_is_int q \<and> int4 \<lfloor>q\<rfloor> \<and> (cap_key c = STORAGE_LIMIT_KEY \<longrightarrow> - 1 \<le> q) | _ \<Rightarrow> False)
        | None \<Rightarrow> first_number lims (tl (limit_keys (cap_key c))) = None)"

definition plan_fits :: "(string \<times> jsval) list \<Rightarrow> (string \<times> jsval) list \<Rightarrow> (string \<times> int \<times> string option) list \<Rightarrow> capability \<Rightarrow> bool" where
  "plan_fits ents lims overrides c = (if cap_type c = Limit_cap then limit_fits ents lims overrides c else flag_fits ents lims overrides c)"

text \<open>The rows of overrides have their keys, each once.\<close>

definition rows_keyed :: "(string option \<times> flag_override) list \<Rightarrow> bool" where
  "rows_keyed rows \<longleftrightarrow> distinct (map fst rows) \<and> (\<forall>k \<in> set (map fst rows). present k)"

lemma override_map_rows:
  assumes "rows_keyed rows" and "k \<noteq> []"
  shows "override_map rows k = map_of rows (Some k)"
proof -
  have f: "filter (\<lambda>(k, _). present k) rows = rows"
    using assms(1) by (auto simp: rows_keyed_def filter_id_conv)
  have some: "\<forall>r \<in> set rows. fst r \<noteq> None" using assms(1) by (auto simp: rows_keyed_def present_def)
  have "map fst rows = map Some (map fst (map (\<lambda>(k, r). (the k, r)) rows))"
    using some by (auto simp: split_def)
  hence "distinct (map Some (map fst (map (\<lambda>(k, r). (the k, r)) rows)))" using assms(1) by (simp only: rows_keyed_def)
  hence "distinct (map fst (map (\<lambda>(k, r). (the k, r)) rows))" by (simp only: distinct_map)
  hence "map_of (rev (map (\<lambda>(k, r). (the k, r)) rows)) k = map_of (map (\<lambda>(k, r). (the k, r)) rows) k"
    by (metis map_of_inject_set set_rev distinct_rev rev_map)
  moreover have "map_of (map (\<lambda>(k, r). (the k, r)) rows) k = map_of rows (Some k)"
    using some by (induction rows) auto
  ultimately show ?thesis by (simp add: override_map_def f)
qed

lemma limit_override_rows: "distinct (map fst rows) \<Longrightarrow> limit_override rows k = map_of rows k"
  unfolding limit_override_def by (metis map_of_inject_set set_rev distinct_rev rev_map)

lemma fresh_check:
  "check_entitlement env numeric False ws f t [] =
     (case entitlement_rpc env ws f of
        Rpc_throws \<Rightarrow> (refused (Some ''error'') (Some ''exception''), [])
      | a \<Rightarrow> (let p = read_entitlement numeric a
             in if pe_outcome p = Unavailable then (refused (Some ''error'') (pe_reason p), [])
                else (decided_result f p, store_result (mode_key ws f numeric False) (decided_result f p) (snd t) [])))"
  by (simp add: check_entitlement_def Let_def split: db_answer.split)


section \<open>Flags\<close>

lemma has_prop_map_of: "has_prop (JObj kvs) k \<longleftrightarrow> map_of kvs k \<noteq> None"
  by simp

lemma json_prop_map_of: "json_prop kvs k = (case map_of kvs k of None \<Rightarrow> Undefined | Some v \<Rightarrow> v)"
  by (simp add: json_prop_def)

lemma flag_entitlement:
  assumes "sql_plan parse db ws now = Some p" and "casts_ok pg"
    and "flag_fits (entries_of (pl_entitlements p)) (entries_of (pl_limits p)) (limit_overrides db ws) c"
  shows "sql_check_entitlement pg parse db now ws (cap_key c) =
     (case map_of (entries_of (pl_entitlements p)) (cap_key c) of
        Some v \<Rightarrow> Rpc_data (JObj [(''allowed'', JBool (v = JBool True)), (''plan'', JStr (pl_slug p))])
      | None \<Rightarrow> Rpc_data (JObj [(''allowed'', JBool False), (''plan'', JStr (pl_slug p)), (''reason'', JStr ''feature_not_in_plan'')]))"
  using assms
  by (auto simp: sql_check_entitlement_def Let_def json_prop_map_of flag_fits_def is_boolean_def casts_ok_def json_bool_def
      split: option.splits jsval.splits)

definition plan_says :: "plan_row \<Rightarrow> capability \<Rightarrow> bool" where
  "plan_says p c = ef_value (snapshot_flag (entries_of (pl_entitlements p)) c None)"

lemma plan_says_cases:
  assumes "flag_fits (entries_of (pl_entitlements p)) lims overrides c"
  shows "plan_says p c = (case map_of (entries_of (pl_entitlements p)) (cap_key c) of
           Some v \<Rightarrow> v = JBool True | None \<Rightarrow> cap_default c = JBool True)"
  using assms by (auto simp: plan_says_def snapshot_flag_def flag_fits_def json_prop_map_of is_boolean_def plan_flag_def
      split: option.splits jsval.splits)

definition flag_result :: "plan_row \<Rightarrow> capability \<Rightarrow> entitlement_result \<Rightarrow> bool" where
  "flag_result p c r \<longleftrightarrow>
     er_allowed r = plan_says p c \<and> \<not> is_unreadable_reason (er_reason r)
     \<and> (er_reason r = Some REGISTRY_DEFAULT \<longleftrightarrow>
          map_of (entries_of (pl_entitlements p)) (cap_key c) = None \<and> \<not> cap_deprecated c)"

lemma flag_check:
  assumes "sql_plan parse db ws now = Some p" and "casts_ok pg" "c \<in> set CAPABILITY_REGISTRY" "cap_type c \<noteq> Limit_cap"
    and "flag_fits (entries_of (pl_entitlements p)) (entries_of (pl_limits p)) (limit_overrides db ws) c"
  shows "flag_result p c (fst (check_entitlement (enforcing pg parse db now) False False ws (cap_key c) t []))"
proof -
  note says = plan_says_cases [OF assms(5)] and answer = flag_entitlement [OF assms(1,2,5)]
  have default: "cap_deprecated c \<Longrightarrow> cap_default c \<noteq> JBool True"
    using registry_sound [OF assms(3)] assms(4) by (auto simp: entry_sound_def split: jsval.splits)
  note reasons = is_unreadable_reason_def UNREADABLE_REASONS_def INVALID_ENTITLEMENT_RESPONSE_def
    INVALID_ENTITLEMENT_LIMIT_def REGISTRY_DEFAULT_def
  show ?thesis
  proof (cases "map_of (entries_of (pl_entitlements p)) (cap_key c)")
    case None
    thus ?thesis using default assms(4) get_capability_member [OF assms(3)]
      by (simp add: fresh_check enforcing_def answer flag_result_def says read_entitlement_def parse_entitlement_response_def
          text_prop_def decided_result_def registry_default_def Let_def reasons)
  next
    case (Some v)
    thus ?thesis
      by (simp add: fresh_check enforcing_def answer flag_result_def says read_entitlement_def parse_entitlement_response_def
          text_prop_def decided_result_def Let_def reasons)
  qed
qed

text \<open>The override, and without one the plan.\<close>

definition access_says :: "(string option \<times> flag_override) list \<Rightarrow> plan_row \<Rightarrow> capability \<Rightarrow> bool" where
  "access_says rows p c = (case map_of rows (Some (cap_key c)) of Some r \<Rightarrow> fo_enabled r | None \<Rightarrow> plan_says p c)"

definition access_result :: "(string option \<times> flag_override) list \<Rightarrow> plan_row \<Rightarrow> capability \<Rightarrow> entitlement_result \<Rightarrow> bool" where
  "access_result rows p c r \<longleftrightarrow> er_allowed r = access_says rows p c \<and> \<not> is_unreadable_reason (er_reason r)"

lemma access_answer:
  assumes "sql_plan parse db ws now = Some p" and "casts_ok pg"
    and "flag_fits (entries_of (pl_entitlements p)) (entries_of (pl_limits p)) (limit_overrides db ws) c"
  shows "sql_check_access rows (sql_check_entitlement pg parse db now ws) (cap_key c) =
     Rpc_data (case map_of rows (Some (cap_key c)) of
        Some r \<Rightarrow> JObj [(''allowed'', JBool (fo_enabled r)), (''source'', JStr ''override'')]
      | None \<Rightarrow> JObj [(''allowed'', JBool (map_of (entries_of (pl_entitlements p)) (cap_key c) = Some (JBool True))),
                      (''source'', JStr ''plan''), (''plan'', JStr (pl_slug p))])"
  by (auto simp: sql_check_access_def flag_entitlement [OF assms] split: option.splits)

lemma denial_result:
  assumes "flag_result p c (fst (check_entitlement env False False ws k t []))" and "c \<in> set CAPABILITY_REGISTRY" "cap_type c \<noteq> Limit_cap"
    and "flag_fits (entries_of (pl_entitlements p)) lims overrides c"
    and "map_of (entries_of (pl_entitlements p)) (cap_key c) \<noteq> Some (JBool True)"
    and "\<not> er_allowed denial" "er_reason denial = Some ''plan''"
  shows "er_allowed (fst (plan_denial_or_default env ws k denial t [])) = plan_says p c
    \<and> \<not> is_unreadable_reason (er_reason (fst (plan_denial_or_default env ws k denial t [])))"
proof -
  obtain r c' where r: "check_entitlement env False False ws k t [] = (r, c')" by (cases "check_entitlement env False False ws k t []")
  have default: "cap_deprecated c \<Longrightarrow> cap_default c \<noteq> JBool True"
    using registry_sound [OF assms(2)] assms(3) by (auto simp: entry_sound_def split: jsval.splits)
  have "er_reason r \<noteq> Some REGISTRY_DEFAULT \<Longrightarrow> \<not> plan_says p c"
    using assms(1,5) default by (auto simp: r flag_result_def plan_says_cases [OF assms(4)] split: option.splits)
  moreover have "\<not> is_unreadable_reason (Some ''plan'')"
    by (simp add: is_unreadable_reason_def UNREADABLE_REASONS_def INVALID_ENTITLEMENT_RESPONSE_def INVALID_ENTITLEMENT_LIMIT_def)
  ultimately show ?thesis
    using assms(1,6,7) by (auto simp: plan_denial_or_default_def r flag_result_def)
qed

lemma module_check:
  assumes "sql_plan parse db ws now = Some p" and "casts_ok pg" "c \<in> set CAPABILITY_REGISTRY" "cap_type c \<noteq> Limit_cap"
    and "flag_fits (entries_of (pl_entitlements p)) (entries_of (pl_limits p)) (limit_overrides db ws) c"
  shows "access_result (module_overrides db ws) p c (fst (check_module_access (enforcing pg parse db now) False ws (cap_key c) t []))"
    and "access_result (channel_overrides db ws) p c (fst (check_channel_access (enforcing pg parse db now) False ws (cap_key c) t []))"
proof -
  note answer = access_answer [OF assms(1,2,5)]
  note denied = denial_result [OF flag_check [OF assms] assms(3,4,5)]
  have says: "map_of (entries_of (pl_entitlements p)) (cap_key c) = Some (JBool True) \<Longrightarrow> plan_says p c"
    by (simp add: plan_says_cases [OF assms(5)])
  note defs = is_unreadable_reason_def UNREADABLE_REASONS_def INVALID_ENTITLEMENT_RESPONSE_def INVALID_ENTITLEMENT_LIMIT_def
    access_result_def access_says_def unless_unlimited_def text_prop_def Let_def
  have rpc: "module_rpc (enforcing pg parse db now) ws (cap_key c)
      = sql_check_access (module_overrides db ws) (sql_check_entitlement pg parse db now ws) (cap_key c)"
    "channel_rpc (enforcing pg parse db now) ws (cap_key c)
      = sql_check_access (channel_overrides db ws) (sql_check_entitlement pg parse db now ws) (cap_key c)"
    by (simp_all add: enforcing_def)
  show "access_result (module_overrides db ws) p c (fst (check_module_access (enforcing pg parse db now) False ws (cap_key c) t []))"
  proof (cases "map_of (module_overrides db ws) (Some (cap_key c))")
    case None
    show ?thesis
    proof (cases "map_of (entries_of (pl_entitlements p)) (cap_key c) = Some (JBool True)")
      case True
      thus ?thesis using None says
        by (simp add: check_module_access_def module_answer_def rpc answer parse_entitlement_response_def defs)
    next
      case False
      thus ?thesis using None denied [OF False]
        by (simp add: check_module_access_def module_answer_def rpc answer parse_entitlement_response_def access_result_def access_says_def
            unless_unlimited_def text_prop_def Let_def)
    qed
  next
    case (Some r)
    thus ?thesis by (simp add: check_module_access_def module_answer_def rpc answer parse_entitlement_response_def defs)
  qed
  show "access_result (channel_overrides db ws) p c (fst (check_channel_access (enforcing pg parse db now) False ws (cap_key c) t []))"
  proof (cases "map_of (channel_overrides db ws) (Some (cap_key c))")
    case None
    show ?thesis
    proof (cases "map_of (entries_of (pl_entitlements p)) (cap_key c) = Some (JBool True)")
      case True
      thus ?thesis using None says by (simp add: check_channel_access_def channel_answer_def rpc answer defs)
    next
      case False
      thus ?thesis using None denied [OF False]
        by (simp add: check_channel_access_def channel_answer_def rpc answer access_result_def access_says_def
            unless_unlimited_def text_prop_def Let_def)
    qed
  next
    case (Some r)
    thus ?thesis by (simp add: check_channel_access_def channel_answer_def rpc answer defs)
  qed
qed


section \<open>Limits\<close>

definition limit_says :: "plan_row \<Rightarrow> (string \<times> int \<times> string option) list \<Rightarrow> capability \<Rightarrow> rat option" where
  "limit_says p overrides c = el_value (resolve_limit c (entries_of (pl_limits p)) overrides)"

lemma fitting_number:
  assumes "rat_is_int q" and "int4 \<lfloor>q\<rfloor>" and "casts_ok pg"
  shows "to_int pg (JNum (Fin q)) = Some (Some \<lfloor>q\<rfloor>)" and "of_int \<lfloor>q\<rfloor> = q"
proof -
  obtain n where n: "q = of_int n" using assms(1) by (auto simp: rat_is_int_iff)
  show "of_int \<lfloor>q\<rfloor> = q" by (simp add: n)
  show "to_int pg (JNum (Fin q)) = Some (Some \<lfloor>q\<rfloor>)"
    using assms(2,3) by (simp add: n int4_def casts_ok_def)
qed

lemma first_number_Cons:
  "first_number lims (k # ks) = (case finite_number (json_prop lims k) of Some q \<Rightarrow> Some q | None \<Rightarrow> first_number lims ks)"
  by (simp add: first_number_def split: option.split)

lemma limit_keys_Cons: "limit_keys k = k # tl (limit_keys k)"
  by (simp add: limit_keys_def)

lemma limit_check:
  assumes "sql_plan parse db ws now = Some p" and "casts_ok pg" "c \<in> set CAPABILITY_REGISTRY" "cap_type c = Limit_cap"
    and "limit_fits (entries_of (pl_entitlements p)) (entries_of (pl_limits p)) (limit_overrides db ws) c"
    and "distinct (map fst (limit_overrides db ws))"
    and r: "r = fst (check_entitlement (enforcing pg parse db now) True False ws (cap_key c) t [])"
  shows "er_allowed r \<and> \<not> is_unreadable_reason (er_reason r) \<and> er_limit r = limit_says p (limit_overrides db ws) c
    \<and> er_limit r \<noteq> None"
proof -
  let ?k = "cap_key c" and ?lims = "entries_of (pl_limits p)"
  have ents: "map_of (entries_of (pl_entitlements p)) ?k = None" and dep: "\<not> cap_deprecated c"
    using assms(5) by (auto simp: limit_fits_def)
  note reasons = is_unreadable_reason_def UNREADABLE_REASONS_def INVALID_ENTITLEMENT_RESPONSE_def
    INVALID_ENTITLEMENT_LIMIT_def REGISTRY_DEFAULT_def
  note check = r fresh_check enforcing_def sql_check_entitlement_def assms(1) ents read_entitlement_def parse_numeric_response_def
    parse_entitlement_response_def text_prop_def decided_result_def limit_valid_def finite_number_def json_number_def Let_def reasons
  note shown = limit_says_def resolve_limit_def limit_override_rows [OF assms(6)]
  obtain d where d: "default_limit c = Some d"
    using registry_sound [OF assms(3)] assms(4)
    by (auto simp: entry_sound_def default_limit_def num_is_finite_iff split: jsval.splits)
  show ?thesis
  proof (cases "map_of (limit_overrides db ws) ?k")
    case (Some vn)
    thus ?thesis by (cases vn) (simp add: check shown)
  next
    case None
    note none = None
    show ?thesis
    proof (cases "map_of ?lims ?k")
      case None
      hence tl: "first_number ?lims (tl (limit_keys ?k)) = None" using assms(5) by (simp add: limit_fits_def)
      have "first_number ?lims (limit_keys ?k) = None"
        using None tl by (subst limit_keys_Cons) (simp add: first_number_Cons json_prop_map_of finite_number_def)
      moreover have "?k = STORAGE_LIMIT_KEY \<Longrightarrow> storage_limit_mb (Some ?lims) = None"
        using None by (simp add: storage_limit_mb_def json_prop_map_of finite_number_def)
      ultimately have says: "limit_says p (limit_overrides db ws) c = Some d"
        using none d by (cases "?k = STORAGE_LIMIT_KEY") (simp_all add: shown)
      show ?thesis
        using None none says d dep get_capability_member [OF assms(3)] assms(4)
        by (simp add: check registry_default_def)
    next
      case (Some v)
      then obtain q where v: "v = JNum (Fin q)" and q: "rat_is_int q" "int4 \<lfloor>q\<rfloor>" "?k = STORAGE_LIMIT_KEY \<longrightarrow> - 1 \<le> q"
        using assms(5) by (auto simp: limit_fits_def split: jsval.splits jsnum.splits)
      note num = fitting_number [OF q(1,2) assms(2)]
      have "first_number ?lims (limit_keys ?k) = Some q"
        using Some v by (subst limit_keys_Cons) (simp add: first_number_Cons json_prop_map_of finite_number_def)
      moreover have "storage_limit_mb (Some ?lims) = Some q" if k: "?k = STORAGE_LIMIT_KEY"
      proof -
        obtain n where n: "q = of_int n" using q(1) by (auto simp: rat_is_int_iff)
        have "- 1 \<le> n" using q(3) k unfolding n by (metis of_int_1 of_int_le_iff of_int_minus)
        hence "q < 0 \<Longrightarrow> q = - 1" using n by simp
        thus ?thesis using Some v k by (auto simp: storage_limit_mb_def json_prop_map_of finite_number_def)
      qed
      ultimately have says: "limit_says p (limit_overrides db ws) c = Some q" using none by (simp add: shown)
      show ?thesis using Some none says v num by (simp add: check json_prop_map_of)
    qed
  qed
qed

section \<open>The gates and the snapshot\<close>

definition gate_lets :: "gate_env \<Rightarrow> string \<Rightarrow> capability \<Rightarrow> rat \<Rightarrow> int \<times> int \<Rightarrow> bool" where
  "gate_lets env ws c used t \<longleftrightarrow>
     fst (case cap_type c of
            Feature_cap \<Rightarrow> require_feature env (cap_key c) (pinned ws) t []
          | Module_cap \<Rightarrow> require_module env (cap_key c) (pinned ws) t []
          | Channel_cap \<Rightarrow> require_channel env (cap_key c) (pinned ws) t []
          | Limit_cap \<Rightarrow> require_limit env (cap_key c) (\<lambda>_. Some used) (pinned ws) t []) = Goes_through"

definition flag_shown :: "(string \<times> effective_flag) list \<Rightarrow> string \<Rightarrow> bool" where
  "flag_shown flags k \<longleftrightarrow> (case map_of flags k of Some f \<Rightarrow> ef_value f | None \<Rightarrow> False)"

definition limit_shown :: "(string \<times> limit_entry) list \<Rightarrow> string \<Rightarrow> rat \<Rightarrow> bool" where
  "limit_shown lims k used \<longleftrightarrow>
     (case Option.bind (map_of lims k) el_value of Some l \<Rightarrow> l = - 1 \<or> used < l | None \<Rightarrow> False)"

definition shown_lets :: "effective_entitlements \<Rightarrow> capability \<Rightarrow> rat \<Rightarrow> bool" where
  "shown_lets s c used \<longleftrightarrow>
     (case cap_type c of
        Feature_cap \<Rightarrow> flag_shown (en_features s) (cap_key c)
      | Module_cap \<Rightarrow> flag_shown (en_modules s) (cap_key c)
      | Channel_cap \<Rightarrow> flag_shown (en_channels s) (cap_key c)
      | Limit_cap \<Rightarrow> limit_shown (en_limits s) (cap_key c) used)"

lemma pinned_gate: "ws \<noteq> [] \<Longrightarrow> configured env \<Longrightarrow> with_workspace env (pinned ws) missing gate c = gate ws"
  by (simp add: with_workspace_def resolve_gate_workspace_def pinned_def)

lemma enforcing_simps [simp]:
  "configured (enforcing pg parse db now)" "\<not> billing_unlimited (enforcing pg parse db now)"
  by (simp_all add: enforcing_def)

text \<open>C11: Where the plan of a workspace can be read, every gate of the server decides as the snapshot of the same tables
  shows its clients. For each capability of the registry that the plan and the overrides hold in the shape the plan
  editor means (a flag as a boolean among the entitlements, a limit as a whole number among the limits, neither under the other's
  name; no limit stands only under a legacy key, none is retired), whatever plan the subscription gives: the gate of a feature, module or
  channel lets a request through exactly when the snapshot shows it on, and the gate of a limit exactly when the use is below
  the number shown or that is minus one.\<close>

theorem gates_follow_snapshot:
  assumes "get_workspace_plan_info parse reads db ws now = Inr i" and "overrides_read reads = Read_ok"
    and "texts_filled (subscriptions db ws)" "casts_ok pg" "ws \<noteq> []"
    and "distinct (map fst (limit_overrides db ws))" "rows_keyed (module_overrides db ws)" "rows_keyed (channel_overrides db ws)"
    and "c \<in> set CAPABILITY_REGISTRY" "cap_key c \<noteq> []"
    and "plan_fits (plan_entitlements_of i) (plan_limits_of i) (limit_overrides db ws) c"
  shows "gate_lets (enforcing pg parse db now) ws c used t
       = shown_lets (resolve_effective_entitlements i (module_overrides db ws) (channel_overrides db ws)) c used"
proof -
  let ?env = "enforcing pg parse db now" and ?p = "pi_plan i"
  note plan = sql_plan_of_info [OF assms(1,3)]
  note rows = info_overrides [OF assms(1,2)]
  note entry = snapshot_shows [OF assms(9), of i "module_overrides db ws" "channel_overrides db ws"]
  note mods = override_map_rows [OF assms(7,10)] and chans = override_map_rows [OF assms(8,10)]
  note lists = plan_entitlements_of_def plan_limits_of_def
  have flag: "flag_fits (entries_of (pl_entitlements ?p)) (entries_of (pl_limits ?p)) (limit_overrides db ws) c" if "cap_type c \<noteq> Limit_cap"
    using assms(11) that by (simp add: plan_fits_def lists)
  show ?thesis
  proof (cases "cap_type c")
    case Feature_cap
    have "flag_result ?p c (fst (check_entitlement ?env False False ws (cap_key c) t []))"
      using flag_check [OF plan assms(4,9)] flag Feature_cap by simp
    thus ?thesis using Feature_cap entry assms(5)
      by (simp add: gate_lets_def shown_lets_def flag_shown_def require_feature_def pinned_gate case_prod_beta flag_result_def
          plan_says_def entry_shown_def Let_def lists)
  next
    case Module_cap
    have "access_result (module_overrides db ws) ?p c (fst (check_module_access ?env False ws (cap_key c) t []))"
      using module_check(1) [OF plan assms(4,9)] flag Module_cap by simp
    thus ?thesis using Module_cap entry assms(5)
      by (auto simp: gate_lets_def shown_lets_def flag_shown_def require_module_def enforce_module_def pinned_gate case_prod_beta
          access_result_def access_says_def plan_says_def entry_shown_def Let_def lists mods snapshot_flag_def split: option.splits)
  next
    case Channel_cap
    have "access_result (channel_overrides db ws) ?p c (fst (check_channel_access ?env False ws (cap_key c) t []))"
      using module_check(2) [OF plan assms(4,9)] flag Channel_cap by simp
    thus ?thesis using Channel_cap entry assms(5)
      by (auto simp: gate_lets_def shown_lets_def flag_shown_def require_channel_def pinned_gate case_prod_beta
          access_result_def access_says_def plan_says_def entry_shown_def Let_def lists chans snapshot_flag_def split: option.splits)
  next
    case Limit_cap
    have fits: "limit_fits (entries_of (pl_entitlements ?p)) (entries_of (pl_limits ?p)) (limit_overrides db ws) c"
      using assms(11) Limit_cap by (simp add: plan_fits_def lists)
    note check = limit_check [OF plan assms(4,9) Limit_cap fits assms(6) refl, of t]
    then obtain l where l: "limit_says ?p (limit_overrides db ws) c = Some l" by (cases "limit_says ?p (limit_overrides db ws) c") auto
    with check have "er_limit (fst (check_entitlement ?env True False ws (cap_key c) t [])) = Some l" by simp
    with l check show ?thesis using Limit_cap entry assms(5)
      by (auto simp: gate_lets_def shown_lets_def limit_shown_def require_limit_def pinned_gate case_prod_beta limit_verdict_def
          limit_says_def entry_shown_def Let_def lists rows split: option.splits)
  qed
qed


definition sample_casts :: pg_casts where
  "sample_casts =
     \<lparr>to_bool = (\<lambda>v. case v of JBool b \<Rightarrow> Some (Some b) | Null \<Rightarrow> Some None | _ \<Rightarrow> None),
      to_int = (\<lambda>v. case v of
          JNum (Fin q) \<Rightarrow> if rat_is_int q \<and> int4 \<lfloor>q\<rfloor> then Some (Some \<lfloor>q\<rfloor>) else None
        | Null \<Rightarrow> Some None | _ \<Rightarrow> None)\<rparr>"

definition sample_plan :: plan_row where
  "sample_plan =
     \<lparr>pl_id = ''p'', pl_slug = ''pro'', pl_active = True,
      pl_entitlements = Some [(''ai_assistant'', JBool True)], pl_limits = Some [(''max_agents'', JNum (Fin 5))]\<rparr>"

definition sample_tables :: plan_tables where
  "sample_tables =
     \<lparr>subscriptions = [''w'' \<mapsto> \<lparr>su_status = Some ''active'', su_plan = Some ''p'', su_trial_end = None, su_fallback = None,
                               su_cancel = None, su_period_end = None\<rparr>],
      plans = [sample_plan], limit_overrides = (\<lambda>_. []), module_overrides = (\<lambda>_. []), channel_overrides = (\<lambda>_. [])\<rparr>"

definition all_read :: plan_reads where
  "all_read = \<lparr>subscription_read = Read_ok, overrides_read = Read_ok, plan_read = Read_ok, free_read = Read_ok\<rparr>"

definition sample_info :: plan_info where
  "sample_info = \<lparr>pi_plan = sample_plan, pi_subscription = subscriptions sample_tables ''w'', pi_overrides = []\<rparr>"

definition sample_module :: capability where
  "sample_module = cap ''ai_assistant'' Module_cap ''modules'' (JBool False) True True True 30"

definition sample_limit :: capability where
  "sample_limit = the (get_capability ''max_agents'')"

lemma sample_casts_ok: "casts_ok sample_casts"
  by (simp add: casts_ok_def sample_casts_def int4_def)

lemma sample_plan_info: "get_workspace_plan_info (\<lambda>_. None) all_read sample_tables ''w'' 0 = Inr sample_info"
  by (simp add: get_workspace_plan_info_def all_read_def sample_tables_def assigned_plan_def assigned_plan_applies_def present_def
      plan_by_id_def sample_plan_def sample_info_def js_trim_def js_space_def Let_def)

lemma gates_follow_snapshot_witness:
  "gate_lets (enforcing sample_casts (\<lambda>_. None) sample_tables 0) ''w'' sample_module 0 (0, 0)
     = shown_lets (resolve_effective_entitlements sample_info [] []) sample_module 0
   \<and> plan_says sample_plan sample_module \<and> cap_default sample_module = JBool False"
proof -
  have rows: "module_overrides sample_tables ''w'' = []" "channel_overrides sample_tables ''w'' = []"
    "limit_overrides sample_tables ''w'' = []"
    by (simp_all add: sample_tables_def)
  have hyps: "overrides_read all_read = Read_ok" "texts_filled (subscriptions sample_tables ''w'')" "''w'' \<noteq> []"
    "distinct (map fst (limit_overrides sample_tables ''w''))" "rows_keyed (module_overrides sample_tables ''w'')"
    "rows_keyed (channel_overrides sample_tables ''w'')" "cap_key sample_module \<noteq> []"
    by (simp_all add: all_read_def texts_filled_def sample_tables_def rows_keyed_def sample_module_def cap_def)
  have member: "sample_module \<in> set CAPABILITY_REGISTRY"
    by (simp add: sample_module_def CAPABILITY_REGISTRY_def MODULES_AND_COMMERCE_def)
  have fits: "plan_fits (plan_entitlements_of sample_info) (plan_limits_of sample_info) (limit_overrides sample_tables ''w'') sample_module"
    by (simp add: plan_fits_def flag_fits_def sample_module_def cap_def plan_entitlements_of_def plan_limits_of_def entries_of_def
        sample_info_def sample_plan_def is_boolean_def rows)
  note same = gates_follow_snapshot [OF sample_plan_info hyps(1,2) sample_casts_ok hyps(3-6) member hyps(7) fits, of 0 "(0, 0)"]
  have "plan_says sample_plan sample_module"
    by (simp add: plan_says_def snapshot_flag_def sample_plan_def sample_module_def cap_def entries_of_def json_prop_def plan_flag_def)
  thus ?thesis using same by (simp add: rows sample_module_def cap_def)
qed

section \<open>One decision, two entry points\<close>

text \<open>The check of the number of conversations that callers without a request ask and the gate of the routes are one
  decision: on a server that knows its database, whatever it answers, whatever the cache holds and whether the use can
  be read or not, the gate lets through exactly what the check allows, answers 503 exactly where the check says to retry and 403
  exactly where it refuses for good, and both leave the same cache. On a server without its database's address the gate
  lets everything through.\<close>

theorem conversation_checks_agree:
  assumes "ws \<noteq> []"
  shows "let (a, c1) = check_max_conversations env usage ws t c; (g, c2) = enforce_max_conversations env usage ws t c
         in if configured env
            then c1 = c2 \<and> (g = Goes_through \<longleftrightarrow> ca_allowed a) \<and> ((\<exists>e. g = Answered 503 e) \<longleftrightarrow> ca_retryable a)
               \<and> ((\<exists>e. g = Answered 403 e) \<longleftrightarrow> \<not> ca_allowed a \<and> \<not> ca_retryable a)
            else g = Goes_through \<and> c2 = c"
proof (cases "configured env")
  case True
  obtain r c' where r: "check_entitlement env True (billing_unlimited env) ws MAX_CONVERSATIONS_KEY t c = (r, c')"
    by (cases "check_entitlement env True (billing_unlimited env) ws MAX_CONVERSATIONS_KEY t c")
  show ?thesis
    using assms True
    by (auto simp: check_max_conversations_def enforce_max_conversations_def enforce_limit_on_def require_limit_def pinned_gate r
        limit_verdict_def split: option.split)
next
  case False
  thus ?thesis
    using assms
    by (simp add: enforce_max_conversations_def enforce_limit_on_def require_limit_def with_workspace_def case_prod_beta)
qed

section \<open>What cannot be read\<close>

lemma access_not_granted:
  assumes "map_of overrides (Some k) = None" and "entitled k = Rpc_data e" and "get_prop e ''allowed'' \<noteq> JBool True"
  shows "sql_check_access overrides entitled k
    = Rpc_data (JObj [(''allowed'', JBool False), (''source'', JStr ''plan''), (''plan'', get_prop e ''plan'')])"
  using assms by (simp add: sql_check_access_def)

text \<open>C26: An answer that cannot be read is taken for a denial. Take a module (or channel) without an override that the plan does not
  grant: the first function of the database denies it, naming the plan, and whether the registry grants it is asked of the second function. When that
  one cannot be read, the gate of the module answers 403, not 503, and the stop of a channel, which is meant to stop nothing it cannot
  read, stops it and keeps that for half a minute. A channel whose first answer is null is stopped the same way.\<close>

theorem unreadable_answer_denies:
  assumes "configured env" "\<not> billing_unlimited env" "ws \<noteq> []"
    and "module_rpc env ws k = sql_check_access modules entitled k" and "map_of modules (Some k) = None"
    and "channel_rpc env ws k = sql_check_access channels entitled k \<or> channel_rpc env ws k = Rpc_data Null"
    and "map_of channels (Some k) = None"
    and "entitled k = Rpc_data e" and "get_prop e ''allowed'' \<noteq> JBool True"
    and "entitlement_rpc env ws k = Rpc_error"
  shows "enforce_module env ws k t [] = (Answered 403 (''Module '' @ single_quoted k @ '' is not enabled''), [])
    \<and> is_plan_stopped env (Some True) ws (Some (Stop_channel, k)) t ([], [])
      = (True, [], [(stop_key ws (Stop_channel, k), True, snd t + STOP_TTL_MS)])"
proof -
  have check: "check_entitlement env False False ws k t [] = (refused (Some ''error'') (Some ''rpc_error''), [])"
    by (simp add: fresh_check assms(10) read_entitlement_def parse_entitlement_response_def unavailable_def)
  have denial: "plan_denial_or_default env ws k r t [] = (r, [])" for r
    by (simp add: plan_denial_or_default_def check refused_def REGISTRY_DEFAULT_def)
  have readable: "\<not> is_unreadable_reason (Some ''plan'')" "\<not> is_unreadable_reason None"
    by (simp_all add: is_unreadable_reason_def UNREADABLE_REASONS_def INVALID_ENTITLEMENT_RESPONSE_def INVALID_ENTITLEMENT_LIMIT_def)
  note denied = access_not_granted [of _ k entitled e, OF _ assms(8,9)]
  have "enforce_module env ws k t [] = (Answered 403 (''Module '' @ single_quoted k @ '' is not enabled''), [])"
    using assms(1-3) readable
    by (simp add: enforce_module_def check_module_access_def unless_unlimited_def module_answer_def assms(4) denied [OF assms(5)]
        parse_entitlement_response_def text_prop_def denial Let_def)
  moreover have "is_plan_stopped env (Some True) ws (Some (Stop_channel, k)) t ([], [])
      = (True, [], [(stop_key ws (Stop_channel, k), True, snd t + STOP_TTL_MS)])"
    using assms(6)
  proof
    assume "channel_rpc env ws k = sql_check_access channels entitled k"
    thus ?thesis using assms(1-3) readable
      by (simp add: is_plan_stopped_def plan_stops_active_def check_target_def check_channel_access_def unless_unlimited_def
          channel_answer_def denied [OF assms(7)] text_prop_def denial store_stop_def MAX_STOP_ENTRIES_def Let_def)
  next
    assume "channel_rpc env ws k = Rpc_data Null"
    thus ?thesis using assms(1-3) readable
      by (simp add: is_plan_stopped_def plan_stops_active_def check_target_def check_channel_access_def unless_unlimited_def
          channel_answer_def text_prop_def store_stop_def MAX_STOP_ENTRIES_def Let_def)
  qed
  ultimately show ?thesis by simp
qed

text \<open>What \<open>check_workspace_entitlement\<close> answers inside the database for a feature that the plan does not mention.\<close>

definition not_in_plan :: "string \<Rightarrow> jsval" where
  "not_in_plan plan = JObj [(''allowed'', JBool False), (''plan'', JStr plan), (''reason'', JStr ''feature_not_in_plan'')]"

definition blinking_access :: "string \<Rightarrow> string \<Rightarrow> db_answer" where
  "blinking_access ws k = sql_check_access [] (\<lambda>_. Rpc_data (not_in_plan ''starter'')) k"

definition blinking_env :: gate_env where
  "blinking_env =
     \<lparr>entitlement_rpc = (\<lambda>_ _. Rpc_error), module_rpc = blinking_access, channel_rpc = blinking_access,
      configured = True, billing_unlimited = False\<rparr>"

lemma unreadable_answer_denies_witness:
  "enforce_module blinking_env ''w'' ''chat'' (0, 5) [] = (Answered 403 (''Module '' @ single_quoted ''chat'' @ '' is not enabled''), [])
   \<and> fst (is_plan_stopped blinking_env (Some True) ''w'' (Some (Stop_channel, ''chat'')) (0, 5) ([], []))"
proof -
  have "get_prop (not_in_plan ''starter'') ''allowed'' \<noteq> JBool True" by (simp add: not_in_plan_def)
  then show ?thesis
    using unreadable_answer_denies [of blinking_env "''w''" "''chat''" "[]" "\<lambda>_. Rpc_data (not_in_plan ''starter'')" "[]"
      "not_in_plan ''starter''" "(0, 5)"]
    by (simp add: blinking_env_def blinking_access_def)
qed

section \<open>Two paths of one limit\<close>

text \<open>C27: The single and the bulk way to create contacts, said to be governed by one check, disagree. Where the plan
  holds the key among its entitlements, which the check of a plan accepts with a warning, the database allows it without a number: the gate
  of a single contact answers 503, and a batch of any size fits. Where the database cannot be read the single path answers 503
  and the batch 403, as if the plan had refused.\<close>

theorem contact_paths_disagree:
  assumes "configured env" "\<not> billing_unlimited env" "ws \<noteq> []" "0 < n"
  shows "fst (validate_plan_payload (Some [(MAX_CONTACTS_KEY, JBool True)]) None)
    \<and> (entitlement_rpc env ws MAX_CONTACTS_KEY = Rpc_data (JObj [(''allowed'', JBool True), (''plan'', JStr slug)]) \<longrightarrow>
        fst (enforce_max_contacts env usage ws t []) = Answered 503 ''entitlement_status_unavailable''
        \<and> fst (contacts_batch_fits env usage ws n t []) = Goes_through)
    \<and> (entitlement_rpc env ws MAX_CONTACTS_KEY = Rpc_error \<longrightarrow>
        fst (enforce_max_contacts env usage ws t []) = Answered 503 ''entitlement_status_unavailable''
        \<and> fst (contacts_batch_fits env usage ws n t []) = Answered 403 ''Feature not available on your current plan'')"
proof (intro conjI impI)
  have "snd (validate_plan_payload (Some [(MAX_CONTACTS_KEY, JBool True)]) None)
      = entitlement_issues (MAX_CONTACTS_KEY, JBool True)"
    by (simp add: validate_plan_payload_def Let_def)
  thus "fst (validate_plan_payload (Some [(MAX_CONTACTS_KEY, JBool True)]) None)"
    by (simp add: validate_plan_payload_def Let_def entitlement_issues_def is_boolean_def split: option.split)
next
  note defs = enforce_max_contacts_def enforce_limit_on_def require_limit_def contacts_batch_fits_def pinned_gate fresh_check
    read_entitlement_def parse_numeric_response_def parse_entitlement_response_def unavailable_def limit_valid_def finite_number_def
    text_prop_def decided_result_def refused_def limit_verdict_def is_unreadable_reason_def UNREADABLE_REASONS_def Let_def
  assume a: "entitlement_rpc env ws MAX_CONTACTS_KEY = Rpc_data (JObj [(''allowed'', JBool True), (''plan'', JStr slug)])"
  show "fst (enforce_max_contacts env usage ws t []) = Answered 503 ''entitlement_status_unavailable''"
    using assms a by (simp add: defs)
  show "fst (contacts_batch_fits env usage ws n t []) = Goes_through"
    using assms a by (simp add: defs)
next
  note defs = enforce_max_contacts_def enforce_limit_on_def require_limit_def contacts_batch_fits_def pinned_gate fresh_check
    read_entitlement_def parse_numeric_response_def parse_entitlement_response_def unavailable_def
    refused_def limit_verdict_def is_unreadable_reason_def UNREADABLE_REASONS_def Let_def
  assume a: "entitlement_rpc env ws MAX_CONTACTS_KEY = Rpc_error"
  show "fst (enforce_max_contacts env usage ws t []) = Answered 503 ''entitlement_status_unavailable''"
    using assms a by (simp add: defs)
  show "fst (contacts_batch_fits env usage ws n t []) = Answered 403 ''Feature not available on your current plan''"
    using assms a by (simp add: defs)
qed

definition flagged_env :: gate_env where
  "flagged_env =
     \<lparr>entitlement_rpc = (\<lambda>_ _. Rpc_data (JObj [(''allowed'', JBool True), (''plan'', JStr ''pro'')])),
      module_rpc = (\<lambda>_ _. Rpc_error), channel_rpc = (\<lambda>_ _. Rpc_error), configured = True, billing_unlimited = False\<rparr>"

lemma contact_paths_disagree_witness:
  "fst (enforce_max_contacts flagged_env (\<lambda>_. Some 3) ''w'' (0, 0) []) = Answered 503 ''entitlement_status_unavailable''
   \<and> fst (contacts_batch_fits flagged_env (\<lambda>_. Some 3) ''w'' 1000 (0, 0) []) = Goes_through"
  using contact_paths_disagree [of flagged_env "''w''" 1000 "''pro''" "\<lambda>_. Some 3" "(0, 0)"] by (simp add: flagged_env_def)

end
