(* ===== verification/Gateway_Verification.thy ===== *)
theory Gateway_Verification
  imports Billing_Money Calendar
begin

text \<open>
  The fail-closed decisions around a payment gateway's callback: which reference a callback may
  carry (\<open>server/services/billing/providerBinding.ts\<close>), what the gateway's verification is asked, and
  whether its answer may finalise the payment (\<open>gatewayVerification.ts\<close>). Callback parameters and
  stored metadata are untyped values.
\<close>

section \<open>Reference contracts\<close>

record reference_contract =
  requires_binding :: bool
  callback_keys :: "string list"

definition bound_to :: "string list \<Rightarrow> reference_contract" where
  "bound_to keys = \<lparr>requires_binding = True, callback_keys = keys\<rparr>"

definition CONTRACTS :: "(string \<times> reference_contract) list" where
  "CONTRACTS =
     [(''zarinpal'', bound_to [''Authority'', ''authority'']),
      (''zarinpal_test'', bound_to [''Authority'', ''authority'']),
      (''internal_test'', bound_to [''authority'', ''Authority'']),
      (''idpay'', bound_to [''id'']),
      (''idpay_test'', bound_to [''id'']),
      (''zibal'', bound_to [''trackId'', ''trackid'', ''track_id'']),
      (''zibal_test'', bound_to [''trackId'', ''trackid'', ''track_id'']),
      (''nextpay'', bound_to [''trans_id'', ''transid'']),
      (''payping'', bound_to [''paymentCode'', ''code'']),
      (''sep_shaparak'', bound_to [''Token'', ''token'']),
      (''iranpardakht_sandbox'', bound_to [''authority'', ''Authority'']),
      (''stripe'', bound_to [''session_id'']),
      (''paypal'', bound_to [''token'']),
      (''paddle'', bound_to [''_ptxn'']),
      (''paddle_sandbox'', bound_to [''_ptxn'']),
      (''lemon_squeezy'', \<lparr>requires_binding = False, callback_keys = []\<rparr>)]"

definition GENERIC_KEYS :: "string list" where
  "GENERIC_KEYS =
     [''Authority'', ''authority'', ''trackId'', ''trackid'', ''track_id'',
      ''id'', ''refId'', ''ref_id'', ''refnum'', ''RefNum'', ''token'', ''Token'', ''trans_id'', ''code'']"

definition get_provider_reference_contract :: "string \<Rightarrow> reference_contract" where
  "get_provider_reference_contract provider =
     (case map_of CONTRACTS provider of
        Some c \<Rightarrow> c
      | None \<Rightarrow> \<lparr>requires_binding = False, callback_keys = GENERIC_KEYS\<rparr>)"

definition requires_reference_binding :: "string \<Rightarrow> bool" where
  "requires_reference_binding provider = requires_binding (get_provider_reference_contract provider)"

definition read_param :: "jsval \<Rightarrow> string \<Rightarrow> string option" where
  "read_param record key =
     (case get_prop record key of
        JStr s \<Rightarrow> if js_trim s \<noteq> [] then Some (js_trim s) else None
      | JNum (Fin q) \<Rightarrow> Some (js_num_text q)
      | _ \<Rightarrow> None)"

definition add_candidate :: "jsval \<Rightarrow> string list \<Rightarrow> string \<Rightarrow> string list" where
  "add_candidate params out key =
     (case read_param params key of
        Some v \<Rightarrow> if v \<noteq> [] \<and> v \<notin> set out then out @ [v] else out
      | None \<Rightarrow> out)"

text \<open>A value that is neither a record nor an array has no properties, so it yields nothing.\<close>

definition extract_provider_ref_candidates :: "string \<Rightarrow> jsval \<Rightarrow> string list" where
  "extract_provider_ref_candidates provider params =
     foldl (add_candidate params) [] (callback_keys (get_provider_reference_contract provider))"

definition POST_RETURN_GATEWAYS :: "string set" where
  "POST_RETURN_GATEWAYS = {''sep_shaparak'', ''idpay'', ''idpay_test'', ''payping''}"

definition gateway_returns_by_post :: "string \<Rightarrow> bool" where
  "gateway_returns_by_post provider \<longleftrightarrow> provider \<in> POST_RETURN_GATEWAYS"

lemma read_param_not_Nil: "read_param r k = Some v \<Longrightarrow> v \<noteq> []"
proof -
  assume "read_param r k = Some v"
  then consider "js_trim v = v" "v \<noteq> []" | s where "v = js_trim s" "v \<noteq> []" | q where "v = js_num_text q"
    by (auto simp: read_param_def split: jsval.splits jsnum.splits if_splits)
  then show "v \<noteq> []"
    by cases (auto simp: js_num_text_def show_scaled_def show_int_def Let_def split: option.splits)
qed

lemma foldl_add_candidate:
  "set (foldl (add_candidate params) out keys)
   = set out \<union> {v. \<exists>k\<in>set keys. read_param params k = Some v}"
proof (induction keys arbitrary: out)
  case (Cons k keys)
  have "set (add_candidate params out k) = set out \<union> {v. read_param params k = Some v}"
    using read_param_not_Nil [of params k] by (auto simp: add_candidate_def split: option.splits)
  with Cons show ?case by auto
qed simp

lemma extract_candidates_set:
  "set (extract_provider_ref_candidates provider params)
   = {v. \<exists>k\<in>set (callback_keys (get_provider_reference_contract provider)). read_param params k = Some v}"
  by (simp add: extract_provider_ref_candidates_def foldl_add_candidate)

lemma callback_keys_not_amount:
  "''amount'' \<notin> set (callback_keys (get_provider_reference_contract provider))"
proof -
  have "list_all (\<lambda>(p, c). ''amount'' \<notin> set (callback_keys c)) CONTRACTS"
    by (simp add: CONTRACTS_def bound_to_def)
  then have "map_of CONTRACTS provider = Some c \<Longrightarrow> ''amount'' \<notin> set (callback_keys c)" for c
    by (auto simp: list_all_iff dest!: map_of_SomeD)
  then show ?thesis
    by (auto simp: get_provider_reference_contract_def GENERIC_KEYS_def split: option.splits)
qed

section \<open>Binding\<close>

datatype binding_result = Bound | Rejected string

record bindable_intent =
  provider_name :: string
  provider_ref :: "string option"

definition stored_reference :: "string option \<Rightarrow> string" where
  "stored_reference r = js_trim (case r of None \<Rightarrow> [] | Some s \<Rightarrow> s)"

definition provider_ref_matches_intent :: "bindable_intent \<Rightarrow> jsval \<Rightarrow> binding_result" where
  "provider_ref_matches_intent intent params =
     (let stored = stored_reference (provider_ref intent);
          candidates = extract_provider_ref_candidates (provider_name intent) params
      in if stored = [] then
           (if requires_reference_binding (provider_name intent)
            then Rejected ''missing_stored_provider_reference'' else Bound)
         else if candidates = [] then Rejected ''missing_provider_reference''
         else if requires_reference_binding (provider_name intent) then
           (if list_ex (\<lambda>c. c \<noteq> stored) candidates
            then Rejected ''provider_reference_mismatch'' else Bound)
         else if stored \<notin> set candidates then Rejected ''provider_reference_mismatch''
         else Bound)"

text \<open>The parameters of the verification call: what the callback carried, with every declared
  reference key overwritten by the stored reference, and the server's amount.\<close>

definition forwarded_params :: "jsval \<Rightarrow> string \<Rightarrow> string option" where
  "forwarded_params params key =
     (case get_prop params key of
        JStr s \<Rightarrow> Some s
      | JNum (Fin q) \<Rightarrow> Some (js_num_text q)
      | _ \<Rightarrow> None)"

definition build_bound_verify_params ::
  "bindable_intent \<Rightarrow> jsval \<Rightarrow> rat \<Rightarrow> (string \<Rightarrow> string option)" where
  "build_bound_verify_params intent params amount_irr =
     (let stored = stored_reference (provider_ref intent);
          keys = callback_keys (get_provider_reference_contract (provider_name intent));
          out = forwarded_params params;
          out' = (if stored = [] then out else foldl (\<lambda>m k. m(k \<mapsto> stored)) out keys)
      in out'(''amount'' \<mapsto> js_num_text amount_irr))"

lemma foldl_upd_same:
  "foldl (\<lambda>m k. m(k \<mapsto> v)) m keys k' = (if k' \<in> set keys then Some v else m k')"
  by (induction keys arbitrary: m) auto

section \<open>The verification decision\<close>

record verify_result =
  verified :: bool
  result_ref :: string
  result_amount :: jsval
  result_status :: "string option"

record verification_marker =
  marker_ref :: "string option"
  marker_amount :: rat
  marker_at :: string

record intent_like =
  intent_status :: "string option"
  intent_ref :: "string option"
  intent_amount :: jsval
  intent_expected :: jsval
  intent_metadata :: jsval

definition ALREADY_VERIFIED_STATUS :: string where
  "ALREADY_VERIFIED_STATUS = ''already_verified''"

definition GATEWAY_VERIFICATION_METADATA_KEY :: string where
  "GATEWAY_VERIFICATION_METADATA_KEY = ''gateway_verification''"

definition expected_intent_amount_irr :: "intent_like \<Rightarrow> jsnum" where
  "expected_intent_amount_irr intent =
     (if \<not> nullish (intent_expected intent) \<and> num_is_finite (to_number (intent_expected intent))
      then to_number (intent_expected intent)
      else to_number (intent_amount intent))"

definition number_of :: "jsval \<Rightarrow> rat option" where
  "number_of v = (case v of JNum (Fin q) \<Rightarrow> Some q | _ \<Rightarrow> None)"

definition read_gateway_verification_marker :: "jsval \<Rightarrow> verification_marker option" where
  "read_gateway_verification_marker metadata =
     (let raw = (if is_record metadata then get_prop metadata GATEWAY_VERIFICATION_METADATA_KEY
                 else Undefined)
      in if \<not> is_record raw then None
         else (case number_of (get_prop raw ''amount_irr'') of
                 None \<Rightarrow> None
               | Some amount \<Rightarrow> Some
                   \<lparr>marker_ref = (case get_prop raw ''provider_ref'' of
                        JStr s \<Rightarrow> if s \<noteq> [] then Some s else None
                      | _ \<Rightarrow> None),
                    marker_amount = amount,
                    marker_at = (case get_prop raw ''verified_at'' of JStr s \<Rightarrow> s | _ \<Rightarrow> [])\<rparr>))"

datatype verification_failure =
    Gateway_not_verified
  | Gateway_already_verified_unbound
  | Gateway_already_verified_reference_mismatch
  | Gateway_amount_missing
  | Gateway_amount_mismatch

record confirmation =
  confirmed_amount :: rat
  already_verified :: bool

definition confirm_amount ::
  "rat option \<Rightarrow> jsnum \<Rightarrow> bool \<Rightarrow> verification_failure + confirmation" where
  "confirm_amount confirmed expected already =
     (case confirmed of
        None \<Rightarrow> Inl Gateway_amount_missing
      | Some c \<Rightarrow>
          (case expected of
             Fin e \<Rightarrow> if e \<le> 0 \<or> c \<noteq> e then Inl Gateway_amount_mismatch
                     else Inr \<lparr>confirmed_amount = c, already_verified = already\<rparr>
           | _ \<Rightarrow> Inl Gateway_amount_mismatch))"

definition evaluate_gateway_verification ::
  "intent_like \<Rightarrow> verify_result \<Rightarrow> verification_failure + confirmation" where
  "evaluate_gateway_verification intent result =
     (if \<not> verified result then Inl Gateway_not_verified
      else
        let expected = expected_intent_amount_irr intent;
            gateway_amount = number_of (result_amount result);
            already = (result_status result = Some ALREADY_VERIFIED_STATUS)
        in if \<not> already then confirm_amount gateway_amount expected False
           else (case read_gateway_verification_marker (intent_metadata intent) of
                   None \<Rightarrow> Inl Gateway_already_verified_unbound
                 | Some marker \<Rightarrow>
                     if intent_status intent \<noteq> Some ''processing''
                     then Inl Gateway_already_verified_unbound
                     else
                       let returned = js_trim (result_ref result);
                           stored = stored_reference (intent_ref intent)
                       in if returned \<noteq> [] \<and> Some returned \<noteq> marker_ref marker \<and> returned \<noteq> stored
                          then Inl Gateway_already_verified_reference_mismatch
                          else if Fin (marker_amount marker) \<noteq> expected
                          then Inl Gateway_amount_mismatch
                          else confirm_amount
                                 (coalesce gateway_amount (Some (marker_amount marker))) expected True))"

definition build_gateway_verification_marker ::
  "string option \<Rightarrow> rat \<Rightarrow> string \<Rightarrow> verification_marker" where
  "build_gateway_verification_marker ref amount_irr now_iso =
     \<lparr>marker_ref = (if ref = Some [] then None else ref), marker_amount = amount_irr,
      marker_at = now_iso\<rparr>"

text \<open>The marker as the JSON object the claimed intent's metadata holds.\<close>

definition marker_json :: "verification_marker \<Rightarrow> jsval" where
  "marker_json mk = JObj
     [(''provider_ref'', case marker_ref mk of None \<Rightarrow> Null | Some s \<Rightarrow> JStr s),
      (''amount_irr'', JNum (Fin (marker_amount mk))),
      (''verified_at'', JStr (marker_at mk))]"

datatype price_problem = Currency_not_supported | Price_not_available

definition resolve_irr_plan_price :: "jsval \<Rightarrow> string \<Rightarrow> string option \<Rightarrow> price_problem + rat" where
  "resolve_irr_plan_price prices interval client_currency =
     (let requested = js_upper (js_trim (case client_currency of None \<Rightarrow> [] | Some s \<Rightarrow> s));
          irr = (if is_record prices then get_prop prices ''IRR'' else Undefined);
          raw = (if is_record irr then get_prop irr interval else Undefined)
      in if requested \<noteq> [] \<and> requested \<noteq> ''IRR'' then Inl Currency_not_supported
         else if nullish raw \<or> raw = JStr [] then Inl Price_not_available
         else (case to_number raw of
                 Fin q \<Rightarrow> if q < 0 then Inl Price_not_available else Inr q
               | _ \<Rightarrow> Inl Price_not_available))"

lemma read_marker_json [simp]:
  "read_gateway_verification_marker (JObj ((GATEWAY_VERIFICATION_METADATA_KEY, marker_json mk) # rest))
   = Some (mk\<lparr>marker_ref := (if marker_ref mk = Some [] then None else marker_ref mk)\<rparr>)"
  by (cases mk) (auto simp: read_gateway_verification_marker_def marker_json_def number_of_def
      split: option.splits)

lemma confirm_amount_Inr:
  "confirm_amount c e a = Inr r \<longleftrightarrow>
     c = Some (confirmed_amount r) \<and> e = Fin (confirmed_amount r) \<and> 0 < confirmed_amount r
     \<and> already_verified r = a"
  by (cases r) (auto simp: confirm_amount_def split: option.splits jsnum.splits)

lemma binding_accepts:
  assumes "requires_reference_binding (provider_name intent)"
  shows "provider_ref_matches_intent intent params = Bound \<longleftrightarrow>
    stored_reference (provider_ref intent) \<noteq> []
    \<and> set (extract_provider_ref_candidates (provider_name intent) params)
        = {stored_reference (provider_ref intent)}"
proof -
  let ?s = "stored_reference (provider_ref intent)"
  let ?c = "extract_provider_ref_candidates (provider_name intent) params"
  have "provider_ref_matches_intent intent params = Bound \<longleftrightarrow> ?s \<noteq> [] \<and> ?c \<noteq> [] \<and> (\<forall>v\<in>set ?c. v = ?s)"
    using assms by (simp add: provider_ref_matches_intent_def Let_def list_ex_iff)
  moreover have "?c \<noteq> [] \<and> (\<forall>v\<in>set ?c. v = ?s) \<longleftrightarrow> set ?c = {?s}"
    by (cases ?c) auto
  ultimately show ?thesis by blast
qed

section \<open>Properties\<close>

text \<open>For a gateway declared as binding, a callback is accepted exactly when a reference was stored at
  checkout, the callback carries at least one of the gateway's reference keys, and every such key it
  carries equals the stored reference; a second, conflicting key is never outvoted.\<close>

theorem binding_accepts_iff:
  assumes "requires_reference_binding (provider_name intent)"
  shows "provider_ref_matches_intent intent params = Bound \<longleftrightarrow>
    (let stored = stored_reference (provider_ref intent);
         keys = set (callback_keys (get_provider_reference_contract (provider_name intent)))
     in stored \<noteq> [] \<and> (\<exists>k\<in>keys. read_param params k = Some stored)
        \<and> (\<forall>k\<in>keys. \<forall>v. read_param params k = Some v \<longrightarrow> v = stored))"
  unfolding binding_accepts [OF assms] Let_def extract_candidates_set by auto

theorem binding_accepts_iff_witness:
  "provider_ref_matches_intent \<lparr>provider_name = ''idpay'', provider_ref = Some ''r1''\<rparr>
     (JObj [(''id'', JStr ''r2''), (''order_id'', JStr ''r1'')]) \<noteq> Bound"
proof -
  have b: "requires_reference_binding (provider_name \<lparr>provider_name = ''idpay'', provider_ref = Some ''r1''\<rparr>)"
    by (simp add: requires_reference_binding_def get_provider_reference_contract_def CONTRACTS_def bound_to_def)
  show ?thesis
    unfolding binding_accepts_iff [OF b] Let_def
    by (simp add: get_provider_reference_contract_def CONTRACTS_def bound_to_def read_param_def
        stored_reference_def js_trim_def js_space_def)
qed

text \<open>Whatever the callback carried, the gateway is asked about the stored reference under every key
  it reads it from, and about the server's amount; a callback built from these parameters is bound.\<close>

theorem bound_verify_params:
  assumes "requires_reference_binding (provider_name intent)"
    and "stored_reference (provider_ref intent) \<noteq> []"
    and "callback_keys (get_provider_reference_contract (provider_name intent)) \<noteq> []"
  shows "build_bound_verify_params intent params a ''amount'' = Some (js_num_text a)
    \<and> (\<forall>k\<in>set (callback_keys (get_provider_reference_contract (provider_name intent))).
          build_bound_verify_params intent params a k = Some (stored_reference (provider_ref intent)))
    \<and> (\<forall>m. (\<forall>k. map_of m k = map_option JStr (build_bound_verify_params intent params a k))
          \<longrightarrow> provider_ref_matches_intent intent (JObj m) = Bound)"
proof (intro conjI allI impI ballI)
  let ?s = "stored_reference (provider_ref intent)"
  let ?keys = "callback_keys (get_provider_reference_contract (provider_name intent))"
  show "build_bound_verify_params intent params a ''amount'' = Some (js_num_text a)"
    by (simp add: build_bound_verify_params_def Let_def)
  show key: "build_bound_verify_params intent params a k = Some ?s" if "k \<in> set ?keys" for k
    using that assms(2) callback_keys_not_amount [of "provider_name intent"]
    by (auto simp: build_bound_verify_params_def Let_def foldl_upd_same)
  fix m assume m: "\<forall>k. map_of m k = map_option JStr (build_bound_verify_params intent params a k)"
  have "js_trim ?s = ?s" by (simp add: stored_reference_def js_trim_idem)
  then have read: "read_param (JObj m) k = Some ?s" if "k \<in> set ?keys" for k
    using key [OF that] m assms(2) by (simp add: read_param_def)
  show "provider_ref_matches_intent intent (JObj m) = Bound"
    unfolding binding_accepts [OF assms(1)] extract_candidates_set
    using assms(2,3) read by (cases ?keys) auto
qed

theorem bound_verify_params_witness:
  "build_bound_verify_params \<lparr>provider_name = ''idpay'', provider_ref = Some ''r1''\<rparr>
     (JObj [(''id'', JStr ''r2'')]) 5000 ''id'' = Some ''r1''"
proof -
  let ?i = "\<lparr>provider_name = ''idpay'', provider_ref = Some ''r1''\<rparr>"
  have c: "get_provider_reference_contract ''idpay'' = bound_to [''id'']"
    by (simp add: get_provider_reference_contract_def CONTRACTS_def)
  have s: "stored_reference (Some ''r1'') = ''r1''"
    by (simp add: stored_reference_def js_trim_def js_space_def)
  have p: "requires_reference_binding (provider_name ?i)" "stored_reference (provider_ref ?i) \<noteq> []"
    "callback_keys (get_provider_reference_contract (provider_name ?i)) \<noteq> []"
    by (simp_all add: requires_reference_binding_def c s bound_to_def)
  show ?thesis
    using bound_verify_params [OF p, THEN conjunct2, THEN conjunct1] by (simp add: c s bound_to_def)
qed

text \<open>C4: A gateway answer finalises a payment exactly when it is verified and confirms the positive amount
  the server expects; an "already verified" answer does so only for a payment already claimed with a
  verification marker of that amount, and only when the reference it names is the marker's or the
  stored one.\<close>

theorem gateway_verification_iff:
  "evaluate_gateway_verification intent result = Inr r \<longleftrightarrow>
     verified result \<and> 0 < confirmed_amount r
     \<and> expected_intent_amount_irr intent = Fin (confirmed_amount r)
     \<and> (if result_status result \<noteq> Some ''already_verified''
        then \<not> already_verified r \<and> number_of (result_amount result) = Some (confirmed_amount r)
        else already_verified r \<and> intent_status intent = Some ''processing''
          \<and> number_of (result_amount result) \<in> {None, Some (confirmed_amount r)}
          \<and> (\<exists>mk. read_gateway_verification_marker (intent_metadata intent) = Some mk
                \<and> marker_amount mk = confirmed_amount r
                \<and> (js_trim (result_ref result) = [] \<or> Some (js_trim (result_ref result)) = marker_ref mk
                   \<or> js_trim (result_ref result) = stored_reference (intent_ref intent))))"
proof (cases "result_status result = Some ''already_verified''")
  case False
  then show ?thesis
    by (auto simp: evaluate_gateway_verification_def ALREADY_VERIFIED_STATUS_def Let_def confirm_amount_Inr)
next
  case True
  show ?thesis
  proof (cases "read_gateway_verification_marker (intent_metadata intent)")
    case None
    with True show ?thesis
      by (simp add: evaluate_gateway_verification_def ALREADY_VERIFIED_STATUS_def Let_def)
  next
    case (Some mk)
    with True show ?thesis
      by (cases "number_of (result_amount result)")
        (auto simp: evaluate_gateway_verification_def ALREADY_VERIFIED_STATUS_def Let_def confirm_amount_Inr)
  qed
qed

text \<open>A payment that was verified and claimed with its marker accepts the gateway's "already verified"
  answer to a repeated callback, for the same amount, so recovery after a crash completes; without a
  marker the same answer is refused.\<close>

theorem reverification_completes:
  assumes "evaluate_gateway_verification intent result = Inr r"
    and "result_status result \<noteq> Some ALREADY_VERIFIED_STATUS"
    and "verified again" and "result_status again = Some ALREADY_VERIFIED_STATUS"
    and "number_of (result_amount again) \<in> {None, Some (confirmed_amount r)}"
    and "js_trim (result_ref again) \<in> {[], stored_reference (intent_ref intent)}"
  shows "evaluate_gateway_verification
      (intent\<lparr>intent_status := Some ''processing'',
        intent_metadata := JObj ((GATEWAY_VERIFICATION_METADATA_KEY,
          marker_json (build_gateway_verification_marker pref (confirmed_amount r) now_iso)) # rest)\<rparr>) again
      = Inr \<lparr>confirmed_amount = confirmed_amount r, already_verified = True\<rparr>
    \<and> evaluate_gateway_verification (intent\<lparr>intent_metadata := Null\<rparr>) again
      = Inl Gateway_already_verified_unbound"
proof -
  have e: "expected_intent_amount_irr intent = Fin (confirmed_amount r)" "0 < confirmed_amount r"
    using assms(1,2) by (auto simp: evaluate_gateway_verification_def Let_def confirm_amount_Inr split: if_splits)
  have e': "expected_intent_amount_irr (intent\<lparr>intent_status := a, intent_metadata := b\<rparr>)
      = expected_intent_amount_irr intent" for a b
    by (simp add: expected_intent_amount_irr_def)
  show ?thesis
    using assms(3-6) e
    by (auto simp: evaluate_gateway_verification_def Let_def e' confirm_amount_def
        build_gateway_verification_marker_def read_gateway_verification_marker_def [of Null])
qed

definition example_intent :: intent_like where
  "example_intent =
     \<lparr>intent_status = Some ''pending'', intent_ref = Some ''r1'', intent_amount = JNum (Fin 5000),
      intent_expected = Null, intent_metadata = Null\<rparr>"

definition example_result :: "string option \<Rightarrow> jsval \<Rightarrow> verify_result" where
  "example_result status amount =
     \<lparr>verified = True, result_ref = [], result_amount = amount, result_status = status\<rparr>"

theorem reverification_completes_witness:
  "evaluate_gateway_verification (example_intent\<lparr>intent_metadata := Null\<rparr>)
     (example_result (Some ALREADY_VERIFIED_STATUS) Undefined) = Inl Gateway_already_verified_unbound"
proof -
  have e: "evaluate_gateway_verification example_intent (example_result None (JNum (Fin 5000)))
      = Inr \<lparr>confirmed_amount = 5000, already_verified = False\<rparr>"
    by (simp add: evaluate_gateway_verification_def example_intent_def example_result_def
        expected_intent_amount_irr_def number_of_def confirm_amount_def ALREADY_VERIFIED_STATUS_def Let_def)
  show ?thesis
    using reverification_completes [OF e, of "example_result (Some ALREADY_VERIFIED_STATUS) Undefined"]
    by (simp add: example_result_def number_of_def js_trim_def)
qed

end
