(* ===== verification/Memo_Cache.thy ===== *)
theory Memo_Cache
  imports Prelude "HOL-Library.AList"
begin

text \<open>
  The in-process memo of hot reads and its token bucket (\<open>server/lib/memoCache.ts\<close>). A JavaScript map
  is an association list in insertion order: setting a present key keeps its place, a new key goes to
  the end. A running load is a flight with a number of its own; what concurrent requests and finishing
  loads do is a sequence of steps, each taken at a given time. The clock, the values the loads return
  and the options are arguments.
\<close>

section \<open>Insertion-ordered maps\<close>

text \<open>The contract of the map the cache stores its entries in.\<close>

locale ordered_map =
  fixes get :: "'m \<Rightarrow> 'k \<Rightarrow> 'e option"
    and put :: "'k \<Rightarrow> 'e \<Rightarrow> 'm \<Rightarrow> 'm"
    and del :: "'k \<Rightarrow> 'm \<Rightarrow> 'm"
    and keys :: "'m \<Rightarrow> 'k list"
    and valid :: "'m \<Rightarrow> bool"
  assumes get_put: "get (put k e m) j = (if j = k then Some e else get m j)"
    and get_del: "get (del k m) j = (if j = k then None else get m j)"
    and keys_put: "valid m \<Longrightarrow> keys (put k e m) = (if k \<in> set (keys m) then keys m else keys m @ [k])"
    and keys_del: "valid m \<Longrightarrow> keys (del k m) = filter (\<lambda>j. j \<noteq> k) (keys m)"
    and keys_get: "valid m \<Longrightarrow> k \<in> set (keys m) \<longleftrightarrow> get m k \<noteq> None"
    and valid_put: "valid m \<Longrightarrow> valid (put k e m)"
    and valid_del: "valid m \<Longrightarrow> valid (del k m)"
begin

text \<open>Deleting and setting again makes a key the most recent and changes nothing else.\<close>

lemma get_touch: "get m k = Some e \<Longrightarrow> get (put k e (del k m)) = get m"
  by (rule ext) (simp add: get_put get_del)

lemma keys_touch:
  "valid m \<Longrightarrow> get m k = Some e \<Longrightarrow> keys (put k e (del k m)) = filter (\<lambda>j. j \<noteq> k) (keys m) @ [k]"
  by (simp add: keys_put keys_del valid_del)

lemma length_del_put: "valid m \<Longrightarrow> length (keys (put k e (del k m))) \<le> Suc (length (keys m))"
  by (simp add: keys_put keys_del valid_del le_SucI)

lemma length_touch:
  assumes "valid m" and "get m k = Some e"
  shows "length (keys (put k e (del k m))) \<le> length (keys m)"
proof -
  have "k \<in> set (keys m)" using assms keys_get by auto
  then have "length (filter (\<lambda>j. j \<noteq> k) (keys m)) < length (keys m)"
    by (rule filter_length_less) simp
  then show ?thesis by (simp add: keys_touch [OF assms])
qed

end

lemma distinct_delete: "distinct (map fst m) \<Longrightarrow> distinct (map fst (AList.delete k m))"
  by (simp add: distinct_delete)

interpretation jm: ordered_map map_of AList.update AList.delete "map fst" "\<lambda>m. distinct (map fst m)"
proof unfold_locales
  fix m :: "('k \<times> 'e) list" and k e j
  show "map_of (AList.update k e m) j = (if j = k then Some e else map_of m j)"
    by (simp add: update_conv')
  show "map_of (AList.delete k m) j = (if j = k then None else map_of m j)"
    by (simp add: delete_conv')
  show "map fst (AList.update k e m) = (if k \<in> set (map fst m) then map fst m else map fst m @ [k])"
    by (simp add: update_keys)
  show "map fst (AList.delete k m) = filter (\<lambda>j. j \<noteq> k) (map fst m)"
    by (simp add: delete_keys removeAll_filter_not_eq eq_commute)
  show "k \<in> set (map fst m) \<longleftrightarrow> map_of m k \<noteq> None"
    by (simp add: map_of_eq_None_iff)
  show "distinct (map fst m) \<Longrightarrow> distinct (map fst (AList.update k e m))"
    by (rule distinct_update)
  show "distinct (map fst m) \<Longrightarrow> distinct (map fst (AList.delete k m))"
    by (rule distinct_delete)
qed

section \<open>The cache\<close>

record 'v memo_options =
  ttl_ms :: "'v \<Rightarrow> int"
  max_entries :: int
  is_negative :: "'v \<Rightarrow> bool"
  negative_max :: "int option"
  keep_previous :: "'v \<Rightarrow> 'v \<Rightarrow> bool"
  serve_stale :: "'v \<Rightarrow> bool"
  max_stale_ms :: int
  retry_after_ms :: int

record 'v memo_entry =
  entry_value :: 'v
  entry_at :: int
  retry_at :: int
  expired :: bool

record flight =
  flight_key :: string
  invalidated :: bool
  background :: bool

type_synonym 'v memo_map = "(string \<times> 'v memo_entry) list"

record 'v memo =
  entries :: "'v memo_map"
  negatives :: "'v memo_map"
  flights :: "string \<Rightarrow> nat option"
  running :: "nat \<Rightarrow> flight option"
  next_flight :: nat

definition empty_memo :: "'v memo" where
  "empty_memo = \<lparr>entries = [], negatives = [], flights = \<lambda>_. None, running = \<lambda>_. None, next_flight = 0\<rparr>"

definition memo_touch :: "string \<Rightarrow> 'v memo_entry \<Rightarrow> 'v memo_map \<Rightarrow> 'v memo_map" where
  "memo_touch key entry m = AList.update key entry (AList.delete key m)"

datatype 'v answer = Served 'v | Waits nat

text \<open>\<open>load\<close>: join the running flight of the key, or register a new one.\<close>

definition memo_load :: "string \<Rightarrow> bool \<Rightarrow> 'v memo \<Rightarrow> nat \<times> 'v memo" where
  "memo_load key bg c =
     (case flights c key of
        Some f \<Rightarrow> (f, c)
      | None \<Rightarrow>
          (next_flight c,
           c\<lparr>flights := (flights c)(key \<mapsto> next_flight c),
             running := (running c)(next_flight c \<mapsto> \<lparr>flight_key = key, invalidated = False, background = bg\<rparr>),
             next_flight := Suc (next_flight c)\<rparr>))"

definition touch_in :: "string \<Rightarrow> 'v memo_entry \<Rightarrow> 'v memo \<Rightarrow> 'v memo" where
  "touch_in key hit c =
     (if map_of (entries c) key \<noteq> None then c\<lparr>entries := memo_touch key hit (entries c)\<rparr>
      else c\<lparr>negatives := memo_touch key hit (negatives c)\<rparr>)"

definition memo_lookup :: "string \<Rightarrow> 'v memo \<Rightarrow> 'v memo_entry option" where
  "memo_lookup key c =
     (if map_of (entries c) key \<noteq> None then map_of (entries c) key else map_of (negatives c) key)"

definition memo_get :: "'v memo_options \<Rightarrow> bool \<Rightarrow> string \<Rightarrow> int \<Rightarrow> 'v memo \<Rightarrow> 'v answer \<times> 'v memo" where
  "memo_get opts on key t c =
     (let waits = (\<lambda>c. let (f, c') = memo_load key False c in (Waits f, c'))
      in if \<not> on then waits (c\<lparr>entries := [], negatives := []\<rparr>)
         else (case memo_lookup key c of
                 None \<Rightarrow> waits c
               | Some hit \<Rightarrow>
                   let age = t - entry_at hit
                   in if \<not> expired hit \<and> age < ttl_ms opts (entry_value hit)
                      then (Served (entry_value hit), touch_in key hit c)
                      else if age \<le> max_stale_ms opts \<and> serve_stale opts (entry_value hit)
                      then (Served (entry_value hit),
                            touch_in key hit
                              (if retry_at hit \<le> t \<and> flights c key = None
                               then snd (memo_load key True c) else c))
                      else waits c))"

definition memo_peek :: "string \<Rightarrow> 'v memo \<Rightarrow> 'v option" where
  "memo_peek key c = map_option entry_value (memo_lookup key c)"

definition disown :: "nat set \<Rightarrow> (nat \<Rightarrow> flight option) \<Rightarrow> nat \<Rightarrow> flight option" where
  "disown fs r = (\<lambda>f. if f \<in> fs then map_option (\<lambda>x. x\<lparr>invalidated := True\<rparr>) (r f) else r f)"

definition memo_invalidate :: "string \<Rightarrow> 'v memo \<Rightarrow> 'v memo" where
  "memo_invalidate key c =
     c\<lparr>entries := AList.delete key (entries c), negatives := AList.delete key (negatives c),
       flights := (flights c)(key := None),
       running := (case flights c key of None \<Rightarrow> running c | Some f \<Rightarrow> disown {f} (running c))\<rparr>"

definition abandon_flights :: "'v memo \<Rightarrow> 'v memo" where
  "abandon_flights c = c\<lparr>running := disown (ran (flights c)) (running c), flights := \<lambda>_. None\<rparr>"

definition memo_invalidate_where :: "('v \<Rightarrow> bool) \<Rightarrow> 'v memo \<Rightarrow> 'v memo" where
  "memo_invalidate_where match c =
     abandon_flights
       (c\<lparr>entries := filter (\<lambda>(k, e). \<not> match (entry_value e)) (entries c),
          negatives := filter (\<lambda>(k, e). \<not> match (entry_value e)) (negatives c)\<rparr>)"

definition memo_clear :: "'v memo \<Rightarrow> 'v memo" where
  "memo_clear c = abandon_flights (c\<lparr>entries := [], negatives := []\<rparr>)"

definition memo_expire_all :: "'v memo \<Rightarrow> 'v memo" where
  "memo_expire_all c =
     abandon_flights
       (c\<lparr>entries := map (\<lambda>(k, e). (k, e\<lparr>expired := True, retry_at := 0\<rparr>)) (entries c),
          negatives := map (\<lambda>(k, e). (k, e\<lparr>expired := True, retry_at := 0\<rparr>)) (negatives c)\<rparr>)"

definition memo_sizes :: "'v memo \<Rightarrow> nat \<times> nat" where
  "memo_sizes c = (length (entries c), length (negatives c))"

text \<open>The oldest entries go while the map is over its bound.\<close>

function evict :: "int \<Rightarrow> 'v memo_map \<Rightarrow> 'v memo_map" where
  "evict limit m = (if max 1 limit < int (length m) then evict limit (tl m) else m)"
  by pat_completeness auto
termination by (relation "measure (\<lambda>(l, m). length m)") auto

declare evict.simps [simp del]

definition set_retry :: "string \<Rightarrow> int \<Rightarrow> 'v memo \<Rightarrow> 'v memo" where
  "set_retry key r c =
     (if map_of (entries c) key \<noteq> None
      then c\<lparr>entries := AList.map_entry key (\<lambda>e. e\<lparr>retry_at := r\<rparr>) (entries c)\<rparr>
      else c\<lparr>negatives := AList.map_entry key (\<lambda>e. e\<lparr>retry_at := r\<rparr>) (negatives c)\<rparr>)"

definition memo_store :: "'v memo_options \<Rightarrow> bool \<Rightarrow> string \<Rightarrow> 'v \<Rightarrow> int \<Rightarrow> 'v memo \<Rightarrow> 'v memo" where
  "memo_store opts on key v t c =
     (let keep = (case memo_lookup key c of
                    None \<Rightarrow> False
                  | Some prev \<Rightarrow> t - entry_at prev \<le> max_stale_ms opts \<and> serve_stale opts (entry_value prev)
                      \<and> keep_previous opts (entry_value prev) v)
      in if keep then set_retry key (t + retry_after_ms opts) c
         else
           let c' = c\<lparr>entries := AList.delete key (entries c), negatives := AList.delete key (negatives c)\<rparr>;
               entry = \<lparr>entry_value = v, entry_at = t, retry_at = 0, expired = False\<rparr>
           in if \<not> on \<or> ttl_ms opts v \<le> 0 then c'
              else if is_negative opts v
              then c'\<lparr>negatives := evict (case negative_max opts of Some n \<Rightarrow> n | None \<Rightarrow> max_entries opts)
                       (AList.update key entry (negatives c'))\<rparr>
              else c'\<lparr>entries := evict (max_entries opts) (AList.update key entry (entries c'))\<rparr>)"

text \<open>A load ends: with a value, which is stored unless the flight was disowned, or with an error.\<close>

definition land_flight :: "nat \<Rightarrow> flight \<Rightarrow> 'v memo \<Rightarrow> 'v memo" where
  "land_flight f fl c =
     c\<lparr>flights := (if flights c (flight_key fl) = Some f then (flights c)(flight_key fl := None) else flights c),
       running := (running c)(f := None)\<rparr>"

definition finish_load :: "'v memo_options \<Rightarrow> bool \<Rightarrow> nat \<Rightarrow> 'v \<Rightarrow> int \<Rightarrow> 'v memo \<Rightarrow> 'v memo" where
  "finish_load opts on f v t c =
     (case running c f of
        None \<Rightarrow> c
      | Some fl \<Rightarrow>
          land_flight f fl (if invalidated fl then c else memo_store opts on (flight_key fl) v t c))"

definition fail_load :: "'v memo_options \<Rightarrow> nat \<Rightarrow> int \<Rightarrow> 'v memo \<Rightarrow> 'v memo" where
  "fail_load opts f t c =
     (case running c f of
        None \<Rightarrow> c
      | Some fl \<Rightarrow>
          let c' = land_flight f fl c
          in if background fl then set_retry (flight_key fl) (t + retry_after_ms opts) c' else c')"

section \<open>Lemmas\<close>

lemma evict_eq: "evict limit m = drop (length m - nat (max 1 limit)) m"
proof (induction limit m rule: evict.induct)
  case (1 limit m)
  show ?case
  proof (cases "max 1 limit < int (length m)")
    case True
    then have "length m - nat (max 1 limit) = Suc (length (tl m) - nat (max 1 limit))" by auto
    then show ?thesis using 1 [OF True] True by (subst evict.simps) (simp add: drop_Suc)
  next
    case False
    then have z: "length m - nat (max 1 limit) = 0" by auto
    show ?thesis unfolding z by (subst evict.simps) (simp only: False if_False drop_0)
  qed
qed

lemma length_evict: "int (length (evict limit m)) \<le> max 1 limit"
  by (simp add: evict_eq)

lemma set_evict: "set (evict limit m) \<subseteq> set m"
  by (simp add: evict_eq set_drop_subset)

lemma distinct_evict: "distinct (map fst m) \<Longrightarrow> distinct (map fst (evict limit m))"
  by (simp add: evict_eq drop_map [symmetric] del: drop_map)


text \<open>What is stored, in either map.\<close>

definition stored :: "'v memo \<Rightarrow> string \<Rightarrow> 'v \<Rightarrow> int \<Rightarrow> bool" where
  "stored c k v a \<longleftrightarrow> (\<exists>e. ((k, e) \<in> set (entries c) \<or> (k, e) \<in> set (negatives c)) \<and> entry_value e = v \<and> entry_at e = a)"

lemma update_mem: "x \<in> set (AList.update k e m) \<Longrightarrow> x = (k, e) \<or> x \<in> set m"
  by (induction m) (auto split: if_splits)

lemma delete_mem: "(j, e) \<in> set (AList.delete k m) \<longleftrightarrow> (j, e) \<in> set m \<and> j \<noteq> k"
  by (auto simp: AList.delete_eq)

lemma map_entry_mem: "(j, e) \<in> set (AList.map_entry k f m) \<Longrightarrow> (j, e) \<in> set m \<or> (\<exists>x. (k, x) \<in> set m \<and> j = k \<and> e = f x)"
  by (induction m) (auto split: if_splits)

lemma lookup_mem:
  "memo_lookup k c = Some e \<Longrightarrow> (k, e) \<in> set (entries c) \<or> (k, e) \<in> set (negatives c)"
  by (auto simp: memo_lookup_def split: if_splits dest: map_of_SomeD)

lemma stored_load: "stored (snd (memo_load k bg c)) j v a = stored c j v a"
  by (simp add: stored_def memo_load_def split: option.split)

lemma stored_touch:
  "memo_lookup k c = Some hit \<Longrightarrow> stored (touch_in k hit d) j v a \<Longrightarrow> entries d = entries c \<Longrightarrow> negatives d = negatives c
   \<Longrightarrow> stored c j v a"
  using lookup_mem [of k c hit]
  by (auto simp: stored_def touch_in_def memo_touch_def delete_mem dest!: update_mem split: if_splits)

lemma load_maps: "entries (snd (memo_load k bg c)) = entries c" "negatives (snd (memo_load k bg c)) = negatives c"
  by (simp_all add: memo_load_def split: option.split)

lemma stored_get: "stored (snd (memo_get opts on k t c)) j v a \<Longrightarrow> on \<and> stored c j v a"
  by (auto simp: memo_get_def Let_def stored_load load_maps case_prod_unfold stored_def [of "_\<lparr>entries := [], negatives := []\<rparr>"]
      split: option.splits if_splits dest: stored_touch)

lemma stored_set_retry: "stored (set_retry k r c) j v a \<Longrightarrow> stored c j v a"
  by (auto simp: stored_def set_retry_def dest!: map_entry_mem split: if_splits)

lemma evict_update_mem: "(j, e) \<in> set (evict l (AList.update k x m)) \<Longrightarrow> (j, e) = (k, x) \<or> (j, e) \<in> set m"
  using set_evict update_mem by fastforce

lemma stored_store:
  assumes "stored (memo_store opts on k w t c) j v a"
  shows "stored c j v a \<or> j = k \<and> v = w \<and> a = t"
proof (cases "memo_store opts on k w t c = set_retry k (t + retry_after_ms opts) c")
  case True
  then show ?thesis using assms stored_set_retry by metis
next
  case False
  then show ?thesis
    using assms
    by (auto simp: memo_store_def Let_def stored_def delete_mem dest!: evict_update_mem split: if_splits)
qed

lemma stored_land: "stored (land_flight f fl c) j v a = stored c j v a"
  by (simp add: stored_def land_flight_def)

lemma abandon_maps: "entries (abandon_flights c) = entries c" "negatives (abandon_flights c) = negatives c"
  by (simp_all add: abandon_flights_def)

lemma stored_abandon: "stored (abandon_flights c) j v a = stored c j v a"
  by (simp add: stored_def abandon_flights_def)

section \<open>Runs\<close>

datatype 'v event =
    Got string int bool
  | Finished nat 'v int bool
  | Failed nat int
  | Invalidated string
  | Invalidated_where "'v \<Rightarrow> bool"
  | Cleared
  | Expired_all

fun memo_step :: "'v memo_options \<Rightarrow> 'v event \<Rightarrow> 'v memo \<Rightarrow> 'v memo" where
  "memo_step opts (Got k t on) c = snd (memo_get opts on k t c)"
| "memo_step opts (Finished f v t on) c = finish_load opts on f v t c"
| "memo_step opts (Failed f t) c = fail_load opts f t c"
| "memo_step opts (Invalidated k) c = memo_invalidate k c"
| "memo_step opts (Invalidated_where m) c = memo_invalidate_where m c"
| "memo_step opts Cleared c = memo_clear c"
| "memo_step opts Expired_all c = memo_expire_all c"

definition memo_run :: "'v memo_options \<Rightarrow> 'v event list \<Rightarrow> 'v memo" where
  "memo_run opts evs = fold (memo_step opts) evs empty_memo"

lemma memo_run_simps: "memo_run opts [] = empty_memo"
  "memo_run opts (evs @ [e]) = memo_step opts e (memo_run opts evs)"
  by (simp_all add: memo_run_def)

text \<open>An event that disowns the running loads of a key, and one that drops a stored value.\<close>

fun disowns :: "string \<Rightarrow> 'v event \<Rightarrow> bool" where
  "disowns k (Invalidated j) \<longleftrightarrow> j = k"
| "disowns k (Invalidated_where m) \<longleftrightarrow> True"
| "disowns k Cleared \<longleftrightarrow> True"
| "disowns k Expired_all \<longleftrightarrow> True"
| "disowns k _ \<longleftrightarrow> False"

fun drops :: "string \<Rightarrow> 'v \<Rightarrow> 'v event \<Rightarrow> bool" where
  "drops k v (Invalidated j) \<longleftrightarrow> j = k"
| "drops k v (Invalidated_where m) \<longleftrightarrow> m v"
| "drops k v Cleared \<longleftrightarrow> True"
| "drops k v (Got j t on) \<longleftrightarrow> \<not> on"
| "drops k v _ \<longleftrightarrow> False"

text \<open>The registered flights are exactly the running loads that were not disowned.\<close>

definition flights_ok :: "'v memo \<Rightarrow> bool" where
  "flights_ok c \<longleftrightarrow>
     (\<forall>f fl. running c f = Some fl \<longrightarrow> f < next_flight c \<and> (invalidated fl \<or> flights c (flight_key fl) = Some f))
     \<and> (\<forall>k f. flights c k = Some f \<longrightarrow> (\<exists>fl. running c f = Some fl \<and> flight_key fl = k \<and> \<not> invalidated fl))"

lemma flights_ok_load: "flights_ok c \<Longrightarrow> flights_ok (snd (memo_load k bg c))"
  by (auto simp: flights_ok_def memo_load_def less_Suc_eq split: option.split) fastforce+

lemma flights_ok_cong:
  "flights d = flights c \<Longrightarrow> running d = running c \<Longrightarrow> next_flight d = next_flight c \<Longrightarrow> flights_ok d = flights_ok c"
  by (simp add: flights_ok_def)

lemma touch_in_flights:
  "flights (touch_in k h c) = flights c" "running (touch_in k h c) = running c" "next_flight (touch_in k h c) = next_flight c"
  by (simp_all add: touch_in_def)

lemma set_retry_flights:
  "flights (set_retry k r c) = flights c" "running (set_retry k r c) = running c" "next_flight (set_retry k r c) = next_flight c"
  by (simp_all add: set_retry_def)

lemma store_flights:
  "flights (memo_store opts on k v t c) = flights c" "running (memo_store opts on k v t c) = running c"
  "next_flight (memo_store opts on k v t c) = next_flight c"
  by (simp_all add: memo_store_def Let_def set_retry_flights)

lemma flights_ok_get: "flights_ok c \<Longrightarrow> flights_ok (snd (memo_get opts on k t c))"
proof -
  assume ok: "flights_ok c"
  have t: "flights_ok (touch_in k h d) = flights_ok d" for h and d :: "'a memo"
    by (rule flights_ok_cong) (simp_all add: touch_in_flights)
  have e: "flights_ok (c\<lparr>entries := [], negatives := []\<rparr>)"
    using ok flights_ok_cong [of "c\<lparr>entries := [], negatives := []\<rparr>" c] by simp
  show ?thesis
    using ok e by (auto simp: memo_get_def Let_def case_prod_unfold t flights_ok_load split: option.split)
qed

lemma flights_ok_land: "flights_ok c \<Longrightarrow> running c f = Some fl \<Longrightarrow> flights_ok (land_flight f fl c)"
  by (auto simp: flights_ok_def land_flight_def) (metis option.inject)+

lemma flights_ok_abandon: "flights_ok c \<Longrightarrow> flights_ok (abandon_flights c)"
  by (auto simp: flights_ok_def abandon_flights_def disown_def ran_def split: if_splits) blast

lemma flights_ok_invalidate:
  assumes ok: "flights_ok c"
  shows "flights_ok (memo_invalidate k c)"
proof (cases "flights c k")
  case None
  then have "(flights c)(k := None) = flights c" by auto
  then show ?thesis using ok None by (simp add: flights_ok_def memo_invalidate_def fun_upd_idem)
next
  case (Some g)
  have key: "\<exists>fl. running c f = Some fl \<and> flight_key fl = j \<and> \<not> invalidated fl" if "flights c j = Some f" for j f
    using ok that unfolding flights_ok_def by blast
  have reg: "f < next_flight c" "invalidated fl \<or> flights c (flight_key fl) = Some f" if "running c f = Some fl" for f fl
    using ok that unfolding flights_ok_def by blast+
  have ne: "f \<noteq> g" if "flights c j = Some f" "j \<noteq> k" for j f
    using key [OF that(1)] key [OF Some] that(2) by auto
  let ?d = "memo_invalidate k c"
  have d: "running ?d f = (if f = g then map_option (\<lambda>x. x\<lparr>invalidated := True\<rparr>) (running c f) else running c f)"
    "flights ?d j = (if j = k then None else flights c j)" "next_flight ?d = next_flight c" for f j
    by (simp_all add: memo_invalidate_def Some disown_def)
  have "f < next_flight ?d \<and> (invalidated fl \<or> flights ?d (flight_key fl) = Some f)" if "running ?d f = Some fl" for f fl
  proof (cases "f = g")
    case True
    then show ?thesis using that reg(1) by (auto simp: d)
  next
    case False
    then have f: "running c f = Some fl" using that by (simp add: d)
    then show ?thesis using reg [OF f] False Some by (auto simp: d)
  qed
  moreover have "\<exists>fl. running ?d f = Some fl \<and> flight_key fl = j \<and> \<not> invalidated fl" if "flights ?d j = Some f" for j f
  proof -
    have "flights c j = Some f" "j \<noteq> k" using that by (auto simp: d split: if_splits)
    then show ?thesis using key ne by (auto simp: d)
  qed
  ultimately show ?thesis unfolding flights_ok_def by blast
qed

lemma memo_run_flights_ok: "flights_ok (memo_run opts evs)"
proof (induction evs rule: rev_induct)
  case Nil
  then show ?case by (simp add: memo_run_simps empty_memo_def flights_ok_def)
next
  case (snoc e evs)
  let ?c = "memo_run opts evs"
  have maps: "flights_ok (?c\<lparr>entries := a, negatives := b\<rparr>)" for a b
    using snoc flights_ok_cong [of "?c\<lparr>entries := a, negatives := b\<rparr>" ?c] by simp
  have store: "flights_ok (memo_store opts on k v t d) = flights_ok d" for on k v t and d :: "'a memo"
    by (rule flights_ok_cong) (simp_all add: store_flights)
  have retry: "flights_ok (set_retry k r d) = flights_ok d" for k r and d :: "'a memo"
    by (rule flights_ok_cong) (simp_all add: set_retry_flights)
  show ?case
    using snoc
    by (cases e) (auto simp: memo_run_simps flights_ok_get finish_load_def fail_load_def Let_def store retry
        flights_ok_land store_flights flights_ok_invalidate memo_invalidate_where_def memo_clear_def
        memo_expire_all_def flights_ok_abandon maps split: option.split)
qed


section \<open>What a load may store\<close>

text \<open>The load of flight \<open>f\<close> was started by a request for \<open>k\<close>, and nothing disowned it since.\<close>

definition clean_since_start :: "'v memo_options \<Rightarrow> 'v event list \<Rightarrow> string \<Rightarrow> nat \<Rightarrow> bool" where
  "clean_since_start opts evs k f \<longleftrightarrow>
     (\<exists>pre t on mid. evs = pre @ Got k t on # mid \<and> next_flight (memo_run opts pre) = f
        \<and> (\<forall>x\<in>set mid. \<not> disowns k x))"

lemma clean_snoc: "clean_since_start opts evs k f \<Longrightarrow> \<not> disowns k e \<Longrightarrow> clean_since_start opts (evs @ [e]) k f"
proof -
  assume "clean_since_start opts evs k f" and e: "\<not> disowns k e"
  then obtain pre t on mid where "evs = pre @ Got k t on # mid" "next_flight (memo_run opts pre) = f"
    "\<forall>x\<in>set mid. \<not> disowns k x" unfolding clean_since_start_def by blast
  then show ?thesis
    unfolding clean_since_start_def using e
    by (intro exI [of _ pre] exI [of _ t] exI [of _ on] exI [of _ "mid @ [e]"]) auto
qed

lemma clean_start: "next_flight (memo_run opts evs) = f \<Longrightarrow> clean_since_start opts (evs @ [Got k t on]) k f"
  unfolding clean_since_start_def by (intro exI [of _ evs] exI [of _ t] exI [of _ on] exI [of _ "[]"]) simp

lemma running_load:
  "running (snd (memo_load k bg c)) f = Some fl \<Longrightarrow>
     running c f = Some fl \<or> f = next_flight c \<and> flight_key fl = k"
  by (auto simp: memo_load_def split: option.splits if_splits)

lemma running_get:
  "running (snd (memo_get opts on k t c)) f = Some fl \<Longrightarrow>
     running c f = Some fl \<or> f = next_flight c \<and> flight_key fl = k"
  using running_load [of k _ "c\<lparr>entries := [], negatives := []\<rparr>" f fl]
  by (auto simp: memo_get_def Let_def case_prod_unfold touch_in_flights dest: running_load split: option.splits if_splits)

lemma running_land: "running (land_flight f' fl' c) f = Some fl \<Longrightarrow> running c f = Some fl \<and> f \<noteq> f'"
  by (auto simp: land_flight_def split: if_splits)

lemma running_step:
  assumes "flights_ok c" and "running (memo_step opts e c) f = Some fl" and "\<not> invalidated fl"
  shows "running c f = Some fl \<and> \<not> disowns (flight_key fl) e
    \<or> (\<exists>t on. e = Got (flight_key fl) t on) \<and> f = next_flight c"
proof -
  have reg: "flights c (flight_key x) = Some f" if "running c f = Some x" "\<not> invalidated x" for x
    using assms(1) that unfolding flights_ok_def by blast
  have abandon: "running c f = Some fl \<and> flights c (flight_key fl) \<noteq> Some f"
    if "running (abandon_flights d) f = Some fl" "running d = running c" "flights d = flights c" for d
    using that assms(3) by (auto simp: abandon_flights_def disown_def ran_def split: if_splits)
  show ?thesis
  proof (cases e)
    case (Got k t on)
    then show ?thesis using assms(2) running_get [of opts on k t c f fl] by auto
  next
    case (Finished g v t on)
    then show ?thesis
      using assms(2) by (auto simp: finish_load_def store_flights dest!: running_land split: option.splits if_splits)
  next
    case (Failed g t)
    then show ?thesis
      using assms(2) by (auto simp: fail_load_def Let_def set_retry_flights dest!: running_land split: option.splits if_splits)
  next
    case (Invalidated k)
    then show ?thesis
      using assms(2,3) reg
      by (auto simp: memo_invalidate_def disown_def split: option.splits if_splits)
  next
    case (Invalidated_where m)
    then show ?thesis using assms(2,3) abandon reg by (fastforce simp: memo_invalidate_where_def)
  next
    case Cleared
    then show ?thesis using assms(2,3) abandon reg by (fastforce simp: memo_clear_def)
  next
    case Expired_all
    then show ?thesis using assms(2,3) abandon reg by (fastforce simp: memo_expire_all_def)
  qed
qed

lemma running_clean:
  "running (memo_run opts evs) f = Some fl \<Longrightarrow> \<not> invalidated fl \<Longrightarrow> clean_since_start opts evs (flight_key fl) f"
proof (induction evs arbitrary: fl rule: rev_induct)
  case Nil
  then show ?case by (simp add: memo_run_simps empty_memo_def)
next
  case (snoc e evs)
  from running_step [OF memo_run_flights_ok snoc.prems(1) [unfolded memo_run_simps] snoc.prems(2)]
  show ?case
  proof
    assume "running (memo_run opts evs) f = Some fl \<and> \<not> disowns (flight_key fl) e"
    then show ?thesis using snoc.IH snoc.prems(2) clean_snoc by blast
  next
    assume "(\<exists>t on. e = Got (flight_key fl) t on) \<and> f = next_flight (memo_run opts evs)"
    then show ?thesis using clean_start by metis
  qed
qed

lemma stored_step:
  assumes "stored (memo_step opts e c) k v a"
  shows "stored c k v a \<and> \<not> drops k v e
    \<or> (\<exists>f fl on. e = Finished f v a on \<and> running c f = Some fl \<and> \<not> invalidated fl \<and> flight_key fl = k)"
proof (cases e)
  case (Got j t on)
  then show ?thesis using assms stored_get by fastforce
next
  case (Finished f w t on)
  then show ?thesis
    using assms by (auto simp: finish_load_def stored_land dest!: stored_store split: option.splits if_splits)
next
  case (Failed f t)
  then show ?thesis
    using assms by (auto simp: fail_load_def Let_def stored_land dest: stored_set_retry split: option.splits if_splits)
next
  case (Invalidated j)
  then show ?thesis using assms by (auto simp: memo_invalidate_def stored_def delete_mem)
next
  case (Invalidated_where m)
  then show ?thesis
    using assms by (auto simp: memo_invalidate_where_def stored_def abandon_maps)
next
  case Cleared
  then show ?thesis using assms by (simp add: memo_clear_def stored_def abandon_maps)
next
  case Expired_all
  then show ?thesis using assms by (force simp: memo_expire_all_def stored_def abandon_maps)
qed

lemma stored_clean:
  "stored (memo_run opts evs) k v a \<Longrightarrow>
     \<exists>pre f on post. evs = pre @ Finished f v a on # post \<and> clean_since_start opts pre k f
       \<and> (\<forall>x\<in>set post. \<not> drops k v x)"
proof (induction evs rule: rev_induct)
  case Nil
  then show ?case by (simp add: memo_run_simps empty_memo_def stored_def)
next
  case (snoc e evs)
  from stored_step [OF snoc.prems [unfolded memo_run_simps]] show ?case
  proof
    assume "stored (memo_run opts evs) k v a \<and> \<not> drops k v e"
    then obtain pre f on post where "evs = pre @ Finished f v a on # post" "clean_since_start opts pre k f"
      "\<forall>x\<in>set post. \<not> drops k v x" "\<not> drops k v e" using snoc.IH by blast
    then show ?thesis
      by (intro exI [of _ pre] exI [of _ f] exI [of _ on] exI [of _ "post @ [e]"]) auto
  next
    assume "\<exists>f fl on. e = Finished f v a on \<and> running (memo_run opts evs) f = Some fl \<and> \<not> invalidated fl \<and> flight_key fl = k"
    then obtain f fl on where e: "e = Finished f v a on" "running (memo_run opts evs) f = Some fl"
      "\<not> invalidated fl" "flight_key fl = k" by blast
    then have "clean_since_start opts evs k f" using running_clean by blast
    then show ?thesis using e(1) by (intro exI [of _ evs]) auto
  qed
qed

lemma get_served:
  assumes "fst (memo_get opts on k t c) = Served v"
  obtains a where "on" and "stored c k v a"
    and "t - a < ttl_ms opts v \<or> t - a \<le> max_stale_ms opts \<and> serve_stale opts v"
proof -
  from assms obtain hit where h: "on" "memo_lookup k c = Some hit" "entry_value hit = v"
    "t - entry_at hit < ttl_ms opts v \<or> t - entry_at hit \<le> max_stale_ms opts \<and> serve_stale opts v"
    by (auto simp: memo_get_def Let_def case_prod_unfold split: option.splits if_splits)
  moreover have "stored c k v (entry_at hit)"
    using lookup_mem [OF h(2)] h(3) unfolding stored_def by blast
  ultimately show ?thesis using that by blast
qed

text \<open>C3: a value the cache answers a request for a key with is never a value that an invalidation should
  have removed. Whatever requests, finishing and failing loads and invalidations came before, it is the
  result of a load of that very key which no invalidation of the key, clear, selective invalidation or
  expiry happened during; no later invalidation, clear, selective invalidation of that value or bypass
  has dropped it; and at the time of the answer it is within its lifetime, or within the stale window
  and of a kind that may be served stale. A bypassed cache answers nothing.
\<close>

theorem memo_serves_owned_values:
  assumes "fst (memo_get opts on k t (memo_run opts evs)) = Served v"
  shows "on \<and> (\<exists>pre f a on' post. evs = pre @ Finished f v a on' # post \<and> clean_since_start opts pre k f
     \<and> (\<forall>x\<in>set post. \<not> drops k v x)
     \<and> (t - a < ttl_ms opts v \<or> t - a \<le> max_stale_ms opts \<and> serve_stale opts v))"
proof -
  obtain a where a: "on" "stored (memo_run opts evs) k v a"
    "t - a < ttl_ms opts v \<or> t - a \<le> max_stale_ms opts \<and> serve_stale opts v"
    using get_served [OF assms] by blast
  then show ?thesis using stored_clean [OF a(2)] by blast
qed

definition sample_options :: "nat memo_options" where
  "sample_options =
     \<lparr>ttl_ms = \<lambda>_. 1000, max_entries = 2, is_negative = \<lambda>v. v = 0, negative_max = Some 1,
      keep_previous = \<lambda>_ _. False, serve_stale = \<lambda>v. v \<noteq> 0, max_stale_ms = 600000, retry_after_ms = 5000\<rparr>"

lemma sample_run:
  "fst (memo_get sample_options True ''w'' 3000
     (memo_run sample_options [Got ''w'' 0 True, Finished 0 (7::nat) 20 True])) = Served 7"
  by (simp add: memo_run_def empty_memo_def memo_get_def memo_lookup_def memo_load_def finish_load_def
      memo_store_def land_flight_def evict.simps sample_options_def)

lemma memo_serves_owned_values_witness:
  "\<exists>pre f a on' post. [Got ''w'' 0 True, Finished 0 (7::nat) 20 True] = pre @ Finished f 7 a on' # post
     \<and> clean_since_start sample_options pre ''w'' f \<and> (\<forall>x\<in>set post. \<not> drops ''w'' 7 x)
     \<and> (3000 - a < ttl_ms sample_options 7 \<or> 3000 - a \<le> max_stale_ms sample_options \<and> serve_stale sample_options 7)"
  using memo_serves_owned_values [OF sample_run] by blast

section \<open>Bounds\<close>

definition memo_bounded :: "'v memo_options \<Rightarrow> 'v memo \<Rightarrow> bool" where
  "memo_bounded opts c \<longleftrightarrow>
     distinct (map fst (entries c)) \<and> distinct (map fst (negatives c))
     \<and> int (length (entries c)) \<le> max 1 (max_entries opts)
     \<and> int (length (negatives c)) \<le> max 1 (case negative_max opts of Some n \<Rightarrow> n | None \<Rightarrow> max_entries opts)"

lemma length_memo_touch: "distinct (map fst m) \<Longrightarrow> map_of m k = Some e \<Longrightarrow> length (memo_touch k e m) \<le> length m"
  using jm.length_touch [of m k e] by (simp add: memo_touch_def)

lemma distinct_memo_touch: "distinct (map fst m) \<Longrightarrow> distinct (map fst (memo_touch k e m))"
  unfolding memo_touch_def by (intro jm.valid_put jm.valid_del)

lemma length_delete_le: "length (AList.delete k m) \<le> length m"
  by (simp add: AList.delete_eq)

lemma bounded_touch_in:
  assumes "memo_bounded opts d" and "memo_lookup k c = Some h" and "entries d = entries c" and "negatives d = negatives c"
  shows "memo_bounded opts (touch_in k h d)"
proof -
  have d: "distinct (map fst (entries c))" "distinct (map fst (negatives c))"
    using assms unfolding memo_bounded_def by auto
  show ?thesis
  proof (cases "map_of (entries c) k = None")
    case True
    then have "map_of (negatives c) k = Some h" using assms(2) by (simp add: memo_lookup_def)
    from length_memo_touch [OF d(2) this] show ?thesis
      using assms(1,3,4) True distinct_memo_touch [OF d(2), of k h] by (simp add: memo_bounded_def touch_in_def)
  next
    case False
    then have "map_of (entries c) k = Some h" using assms(2) by (simp add: memo_lookup_def)
    from length_memo_touch [OF d(1) this] show ?thesis
      using assms(1,3,4) False distinct_memo_touch [OF d(1), of k h] by (auto simp: memo_bounded_def touch_in_def)
  qed
qed

lemma bounded_get: "memo_bounded opts c \<Longrightarrow> memo_bounded opts (snd (memo_get opts on k t c))"
proof -
  assume b: "memo_bounded opts c"
  have l: "memo_bounded opts (snd (memo_load k bg d)) = memo_bounded opts d" for bg and d :: "'a memo"
    by (simp add: memo_bounded_def load_maps)
  have e: "memo_bounded opts (c\<lparr>entries := [], negatives := []\<rparr>)"
    by (simp add: memo_bounded_def le_max_iff_disj)
  show ?thesis
    using b e by (auto simp: memo_get_def Let_def case_prod_unfold l load_maps intro!: bounded_touch_in split: option.split)
qed

lemma bounded_set_retry: "memo_bounded opts c \<Longrightarrow> memo_bounded opts (set_retry k r c)"
  by (simp add: memo_bounded_def set_retry_def keys_map_entry length_map_entry)


lemma bounded_drop_key:
  "memo_bounded opts c \<Longrightarrow>
     memo_bounded opts (c\<lparr>entries := AList.delete k (entries c), negatives := AList.delete k (negatives c)\<rparr>)"
  using length_delete_le [of k "entries c"] length_delete_le [of k "negatives c"]
  by (simp add: memo_bounded_def distinct_delete)

lemma bounded_insert:
  assumes "distinct (map fst m)"
  shows "distinct (map fst (evict n (AList.update k e m)))"
    and "int (length (evict n (AList.update k e m))) \<le> max 1 n"
  using distinct_evict [OF distinct_update [OF assms]] length_evict by blast+

lemma bounded_put:
  assumes "memo_bounded opts c"
  shows "memo_bounded opts (c\<lparr>entries := evict (max_entries opts) (AList.update k e (entries c))\<rparr>)"
    and "memo_bounded opts (c\<lparr>negatives := evict (case negative_max opts of Some n \<Rightarrow> n | None \<Rightarrow> max_entries opts)
           (AList.update k e (negatives c))\<rparr>)"
proof -
  have d: "distinct (map fst (entries c))" "distinct (map fst (negatives c))"
    using assms unfolding memo_bounded_def by auto
  show "memo_bounded opts (c\<lparr>entries := evict (max_entries opts) (AList.update k e (entries c))\<rparr>)"
    using assms bounded_insert [OF d(1)] unfolding memo_bounded_def by simp
  show "memo_bounded opts (c\<lparr>negatives := evict (case negative_max opts of Some n \<Rightarrow> n | None \<Rightarrow> max_entries opts)
           (AList.update k e (negatives c))\<rparr>)"
    using assms bounded_insert [OF d(2)] unfolding memo_bounded_def by simp
qed

lemma bounded_store: "memo_bounded opts c \<Longrightarrow> memo_bounded opts (memo_store opts on k v t c)"
proof -
  assume b: "memo_bounded opts c"
  note d = bounded_drop_key [OF b, of k]
  show ?thesis
    unfolding memo_store_def Let_def
    using bounded_set_retry [OF b] d bounded_put [OF d]
    by (simp split: if_split)
qed

lemma bounded_fields:
  "entries d = entries c \<Longrightarrow> negatives d = negatives c \<Longrightarrow> memo_bounded opts d = memo_bounded opts c"
  by (simp add: memo_bounded_def)

lemma land_maps: "entries (land_flight f fl c) = entries c" "negatives (land_flight f fl c) = negatives c"
  by (simp_all add: land_flight_def)

lemma bounded_land: "memo_bounded opts (land_flight f fl c) = memo_bounded opts c"
  by (rule bounded_fields) (rule land_maps)+

lemma bounded_abandon: "memo_bounded opts (abandon_flights c) = memo_bounded opts c"
  by (rule bounded_fields) (rule abandon_maps)+

lemma length_filter_bound: "int (length xs) \<le> n \<Longrightarrow> int (length (filter P xs)) \<le> n"
  using length_filter_le [of P xs] by linarith

lemma bounded_filter:
  "memo_bounded opts c \<Longrightarrow> memo_bounded opts (c\<lparr>entries := filter P (entries c), negatives := filter P (negatives c)\<rparr>)"
  by (simp add: memo_bounded_def distinct_map_filter length_filter_bound)

lemma memo_run_bounded: "memo_bounded opts (memo_run opts evs)"
proof (induction evs rule: rev_induct)
  case Nil
  then show ?case by (simp add: memo_run_simps empty_memo_def memo_bounded_def le_max_iff_disj)
next
  case (snoc e evs)
  let ?c = "memo_run opts evs"
  have same: "map (fst \<circ> (\<lambda>(k, x). (k, g x))) m = map fst m" for g and m :: "'a memo_map"
    by auto
  have clear: "memo_bounded opts (?c\<lparr>entries := [], negatives := []\<rparr>)"
    by (simp add: memo_bounded_def le_max_iff_disj)
  show ?case
  proof (cases e)
    case (Got k t on)
    then show ?thesis using bounded_get [OF snoc] by (simp add: memo_run_simps)
  next
    case (Finished f v t on)
    then show ?thesis
      using snoc by (simp add: memo_run_simps finish_load_def bounded_land bounded_store split: option.split)
  next
    case (Failed f t)
    then show ?thesis
      using snoc by (simp add: memo_run_simps fail_load_def Let_def bounded_land bounded_set_retry split: option.split)
  next
    case (Invalidated k)
    then show ?thesis
      using bounded_drop_key [OF snoc, of k] by (simp add: memo_run_simps memo_invalidate_def memo_bounded_def)
  next
    case (Invalidated_where m)
    then show ?thesis
      using bounded_filter [OF snoc] by (simp add: memo_run_simps memo_invalidate_where_def bounded_abandon)
  next
    case Cleared
    then show ?thesis using clear by (simp add: memo_run_simps memo_clear_def bounded_abandon)
  next
    case Expired_all
    then show ?thesis
      using snoc by (simp add: memo_run_simps memo_expire_all_def abandon_maps memo_bounded_def same)
  qed
qed

text \<open>No key is in both maps.\<close>

definition memo_apart :: "'v memo \<Rightarrow> bool" where
  "memo_apart c \<longleftrightarrow> fst ` set (entries c) \<inter> fst ` set (negatives c) = {}"

lemma apart_shrink:
  "memo_apart c \<Longrightarrow> fst ` set (entries d) \<subseteq> fst ` set (entries c) \<Longrightarrow> fst ` set (negatives d) \<subseteq> fst ` set (negatives c)
   \<Longrightarrow> memo_apart d"
  unfolding memo_apart_def by blast

lemma apart_same: "memo_apart c \<Longrightarrow> entries d = entries c \<Longrightarrow> negatives d = negatives c \<Longrightarrow> memo_apart d"
  by (simp add: memo_apart_def)

lemma keys_delete: "fst ` set (AList.delete k m) = fst ` set m - {k}"
  by (auto simp: AList.delete_eq image_iff)

lemma keys_memo_touch: "map_of m k \<noteq> None \<Longrightarrow> fst ` set (memo_touch k e m) = fst ` set m"
  by (auto simp: memo_touch_def dom_update keys_delete map_of_eq_None_iff)

lemma keys_evict_update: "fst ` set (evict n (AList.update k e m)) \<subseteq> insert k (fst ` set m)"
  using evict_update_mem by (fastforce simp: image_iff)

lemma apart_touch_in: "memo_apart c \<Longrightarrow> memo_lookup k c = Some h \<Longrightarrow> memo_apart (touch_in k e c)"
  by (auto simp: memo_apart_def touch_in_def memo_lookup_def keys_memo_touch split: if_splits)

lemma apart_get:
  assumes "memo_apart c"
  shows "memo_apart (snd (memo_get opts on k t c))"
proof -
  have l: "memo_apart (snd (memo_load j bg d)) = memo_apart d" and n: "memo_lookup i (snd (memo_load j bg d)) = memo_lookup i d"
    for i j bg and d :: "'a memo"
    by (simp_all add: memo_apart_def memo_lookup_def load_maps)
  have e: "memo_apart (c\<lparr>entries := [], negatives := []\<rparr>)" by (simp add: memo_apart_def)
  show ?thesis
    using assms e by (auto simp: memo_get_def Let_def case_prod_unfold l n intro!: apart_touch_in split: option.split)
qed

lemma apart_set_retry: "memo_apart c \<Longrightarrow> memo_apart (set_retry k r c)"
  by (simp add: memo_apart_def set_retry_def dom_map_entry)

lemma disjoint_insert_left: "A \<inter> B = {} \<Longrightarrow> k \<notin> B \<Longrightarrow> A' \<subseteq> insert k A \<Longrightarrow> A' \<inter> B = {}"
  by blast

lemma apart_put:
  assumes "memo_apart c" and "k \<notin> fst ` set (entries c)" and "k \<notin> fst ` set (negatives c)"
  shows "memo_apart (c\<lparr>entries := evict n (AList.update k e (entries c))\<rparr>)"
    and "memo_apart (c\<lparr>negatives := evict n (AList.update k e (negatives c))\<rparr>)"
proof -
  note d = assms(1) [unfolded memo_apart_def]
  show "memo_apart (c\<lparr>entries := evict n (AList.update k e (entries c))\<rparr>)"
    using disjoint_insert_left [OF d assms(3) keys_evict_update] by (simp add: memo_apart_def)
  show "memo_apart (c\<lparr>negatives := evict n (AList.update k e (negatives c))\<rparr>)"
    using disjoint_insert_left [OF d [unfolded Int_commute [of "fst ` set (entries c)"]] assms(2) keys_evict_update]
    by (simp add: memo_apart_def Int_commute)
qed

lemma apart_drop_key:
  "memo_apart c \<Longrightarrow> memo_apart (c\<lparr>entries := AList.delete k (entries c), negatives := AList.delete k (negatives c)\<rparr>)"
  by (rule apart_shrink) (auto simp: keys_delete)

lemma apart_store: "memo_apart c \<Longrightarrow> memo_apart (memo_store opts on k v t c)"
proof -
  assume c: "memo_apart c"
  let ?d = "c\<lparr>entries := AList.delete k (entries c), negatives := AList.delete k (negatives c)\<rparr>"
  have d: "memo_apart ?d" "k \<notin> fst ` set (entries ?d)" "k \<notin> fst ` set (negatives ?d)"
    using apart_drop_key [OF c] by (simp_all add: keys_delete)
  show ?thesis
    unfolding memo_store_def Let_def
    using apart_set_retry [OF c] d(1) apart_put [OF d] by (simp split: if_split)
qed

lemma memo_run_apart: "memo_apart (memo_run opts evs)"
proof (induction evs rule: rev_induct)
  case Nil
  then show ?case by (simp add: memo_run_simps empty_memo_def memo_apart_def)
next
  case (snoc e evs)
  let ?c = "memo_run opts evs"
  have same: "memo_apart (land_flight f fl d) = memo_apart d" "memo_apart (abandon_flights d) = memo_apart d" for f fl and d :: "'a memo"
    by (simp_all add: memo_apart_def land_maps abandon_maps)
  show ?case
  proof (cases e)
    case (Got k t on)
    then show ?thesis using apart_get [OF snoc] by (simp add: memo_run_simps)
  next
    case (Finished f v t on)
    then show ?thesis
      using snoc by (simp add: memo_run_simps finish_load_def same apart_store split: option.split)
  next
    case (Failed f t)
    then show ?thesis
      using snoc by (simp add: memo_run_simps fail_load_def Let_def same apart_set_retry split: option.split)
  next
    case (Invalidated k)
    then show ?thesis
      by (simp add: memo_run_simps memo_invalidate_def) (rule apart_shrink [OF snoc], auto simp: keys_delete)
  next
    case (Invalidated_where m)
    then show ?thesis
      by (simp add: memo_run_simps memo_invalidate_where_def same) (rule apart_shrink [OF snoc], auto)
  next
    case Cleared
    then show ?thesis by (simp add: memo_run_simps memo_clear_def same) (simp add: memo_apart_def)
  next
    case Expired_all
    then show ?thesis
      by (simp add: memo_run_simps memo_expire_all_def same) (rule apart_shrink [OF snoc], force+)
  qed
qed

text \<open>C35: single flight and bounded memory. In every run, all the running loads of a key that were not
  disowned are the one registered for it, so concurrent misses share one load; every stored key is
  stored once over the two maps together, and the two never hold more than their limits (at least one entry each).
\<close>

theorem memo_single_flight_and_bounded:
  "{f. \<exists>fl. running (memo_run opts evs) f = Some fl \<and> flight_key fl = k \<and> \<not> invalidated fl}
     = set_option (flights (memo_run opts evs) k)
   \<and> distinct (map fst (entries (memo_run opts evs) @ negatives (memo_run opts evs)))
   \<and> int (length (entries (memo_run opts evs))) \<le> max 1 (max_entries opts)
   \<and> int (length (negatives (memo_run opts evs)))
       \<le> max 1 (case negative_max opts of Some n \<Rightarrow> n | None \<Rightarrow> max_entries opts)"
proof -
  let ?c = "memo_run opts evs"
  have ok: "flights_ok ?c" by (rule memo_run_flights_ok)
  have "{f. \<exists>fl. running ?c f = Some fl \<and> flight_key fl = k \<and> \<not> invalidated fl} = set_option (flights ?c k)"
    using ok unfolding flights_ok_def by (auto simp: elem_set)
  moreover have "memo_bounded opts ?c" "memo_apart ?c" by (rule memo_run_bounded memo_run_apart)+
  ultimately show ?thesis unfolding memo_bounded_def memo_apart_def by simp
qed

section \<open>The token bucket\<close>























end
