(* ===== verification/Node_Router.thy ===== *)
theory Node_Router
  imports Js_Values
begin

text \<open>
  The node router of the realtime cluster: the health cache of the nodes
  (\<open>server/services/realtime/nodeHealth.ts\<close>) and the selection of one node for a new connection
  (\<open>nodeRouter.ts\<close>). The health probe, the clock and the two random draws are arguments; a selection
  that reads a property of an undefined node throws, which is \<open>None\<close>.
\<close>

section \<open>Nodes and their health\<close>

record cluster_node =
  node_id :: string
  node_display :: string
  node_name :: string
  ws_url :: string
  api_url :: string
  enabled :: bool
  accepting :: bool
  draining :: bool
  weight :: rat

datatype node_status = Node_healthy | Node_degraded | Node_down | Node_unknown | Node_draining | Node_maintenance

record node_health =
  nh_id :: string
  nh_status :: node_status
  nh_message :: "string option"
  nh_latency :: "int option"
  nh_connections :: "rat option"
  nh_cluster_connections :: "rat option"
  nh_cluster_nodes :: "rat option"
  nh_matched :: "bool option"
  nh_checked_at :: "int option"
  nh_stale :: "bool option"

definition NODE_HEALTH_TTL_MS :: int where "NODE_HEALTH_TTL_MS = 10000"
definition NODE_HEALTH_HARD_STALE_MS :: int where "NODE_HEALTH_HARD_STALE_MS = 60000"

record health_store =
  health_cache :: "string \<Rightarrow> node_health option"
  in_flight :: "string set"
  probe_count :: nat

definition checked_or_zero :: "node_health \<Rightarrow> int" where
  "checked_or_zero h = (case nh_checked_at h of None \<Rightarrow> 0 | Some t \<Rightarrow> t)"

definition invalidate_node_health :: "string option \<Rightarrow> health_store \<Rightarrow> health_store" where
  "invalidate_node_health node s =
     (case node of
        Some i \<Rightarrow> if i = [] then s\<lparr>health_cache := \<lambda>_. None\<rparr>
                  else s\<lparr>health_cache := (health_cache s)(i := None)\<rparr>
      | None \<Rightarrow> s\<lparr>health_cache := \<lambda>_. None\<rparr>)"

definition stale_to_unknown :: "int \<Rightarrow> node_health \<Rightarrow> node_health" where
  "stale_to_unknown t hit =
     (if NODE_HEALTH_HARD_STALE_MS < t - checked_or_zero hit
      then \<lparr>nh_id = nh_id hit, nh_status = Node_unknown, nh_message = Some ''health evidence stale'',
            nh_latency = None, nh_connections = None, nh_cluster_connections = None,
            nh_cluster_nodes = None, nh_matched = None, nh_checked_at = nh_checked_at hit,
            nh_stale = Some True\<rparr>
      else hit)"

definition peek_node_health :: "health_store \<Rightarrow> int \<Rightarrow> string \<Rightarrow> node_health option" where
  "peek_node_health s t i = map_option (stale_to_unknown t) (health_cache s i)"

definition snapshot_cluster_health ::
  "health_store \<Rightarrow> int \<Rightarrow> cluster_node list \<Rightarrow> string \<Rightarrow> node_health option" where
  "snapshot_cluster_health s t nodes =
     fold (\<lambda>n m. case peek_node_health s t (node_id n) of None \<Rightarrow> m | Some h \<Rightarrow> m(node_id n \<mapsto> h))
       nodes (\<lambda>_. None)"

text \<open>What the node answered: its \<open>info\<close> reply, or an error with a message.\<close>

record node_info =
  info_status :: node_status
  info_message :: "string option"
  info_clients :: "rat option"
  info_cluster_clients :: "rat option"
  info_nodes :: "rat option"
  info_matched :: "bool option"

datatype health_lookup = Cached node_health | Joined | Probing

definition get_node_health :: "cluster_node \<Rightarrow> bool \<Rightarrow> int \<Rightarrow> health_store \<Rightarrow> health_lookup \<times> health_store" where
  "get_node_health n force t s =
     (let probe = (Probing, s\<lparr>in_flight := insert (node_id n) (in_flight s), probe_count := probe_count s + 1\<rparr>);
          join = (if node_id n \<in> in_flight s \<and> \<not> force then (Joined, s) else probe)
      in if force then join
         else (case health_cache s (node_id n) of
                 Some hit \<Rightarrow> if t - checked_or_zero hit < NODE_HEALTH_TTL_MS then (Cached hit, s) else join
               | None \<Rightarrow> join))"

definition probe_snapshot :: "cluster_node \<Rightarrow> string + node_info \<Rightarrow> int \<Rightarrow> int \<Rightarrow> node_health" where
  "probe_snapshot n answer started t =
     (case answer of
        Inr info \<Rightarrow>
          \<lparr>nh_id = node_id n, nh_status = info_status info, nh_message = info_message info,
           nh_latency = Some (t - started), nh_connections = info_clients info,
           nh_cluster_connections = info_cluster_clients info, nh_cluster_nodes = info_nodes info,
           nh_matched = info_matched info, nh_checked_at = Some t, nh_stale = None\<rparr>
      | Inl msg \<Rightarrow>
          \<lparr>nh_id = node_id n, nh_status = Node_down,
           nh_message = Some (if msg = [] then ''probe failed'' else msg), nh_latency = None,
           nh_connections = None, nh_cluster_connections = None, nh_cluster_nodes = None,
           nh_matched = None, nh_checked_at = Some t, nh_stale = None\<rparr>)"

definition finish_probe :: "cluster_node \<Rightarrow> string + node_info \<Rightarrow> int \<Rightarrow> int \<Rightarrow> health_store \<Rightarrow> health_store" where
  "finish_probe n answer started t s =
     s\<lparr>health_cache := (health_cache s)(node_id n \<mapsto> probe_snapshot n answer started t),
       in_flight := in_flight s - {node_id n}\<rparr>"

definition effective_node_status :: "cluster_node \<Rightarrow> node_health option \<Rightarrow> node_status" where
  "effective_node_status n health =
     (if \<not> enabled n then Node_maintenance
      else if draining n \<or> \<not> accepting n then Node_draining
      else (case health of None \<Rightarrow> Node_unknown | Some h \<Rightarrow> nh_status h))"

section \<open>Selection\<close>

datatype selection_reason =
  Selected | No_nodes_configured | No_enabled_nodes | No_accepting_nodes | No_healthy_nodes

record selection =
  chosen :: "cluster_node option"
  selection_reason :: selection_reason
  eligible_count :: nat

type_synonym health_map = "string \<Rightarrow> node_health option"

definition eligible_nodes :: "cluster_node list \<Rightarrow> cluster_node list" where
  "eligible_nodes nodes = filter (\<lambda>n. enabled n \<and> \<not> draining n \<and> accepting n \<and> 0 < weight n) nodes"

definition is_selectable_health :: "node_health option \<Rightarrow> bool" where
  "is_selectable_health h = (case h of None \<Rightarrow> False | Some x \<Rightarrow> nh_status x \<in> {Node_healthy, Node_degraded})"

definition unknown_selectable :: "node_health option \<Rightarrow> bool" where
  "unknown_selectable h =
     (case h of None \<Rightarrow> True | Some x \<Rightarrow> nh_status x = Node_unknown \<and> nh_stale x \<noteq> Some True)"

text \<open>The loop of the weighted draw; \<open>r\<close> is what is left of the drawn amount.\<close>

fun weighted_walk :: "cluster_node list \<Rightarrow> rat \<Rightarrow> cluster_node option" where
  "weighted_walk [] r = None"
| "weighted_walk (n # ns) r =
     (if r - weight n \<le> 0 then Some n
      else if ns = [] then Some n else weighted_walk ns (r - weight n))"

definition total_weight :: "cluster_node list \<Rightarrow> rat" where
  "total_weight pool = sum_list (map weight pool)"

definition weighted_pick :: "cluster_node list \<Rightarrow> rat \<Rightarrow> cluster_node option" where
  "weighted_pick pool rand =
     (if total_weight pool \<le> 0 then (case pool of [] \<Rightarrow> None | n # _ \<Rightarrow> Some n)
      else weighted_walk pool (rand * total_weight pool))"

fun text_le :: "string \<Rightarrow> string \<Rightarrow> bool" where
  "text_le [] _ \<longleftrightarrow> True"
| "text_le (_ # _) [] \<longleftrightarrow> False"
| "text_le (a # as) (b # bs) \<longleftrightarrow>
     (of_char a :: nat) < of_char b \<or> a = b \<and> text_le as bs"

definition better :: "cluster_node \<Rightarrow> cluster_node \<Rightarrow> health_map \<Rightarrow> cluster_node" where
  "better a b health =
     (let by_weight = (if weight a \<noteq> weight b then (if weight b < weight a then a else b)
                       else if text_le (node_id a) (node_id b) then a else b)
      in case (Option.bind (health (node_id a)) nh_connections, Option.bind (health (node_id b)) nh_connections) of
           (Some ca, Some cb) \<Rightarrow> if ca \<noteq> cb then (if ca < cb then a else b) else by_weight
         | _ \<Rightarrow> by_weight)"

definition candidate_pool :: "cluster_node list \<Rightarrow> health_map \<Rightarrow> cluster_node list" where
  "candidate_pool nodes health =
     (let accepting = eligible_nodes nodes;
          proven = filter (\<lambda>n. is_selectable_health (health (node_id n))) accepting;
          unknown_only = filter (\<lambda>n. unknown_selectable (health (node_id n))) accepting
      in if proven \<noteq> [] then proven else unknown_only)"

definition nothing :: "selection_reason \<Rightarrow> nat \<Rightarrow> selection option" where
  "nothing reason n = Some \<lparr>chosen = None, selection_reason = reason, eligible_count = n\<rparr>"

definition select_node :: "cluster_node list \<Rightarrow> health_map \<Rightarrow> rat \<Rightarrow> rat \<Rightarrow> selection option" where
  "select_node nodes health rand1 rand2 =
     (if nodes = [] then nothing No_nodes_configured 0
      else if filter enabled nodes = [] then nothing No_enabled_nodes 0
      else if eligible_nodes nodes = [] then nothing No_accepting_nodes 0
      else
        let pool = candidate_pool nodes health in
        if pool = [] then nothing No_healthy_nodes (length (eligible_nodes nodes))
        else if length pool = 1
        then Some \<lparr>chosen = Some (hd pool), selection_reason = Selected, eligible_count = 1\<rparr>
        else
          case weighted_pick pool rand1 of
            None \<Rightarrow> None
          | Some first \<Rightarrow>
              (case weighted_pick (filter (\<lambda>n. node_id n \<noteq> node_id first) pool) rand2 of
                 None \<Rightarrow> None
               | Some second \<Rightarrow>
                   Some \<lparr>chosen = Some (better first second health), selection_reason = Selected,
                         eligible_count = length pool\<rparr>))"

section \<open>Lemmas\<close>

lemma weighted_walk_Some: "pool \<noteq> [] \<Longrightarrow> \<exists>n\<in>set pool. weighted_walk pool r = Some n"
  by (induction pool r rule: weighted_walk.induct) auto

lemma weighted_pick_Some:
  "pool \<noteq> [] \<Longrightarrow> \<exists>n\<in>set pool. weighted_pick pool r = Some n"
  using weighted_walk_Some [of pool] by (cases pool) (auto simp: weighted_pick_def)

lemma better_either: "better a b h = a \<or> better a b h = b"
  by (auto simp: better_def Let_def split: option.split)

lemma weighted_walk_interval:
  assumes "pool \<noteq> []" and "\<forall>n\<in>set pool. 0 < weight n" and "r \<le> total_weight pool"
  shows "\<exists>i < length pool. weighted_walk pool r = Some (pool ! i) \<and> (i = 0 \<or> total_weight (take i pool) < r)
    \<and> r \<le> total_weight (take (Suc i) pool)"
  using assms
proof (induction pool r rule: weighted_walk.induct)
  case (2 n ns r)
  show ?case
  proof (cases "r \<le> weight n")
    case True
    then show ?thesis by (intro exI [of _ 0]) (simp add: total_weight_def)
  next
    case gt: False
    then have "ns \<noteq> []" using "2.prems"(3) by (auto simp: total_weight_def)
    moreover have "r - weight n \<le> total_weight ns" using "2.prems"(3) by (simp add: total_weight_def)
    ultimately obtain i where i: "i < length ns" "weighted_walk ns (r - weight n) = Some (ns ! i)"
      "i = 0 \<or> total_weight (take i ns) < r - weight n" "r - weight n \<le> total_weight (take (Suc i) ns)"
      using "2.IH" gt "2.prems"(2) by auto
    then show ?thesis
      using gt \<open>ns \<noteq> []\<close>
      by (intro exI [of _ "Suc i"]) (auto simp: total_weight_def algebra_simps)
  qed
qed simp

lemma snapshot_apply:
  "snapshot_cluster_health s t nodes i =
     (if i \<in> node_id ` set nodes then peek_node_health s t i else None)"
proof -
  have "fold (\<lambda>n m. case peek_node_health s t (node_id n) of None \<Rightarrow> m | Some h \<Rightarrow> m(node_id n \<mapsto> h)) nodes m i
    = (if i \<in> node_id ` set nodes \<and> peek_node_health s t i \<noteq> None then peek_node_health s t i else m i)" for m
    by (induction nodes arbitrary: m) (auto split: option.split)
  then show ?thesis by (auto simp: snapshot_cluster_health_def)
qed

lemma candidate_pool_cases:
  "n \<in> set (candidate_pool nodes health) \<Longrightarrow>
     n \<in> set (eligible_nodes nodes) \<and>
     (is_selectable_health (health (node_id n))
      \<or> (\<forall>m\<in>set (eligible_nodes nodes). \<not> is_selectable_health (health (node_id m)))
        \<and> unknown_selectable (health (node_id n)))"
  by (auto simp: candidate_pool_def Let_def filter_empty_conv split: if_splits)

lemma select_node_pool:
  assumes "select_node nodes health r1 r2 = Some res" and "chosen res = Some n"
  shows "n \<in> set (candidate_pool nodes health) \<and> selection_reason res = Selected"
proof -
  let ?pool = "candidate_pool nodes health"
  have ne: "?pool \<noteq> []"
    using assms by (auto simp: select_node_def nothing_def Let_def split: if_splits)
  show ?thesis
  proof (cases "length ?pool = 1")
    case True
    then show ?thesis
      using assms ne by (cases ?pool) (auto simp: select_node_def nothing_def Let_def split: if_splits)
  next
    case False
    obtain a where a: "a \<in> set ?pool" "weighted_pick ?pool r1 = Some a"
      using weighted_pick_Some [OF ne] by blast
    let ?rest = "filter (\<lambda>n. node_id n \<noteq> node_id a) ?pool"
    have rest: "?rest \<noteq> []"
      using assms a False ne
      by (auto simp: select_node_def nothing_def Let_def weighted_pick_def total_weight_def split: if_splits)
    obtain b where b: "b \<in> set ?rest" "weighted_pick ?rest r2 = Some b"
      using weighted_pick_Some [OF rest] by blast
    have "n = better a b health \<and> selection_reason res = Selected"
      using assms False ne a b by (auto simp: select_node_def nothing_def Let_def split: if_splits)
    then show ?thesis using better_either [of a b health] a b by auto
  qed
qed

lemma distinct_rest:
  assumes "distinct (map node_id pool)" and "length pool \<noteq> 1" and "a \<in> set pool"
  shows "filter (\<lambda>n. node_id n \<noteq> node_id a) pool \<noteq> []"
proof
  assume "filter (\<lambda>n. node_id n \<noteq> node_id a) pool = []"
  then have "\<forall>n\<in>set pool. node_id n = node_id a" by (simp add: filter_empty_conv)
  then have "set (map node_id pool) \<subseteq> {node_id a}" by auto
  then have "card (set (map node_id pool)) \<le> 1" by (metis card.empty card_insert_disjoint card_mono empty_iff finite.emptyI finite_insert One_nat_def)
  then have "length pool \<le> 1" using assms(1) distinct_card [of "map node_id pool"] by simp
  then show False using assms(2,3) by (cases pool) auto
qed

lemma distinct_map_filter_pool:
  "distinct (map node_id nodes) \<Longrightarrow> distinct (map node_id (candidate_pool nodes health))"
  by (simp add: candidate_pool_def Let_def eligible_nodes_def distinct_map_filter)


section \<open>Properties\<close>

text \<open>C18: A new connection is only ever routed to a fit node: the node chosen from the cached health is
  enabled, accepting, not draining and weighted, and either its last probe found it healthy or degraded
  no more than a minute ago, or no accepting node has such evidence and this one was never probed or
  last answered as unknown within the minute; evidence that aged out never admits a node.\<close>

theorem router_admits_fit_nodes:
  assumes "select_node nodes (snapshot_cluster_health s t nodes) r1 r2 = Some res" and "chosen res = Some n"
  shows "n \<in> set nodes \<and> enabled n \<and> accepting n \<and> \<not> draining n \<and> 0 < weight n
    \<and> (case health_cache s (node_id n) of
         None \<Rightarrow> \<forall>m\<in>set (eligible_nodes nodes). \<not> is_selectable_health (peek_node_health s t (node_id m))
       | Some h \<Rightarrow> t - checked_or_zero h \<le> NODE_HEALTH_HARD_STALE_MS
           \<and> (nh_status h \<in> {Node_healthy, Node_degraded}
              \<or> nh_status h = Node_unknown
                \<and> (\<forall>m\<in>set (eligible_nodes nodes). \<not> is_selectable_health (peek_node_health s t (node_id m)))))"
proof -
  let ?h = "snapshot_cluster_health s t nodes"
  have el: "n \<in> set (eligible_nodes nodes)"
    and sel: "is_selectable_health (?h (node_id n))
      \<or> (\<forall>m\<in>set (eligible_nodes nodes). \<not> is_selectable_health (?h (node_id m))) \<and> unknown_selectable (?h (node_id n))"
    using select_node_pool [OF assms] candidate_pool_cases by blast+
  have snap: "?h (node_id m) = peek_node_health s t (node_id m)" if "m \<in> set (eligible_nodes nodes)" for m
    using that by (auto simp: snapshot_apply eligible_nodes_def)
  have sel': "is_selectable_health (peek_node_health s t (node_id n))
      \<or> (\<forall>m\<in>set (eligible_nodes nodes). \<not> is_selectable_health (peek_node_health s t (node_id m)))
        \<and> unknown_selectable (peek_node_health s t (node_id n))"
    using sel snap [OF el] by (auto simp: snap)
  have fit: "n \<in> set nodes" "enabled n" "accepting n" "\<not> draining n" "0 < weight n"
    using el by (auto simp: eligible_nodes_def)
  show ?thesis
  proof (cases "health_cache s (node_id n)")
    case None
    then have "peek_node_health s t (node_id n) = None" by (simp add: peek_node_health_def)
    then show ?thesis using None fit sel' by (simp add: is_selectable_health_def)
  next
    case (Some h)
    then have p: "peek_node_health s t (node_id n) = Some (stale_to_unknown t h)"
      by (simp add: peek_node_health_def)
    have fresh: "t - checked_or_zero h \<le> NODE_HEALTH_HARD_STALE_MS"
    proof (rule ccontr)
      assume "\<not> ?thesis"
      then have "nh_status (stale_to_unknown t h) = Node_unknown" "nh_stale (stale_to_unknown t h) = Some True"
        by (simp_all add: stale_to_unknown_def)
      then show False using sel' by (auto simp: p is_selectable_health_def unknown_selectable_def)
    qed
    then have "stale_to_unknown t h = h" by (simp add: stale_to_unknown_def)
    then show ?thesis
      using Some fit sel' fresh by (auto simp: p is_selectable_health_def unknown_selectable_def)
  qed
qed

definition example_node :: "string \<Rightarrow> rat \<Rightarrow> cluster_node" where
  "example_node i w =
     \<lparr>node_id = i, node_display = i, node_name = i, ws_url = [], api_url = [], enabled = True,
      accepting = True, draining = False, weight = w\<rparr>"

lemma router_admits_fit_nodes_witness:
  "\<exists>res. select_node [example_node ''rt-1'' 1] (snapshot_cluster_health
      \<lparr>health_cache = \<lambda>_. None, in_flight = {}, probe_count = 0\<rparr> 0 [example_node ''rt-1'' 1]) 0 0 = Some res
    \<and> chosen res = Some (example_node ''rt-1'' 1) \<and> enabled (example_node ''rt-1'' 1)"
proof -
  let ?n = "example_node ''rt-1'' 1" and ?s = "\<lparr>health_cache = \<lambda>_. None, in_flight = {}, probe_count = 0\<rparr>"
  have "select_node [?n] (snapshot_cluster_health ?s 0 [?n]) 0 0
    = Some \<lparr>chosen = Some ?n, selection_reason = Selected, eligible_count = 1\<rparr>"
    by (simp add: select_node_def candidate_pool_def eligible_nodes_def snapshot_apply peek_node_health_def
        is_selectable_health_def unknown_selectable_def example_node_def)
  moreover from router_admits_fit_nodes [OF this, of ?n] have "enabled ?n" by simp
  ultimately show ?thesis by simp
qed

text \<open>With distinct node ids the selection never throws, and its reason tells the whole truth: a node
  is chosen exactly when the candidate pool is not empty, and otherwise the reason names the first
  cause: no nodes, none enabled, none accepting, or none healthy.\<close>

theorem router_total_and_reasoned:
  assumes "distinct (map node_id nodes)"
  shows "case select_node nodes health r1 r2 of
      None \<Rightarrow> False
    | Some res \<Rightarrow>
        (case chosen res of
           Some n \<Rightarrow> selection_reason res = Selected \<and> n \<in> set (candidate_pool nodes health)
             \<and> eligible_count res = length (candidate_pool nodes health)
         | None \<Rightarrow> candidate_pool nodes health = []
             \<and> selection_reason res =
                 (if nodes = [] then No_nodes_configured
                  else if filter enabled nodes = [] then No_enabled_nodes
                  else if eligible_nodes nodes = [] then No_accepting_nodes else No_healthy_nodes))"
proof -
  let ?pool = "candidate_pool nodes health"
  have none: "eligible_nodes nodes = [] \<Longrightarrow> ?pool = []" by (simp add: candidate_pool_def)
  have en: "filter enabled nodes = [] \<Longrightarrow> eligible_nodes nodes = []"
    by (auto simp: eligible_nodes_def filter_empty_conv)
  show ?thesis
  proof (cases "?pool = []")
    case True
    then show ?thesis
      using none en by (auto simp: select_node_def nothing_def Let_def eligible_nodes_def)
  next
    case ne: False
    then have nn: "nodes \<noteq> []" "filter enabled nodes \<noteq> []" "eligible_nodes nodes \<noteq> []"
      using none en by (auto simp: eligible_nodes_def)
    show ?thesis
    proof (cases "length ?pool = 1")
      case True
      then show ?thesis using nn ne by (cases ?pool) (auto simp: select_node_def Let_def)
    next
      case False
      obtain a where a: "a \<in> set ?pool" "weighted_pick ?pool r1 = Some a"
        using weighted_pick_Some [OF ne] by blast
      obtain b where b: "b \<in> set ?pool" "weighted_pick (filter (\<lambda>n. node_id n \<noteq> node_id a) ?pool) r2 = Some b"
        using weighted_pick_Some [OF distinct_rest [OF distinct_map_filter_pool [OF assms] False a(1)]] by auto
      then show ?thesis
        using nn ne False a better_either [of a b health] by (auto simp: select_node_def Let_def)
    qed
  qed
qed

lemma router_total_and_reasoned_witness:
  "\<exists>res. select_node [example_node ''rt-1'' 1, example_node ''rt-2'' 3] (\<lambda>_. None) (1 / 2) 0 = Some res
    \<and> chosen res = Some (example_node ''rt-2'' 3)"
proof -
  let ?nodes = "[example_node ''rt-1'' 1, example_node ''rt-2'' 3]"
  have d: "distinct (map node_id ?nodes)" by (simp add: example_node_def)
  from router_total_and_reasoned [OF d, of "\<lambda>_. None" "1 / 2" 0]
  obtain res where res: "select_node ?nodes (\<lambda>_. None) (1 / 2) 0 = Some res"
    by (auto split: option.splits)
  then have "chosen res = Some (example_node ''rt-2'' 3)"
    by (auto simp: select_node_def candidate_pool_def eligible_nodes_def is_selectable_health_def
        unknown_selectable_def weighted_pick_def total_weight_def example_node_def better_def Let_def)
  then show ?thesis using res by blast
qed

text \<open>The draw honours the weights: the unit interval is cut into consecutive pieces, one per node in
  order and as long as the node's share of the total weight, and the node drawn is the one whose piece
  holds the random number.\<close>

theorem weights_honoured:
  assumes "pool \<noteq> []" and "\<forall>n\<in>set pool. 0 < weight n" and "r < 1"
  shows "\<exists>i < length pool. weighted_pick pool r = Some (pool ! i)
    \<and> (i = 0 \<or> total_weight (take i pool) / total_weight pool < r)
    \<and> r \<le> total_weight (take (Suc i) pool) / total_weight pool"
proof -
  have pos: "0 < total_weight pool"
  proof -
    have "0 \<le> sum_list (map weight ns)" if "\<forall>n\<in>set ns. 0 < weight n" for ns :: "cluster_node list"
      using that by (intro sum_list_nonneg) (auto intro: less_imp_le)
    then show ?thesis
      using assms(1,2) by (cases pool) (auto simp: total_weight_def intro: add_pos_nonneg)
  qed
  then have "r * total_weight pool \<le> total_weight pool" using assms(3) by (simp add: mult_le_cancel_right1)
  from weighted_walk_interval [OF assms(1,2) this] obtain i where
    "i < length pool" "weighted_walk pool (r * total_weight pool) = Some (pool ! i)"
    "i = 0 \<or> total_weight (take i pool) < r * total_weight pool"
    "r * total_weight pool \<le> total_weight (take (Suc i) pool)" by blast
  then show ?thesis
    using pos by (intro exI [of _ i]) (auto simp: weighted_pick_def field_simps)
qed

lemma weights_honoured_witness:
  "\<exists>i < 2. weighted_pick [example_node ''rt-1'' 1, example_node ''rt-2'' 3] (1 / 5)
     = Some ([example_node ''rt-1'' 1, example_node ''rt-2'' 3] ! i)"
proof -
  let ?pool = "[example_node ''rt-1'' 1, example_node ''rt-2'' 3]"
  have "\<exists>i < length ?pool. weighted_pick ?pool (1 / 5) = Some (?pool ! i)
    \<and> (i = 0 \<or> total_weight (take i ?pool) / total_weight ?pool < 1 / 5)
    \<and> 1 / 5 \<le> total_weight (take (Suc i) ?pool) / total_weight ?pool"
    by (rule weights_honoured) (simp_all add: example_node_def)
  moreover have "length ?pool = 2" by simp
  ultimately show ?thesis by metis
qed

end
