(* ===== verification/Post_Send.thy ===== *)
theory Post_Send
  imports Conversation_Lifecycle
begin

text \<open>
  The action of an operator's message (\<open>server/services/conversationPostSend.ts\<close>): to wait for the customer or to
  resolve, decided in the database under a row lock (\<open>conversation_apply_post_send_action\<close>, migration 070) or, where
  that call fails, by the statements of the fallback. The run below interleaves it with the customer's messages, each
  of which goes through its lifecycle in the stages the handlers give it, and with other writers of the status.
\<close>

section \<open>The function of the database\<close>

datatype send_row = Row_changed string int | Row_blocked string | Row_threw

definition is_customer_row :: "string \<Rightarrow> message_row \<Rightarrow> bool" where
  "is_customer_row cid m \<longleftrightarrow> mr_conversation m = cid \<and> mr_sender m = Some ''contact''"

text \<open>The comparison of the rows \<open>(created_at, id)\<close>.\<close>

definition newer_than :: "message_row \<Rightarrow> message_row \<Rightarrow> bool" where
  "newer_than a m \<longleftrightarrow> mr_created a < mr_created m \<or> mr_created a = mr_created m \<and> mr_id a < mr_id m"

definition find_message :: "string \<Rightarrow> inbox_store \<Rightarrow> message_row option" where
  "find_message mid st = List.find (\<lambda>m. mr_id m = mid) (message_rows st)"

definition post_send_rpc ::
    "string \<Rightarrow> string \<Rightarrow> string \<Rightarrow> string list \<Rightarrow> string option \<Rightarrow> int \<Rightarrow> inbox_store \<Rightarrow> send_row \<times> inbox_store" where
  "post_send_rpc ws cid target allowed after now st =
     (case of_workspace cid (Some ws) st of
        None \<Rightarrow> (Row_blocked ''not_found'', st)
      | Some c \<Rightarrow>
          if cv_status c \<notin> set allowed then (Row_blocked ''status_conflict'', st)
          else if (case Option.bind after (\<lambda>mid. find_message mid st) of
                     None \<Rightarrow> False
                   | Some a \<Rightarrow> list_ex (\<lambda>m. is_customer_row cid m \<and> newer_than a m) (message_rows st))
          then (Row_blocked ''customer_replied'', st)
          else (Row_changed target now, write_conversation cid (c\<lparr>cv_status := target, cv_updated := now\<rparr>) st))"

section \<open>The fallback\<close>

record fallback_db =
  conv_db :: answer
  anchor_db :: answer
  newer_db :: answer
  write_db :: answer

definition newer_check :: "fallback_db \<Rightarrow> string \<Rightarrow> string option \<Rightarrow> inbox_store \<Rightarrow> send_row stage" where
  "newer_check db cid after st =
     (if after = None \<or> after = Some [] then Goes_on
      else case anchor_db db of
        Throws \<Rightarrow> Over Row_threw
      | Errors \<Rightarrow> Goes_on
      | Answers \<Rightarrow>
          (case find_message (the after) st of
             None \<Rightarrow> Goes_on
           | Some a \<Rightarrow>
               (case newer_db db of
                  Throws \<Rightarrow> Over Row_threw
                | Errors \<Rightarrow> Goes_on
                | Answers \<Rightarrow>
                    if list_ex (\<lambda>m. is_customer_row cid m \<and> mr_created a < mr_created m) (message_rows st)
                    then Over (Row_blocked ''customer_replied'') else Goes_on)))"

definition fallback_reads ::
    "fallback_db \<Rightarrow> string \<Rightarrow> string \<Rightarrow> string list \<Rightarrow> string option \<Rightarrow> inbox_store \<Rightarrow> send_row stage" where
  "fallback_reads db ws cid allowed after st =
     (case conv_db db of
        Throws \<Rightarrow> Over Row_threw
      | Errors \<Rightarrow> Over (Row_blocked ''rpc_error'')
      | Answers \<Rightarrow>
          (case of_workspace cid (Some ws) st of
             None \<Rightarrow> Over (Row_blocked ''not_found'')
           | Some c \<Rightarrow>
               if cv_status c \<notin> set allowed then Over (Row_blocked ''status_conflict'')
               else newer_check db cid after st))"

definition fallback_write ::
    "fallback_db \<Rightarrow> string \<Rightarrow> string \<Rightarrow> string \<Rightarrow> string list \<Rightarrow> int \<Rightarrow> inbox_store \<Rightarrow> send_row \<times> inbox_store" where
  "fallback_write db ws cid target allowed now st =
     (case write_db db of
        Throws \<Rightarrow> (Row_threw, st)
      | Errors \<Rightarrow> (Row_blocked ''rpc_error'', st)
      | Answers \<Rightarrow>
          (case swap_status cid ws allowed target now st of
             None \<Rightarrow> (Row_blocked ''status_conflict'', st)
           | Some (_, st') \<Rightarrow> (Row_changed target now, st')))"

definition apply_post_send_fallback ::
    "fallback_db \<Rightarrow> string \<Rightarrow> string \<Rightarrow> string \<Rightarrow> string list \<Rightarrow> string option \<Rightarrow> int \<Rightarrow> inbox_store \<Rightarrow> send_row \<times> inbox_store" where
  "apply_post_send_fallback db ws cid target allowed after now st =
     (case fallback_reads db ws cid allowed after st of
        Over r \<Rightarrow> (r, st)
      | Goes_on \<Rightarrow> fallback_write db ws cid target allowed now st)"

section \<open>The action\<close>

datatype post_send_action = Action_none | Wait_for_customer | Resolve

definition POST_SEND_ACTIONS :: "post_send_action list" where
  "POST_SEND_ACTIONS = [Action_none, Wait_for_customer, Resolve]"

definition target_status :: "post_send_action \<Rightarrow> string" where
  "target_status a = (if a = Resolve then ''resolved'' else ''pending'')"

definition allowed_from :: "post_send_action \<Rightarrow> string list" where
  "allowed_from a = (if a = Resolve then [''open'', ''pending''] else [''open''])"

definition send_reason :: "post_send_action \<Rightarrow> string" where
  "send_reason a = (if a = Resolve then ''resolved_after_reply'' else ''waiting_for_customer'')"

record post_send_input =
  ps_action :: post_send_action
  ps_workspace :: string
  ps_conversation :: string
  ps_message :: "string option"
  ps_accepted :: "bool option"

record post_send_result =
  ps_changed :: bool
  ps_status :: "string option"
  ps_reason :: "string option"
  ps_blocked :: "string option"

definition not_changed :: "string option \<Rightarrow> post_send_result" where
  "not_changed why = \<lparr>ps_changed = False, ps_status = None, ps_reason = None, ps_blocked = why\<rparr>"

definition agent_event :: "post_send_action \<Rightarrow> string \<Rightarrow> timeline_event" where
  "agent_event a cid =
     \<lparr>te_conversation = cid, te_type = (if a = Resolve then ''resolved'' else ''status_changed''), te_actor = ''agent'',
      te_from = [], te_to = target_status a, te_reason = send_reason a\<rparr>"

text \<open>How the statements answer: the function, those of the fallback, and the three of the end of a thread.\<close>

record post_send_db =
  function_db :: answer
  fallback_of :: fallback_db
  end_rpc_db :: answer
  end_update_db :: answer
  end_skip_db :: answer

definition decided_row :: "post_send_db \<Rightarrow> post_send_input \<Rightarrow> instant \<Rightarrow> inbox_store \<Rightarrow> send_row \<times> inbox_store" where
  "decided_row db p now st =
     (case function_db db of
        Throws \<Rightarrow> (Row_threw, st)
      | Answers \<Rightarrow>
          post_send_rpc (ps_workspace p) (ps_conversation p) (target_status (ps_action p)) (allowed_from (ps_action p))
            (ps_message p) (fst now) st
      | Errors \<Rightarrow>
          apply_post_send_fallback (fallback_of db) (ps_workspace p) (ps_conversation p) (target_status (ps_action p))
            (allowed_from (ps_action p)) (ps_message p) (fst now) st)"

definition apply_post_send_action ::
    "post_send_db \<Rightarrow> post_send_input \<Rightarrow> instant \<Rightarrow> inbox_store \<Rightarrow> post_send_result \<times> inbox_store" where
  "apply_post_send_action db p now st =
     (if ps_action p = Action_none then (not_changed None, st)
      else if ps_accepted p = Some False then (not_changed (Some ''delivery_failed''), st)
      else case decided_row db p now st of
        (Row_threw, _) \<Rightarrow> (not_changed (Some ''exception''), st)
      | (Row_blocked why, st') \<Rightarrow> (not_changed (Some why), st')
      | (Row_changed _ _, st') \<Rightarrow>
          (\<lparr>ps_changed = True, ps_status = Some (target_status (ps_action p)), ps_reason = Some (send_reason (ps_action p)),
            ps_blocked = None\<rparr>,
           let st2 = log_event (agent_event (ps_action p) (ps_conversation p)) st'
           in if ps_action p = Resolve
              then end_conversation_thread (end_rpc_db db) (end_update_db db) (end_skip_db db) (ps_workspace p)
                     (ps_conversation p) now st2
              else st2))"


section \<open>Messages and writers, interleaved\<close>

text \<open>
  A customer's message is committed, then the conversation is touched (which tells its status) or not, then the first
  and the second helper run, each a statement of its own.
\<close>

datatype job_stage = Committed | First "string option" | Second

record inbox_state =
  store :: inbox_store
  jobs :: "(message_row \<times> job_stage) set"
  parked_after :: "message_row option"

definition insert_row :: "message_row \<Rightarrow> inbox_store \<Rightarrow> inbox_store" where
  "insert_row m st = st\<lparr>message_rows := message_rows st @ [m]\<rparr>"

definition touch_conversation :: "string \<Rightarrow> int \<Rightarrow> inbox_store \<Rightarrow> string option \<times> inbox_store" where
  "touch_conversation cid now st =
     (case conversations st cid of
        None \<Rightarrow> (None, st)
      | Some c \<Rightarrow> (Some (cv_status c), write_conversation cid (c\<lparr>cv_updated := now\<rparr>) st))"

definition parked_by :: "post_send_result \<Rightarrow> message_row \<Rightarrow> message_row option \<Rightarrow> message_row option" where
  "parked_by r a before = (if ps_changed r then Some a else before)"

inductive inbox_run :: "string \<Rightarrow> string \<Rightarrow> inbox_state \<Rightarrow> bool" for ws cid where
  Run_start: "ws \<noteq> [] \<Longrightarrow> cid \<noteq> [] \<Longrightarrow> of_workspace cid (Some ws) st = Some c \<Longrightarrow>
    inbox_run ws cid \<lparr>store = st, jobs = {}, parked_after = None\<rparr>"
| Run_customer: "inbox_run ws cid s \<Longrightarrow> is_customer_row cid m \<Longrightarrow> mr_id m \<notin> mr_id ` set (message_rows (store s)) \<Longrightarrow>
    inbox_run ws cid (s\<lparr>store := insert_row m (store s), jobs := insert (m, Committed) (jobs s)\<rparr>)"
| Run_other: "inbox_run ws cid s \<Longrightarrow> \<not> is_customer_row cid m \<Longrightarrow> mr_id m \<notin> mr_id ` set (message_rows (store s)) \<Longrightarrow>
    inbox_run ws cid (s\<lparr>store := insert_row m (store s)\<rparr>)"
| Run_touched: "inbox_run ws cid s \<Longrightarrow> (m, Committed) \<in> jobs s \<Longrightarrow> touch_conversation cid now (store s) = (known, st) \<Longrightarrow>
    inbox_run ws cid (s\<lparr>store := st, jobs := insert (m, First known) (jobs s - {(m, Committed)})\<rparr>)"
| Run_untouched: "inbox_run ws cid s \<Longrightarrow> (m, Committed) \<in> jobs s \<Longrightarrow>
    inbox_run ws cid (s\<lparr>jobs := insert (m, First None) (jobs s - {(m, Committed)})\<rparr>)"
| Run_first_over: "inbox_run ws cid s \<Longrightarrow> (m, First known) \<in> jobs s \<Longrightarrow> statements_answer db \<Longrightarrow>
    lifecycle_first db (input_of ws cid m) known now (store s) = (Over r, st) \<Longrightarrow>
    inbox_run ws cid (s\<lparr>store := st, jobs := jobs s - {(m, First known)}\<rparr>)"
| Run_first: "inbox_run ws cid s \<Longrightarrow> (m, First known) \<in> jobs s \<Longrightarrow> statements_answer db \<Longrightarrow>
    lifecycle_first db (input_of ws cid m) known now (store s) = (Goes_on, st) \<Longrightarrow>
    inbox_run ws cid (s\<lparr>store := st, jobs := insert (m, Second) (jobs s - {(m, First known)})\<rparr>)"
| Run_second: "inbox_run ws cid s \<Longrightarrow> (m, Second) \<in> jobs s \<Longrightarrow> statements_answer db \<Longrightarrow>
    lifecycle_second db (input_of ws cid m) now (store s) = (r, st) \<Longrightarrow>
    inbox_run ws cid (s\<lparr>store := st, jobs := jobs s - {(m, Second)}\<rparr>)"
| Run_sent: "inbox_run ws cid s \<Longrightarrow> find_message (mr_id a) (store s) = Some a \<Longrightarrow> function_db db = Answers \<Longrightarrow>
    ps_workspace p = ws \<Longrightarrow> ps_conversation p = cid \<Longrightarrow> ps_message p = Some (mr_id a) \<Longrightarrow>
    apply_post_send_action db p now (store s) = (r, st) \<Longrightarrow>
    inbox_run ws cid (s\<lparr>store := st, parked_after := parked_by r a (parked_after s)\<rparr>)"
| Run_writer: "inbox_run ws cid s \<Longrightarrow> cv_workspace c = ws \<Longrightarrow>
    inbox_run ws cid (s\<lparr>store := write_conversation cid c (store s), parked_after := None\<rparr>)"

section \<open>The run keeps the jobs that are needed\<close>

lemma seen_insert [simp]: "seen cid (insert_row m st) = (message_rows st @ [m], snd (seen cid st))"
  by (simp add: seen_def insert_row_def)

lemma first_seen:
  assumes "seen cid st = (rows, Some (ws, s))" and "ws \<noteq> []" "cid \<noteq> []" "statements_answer db"
    and "lifecycle_first db (input_of ws cid m) known now st = (x, st')"
  shows "seen cid st' = (rows, Some (ws, s)) \<and> (x = Goes_on \<longleftrightarrow> known = Some ''resolved'' \<or> known = None \<and> \<not> (real_reply m \<and> s = ''pending''))
         \<and> \<not> (real_reply m \<and> s = ''pending'' \<and> (known = None \<or> known = Some ''pending''))
       \<or> seen cid st' = (rows, Some (ws, ''open'')) \<and> x \<noteq> Goes_on \<and> s = ''pending''"
proof -
  let ?r = "resume_conversation_if_pending Answers (input_of ws cid m) now st"
  have r: "resume_conversation_if_pending Answers (input_of ws cid m) now st = (fst ?r, snd ?r)" by simp
  show ?thesis
    using helper_seen(1) [OF assms(1-3) r] assms(4,5) assms(1)
    by (auto simp: lifecycle_first_def statements_answer_def split: if_splits prod.splits)
qed

lemma second_seen:
  assumes "seen cid st = (rows, Some (ws, s))" and "ws \<noteq> []" "cid \<noteq> []" "statements_answer db"
    and "lifecycle_second db (input_of ws cid m) now st = (x, st')"
  shows "seen cid st' = (rows, Some (ws, if real_reply m \<and> s = ''resolved'' then ''open'' else s))"
proof -
  let ?r = "reopen_conversation_if_resolved Answers (rpc_db db) (update_db db) (input_of ws cid m) now st"
  have r: "reopen_conversation_if_resolved Answers (rpc_db db) (update_db db) (input_of ws cid m) now st = (fst ?r, snd ?r)" by simp
  show ?thesis
    using helper_seen(2) [OF assms(1-3) r] assms(4,5)
    by (auto simp: lifecycle_second_def statements_answer_def split: prod.splits if_splits)
qed

lemma sent_seen:
  assumes "seen cid st = (rows, Some (ws, s))" and "function_db db = Answers"
    and "ps_workspace p = ws" "ps_conversation p = cid" "ps_message p = Some (mr_id a)" "find_message (mr_id a) st = Some a"
    and "apply_post_send_action db p now st = (r, st')"
  shows "ps_changed r \<Longrightarrow> \<not> (\<exists>m \<in> set rows. is_customer_row cid m \<and> newer_than a m) \<and> ps_action p \<noteq> Action_none
      \<and> s \<in> set (allowed_from (ps_action p)) \<and> seen cid st' = (rows, Some (ws, target_status (ps_action p)))"
    and "\<not> ps_changed r \<Longrightarrow> st' = st"
proof -
  obtain c where c: "of_workspace cid (Some ws) st = Some c" "cv_workspace c = ws" "cv_status c = s"
    using of_workspace_found [of cid st ws s] assms(1) by auto
  have rows: "message_rows st = rows" using assms(1) by (simp add: seen_def)
  note defs = apply_post_send_action_def decided_row_def post_send_rpc_def not_changed_def Let_def list_ex_iff c rows
  show "ps_changed r \<Longrightarrow> \<not> (\<exists>m \<in> set rows. is_customer_row cid m \<and> newer_than a m) \<and> ps_action p \<noteq> Action_none
      \<and> s \<in> set (allowed_from (ps_action p)) \<and> seen cid st' = (rows, Some (ws, target_status (ps_action p)))"
    using assms(2-) by (auto simp: defs split: if_splits)
  show "\<not> ps_changed r \<Longrightarrow> st' = st"
    using assms(2-) by (auto simp: defs split: if_splits)
qed

text \<open>The job of a message is armed while it will still bring the conversation back from the status.\<close>

fun armed :: "string \<Rightarrow> job_stage \<Rightarrow> bool" where
  "armed s Committed = True"
| "armed s (First known) = (known = None \<or> known = Some s)"
| "armed s Second = (s = ''resolved'')"

definition guarded :: "string \<Rightarrow> inbox_state \<Rightarrow> string \<Rightarrow> bool" where
  "guarded cid x s \<longleftrightarrow>
     (\<forall>a. parked_after x = Some a \<longrightarrow> s \<in> {''pending'', ''resolved''} \<longrightarrow>
        (\<forall>m \<in> set (message_rows (store x)). is_customer_row cid m \<and> newer_than a m \<and> real_reply m \<longrightarrow>
           (\<exists>j. (m, j) \<in> jobs x \<and> armed s j)))"

lemma guarded_live: "s \<notin> {''pending'', ''resolved''} \<Longrightarrow> guarded cid x s"
  by (simp add: guarded_def)

lemma guarded_replace:
  assumes "guarded cid x s" and "message_rows (store x') = message_rows (store x)" "parked_after x' = parked_after x"
    and "\<And>n j. (n, j) \<in> jobs x \<Longrightarrow> (n, j) \<noteq> (m, k) \<Longrightarrow> (n, j) \<in> jobs x'"
    and "real_reply m \<Longrightarrow> s \<in> {''pending'', ''resolved''} \<Longrightarrow> armed s k \<Longrightarrow> \<exists>j. (m, j) \<in> jobs x' \<and> armed s j"
  shows "guarded cid x' s"
  unfolding guarded_def assms(2,3)
proof (intro allI impI ballI)
  fix a n
  assume a: "parked_after x = Some a" and s: "s \<in> {''pending'', ''resolved''}" and n: "n \<in> set (message_rows (store x))"
    and r: "is_customer_row cid n \<and> newer_than a n \<and> real_reply n"
  then obtain j where j: "(n, j) \<in> jobs x" "armed s j" using assms(1) unfolding guarded_def by blast
  show "\<exists>j. (n, j) \<in> jobs x' \<and> armed s j"
  proof (cases "(n, j) = (m, k)")
    case True
    thus ?thesis using assms(5) s r j by simp
  next
    case False
    thus ?thesis using assms(4) j by blast
  qed
qed

lemma inbox_run_guarded:
  assumes "inbox_run ws cid x"
  shows "\<exists>s. seen cid (store x) = (message_rows (store x), Some (ws, s)) \<and> ws \<noteq> [] \<and> cid \<noteq> [] \<and> guarded cid x s"
  using assms
proof induction
  case (Run_start st c)
  thus ?case using of_workspace_seen [OF Run_start(3)] by (auto simp: guarded_def of_workspace_def split: option.splits if_splits)
next
  case (Run_customer x m)
  then obtain s where s: "seen cid (store x) = (message_rows (store x), Some (ws, s))" "ws \<noteq> []" "cid \<noteq> []" "guarded cid x s" by blast
  have "guarded cid (x\<lparr>store := insert_row m (store x), jobs := insert (m, Committed) (jobs x)\<rparr>) s"
    using s(4) by (fastforce simp: guarded_def insert_row_def)
  thus ?case using s by (auto simp: insert_row_def seen_def)
next
  case (Run_other x m)
  then obtain s where s: "seen cid (store x) = (message_rows (store x), Some (ws, s))" "ws \<noteq> []" "cid \<noteq> []" "guarded cid x s" by blast
  have "guarded cid (x\<lparr>store := insert_row m (store x)\<rparr>) s"
    using s(4) Run_other(2) by (fastforce simp: guarded_def insert_row_def)
  thus ?case using s by (auto simp: insert_row_def seen_def)
next
  case (Run_touched x m now known st)
  then obtain s where s: "seen cid (store x) = (message_rows (store x), Some (ws, s))" "ws \<noteq> []" "cid \<noteq> []" "guarded cid x s" by blast
  have t: "known = Some s" "seen cid st = seen cid (store x)" "message_rows st = message_rows (store x)"
    using Run_touched(3) s(1) by (auto simp: touch_conversation_def seen_def write_conversation_def split: option.splits)
  have "guarded cid (x\<lparr>store := st, jobs := insert (m, First known) (jobs x - {(m, Committed)})\<rparr>) s"
    by (rule guarded_replace [OF s(4), of _ m Committed]) (auto simp: t)
  thus ?case using s t by auto
next
  case (Run_untouched x m)
  then obtain s where s: "seen cid (store x) = (message_rows (store x), Some (ws, s))" "ws \<noteq> []" "cid \<noteq> []" "guarded cid x s" by blast
  have "guarded cid (x\<lparr>jobs := insert (m, First None) (jobs x - {(m, Committed)})\<rparr>) s"
    by (rule guarded_replace [OF s(4), of _ m Committed]) auto
  thus ?case using s by auto
next
  case (Run_first_over x m known db now r st)
  then obtain s where s: "seen cid (store x) = (message_rows (store x), Some (ws, s))" "ws \<noteq> []" "cid \<noteq> []" "guarded cid x s" by blast
  from first_seen [OF s(1-3) Run_first_over(3,4)] show ?case
  proof
    assume h: "seen cid st = (message_rows (store x), Some (ws, s)) \<and> (Over r = Goes_on \<longleftrightarrow> known = Some ''resolved'' \<or> known = None \<and> \<not> (real_reply m \<and> s = ''pending''))
         \<and> \<not> (real_reply m \<and> s = ''pending'' \<and> (known = None \<or> known = Some ''pending''))"
    hence rows: "message_rows st = message_rows (store x)" by (simp add: seen_def)
    have "guarded cid (x\<lparr>store := st, jobs := jobs x - {(m, First known)}\<rparr>) s"
      by (rule guarded_replace [OF s(4), of _ m "First known"]) (use h in \<open>auto simp: rows\<close>)
    thus ?case using s h rows by auto
  next
    assume "seen cid st = (message_rows (store x), Some (ws, ''open'')) \<and> Over r \<noteq> Goes_on \<and> s = ''pending''"
    thus ?case using s guarded_live [of "''open''"] by (auto simp: seen_def)
  qed
next
  case (Run_first x m known db now st)
  then obtain s where s: "seen cid (store x) = (message_rows (store x), Some (ws, s))" "ws \<noteq> []" "cid \<noteq> []" "guarded cid x s" by blast
  have h: "seen cid st = (message_rows (store x), Some (ws, s))" "known = Some ''resolved'' \<or> known = None \<and> \<not> (real_reply m \<and> s = ''pending'')"
    using first_seen [OF s(1-3) Run_first(3,4)] by auto
  hence rows: "message_rows st = message_rows (store x)" by (simp add: seen_def)
  have "guarded cid (x\<lparr>store := st, jobs := insert (m, Second) (jobs x - {(m, First known)})\<rparr>) s"
    by (rule guarded_replace [OF s(4), of _ m "First known"]) (use h(2) in \<open>auto simp: rows\<close>)
  thus ?case using s h rows by auto
next
  case (Run_second x m db now r st)
  then obtain s where s: "seen cid (store x) = (message_rows (store x), Some (ws, s))" "ws \<noteq> []" "cid \<noteq> []" "guarded cid x s" by blast
  note h = second_seen [OF s(1-3) Run_second(3,4)]
  hence rows: "message_rows st = message_rows (store x)" by (simp add: seen_def)
  show ?case
  proof (cases "real_reply m \<and> s = ''resolved''")
    case True
    thus ?thesis using s h rows guarded_live [of "''open''"] by auto
  next
    case False
    have "guarded cid (x\<lparr>store := st, jobs := jobs x - {(m, Second)}\<rparr>) s"
      by (rule guarded_replace [OF s(4), of _ m Second]) (use False in \<open>auto simp: rows\<close>)
    thus ?thesis using s h rows False by (auto split: if_splits)
  qed
next
  case (Run_sent x a db p now r st)
  then obtain s where s: "seen cid (store x) = (message_rows (store x), Some (ws, s))" "ws \<noteq> []" "cid \<noteq> []" "guarded cid x s" by blast
  note h = sent_seen [OF s(1) Run_sent(3-6) Run_sent(2) Run_sent(7)]
  show ?case
  proof (cases "ps_changed r")
    case True
    note d = h(1) [OF True]
    hence rows: "message_rows st = message_rows (store x)" by (simp add: seen_def)
    have "guarded cid (x\<lparr>store := st, parked_after := parked_by r a (parked_after x)\<rparr>) (target_status (ps_action p))"
      using d True by (auto simp: guarded_def parked_by_def rows)
    thus ?thesis using d s rows by auto
  next
    case False
    thus ?thesis using h(2) s by (auto simp: parked_by_def)
  qed
next
  case (Run_writer x c)
  then obtain s where s: "seen cid (store x) = (message_rows (store x), Some (ws, s))" "ws \<noteq> []" "cid \<noteq> []" "guarded cid x s" by blast
  show ?case using s Run_writer(2) by (auto simp: guarded_def write_conversation_def seen_def)
qed


section \<open>What a parked conversation hides\<close>

text \<open>C10: However the messages of a conversation, their lifecycles (each committed, touched or not, then its first and
  its second statement, whose statements answer), the actions of operators decided by the function of the database and other
  writers interleave, once no lifecycle is under way a conversation that an operator's action left waiting or resolved,
  and nobody else has written since, has no real reply of the customer newer than the message the action came with: the
  action never hides an unanswered reply.\<close>

theorem parked_hides_no_reply:
  assumes "inbox_run ws cid x" and "jobs x = {}" and "parked_after x = Some a"
    and "conversations (store x) cid = Some c" and "cv_status c \<in> {''pending'', ''resolved''}"
    and "m \<in> set (message_rows (store x))" "is_customer_row cid m" "fst (resume_eligibility (mr_candidate m))"
  shows "\<not> newer_than a m"
proof
  assume "newer_than a m"
  obtain s where s: "seen cid (store x) = (message_rows (store x), Some (ws, s))" "guarded cid x s"
    using inbox_run_guarded [OF assms(1)] by blast
  have "s = cv_status c" using s(1) assms(4) by (simp add: seen_def)
  thus False using s(2) assms \<open>newer_than a m\<close> unfolding guarded_def by blast
qed

definition all_post_send :: post_send_db where
  "all_post_send =
     \<lparr>function_db = Answers,
      fallback_of = \<lparr>conv_db = Answers, anchor_db = Answers, newer_db = Answers, write_db = Answers\<rparr>,
      end_rpc_db = Answers, end_update_db = Answers, end_skip_db = Answers\<rparr>"

definition sample_send :: "string \<Rightarrow> post_send_input" where
  "sample_send mid =
     \<lparr>ps_action = Wait_for_customer, ps_workspace = ''w'', ps_conversation = ''c'', ps_message = Some mid, ps_accepted = Some True\<rparr>"


text \<open>A customer writes, an operator answers and waits, and the lifecycle of the customer's message runs last.\<close>

definition sample_parked :: inbox_store where
  "sample_parked = snd (apply_post_send_action all_post_send (sample_send ''m2'') (3, ''t'')
     (sample_store ''open'' [sample_row ''m1'' ''contact'' 1, sample_row ''m2'' ''agent'' 2]))"

lemma sample_sent:
  "apply_post_send_action all_post_send (sample_send ''m2'') (3, ''t'')
     (sample_store ''open'' [sample_row ''m1'' ''contact'' 1, sample_row ''m2'' ''agent'' 2])
   = (\<lparr>ps_changed = True, ps_status = Some ''pending'', ps_reason = Some ''waiting_for_customer'', ps_blocked = None\<rparr>, sample_parked)"
  by (simp add: apply_post_send_action_def decided_row_def post_send_rpc_def all_post_send_def sample_send_def
      target_status_def allowed_from_def send_reason_def find_message_def is_customer_row_def newer_than_def sample_row_def
      sample_store_def sample_conversation_def of_workspace_def sample_parked_def Let_def)

lemma sample_parked_tables:
  "message_rows sample_parked = [sample_row ''m1'' ''contact'' 1, sample_row ''m2'' ''agent'' 2]"
  "\<exists>c. conversations sample_parked ''c'' = Some c \<and> cv_status c = ''pending''"
  by (simp_all add: sample_parked_def apply_post_send_action_def decided_row_def post_send_rpc_def all_post_send_def sample_send_def
      target_status_def allowed_from_def send_reason_def find_message_def is_customer_row_def newer_than_def sample_row_def
      sample_store_def sample_conversation_def of_workspace_def Let_def write_conversation_def log_event_def)

lemma sample_inbox_run:
  "inbox_run ''w'' ''c'' \<lparr>store = sample_parked, jobs = {}, parked_after = Some (sample_row ''m2'' ''agent'' 2)\<rparr>"
proof -
  let ?c = "sample_row ''m1'' ''contact'' 1" and ?a = "sample_row ''m2'' ''agent'' 2"
  have "inbox_run ''w'' ''c'' \<lparr>store = sample_store ''open'' [], jobs = {}, parked_after = None\<rparr>"
    by (rule Run_start [OF _ _ sample_found]) simp_all
  from Run_customer [OF this, of ?c]
  have "inbox_run ''w'' ''c'' \<lparr>store = sample_store ''open'' [?c], jobs = {(?c, Committed)}, parked_after = None\<rparr>"
    by (simp add: is_customer_row_def sample_row_def sample_store_def insert_row_def)
  from Run_touched [OF this, of ?c 0 "Some ''open''" "sample_store ''open'' [?c]"]
  have "inbox_run ''w'' ''c'' \<lparr>store = sample_store ''open'' [?c], jobs = {(?c, First (Some ''open''))}, parked_after = None\<rparr>"
    by (simp add: touch_conversation_def sample_store_def sample_conversation_def write_conversation_def)
  from Run_other [OF this, of ?a]
  have "inbox_run ''w'' ''c'' \<lparr>store = sample_store ''open'' [?c, ?a], jobs = {(?c, First (Some ''open''))}, parked_after = None\<rparr>"
    by (simp add: is_customer_row_def sample_row_def sample_store_def insert_row_def)
  moreover have "find_message (mr_id ?a) (sample_store ''open'' [?c, ?a]) = Some ?a"
    by (simp add: find_message_def sample_store_def sample_row_def)
  moreover have "function_db all_post_send = Answers" "ps_workspace (sample_send ''m2'') = ''w''"
    "ps_conversation (sample_send ''m2'') = ''c''" "ps_message (sample_send ''m2'') = Some (mr_id ?a)"
    by (simp_all add: all_post_send_def sample_send_def sample_row_def)
  ultimately have "inbox_run ''w'' ''c'' \<lparr>store = sample_parked, jobs = {(?c, First (Some ''open''))}, parked_after = Some ?a\<rparr>"
    using Run_sent [OF _ _ _ _ _ _ , of "''w''" "''c''" _ ?a all_post_send "sample_send ''m2''" "(3, ''t'')" _ sample_parked] sample_sent
    by (fastforce simp: parked_by_def)
  from Run_first_over [OF this, of ?c "Some ''open''" all_answer "(3, ''t'')" "(No_transition, ''not_resolved'')" sample_parked]
  show ?thesis by (simp add: statements_answer_def all_answer_def lifecycle_first_def)
qed

lemma parked_hides_no_reply_witness:
  "\<exists>x a m. inbox_run ''w'' ''c'' x \<and> parked_after x = Some a \<and> m \<in> set (message_rows (store x))
     \<and> fst (resume_eligibility (mr_candidate m)) \<and> \<not> newer_than a m"
proof -
  let ?c = "sample_row ''m1'' ''contact'' 1" and ?a = "sample_row ''m2'' ''agent'' 2"
  let ?x = "\<lparr>store = sample_parked, jobs = {}, parked_after = Some ?a\<rparr>"
  obtain c where c: "conversations (store ?x) ''c'' = Some c" "cv_status c \<in> {''pending'', ''resolved''}"
    using sample_parked_tables(2) by auto
  have m: "?c \<in> set (message_rows (store ?x))" "is_customer_row ''c'' ?c"
    by (simp_all add: sample_parked_tables is_customer_row_def sample_row_def)
  have "\<not> newer_than ?a ?c" by (rule parked_hides_no_reply [OF sample_inbox_run _ _ c m sample_reply_real]) simp_all
  thus ?thesis using sample_inbox_run m(1) sample_reply_real [of "''m1''" "''contact''" 1] by (intro exI [of _ ?x] exI [of _ ?a] exI [of _ ?c]) simp
qed

section \<open>The fallback is not the function\<close>

lemma touched:
  "of_workspace cid (Some ws) st = Some c \<Longrightarrow>
     touch_conversation cid now st = (Some (cv_status c), write_conversation cid (c\<lparr>cv_updated := now\<rparr>) st)"
  by (auto simp: touch_conversation_def of_workspace_def split: option.splits if_splits)

lemma find_further: "List.find P xs = Some x \<Longrightarrow> List.find P (xs @ ys) = Some x"
  by (induction xs) auto

lemma find_message_insert: "find_message mid st = Some a \<Longrightarrow> find_message mid (insert_row m st) = Some a"
  by (simp add: find_message_def insert_row_def find_further)

text \<open>C28: The fallback does not keep the guard of the function of the database. Once its reads have let an open
  conversation pass, a reply of the customer committed before its update goes through its whole lifecycle, which finds the
  conversation open and does nothing, and the update, conditional on the status alone, still parks the
  conversation after the reply; the function, called at the same moment, answers that the customer has replied and
  changes nothing.\<close>

theorem fallback_hides_a_reply:
  assumes "of_workspace cid (Some ws) st = Some c" "cv_status c = ''open''" "find_message (mr_id a) st = Some a"
    and "fallback_reads db ws cid [''open''] (Some (mr_id a)) st = Goes_on" "write_db db = Answers"
    and "is_customer_row cid m" "mr_created a < mr_created m"
    and "touch_conversation cid t1 (insert_row m st) = (known, st1)"
  shows "apply_inbound_lifecycle ldb (input_of ws cid m) known t2 st1 = ((No_transition, ''not_resolved''), st1)
    \<and> fst (fallback_write db ws cid ''pending'' [''open''] t3 st1) = Row_changed ''pending'' t3
    \<and> seen cid (snd (fallback_write db ws cid ''pending'' [''open''] t3 st1)) = (message_rows st @ [m], Some (ws, ''pending''))
    \<and> post_send_rpc ws cid ''pending'' [''open''] (Some (mr_id a)) t3 st1 = (Row_blocked ''customer_replied'', st1)"
proof (intro conjI)
  have f: "of_workspace cid (Some ws) (insert_row m st) = Some c"
    using assms(1) by (simp add: of_workspace_def insert_row_def)
  have w: "cv_workspace c = ws" using assms(1) by (auto simp: of_workspace_def split: option.splits if_splits)
  have k: "known = Some ''open''" and st1: "st1 = write_conversation cid (c\<lparr>cv_updated := t1\<rparr>) (insert_row m st)"
    using assms(8) touched [OF f] assms(2) by simp_all
  have f1: "of_workspace cid (Some ws) st1 = Some (c\<lparr>cv_updated := t1\<rparr>)"
    by (simp add: st1 of_workspace_def write_conversation_def w)
  have rows: "message_rows st1 = message_rows st @ [m]" by (simp add: st1 write_conversation_def insert_row_def)
  have anchor: "find_message (mr_id a) st1 = Some a"
    using find_message_insert [OF assms(3), of m] by (simp add: st1 find_message_def write_conversation_def)
  show "apply_inbound_lifecycle ldb (input_of ws cid m) known t2 st1 = ((No_transition, ''not_resolved''), st1)"
    by (simp add: apply_inbound_lifecycle_def lifecycle_first_def k)
  show "fst (fallback_write db ws cid ''pending'' [''open''] t3 st1) = Row_changed ''pending'' t3"
    by (simp add: fallback_write_def assms(5) swap_status_def f1 assms(2) Let_def)
  show "seen cid (snd (fallback_write db ws cid ''pending'' [''open''] t3 st1)) = (message_rows st @ [m], Some (ws, ''pending''))"
    by (simp add: fallback_write_def assms(5) swap_status_def f1 assms(2) Let_def rows w)
  show "post_send_rpc ws cid ''pending'' [''open''] (Some (mr_id a)) t3 st1 = (Row_blocked ''customer_replied'', st1)"
    by (simp add: post_send_rpc_def f1 assms(2,6,7) anchor rows newer_than_def)
qed

lemma fallback_hides_a_reply_witness:
  "\<exists>st1. seen ''c'' (snd (fallback_write (fallback_of all_post_send) ''w'' ''c'' ''pending'' [''open''] 4 st1))
      = ([sample_row ''m1'' ''agent'' 1, sample_row ''m2'' ''contact'' 2], Some (''w'', ''pending''))
    \<and> post_send_rpc ''w'' ''c'' ''pending'' [''open''] (Some ''m1'') 4 st1 = (Row_blocked ''customer_replied'', st1)"
proof -
  let ?a = "sample_row ''m1'' ''agent'' 1" and ?m = "sample_row ''m2'' ''contact'' 2"
  let ?st = "sample_store ''open'' [?a]" and ?db = "fallback_of all_post_send"
  have a: "find_message (mr_id ?a) ?st = Some ?a" "mr_id ?a = ''m1''" "message_rows ?st = [?a]"
    by (simp_all add: find_message_def sample_store_def sample_row_def)
  have reads: "fallback_reads ?db ''w'' ''c'' [''open''] (Some (mr_id ?a)) ?st = Goes_on" "write_db ?db = Answers"
    by (simp_all add: fallback_reads_def newer_check_def all_post_send_def find_message_def sample_store_def sample_row_def
        sample_conversation_def of_workspace_def is_customer_row_def)
  have m: "is_customer_row ''c'' ?m" "mr_created ?a < mr_created ?m" by (simp_all add: is_customer_row_def sample_row_def)
  let ?t = "touch_conversation ''c'' 3 (insert_row ?m ?st)"
  have t: "?t = (fst ?t, snd ?t)" by simp
  note h = fallback_hides_a_reply [OF sample_found sample_status a(1) reads m t]
  show ?thesis using h [of _ _ 4] a by (intro exI [of _ "snd ?t"]) simp
qed

end
