(* ===== verification/Slo_Evaluator.thy ===== *)
theory Slo_Evaluator
  imports Enforcement_Cycle
begin

text \<open>
  The evaluator of service objectives (\<open>server/services/observability/sloEvaluator.ts\<close>): the current readings of
  an objective, when a reading misses it, and the breach events in \<open>slo_breach_events\<close>. Every replica runs the
  evaluator, so the two halves of a bump, the read and the conditional update, are separate definitions and
  a run interleaves them freely. The table refuses a second open breach of one objective and scope, as its
  unique index does. A key of the code's set, made of three texts, is a triple.
\<close>

section \<open>Objectives and readings\<close>

datatype slo_scope = Platform_scope | Provider_scope | Workspace_scope

fun scope_text :: "slo_scope \<Rightarrow> string" where
  "scope_text Platform_scope = ''platform''"
| "scope_text Provider_scope = ''provider''"
| "scope_text Workspace_scope = ''workspace''"

datatype slo_target = Target_min | Target_max

record slo_definition =
  sd_id :: string
  sd_slug :: string
  sd_scope :: slo_scope
  sd_metric :: string
  sd_type :: slo_target
  sd_target :: rat
  sd_window :: int
  sd_enabled :: bool

text \<open>A row of either rollup; the key of a business row is its workspace.\<close>

record rollup_row =
  ru_scope_type :: string
  ru_scope_key :: string
  ru_bucket :: int
  ru_columns :: jsval

record slo_sample =
  sa_scope_type :: string
  sa_scope_key :: string
  sa_observed :: "jsnum option"
  sa_bucket :: int

definition MIN_CONSECUTIVE_BREACHES_TO_OPEN :: int where "MIN_CONSECUTIVE_BREACHES_TO_OPEN = 3"
definition BREACH_BUMP_MIN_INTERVAL_MS :: int where "BREACH_BUMP_MIN_INTERVAL_MS = 51000"
definition MAX_BUCKET_AGE_MS :: int where "MAX_BUCKET_AGE_MS = 3 * 60 * 60 * 1000"

definition RELIABILITY_COLUMNS :: "string list" where
  "RELIABILITY_COLUMNS =
     [''uptime_pct'', ''realtime_availability_pct'', ''degraded_minutes'', ''forced_polling_minutes'', ''critical_alert_count'',
      ''failover_count'', ''mean_failover_recovery_seconds'']"

definition BUSINESS_COLUMNS :: "string list" where
  "BUSINESS_COLUMNS =
     [''first_response_time_p50'', ''first_response_time_p95'', ''next_response_time_p50'', ''next_response_time_p95'',
      ''unanswered_conversations'', ''stale_open_conversations'', ''support_load_score'', ''conversation_to_resolution_rate'']"

fun is_breach :: "jsnum option \<Rightarrow> slo_target \<Rightarrow> rat \<Rightarrow> bool" where
  "is_breach (Some (Fin q)) Target_min target = (q < target)"
| "is_breach (Some (Fin q)) Target_max target = (target < q)"
| "is_breach _ _ _ = False"

definition observed_number :: "string \<Rightarrow> rollup_row \<Rightarrow> jsnum option" where
  "observed_number metric row = (case get_prop (ru_columns row) metric of JNum n \<Rightarrow> Some n | _ \<Rightarrow> None)"

text \<open>The freshest rows of a query, newest first.\<close>

definition fresh_rows :: "int \<Rightarrow> nat \<Rightarrow> (rollup_row \<Rightarrow> bool) \<Rightarrow> rollup_row list \<Rightarrow> rollup_row list" where
  "fresh_rows now limit P rows =
     take limit (sort_key (\<lambda>r. - ru_bucket r) (filter (\<lambda>r. P r \<and> now - MAX_BUCKET_AGE_MS \<le> ru_bucket r) rows))"

text \<open>The latest bucket of each key.\<close>

fun latest_samples :: "slo_definition \<Rightarrow> string set \<Rightarrow> rollup_row list \<Rightarrow> slo_sample list" where
  "latest_samples d seen [] = []"
| "latest_samples d seen (r # rs) =
     (if ru_scope_key r \<in> seen then latest_samples d seen rs
      else \<lparr>sa_scope_type = ru_scope_type r, sa_scope_key = ru_scope_key r, sa_observed = observed_number (sd_metric d) r,
             sa_bucket = ru_bucket r\<rparr> # latest_samples d (insert (ru_scope_key r) seen) rs)"

text \<open>\<open>loadSamplesForSlo\<close>; a query that fails answers with no rows.\<close>

definition load_samples :: "int \<Rightarrow> rollup_row list option \<Rightarrow> rollup_row list option \<Rightarrow> slo_definition \<Rightarrow> slo_sample list" where
  "load_samples now reliability business d =
     (if sd_scope d \<noteq> Workspace_scope
      then if sd_metric d \<notin> set RELIABILITY_COLUMNS then []
           else (case reliability of None \<Rightarrow> []
                 | Some rows \<Rightarrow> latest_samples d {} (fresh_rows now 20 (\<lambda>r. ru_scope_type r = scope_text (sd_scope d)) rows))
      else if sd_metric d = ''health_score'' \<or> sd_metric d \<notin> set BUSINESS_COLUMNS then []
      else (case business of None \<Rightarrow> []
            | Some rows \<Rightarrow> map (\<lambda>s. s\<lparr>sa_scope_type := ''workspace''\<rparr>) (latest_samples d {} (fresh_rows now 500 (\<lambda>r. True) rows))))"

section \<open>Breach events\<close>

record breach_row =
  br_id :: string
  br_slo :: string
  br_slug :: string
  br_scope_type :: string
  br_scope_key :: string
  br_open :: bool
  br_observed :: "jsnum option"
  br_target :: rat
  br_type :: slo_target
  br_count :: int
  br_first_at :: int
  br_last_at :: int
  br_resolved_at :: "int option"
  br_bucket :: int

type_synonym breach_key = "string \<times> string \<times> string"

definition key_of :: "breach_row \<Rightarrow> breach_key" where
  "key_of r = (br_slo r, br_scope_type r, br_scope_key r)"

definition breach_key_of :: "slo_definition \<Rightarrow> slo_sample \<Rightarrow> breach_key" where
  "breach_key_of d s = (sd_id d, sa_scope_type s, sa_scope_key s)"

definition open_breach_keys :: "breach_row list \<Rightarrow> breach_key set" where
  "open_breach_keys db = key_of ` set (filter br_open db)"

text \<open>The open breach of a key, when the query succeeds and finds exactly one.\<close>

definition read_open :: "bool \<Rightarrow> breach_key \<Rightarrow> breach_row list \<Rightarrow> breach_row option" where
  "read_open ok k db = (if ok then (case filter (\<lambda>r. br_open r \<and> key_of r = k) db of [r] \<Rightarrow> Some r | _ \<Rightarrow> None) else None)"

datatype bump_outcome = Opened | Bumped | Noop

text \<open>The first half of a bump: which row, at which count, it will update, unless the row was counted lately.\<close>

definition plan_bump :: "int \<Rightarrow> breach_row \<Rightarrow> (string \<times> int) option" where
  "plan_bump now r = (if now - br_last_at r < BREACH_BUMP_MIN_INTERVAL_MS then None else Some (br_id r, br_count r))"

definition next_count :: "int \<Rightarrow> int" where
  "next_count n = (if n = 0 then 1 else n) + 1"

text \<open>The second half, an update on the condition that the row still has the count that was read.\<close>

definition commit_bump :: "int \<Rightarrow> jsnum option \<Rightarrow> string \<times> int \<Rightarrow> breach_row list \<Rightarrow> breach_row list" where
  "commit_bump now observed plan db =
     map (\<lambda>r. if br_id r = fst plan \<and> br_count r = snd plan
              then r\<lparr>br_count := next_count (snd plan), br_last_at := now, br_observed := observed\<rparr> else r) db"

definition last_resolved :: "breach_key \<Rightarrow> breach_row list \<Rightarrow> int option" where
  "last_resolved k db =
     (case List.map_filter br_resolved_at (filter (\<lambda>r. \<not> br_open r \<and> key_of r = k) db) of [] \<Rightarrow> None | x # xs \<Rightarrow> Some (fold max xs x))"

definition start_count :: "int \<Rightarrow> slo_definition \<Rightarrow> int option \<Rightarrow> int" where
  "start_count now d resolved =
     (case resolved of
        Some t \<Rightarrow> if now - t < sd_window d * 2 * 1000 then MIN_CONSECUTIVE_BREACHES_TO_OPEN else 1
      | None \<Rightarrow> 1)"

definition new_breach :: "int \<Rightarrow> string \<Rightarrow> slo_definition \<Rightarrow> slo_sample \<Rightarrow> int \<Rightarrow> breach_row" where
  "new_breach now i d s n =
     \<lparr>br_id = i, br_slo = sd_id d, br_slug = sd_slug d, br_scope_type = sa_scope_type s, br_scope_key = sa_scope_key s, br_open = True,
      br_observed = sa_observed s, br_target = sd_target d, br_type = sd_type d, br_count = n, br_first_at = now, br_last_at = now,
      br_resolved_at = None, br_bucket = sa_bucket s\<rparr>"

text \<open>An insert: refused as a duplicate of the id or of the open breach of the scope, or failing otherwise.\<close>

definition commit_open :: "bool \<Rightarrow> breach_row \<Rightarrow> breach_row list \<Rightarrow> bump_outcome \<times> breach_row list" where
  "commit_open ok r db =
     (if \<not> ok then (Noop, db)
      else if br_id r \<in> br_id ` set db \<or> key_of r \<in> open_breach_keys db then (Bumped, db)
      else (Opened, db @ [r]))"

text \<open>What surrounds one sample: the clock, the id the database draws, and which queries succeed.\<close>

record sample_env =
  sv_now :: int
  sv_new_id :: string
  sv_read_ok :: bool
  sv_resolved_ok :: bool
  sv_write_ok :: bool

definition bump_or_open :: "sample_env \<Rightarrow> slo_definition \<Rightarrow> slo_sample \<Rightarrow> breach_row list \<Rightarrow> bump_outcome \<times> breach_row list" where
  "bump_or_open env d s db =
     (let k = breach_key_of d s
      in case read_open (sv_read_ok env) k db of
           Some r \<Rightarrow>
             (case plan_bump (sv_now env) r of
                None \<Rightarrow> (Noop, db)
              | Some plan \<Rightarrow> (Bumped, if sv_write_ok env then commit_bump (sv_now env) (sa_observed s) plan db else db))
         | None \<Rightarrow>
             commit_open (sv_write_ok env)
               (new_breach (sv_now env) (sv_new_id env) d s
                 (start_count (sv_now env) d (if sv_resolved_ok env then last_resolved k db else None))) db)"

definition commit_resolve :: "int \<Rightarrow> jsnum option \<Rightarrow> breach_key \<Rightarrow> breach_row list \<Rightarrow> breach_row list" where
  "commit_resolve now observed k db =
     map (\<lambda>r. if br_open r \<and> key_of r = k
              then r\<lparr>br_open := False, br_resolved_at := Some now, br_observed := observed\<rparr> else r) db"

text \<open>
  \<open>resolveBreachIfOpen\<close>: whether a row was resolved, the keys known to be open, and the table. The code asks for
  one row back, so an update of more rows would be answered with an error.
\<close>

definition resolve_if_open :: "sample_env \<Rightarrow> slo_definition \<Rightarrow> slo_sample \<Rightarrow> breach_key set option \<Rightarrow> breach_row list
    \<Rightarrow> bool \<times> breach_key set option \<times> breach_row list" where
  "resolve_if_open env d s keys db =
     (let k = breach_key_of d s; n = length (filter (\<lambda>r. br_open r \<and> key_of r = k) db)
      in if (case keys of Some ks \<Rightarrow> k \<notin> ks | None \<Rightarrow> False) then (False, keys, db)
         else if \<not> sv_write_ok env then (False, keys, db)
         else (n = 1, if n = 1 then map_option (\<lambda>ks. ks - {k}) keys else keys,
               commit_resolve (sv_now env) (sa_observed s) k db))"

record slo_result =
  slo_evaluated :: nat
  slo_opened :: nat
  slo_resolved :: nat
  slo_bumped :: nat

definition count_outcome :: "bump_outcome \<Rightarrow> slo_result \<Rightarrow> slo_result" where
  "count_outcome o' r =
     (case o' of Opened \<Rightarrow> r\<lparr>slo_opened := Suc (slo_opened r)\<rparr> | Bumped \<Rightarrow> r\<lparr>slo_bumped := Suc (slo_bumped r)\<rparr> | Noop \<Rightarrow> r)"

type_synonym slo_state = "slo_result \<times> breach_key set option \<times> breach_row list"

definition evaluate_sample :: "sample_env \<Rightarrow> slo_definition \<Rightarrow> slo_sample \<Rightarrow> slo_state \<Rightarrow> slo_state" where
  "evaluate_sample env d s st =
     (let (res, keys, db) = st
      in if is_breach (sa_observed s) (sd_type d) (sd_target d)
         then (let (o', db') = bump_or_open env d s db in (count_outcome o' res, keys, db'))
         else (let (closed, keys', db') = resolve_if_open env d s keys db
               in (if closed then res\<lparr>slo_resolved := Suc (slo_resolved res)\<rparr> else res, keys', db')))"

record slo_env =
  sl_now :: int
  sl_definitions :: "slo_definition list option"
  sl_scan_ok :: bool
  sl_reliability :: "slo_definition \<Rightarrow> rollup_row list option"
  sl_business :: "slo_definition \<Rightarrow> rollup_row list option"
  sl_load_time :: "slo_definition \<Rightarrow> int"
  sl_around :: "slo_definition \<Rightarrow> slo_sample \<Rightarrow> sample_env"

definition evaluate_objective :: "slo_env \<Rightarrow> slo_definition \<Rightarrow> slo_state \<Rightarrow> slo_state" where
  "evaluate_objective env d st =
     (let (res, keys, db) = st
      in fold (\<lambda>s. evaluate_sample (sl_around env d s) d s)
           (load_samples (sl_load_time env d) (sl_reliability env d) (sl_business env d) d)
           (res\<lparr>slo_evaluated := Suc (slo_evaluated res)\<rparr>, keys, db))"

definition no_result :: slo_result where
  "no_result = \<lparr>slo_evaluated = 0, slo_opened = 0, slo_resolved = 0, slo_bumped = 0\<rparr>"

definition run_slo_evaluation :: "slo_env \<Rightarrow> breach_row list \<Rightarrow> slo_result \<times> breach_row list" where
  "run_slo_evaluation env db =
     (case sl_definitions env of
        None \<Rightarrow> (no_result, db)
      | Some ds \<Rightarrow>
          (let (res, keys, db') = fold (evaluate_objective env) (filter sd_enabled ds)
                 (no_result, if sl_scan_ok env then Some (open_breach_keys db) else None, db)
           in (res, db')))"

section \<open>Simplification of the rows\<close>

lemma key_updates [simp]:
  "key_of (r\<lparr>br_count := a, br_last_at := b, br_observed := c\<rparr>) = key_of r"
  "key_of (r\<lparr>br_open := x, br_resolved_at := y, br_observed := z\<rparr>) = key_of r"
  by (simp_all add: key_of_def)

lemma new_breach_simps [simp]:
  "br_id (new_breach now i d s n) = i" "key_of (new_breach now i d s n) = breach_key_of d s" "br_open (new_breach now i d s n)"
  "br_count (new_breach now i d s n) = n" "br_first_at (new_breach now i d s n) = now" "br_last_at (new_breach now i d s n) = now"
  by (simp_all add: new_breach_def key_of_def breach_key_of_def)

lemma start_count_cases: "start_count now d x = 1 \<or> start_count now d x = 3"
  by (simp add: start_count_def MIN_CONSECUTIVE_BREACHES_TO_OPEN_def split: option.split)

lemma ids_commit_bump [simp]: "map br_id (commit_bump now x p db) = map br_id db"
  by (simp add: commit_bump_def)

lemma ids_commit_resolve [simp]: "map br_id (commit_resolve now x k db) = map br_id db"
  by (simp add: commit_resolve_def)

lemma open_keys_commit_bump: "map key_of (filter br_open (commit_bump now x p db)) = map key_of (filter br_open db)"
  by (induction db) (simp_all add: commit_bump_def)

lemma open_keys_commit_resolve:
  "map key_of (filter br_open (commit_resolve now x k db)) = filter (\<lambda>k'. k' \<noteq> k) (map key_of (filter br_open db))"
  by (induction db) (auto simp: commit_resolve_def)

text \<open>One open breach for every objective and scope.\<close>

definition breaches_ok :: "breach_row list \<Rightarrow> bool" where
  "breaches_ok db \<longleftrightarrow> distinct (map br_id db) \<and> distinct (map key_of (filter br_open db))"

lemma breaches_ok_bump: "breaches_ok db \<Longrightarrow> breaches_ok (commit_bump now x p db)"
  by (simp add: breaches_ok_def open_keys_commit_bump)

lemma breaches_ok_resolve: "breaches_ok db \<Longrightarrow> breaches_ok (commit_resolve now x k db)"
  by (simp add: breaches_ok_def open_keys_commit_resolve)

lemma commit_open_cases:
  obtains "commit_open ok r db = (Noop, db)" "\<not> ok"
  | "commit_open ok r db = (Bumped, db)" "ok" "br_id r \<in> br_id ` set db \<or> key_of r \<in> open_breach_keys db"
  | "commit_open ok r db = (Opened, db @ [r])" "ok" "br_id r \<notin> br_id ` set db" "key_of r \<notin> open_breach_keys db"
  by (cases ok; cases "br_id r \<in> br_id ` set db \<or> key_of r \<in> open_breach_keys db") (auto simp: commit_open_def)

lemma breaches_ok_open:
  assumes "breaches_ok db" and "br_open r" and "commit_open ok r db = (x, db')"
  shows "breaches_ok db'"
  using assms by (cases rule: commit_open_cases [of ok r db]) (auto simp: breaches_ok_def open_breach_keys_def)

lemma open_unique:
  assumes "breaches_ok db" and "r \<in> set db" and "br_open r"
  shows "filter (\<lambda>x. br_open x \<and> key_of x = key_of r) db = [r]"
proof -
  obtain as bs where db: "db = as @ r # bs" using assms(2) by (meson split_list)
  then have "key_of r \<notin> key_of ` {x \<in> set (as @ bs). br_open x}" using assms(1,3) by (auto simp: breaches_ok_def)
  then have "\<forall>x\<in>set (as @ bs). br_open x \<longrightarrow> key_of x \<noteq> key_of r"
    using rev_image_eqI [where f = key_of and b = "key_of r"] by (metis (mono_tags, lifting) mem_Collect_eq)
  then have "filter (\<lambda>x. br_open x \<and> key_of x = key_of r) as = []" "filter (\<lambda>x. br_open x \<and> key_of x = key_of r) bs = []"
    by (simp_all add: filter_empty_conv)
  then show ?thesis using assms(3) db by simp
qed

lemma same_row:
  assumes "breaches_ok db" and "r \<in> set db" and "r' \<in> set db" and "br_id r' = br_id r"
  shows "r' = r"
  using assms by (simp add: breaches_ok_def distinct_map inj_on_def)

lemma read_open_some:
  assumes "read_open ok k db = Some r"
  shows "r \<in> set db \<and> br_open r \<and> key_of r = k"
proof -
  have "filter (\<lambda>r. br_open r \<and> key_of r = k) db = [r]" using assms by (auto simp: read_open_def split: if_splits list.splits)
  then have "r \<in> set (filter (\<lambda>r. br_open r \<and> key_of r = k) db)" by simp
  then show ?thesis by simp
qed

section \<open>Replicas\<close>

text \<open>
  A run of the evaluators of all replicas: the clock moves on, a replica reads an open breach and plans to bump it, a
  plan made earlier is carried out, with a time stamp taken in between, a breach is opened, or resolved. A plan may be
  carried out late, never, or after others; nothing orders the steps of different replicas.
\<close>

record slo_run_state =
  clock :: int
  breaches :: "breach_row list"
  plans :: "((string \<times> int) \<times> int) set"

inductive slo_run :: "slo_run_state \<Rightarrow> bool" where
  empty_table: "slo_run \<lparr>clock = t, breaches = [], plans = {}\<rparr>"
| time_passes: "slo_run s \<Longrightarrow> clock s \<le> t \<Longrightarrow> slo_run (s\<lparr>clock := t\<rparr>)"
| bump_planned: "slo_run s \<Longrightarrow> read_open ok k (breaches s) = Some r \<Longrightarrow> plan_bump (clock s) r = Some p
    \<Longrightarrow> slo_run (s\<lparr>plans := insert (p, clock s) (plans s)\<rparr>)"
| bump_committed: "slo_run s \<Longrightarrow> (p, t) \<in> plans s \<Longrightarrow> t \<le> w \<Longrightarrow> w \<le> clock s
    \<Longrightarrow> slo_run (s\<lparr>breaches := commit_bump w x p (breaches s)\<rparr>)"
| breach_opened: "slo_run s \<Longrightarrow> commit_open ok (new_breach (clock s) i d sa (start_count w d res)) (breaches s) = (out, db')
    \<Longrightarrow> slo_run (s\<lparr>breaches := db'\<rparr>)"
| breach_resolved: "slo_run s \<Longrightarrow> slo_run (s\<lparr>breaches := commit_resolve w x k (breaches s)\<rparr>)"

text \<open>What holds of a row at a time, and of a pending plan.\<close>

definition row_ok :: "int \<Rightarrow> breach_row \<Rightarrow> bool" where
  "row_ok t r \<longleftrightarrow>
     1 \<le> br_count r \<and> br_first_at r \<le> br_last_at r \<and> br_last_at r \<le> t
     \<and> (br_count r - MIN_CONSECUTIVE_BREACHES_TO_OPEN) * BREACH_BUMP_MIN_INTERVAL_MS \<le> br_last_at r - br_first_at r"

definition plan_ok :: "breach_row list \<Rightarrow> (string \<times> int) \<times> int \<Rightarrow> bool" where
  "plan_ok db pt \<longleftrightarrow>
     fst (fst pt) \<in> br_id ` set db
     \<and> (\<forall>r\<in>set db. br_id r = fst (fst pt) \<longrightarrow>
          snd (fst pt) \<le> br_count r \<and> (br_count r = snd (fst pt) \<longrightarrow> br_last_at r + BREACH_BUMP_MIN_INTERVAL_MS \<le> snd pt))"

lemma row_ok_later: "row_ok t r \<Longrightarrow> t \<le> t' \<Longrightarrow> row_ok t' r"
  by (simp add: row_ok_def)

lemma row_ok_new: "row_ok t (new_breach t i d sa (start_count w d res))"
  using start_count_cases [of w d res]
  by (auto simp: row_ok_def MIN_CONSECUTIVE_BREACHES_TO_OPEN_def BREACH_BUMP_MIN_INTERVAL_MS_def)

lemma row_ok_resolve: "row_ok t (r\<lparr>br_open := a, br_resolved_at := b, br_observed := c\<rparr>) = row_ok t r"
  by (simp add: row_ok_def)

lemma row_ok_bump:
  assumes "row_ok c r" and "br_last_at r + BREACH_BUMP_MIN_INTERVAL_MS \<le> w" and "w \<le> c"
  shows "row_ok c (r\<lparr>br_count := next_count (br_count r), br_last_at := w, br_observed := x\<rparr>)"
  using assms by (simp add: row_ok_def next_count_def BREACH_BUMP_MIN_INTERVAL_MS_def)

text \<open>An update that only ever raises counts, and moves the time of the last miss only with the count, keeps every plan.\<close>

lemma plan_ok_map:
  assumes "plan_ok db p"
    and "\<And>r. br_id (f r) = br_id r" and "\<And>r. br_count r \<le> br_count (f r)"
    and "\<And>r. br_count (f r) = br_count r \<Longrightarrow> br_last_at (f r) = br_last_at r"
  shows "plan_ok (map f db) p"
proof -
  have ids: "br_id ` set (map f db) = br_id ` set db" using assms(2) by (auto simp: image_iff)
  have "snd (fst p) \<le> br_count (f r) \<and> (br_count (f r) = snd (fst p) \<longrightarrow> br_last_at (f r) + BREACH_BUMP_MIN_INTERVAL_MS \<le> snd p)"
    if "r \<in> set db" "br_id r = fst (fst p)" for r
    using assms(1) assms(3,4) [of r] that unfolding plan_ok_def by fastforce
  then show ?thesis using assms(1,2) ids by (simp add: plan_ok_def)
qed

lemma plan_ok_bump: "plan_ok db p \<Longrightarrow> plan_ok (commit_bump w x q db) p"
  unfolding commit_bump_def by (rule plan_ok_map) (auto simp: next_count_def split: if_splits)

lemma plan_ok_resolve: "plan_ok db p \<Longrightarrow> plan_ok (commit_resolve w x k db) p"
  unfolding commit_resolve_def by (rule plan_ok_map) auto

lemma plan_ok_append: "plan_ok db p \<Longrightarrow> br_id r \<notin> br_id ` set db \<Longrightarrow> plan_ok (db @ [r]) p"
  by (auto simp: plan_ok_def)

lemma plan_ok_new:
  assumes "breaches_ok db" and "r \<in> set db" and "plan_bump t r = Some p"
  shows "plan_ok db (p, t)"
proof -
  have one: "\<forall>r'\<in>set db. br_id r' = br_id r \<longrightarrow> r' = r" using same_row [OF assms(1,2)] by blast
  have "p = (br_id r, br_count r)" "br_last_at r + BREACH_BUMP_MIN_INTERVAL_MS \<le> t"
    using assms(3) by (auto simp: plan_bump_def split: if_splits)
  then show ?thesis using assms(2) one by (auto simp: plan_ok_def)
qed

lemma commit_bump_rows:
  assumes "list_all (row_ok c) db" and "plan_ok db (p, t)" and "t \<le> w" and "w \<le> c"
  shows "list_all (row_ok c) (commit_bump w x p db)"
proof -
  have "row_ok c (r\<lparr>br_count := next_count (snd p), br_last_at := w, br_observed := x\<rparr>)"
    if r: "r \<in> set db" "br_id r = fst p" "br_count r = snd p" for r
  proof -
    have "br_last_at r + BREACH_BUMP_MIN_INTERVAL_MS \<le> t" using assms(2) r by (simp add: plan_ok_def)
    then show ?thesis using row_ok_bump [of c r w x] assms(1,3,4) r by (simp add: list_all_iff)
  qed
  then show ?thesis using assms(1) by (auto simp: commit_bump_def list_all_iff)
qed

section \<open>What every run keeps\<close>

definition run_ok :: "slo_run_state \<Rightarrow> bool" where
  "run_ok s \<longleftrightarrow> breaches_ok (breaches s) \<and> list_all (row_ok (clock s)) (breaches s) \<and> (\<forall>p\<in>plans s. plan_ok (breaches s) p)"

lemma run_ok_open:
  assumes "run_ok s" and "commit_open ok (new_breach (clock s) i d sa (start_count w d res)) (breaches s) = (out, db')"
  shows "run_ok (s\<lparr>breaches := db'\<rparr>)"
proof (cases "db' = breaches s")
  case False
  then have "db' = breaches s @ [new_breach (clock s) i d sa (start_count w d res)]" "i \<notin> br_id ` set (breaches s)"
    using assms(2) by (cases rule: commit_open_cases [of ok "new_breach (clock s) i d sa (start_count w d res)" "breaches s"]; simp)+
  moreover have "breaches_ok db'" using assms breaches_ok_open [OF _ _ assms(2)] by (simp add: run_ok_def)
  ultimately show ?thesis using assms(1) by (simp add: run_ok_def row_ok_new plan_ok_append)
qed (use assms in simp)

lemma slo_run_ok: "slo_run s \<Longrightarrow> run_ok s"
proof (induction rule: slo_run.induct)
  case (time_passes s t)
  then show ?case using row_ok_later by (auto simp: run_ok_def list_all_iff)
next
  case (bump_planned s ok k r p)
  then have "plan_ok (breaches s) (p, clock s)"
    using plan_ok_new [of "breaches s" r] read_open_some [of ok k "breaches s" r] by (simp add: run_ok_def)
  then show ?case using bump_planned.IH by (simp add: run_ok_def)
next
  case (bump_committed s p t w x)
  then have "plan_ok (breaches s) (p, t)" "list_all (row_ok (clock s)) (breaches s)" by (auto simp: run_ok_def)
  then have "list_all (row_ok (clock s)) (commit_bump w x p (breaches s))"
    using bump_committed.hyps by (intro commit_bump_rows)
  then show ?case using bump_committed.IH breaches_ok_bump plan_ok_bump by (simp add: run_ok_def)
next
  case (breach_opened s ok i d sa w res out db')
  then show ?case using run_ok_open by blast
next
  case (breach_resolved s w x k)
  then show ?case using breaches_ok_resolve plan_ok_resolve
    by (auto simp: run_ok_def list_all_iff commit_resolve_def row_ok_resolve)
qed (simp add: run_ok_def breaches_ok_def)

lemma row_of_run: "slo_run s \<Longrightarrow> r \<in> set (breaches s) \<Longrightarrow> row_ok (clock s) r"
  using slo_run_ok [of s] by (simp add: run_ok_def list_all_iff)

section \<open>A pass is a run\<close>

lemma bump_or_open_run:
  assumes "slo_run s" and "clock s = sv_now env" and "bump_or_open env d sa (breaches s) = (x, db')"
  shows "\<exists>s'. slo_run s' \<and> clock s' = clock s \<and> breaches s' = db'"
proof (cases "read_open (sv_read_ok env) (breach_key_of d sa) (breaches s)")
  case None
  then show ?thesis using assms breach_opened [OF assms(1)] by (fastforce simp: bump_or_open_def Let_def)
next
  case (Some r)
  show ?thesis
  proof (cases "plan_bump (clock s) r")
    case None
    then show ?thesis using assms Some by (auto simp: bump_or_open_def Let_def)
  next
    case (Some p)
    let ?s = "s\<lparr>plans := insert (p, clock s) (plans s)\<rparr>"
    have planned: "slo_run ?s"
      using assms(1) \<open>read_open _ _ _ = Some r\<close> Some by (rule bump_planned)
    have "slo_run (?s\<lparr>breaches := commit_bump (clock s) (sa_observed sa) p (breaches ?s)\<rparr>)"
      using bump_committed [OF planned, of p "clock s" "clock s"] by simp
    with planned show ?thesis
      using assms(2,3) \<open>read_open _ _ _ = Some r\<close> Some
      by (cases "sv_write_ok env") (force simp: bump_or_open_def Let_def)+
  qed
qed

lemma resolve_run:
  assumes "slo_run s" and "resolve_if_open env d sa keys (breaches s) = (c, keys', db')"
  shows "\<exists>s'. slo_run s' \<and> clock s' = clock s \<and> breaches s' = db'"
proof (cases "db' = breaches s")
  case False
  then have "db' = commit_resolve (sv_now env) (sa_observed sa) (breach_key_of d sa) (breaches s)"
    using assms(2) by (auto simp: resolve_if_open_def Let_def split: if_splits)
  then show ?thesis using breach_resolved [OF assms(1)] by fastforce
qed (use assms in blast)

lemma sample_step_run:
  assumes "slo_run s" and "clock s \<le> sv_now env" and "evaluate_sample env d sa (res, keys, breaches s) = (res', keys', db')"
  shows "\<exists>s'. slo_run s' \<and> clock s' = sv_now env \<and> breaches s' = db'"
proof -
  let ?s = "s\<lparr>clock := sv_now env\<rparr>"
  have later: "slo_run ?s" using assms(1,2) by (rule time_passes)
  show ?thesis
  proof (cases "is_breach (sa_observed sa) (sd_type d) (sd_target d)")
    case True
    then obtain x where "bump_or_open env d sa (breaches ?s) = (x, db')"
      using assms(3) by (auto simp: evaluate_sample_def split: prod.splits)
    then show ?thesis using bump_or_open_run [OF later] by simp
  next
    case False
    then obtain c where "resolve_if_open env d sa keys (breaches ?s) = (c, keys', db')"
      using assms(3) by (auto simp: evaluate_sample_def split: prod.splits)
    then show ?thesis using resolve_run [OF later] by simp
  qed
qed

definition sample_times :: "slo_env \<Rightarrow> slo_definition \<Rightarrow> int list" where
  "sample_times env d =
     map (\<lambda>sa. sv_now (sl_around env d sa)) (load_samples (sl_load_time env d) (sl_reliability env d) (sl_business env d) d)"

lemma samples_run:
  "slo_run s \<Longrightarrow> sorted (clock s # map (\<lambda>sa. sv_now (sl_around env d sa)) xs)
   \<Longrightarrow> \<exists>s'. slo_run s' \<and> clock s' \<in> insert (clock s) (set (map (\<lambda>sa. sv_now (sl_around env d sa)) xs))
        \<and> breaches s' = snd (snd (fold (\<lambda>sa. evaluate_sample (sl_around env d sa) d sa) xs (res, keys, breaches s)))"
proof (induction xs arbitrary: s res keys)
  case (Cons sa xs)
  obtain res' keys' db' where e: "evaluate_sample (sl_around env d sa) d sa (res, keys, breaches s) = (res', keys', db')"
    by (cases "evaluate_sample (sl_around env d sa) d sa (res, keys, breaches s)")
  then obtain s' where s': "slo_run s'" "clock s' = sv_now (sl_around env d sa)" "breaches s' = db'"
    using sample_step_run [OF Cons.prems(1) _ e] Cons.prems(2) by auto
  then show ?case using Cons.IH [of s' res' keys'] Cons.prems(2) e by fastforce
qed auto

lemma objectives_run:
  "slo_run s \<Longrightarrow> sorted (clock s # concat (map (sample_times env) ds))
   \<Longrightarrow> \<exists>s'. slo_run s' \<and> clock s' \<in> insert (clock s) (set (concat (map (sample_times env) ds)))
        \<and> breaches s' = snd (snd (fold (evaluate_objective env) ds (res, keys, breaches s)))"
proof (induction ds arbitrary: s res keys)
  case (Cons d ds)
  let ?xs = "load_samples (sl_load_time env d) (sl_reliability env d) (sl_business env d) d"
  obtain res' keys' db' where e: "evaluate_objective env d (res, keys, breaches s) = (res', keys', db')"
    by (cases "evaluate_objective env d (res, keys, breaches s)")
  have "sorted (clock s # sample_times env d)" using Cons.prems(2) by (auto simp: sorted_append)
  then obtain s' where s': "slo_run s'" "clock s' \<in> insert (clock s) (set (sample_times env d))" "breaches s' = db'"
    using samples_run [OF Cons.prems(1), of env d ?xs] e unfolding sample_times_def evaluate_objective_def
    by (metis (no_types, lifting) case_prod_conv snd_conv)
  then have "sorted (clock s' # concat (map (sample_times env) ds))" using Cons.prems(2) by (auto simp: sorted_append)
  then obtain s'' where "slo_run s''" "clock s'' \<in> insert (clock s') (set (concat (map (sample_times env) ds)))"
    "breaches s'' = snd (snd (fold (evaluate_objective env) ds (res', keys', breaches s')))"
    using Cons.IH [OF s'(1), of res' keys'] by blast
  then show ?case using s'(2,3) e by (intro exI [of _ s'']) auto
qed auto

lemma pass_is_run:
  assumes "slo_run s" and "sl_definitions env = Some ds" and "sorted (clock s # concat (map (sample_times env) (filter sd_enabled ds)))"
  shows "\<exists>s'. slo_run s' \<and> clock s' \<in> insert (clock s) (set (concat (map (sample_times env) (filter sd_enabled ds))))
     \<and> breaches s' = snd (run_slo_evaluation env (breaches s))"
  using objectives_run [OF assms(1,3), of no_result "if sl_scan_ok env then Some (open_breach_keys (breaches s)) else None"] assms(2)
  by (auto simp: run_slo_evaluation_def split: prod.split)

text \<open>C14: However the evaluators of the replicas interleave, an objective and scope have at most one open breach, and the
  count of a breach never runs ahead of the clock: beyond the three it may start with, every count took at least
  51 seconds.\<close>

theorem breach_count_bounded:
  assumes "slo_run s" and "r \<in> set (breaches s)"
  shows "(br_count r - MIN_CONSECUTIVE_BREACHES_TO_OPEN) * BREACH_BUMP_MIN_INTERVAL_MS \<le> br_last_at r - br_first_at r
    \<and> br_last_at r \<le> clock s
    \<and> (br_open r \<longrightarrow> filter (\<lambda>x. br_open x \<and> key_of x = key_of r) (breaches s) = [r])"
proof -
  have ok: "run_ok s" using assms(1) by (rule slo_run_ok)
  then have row: "row_ok (clock s) r" using assms(2) by (simp add: run_ok_def list_all_iff)
  then show ?thesis using open_unique [of "breaches s" r] ok assms(2) by (auto simp: row_ok_def run_ok_def)
qed

definition sample_objective :: slo_definition where
  "sample_objective =
     \<lparr>sd_id = ''s1'', sd_slug = ''uptime'', sd_scope = Platform_scope, sd_metric = ''uptime_pct'', sd_type = Target_min, sd_target = 99,
      sd_window = 3600, sd_enabled = True\<rparr>"

definition hourly_row :: "int \<Rightarrow> jsval \<Rightarrow> rollup_row" where
  "hourly_row t v = \<lparr>ru_scope_type = ''platform'', ru_scope_key = ''all'', ru_bucket = t, ru_columns = JObj [(''uptime_pct'', v)]\<rparr>"

definition pass_at :: "int \<Rightarrow> string \<Rightarrow> jsval \<Rightarrow> slo_env" where
  "pass_at t i v =
     \<lparr>sl_now = t, sl_definitions = Some [sample_objective], sl_scan_ok = True, sl_reliability = (\<lambda>_. Some [hourly_row t v]),
      sl_business = (\<lambda>_. None), sl_load_time = (\<lambda>_. t),
      sl_around = (\<lambda>_ _. \<lparr>sv_now = t, sv_new_id = i, sv_read_ok = True, sv_resolved_ok = True, sv_write_ok = True\<rparr>)\<rparr>"

text \<open>Passes a minute apart, each seeing 98.5 per cent of a target of 99.\<close>

definition after_passes :: "int list \<Rightarrow> breach_row list" where
  "after_passes ts = fold (\<lambda>t db. snd (run_slo_evaluation (pass_at t ''b1'' (JNum (Fin (197 / 2)))) db)) ts []"

lemma passes_run:
  "slo_run s \<Longrightarrow> sorted (clock s # ts)
   \<Longrightarrow> \<exists>s'. slo_run s' \<and> breaches s' = fold (\<lambda>t db. snd (run_slo_evaluation (pass_at t i v) db)) ts (breaches s)"
proof (induction ts arbitrary: s)
  case (Cons t ts)
  have now: "slo_run (s\<lparr>clock := t\<rparr>)" using Cons.prems by (intro time_passes) auto
  let ?ts = "concat (map (sample_times (pass_at t i v)) (filter sd_enabled [sample_objective]))"
  have times: "set ?ts \<subseteq> {t}" by (auto simp: sample_times_def pass_at_def)
  have "sorted xs" if "set xs \<subseteq> {t}" for xs :: "int list" using that by (induction xs) auto
  with times have "sorted (t # ?ts)" by auto
  then obtain s' where s': "slo_run s'" "clock s' = t" "breaches s' = snd (run_slo_evaluation (pass_at t i v) (breaches s))"
    using pass_is_run [OF now, of "pass_at t i v" "[sample_objective]"] times by (auto simp: pass_at_def)
  then show ?case using Cons.IH [OF s'(1)] Cons.prems(2) by auto
qed auto

lemma after_passes_counts:
  "map (\<lambda>r. (br_count r, br_first_at r, br_last_at r)) (after_passes [0, 60000, 90000, 120000, 180000, 240000]) = [(5, 0, 240000)]"
  by code_simp

theorem breach_count_bounded_witness:
  "\<exists>s r. slo_run s \<and> breaches s = [r] \<and> br_count r = 5 \<and> br_last_at r \<le> clock s \<and> (br_count r - 3) * 51000 \<le> br_last_at r - br_first_at r"
proof -
  obtain s where s: "slo_run s" "breaches s = after_passes [0, 60000, 90000, 120000, 180000, 240000]"
    using passes_run [OF empty_table [of 0], of "[0, 60000, 90000, 120000, 180000, 240000]" "''b1''" "JNum (Fin (197 / 2))"]
    by (auto simp: after_passes_def)
  then obtain r where r: "breaches s = [r]" "br_count r = 5" using after_passes_counts by (auto simp: map_eq_Cons_conv)
  then show ?thesis using breach_count_bounded [OF s(1), of r] s(1)
    by (intro exI [of _ s] exI [of _ r]) (simp add: MIN_CONSECUTIVE_BREACHES_TO_OPEN_def BREACH_BUMP_MIN_INTERVAL_MS_def)
qed

section \<open>A reading decides\<close>

lemma open_keys_bump: "open_breach_keys (commit_bump w x p db) = open_breach_keys db"
  unfolding open_breach_keys_def using open_keys_commit_bump [of w x p db, THEN arg_cong [of _ _ set]] by simp

lemma open_keys_resolve: "open_breach_keys (commit_resolve w x k db) = open_breach_keys db - {k}"
  unfolding open_breach_keys_def using open_keys_commit_resolve [of w x k db, THEN arg_cong [of _ _ set]] by auto

lemma read_open_none:
  assumes "breaches_ok db" and "read_open True k db = None"
  shows "k \<notin> open_breach_keys db"
  using assms open_unique [OF assms(1)] by (auto simp: open_breach_keys_def read_open_def)

lemma rows_of_other_keys:
  "{r \<in> set (commit_resolve w x k db). key_of r \<noteq> k} = {r \<in> set db. key_of r \<noteq> k}"
  by (auto simp: commit_resolve_def)

lemma rows_of_other_keys_bump:
  assumes "breaches_ok db" and "r \<in> set db" and "br_id r = fst p"
  shows "{r' \<in> set (commit_bump w x p db). key_of r' \<noteq> key_of r} = {r' \<in> set db. key_of r' \<noteq> key_of r}"
proof -
  have "r' = r" if "r' \<in> set db" "br_id r' = fst p" for r'
    using same_row [OF assms(1,2)] assms(3) that by simp
  then show ?thesis using assms(2) by (auto simp: commit_bump_def image_iff)
qed

lemma is_breach_iff:
  "is_breach v ty target \<longleftrightarrow> (\<exists>q. v = Some (Fin q) \<and> (if ty = Target_min then q < target else target < q))"
  by (cases "(v, ty, target)" rule: is_breach.cases) auto

lemma sample_decides:
  assumes "breaches_ok db" and "sv_read_ok env" and "sv_write_ok env" and "sv_new_id env \<notin> br_id ` set db"
    and "\<forall>ks. keys = Some ks \<longrightarrow> breach_key_of d sa \<in> open_breach_keys db \<longrightarrow> breach_key_of d sa \<in> ks"
  shows "\<exists>res' keys' db'. evaluate_sample env d sa (res, keys, db) = (res', keys', db')
    \<and> open_breach_keys db' =
        (if is_breach (sa_observed sa) (sd_type d) (sd_target d)
         then insert (breach_key_of d sa) (open_breach_keys db)
         else open_breach_keys db - {breach_key_of d sa})
    \<and> {r \<in> set db'. key_of r \<noteq> breach_key_of d sa} = {r \<in> set db. key_of r \<noteq> breach_key_of d sa}
    \<and> breaches_ok db'"
proof (cases "is_breach (sa_observed sa) (sd_type d) (sd_target d)")
  case True
  let ?k = "breach_key_of d sa"
  obtain x db' where b: "bump_or_open env d sa db = (x, db')" by (cases "bump_or_open env d sa db")
  have "open_breach_keys db' = insert ?k (open_breach_keys db) \<and> {r \<in> set db'. key_of r \<noteq> ?k} = {r \<in> set db. key_of r \<noteq> ?k}
    \<and> breaches_ok db'"
  proof (cases "read_open True ?k db")
    case None
    then have "db' = db @ [new_breach (sv_now env) (sv_new_id env) d sa
        (start_count (sv_now env) d (if sv_resolved_ok env then last_resolved ?k db else None))]"
      using b assms(2-4) read_open_none [OF assms(1) None] by (auto simp: bump_or_open_def Let_def commit_open_def)
    then show ?thesis using assms(1,4) read_open_none [OF assms(1) None]
      by (auto simp: open_breach_keys_def breaches_ok_def)
  next
    case (Some r)
    note r = read_open_some [OF this]
    then have "?k \<in> open_breach_keys db" unfolding open_breach_keys_def by (intro rev_image_eqI [of r]) simp_all
    then have ins: "insert ?k (open_breach_keys db) = open_breach_keys db" by (rule insert_absorb)
    consider "db' = db" | p where "br_id r = fst p" "db' = commit_bump (sv_now env) (sa_observed sa) p db"
      using b assms(2,3) Some by (auto simp: bump_or_open_def Let_def plan_bump_def split: option.splits if_splits)
    then show ?thesis
    proof cases
      case 1
      with ins show ?thesis using assms(1) by simp
    next
      case 2
      with ins show ?thesis
        using r rows_of_other_keys_bump [OF assms(1), of r p] breaches_ok_bump [OF assms(1)] by (simp add: open_keys_bump)
    qed
  qed
  then show ?thesis using True b by (simp add: evaluate_sample_def)
next
  case False
  let ?k = "breach_key_of d sa"
  obtain c keys' db' where b: "resolve_if_open env d sa keys db = (c, keys', db')" by (cases "resolve_if_open env d sa keys db")
  consider "db' = commit_resolve (sv_now env) (sa_observed sa) ?k db" | "db' = db" "?k \<notin> open_breach_keys db"
    using b assms(3,5) by (auto simp: resolve_if_open_def Let_def split: if_splits option.splits)
  then have "open_breach_keys db' = open_breach_keys db - {?k} \<and> {r \<in> set db'. key_of r \<noteq> ?k} = {r \<in> set db. key_of r \<noteq> ?k}
    \<and> breaches_ok db'"
    by cases (simp_all add: assms(1) open_keys_resolve rows_of_other_keys breaches_ok_resolve)
  then show ?thesis using False b by (simp add: evaluate_sample_def)
qed

text \<open>C24: A reading decides the breach of its objective and scope. When the queries answer and the identifier for a new row is fresh, the
  breach is open afterwards exactly when the reading is a finite number on the wrong side of the target: below a
  least value, above a greatest one. So a reading without a number (a null column, or a number that is not
  finite) counts as healthy and closes an open breach. Breaches of other objectives and scopes are
  untouched. The keys scanned at the start of the pass, when there are any, must have this one if its breach is
  open; they do unless it was opened since the scan.\<close>

theorem reading_decides_breach:
  assumes "breaches_ok db" and "sv_read_ok env" and "sv_write_ok env" and "sv_new_id env \<notin> br_id ` set db"
    and "\<forall>ks. keys = Some ks \<longrightarrow> breach_key_of d sa \<in> open_breach_keys db \<longrightarrow> breach_key_of d sa \<in> ks"
  shows "\<exists>res' keys' db'. evaluate_sample env d sa (res, keys, db) = (res', keys', db')
    \<and> open_breach_keys db' =
        (if \<exists>q. sa_observed sa = Some (Fin q) \<and> (if sd_type d = Target_min then q < sd_target d else sd_target d < q)
         then insert (breach_key_of d sa) (open_breach_keys db)
         else open_breach_keys db - {breach_key_of d sa})
    \<and> {r \<in> set db'. key_of r \<noteq> breach_key_of d sa} = {r \<in> set db. key_of r \<noteq> breach_key_of d sa}
    \<and> breaches_ok db'"
  using sample_decides [OF assms, of res] unfolding is_breach_iff .

text \<open>A null column closes a breach of five misses.\<close>

definition null_reading :: slo_sample where
  "null_reading = \<lparr>sa_scope_type = ''platform'', sa_scope_key = ''all'', sa_observed = None, sa_bucket = 240000\<rparr>"

lemma after_passes_ok:
  "breaches_ok (after_passes [0, 60000, 90000, 120000, 180000, 240000])
   \<and> br_id ` set (after_passes [0, 60000, 90000, 120000, 180000, 240000]) = {''b1''}
   \<and> open_breach_keys (after_passes [0, 60000, 90000, 120000, 180000, 240000]) = {(''s1'', ''platform'', ''all'')}"
proof -
  have "map (\<lambda>r. (br_id r, br_open r, key_of r)) (after_passes [0, 60000, 90000, 120000, 180000, 240000])
      = [(''b1'', True, (''s1'', ''platform'', ''all''))]"
    by code_simp
  then show ?thesis by (auto simp: map_eq_Cons_conv breaches_ok_def open_breach_keys_def)
qed

theorem reading_decides_breach_witness:
  "\<exists>db'. open_breach_keys db' = {} \<and> breaches_ok db'
     \<and> snd (snd (evaluate_sample \<lparr>sv_now = 300000, sv_new_id = ''b2'', sv_read_ok = True, sv_resolved_ok = True, sv_write_ok = True\<rparr>
          sample_objective null_reading (no_result, None, after_passes [0, 60000, 90000, 120000, 180000, 240000]))) = db'"
proof -
  let ?env = "\<lparr>sv_now = 300000, sv_new_id = ''b2'', sv_read_ok = True, sv_resolved_ok = True, sv_write_ok = True\<rparr>"
  let ?db = "after_passes [0, 60000, 90000, 120000, 180000, 240000]"
  have k: "breach_key_of sample_objective null_reading = (''s1'', ''platform'', ''all'')"
    by (simp add: breach_key_of_def sample_objective_def null_reading_def)
  have p: "breaches_ok ?db" "sv_read_ok ?env" "sv_write_ok ?env" "sv_new_id ?env \<notin> br_id ` set ?db" using after_passes_ok by simp_all
  obtain res' keys' db' where e: "evaluate_sample ?env sample_objective null_reading (no_result, None, ?db) = (res', keys', db')"
      "open_breach_keys db' = open_breach_keys ?db - {breach_key_of sample_objective null_reading}"
      "breaches_ok db'"
    using reading_decides_breach [OF p, of None sample_objective null_reading no_result] by (auto simp: null_reading_def)
  have "open_breach_keys db' = {}" using e(2) k after_passes_ok by simp
  then show ?thesis using e(1,3) by (intro exI [of _ db']) simp
qed

end
