(* ===== verification/Trigger_Sources.thy ===== *)
theory Trigger_Sources
  imports Alert_Webhook Slo_Evaluator
begin

text \<open>
  Where the triggers of the enforcement cycle come from: the queries of \<open>evaluateRule\<close>
  (\<open>server/services/observability/enforcementEngine.ts\<close>) over the breaches the service objectives wrote and over the
  incidents the alert rules wrote. The theorems compose the three components: what must have happened for an
  enforcement rule to fire.
\<close>

section \<open>Breaches\<close>

text \<open>A value compared with an integer column of four bytes; another text is an error of the query, answered with no data.\<close>

fun integer_operand :: "jsnum \<Rightarrow> int option" where
  "integer_operand (Fin q) = (if of_int \<lfloor>q\<rfloor> = q \<and> \<bar>q\<bar> < 2 ^ 31 then Some \<lfloor>q\<rfloor> else None)"
| "integer_operand _ = None"

definition breach_of :: "breach_row \<Rightarrow> breach" where
  "breach_of r =
     \<lparr>breach_id = br_id r, breach_slo = br_slug r, breach_scope_type = br_scope_type r, breach_scope_key = br_scope_key r,
      consecutive_breaches = br_count r\<rparr>"

definition matching_breaches :: "breach_row list \<Rightarrow> string \<Rightarrow> int \<Rightarrow> breach_row list" where
  "matching_breaches db slug least = filter (\<lambda>r. br_open r \<and> br_slug r = slug \<and> least \<le> br_count r) db"

definition newest_breach :: "breach_row list \<Rightarrow> string \<Rightarrow> jsnum \<Rightarrow> breach option" where
  "newest_breach db slug least =
     (case integer_operand least of
        None \<Rightarrow> None
      | Some n \<Rightarrow> (case sort_key (\<lambda>r. - br_last_at r) (matching_breaches db slug n) of [] \<Rightarrow> None | r # _ \<Rightarrow> Some (breach_of r)))"

definition critical_since :: "alert_event list \<Rightarrow> int \<Rightarrow> nat option" where
  "critical_since es since = Some (length (filter (\<lambda>e. since \<le> ae_fired_at e \<and> ae_severity e = Critical) es))"

lemma newest_breach_some:
  assumes "newest_breach db slug least = Some b"
  shows "\<exists>r n. r \<in> set db \<and> br_open r \<and> br_slug r = slug \<and> integer_operand least = Some n \<and> n \<le> br_count r \<and> b = breach_of r
    \<and> (\<forall>r'\<in>set (matching_breaches db slug n). br_last_at r' \<le> br_last_at r)"
proof -
  obtain n r rs where n: "integer_operand least = Some n" "sort_key (\<lambda>r. - br_last_at r) (matching_breaches db slug n) = r # rs" "b = breach_of r"
    using assms by (auto simp: newest_breach_def split: option.splits list.splits)
  have "set (r # rs) = set (matching_breaches db slug n)" using n(2) by (metis set_sort)
  moreover have "sorted (map (\<lambda>r. - br_last_at r) (r # rs))" using n(2) by (metis sorted_sort_key)
  ultimately have "r \<in> set (matching_breaches db slug n)" "\<forall>r'\<in>set (matching_breaches db slug n). br_last_at r' \<le> br_last_at r" by auto
  then show ?thesis using n by (auto simp: matching_breaches_def)
qed

text \<open>C17: A rule on an objective fires only for a sustained miss: when the rule asks for n misses in a row, the objective has an
  open breach, in the scope the rule then acts on, that has been counted for at least n - 3 intervals of 51
  seconds, however many replicas evaluated it.\<close>

theorem slo_rule_needs_sustained_miss:
  assumes "slo_run s" and "er_trigger rule = Slo_breach"
    and "evaluate_rule (db\<lparr>open_breach := newest_breach (breaches s)\<rparr>) t rule = Some (Some m)"
    and "to_number (js_or (get_prop (er_condition rule) ''min_consecutive_breaches'') (JNum (Fin 1))) = Fin (of_int n)"
  shows "\<exists>r\<in>set (breaches s). br_open r
    \<and> br_slug r = js_text (js_or (get_prop (er_condition rule) ''slo_slug'') (JStr []))
    \<and> br_scope_type r = match_scope_type m \<and> br_scope_key r = match_scope_key m \<and> n \<le> br_count r
    \<and> br_first_at r + (n - MIN_CONSECUTIVE_BREACHES_TO_OPEN) * BREACH_BUMP_MIN_INTERVAL_MS \<le> clock s"
proof -
  let ?slug = "js_text (js_or (get_prop (er_condition rule) ''slo_slug'') (JStr []))"
  obtain b where b: "newest_breach (breaches s) ?slug (Fin (max 1 (of_int n))) = Some b"
      "match_scope_type m = breach_scope_type b" "match_scope_key m = breach_scope_key b"
    using assms(2-4) by (auto simp: evaluate_rule_def Let_def split: if_splits)
  obtain r k where r: "r \<in> set (breaches s)" "br_open r" "br_slug r = ?slug" "integer_operand (Fin (max 1 (of_int n))) = Some k"
      "k \<le> br_count r" "b = breach_of r"
    using newest_breach_some [OF b(1)] by blast
  have "k = \<lfloor>max 1 (of_int n :: rat)\<rfloor>" using r(4) by (auto split: if_splits)
  moreover have "max 1 (of_int n :: rat) = of_int (max 1 n)" by (simp add: of_int_max)
  ultimately have n: "n \<le> br_count r" using r(5) by (simp only: floor_of_int max.bounded_iff)
  then have "(n - MIN_CONSECUTIVE_BREACHES_TO_OPEN) * BREACH_BUMP_MIN_INTERVAL_MS
      \<le> (br_count r - MIN_CONSECUTIVE_BREACHES_TO_OPEN) * BREACH_BUMP_MIN_INTERVAL_MS"
    by (simp add: BREACH_BUMP_MIN_INTERVAL_MS_def)
  then show ?thesis
    using row_of_run [OF assms(1) r(1)] r b(2,3) n
    by (intro bexI [of _ r]) (simp_all add: breach_of_def row_ok_def)
qed

text \<open>A rule that asks for five misses, over the table after five passes.\<close>

definition sample_slo_rule :: enforcement_rule where
  "sample_slo_rule =
     \<lparr>er_id = ''e1'', er_slug = ''uptime_guard'', er_trigger = Slo_breach,
      er_condition = JObj [(''slo_slug'', JStr ''uptime''), (''min_consecutive_breaches'', JNum (Fin 5))], er_actions = [],
      cooldown_seconds = 0, ttl_seconds = 600, er_priority = None\<rparr>"

definition no_reads :: store_reads where
  "no_reads = \<lparr>open_breach = (\<lambda>_ _. None), critical_alerts = (\<lambda>_. None), find_definition = (\<lambda>_. None)\<rparr>"

lemma sample_slo_condition:
  "js_text (js_or (get_prop (er_condition sample_slo_rule) ''slo_slug'') (JStr [])) = ''uptime''"
  "to_number (js_or (get_prop (er_condition sample_slo_rule) ''min_consecutive_breaches'') (JNum (Fin 1))) = Fin (of_int 5)"
  by (simp_all add: sample_slo_rule_def js_or_def)

lemma after_passes_row:
  "map (\<lambda>r. (br_open r, br_slug r, br_count r)) (after_passes [0, 60000, 90000, 120000, 180000, 240000]) = [(True, ''uptime'', 5)]"
  by code_simp

theorem slo_rule_needs_sustained_miss_witness:
  "\<exists>s r. slo_run s \<and> breaches s = [r] \<and> br_first_at r + (5 - 3) * 51000 \<le> clock s"
proof -
  obtain s where s: "slo_run s" "breaches s = after_passes [0, 60000, 90000, 120000, 180000, 240000]"
    using passes_run [OF empty_table [of 0], of "[0, 60000, 90000, 120000, 180000, 240000]" "''b1''" "JNum (Fin (197 / 2))"]
    by (auto simp: after_passes_def)
  then obtain r where r: "breaches s = [r]" "br_open r" "br_slug r = ''uptime''" "br_count r = 5"
    using after_passes_row by (auto simp: map_eq_Cons_conv)
  then have "newest_breach (breaches s) ''uptime'' (max_with 1 (Fin (of_int 5))) = Some (breach_of r)"
    by (simp add: newest_breach_def matching_breaches_def)
  moreover have "er_trigger sample_slo_rule = Slo_breach" by (simp add: sample_slo_rule_def)
  ultimately obtain m where "evaluate_rule (no_reads\<lparr>open_breach := newest_breach (breaches s)\<rparr>) 0 sample_slo_rule = Some (Some m)"
    using sample_slo_condition by (simp add: evaluate_rule_def Let_def)
  from slo_rule_needs_sustained_miss [OF s(1) \<open>er_trigger _ = _\<close> this sample_slo_condition(2)] show ?thesis
    using s(1) r(1) by (auto simp: MIN_CONSECUTIVE_BREACHES_TO_OPEN_def BREACH_BUMP_MIN_INTERVAL_MS_def intro!: exI [of _ s] exI [of _ r])
qed

section \<open>Incidents\<close>

text \<open>A closed incident has the severity of the resolution.\<close>

definition settled :: "alert_event list \<Rightarrow> bool" where
  "settled es \<longleftrightarrow> (\<forall>e\<in>set es. \<not> ae_open e \<longrightarrow> ae_severity e = Resolved)"

lemma settled_verdict:
  assumes "alert_run s h" and "settled (events s)" and "apply_rule_result env r res s = (x, s')"
  shows "settled (events s')"
proof -
  have ok: "state_ok s" using alert_run_invariant [OF assms(1)] by blast
  then have "if x = Inr True then lifecycle_change env r res s s' else events s' = events s"
    using assms(3) breach_result(3) [OF ok] clear_result(3) [OF ok]
    by (cases "re_severity res") (simp_all add: apply_rule_result_def)
  then show ?thesis
    using assms(2)
    by (auto simp: settled_def lifecycle_change_def opened_event_def open_for_def split: if_splits option.splits)
qed

lemma settled_rules:
  "alert_run s h \<Longrightarrow> settled (events s) \<Longrightarrow> run_rules env rd budget rs counts s = (x, s') \<Longrightarrow> settled (events s')"
proof (induction rs arbitrary: counts s h)
  case (Cons r rs)
  obtain y s1 where y: "apply_rule_result env r (evaluate_rule_kind rd budget (index s) r) s = (y, s1)"
    by (cases "apply_rule_result env r (evaluate_rule_kind rd budget (index s) r) s")
  note step = verdict [OF Cons.prems(1) y] settled_verdict [OF Cons.prems(1,2) y]
  show ?case using Cons.prems(3) y step Cons.IH [OF step] by (auto split: sum.splits)
qed simp

lemma settled_core:
  assumes "map core es = map core es'" and "settled es'"
  shows "settled es"
proof -
  have "settled (map core xs) = settled xs" for xs by (simp add: settled_def core_def)
  then show ?thesis using assms by metis
qed

lemma settled_cycle:
  assumes "alert_run s h" and "settled (events s)" and "run_alert_cycle env rd de flags s = (c, s')"
  shows "settled (events s')"
proof (cases "fl_enabled flags")
  case True
  obtain r s1 where e: "evaluate_alert_rules env rd s = (r, s1)" by (cases "evaluate_alert_rules env rd s")
  have "settled (events s1)"
    using e assms(2) settled_rules [OF reindexed [OF assms(1)]]
    by (auto simp: evaluate_alert_rules_def split: option.splits if_splits)
  then have "settled (dispatch_pending de flags (events s1))" using core_dispatch by (rule settled_core [rotated])
  then show ?thesis using assms(3) True e by (auto simp: run_alert_cycle_def)
qed (use assms in \<open>auto simp: run_alert_cycle_def\<close>)

text \<open>C25: A rule on the rate of critical alerts counts incidents that are still open: resolving an incident overwrites its severity,
  so after any cycle of alerting the rule fires only while that many critical incidents are open at once, no two of
  one alert rule, and critical incidents that were resolved within the window do not count.\<close>

theorem alert_rate_counts_open_incidents:
  assumes "alert_run s h" and "settled (events s)" and "run_alert_cycle env rd de flags s = (c, s')"
    and "er_trigger rule = Alert_rate"
    and "evaluate_rule (db\<lparr>critical_alerts := critical_since (events s')\<rparr>) t rule = Some (Some m)"
    and "to_number (js_or (get_prop (er_condition rule) ''min_critical_in_window'') (JNum (Fin 5))) = Fin n"
  shows "n \<le> of_nat (length (filter (\<lambda>e. ae_open e \<and> ae_severity e = Critical) (events s')))
    \<and> length (filter (open_for rid) (events s')) \<le> 1 \<and> settled (events s')"
proof -
  have s: "settled (events s')" using assms(1-3) by (rule settled_cycle)
  obtain h' where "alert_run s' (h @ h')" using cycle_run [OF assms(1,3)] by blast
  then have t: "table_ok (events s')" using alert_run_invariant by (auto simp: state_ok_def)
  obtain since where since: "\<not> of_nat (length (filter (\<lambda>e. since \<le> ae_fired_at e \<and> ae_severity e = Critical) (events s'))) < max 1 n"
    using assms(4-6) by (auto simp: evaluate_rule_def Let_def critical_since_def split: option.splits if_splits)
  have "filter (\<lambda>e. since \<le> ae_fired_at e \<and> ae_severity e = Critical) (events s')
      = filter (\<lambda>e. since \<le> ae_fired_at e) (filter (\<lambda>e. ae_open e \<and> ae_severity e = Critical) (events s'))"
    using s by (auto simp: settled_def intro!: filter_cong)
  then have "length (filter (\<lambda>e. since \<le> ae_fired_at e \<and> ae_severity e = Critical) (events s'))
      \<le> length (filter (\<lambda>e. ae_open e \<and> ae_severity e = Critical) (events s'))"
    by (simp only: length_filter_le)
  then show ?thesis using since s t by (auto simp: table_ok_def)
qed

definition sample_rate_rule :: enforcement_rule where
  "sample_rate_rule =
     \<lparr>er_id = ''e2'', er_slug = ''alert_storm'', er_trigger = Alert_rate,
      er_condition = JObj [(''min_critical_in_window'', JNum (Fin 1)), (''window_seconds'', JNum (Fin 600))], er_actions = [],
      cooldown_seconds = 0, ttl_seconds = 600, er_priority = None\<rparr>"

lemma sample_rate_condition:
  "to_number (js_or (get_prop (er_condition sample_rate_rule) ''min_critical_in_window'') (JNum (Fin 5))) = Fin 1"
  "to_number (js_or (get_prop (er_condition sample_rate_rule) ''window_seconds'') (JNum (Fin 600))) = Fin 600"
  by (simp_all add: sample_rate_rule_def js_or_def)

theorem alert_rate_counts_open_incidents_witness:
  "\<forall>rd. \<exists>s'. snd (run_alert_cycle (sample_alert_env\<lparr>en_rules := None\<rparr>) rd ((hourly (\<lambda>_. None) 1)\<lparr>di_query_ok := False\<rparr>)
       (fst (load_alert_flags 0 None None)) (booted [sample_event])) = s'
     \<and> (1::rat) \<le> of_nat (length (filter (\<lambda>e. ae_open e \<and> ae_severity e = Critical) (events s')))"
proof
  fix rd
  let ?c = "run_alert_cycle (sample_alert_env\<lparr>en_rules := None\<rparr>) rd ((hourly (\<lambda>_. None) 1)\<lparr>di_query_ok := False\<rparr>)
      (fst (load_alert_flags 0 None None)) (booted [sample_event])"
  have e: "ae_open sample_event" "ae_severity sample_event = Critical" "ae_fired_at sample_event = en_now sample_alert_env"
    by (simp_all add: sample_event_def opened_event_def)
  have c: "?c = ((0, 0), booted [sample_event])"
    by (simp add: run_alert_cycle_def load_alert_flags_def DEFAULT_FLAGS_def evaluate_alert_rules_def dispatch_pending_def)
  have "alert_run (booted [sample_event]) []" by (rule started) (simp add: table_ok_def)
  moreover have "settled (events (booted [sample_event]))" using e by (simp add: settled_def booted_def)
  moreover have "er_trigger sample_rate_rule = Alert_rate" by (simp add: sample_rate_rule_def)
  moreover obtain m where "evaluate_rule (no_reads\<lparr>critical_alerts := critical_since (events (booted [sample_event]))\<rparr>)
      600000 sample_rate_rule = Some (Some m)"
  proof -
    have "critical_alerts (no_reads\<lparr>critical_alerts := critical_since (events (booted [sample_event]))\<rparr>) 0 = Some 1"
      using e by (simp add: critical_since_def booted_def sample_alert_env_def)
    moreover have "window_start 600000 (max_with 60 (Fin 600)) = Some 0" by (simp add: js_trunc_def)
    ultimately have "evaluate_rule (no_reads\<lparr>critical_alerts := critical_since (events (booted [sample_event]))\<rparr>) 600000 sample_rate_rule \<noteq> Some None
        \<and> evaluate_rule (no_reads\<lparr>critical_alerts := critical_since (events (booted [sample_event]))\<rparr>) 600000 sample_rate_rule \<noteq> None"
      using sample_rate_condition \<open>er_trigger _ = _\<close> unfolding evaluate_rule_def by (simp del: to_number.simps max_with.simps window_start.simps) (simp add: Let_def)
    then show thesis using that by (metis option.exhaust)
  qed
  ultimately show "\<exists>s'. snd ?c = s' \<and> (1::rat) \<le> of_nat (length (filter (\<lambda>e. ae_open e \<and> ae_severity e = Critical) (events s')))"
    using alert_rate_counts_open_incidents [OF _ _ c _ _ sample_rate_condition(1)] c by auto
qed

end
