(* ===== verification/Spec2Isabelle.thy ===== *)
theory Spec2Isabelle
  imports
    Ai_Packs
    Ai_Usage
    Alert_Evaluator
    Alert_Webhook
    Billing_Money
    Calendar
    Call_Operators
    Call_Queue
    Capability_Registry
    Card_State
    Card_Transfer
    Conversation_Lifecycle
    Effective_Policy
    Enforcement_Cycle
    Enforcement_Effects
    Enforcement_Resolver
    Engine_Requests
    Engine_Safety
    Entitlements
    Failover_Engine
    Feature_Gates
    Fixed_Decimal
    Gate_Agreement
    Gateway_Verification
    Js_Values
    Live_Collectors
    Memo_Cache
    Needs_Reply
    Node_Router
    Post_Send
    Process_Trend
    Query_Engine
    Query_Filters
    Query_Grammar
    Query_Plan
    Query_Roundtrip
    Query_Safety
    Query_Sql
    Realtime_Control
    Ring_Buffer
    Slo_Evaluator
    Sql_Text
    Trigger_Sources
begin

text \<open>
  Kindred Core is a self-hosted customer-engagement platform. The server (\<open>server/\<close>) serves the web
  console, the visitor widget and the native clients over HTTP; modules both sides need are in
  \<open>shared/\<close>. This development models decision logic of the server and of the shared modules: the
  functions that decide what is charged, accepted, started, stored and told to clients. Database
  queries, HTTP calls, digests and clocks are arguments (the clocks of replicas are one clock), and what fails is \<open>None\<close>, an error value or
  a flag of an environment record.

  \<^bold>\<open>Foundations.\<close> \<open>Prelude\<close>: collections, lists, options, ECMAScript rounding and remainder, the
  contract of a normaliser (locale \<open>normalizer\<close>). \<open>Js_Values\<close>: numbers with the infinities and
  not-a-number, untyped JSON values, truthiness and coercion, texts of code units up to 255.
  \<open>Calendar\<close>: instants, the UTC calendar and ISO texts.

  \<^bold>\<open>Money.\<close> \<open>Billing_Money\<close> (\<open>shared/simpleBilling.ts\<close>,
  \<open>billing/providers/minorAmount.ts\<close>): limits of a top-up, VAT, whole-Toman charges, units of a
  gateway. \<open>Card_State\<close> (\<open>billing/account/cardState.ts\<close>): what the saved card's subscription should
  look like and which freezes are ours. \<open>Card_Transfer\<close> (\<open>shared/cardTransfer.ts\<close>): settings of
  card-to-card top-ups; the card and account checksums detect single errors. \<open>Gateway_Verification\<close>
  (\<open>billing/providerBinding.ts\<close>, \<open>billing/gatewayVerification.ts\<close>): a callback is credited exactly
  when every listed condition holds. \<open>Ai_Packs\<close> (\<open>shared/aiPacks.ts\<close>), \<open>Fixed_Decimal\<close> and \<open>Ai_Usage\<close>
  (\<open>ai-billing/decimal.ts\<close>, \<open>normalize.ts\<close>): credit packs, the exact decimals, and the parser of
  usage reports, which counts every token once.

  \<^bold>\<open>Realtime.\<close> \<open>Realtime_Control\<close> (\<open>realtime/controlPlane.ts\<close>) reads the settings. \<open>Failover_Engine\<close>
  (\<open>failoverHealth.ts\<close>, \<open>failoverEngine.ts\<close>, \<open>failoverState.ts\<close>): health of a provider, the decision
  at each tick and what is persisted; runs of the engine are an inductive relation
  (\<open>engine_run\<close>, and \<open>settings_run\<close> where the settings may change in between), and the theorems on stability,
  lock and cool-down are inductions over them.
  \<open>Node_Router\<close> (\<open>nodeHealth.ts\<close>, \<open>nodeRouter.ts\<close>): the cache of probes and the weighted choice.
  \<open>Effective_Policy\<close> (\<open>effectivePolicy.ts\<close>, \<open>calls/controlPlane.ts\<close>,
  \<open>observability/autoActionsCache.ts\<close>): the snapshot a client gets, computed from the settings, the
  failover state, the active actions and the workspace's channels.

  \<^bold>\<open>Monitoring and enforcement.\<close> \<open>Ring_Buffer\<close> and \<open>Live_Collectors\<close>
  (\<open>observability/collector/\<close>): self-rolling rings (locale \<open>slot_ring\<close>, interpreted on the counters,
  the error counters and the histograms of the code) implement the log of what was recorded: the sum
  over a window of slots is the number of events in it. \<open>Enforcement_Resolver\<close>
  (\<open>observability/enforcementConflictResolver.ts\<close>) resolves the actions the rules want and equals a
  reference resolution. \<open>Enforcement_Cycle\<close> (\<open>observability/enforcementEngine.ts\<close>) is the cycle
  around it, over the two tables it writes. \<open>Enforcement_Effects\<close> composes the cycle, the cache of
  active actions and the policy: a started action reaches the clients. \<open>Process_Trend\<close>
  (\<open>collector/processCollector.ts\<close>, \<open>reconnectClassifier.ts\<close>) are the process samples and the reports of
  reconnects. \<open>Alert_Evaluator\<close> (\<open>observability/alertEvaluator.ts\<close>) judges the alert rules over these
  collectors and keeps the table of incidents; \<open>alert_run\<close> is the inductive relation of its histories.
  \<open>Alert_Webhook\<close> (\<open>observability/alerting.ts\<close>) is the cycle around it and the delivery of the
  notifications. \<open>Slo_Evaluator\<close> (\<open>observability/sloEvaluator.ts\<close>) opens, counts and resolves the breaches
  of service objectives; \<open>slo_run\<close> interleaves the reads and the conditional updates of any number of
  replicas, and a pass of the code is shown to be such a run. \<open>Trigger_Sources\<close> gives the enforcement
  cycle its two triggers as queries over the tables those evaluators write, and composes the invariants:
  what must have happened for an enforcement rule to fire.

  \<^bold>\<open>Calls.\<close> \<open>Call_Operators\<close> (\<open>calls/permissions.ts\<close>, \<open>availability.ts\<close>, \<open>departments.ts\<close>,
  \<open>globalAdvancedRouting.ts\<close>, \<open>routing.ts\<close>): who may take a call and to whom it goes. \<open>Call_Queue\<close>
  (\<open>calls/queue.ts\<close>, \<open>queueTicker.ts\<close>, \<open>server/routes/callQueue.ts\<close>): the table of waiting calls with its
  key and its index of active entries; \<open>queue_step\<close> is one operation on it, a pass of the ticker is shown
  to be a sequence of them, and the theorems are inductions over such sequences. What goes wrong when an
  answer comes between a query of the ticker and its update is a theorem of its own.

  \<^bold>\<open>Plans and gates.\<close> \<open>Capability_Registry\<close> (\<open>billing/capabilityRegistry.ts\<close>) is the table of capabilities, with the check
  of a plan. \<open>Entitlements\<close> (\<open>billing/planSelection.ts\<close>, \<open>effectiveEntitlements.ts\<close>, \<open>servicePlanLimits.ts\<close>,
  \<open>shared/planLimits.ts\<close>): the plan in force and the snapshot a client renders. \<open>Feature_Gates\<close>
  (\<open>server/middleware/featureGating.ts\<close>, \<open>billing/entitlementParse.ts\<close> and the services that decide with them): the functions of
  the database, the cached checks and the gates. \<open>Gate_Agreement\<close> shows that gates and snapshot agree for every
  capability of the registry, and where enforcement departs from what its comments say. PostgreSQL's casts of a JSON
  value are a parameter; the theorem asks of them only that a boolean and a whole number in range are read as themselves.

  \<^bold>\<open>Conversations.\<close> \<open>Needs_Reply\<close> (\<open>needsReply.ts\<close>, \<open>conversationResumeEligibility.ts\<close>,
  \<open>shared/inactivityClose.ts\<close>): which message is a real reply of the customer, which one answers it, whether an
  answer is owed; the walk of the code is shown equal to a fold over the history. \<open>Conversation_Lifecycle\<close>
  (\<open>conversationLifecycle.ts\<close>, \<open>conversationPending.ts\<close>, \<open>conversationMetadata.ts\<close>, \<open>idleCloseRace.ts\<close>): what a message of the customer does
  to the state of its conversation. \<open>Post_Send\<close> (\<open>conversationPostSend.ts\<close> and the function of migration 070): the action after an
  operator's message; \<open>inbox_run\<close> interleaves messages, the statements of their lifecycles, actions and other writers.

  \<^bold>\<open>Caching.\<close> \<open>Memo_Cache\<close> (\<open>lib/memoCache.ts\<close>): the memo of hot reads over an insertion-ordered map
  (locale \<open>ordered_map\<close>, interpreted on association lists) and the token bucket for misses.
  Concurrent requests, loads that end and invalidations are sequences of steps; the gate's runs are an
  inductive relation.

  \<^bold>\<open>The data layer.\<close> \<open>server/db/postgrest/\<close> answers the REST requests of the query builder with SQL; all
  code of the server reads and writes through it. \<open>Sql_Text\<close> (\<open>sql.ts\<close>): quoting and bind parameters.
  \<open>Query_Grammar\<close> (\<open>grammar.ts\<close>): the parser of select lists, filters, logic trees and orders;
  \<open>Query_Roundtrip\<close> prints the trees and shows that exactly the well-formed ones are read back (locales
  \<open>item_reader\<close> and \<open>printed_item\<close>, interpreted on the readers of the code). \<open>Query_Plan\<close> (\<open>plan.ts\<close>,
  \<open>schemaCache.ts\<close>): the parameters and the read tree over the schema snapshot. \<open>Query_Sql\<close> (\<open>plan.ts\<close>): the text of
  a statement, its parameters threaded through a writer. \<open>Query_Engine\<close> (\<open>engine.ts\<close>, \<open>errors.ts\<close>): from a
  request to the one statement, and from its rows to the response. \<open>Query_Safety\<close> and \<open>Engine_Safety\<close> show
  that the text of a statement is built of fixed words, quoted tokens, numbers and placeholders;
  \<open>Query_Filters\<close> that no value of a filter or payload influences the text and that a delete or update
  carries a conjunct for every condition, twice when a limit adds a sub-select; \<open>Engine_Requests\<close> what a request runs and how its nodes are
  named.

  \<^bold>\<open>Bounds, fuel and numbers.\<close> All recursions are total: the eviction loop by the length of the map,
  the decimal and radix parsers by their text, the calendar by arithmetic. The readers of the query grammar
  test that the rest became shorter, which is proved never to fail. Only \<open>drain_rounds\<close> takes a
  number of rounds, and the number of waiters is proved enough; the text of a number tries up to
  twenty fraction digits. Integers of the code are safe
  integers and modelled as \<open>int\<close> or \<open>nat\<close>; bigints are \<open>int\<close>; fractions are exact rationals where the
  code uses doubles, so a statement about a fraction holds up to rounding. Bounds of double range are
  written out where text is parsed. Texts are byte strings; a character beyond U+00FF is its UTF-8
  encoding and is only compared and copied.

  \<^bold>\<open>Stated simplifications.\<close> A handler that reads the clock several times within one synchronous
  stretch reads one instant. A query is answered completely or fails. Iterating a JavaScript map is
  walking an association list in insertion order. In the data layer limits and
  offsets are exact naturals (the code's are doubles, equal up to \<open>2 ^ 53\<close>), letters are those of
  Latin-1, the segments of a path come decoded and a body comes as its JSON value with the keys in the
  order of \<open>Object.keys\<close>.

  \<^bold>\<open>Left out so far.\<close> The fan-out of plan changes and the counters of use, the gates of the AI agent, conversation assignment
  and chat routing, the ticker of the inactivity close, concurrency limits and billable minutes of call sessions, and the poll cadence of the job
  consumers are decision logic too and are not modelled yet; so are the rollups behind the service
  objectives, which are arguments here.

  \<^bold>\<open>Not modelled.\<close> The console, the widgets and the native clients (rendering and clients of the
  modelled decisions); the HTTP routes (glue around services); adapters of third-party services
  (channels, mail, push, storage, AI providers, payment gateways); SQL, migrations and generated types;
  the probes, timers, log lines and the process-wide tickers around the modelled steps.
\<close>

end
